(* ===== verification/Prelude.thy ===== *)
theory Prelude
  imports Complex_Main "HOL-Library.Word" "HOL-Library.AList" "HOL-Library.Code_Target_Numeral"
begin

text \<open>
  Shared material of the development: the clock, saturating duration arithmetic, the
  "update the first element that matches" loop that the Go sources use on slices of
  pointers, association lists that stand for Go maps, and the lemma collections.

  Conventions used by every component theory:
  \<^item> a Go method \<open>(x *T) Op\<close> is the HOL constant \<open>T_Op\<close>; a state-changing method takes the
    state as its first argument and returns the new one (paired with its Go results);
  \<^item> \<open>time.Now()\<close> is an explicit argument \<open>now\<close>, one reading of the clock per call;
  \<^item> the zero \<open>time.Time\<close> is \<open>0\<close>, and other instants count nanoseconds from it;
  \<^item> Go's \<open>int\<close> and \<open>time.Duration\<close> are \<open>int\<close>, with saturation or the 64-bit bound written
    out where the code depends on it; \<open>uint64\<close> counters are \<open>64 word\<close>;
  \<^item> a Go map is an association list with distinct keys (\<open>map_of\<close> reads it,
    \<open>AList.update\<close> writes it), so that \<open>len\<close> and emptiness stay computable.
\<close>

named_theorems step_upd_simps \<open>what a step update leaves unchanged\<close>
named_theorems plan_ops \<open>unfolding equations of the plan operations\<close>

section \<open>Clock and durations\<close>

type_synonym time = int
type_synonym duration = int

definition zero_time :: time where
  "zero_time = 0"

definition IsZero :: "time \<Rightarrow> bool" where
  "IsZero t \<longleftrightarrow> t = zero_time"

definition max_int64 :: int where
  "max_int64 = 9223372036854775807"

definition min_int64 :: int where
  "min_int64 = - 9223372036854775808"

text \<open>\<open>Time.Sub\<close> saturates at the limits of a 64-bit duration.\<close>

definition time_sub :: "time \<Rightarrow> time \<Rightarrow> duration" where
  "time_sub t u = max min_int64 (min max_int64 (t - u))"

definition nanosecond :: duration where "nanosecond = 1"
definition second :: duration where "second = 1000000000"
definition minute :: duration where "minute = 60000000000"

lemma time_sub_bounds: "min_int64 \<le> time_sub t u" "time_sub t u \<le> max_int64"
  by (simp_all add: time_sub_def min_int64_def max_int64_def)

lemma time_sub_exact:
  "\<bar>t - u\<bar> \<le> max_int64 \<Longrightarrow> time_sub t u = t - u"
  by (auto simp: time_sub_def min_int64_def max_int64_def)

lemma time_sub_mono: "t \<le> t' \<Longrightarrow> time_sub t u \<le> time_sub t' u"
  by (auto simp: time_sub_def)

lemma IsZero_zero [simp]: "IsZero zero_time"
  by (simp add: IsZero_def)

section \<open>Updating the first match in a slice\<close>

text \<open>
  The sources update one element of a slice of pointers by a loop that stops at the first
  match: \<^verbatim>\<open>for _, x := range xs { if p(x) { ...; break } }\<close>.
\<close>

fun update_first :: "('a \<Rightarrow> bool) \<Rightarrow> ('a \<Rightarrow> 'a) \<Rightarrow> 'a list \<Rightarrow> 'a list" where
  "update_first P f [] = []"
| "update_first P f (x # xs) = (if P x then f x # xs else x # update_first P f xs)"

lemma length_update_first [simp]: "length (update_first P f xs) = length xs"
  by (induction xs) auto

lemma update_first_Nil_iff [simp]: "update_first P f xs = [] \<longleftrightarrow> xs = []"
  by (cases xs) auto

lemma update_first_absent: "List.find P xs = None \<Longrightarrow> update_first P f xs = xs"
  by (induction xs) (auto split: if_splits)

lemma map_update_first:
  "(\<And>x. P x \<Longrightarrow> g (f x) = g x) \<Longrightarrow> map g (update_first P f xs) = map g xs"
  by (induction xs) auto

lemma find_update_first:
  "(\<And>x. P x \<Longrightarrow> P (f x)) \<Longrightarrow> List.find P (update_first P f xs) = map_option f (List.find P xs)"
  by (induction xs) auto

lemma find_update_first_other:
  "(\<And>x. P x \<Longrightarrow> \<not> Q x \<and> \<not> Q (f x)) \<Longrightarrow> List.find Q (update_first P f xs) = List.find Q xs"
  by (induction xs) auto

lemma update_first_all:
  assumes "\<forall>x \<in> set xs. R x" and "\<And>x. P x \<Longrightarrow> R x \<Longrightarrow> R (f x)"
  shows "\<forall>x \<in> set (update_first P f xs). R x"
  using assms by (induction xs) auto

lemma update_first_list_all:
  "list_all R xs \<Longrightarrow> (\<And>x. P x \<Longrightarrow> R x \<Longrightarrow> R (f x)) \<Longrightarrow> list_all R (update_first P f xs)"
  by (induction xs) auto

lemma update_first_eq:
  "List.find P xs = Some x \<Longrightarrow> f x = g x \<Longrightarrow> update_first P f xs = update_first P g xs"
  by (induction xs) (auto split: if_splits)

lemma set_update_first_iff:
  assumes "List.find P xs = Some x"
  shows "y \<in> set (update_first P f xs) \<Longrightarrow> y = f x \<or> y \<in> set xs"
  using assms by (induction xs) (auto split: if_splits)

lemma in_set_update_first:
  "List.find P xs = Some x \<Longrightarrow> f x \<in> set (update_first P f xs)"
  by (induction xs) (auto split: if_splits)

text \<open>With distinct keys the loop is a pointwise update.\<close>

lemma update_first_key:
  "distinct (map k xs) \<Longrightarrow>
   update_first (\<lambda>x. k x = i) f xs = map (\<lambda>x. if k x = i then f x else x) xs"
proof (induction xs)
  case (Cons x xs)
  then have rest: "k x = i \<Longrightarrow> map (\<lambda>y. if k y = i then f y else y) xs = xs"
    by (intro map_idI) (force simp: image_iff)
  with Cons show ?case by auto
qed simp

lemma find_SomeD:
  "List.find P xs = Some x \<Longrightarrow> x \<in> set xs \<and> P x"
  by (induction xs) (auto split: if_splits)

lemma find_None_iff_not: "List.find P xs = None \<longleftrightarrow> (\<forall>x \<in> set xs. \<not> P x)"
  by (induction xs) auto

lemma find_map_key:
  "(\<And>x. k (f x) = k x) \<Longrightarrow>
   List.find (\<lambda>x. k x = i) (map f xs) = map_option f (List.find (\<lambda>x. k x = i) xs)"
  by (induction xs) auto

lemma find_append_Some: "List.find P xs = Some x \<Longrightarrow> List.find P (xs @ ys) = Some x"
  by (induction xs) (auto split: if_splits)

lemma find_key_distinct:
  "distinct (map k xs) \<Longrightarrow> x \<in> set xs \<Longrightarrow> List.find (\<lambda>y. k y = k x) xs = Some x"
  by (induction xs) (auto simp: rev_image_eqI)

section \<open>Association lists as Go maps\<close>

lemma map_of_update [simp]: "map_of (AList.update k v m) = (map_of m)(k \<mapsto> v)"
  by (rule AList.update_conv')

lemma map_of_delete [simp]: "map_of (AList.delete k m) = (map_of m)(k := None)"
  by (rule AList.delete_conv')

lemma map_of_map_value:
  "map_of (map (\<lambda>(k, v). (k, g k v)) m) k = map_option (g k) (map_of m k)"
  by (induction m) auto

section \<open>Small list facts\<close>

lemma take_drop_last: "length xs \<le> n \<Longrightarrow> drop (length xs - n) xs = xs"
  by simp

lemma set_drop_subset_app: "set (drop n (xs @ [x])) \<subseteq> insert x (set xs)"
  using set_drop_subset [of n "xs @ [x]"] by auto

lemma filter_all_iff: "filter P xs = xs \<longleftrightarrow> (\<forall>x \<in> set xs. P x)"
  by (auto simp: filter_id_conv)

end
