(* ===== verification/GoStrings.thy ===== *)
theory GoStrings
  imports Prelude
begin

text \<open>
  The part of Go's \<open>strings\<close> package the modelled code calls, on strings as byte lists (a Go
  string is a sequence of bytes, and \<open>char\<close> is one byte):
  \<^item> \<open>HasPrefix\<close>, \<open>HasSuffix\<close>, \<open>Index\<close>, \<open>Contains\<close>, \<open>Join\<close>;
  \<^item> \<open>TrimSpace\<close>, exact on every byte string: \<open>unicode.IsSpace\<close> accepts the code points of
    \<open>space_encodings\<close>, and a byte string starts (ends) with such a code point exactly when it
    starts (ends) with its UTF-8 encoding;
  \<^item> \<open>ToLower\<close> as seen by a search for an ASCII pattern: ASCII letters are lowered, and so are the
    only two other code points whose lower case is an ASCII letter (the Kelvin sign U+212A and
    the dotted capital I U+0130); every other non-ASCII byte is left alone, since its image is
    non-ASCII and cannot take part in a match with an ASCII pattern. The modelled code uses
    \<open>ToLower\<close> only that way.
\<close>

section \<open>Prefixes, suffixes, search\<close>

definition has_prefix :: "'a list \<Rightarrow> 'a list \<Rightarrow> bool" where
  "has_prefix s p \<longleftrightarrow> take (length p) s = p"

definition has_suffix :: "'a list \<Rightarrow> 'a list \<Rightarrow> bool" where
  "has_suffix s p \<longleftrightarrow> length p \<le> length s \<and> drop (length s - length p) s = p"

text \<open>\<open>strings.Index\<close>: the least offset at which the pattern occurs; \<open>None\<close> is Go's \<open>-1\<close>.\<close>

fun index_of :: "'a list \<Rightarrow> 'a list \<Rightarrow> nat option" where
  "index_of [] p = (if p = [] then Some 0 else None)"
| "index_of (x # xs) p =
     (if has_prefix (x # xs) p then Some 0 else map_option Suc (index_of xs p))"

definition contains :: "'a list \<Rightarrow> 'a list \<Rightarrow> bool" where
  "contains s p \<longleftrightarrow> index_of s p \<noteq> None"

fun join :: "'a list \<Rightarrow> 'a list list \<Rightarrow> 'a list" where
  "join sep [] = []"
| "join sep [x] = x"
| "join sep (x # y # ys) = x @ sep @ join sep (y # ys)"

lemma has_prefix_iff: "has_prefix s p \<longleftrightarrow> (\<exists>r. s = p @ r)"
  by (metis append_eq_conv_conj has_prefix_def append_take_drop_id)

lemma has_suffix_iff: "has_suffix s p \<longleftrightarrow> (\<exists>r. s = r @ p)"
proof
  assume "has_suffix s p"
  then have "s = take (length s - length p) s @ p"
    by (metis append_take_drop_id has_suffix_def)
  then show "\<exists>r. s = r @ p" by blast
next
  assume "\<exists>r. s = r @ p"
  then show "has_suffix s p" by (auto simp: has_suffix_def)
qed

lemma index_of_SomeD:
  "index_of s p = Some i \<Longrightarrow> i + length p \<le> length s \<and> has_prefix (drop i s) p"
proof (induction s arbitrary: i)
  case Nil
  then show ?case by (auto simp: has_prefix_def split: if_splits)
next
  case (Cons x xs)
  show ?case
  proof (cases "has_prefix (x # xs) p")
    case True
    then have "length p \<le> length (x # xs)"
      by (auto simp: has_prefix_iff dest!: arg_cong [where f = length])
    with True Cons.prems show ?thesis by simp
  next
    case False
    with Cons.prems obtain j where "index_of xs p = Some j" "i = Suc j" by auto
    with Cons.IH show ?thesis by simp
  qed
qed

lemma index_of_least:
  "index_of s p = Some i \<Longrightarrow> j < i \<Longrightarrow> \<not> has_prefix (drop j s) p"
proof (induction s arbitrary: i j)
  case (Cons x xs)
  then show ?case by (cases j) (auto split: if_splits)
qed (auto split: if_splits)

lemma index_of_NoneD:
  "index_of s p = None \<Longrightarrow> \<not> has_prefix (drop j s) p"
proof (induction s arbitrary: j)
  case Nil
  then show ?case by (auto simp: has_prefix_def split: if_splits)
next
  case (Cons x xs)
  then show ?case by (cases j) (auto split: if_splits)
qed

lemma index_ofI:
  assumes "has_prefix (drop i s) p" and "i \<le> length s"
    and "\<And>j. j < i \<Longrightarrow> \<not> has_prefix (drop j s) p"
  shows "index_of s p = Some i"
proof (cases "index_of s p")
  case None
  with index_of_NoneD [of s p i] assms(1) show ?thesis by simp
next
  case (Some k)
  have "\<not> i < k" using index_of_least [OF Some] assms(1) by blast
  moreover have "\<not> k < i" using index_of_SomeD [OF Some] assms(3) by blast
  ultimately show ?thesis using Some by simp
qed

lemma contains_iff: "contains s p \<longleftrightarrow> (\<exists>a b. s = a @ p @ b)"
proof
  assume "contains s p"
  then obtain i where i: "index_of s p = Some i" by (auto simp: contains_def)
  then have "has_prefix (drop i s) p" by (simp add: index_of_SomeD)
  then obtain r where "drop i s = p @ r" by (auto simp: has_prefix_iff)
  then have "s = take i s @ p @ r" by (metis append_take_drop_id)
  then show "\<exists>a b. s = a @ p @ b" by blast
next
  assume "\<exists>a b. s = a @ p @ b"
  then obtain a b where s: "s = a @ p @ b" by blast
  then have "has_prefix (drop (length a) s) p" by (simp add: has_prefix_def)
  with index_of_NoneD show "contains s p" by (auto simp: contains_def)
qed

section \<open>White space\<close>

definition space_encodings :: "string list" where
  "space_encodings =
     [[CHR 0x09], [CHR 0x0A], [CHR 0x0B], [CHR 0x0C], [CHR 0x0D], [CHR 0x20],
      [CHR 0xC2, CHR 0x85], [CHR 0xC2, CHR 0xA0], [CHR 0xE1, CHR 0x9A, CHR 0x80],
      [CHR 0xE2, CHR 0x80, CHR 0x80], [CHR 0xE2, CHR 0x80, CHR 0x81],
      [CHR 0xE2, CHR 0x80, CHR 0x82], [CHR 0xE2, CHR 0x80, CHR 0x83],
      [CHR 0xE2, CHR 0x80, CHR 0x84], [CHR 0xE2, CHR 0x80, CHR 0x85],
      [CHR 0xE2, CHR 0x80, CHR 0x86], [CHR 0xE2, CHR 0x80, CHR 0x87],
      [CHR 0xE2, CHR 0x80, CHR 0x88], [CHR 0xE2, CHR 0x80, CHR 0x89],
      [CHR 0xE2, CHR 0x80, CHR 0x8A], [CHR 0xE2, CHR 0x80, CHR 0xA8],
      [CHR 0xE2, CHR 0x80, CHR 0xA9], [CHR 0xE2, CHR 0x80, CHR 0xAF],
      [CHR 0xE2, CHR 0x81, CHR 0x9F], [CHR 0xE3, CHR 0x80, CHR 0x80]]"

text \<open>The length of the white space code point a string starts (ends) with; 0 if none.\<close>

definition lead_space :: "string \<Rightarrow> nat" where
  "lead_space s = (case List.find (has_prefix s) space_encodings of None \<Rightarrow> 0 | Some w \<Rightarrow> length w)"

definition trail_space :: "string \<Rightarrow> nat" where
  "trail_space s = (case List.find (has_suffix s) space_encodings of None \<Rightarrow> 0 | Some w \<Rightarrow> length w)"

lemma space_encoding_nonempty: "w \<in> set space_encodings \<Longrightarrow> w \<noteq> []"
  by (auto simp: space_encodings_def)

lemma lead_space_eq_0: "lead_space s = 0 \<longleftrightarrow> (\<forall>w \<in> set space_encodings. \<not> has_prefix s w)"
  using space_encoding_nonempty
  by (auto simp: lead_space_def find_None_iff_not split: option.splits dest: find_SomeD)

lemma trail_space_eq_0: "trail_space s = 0 \<longleftrightarrow> (\<forall>w \<in> set space_encodings. \<not> has_suffix s w)"
  using space_encoding_nonempty
  by (auto simp: trail_space_def find_None_iff_not split: option.splits dest: find_SomeD)

lemma lead_space_le: "lead_space s \<le> length s"
  by (auto simp: lead_space_def has_prefix_iff split: option.splits dest!: find_SomeD)

lemma trail_space_le: "trail_space s \<le> length s"
  by (auto simp: trail_space_def has_suffix_iff split: option.splits dest!: find_SomeD)

lemma lead_space_Nil [simp]: "lead_space [] = 0"
  using lead_space_le [of "[]"] by simp

lemma trail_space_Nil [simp]: "trail_space [] = 0"
  using trail_space_le [of "[]"] by simp

lemma lead_space_shrinks:
  "lead_space s \<noteq> 0 \<Longrightarrow> length (drop (lead_space s) s) < length s"
  using lead_space_le [of s] by simp

lemma trail_space_shrinks:
  "trail_space s \<noteq> 0 \<Longrightarrow> length (take (length s - trail_space s) s) < length s"
  using trail_space_le [of s] by simp

function trim_left :: "string \<Rightarrow> string" where
  "trim_left s = (if lead_space s = 0 then s else trim_left (drop (lead_space s) s))"
  by pat_completeness auto
termination
  by (relation "measure length") (simp_all add: lead_space_shrinks del: length_drop)

function trim_right :: "string \<Rightarrow> string" where
  "trim_right s = (if trail_space s = 0 then s else trim_right (take (length s - trail_space s) s))"
  by pat_completeness auto
termination
  by (relation "measure length") (simp_all add: trail_space_shrinks del: length_take)

declare trim_left.simps [simp del] trim_right.simps [simp del]

text \<open>\<open>strings.TrimSpace\<close>.\<close>

definition trim_space :: "string \<Rightarrow> string" where
  "trim_space s = trim_right (trim_left s)"

section \<open>Lower case, as an ASCII pattern sees it\<close>

definition lower_char :: "char \<Rightarrow> char" where
  "lower_char c =
     (let n = of_char c :: nat in if 65 \<le> n \<and> n \<le> 90 then char_of (n + 32) else c)"

fun to_lower :: "string \<Rightarrow> string" where
  "to_lower [] = []"
| "to_lower (c # cs) =
     (if has_prefix (c # cs) [CHR 0xE2, CHR 0x84, CHR 0xAA] then CHR ''k'' # to_lower (drop 2 cs)
      else if has_prefix (c # cs) [CHR 0xC4, CHR 0xB0] then CHR ''i'' # to_lower (drop 1 cs)
      else lower_char c # to_lower cs)"

section \<open>Laws of trimming\<close>

lemma trim_left_fixed: "lead_space s = 0 \<Longrightarrow> trim_left s = s"
  by (subst trim_left.simps) simp

lemma trim_right_fixed: "trail_space s = 0 \<Longrightarrow> trim_right s = s"
  by (subst trim_right.simps) simp

lemma lead_space_trim_left [simp]: "lead_space (trim_left s) = 0"
proof (induction s rule: trim_left.induct)
  case (1 s)
  then show ?case by (subst trim_left.simps) simp
qed

lemma trail_space_trim_right [simp]: "trail_space (trim_right s) = 0"
proof (induction s rule: trim_right.induct)
  case (1 s)
  then show ?case by (subst trim_right.simps) simp
qed

lemma trim_right_take: "\<exists>n. trim_right s = take n s"
proof (induction s rule: trim_right.induct)
  case (1 s)
  show ?case
  proof (cases "trail_space s = 0")
    case True
    then have "trim_right s = take (length s) s" by (simp add: trim_right_fixed)
    then show ?thesis by blast
  next
    case False
    with 1 show ?thesis by (subst trim_right.simps) (simp, metis take_take)
  qed
qed

lemma trim_left_drop: "\<exists>n. trim_left s = drop n s"
proof (induction s rule: trim_left.induct)
  case (1 s)
  show ?case
  proof (cases "lead_space s = 0")
    case True
    then have "trim_left s = drop 0 s" by (simp add: trim_left_fixed)
    then show ?thesis by blast
  next
    case False
    with 1 show ?thesis by (subst trim_left.simps) (simp, metis drop_drop)
  qed
qed

lemma lead_space_take: "lead_space s = 0 \<Longrightarrow> lead_space (take n s) = 0"
  by (auto simp: lead_space_eq_0 has_prefix_iff) (metis append.assoc append_take_drop_id)

lemma lead_space_trim_right: "lead_space s = 0 \<Longrightarrow> lead_space (trim_right s) = 0"
  using trim_right_take [of s] lead_space_take by auto

lemma lead_space_trim_space [simp]: "lead_space (trim_space s) = 0"
  by (simp add: trim_space_def lead_space_trim_right)

lemma trail_space_trim_space [simp]: "trail_space (trim_space s) = 0"
  by (simp add: trim_space_def)

lemma trim_space_fixed: "lead_space s = 0 \<Longrightarrow> trail_space s = 0 \<Longrightarrow> trim_space s = s"
  by (simp add: trim_space_def trim_left_fixed trim_right_fixed)

lemma trim_space_idem [simp]: "trim_space (trim_space s) = trim_space s"
  by (simp add: trim_space_fixed)

lemma trim_space_Nil [simp]: "trim_space [] = []"
  by (simp add: trim_space_fixed)

lemma length_trim_space: "length (trim_space s) \<le> length s"
proof -
  obtain n where n: "trim_left s = drop n s" using trim_left_drop by blast
  obtain m where m: "trim_right (trim_left s) = take m (trim_left s)" using trim_right_take by blast
  show ?thesis unfolding trim_space_def m by (simp add: n)
qed

text \<open>A string that begins and ends with a printable ASCII byte has nothing to trim.\<close>

definition printable :: "char \<Rightarrow> bool" where
  "printable c \<longleftrightarrow> 33 \<le> (of_char c :: nat) \<and> (of_char c :: nat) \<le> 126"

lemma space_encoding_ends:
  "w \<in> set space_encodings \<Longrightarrow> \<not> printable (hd w) \<and> \<not> printable (last w)"
  by (auto simp: space_encodings_def printable_def)

lemma trim_space_printable:
  assumes "s \<noteq> []" "printable (hd s)" "printable (last s)"
  shows "trim_space s = s"
proof (rule trim_space_fixed)
  have "\<not> has_prefix s w" if "w \<in> set space_encodings" for w
    using assms(2) space_encoding_ends [OF that] space_encoding_nonempty [OF that]
    by (auto simp: has_prefix_iff)
  then show "lead_space s = 0" by (simp add: lead_space_eq_0)
  have "\<not> has_suffix s w" if "w \<in> set space_encodings" for w
    using assms(3) space_encoding_ends [OF that] space_encoding_nonempty [OF that]
    by (auto simp: has_suffix_iff)
  then show "trail_space s = 0" by (simp add: trail_space_eq_0)
qed

text \<open>Text that is already lower-case ASCII is unchanged.\<close>

definition plain_lower :: "char \<Rightarrow> bool" where
  "plain_lower c \<longleftrightarrow> (of_char c :: nat) < 128 \<and> \<not> (65 \<le> (of_char c :: nat) \<and> (of_char c :: nat) \<le> 90)"

lemma to_lower_fixed: "list_all plain_lower s \<Longrightarrow> to_lower s = s"
  by (induction s) (auto simp: plain_lower_def has_prefix_def lower_char_def Let_def)

end
