(* ===== verification/GoFormat.thy ===== *)
theory GoFormat
  imports GoStrings
begin

text \<open>
  The number formatting and scanning of Go's standard library that the modelled code relies
  on: decimal printing (\<open>fmt\<close> verb \<open>%d\<close>), \<open>strconv.Atoi\<close> with its 64-bit range,
  \<open>time.Duration.String\<close>, and the \<open>SkipSpace\<close> of \<open>fmt.Sscanf\<close>.
\<close>

section \<open>Decimal numbers\<close>

definition digit_char :: "nat \<Rightarrow> char" where
  "digit_char d = char_of (48 + d)"

definition is_digit :: "char \<Rightarrow> bool" where
  "is_digit c \<longleftrightarrow> 48 \<le> (of_char c :: nat) \<and> (of_char c :: nat) \<le> 57"

definition digit_val :: "char \<Rightarrow> nat" where
  "digit_val c = of_char c - 48"

fun show_nat :: "nat \<Rightarrow> string" where
  "show_nat n = (if n < 10 then [digit_char n] else show_nat (n div 10) @ [digit_char (n mod 10)])"

declare show_nat.simps [simp del]

definition show_int :: "int \<Rightarrow> string" where
  "show_int i = (if i < 0 then CHR ''-'' # show_nat (nat (- i)) else show_nat (nat i))"

definition read_nat :: "string \<Rightarrow> nat" where
  "read_nat s = foldl (\<lambda>n c. 10 * n + digit_val c) 0 s"

lemma digit_char_val [simp]: "d < 10 \<Longrightarrow> digit_val (digit_char d) = d"
  by (simp add: digit_val_def digit_char_def)

lemma is_digit_digit_char [simp]: "d < 10 \<Longrightarrow> is_digit (digit_char d)"
  by (simp add: is_digit_def digit_char_def)

lemma show_nat_nonempty [simp]: "show_nat n \<noteq> []"
  by (subst show_nat.simps) simp

lemma show_nat_digits: "\<forall>c \<in> set (show_nat n). is_digit c"
proof (induction n rule: show_nat.induct)
  case (1 n)
  then show ?case by (subst show_nat.simps) auto
qed

lemma read_show_nat: "read_nat (show_nat n) = n"
proof (induction n rule: show_nat.induct)
  case (1 n)
  show ?case
  proof (cases "n < 10")
    case True
    then show ?thesis by (subst show_nat.simps) (simp add: read_nat_def)
  next
    case False
    with 1 have "read_nat (show_nat (n div 10)) = n div 10" by simp
    with False show ?thesis
      by (subst show_nat.simps) (simp add: read_nat_def)
  qed
qed

text \<open>
  \<open>strconv.Atoi\<close> on a string: an optional sign, then one or more digits. The error values
  carry what the function returns beside the error: 0 for a syntax error, the nearest 64-bit
  value for a range error.
\<close>

datatype atoi_result = AtoiOk int | AtoiSyntax | AtoiRange int

definition split_sign :: "string \<Rightarrow> bool \<times> string" where
  "split_sign s =
     (case s of [] \<Rightarrow> (False, [])
      | c # cs \<Rightarrow> if c = CHR ''-'' then (True, cs) else if c = CHR ''+'' then (False, cs) else (False, s))"

definition clamp_signed :: "bool \<Rightarrow> nat \<Rightarrow> atoi_result" where
  "clamp_signed neg n =
     (if neg then (if - int n < min_int64 then AtoiRange min_int64 else AtoiOk (- int n))
      else (if max_int64 < int n then AtoiRange max_int64 else AtoiOk (int n)))"

definition atoi :: "string \<Rightarrow> atoi_result" where
  "atoi s =
     (let (neg, ds) = split_sign s
      in if ds = [] \<or> \<not> list_all is_digit ds then AtoiSyntax else clamp_signed neg (read_nat ds))"

definition atoi_value :: "atoi_result \<Rightarrow> int" where
  "atoi_value r = (case r of AtoiOk i \<Rightarrow> i | AtoiSyntax \<Rightarrow> 0 | AtoiRange i \<Rightarrow> i)"

definition atoi_ok :: "atoi_result \<Rightarrow> bool" where
  "atoi_ok r = (case r of AtoiOk _ \<Rightarrow> True | _ \<Rightarrow> False)"

lemma split_sign_digit: "s \<noteq> [] \<Longrightarrow> is_digit (hd s) \<Longrightarrow> split_sign s = (False, s)"
  by (cases s) (auto simp: split_sign_def is_digit_def)

lemma atoi_show_nat: "int n \<le> max_int64 \<Longrightarrow> atoi (show_nat n) = AtoiOk (int n)"
proof -
  assume n: "int n \<le> max_int64"
  have "split_sign (show_nat n) = (False, show_nat n)"
    using show_nat_digits [of n] by (intro split_sign_digit) auto
  with n show ?thesis
    using show_nat_digits [of n]
    by (simp add: atoi_def clamp_signed_def read_show_nat list_all_iff)
qed

section \<open>Durations\<close>

text \<open>
  \<open>fmtFrac\<close>: the decimal fraction \<open>v / 10 ^ prec\<close> without trailing zeros, nothing at all for a
  zero fraction; it is built from the last digit on.
\<close>

fun frac_digits :: "nat \<Rightarrow> nat \<Rightarrow> bool \<Rightarrow> string \<Rightarrow> string" where
  "frac_digits 0 v printing acc = (if printing then CHR ''.'' # acc else acc)"
| "frac_digits (Suc p) v printing acc =
     (let d = v mod 10; printing' = (printing \<or> d \<noteq> 0)
      in frac_digits p (v div 10) printing' (if printing' then digit_char d # acc else acc))"

definition fmt_scaled :: "nat \<Rightarrow> nat \<Rightarrow> string \<Rightarrow> string" where
  "fmt_scaled u prec unit = show_nat (u div 10 ^ prec) @ frac_digits prec u False unit"

definition duration_string :: "duration \<Rightarrow> string" where
  "duration_string d =
     (let u = nat \<bar>d\<bar>;
          body =
            (if u = 0 then ''0s''
             else if u < 1000 then fmt_scaled u 0 ''ns''
             else if u < 1000000 then fmt_scaled u 3 [CHR 0xC2, CHR 0xB5, CHR ''s'']
             else if u < 1000000000 then fmt_scaled u 6 ''ms''
             else
               let secs = u div 1000000000;
                   s_part = show_nat (secs mod 60) @ frac_digits 9 u False ''s'';
                   mins = secs div 60
               in if mins = 0 then s_part
                  else let m_part = show_nat (mins mod 60) @ ''m'' @ s_part; hours = mins div 60
                       in if hours = 0 then m_part else show_nat hours @ ''h'' @ m_part)
      in if d < 0 then CHR ''-'' # body else body)"

section \<open>Scanning\<close>

text \<open>
  \<open>SkipSpace\<close> of \<open>fmt.Sscanf\<close>: white space is skipped, but a newline (also as \<open>\r\n\<close> only the
  carriage return is passed over) ends the scan with an error, \<open>None\<close> here.
\<close>

function scan_skip_space :: "string \<Rightarrow> string option" where
  "scan_skip_space s =
     (if s = [] then Some []
      else if has_prefix s [CHR 0x0D, CHR 0x0A] then None
      else if hd s = CHR 0x0A then None
      else if lead_space s = 0 then Some s
      else scan_skip_space (drop (lead_space s) s))"
  by pat_completeness auto
termination
  by (relation "measure length") (simp_all add: lead_space_shrinks del: length_drop)

declare scan_skip_space.simps [simp del]

text \<open>A maximal run of digits, and a maximal run of bytes without white space.\<close>

definition scan_digits :: "string \<Rightarrow> string \<times> string" where
  "scan_digits s = (takeWhile is_digit s, dropWhile is_digit s)"

fun scan_token :: "string \<Rightarrow> string" where
  "scan_token [] = []"
| "scan_token (c # cs) = (if lead_space (c # cs) = 0 then c # scan_token cs else [])"

end
