(* ===== verification/PlanData.thy ===== *)
theory PlanData
  imports GoFormat
begin

text \<open>
  The data model of \<open>internal/plan/plan.go\<close> and \<open>internal/plan/lifecycle.go\<close>: plan and step
  status, lifecycle states, steps with their contracts, the run ledger, plans, and the
  normalisation of a step contract (\<open>EnsureContractDefaults\<close>).

  A slice of step pointers is a list of step records: the package never stores a nil step and
  never stores one step twice. \<open>Children\<close> is left out: no operation of the package writes it and
  only the tree renderer reads it. A deep copy is the value itself.
\<close>

section \<open>Status and lifecycle\<close>

datatype status =
    StatusPending | StatusInProgress | StatusCompleted | StatusFailed | StatusSkipped | StatusPaused
  | StatusOther int

fun Status_String :: "status \<Rightarrow> string" where
  "Status_String StatusPending = ''pending''"
| "Status_String StatusInProgress = ''in_progress''"
| "Status_String StatusCompleted = ''completed''"
| "Status_String StatusFailed = ''failed''"
| "Status_String StatusSkipped = ''skipped''"
| "Status_String StatusPaused = ''paused''"
| "Status_String (StatusOther _) = ''unknown''"

text \<open>
  \<open>Lifecycle\<close> is a Go string type: the empty string marks a plan saved before the field
  existed, \<open>LifecycleOther\<close> stands for any text that is none of the constants.
\<close>

datatype lifecycle =
    LifecycleEmpty | LifecycleDraft | LifecycleAwaitingApproval | LifecycleApproved
  | LifecycleExecuting | LifecyclePaused | LifecycleCompleted | LifecycleFailed
  | LifecycleCancelled | LifecycleOther string

fun lifecycle_text :: "lifecycle \<Rightarrow> string" where
  "lifecycle_text LifecycleEmpty = ''''"
| "lifecycle_text LifecycleDraft = ''draft''"
| "lifecycle_text LifecycleAwaitingApproval = ''awaiting_approval''"
| "lifecycle_text LifecycleApproved = ''approved''"
| "lifecycle_text LifecycleExecuting = ''executing''"
| "lifecycle_text LifecyclePaused = ''paused''"
| "lifecycle_text LifecycleCompleted = ''completed''"
| "lifecycle_text LifecycleFailed = ''failed''"
| "lifecycle_text LifecycleCancelled = ''cancelled''"
| "lifecycle_text (LifecycleOther t) = t"

section \<open>Records\<close>

record step_agent_metrics =
  am_TotalNodes :: int
  am_MaxDepth :: int
  am_ExpandedNodes :: int
  am_ReplanCount :: int
  am_SucceededNodes :: int
  am_FailedNodes :: int
  am_Duration :: duration

record step =
  s_ID :: int
  s_Title :: string
  s_Description :: string
  s_Status :: status
  s_Output :: string
  s_Error :: string
  s_StartTime :: time
  s_EndTime :: time
  s_Parallel :: bool
  s_DependsOn :: "int list"
  s_MaxRetries :: int
  s_Timeout :: duration
  s_RetryCount :: int
  s_TokensUsed :: int
  s_Condition :: string
  s_AgentMetrics :: "step_agent_metrics option"
  s_CheckpointPassed :: bool
  s_Inputs :: "string list"
  s_ExpectedArtifact :: string
  s_ExpectedArtifactPaths :: "string list"
  s_SuccessCriteria :: "string list"
  s_VerifyCommands :: "string list"
  s_Rollback :: string
  s_Evidence :: "string list"
  s_VerificationNote :: string

record ledger_entry =
  l_StepID :: int
  l_StartedAt :: time
  l_LastHeartbeat :: time
  l_CompletedAt :: time
  l_ToolCalls :: int
  l_Tools :: "string list"
  l_FilesTouched :: "string list"
  l_Commands :: "string list"
  l_EffectSignatures :: "string list"
  l_DuplicateEffects :: int
  l_PartialEffects :: bool
  l_Completed :: bool

type_synonym run_ledger = "(int \<times> ledger_entry) list"

record plan =
  p_ID :: string
  p_Title :: string
  p_Description :: string
  p_Steps :: "step list"
  p_Status :: status
  p_Lifecycle :: lifecycle
  p_CreatedAt :: time
  p_UpdatedAt :: time
  p_Request :: string
  p_Version :: int
  p_WorkDir :: string
  p_ContextSnapshot :: string
  p_RunLedger :: run_ledger

text \<open>The zero value of a step, as a Go composite literal leaves the fields it does not name.\<close>

definition zero_step :: step where
  "zero_step =
     \<lparr>s_ID = 0, s_Title = [], s_Description = [], s_Status = StatusPending, s_Output = [], s_Error = [],
      s_StartTime = zero_time, s_EndTime = zero_time, s_Parallel = False, s_DependsOn = [],
      s_MaxRetries = 0, s_Timeout = 0, s_RetryCount = 0, s_TokensUsed = 0, s_Condition = [],
      s_AgentMetrics = None, s_CheckpointPassed = False, s_Inputs = [], s_ExpectedArtifact = [],
      s_ExpectedArtifactPaths = [], s_SuccessCriteria = [], s_VerifyCommands = [], s_Rollback = [],
      s_Evidence = [], s_VerificationNote = []\<rparr>"

definition zero_ledger_entry :: "int \<Rightarrow> ledger_entry" where
  "zero_ledger_entry i =
     \<lparr>l_StepID = i, l_StartedAt = zero_time, l_LastHeartbeat = zero_time, l_CompletedAt = zero_time,
      l_ToolCalls = 0, l_Tools = [], l_FilesTouched = [], l_Commands = [], l_EffectSignatures = [],
      l_DuplicateEffects = 0, l_PartialEffects = False, l_Completed = False\<rparr>"

text \<open>Status predicates the operations share.\<close>

definition finished_status :: "status \<Rightarrow> bool" where
  "finished_status st \<longleftrightarrow> st = StatusCompleted \<or> st = StatusSkipped"

definition resumable_status :: "status \<Rightarrow> bool" where
  "resumable_status st \<longleftrightarrow> st = StatusPending \<or> st = StatusPaused \<or> st = StatusFailed"

section \<open>Bounded lists without duplicates\<close>

definition appendUniqueLimited :: "'a list \<Rightarrow> 'a \<Rightarrow> nat \<Rightarrow> 'a list" where
  "appendUniqueLimited items value limit =
     (if value \<in> set items then items
      else let items' = items @ [value]
           in if 0 < limit \<and> limit < length items' then drop (length items' - limit) items' else items')"

text \<open>
  The loop shared by the artifact paths and verify commands of \<open>EnsureContractDefaults\<close> and by
  the evidence of \<open>RecordStepVerification\<close>: trim, drop blanks, keep a bounded list without
  duplicates.
\<close>

fun collect_loop :: "nat \<Rightarrow> string list \<Rightarrow> string list \<Rightarrow> string list" where
  "collect_loop limit acc [] = acc"
| "collect_loop limit acc (x # xs) =
     (let t = trim_space x
      in collect_loop limit (if t = [] then acc else appendUniqueLimited acc t limit) xs)"

definition collect_trimmed :: "nat \<Rightarrow> string list \<Rightarrow> string list" where
  "collect_trimmed limit xs = collect_loop limit [] xs"

lemma appendUniqueLimited_distinct:
  "distinct items \<Longrightarrow> distinct (appendUniqueLimited items v limit)"
  by (auto simp: appendUniqueLimited_def Let_def dest: in_set_dropD)

lemma appendUniqueLimited_length:
  "0 < limit \<Longrightarrow> length items \<le> limit \<Longrightarrow> length (appendUniqueLimited items v limit) \<le> limit"
  by (auto simp: appendUniqueLimited_def Let_def)

lemma appendUniqueLimited_set: "set (appendUniqueLimited items v limit) \<subseteq> insert v (set items)"
  by (auto simp: appendUniqueLimited_def Let_def dest: in_set_dropD split: if_splits)

lemma appendUniqueLimited_member:
  "0 < limit \<Longrightarrow> v \<in> set (appendUniqueLimited items v limit)"
  by (auto simp: appendUniqueLimited_def Let_def Suc_diff_le)

lemma appendUniqueLimited_fresh:
  "v \<notin> set items \<Longrightarrow> length items < limit \<Longrightarrow> appendUniqueLimited items v limit = items @ [v]"
  by (auto simp: appendUniqueLimited_def Let_def)

definition trimmed_list :: "nat \<Rightarrow> string list \<Rightarrow> bool" where
  "trimmed_list limit xs \<longleftrightarrow>
     distinct xs \<and> length xs \<le> limit \<and> (\<forall>x \<in> set xs. x \<noteq> [] \<and> trim_space x = x)"

lemma trimmed_list_append:
  assumes "0 < limit" "trimmed_list limit acc" "trim_space x \<noteq> []"
  shows "trimmed_list limit (appendUniqueLimited acc (trim_space x) limit)"
  using assms appendUniqueLimited_set [of acc "trim_space x" limit]
  by (auto simp: trimmed_list_def appendUniqueLimited_distinct appendUniqueLimited_length)

lemma collect_loop_trimmed:
  "0 < limit \<Longrightarrow> trimmed_list limit acc \<Longrightarrow> trimmed_list limit (collect_loop limit acc xs)"
  by (induction xs arbitrary: acc) (simp_all add: Let_def trimmed_list_append)

lemma collect_loop_fixed: "trimmed_list limit (acc @ xs) \<Longrightarrow> collect_loop limit acc xs = acc @ xs"
proof (induction xs arbitrary: acc)
  case (Cons x xs)
  then have "trim_space x = x" "x \<noteq> []" "appendUniqueLimited acc x limit = acc @ [x]"
    by (auto simp: trimmed_list_def intro: appendUniqueLimited_fresh)
  moreover have "collect_loop limit (acc @ [x]) xs = (acc @ [x]) @ xs"
    using Cons.prems by (intro Cons.IH) simp
  ultimately show ?case by (simp add: Let_def)
qed simp

lemma collect_trimmed_trimmed: "0 < limit \<Longrightarrow> trimmed_list limit (collect_trimmed limit xs)"
  unfolding collect_trimmed_def by (rule collect_loop_trimmed) (simp_all add: trimmed_list_def)

lemma collect_trimmed_fixed: "trimmed_list limit xs \<Longrightarrow> collect_trimmed limit xs = xs"
  using collect_loop_fixed [of limit "[]" xs] by (simp add: collect_trimmed_def)

section \<open>Step contracts\<close>

definition default_input :: string where
  "default_input = ''Repository state at step start''"

definition default_artifact :: string where
  "default_artifact = ''Concrete, verifiable change related to this step''"

definition default_criterion :: string where
  "default_criterion = ''Step objective is implemented and validated''"

definition default_verify_command :: string where
  "default_verify_command =
     ''if git rev-parse --is-inside-work-tree >/dev/null 2>&1; then git diff --check; else true; fi''"

definition default_rollback :: string where
  "default_rollback = ''Revert modified files and restore previous working state''"

text \<open>\<open>EnsureContractDefaults\<close>: first trim and collect every field, then fill the blanks.\<close>

definition Step_EnsureContractDefaults :: "step \<Rightarrow> step" where
  "Step_EnsureContractDefaults s0 =
     (let s = s0\<lparr>s_Title := trim_space (s_Title s0),
                 s_Description := trim_space (s_Description s0),
                 s_Inputs := map trim_space (s_Inputs s0),
                 s_SuccessCriteria := map trim_space (s_SuccessCriteria s0),
                 s_ExpectedArtifactPaths := collect_trimmed 30 (s_ExpectedArtifactPaths s0),
                 s_VerifyCommands := collect_trimmed 20 (s_VerifyCommands s0),
                 s_Rollback := trim_space (s_Rollback s0),
                 s_ExpectedArtifact := trim_space (s_ExpectedArtifact s0)\<rparr>
      in s\<lparr>s_Inputs := (if s_Inputs s = [] then [default_input] else s_Inputs s),
           s_ExpectedArtifact := (if s_ExpectedArtifact s = [] then default_artifact else s_ExpectedArtifact s),
           s_SuccessCriteria :=
             (if s_SuccessCriteria s = []
              then (if s_Description s \<noteq> [] then [s_Description s] else [default_criterion])
              else s_SuccessCriteria s),
           s_VerifyCommands :=
             (if s_VerifyCommands s = [] then [default_verify_command] else s_VerifyCommands s),
           s_Rollback := (if s_Rollback s = [] then default_rollback else s_Rollback s)\<rparr>)"

text \<open>What a normalised contract satisfies.\<close>

definition contract_ok :: "step \<Rightarrow> bool" where
  "contract_ok s \<longleftrightarrow>
     trim_space (s_Title s) = s_Title s \<and> trim_space (s_Description s) = s_Description s \<and>
     s_Inputs s \<noteq> [] \<and> (\<forall>x \<in> set (s_Inputs s). trim_space x = x) \<and>
     s_SuccessCriteria s \<noteq> [] \<and> (\<forall>x \<in> set (s_SuccessCriteria s). trim_space x = x) \<and>
     s_ExpectedArtifact s \<noteq> [] \<and> trim_space (s_ExpectedArtifact s) = s_ExpectedArtifact s \<and>
     trimmed_list 30 (s_ExpectedArtifactPaths s) \<and>
     s_VerifyCommands s \<noteq> [] \<and> trimmed_list 20 (s_VerifyCommands s) \<and>
     s_Rollback s \<noteq> [] \<and> trim_space (s_Rollback s) = s_Rollback s"

lemma default_texts_trimmed:
  "trim_space default_input = default_input" "trim_space default_artifact = default_artifact"
  "trim_space default_criterion = default_criterion"
  "trim_space default_verify_command = default_verify_command"
  "trim_space default_rollback = default_rollback"
  by (rule trim_space_printable;
      simp add: printable_def default_input_def default_artifact_def default_criterion_def
        default_verify_command_def default_rollback_def)+

lemma default_texts_nonempty:
  "default_artifact \<noteq> []" "default_verify_command \<noteq> []" "default_rollback \<noteq> []"
  by (simp_all add: default_artifact_def default_verify_command_def default_rollback_def)

lemma default_command_trimmed_list: "trimmed_list 20 [default_verify_command]"
  by (simp add: trimmed_list_def default_texts_trimmed default_texts_nonempty)

lemmas default_texts = default_texts_trimmed default_texts_nonempty default_command_trimmed_list

lemma contract_ok_ensured: "contract_ok (Step_EnsureContractDefaults s)"
  by (simp add: contract_ok_def Step_EnsureContractDefaults_def Let_def default_texts
      collect_trimmed_trimmed)

lemma map_trim_fixed: "\<forall>x \<in> set xs. trim_space x = x \<Longrightarrow> map trim_space xs = xs"
  by (intro map_idI) simp

lemma ensure_contract_fixed: "contract_ok s \<Longrightarrow> Step_EnsureContractDefaults s = s"
  by (simp add: contract_ok_def Step_EnsureContractDefaults_def Let_def map_trim_fixed
      collect_trimmed_fixed)

text \<open>Normalising a contract leaves the execution state of the step alone.\<close>

lemma ensure_contract_frame [simp]:
  "s_ID (Step_EnsureContractDefaults s) = s_ID s"
  "s_Status (Step_EnsureContractDefaults s) = s_Status s"
  "s_DependsOn (Step_EnsureContractDefaults s) = s_DependsOn s"
  "s_MaxRetries (Step_EnsureContractDefaults s) = s_MaxRetries s"
  "s_RetryCount (Step_EnsureContractDefaults s) = s_RetryCount s"
  "s_Evidence (Step_EnsureContractDefaults s) = s_Evidence s"
  "s_Parallel (Step_EnsureContractDefaults s) = s_Parallel s"
  by (simp_all add: Step_EnsureContractDefaults_def Let_def)

end
