(* ===== verification/Lifecycle.thy ===== *)
theory Lifecycle
  imports PlanData
begin

text \<open>
  \<open>internal/plan/lifecycle.go\<close>: the lifecycle state machine of a plan. The table of allowed
  transitions, the check, the transition with its error, and the state inferred for a plan that
  was saved without the field. The transitions are also given as an inductive step relation, on
  which the safety properties (terminal states are final, nothing executes without approval) are
  proved by rule induction.
\<close>

section \<open>The transition table\<close>

fun allowedLifecycleTransitions :: "lifecycle \<Rightarrow> lifecycle list option" where
  "allowedLifecycleTransitions LifecycleDraft = Some [LifecycleAwaitingApproval, LifecycleCancelled]"
| "allowedLifecycleTransitions LifecycleAwaitingApproval = Some [LifecycleApproved, LifecycleCancelled]"
| "allowedLifecycleTransitions LifecycleApproved = Some [LifecycleExecuting, LifecycleCancelled]"
| "allowedLifecycleTransitions LifecycleExecuting =
     Some [LifecycleApproved, LifecyclePaused, LifecycleCompleted, LifecycleFailed, LifecycleCancelled]"
| "allowedLifecycleTransitions LifecyclePaused =
     Some [LifecycleApproved, LifecycleExecuting, LifecycleCancelled]"
| "allowedLifecycleTransitions LifecycleFailed =
     Some [LifecycleApproved, LifecycleExecuting, LifecycleCancelled]"
| "allowedLifecycleTransitions LifecycleCompleted = Some []"
| "allowedLifecycleTransitions LifecycleCancelled = Some []"
| "allowedLifecycleTransitions _ = None"

definition Lifecycle_IsTerminal :: "lifecycle \<Rightarrow> bool" where
  "Lifecycle_IsTerminal l \<longleftrightarrow> l = LifecycleCompleted \<or> l = LifecycleCancelled"

definition Lifecycle_CanTransitionTo :: "lifecycle \<Rightarrow> lifecycle \<Rightarrow> bool" where
  "Lifecycle_CanTransitionTo l nxt =
     (if l = nxt then True
      else case allowedLifecycleTransitions l of
        None \<Rightarrow> False
      | Some allowed \<Rightarrow> nxt \<in> set allowed)"

fun inferLifecycleFromStatus :: "status \<Rightarrow> lifecycle" where
  "inferLifecycleFromStatus StatusInProgress = LifecycleExecuting"
| "inferLifecycleFromStatus StatusPaused = LifecyclePaused"
| "inferLifecycleFromStatus StatusCompleted = LifecycleCompleted"
| "inferLifecycleFromStatus StatusFailed = LifecycleFailed"
| "inferLifecycleFromStatus _ = LifecycleDraft"

section \<open>Operations on a plan\<close>

definition Plan_LifecycleState :: "plan \<Rightarrow> lifecycle" where
  "Plan_LifecycleState p =
     (if p_Lifecycle p = LifecycleEmpty then inferLifecycleFromStatus (p_Status p) else p_Lifecycle p)"

definition transition_error :: "lifecycle \<Rightarrow> lifecycle \<Rightarrow> string" where
  "transition_error current nxt =
     ''invalid plan lifecycle transition: '' @ lifecycle_text current @ '' -> '' @ lifecycle_text nxt"

text \<open>
  The result pairs the plan after the call with the error (\<open>None\<close> is a nil error). A plan without
  a lifecycle gets the inferred one written back even when the transition is then refused.
\<close>

definition Plan_TransitionLifecycle :: "plan \<Rightarrow> lifecycle \<Rightarrow> time \<Rightarrow> plan \<times> string option" where
  "Plan_TransitionLifecycle p nxt now =
     (let current = Plan_LifecycleState p;
          p = (if p_Lifecycle p = LifecycleEmpty then p\<lparr>p_Lifecycle := current\<rparr> else p)
      in if \<not> Lifecycle_CanTransitionTo current nxt then (p, Some (transition_error current nxt))
         else (p\<lparr>p_Lifecycle := nxt, p_UpdatedAt := now\<rparr>, None))"

section \<open>The step relation\<close>

inductive lifecycle_step :: "lifecycle \<Rightarrow> lifecycle \<Rightarrow> bool" where
  "allowedLifecycleTransitions l = Some allowed \<Longrightarrow> nxt \<in> set allowed \<Longrightarrow> lifecycle_step l nxt"

inductive_cases from_draft: "lifecycle_step LifecycleDraft l"
inductive_cases from_awaiting: "lifecycle_step LifecycleAwaitingApproval l"
inductive_cases from_completed: "lifecycle_step LifecycleCompleted l"
inductive_cases from_cancelled: "lifecycle_step LifecycleCancelled l"
inductive_simps lifecycle_step_iff: "lifecycle_step l nxt"

lemma inferLifecycle_nonempty [simp]: "inferLifecycleFromStatus st \<noteq> LifecycleEmpty"
  by (cases st) auto

lemma LifecycleState_nonempty [simp]: "Plan_LifecycleState p \<noteq> LifecycleEmpty"
  by (simp add: Plan_LifecycleState_def)

lemma CanTransitionTo_step:
  "Lifecycle_CanTransitionTo l nxt \<longleftrightarrow> l = nxt \<or> lifecycle_step l nxt"
  by (auto simp: Lifecycle_CanTransitionTo_def lifecycle_step_iff split: option.splits)

lemma step_into_empty: "\<not> lifecycle_step l LifecycleEmpty"
  by (cases l) (auto simp: lifecycle_step_iff)

lemma TransitionLifecycle_error:
  "snd (Plan_TransitionLifecycle p nxt now) \<noteq> None \<longleftrightarrow>
   \<not> Lifecycle_CanTransitionTo (Plan_LifecycleState p) nxt"
  by (simp add: Plan_TransitionLifecycle_def Let_def)

lemma TransitionLifecycle_rejected:
  assumes "Plan_TransitionLifecycle p nxt now = (p', Some e)"
  shows "Plan_LifecycleState p' = Plan_LifecycleState p"
    and "p' = p\<lparr>p_Lifecycle := Plan_LifecycleState p\<rparr>"
  using assms
  by (auto simp: Plan_TransitionLifecycle_def Plan_LifecycleState_def Let_def split: if_splits)

lemma TransitionLifecycle_applied:
  assumes "Plan_TransitionLifecycle p nxt now = (p', None)"
  shows "p' = p\<lparr>p_Lifecycle := nxt, p_UpdatedAt := now\<rparr>"
    and "Lifecycle_CanTransitionTo (Plan_LifecycleState p) nxt"
  using assms by (auto simp: Plan_TransitionLifecycle_def Let_def split: if_splits)

lemma TransitionLifecycle_frame [simp]:
  "p_Steps (fst (Plan_TransitionLifecycle p nxt now)) = p_Steps p"
  "p_Status (fst (Plan_TransitionLifecycle p nxt now)) = p_Status p"
  "p_RunLedger (fst (Plan_TransitionLifecycle p nxt now)) = p_RunLedger p"
  "p_ID (fst (Plan_TransitionLifecycle p nxt now)) = p_ID p"
  by (auto simp: Plan_TransitionLifecycle_def Let_def)

text \<open>A whole history of transition requests, refused ones included, on one plan.\<close>

fun run_transitions :: "plan \<Rightarrow> (lifecycle \<times> time) list \<Rightarrow> plan" where
  "run_transitions p [] = p"
| "run_transitions p ((nxt, now) # reqs) = run_transitions (fst (Plan_TransitionLifecycle p nxt now)) reqs"

lemma transition_state_step:
  "nxt \<noteq> LifecycleEmpty \<Longrightarrow>
   let l = Plan_LifecycleState p; l' = Plan_LifecycleState (fst (Plan_TransitionLifecycle p nxt now))
   in l' = l \<or> (lifecycle_step l l' \<and> l' = nxt)"
  by (auto simp: Let_def Plan_TransitionLifecycle_def CanTransitionTo_step Plan_LifecycleState_def)

lemma empty_request_refused:
  "Plan_LifecycleState (fst (Plan_TransitionLifecycle p LifecycleEmpty now)) = Plan_LifecycleState p"
  by (auto simp: Plan_TransitionLifecycle_def Let_def CanTransitionTo_step step_into_empty
      Plan_LifecycleState_def)

lemma transition_cases:
  obtains "Plan_LifecycleState (fst (Plan_TransitionLifecycle p nxt now)) = Plan_LifecycleState p"
  | "lifecycle_step (Plan_LifecycleState p) nxt"
    "Plan_LifecycleState (fst (Plan_TransitionLifecycle p nxt now)) = nxt"
  using transition_state_step [of nxt p now] empty_request_refused [of p now]
  by (cases "nxt = LifecycleEmpty") (auto simp: Let_def)

section \<open>Safety of the lifecycle\<close>

text \<open>
  An interface for state machines whose states include final ones: the contract the rest of the
  development uses to argue that a run cannot leave them.
\<close>

locale final_states =
  fixes step :: "'s \<Rightarrow> 's \<Rightarrow> bool"
    and final :: "'s \<Rightarrow> bool"
  assumes final_stuck: "final s \<Longrightarrow> \<not> step s t"
begin

lemma final_absorbing:
  assumes "rtranclp step s t" and "final s" shows "t = s"
  using assms by (induction rule: rtranclp_induct) (auto dest: final_stuck)

end

interpretation lc: final_states lifecycle_step Lifecycle_IsTerminal
  by unfold_locales (auto simp: Lifecycle_IsTerminal_def elim: from_completed from_cancelled)

lemma run_transitions_steps:
  "rtranclp lifecycle_step (Plan_LifecycleState p) (Plan_LifecycleState (run_transitions p reqs))"
proof (induction p reqs rule: run_transitions.induct)
  case (2 p nxt now reqs)
  have "rtranclp lifecycle_step (Plan_LifecycleState p)
          (Plan_LifecycleState (fst (Plan_TransitionLifecycle p nxt now)))"
    by (rule transition_cases [of p nxt now]) auto
  with 2 show ?case by simp
qed simp

text \<open>
  A plan whose lifecycle is completed or cancelled keeps it under every further sequence of
  transition requests.
\<close>

theorem terminal_lifecycle_is_final:
  assumes "Lifecycle_IsTerminal (Plan_LifecycleState p)"
  shows "Plan_LifecycleState (run_transitions p reqs) = Plan_LifecycleState p"
  using run_transitions_steps assms by (rule lc.final_absorbing)

definition cancelled_plan :: plan where
  "cancelled_plan =
     \<lparr>p_ID = ''plan_0'', p_Title = ''t'', p_Description = [], p_Steps = [], p_Status = StatusPending,
      p_Lifecycle = LifecycleCancelled, p_CreatedAt = 1, p_UpdatedAt = 1, p_Request = [], p_Version = 0,
      p_WorkDir = [], p_ContextSnapshot = [], p_RunLedger = []\<rparr>"

theorem terminal_lifecycle_is_final_witness:
  "Plan_LifecycleState (run_transitions cancelled_plan [(LifecycleApproved, 2)]) =
   Plan_LifecycleState cancelled_plan"
  by (rule terminal_lifecycle_is_final)
    (simp add: cancelled_plan_def Plan_LifecycleState_def Lifecycle_IsTerminal_def)

text \<open>
  The states a plan can be in before anybody approved it are closed under every step but the
  approval.
\<close>

definition unapproved :: "lifecycle \<Rightarrow> bool" where
  "unapproved l \<longleftrightarrow> l = LifecycleDraft \<or> l = LifecycleAwaitingApproval \<or> l = LifecycleCancelled"

lemma unapproved_step:
  "unapproved l \<Longrightarrow> lifecycle_step l l' \<Longrightarrow> l' \<noteq> LifecycleApproved \<Longrightarrow> unapproved l'"
  by (auto simp: unapproved_def elim: from_draft from_awaiting from_cancelled)

lemma run_unapproved:
  "unapproved (Plan_LifecycleState p) \<Longrightarrow> LifecycleApproved \<notin> fst ` set reqs \<Longrightarrow>
   unapproved (Plan_LifecycleState (run_transitions p reqs))"
proof (induction p reqs rule: run_transitions.induct)
  case (2 p nxt now reqs)
  have "unapproved (Plan_LifecycleState (fst (Plan_TransitionLifecycle p nxt now)))"
    using 2(2,3) unapproved_step [of "Plan_LifecycleState p" nxt]
    by (cases rule: transition_cases [of p nxt now]) auto
  with 2 show ?case by simp
qed simp

lemma NewDraft_unapproved:
  "p_Lifecycle p = LifecycleDraft \<Longrightarrow> unapproved (Plan_LifecycleState p)"
  by (simp add: Plan_LifecycleState_def unapproved_def)

text \<open>
  C3: a plan that starts as a draft never reaches the executing state, nor any of the states
  behind it (paused, failed, completed), by a sequence of transition requests that contains no
  approval, whatever else is requested and in whatever order.
\<close>

theorem no_execution_without_approval:
  assumes "p_Lifecycle p = LifecycleDraft" and "LifecycleApproved \<notin> fst ` set reqs"
  shows "Plan_LifecycleState (run_transitions p reqs)
           \<in> {LifecycleDraft, LifecycleAwaitingApproval, LifecycleCancelled}"
  using run_unapproved [OF NewDraft_unapproved [OF assms(1)] assms(2)] by (auto simp: unapproved_def)

definition draft_plan :: plan where
  "draft_plan =
     \<lparr>p_ID = ''plan_1'', p_Title = ''t'', p_Description = [], p_Steps = [], p_Status = StatusPending,
      p_Lifecycle = LifecycleDraft, p_CreatedAt = 1, p_UpdatedAt = 1, p_Request = [], p_Version = 0,
      p_WorkDir = [], p_ContextSnapshot = [], p_RunLedger = []\<rparr>"

theorem no_execution_without_approval_witness:
  "Plan_LifecycleState (run_transitions draft_plan [(LifecycleExecuting, 2), (LifecycleAwaitingApproval, 3)])
     \<in> {LifecycleDraft, LifecycleAwaitingApproval, LifecycleCancelled}"
  by (rule no_execution_without_approval) (simp_all add: draft_plan_def)

text \<open>
  A requested transition is applied exactly when the state machine allows it: it then sets the
  requested state and no error is returned; otherwise the plan keeps its lifecycle state and the
  error names both states. Neither outcome touches steps, status or ledger.
\<close>

theorem TransitionLifecycle_behaviour:
  "let (q, err) = Plan_TransitionLifecycle p nxt now; l = Plan_LifecycleState p in
     (if l = nxt \<or> lifecycle_step l nxt
      then err = None \<and> p_Lifecycle q = nxt \<and> p_UpdatedAt q = now
      else err = Some (transition_error l nxt) \<and> Plan_LifecycleState q = l \<and> p_UpdatedAt q = p_UpdatedAt p) \<and>
     p_Steps q = p_Steps p \<and> p_Status q = p_Status p \<and> p_RunLedger q = p_RunLedger p"
  by (auto simp: Plan_TransitionLifecycle_def Let_def CanTransitionTo_step)
    (auto simp: Plan_LifecycleState_def split: if_splits)

end
