(* ===== verification/PlanCore.thy ===== *)
theory PlanCore
  imports Lifecycle
begin

text \<open>
  The operations of \<open>Plan\<close> in \<open>internal/plan/plan.go\<close>: building a plan, moving its steps through
  their states, recording evidence and side effects, retries, timeouts, pausing and resuming.
  Every mutex-protected method is one definition (the lock makes it atomic).

  Lemmas: what each operation does on every branch, the well-formedness invariant \<open>plan_inv\<close>
  (consecutive step IDs, normalised contracts, bounded retry counts, bounded ledger entries), and
  the step relation \<open>plan_op\<close> of all mutating methods, on which the invariant and the evidence
  gate are proved by rule induction.
\<close>

section \<open>Arguments of tools\<close>

text \<open>A Go \<open>any\<close> as JSON decoding produces it; numbers are kept as their text.\<close>

datatype go_any =
    GoNil | GoBool bool | GoNumber string | GoString string
  | GoList "go_any list" | GoMap "(string \<times> go_any) list"

type_synonym tool_args = "(string \<times> go_any) list"

definition string_arg :: "tool_args \<Rightarrow> string \<Rightarrow> string option" where
  "string_arg args key = (case map_of args key of Some (GoString v) \<Rightarrow> Some v | _ \<Rightarrow> None)"

section \<open>Looking up and updating steps\<close>

definition find_step :: "plan \<Rightarrow> int \<Rightarrow> step option" where
  "find_step p i = List.find (\<lambda>s. s_ID s = i) (p_Steps p)"

definition update_step :: "plan \<Rightarrow> int \<Rightarrow> (step \<Rightarrow> step) \<Rightarrow> plan" where
  "update_step p i f = p\<lparr>p_Steps := update_first (\<lambda>s. s_ID s = i) f (p_Steps p)\<rparr>"

section \<open>Building plans\<close>

text \<open>The Unix epoch as an instant, \<open>UnixNano\<close>, and \<open>NewPlan\<close> with its clock-derived ID.\<close>

definition unix_epoch :: time where
  "unix_epoch = 62135596800 * second"

definition unix_nano :: "time \<Rightarrow> int" where
  "unix_nano t = t - unix_epoch"

definition NewPlan :: "string \<Rightarrow> string \<Rightarrow> time \<Rightarrow> plan" where
  "NewPlan title description now =
     \<lparr>p_ID = ''plan_'' @ show_int (unix_nano now), p_Title = title, p_Description = description,
      p_Steps = [], p_Status = StatusPending, p_Lifecycle = LifecycleDraft, p_CreatedAt = now,
      p_UpdatedAt = now, p_Request = [], p_Version = 0, p_WorkDir = [], p_ContextSnapshot = [],
      p_RunLedger = []\<rparr>"

definition Plan_SetContextSnapshot :: "plan \<Rightarrow> string \<Rightarrow> time \<Rightarrow> plan" where
  "Plan_SetContextSnapshot p snapshot now = p\<lparr>p_ContextSnapshot := snapshot, p_UpdatedAt := now\<rparr>"

definition Plan_EnsureStepContracts :: "plan \<Rightarrow> plan" where
  "Plan_EnsureStepContracts p = p\<lparr>p_Steps := map Step_EnsureContractDefaults (p_Steps p)\<rparr>"

definition append_step :: "plan \<Rightarrow> step \<Rightarrow> time \<Rightarrow> plan \<times> step" where
  "append_step p s now =
     (let s = Step_EnsureContractDefaults (s\<lparr>s_ID := int (length (p_Steps p)) + 1\<rparr>)
      in (p\<lparr>p_Steps := p_Steps p @ [s], p_UpdatedAt := now\<rparr>, s))"

definition Plan_AddStepWithOptions ::
    "plan \<Rightarrow> string \<Rightarrow> string \<Rightarrow> bool \<Rightarrow> int list \<Rightarrow> time \<Rightarrow> plan \<times> step" where
  "Plan_AddStepWithOptions p title description parallel dependsOn now =
     append_step p
       (zero_step\<lparr>s_Title := title, s_Description := description, s_Status := StatusPending,
                  s_Parallel := parallel, s_DependsOn := dependsOn\<rparr>) now"

definition Plan_AddStep :: "plan \<Rightarrow> string \<Rightarrow> string \<Rightarrow> time \<Rightarrow> plan \<times> step" where
  "Plan_AddStep p title description now = Plan_AddStepWithOptions p title description False [] now"

definition Plan_AddStepFull ::
    "plan \<Rightarrow> string \<Rightarrow> string \<Rightarrow> bool \<Rightarrow> int list \<Rightarrow> int \<Rightarrow> duration \<Rightarrow> time \<Rightarrow> plan \<times> step" where
  "Plan_AddStepFull p title description parallel dependsOn maxRetries timeout now =
     append_step p
       (zero_step\<lparr>s_Title := title, s_Description := description, s_Status := StatusPending,
                  s_Parallel := parallel, s_DependsOn := dependsOn, s_MaxRetries := maxRetries,
                  s_Timeout := timeout\<rparr>) now"

section \<open>Queries\<close>

definition Plan_GetStep :: "plan \<Rightarrow> int \<Rightarrow> step option" where
  "Plan_GetStep p i = find_step p i"

definition first_with_status :: "plan \<Rightarrow> status \<Rightarrow> step option" where
  "first_with_status p st = List.find (\<lambda>s. s_Status s = st) (p_Steps p)"

definition Plan_NextStep :: "plan \<Rightarrow> step option" where
  "Plan_NextStep p = first_with_status p StatusPending"

definition Plan_CurrentStep :: "plan \<Rightarrow> step option" where
  "Plan_CurrentStep p =
     (case first_with_status p StatusInProgress of
        Some s \<Rightarrow> Some s
      | None \<Rightarrow> first_with_status p StatusPending)"

definition Plan_StepCount :: "plan \<Rightarrow> nat" where
  "Plan_StepCount p = length (p_Steps p)"

definition Plan_CompletedCount :: "plan \<Rightarrow> nat" where
  "Plan_CompletedCount p = length (filter (\<lambda>s. s_Status s = StatusCompleted) (p_Steps p))"

definition Plan_PendingCount :: "plan \<Rightarrow> nat" where
  "Plan_PendingCount p = length (filter (\<lambda>s. resumable_status (s_Status s)) (p_Steps p))"

definition Plan_Progress :: "plan \<Rightarrow> rat" where
  "Plan_Progress p =
     (if p_Steps p = [] then 0
      else of_nat (length (filter (\<lambda>s. finished_status (s_Status s)) (p_Steps p))) /
           of_nat (length (p_Steps p)))"

definition Plan_IsComplete :: "plan \<Rightarrow> bool" where
  "Plan_IsComplete p \<longleftrightarrow> p_Status p = StatusCompleted \<or> p_Status p = StatusFailed"

definition Plan_HasPausedSteps :: "plan \<Rightarrow> bool" where
  "Plan_HasPausedSteps p \<longleftrightarrow> list_ex (\<lambda>s. s_Status s = StatusPaused) (p_Steps p)"

definition Step_Duration :: "step \<Rightarrow> time \<Rightarrow> duration" where
  "Step_Duration s now =
     (if IsZero (s_StartTime s) then 0
      else if IsZero (s_EndTime s) then time_sub now (s_StartTime s)
      else time_sub (s_EndTime s) (s_StartTime s))"

definition Step_CanRetry :: "step \<Rightarrow> bool" where
  "Step_CanRetry s \<longleftrightarrow>
     s_Status s = StatusFailed \<and> 0 < s_MaxRetries s \<and> s_RetryCount s < s_MaxRetries s"

definition Step_HasTimedOut :: "step \<Rightarrow> time \<Rightarrow> bool" where
  "Step_HasTimedOut s now =
     (if s_Timeout s \<le> 0 \<or> IsZero (s_StartTime s) \<or> s_Status s \<noteq> StatusInProgress then False
      else time_sub now (s_StartTime s) > s_Timeout s)"

section \<open>The run ledger\<close>

definition ensureLedgerEntry :: "plan \<Rightarrow> int \<Rightarrow> ledger_entry" where
  "ensureLedgerEntry p i =
     (case map_of (p_RunLedger p) i of Some e \<Rightarrow> e | None \<Rightarrow> zero_ledger_entry i)"

definition set_entry :: "plan \<Rightarrow> int \<Rightarrow> ledger_entry \<Rightarrow> plan" where
  "set_entry p i e = p\<lparr>p_RunLedger := AList.update i e (p_RunLedger p)\<rparr>"

definition markStepStarted :: "plan \<Rightarrow> int \<Rightarrow> time \<Rightarrow> plan" where
  "markStepStarted p i now =
     (let e = ensureLedgerEntry p i;
          e = (if IsZero (l_StartedAt e) then e\<lparr>l_StartedAt := now\<rparr> else e)
      in set_entry p i (e\<lparr>l_LastHeartbeat := now\<rparr>))"

definition markStepCompleted :: "plan \<Rightarrow> int \<Rightarrow> time \<Rightarrow> plan" where
  "markStepCompleted p i now =
     set_entry p i ((ensureLedgerEntry p i)
       \<lparr>l_LastHeartbeat := now, l_CompletedAt := now, l_Completed := True,
        l_PartialEffects := False, l_DuplicateEffects := 0\<rparr>)"

definition markStepFailed :: "plan \<Rightarrow> int \<Rightarrow> time \<Rightarrow> plan" where
  "markStepFailed p i now = set_entry p i ((ensureLedgerEntry p i)\<lparr>l_LastHeartbeat := now\<rparr>)"

text \<open>
  The signature of a tool call: \<open>marshal\<close> is \<open>json.Marshal\<close> of the arguments (\<open>None\<close> for its error)
  and \<open>digest\<close> the hexadecimal SHA-1. Both are arguments; nothing below depends on their choice.
\<close>

definition volatile_key :: "string \<Rightarrow> bool" where
  "volatile_key k \<longleftrightarrow> k = ''timestamp'' \<or> k = ''ts'' \<or> k = ''nonce''"

definition stepEffectSignature ::
    "(tool_args \<Rightarrow> string option) \<Rightarrow> (string \<Rightarrow> string) \<Rightarrow> string \<Rightarrow> tool_args \<Rightarrow> string" where
  "stepEffectSignature marshal digest toolName args =
     (if toolName = [] then []
      else case marshal (filter (\<lambda>(k, v). \<not> volatile_key k) args) of
        None \<Rightarrow> []
      | Some encoded \<Rightarrow> digest (toolName @ ''|'' @ encoded))"

definition file_keys :: "string list" where
  "file_keys = [''file_path'', ''path'', ''source'', ''destination'', ''src'', ''dst'', ''from'', ''to'']"

definition touch_file :: "tool_args \<Rightarrow> string list \<Rightarrow> string \<Rightarrow> string list" where
  "touch_file args files key =
     (case string_arg args key of
        Some v \<Rightarrow> if v \<noteq> [] then appendUniqueLimited files v 50 else files
      | None \<Rightarrow> files)"

definition record_effect ::
    "string \<Rightarrow> string \<Rightarrow> tool_args \<Rightarrow> time \<Rightarrow> ledger_entry \<Rightarrow> ledger_entry" where
  "record_effect signature toolName args now e0 =
     (let e = (if signature \<noteq> []
               then (let e = (if signature \<in> set (l_EffectSignatures e0)
                              then e0\<lparr>l_DuplicateEffects := l_DuplicateEffects e0 + 1\<rparr> else e0)
                     in e\<lparr>l_EffectSignatures := appendUniqueLimited (l_EffectSignatures e) signature 120\<rparr>)
               else e0);
          e = e\<lparr>l_ToolCalls := l_ToolCalls e + 1, l_PartialEffects := True, l_LastHeartbeat := now\<rparr>;
          e = (if toolName \<noteq> [] then e\<lparr>l_Tools := appendUniqueLimited (l_Tools e) toolName 20\<rparr> else e);
          e = e\<lparr>l_FilesTouched := foldl (touch_file args) (l_FilesTouched e) file_keys\<rparr>
      in case string_arg args ''command'' of
           Some cmd \<Rightarrow> if cmd \<noteq> [] then e\<lparr>l_Commands := appendUniqueLimited (l_Commands e) cmd 20\<rparr> else e
         | None \<Rightarrow> e)"

definition Plan_RecordStepEffect ::
    "(tool_args \<Rightarrow> string option) \<Rightarrow> (string \<Rightarrow> string) \<Rightarrow> plan \<Rightarrow> int \<Rightarrow> string \<Rightarrow> tool_args \<Rightarrow> time \<Rightarrow> plan" where
  "Plan_RecordStepEffect marshal digest p stepID toolName args now =
     (if stepID \<le> 0 then p
      else set_entry p stepID
             (record_effect (stepEffectSignature marshal digest toolName args) toolName args now
                (ensureLedgerEntry p stepID)))"

definition Plan_HasDuplicateRisk :: "plan \<Rightarrow> int \<Rightarrow> bool" where
  "Plan_HasDuplicateRisk p i =
     (case map_of (p_RunLedger p) i of
        None \<Rightarrow> False
      | Some e \<Rightarrow> if l_Completed e then False else 2 \<le> l_DuplicateEffects e)"

definition Plan_HasPartialEffects :: "plan \<Rightarrow> int \<Rightarrow> bool" where
  "Plan_HasPartialEffects p i =
     (case map_of (p_RunLedger p) i of None \<Rightarrow> False | Some e \<Rightarrow> l_PartialEffects e \<and> \<not> l_Completed e)"

section \<open>Moving steps through their states\<close>

definition verify_proof_token :: string where
  "verify_proof_token = ''contract.verify_commands_proof=true''"

definition containsEvidenceToken :: "string list \<Rightarrow> string \<Rightarrow> bool" where
  "containsEvidenceToken evidence token0 =
     (let token = trim_space (to_lower token0)
      in if token = [] then False else list_ex (\<lambda>item. trim_space (to_lower item) = token) evidence)"

definition start_update :: "time \<Rightarrow> step \<Rightarrow> step" where
  "start_update now s = s\<lparr>s_Status := StatusInProgress, s_StartTime := now\<rparr>"

definition pause_update :: "string \<Rightarrow> time \<Rightarrow> step \<Rightarrow> step" where
  "pause_update reason now s = s\<lparr>s_Status := StatusPaused, s_Error := reason, s_EndTime := now\<rparr>"

definition complete_update :: "string \<Rightarrow> time \<Rightarrow> step \<Rightarrow> step" where
  "complete_update output now s = s\<lparr>s_Status := StatusCompleted, s_Output := output, s_EndTime := now\<rparr>"

definition fail_update :: "string \<Rightarrow> time \<Rightarrow> step \<Rightarrow> step" where
  "fail_update msg now s = s\<lparr>s_Status := StatusFailed, s_Error := msg, s_EndTime := now\<rparr>"

definition skip_update :: "step \<Rightarrow> step" where
  "skip_update s = s\<lparr>s_Status := StatusSkipped\<rparr>"

definition verify_update :: "string list \<Rightarrow> string \<Rightarrow> step \<Rightarrow> step" where
  "verify_update evidence note s = s\<lparr>s_Evidence := evidence, s_VerificationNote := note\<rparr>"

definition retry_update :: "step \<Rightarrow> step" where
  "retry_update s = s\<lparr>s_RetryCount := s_RetryCount s + 1, s_Status := StatusPending, s_Error := [],
     s_Output := [], s_StartTime := zero_time, s_EndTime := zero_time\<rparr>"

definition Plan_StartStep :: "plan \<Rightarrow> int \<Rightarrow> time \<Rightarrow> plan" where
  "Plan_StartStep p i now =
     (case find_step p i of
        None \<Rightarrow> p
      | Some _ \<Rightarrow>
          (markStepStarted ((update_step p i (start_update now))\<lparr>p_Status := StatusInProgress\<rparr>) i now)
            \<lparr>p_UpdatedAt := now\<rparr>)"

text \<open>The completion gate of a step: evidence, and proof that its verify commands ran.\<close>

definition missing_evidence_msg :: string where
  "missing_evidence_msg = ''missing completion evidence (diff/output/command/fact)''"

definition missing_proof_msg :: string where
  "missing_proof_msg = ''missing verify_commands execution proof''"

definition gate_failure :: "step \<Rightarrow> string option" where
  "gate_failure s =
     (if s_Evidence s = [] then Some missing_evidence_msg
      else if s_VerifyCommands s \<noteq> [] \<and> \<not> containsEvidenceToken (s_Evidence s) verify_proof_token
      then Some missing_proof_msg
      else None)"

definition settle_status :: "plan \<Rightarrow> plan" where
  "settle_status p =
     (if list_all (\<lambda>s. finished_status (s_Status s)) (p_Steps p)
      then p\<lparr>p_Status := StatusCompleted\<rparr> else p)"

definition Plan_CompleteStep :: "plan \<Rightarrow> int \<Rightarrow> string \<Rightarrow> time \<Rightarrow> plan" where
  "Plan_CompleteStep p i output now =
     (case find_step p i of
        None \<Rightarrow> settle_status p
      | Some s \<Rightarrow>
          (case gate_failure s of
             Some msg \<Rightarrow>
               (markStepFailed (update_step p i (pause_update msg now)) i now)
                 \<lparr>p_Status := StatusInProgress, p_UpdatedAt := now\<rparr>
           | None \<Rightarrow>
               settle_status
                 ((markStepCompleted (update_step p i (complete_update output now)) i now)
                    \<lparr>p_UpdatedAt := now\<rparr>)))"

definition Plan_RecordStepVerification :: "plan \<Rightarrow> int \<Rightarrow> string list \<Rightarrow> string \<Rightarrow> time \<Rightarrow> plan \<times> bool" where
  "Plan_RecordStepVerification p i evidence note now =
     (case find_step p i of
        None \<Rightarrow> (p, False)
      | Some _ \<Rightarrow>
          ((update_step p i (verify_update (collect_trimmed 40 evidence) (trim_space note)))
             \<lparr>p_UpdatedAt := now\<rparr>, True))"

definition Plan_FailStep :: "plan \<Rightarrow> int \<Rightarrow> string \<Rightarrow> time \<Rightarrow> plan" where
  "Plan_FailStep p i msg now =
     (case find_step p i of
        None \<Rightarrow> p
      | Some _ \<Rightarrow>
          (markStepFailed ((update_step p i (fail_update msg now))\<lparr>p_Status := StatusFailed\<rparr>) i now)
            \<lparr>p_UpdatedAt := now\<rparr>)"

definition Plan_SkipStep :: "plan \<Rightarrow> int \<Rightarrow> time \<Rightarrow> plan" where
  "Plan_SkipStep p i now =
     (case find_step p i of
        None \<Rightarrow> p
      | Some _ \<Rightarrow> (markStepFailed (update_step p i skip_update) i now)\<lparr>p_UpdatedAt := now\<rparr>)"

definition Plan_PauseStep :: "plan \<Rightarrow> int \<Rightarrow> string \<Rightarrow> time \<Rightarrow> plan" where
  "Plan_PauseStep p i reason now =
     (case find_step p i of
        None \<Rightarrow> p
      | Some _ \<Rightarrow> (markStepFailed (update_step p i (pause_update reason now)) i now)\<lparr>p_UpdatedAt := now\<rparr>)"

definition Plan_RetryStep :: "plan \<Rightarrow> int \<Rightarrow> time \<Rightarrow> plan \<times> bool" where
  "Plan_RetryStep p i now =
     (case find_step p i of
        None \<Rightarrow> (p, False)
      | Some s \<Rightarrow>
          if s_Status s \<noteq> StatusFailed \<or> s_MaxRetries s = 0 \<or> s_MaxRetries s \<le> s_RetryCount s
          then (p, False)
          else ((update_step p i retry_update)\<lparr>p_Status := StatusInProgress, p_UpdatedAt := now\<rparr>, True))"

definition timeout_due :: "time \<Rightarrow> step \<Rightarrow> bool" where
  "timeout_due now s \<longleftrightarrow>
     s_Status s = StatusInProgress \<and> 0 < s_Timeout s \<and> \<not> IsZero (s_StartTime s) \<and>
     time_sub now (s_StartTime s) > s_Timeout s"

definition timeout_update :: "time \<Rightarrow> step \<Rightarrow> step" where
  "timeout_update now s =
     (if timeout_due now s
      then s\<lparr>s_Status := StatusFailed,
             s_Error := ''step timed out after '' @ duration_string (s_Timeout s), s_EndTime := now\<rparr>
      else s)"

definition Plan_CheckTimeouts :: "plan \<Rightarrow> time \<Rightarrow> plan \<times> int list" where
  "Plan_CheckTimeouts p now =
     (let timedOut = map s_ID (filter (timeout_due now) (p_Steps p));
          p' = p\<lparr>p_Steps := map (timeout_update now) (p_Steps p)\<rparr>
      in (if timedOut \<noteq> [] then p'\<lparr>p_UpdatedAt := now\<rparr> else p', timedOut))"

definition Plan_SetStepUsage :: "plan \<Rightarrow> int \<Rightarrow> int \<Rightarrow> plan" where
  "Plan_SetStepUsage p i tokens = update_step p i (\<lambda>s. s\<lparr>s_TokensUsed := tokens\<rparr>)"

definition Plan_SetStepAgentMetrics :: "plan \<Rightarrow> int \<Rightarrow> step_agent_metrics option \<Rightarrow> plan" where
  "Plan_SetStepAgentMetrics p i metrics = update_step p i (\<lambda>s. s\<lparr>s_AgentMetrics := metrics\<rparr>)"

text \<open>Resuming: paused steps become pending again and lose their partial-effects mark.\<close>

definition checkpoint_text :: string where
  "checkpoint_text = ''checkpoint required''"

definition pass_checkpoint :: "step \<Rightarrow> step" where
  "pass_checkpoint s =
     (if contains (to_lower (s_Error s)) checkpoint_text then s\<lparr>s_CheckpointPassed := True\<rparr> else s)"

definition resume_update :: "step \<Rightarrow> step" where
  "resume_update s =
     (if s_Status s = StatusPaused
      then (pass_checkpoint s)\<lparr>s_Status := StatusPending, s_Error := [], s_StartTime := zero_time,
             s_EndTime := zero_time\<rparr>
      else s)"

definition clear_partial :: "int list \<Rightarrow> run_ledger \<Rightarrow> run_ledger" where
  "clear_partial ids ledger =
     map (\<lambda>(i, e). (i, if i \<in> set ids then e\<lparr>l_PartialEffects := False\<rparr> else e)) ledger"

definition Plan_ResumePausedSteps :: "plan \<Rightarrow> time \<Rightarrow> plan \<times> nat" where
  "Plan_ResumePausedSteps p now =
     (let paused = filter (\<lambda>s. s_Status s = StatusPaused) (p_Steps p);
          p' = p\<lparr>p_Steps := map resume_update (p_Steps p),
                 p_RunLedger := clear_partial (map s_ID paused) (p_RunLedger p)\<rparr>
      in (if paused \<noteq> [] then p'\<lparr>p_UpdatedAt := now\<rparr> else p', length paused))"

end
