(* ===== verification/PlanInv.thy ===== *)
theory PlanInv
  imports PlanCore
begin

text \<open>
  Properties of the plan operations of \<open>PlanCore\<close>: the contract shared by the updates of a single
  step (a locale, interpreted on every update the operations use), the invariant of a plan, the
  step relation of all mutating methods, and the behaviour of the individual operations.
\<close>

section \<open>Invariant\<close>

definition retry_ok :: "step \<Rightarrow> bool" where
  "retry_ok s \<longleftrightarrow> 0 \<le> s_RetryCount s \<and> s_RetryCount s \<le> max 0 (s_MaxRetries s)"

definition entry_ok :: "int \<Rightarrow> ledger_entry \<Rightarrow> bool" where
  "entry_ok i e \<longleftrightarrow>
     l_StepID e = i \<and> length (l_Tools e) \<le> 20 \<and> length (l_FilesTouched e) \<le> 50 \<and>
     length (l_Commands e) \<le> 20 \<and> length (l_EffectSignatures e) \<le> 120 \<and>
     0 \<le> l_DuplicateEffects e \<and> l_DuplicateEffects e \<le> l_ToolCalls e"

definition ledger_ok :: "run_ledger \<Rightarrow> bool" where
  "ledger_ok l \<longleftrightarrow> distinct (map fst l) \<and> list_all (\<lambda>(i, e). entry_ok i e) l"

definition consecutive_ids :: "step list \<Rightarrow> bool" where
  "consecutive_ids ss \<longleftrightarrow> map s_ID ss = map int [1..<Suc (length ss)]"

definition plan_inv :: "plan \<Rightarrow> bool" where
  "plan_inv p \<longleftrightarrow>
     consecutive_ids (p_Steps p) \<and> list_all contract_ok (p_Steps p) \<and> list_all retry_ok (p_Steps p) \<and>
     ledger_ok (p_RunLedger p)"

lemma consecutive_ids_distinct: "consecutive_ids ss \<Longrightarrow> distinct (map s_ID ss)"
  by (simp add: consecutive_ids_def distinct_map inj_on_def)

lemma consecutive_ids_snoc:
  "consecutive_ids ss \<Longrightarrow> s_ID s = int (length ss) + 1 \<Longrightarrow> consecutive_ids (ss @ [s])"
  by (simp add: consecutive_ids_def)

lemma ledger_ok_lookup: "ledger_ok l \<Longrightarrow> map_of l i = Some e \<Longrightarrow> entry_ok i e"
  by (auto simp: ledger_ok_def list_all_iff dest: map_of_SomeD)

lemma ledger_ok_update:
  assumes "ledger_ok l" "entry_ok i e" shows "ledger_ok (AList.update i e l)"
proof -
  have d: "distinct (map fst (AList.update i e l))"
    using assms(1) by (simp add: ledger_ok_def distinct_update)
  have "entry_ok j e'" if "(j, e') \<in> set (AList.update i e l)" for j e'
  proof -
    from d that have "map_of (AList.update i e l) j = Some e'" by (rule map_of_is_SomeI)
    then show ?thesis using assms ledger_ok_lookup by (auto split: if_splits)
  qed
  with d show ?thesis by (auto simp: ledger_ok_def list_all_iff)
qed

lemma ledger_ok_clear:
  assumes "ledger_ok l" shows "ledger_ok (clear_partial ids l)"
proof -
  have ids: "map fst (clear_partial ids l) = map fst l"
    by (simp add: clear_partial_def split_def)
  have "list_all (\<lambda>(i, e). entry_ok i e) (clear_partial ids l)"
    using assms by (auto simp: ledger_ok_def clear_partial_def list_all_iff entry_ok_def)
  with ids assms show ?thesis by (simp add: ledger_ok_def)
qed

lemma entry_ok_ensured: "ledger_ok (p_RunLedger p) \<Longrightarrow> entry_ok i (ensureLedgerEntry p i)"
  by (auto simp: ensureLedgerEntry_def zero_ledger_entry_def entry_ok_def
      split: option.splits dest!: ledger_ok_lookup)

lemma touch_file_length: "length files \<le> 50 \<Longrightarrow> length (touch_file args files key) \<le> 50"
  by (auto simp: touch_file_def appendUniqueLimited_length split: option.splits)

lemma touch_files_length:
  "length files \<le> 50 \<Longrightarrow> length (foldl (touch_file args) files keys) \<le> 50"
  by (induction keys arbitrary: files) (simp_all add: touch_file_length)

lemma entry_ok_record_effect: "entry_ok i e \<Longrightarrow> entry_ok i (record_effect sig tool args now e)"
  by (auto simp: record_effect_def entry_ok_def Let_def appendUniqueLimited_length touch_files_length
      split: option.splits)

section \<open>Updates of one step\<close>

text \<open>
  What the operations rely on when they change one step: the update keeps its identity, its
  normalised contract and its retry bound.
\<close>

locale step_update =
  fixes upd :: "step \<Rightarrow> step"
  assumes keeps_ID: "s_ID (upd s) = s_ID s"
    and keeps_contract: "contract_ok s \<Longrightarrow> contract_ok (upd s)"
    and keeps_retry: "retry_ok s \<Longrightarrow> retry_ok (upd s)"
begin

lemma find_updated: "find_step (update_step p i upd) i = map_option upd (find_step p i)"
  by (simp add: find_step_def update_step_def find_update_first keeps_ID)

lemma find_unrelated: "j \<noteq> i \<Longrightarrow> find_step (update_step p i upd) j = find_step p j"
  unfolding find_step_def update_step_def by simp (rule find_update_first_other, simp add: keeps_ID)

lemma ids_updated: "map s_ID (p_Steps (update_step p i upd)) = map s_ID (p_Steps p)"
  by (simp add: update_step_def map_update_first keeps_ID)

lemma inv_updated: "plan_inv p \<Longrightarrow> plan_inv (update_step p i upd)"
  using ids_updated [of p i]
  by (auto simp: plan_inv_def consecutive_ids_def update_step_def simp del: upt_Suc
      intro!: update_first_list_all keeps_contract keeps_retry)

lemma inv_mapped: "plan_inv p \<Longrightarrow> plan_inv (p\<lparr>p_Steps := map upd (p_Steps p)\<rparr>)"
  by (auto simp: plan_inv_def consecutive_ids_def list_all_iff keeps_ID keeps_contract keeps_retry
      cong: map_cong)

end

lemmas step_upd_defs = start_update_def pause_update_def complete_update_def fail_update_def
  skip_update_def verify_update_def timeout_update_def resume_update_def pass_checkpoint_def

lemmas upd_frame = contract_ok_def retry_ok_def step_upd_defs

interpretation start: step_update "start_update now" for now
  by unfold_locales (simp_all add: upd_frame)

interpretation pause: step_update "pause_update reason now" for reason now
  by unfold_locales (simp_all add: upd_frame)

interpretation complete: step_update "complete_update out now" for out now
  by unfold_locales (simp_all add: upd_frame)

interpretation fail: step_update "fail_update msg now" for msg now
  by unfold_locales (simp_all add: upd_frame)

interpretation skip: step_update skip_update
  by unfold_locales (simp_all add: upd_frame)

interpretation verify: step_update "verify_update evidence remark" for evidence remark
  by unfold_locales (simp_all add: upd_frame)

interpretation timeout: step_update "timeout_update now" for now
  by unfold_locales (simp_all add: upd_frame)

interpretation resume: step_update resume_update
  by unfold_locales (simp_all add: upd_frame)

interpretation usage: step_update "\<lambda>s. s\<lparr>s_TokensUsed := tokens\<rparr>" for tokens
  by unfold_locales (simp_all add: upd_frame)

interpretation metrics: step_update "\<lambda>s. s\<lparr>s_AgentMetrics := m\<rparr>" for m
  by unfold_locales (simp_all add: upd_frame)

interpretation contract: step_update Step_EnsureContractDefaults
  by unfold_locales (simp_all add: contract_ok_ensured retry_ok_def)

section \<open>Every operation keeps the invariant\<close>

text \<open>Fields outside the invariant may change freely.\<close>

lemma plan_inv_frame [simp]:
  "plan_inv (p\<lparr>p_Status := st\<rparr>) = plan_inv p"
  "plan_inv (p\<lparr>p_UpdatedAt := now\<rparr>) = plan_inv p"
  "plan_inv (p\<lparr>p_ContextSnapshot := snap\<rparr>) = plan_inv p"
  "plan_inv (p\<lparr>p_Lifecycle := lc\<rparr>) = plan_inv p"
  "plan_inv (p\<lparr>p_Version := v\<rparr>) = plan_inv p"
  "plan_inv (p\<lparr>p_Request := r\<rparr>) = plan_inv p"
  "plan_inv (p\<lparr>p_WorkDir := w\<rparr>) = plan_inv p"
  by (simp_all add: plan_inv_def)

lemma inv_set_entry: "plan_inv p \<Longrightarrow> entry_ok i e \<Longrightarrow> plan_inv (set_entry p i e)"
  by (simp add: plan_inv_def set_entry_def ledger_ok_update)

lemma entry_ok_of_inv: "plan_inv p \<Longrightarrow> entry_ok i (ensureLedgerEntry p i)"
  by (simp add: plan_inv_def entry_ok_ensured)

lemma inv_mark:
  assumes "plan_inv p"
  shows "plan_inv (markStepStarted p i now)" "plan_inv (markStepCompleted p i now)"
    "plan_inv (markStepFailed p i now)"
  using entry_ok_of_inv [OF assms, of i] assms
  by (auto simp: markStepStarted_def markStepCompleted_def markStepFailed_def Let_def entry_ok_def
      intro!: inv_set_entry)

lemma inv_settle: "plan_inv p \<Longrightarrow> plan_inv (settle_status p)"
  by (simp add: settle_status_def)

lemma inv_append_step:
  assumes "plan_inv p" "retry_ok s" shows "plan_inv (fst (append_step p s now))"
  using assms
  by (simp add: append_step_def Let_def plan_inv_def contract_ok_ensured consecutive_ids_snoc retry_ok_def)

lemmas inv_intros = inv_mark inv_settle inv_append_step
  start.inv_updated pause.inv_updated complete.inv_updated fail.inv_updated skip.inv_updated
  verify.inv_updated usage.inv_updated metrics.inv_updated

lemma inv_NewPlan: "plan_inv (NewPlan title descr now)"
  by (simp add: NewPlan_def plan_inv_def consecutive_ids_def ledger_ok_def)

lemma inv_AddStep:
  assumes "plan_inv p"
  shows "plan_inv (fst (Plan_AddStepWithOptions p title descr par deps now))"
    "plan_inv (fst (Plan_AddStepFull p title descr par deps retries timeout now))"
  using assms
  by (simp_all add: Plan_AddStepWithOptions_def Plan_AddStepFull_def inv_append_step retry_ok_def zero_step_def)

lemma inv_EnsureStepContracts: "plan_inv p \<Longrightarrow> plan_inv (Plan_EnsureStepContracts p)"
  unfolding Plan_EnsureStepContracts_def by (rule contract.inv_mapped)

lemma inv_StartStep: "plan_inv p \<Longrightarrow> plan_inv (Plan_StartStep p i now)"
  by (simp add: Plan_StartStep_def inv_intros split: option.splits)

lemma inv_CompleteStep: "plan_inv p \<Longrightarrow> plan_inv (Plan_CompleteStep p i out now)"
  by (simp add: Plan_CompleteStep_def inv_intros split: option.splits)

lemma inv_RecordStepVerification:
  "plan_inv p \<Longrightarrow> plan_inv (fst (Plan_RecordStepVerification p i ev note now))"
  by (simp add: Plan_RecordStepVerification_def inv_intros split: option.splits)

lemma inv_FailStep: "plan_inv p \<Longrightarrow> plan_inv (Plan_FailStep p i msg now)"
  by (simp add: Plan_FailStep_def inv_intros split: option.splits)

lemma inv_SkipStep: "plan_inv p \<Longrightarrow> plan_inv (Plan_SkipStep p i now)"
  by (simp add: Plan_SkipStep_def inv_intros split: option.splits)

lemma inv_PauseStep: "plan_inv p \<Longrightarrow> plan_inv (Plan_PauseStep p i reason now)"
  by (simp add: Plan_PauseStep_def inv_intros split: option.splits)

lemma retry_update_frame [simp]:
  "s_ID (retry_update s) = s_ID s" "contract_ok (retry_update s) = contract_ok s"
  by (simp_all add: retry_update_def contract_ok_def)

lemma retry_update_ok:
  "retry_ok s \<Longrightarrow> s_RetryCount s < s_MaxRetries s \<Longrightarrow> retry_ok (retry_update s)"
  by (simp add: retry_update_def retry_ok_def)

text \<open>Behind its guard the retry update satisfies the contract as well.\<close>

interpretation retry: step_update "\<lambda>s. if s_RetryCount s < s_MaxRetries s then retry_update s else s"
  by unfold_locales (simp_all add: retry_update_ok)

lemma inv_RetryStep:
  assumes "plan_inv p" shows "plan_inv (fst (Plan_RetryStep p i now))"
proof (cases "find_step p i")
  case (Some s)
  have "plan_inv (update_step p i retry_update)" if "s_RetryCount s < s_MaxRetries s"
  proof -
    have "update_first (\<lambda>s. s_ID s = i) retry_update (p_Steps p) =
          update_first (\<lambda>s. s_ID s = i)
            (\<lambda>s. if s_RetryCount s < s_MaxRetries s then retry_update s else s) (p_Steps p)"
      using Some unfolding find_step_def by (rule update_first_eq) (simp add: that)
    with retry.inv_updated [OF assms, of i] show ?thesis by (simp add: update_step_def)
  qed
  with assms Some show ?thesis by (simp add: Plan_RetryStep_def)
qed (use assms in \<open>simp add: Plan_RetryStep_def\<close>)

lemma inv_CheckTimeouts: "plan_inv p \<Longrightarrow> plan_inv (fst (Plan_CheckTimeouts p now))"
  by (simp add: Plan_CheckTimeouts_def Let_def timeout.inv_mapped)

lemma inv_ResumePausedSteps:
  assumes "plan_inv p" shows "plan_inv (fst (Plan_ResumePausedSteps p now))"
  using resume.inv_mapped [OF assms] assms
  by (auto simp: Plan_ResumePausedSteps_def Let_def plan_inv_def ledger_ok_clear)

lemma inv_RecordStepEffect:
  "plan_inv p \<Longrightarrow> plan_inv (Plan_RecordStepEffect marshal digest p i tool args now)"
  by (simp add: Plan_RecordStepEffect_def inv_set_entry entry_ok_record_effect entry_ok_of_inv)

lemma inv_SetStep:
  "plan_inv p \<Longrightarrow> plan_inv (Plan_SetStepUsage p i n)"
  "plan_inv p \<Longrightarrow> plan_inv (Plan_SetStepAgentMetrics p i m)"
  by (simp_all add: Plan_SetStepUsage_def Plan_SetStepAgentMetrics_def inv_intros)

lemma inv_TransitionLifecycle: "plan_inv p \<Longrightarrow> plan_inv (fst (Plan_TransitionLifecycle p l now))"
  by (simp add: Plan_TransitionLifecycle_def Let_def)

section \<open>All mutating methods as one step relation\<close>

inductive plan_op :: "plan \<Rightarrow> plan \<Rightarrow> bool" where
  snapshot: "plan_op p (Plan_SetContextSnapshot p text now)"
| contracts: "plan_op p (Plan_EnsureStepContracts p)"
| add_step: "plan_op p (fst (Plan_AddStepWithOptions p title descr par deps now))"
| add_step_full: "plan_op p (fst (Plan_AddStepFull p title descr par deps retries timeout now))"
| start_step: "plan_op p (Plan_StartStep p i now)"
| complete_step: "plan_op p (Plan_CompleteStep p i out now)"
| record_verification: "plan_op p (fst (Plan_RecordStepVerification p i ev note now))"
| fail_step: "plan_op p (Plan_FailStep p i msg now)"
| skip_step: "plan_op p (Plan_SkipStep p i now)"
| pause_step: "plan_op p (Plan_PauseStep p i reason now)"
| retry_step: "plan_op p (fst (Plan_RetryStep p i now))"
| check_timeouts: "plan_op p (fst (Plan_CheckTimeouts p now))"
| resume_paused: "plan_op p (fst (Plan_ResumePausedSteps p now))"
| record_effect: "plan_op p (Plan_RecordStepEffect marshal digest p i tool args now)"
| set_usage: "plan_op p (Plan_SetStepUsage p i n)"
| set_metrics: "plan_op p (Plan_SetStepAgentMetrics p i m)"
| transition: "plan_op p (fst (Plan_TransitionLifecycle p l now))"

inductive plan_reachable :: "plan \<Rightarrow> bool" where
  fresh: "plan_reachable (NewPlan title descr now)"
| op: "plan_reachable p \<Longrightarrow> plan_op p q \<Longrightarrow> plan_reachable q"

lemma plan_op_inv: "plan_op p q \<Longrightarrow> plan_inv p \<Longrightarrow> plan_inv q"
  by (induction rule: plan_op.induct)
    (simp_all add: inv_EnsureStepContracts inv_AddStep inv_StartStep inv_CompleteStep
      inv_RecordStepVerification inv_FailStep inv_SkipStep inv_PauseStep inv_RetryStep
      inv_CheckTimeouts inv_ResumePausedSteps inv_RecordStepEffect inv_SetStep
      inv_TransitionLifecycle Plan_SetContextSnapshot_def)

lemma plan_reachable_inv: "plan_reachable p \<Longrightarrow> plan_inv p"
  by (induction rule: plan_reachable.induct) (auto intro: inv_NewPlan plan_op_inv)

end
