(* ===== verification/PlanProps.thy ===== *)
theory PlanProps
  imports PlanInv
begin

text \<open>
  The properties of the plan operations: reachable plans are well formed, no operation marks a
  step completed past the evidence gate, what completing, retrying, resuming and timing out do on
  every branch, and how the run ledger guards against repeated side effects. Each is a short
  consequence of the lemmas of \<open>PlanInv\<close>.
\<close>

section \<open>Lookups after an operation\<close>

lemma find_step_frame [simp]:
  "find_step (p\<lparr>p_Status := st\<rparr>) i = find_step p i"
  "find_step (p\<lparr>p_UpdatedAt := now\<rparr>) i = find_step p i"
  "find_step (p\<lparr>p_ContextSnapshot := snap\<rparr>) i = find_step p i"
  "find_step (p\<lparr>p_Lifecycle := lc\<rparr>) i = find_step p i"
  "find_step (p\<lparr>p_RunLedger := l\<rparr>) i = find_step p i"
  "find_step (set_entry p j e) i = find_step p i"
  by (simp_all add: find_step_def set_entry_def)

lemma find_step_mark [simp]:
  "find_step (markStepStarted p j now) i = find_step p i"
  "find_step (markStepCompleted p j now) i = find_step p i"
  "find_step (markStepFailed p j now) i = find_step p i"
  "find_step (settle_status p) i = find_step p i"
  by (simp_all add: markStepStarted_def markStepCompleted_def markStepFailed_def settle_status_def Let_def)

lemma find_mapped:
  "(\<And>s. s_ID (f s) = s_ID s) \<Longrightarrow>
   find_step (p\<lparr>p_Steps := map f (p_Steps p)\<rparr>) i = map_option f (find_step p i)"
  by (simp add: find_step_def find_map_key)

lemma find_appended:
  "find_step p i = Some s \<Longrightarrow> find_step (fst (append_step p s' now)) i = Some s"
  by (simp add: find_step_def append_step_def Let_def find_append_Some)

lemma find_updated_or:
  "s_ID \<circ> f = s_ID \<Longrightarrow>
   find_step (update_step p j f) i = (if i = j then map_option f (find_step p i) else find_step p i)"
proof -
  assume f: "s_ID \<circ> f = s_ID"
  have "s_ID (f s) = s_ID s" for s using fun_cong [OF f, of s] by simp
  then show ?thesis
    unfolding find_step_def update_step_def
    by (auto intro!: find_update_first find_update_first_other)
qed

lemma upd_keeps_ids [simp]:
  "s_ID \<circ> start_update now = s_ID" "s_ID \<circ> pause_update r now = s_ID"
  "s_ID \<circ> complete_update out now = s_ID" "s_ID \<circ> fail_update m now = s_ID"
  "s_ID \<circ> skip_update = s_ID" "s_ID \<circ> verify_update ev n = s_ID" "s_ID \<circ> retry_update = s_ID"
  "s_ID \<circ> (\<lambda>s. s\<lparr>s_TokensUsed := t\<rparr>) = s_ID" "s_ID \<circ> (\<lambda>s. s\<lparr>s_AgentMetrics := am\<rparr>) = s_ID"
  by (auto simp: step_upd_defs)

section \<open>The evidence gate\<close>

lemma CompleteStep_find:
  assumes "find_step p i = Some s"
  shows "find_step (Plan_CompleteStep p i out now) i =
     Some (case gate_failure s of Some msg \<Rightarrow> pause_update msg now s | None \<Rightarrow> complete_update out now s)"
  using assms by (simp add: Plan_CompleteStep_def find_updated_or split: option.splits)

lemma CompleteStep_other:
  "j \<noteq> i \<Longrightarrow> find_step (Plan_CompleteStep p i out now) j = find_step p j"
  by (simp add: Plan_CompleteStep_def find_updated_or split: option.splits)

lemmas op_find_defs = Plan_SetContextSnapshot_def Plan_EnsureStepContracts_def
  Plan_AddStepWithOptions_def Plan_AddStepFull_def Plan_StartStep_def Plan_RecordStepVerification_def
  Plan_FailStep_def Plan_SkipStep_def Plan_PauseStep_def Plan_RetryStep_def Plan_CheckTimeouts_def
  Plan_ResumePausedSteps_def Plan_RecordStepEffect_def Plan_SetStepUsage_def
  Plan_SetStepAgentMetrics_def Plan_TransitionLifecycle_def

text \<open>Only \<open>CompleteStep\<close> ever makes a known step completed, and only past its gate.\<close>

lemma plan_op_completes:
  assumes "plan_op p q" "find_step p i = Some s" "s_Status s \<noteq> StatusCompleted"
    and "find_step q i = Some s'" "s_Status s' = StatusCompleted"
  shows "gate_failure s = None \<and> s_Evidence s' = s_Evidence s"
  using assms
proof (induction rule: plan_op.induct)
  case (complete_step p j out now)
  then show ?case
    by (cases "j = i")
      (auto simp: CompleteStep_find CompleteStep_other step_upd_defs split: option.splits)
next
  case (check_timeouts p now)
  then show ?case
    by (auto simp: op_find_defs Let_def find_mapped timeout.keeps_ID timeout_update_def split: if_splits)
next
  case (resume_paused p now)
  have "find_step (fst (Plan_ResumePausedSteps p now)) i = map_option resume_update (find_step p i)"
    using find_mapped [of resume_update p i]
    by (simp add: Plan_ResumePausedSteps_def Let_def find_step_def resume.keeps_ID)
  with resume_paused show ?case by (auto simp: resume_update_def split: if_splits)
qed (auto simp: op_find_defs find_updated_or find_mapped find_appended step_upd_defs retry_update_def Let_def
      split: option.splits if_splits)

section \<open>Properties\<close>

text \<open>
  C2: every plan that can be built by \<open>NewPlan\<close> and any sequence of the package's mutating
  methods is well formed: step IDs are 1, 2, ..., n in order, every step contract is normalised
  and non-empty, retry counts stay within their limit, and every ledger entry is bounded and
  filed under its own step.
\<close>

theorem reachable_plan_well_formed:
  assumes "plan_reachable p" shows "plan_inv p"
  using assms by (rule plan_reachable_inv)

definition example_plan :: plan where
  "example_plan = fst (Plan_AddStep (NewPlan ''t'' ''d'' 5) ''a'' ''b'' 6)"

lemma example_plan_reachable: "plan_reachable example_plan"
  unfolding example_plan_def Plan_AddStep_def
  by (rule plan_reachable.op [OF plan_reachable.fresh plan_op.add_step])

theorem reachable_plan_well_formed_witness:
  "plan_reachable example_plan \<and> plan_inv example_plan"
  using reachable_plan_well_formed [OF example_plan_reachable] example_plan_reachable by simp

text \<open>
  C1: no method of \<open>Plan\<close> turns a step into a completed one unless that step carries
  evidence and, when it has verify commands, the proof token that they ran; the evidence it was
  judged on is the evidence it still carries.
\<close>

theorem completion_needs_evidence:
  assumes "plan_op p q" and "find_step p i = Some s" and "s_Status s \<noteq> StatusCompleted"
    and "find_step q i = Some s'" and "s_Status s' = StatusCompleted"
  shows "s_Evidence s' \<noteq> [] \<and>
    (s_VerifyCommands s = [] \<or> containsEvidenceToken (s_Evidence s') verify_proof_token)"
  using plan_op_completes [OF assms] by (auto simp: gate_failure_def split: if_splits)

definition proven_step :: step where
  "proven_step = zero_step\<lparr>s_ID := 1, s_Evidence := [verify_proof_token], s_VerifyCommands := [''x'']\<rparr>"

definition proven_plan :: plan where
  "proven_plan = (NewPlan ''t'' ''d'' 5)\<lparr>p_Steps := [proven_step]\<rparr>"

lemma verify_token_normal: "trim_space (to_lower verify_proof_token) = verify_proof_token"
proof -
  have "to_lower verify_proof_token = verify_proof_token"
    by (rule to_lower_fixed) (simp add: verify_proof_token_def plain_lower_def)
  moreover have "trim_space verify_proof_token = verify_proof_token"
    by (rule trim_space_printable) (simp_all add: verify_proof_token_def printable_def)
  ultimately show ?thesis by simp
qed

lemma containsEvidenceToken_verify:
  "containsEvidenceToken evidence verify_proof_token \<longleftrightarrow>
   (\<exists>item \<in> set evidence. trim_space (to_lower item) = verify_proof_token)"
  by (auto simp: containsEvidenceToken_def verify_token_normal Let_def list_ex_iff)
    (simp add: verify_proof_token_def)

lemma proven_plan_eval:
  "find_step proven_plan 1 = Some proven_step" "s_Status proven_step = StatusPending"
  "gate_failure proven_step = None" "s_Evidence proven_step \<noteq> []"
  "containsEvidenceToken (s_Evidence proven_step) verify_proof_token"
  by (simp_all add: find_step_def proven_plan_def proven_step_def zero_step_def gate_failure_def
      containsEvidenceToken_verify verify_token_normal)

theorem completion_needs_evidence_witness:
  "plan_op proven_plan (Plan_CompleteStep proven_plan 1 ''done'' 9) \<and>
   s_Evidence (complete_update ''done'' 9 proven_step) \<noteq> []"
  using completion_needs_evidence [OF plan_op.complete_step [of proven_plan 1 "''done''" 9],
      of 1 proven_step "complete_update ''done'' 9 proven_step"]
  by (simp add: proven_plan_eval CompleteStep_find complete_update_def plan_op.complete_step)

text \<open>
  What \<open>CompleteStep\<close> does to an existing step, branch by branch: without evidence it is
  paused with the evidence message, without the verify proof it is paused with the proof message,
  otherwise it is completed with the given output; no other step is touched, and the plan as a
  whole becomes completed exactly when the gate passed and every step is completed or skipped.
\<close>

theorem CompleteStep_behaviour:
  assumes "find_step p i = Some s"
  shows "let q = Plan_CompleteStep p i out now in
    find_step q i =
      Some (if s_Evidence s = [] then pause_update missing_evidence_msg now s
            else if s_VerifyCommands s \<noteq> [] \<and> \<not> containsEvidenceToken (s_Evidence s) verify_proof_token
            then pause_update missing_proof_msg now s
            else complete_update out now s) \<and>
    (\<forall>j. j \<noteq> i \<longrightarrow> find_step q j = find_step p j) \<and>
    (gate_failure s \<noteq> None \<longrightarrow> p_Status q = StatusInProgress) \<and>
    (gate_failure s = None \<longrightarrow>
       p_Status q = (if \<forall>t \<in> set (p_Steps q). finished_status (s_Status t)
                     then StatusCompleted else p_Status p))"
  using assms
  by (auto simp: Let_def CompleteStep_find CompleteStep_other gate_failure_def)
    (auto simp: Plan_CompleteStep_def gate_failure_def settle_status_def list_all_iff markStepCompleted_def
      markStepFailed_def set_entry_def update_step_def)

theorem CompleteStep_behaviour_witness:
  "find_step proven_plan 1 = Some proven_step \<and>
   find_step (Plan_CompleteStep proven_plan 1 ''done'' 9) 1 = Some (complete_update ''done'' 9 proven_step)"
  using CompleteStep_behaviour [OF proven_plan_eval(1), of "''done''" 9] proven_plan_eval
  by (simp add: Let_def)

text \<open>
  Normalising a step contract establishes a usable contract (non-empty inputs, criteria,
  artifact, verify commands and rollback, all trimmed, the lists bounded and without duplicates)
  and normalising it again changes nothing, so reloading a saved plan never rewrites it.
\<close>

theorem EnsureContractDefaults_normalises:
  "contract_ok (Step_EnsureContractDefaults s) \<and>
   Step_EnsureContractDefaults (Step_EnsureContractDefaults s) = Step_EnsureContractDefaults s"
  using contract_ok_ensured ensure_contract_fixed by blast

text \<open>
  On a well-formed plan \<open>RetryStep\<close> succeeds exactly when \<open>CanRetry\<close> says so, and it then
  resets the step to pending with one more retry on its count, which never exceeds the limit.
\<close>

theorem RetryStep_iff_CanRetry:
  assumes "plan_inv p" and "find_step p i = Some s"
  shows "snd (Plan_RetryStep p i now) = Step_CanRetry s \<and>
    (Step_CanRetry s \<longrightarrow>
       find_step (fst (Plan_RetryStep p i now)) i = Some (retry_update s) \<and>
       s_RetryCount (retry_update s) \<le> s_MaxRetries s) \<and>
    (\<not> Step_CanRetry s \<longrightarrow> fst (Plan_RetryStep p i now) = p)"
proof -
  from assms have "s \<in> set (p_Steps p)" by (auto simp: find_step_def dest: find_SomeD)
  with assms have "retry_ok s" by (simp add: plan_inv_def list_all_iff)
  with assms(2) show ?thesis
    by (auto simp: Plan_RetryStep_def Step_CanRetry_def retry_ok_def find_updated_or)
      (simp_all add: retry_update_def)
qed

definition failed_plan :: plan where
  "failed_plan =
     Plan_FailStep (fst (Plan_AddStepFull (NewPlan ''t'' ''d'' 5) ''a'' ''b'' False [] 2 0 6)) 1 ''boom'' 7"

lemma failed_plan_inv: "plan_inv failed_plan"
  unfolding failed_plan_def by (intro inv_FailStep inv_AddStep inv_NewPlan)

lemma failed_plan_step:
  "\<exists>s. find_step failed_plan 1 = Some s \<and> Step_CanRetry s"
  by (simp add: failed_plan_def Plan_FailStep_def Plan_AddStepFull_def append_step_def NewPlan_def
      find_step_def Let_def update_step_def markStepFailed_def set_entry_def Step_CanRetry_def
      fail_update_def zero_step_def)

theorem RetryStep_iff_CanRetry_witness: "plan_inv failed_plan \<and> snd (Plan_RetryStep failed_plan 1 8)"
proof -
  obtain s where s: "find_step failed_plan 1 = Some s" "Step_CanRetry s" using failed_plan_step by blast
  show ?thesis using RetryStep_iff_CanRetry [OF failed_plan_inv s(1), of 8] s(2) failed_plan_inv by simp
qed

lemma ResumePausedSteps_parts:
  "p_Steps (fst (Plan_ResumePausedSteps p now)) = map resume_update (p_Steps p)"
  "snd (Plan_ResumePausedSteps p now) = length (filter (\<lambda>s. s_Status s = StatusPaused) (p_Steps p))"
  by (simp_all add: Plan_ResumePausedSteps_def Let_def)

text \<open>
  \<open>ResumePausedSteps\<close> reports how many steps were paused, leaves none paused, sends exactly
  those back to pending, touches no other step, and clears their partial-effects mark so that the
  idempotency guard lets them run again.
\<close>

theorem ResumePausedSteps_behaviour:
  "let (q, n) = Plan_ResumePausedSteps p now in
     n = length (filter (\<lambda>s. s_Status s = StatusPaused) (p_Steps p)) \<and>
     \<not> Plan_HasPausedSteps q \<and>
     length (p_Steps q) = length (p_Steps p) \<and>
     (\<forall>k < length (p_Steps p).
        if s_Status (p_Steps p ! k) = StatusPaused
        then s_Status (p_Steps q ! k) = StatusPending \<and> \<not> Plan_HasPartialEffects q (s_ID (p_Steps p ! k))
        else p_Steps q ! k = p_Steps p ! k)"
proof -
  have paused: "s_Status (resume_update s) \<noteq> StatusPaused" for s
    by (simp add: resume_update_def)
  have cleared: "\<not> Plan_HasPartialEffects (fst (Plan_ResumePausedSteps p now)) (s_ID s)"
    if "s \<in> set (p_Steps p)" "s_Status s = StatusPaused" for s
    using that
    by (auto simp: Plan_HasPartialEffects_def Plan_ResumePausedSteps_def Let_def clear_partial_def
        map_of_map_value filter_empty_conv split: option.splits)
  show ?thesis
    using paused cleared
    by (auto simp: Let_def split_def Plan_HasPausedSteps_def list_ex_iff ResumePausedSteps_parts)
      (simp_all add: resume_update_def)
qed

definition paused_plan :: plan where
  "paused_plan = Plan_PauseStep proven_plan 1 ''Checkpoint required'' 8"

lemma paused_plan_steps: "p_Steps paused_plan = [pause_update ''Checkpoint required'' 8 proven_step]"
  by (simp add: paused_plan_def Plan_PauseStep_def find_step_def markStepFailed_def set_entry_def
      update_step_def proven_plan_def proven_step_def)

theorem ResumePausedSteps_behaviour_witness:
  "snd (Plan_ResumePausedSteps paused_plan 9) = 1 \<and>
   \<not> Plan_HasPausedSteps (fst (Plan_ResumePausedSteps paused_plan 9))"
  using ResumePausedSteps_behaviour [of paused_plan 9]
  by (simp add: Let_def split_def paused_plan_steps pause_update_def)

lemma record_effect_signature:
  assumes "sig \<noteq> []"
  shows "sig \<in> set (l_EffectSignatures (record_effect sig tool args now e))"
    and "l_DuplicateEffects (record_effect sig tool args now e) =
         l_DuplicateEffects e + (if sig \<in> set (l_EffectSignatures e) then 1 else 0)"
    and "l_Completed (record_effect sig tool args now e) = l_Completed e"
    and "l_PartialEffects (record_effect sig tool args now e)"
  using assms
  by (auto simp: record_effect_def Let_def appendUniqueLimited_member split: option.splits)

lemma ensure_set_entry [simp]: "ensureLedgerEntry (set_entry p i e) i = e"
  by (simp add: ensureLedgerEntry_def set_entry_def)

lemma HasDuplicateRisk_entry:
  "Plan_HasDuplicateRisk (set_entry p i e) i \<longleftrightarrow> \<not> l_Completed e \<and> 2 \<le> l_DuplicateEffects e"
  by (simp add: Plan_HasDuplicateRisk_def set_entry_def)

lemma HasPartialEffects_entry:
  "Plan_HasPartialEffects (set_entry p i e) i \<longleftrightarrow> l_PartialEffects e \<and> \<not> l_Completed e"
  by (simp add: Plan_HasPartialEffects_def set_entry_def)

text \<open>
  Three identical side effects of an uncompleted step raise the duplicate-risk flag: recording
  the same tool call (same signature) three times makes \<open>HasDuplicateRisk\<close> and
  \<open>HasPartialEffects\<close> true.
\<close>

theorem repeated_effect_raises_risk:
  assumes "plan_inv p" and "0 < i" and "\<not> l_Completed (ensureLedgerEntry p i)"
    and "stepEffectSignature marshal digest tool args \<noteq> []"
  shows "let rec = (\<lambda>q now. Plan_RecordStepEffect marshal digest q i tool args now);
             q = rec (rec (rec p t1) t2) t3
         in Plan_HasDuplicateRisk q i \<and> Plan_HasPartialEffects q i"
proof -
  have "0 \<le> l_DuplicateEffects (ensureLedgerEntry p i)"
    using entry_ok_of_inv [OF assms(1), of i] by (simp add: entry_ok_def)
  with assms show ?thesis
    by (simp add: Let_def Plan_RecordStepEffect_def HasDuplicateRisk_entry HasPartialEffects_entry
        record_effect_signature)
qed

theorem repeated_effect_raises_risk_witness:
  "let rec = (\<lambda>q now. Plan_RecordStepEffect (\<lambda>_. Some ''{}'') (\<lambda>s. s) q 1 ''bash'' [] now);
       q = rec (rec (rec (NewPlan ''t'' ''d'' 5) 6) 7) 8
   in Plan_HasDuplicateRisk q 1 \<and> Plan_HasPartialEffects q 1"
  by (rule repeated_effect_raises_risk [OF inv_NewPlan])
    (simp_all add: ensureLedgerEntry_def NewPlan_def zero_ledger_entry_def stepEffectSignature_def)

lemma timeout_due_iff: "timeout_due now = (\<lambda>s. Step_HasTimedOut s now)"
  by (auto simp: timeout_due_def Step_HasTimedOut_def fun_eq_iff)

text \<open>
  \<open>CheckTimeouts\<close> fails exactly the steps for which \<open>HasTimedOut\<close> holds, reports exactly their
  IDs, and leaves every other step as it is.
\<close>

theorem CheckTimeouts_exact:
  "let (q, ids) = Plan_CheckTimeouts p now in
     ids = map s_ID (filter (\<lambda>s. Step_HasTimedOut s now) (p_Steps p)) \<and>
     (\<forall>k < length (p_Steps p).
        if Step_HasTimedOut (p_Steps p ! k) now
        then s_Status (p_Steps q ! k) = StatusFailed \<and> s_EndTime (p_Steps q ! k) = now
        else p_Steps q ! k = p_Steps p ! k)"
  by (auto simp: Plan_CheckTimeouts_def Let_def timeout_update_def timeout_due_iff)

definition timed_plan :: plan where
  "timed_plan = (NewPlan ''t'' ''d'' 5)\<lparr>p_Steps :=
     [zero_step\<lparr>s_ID := 1, s_Status := StatusInProgress, s_StartTime := 10, s_Timeout := 3\<rparr>]\<rparr>"

theorem CheckTimeouts_exact_witness:
  "snd (Plan_CheckTimeouts timed_plan 20) = [1] \<and>
   s_Status (p_Steps (fst (Plan_CheckTimeouts timed_plan 20)) ! 0) = StatusFailed"
  using CheckTimeouts_exact [of timed_plan 20]
  by (simp add: Let_def split_def timed_plan_def Step_HasTimedOut_def IsZero_def zero_time_def
      time_sub_def max_int64_def min_int64_def)

text \<open>
  The progress of a plan lies between 0 and 1, and is 1 exactly when the plan has steps and
  all of them are completed or skipped.
\<close>

theorem Progress_bounds:
  "0 \<le> Plan_Progress p \<and> Plan_Progress p \<le> 1 \<and>
   (Plan_Progress p = 1 \<longleftrightarrow>
      p_Steps p \<noteq> [] \<and> (\<forall>s \<in> set (p_Steps p). finished_status (s_Status s)))"
proof -
  let ?f = "filter (\<lambda>s. finished_status (s_Status s)) (p_Steps p)"
  have le: "length ?f \<le> length (p_Steps p)" by (rule length_filter_le)
  have "length ?f = length (p_Steps p) \<longleftrightarrow> (\<forall>s \<in> set (p_Steps p). finished_status (s_Status s))"
    by (metis filter_True length_filter_less nat_neq_iff)
  with le show ?thesis
    by (auto simp: Plan_Progress_def divide_le_eq_1 simp del: of_nat_le_iff)
qed

theorem Progress_bounds_witness:
  "Plan_Progress (proven_plan\<lparr>p_Steps := [skip_update proven_step]\<rparr>) = 1"
  using Progress_bounds [of "proven_plan\<lparr>p_Steps := [skip_update proven_step]\<rparr>"]
  by (simp add: skip_update_def finished_status_def)

end
