(* ===== verification/PlanSched.thy ===== *)
theory PlanSched
  imports PlanProps
begin

text \<open>
  Which steps of a plan run next: \<open>ShouldSkip\<close> (conditions \<open>step_N_failed\<close> and
  \<open>step_N_succeeded\<close>, read with \<open>fmt.Sscanf\<close>), \<open>NextReadySteps\<close> and the file-conflict filter
  \<open>filterFileConflictsLocked\<close> of \<open>internal/plan/plan.go\<close>.

  Lemmas: every selected step is pending with its dependencies done, a batch has at most four
  steps, all of them parallel when there are several, a batch of several never overlaps files an
  executing step has touched, and a plan whose dependencies point backwards always offers a step
  while one is pending and nothing is stuck.
\<close>

section \<open>Conditions\<close>

text \<open>
  \<open>fmt.Sscanf(cond, "step_%d_%s", ...)\<close>: the two values when both operands were read, \<open>None\<close>
  otherwise.
\<close>

definition sscanf_step_condition :: "string \<Rightarrow> (int \<times> string) option" where
  "sscanf_step_condition cond =
     (if \<not> has_prefix cond ''step_'' then None
      else case scan_skip_space (drop 5 cond) of
        None \<Rightarrow> None
      | Some r \<Rightarrow>
          let (neg, r) = split_sign r; (ds, r) = scan_digits r
          in if ds = [] then None
             else case clamp_signed neg (read_nat ds) of
               AtoiOk n \<Rightarrow>
                 if \<not> has_prefix r ''_'' then None
                 else (case scan_skip_space (drop 1 r) of
                         None \<Rightarrow> None
                       | Some r \<Rightarrow> if scan_token r = [] then None else Some (n, scan_token r))
             | _ \<Rightarrow> None)"

definition Step_ShouldSkip :: "step \<Rightarrow> plan \<Rightarrow> bool" where
  "Step_ShouldSkip s p =
     (if s_Condition s = [] then False
      else case sscanf_step_condition (trim_space (s_Condition s)) of
        None \<Rightarrow> False
      | Some (refID, condType) \<Rightarrow>
          (case find_step p refID of
             None \<Rightarrow> True
           | Some ref \<Rightarrow>
               if condType = ''failed'' then s_Status ref \<noteq> StatusFailed
               else if condType = ''succeeded'' then s_Status ref \<noteq> StatusCompleted
               else False))"

section \<open>Ready steps\<close>

definition done_ids :: "plan \<Rightarrow> int list" where
  "done_ids p = map s_ID (filter (\<lambda>s. finished_status (s_Status s)) (p_Steps p))"

definition step_ready :: "plan \<Rightarrow> step \<Rightarrow> bool" where
  "step_ready p s \<longleftrightarrow>
     s_Status s = StatusPending \<and> list_all (\<lambda>d. d \<in> set (done_ids p)) (s_DependsOn s)"

definition ready_steps :: "plan \<Rightarrow> step list" where
  "ready_steps p = filter (step_ready p) (p_Steps p)"

definition touched_files :: "plan \<Rightarrow> int \<Rightarrow> string list" where
  "touched_files p i = (case map_of (p_RunLedger p) i of None \<Rightarrow> [] | Some e \<Rightarrow> l_FilesTouched e)"

definition executing_files :: "plan \<Rightarrow> string list" where
  "executing_files p =
     concat (map (\<lambda>s. touched_files p (s_ID s))
                 (filter (\<lambda>s. s_Status s = StatusInProgress) (p_Steps p)))"

definition conflicts :: "plan \<Rightarrow> step \<Rightarrow> bool" where
  "conflicts p s \<longleftrightarrow> list_ex (\<lambda>f. f \<in> set (executing_files p)) (touched_files p (s_ID s))"

definition filterFileConflicts :: "plan \<Rightarrow> step list \<Rightarrow> step list" where
  "filterFileConflicts p candidates =
     (if length candidates \<le> 1 \<or> p_RunLedger p = [] then candidates
      else if executing_files p = [] then candidates
      else let safe = filter (\<lambda>s. \<not> conflicts p s) candidates
           in if safe = [] then take 1 candidates else safe)"

definition maxParallelSteps :: nat where
  "maxParallelSteps = 4"

definition Plan_NextReadySteps :: "plan \<Rightarrow> step list" where
  "Plan_NextReadySteps p =
     (case ready_steps p of
        [] \<Rightarrow> []
      | r # rs \<Rightarrow>
          if \<not> s_Parallel r then [r]
          else filterFileConflicts p (take maxParallelSteps (takeWhile s_Parallel (r # rs))))"

section \<open>Lemmas\<close>

lemma filterFileConflicts_subset: "set (filterFileConflicts p cs) \<subseteq> set cs"
  by (auto simp: filterFileConflicts_def Let_def dest: in_set_takeD split: if_splits)

lemma filterFileConflicts_length: "length (filterFileConflicts p cs) \<le> length cs"
  by (auto simp: filterFileConflicts_def Let_def)

lemma filterFileConflicts_nonempty: "cs \<noteq> [] \<Longrightarrow> filterFileConflicts p cs \<noteq> []"
  by (auto simp: filterFileConflicts_def Let_def)

lemma no_ledger_no_files: "p_RunLedger p = [] \<Longrightarrow> executing_files p = []"
  by (simp add: executing_files_def touched_files_def)

lemma filterFileConflicts_safe:
  "s \<in> set (filterFileConflicts p cs) \<Longrightarrow> 1 < length (filterFileConflicts p cs) \<Longrightarrow> \<not> conflicts p s"
  by (auto simp: filterFileConflicts_def conflicts_def list_ex_iff Let_def no_ledger_no_files
      split: if_splits)

lemma NextReadySteps_subset: "set (Plan_NextReadySteps p) \<subseteq> set (ready_steps p)"
proof (cases "ready_steps p")
  case (Cons r rs)
  have "set (take maxParallelSteps (takeWhile s_Parallel (r # rs))) \<subseteq> set (r # rs)"
    by (meson in_set_takeD set_takeWhileD subsetI)
  with Cons show ?thesis
    using filterFileConflicts_subset [of p "take maxParallelSteps (takeWhile s_Parallel (r # rs))"]
    by (auto simp: Plan_NextReadySteps_def)
qed (simp add: Plan_NextReadySteps_def)

lemma NextReadySteps_empty: "Plan_NextReadySteps p = [] \<longleftrightarrow> ready_steps p = []"
  by (auto simp: Plan_NextReadySteps_def maxParallelSteps_def filterFileConflicts_nonempty
      split: list.splits)

lemma NextReadySteps_batch:
  assumes "1 < length (Plan_NextReadySteps p)" and "s \<in> set (Plan_NextReadySteps p)"
  shows "s_Parallel s \<and> \<not> conflicts p s"
proof (cases "ready_steps p")
  case (Cons r rs)
  let ?c = "take maxParallelSteps (takeWhile s_Parallel (r # rs))"
  from Cons assms(1) have batch: "Plan_NextReadySteps p = filterFileConflicts p ?c"
    by (auto simp: Plan_NextReadySteps_def split: if_splits)
  from assms(2) have "s \<in> set (filterFileConflicts p ?c)" unfolding batch .
  then have "s \<in> set ?c" by (rule subsetD [OF filterFileConflicts_subset])
  then have "s_Parallel s" by (meson in_set_takeD set_takeWhileD)
  with batch assms show ?thesis using filterFileConflicts_safe by metis
qed (use assms in \<open>simp add: Plan_NextReadySteps_def\<close>)

lemma NextReadySteps_length: "length (Plan_NextReadySteps p) \<le> maxParallelSteps"
proof (cases "ready_steps p")
  case (Cons r rs)
  have "length (filterFileConflicts p (take maxParallelSteps (takeWhile s_Parallel (r # rs)))) \<le> maxParallelSteps"
    by (rule order_trans [OF filterFileConflicts_length]) simp
  moreover have "length [r] \<le> maxParallelSteps" by (simp add: maxParallelSteps_def)
  ultimately show ?thesis
    unfolding Plan_NextReadySteps_def Cons list.case by (cases "s_Parallel r") (simp_all only: if_True if_False simp_thms)
qed (simp add: Plan_NextReadySteps_def)

lemma done_ids_iff:
  "d \<in> set (done_ids p) \<longleftrightarrow> (\<exists>t \<in> set (p_Steps p). s_ID t = d \<and> finished_status (s_Status t))"
  by (auto simp: done_ids_def)

text \<open>
  C37: every step \<open>NextReadySteps\<close> hands out is a pending step of the plan all of whose
  dependencies are completed or skipped; there are at most four of them; when there are several,
  all are marked parallel and none has touched a file that an executing step has touched.
\<close>

theorem NextReadySteps_sound:
  assumes "s \<in> set (Plan_NextReadySteps p)"
  shows "s \<in> set (p_Steps p) \<and> s_Status s = StatusPending \<and>
    (\<forall>d \<in> set (s_DependsOn s). \<exists>t \<in> set (p_Steps p). s_ID t = d \<and> finished_status (s_Status t)) \<and>
    length (Plan_NextReadySteps p) \<le> 4 \<and>
    (1 < length (Plan_NextReadySteps p) \<longrightarrow>
       s_Parallel s \<and>
       (\<forall>f \<in> set (touched_files p (s_ID s)). \<forall>t \<in> set (p_Steps p).
          s_Status t = StatusInProgress \<longrightarrow> f \<notin> set (touched_files p (s_ID t))))"
proof -
  from assms NextReadySteps_subset have r: "s \<in> set (ready_steps p)" by blast
  have b: "1 < length (Plan_NextReadySteps p) \<Longrightarrow> s_Parallel s \<and> \<not> conflicts p s"
    using NextReadySteps_batch assms by blast
  show ?thesis
    using r b NextReadySteps_length [of p]
    by (auto simp: ready_steps_def step_ready_def list_all_iff done_ids_iff maxParallelSteps_def
        conflicts_def executing_files_def list_ex_iff)
qed

definition ready_plan :: plan where
  "ready_plan = (NewPlan ''t'' ''d'' 5)\<lparr>p_Steps :=
     [zero_step\<lparr>s_ID := 1, s_Status := StatusCompleted\<rparr>, zero_step\<lparr>s_ID := 2, s_DependsOn := [1]\<rparr>]\<rparr>"

lemma ready_plan_next: "Plan_NextReadySteps ready_plan = [zero_step\<lparr>s_ID := 2, s_DependsOn := [1]\<rparr>]"
  by (simp add: Plan_NextReadySteps_def ready_plan_def ready_steps_def step_ready_def done_ids_def
      zero_step_def finished_status_def)

theorem NextReadySteps_sound_witness:
  "zero_step\<lparr>s_ID := 2, s_DependsOn := [1]\<rparr> \<in> set (p_Steps ready_plan)"
  using NextReadySteps_sound [of "zero_step\<lparr>s_ID := 2, s_DependsOn := [1]\<rparr>" ready_plan]
  by (simp add: ready_plan_next)

text \<open>
  Dependencies that point backwards cannot block every pending step: the pending step with the
  least ID has only finished dependencies.
\<close>

definition backward_deps :: "plan \<Rightarrow> bool" where
  "backward_deps p \<longleftrightarrow>
     (\<forall>s \<in> set (p_Steps p). \<forall>d \<in> set (s_DependsOn s). d < s_ID s \<and> d \<in> s_ID ` set (p_Steps p))"

definition none_stuck :: "plan \<Rightarrow> bool" where
  "none_stuck p \<longleftrightarrow> (\<forall>s \<in> set (p_Steps p). s_Status s = StatusPending \<or> finished_status (s_Status s))"

lemma pending_step_offered:
  assumes "none_stuck p" and "backward_deps p"
    and "\<exists>s \<in> set (p_Steps p). s_Status s = StatusPending"
  shows "Plan_NextReadySteps p \<noteq> []"
proof -
  let ?P = "{s \<in> set (p_Steps p). s_Status s = StatusPending}"
  define m where "m = arg_min_on s_ID ?P"
  have P: "finite ?P" "?P \<noteq> {}" using assms(3) by auto
  have m: "m \<in> ?P" unfolding m_def using P by (rule arg_min_if_finite(1))
  have least: "s_ID m \<le> s_ID s" if "s \<in> ?P" for s
    unfolding m_def by (rule arg_min_least [OF P that])
  have "d \<in> set (done_ids p)" if "d \<in> set (s_DependsOn m)" for d
    using assms(1,2) m least that unfolding done_ids_iff none_stuck_def backward_deps_def by fastforce
  then have "m \<in> set (ready_steps p)"
    using m by (simp add: ready_steps_def step_ready_def list_all_iff)
  then show ?thesis by (auto simp: NextReadySteps_empty)
qed

text \<open>
  Scheduling cannot stall on dependencies: if every dependency of every step names an earlier
  step of the plan and no step is running, paused or failed, then as long as a step is pending
  \<open>NextReadySteps\<close> offers at least one.
\<close>

theorem NextReadySteps_progress:
  assumes "none_stuck p" and "backward_deps p"
    and "\<exists>s \<in> set (p_Steps p). s_Status s = StatusPending"
  shows "Plan_NextReadySteps p \<noteq> []"
  using assms by (rule pending_step_offered)

theorem NextReadySteps_progress_witness: "Plan_NextReadySteps ready_plan \<noteq> []"
proof (rule NextReadySteps_progress)
  show "none_stuck ready_plan"
    by (simp add: none_stuck_def ready_plan_def zero_step_def finished_status_def)
  show "backward_deps ready_plan"
    by (simp add: backward_deps_def ready_plan_def zero_step_def)
  show "\<exists>s \<in> set (p_Steps ready_plan). s_Status s = StatusPending"
    by (simp add: ready_plan_def zero_step_def)
qed

end
