(* ===== verification/GoHeap.thy ===== *)
theory GoHeap
  imports Prelude "HOL-Library.Multiset"
begin

text \<open>
  Go's \<open>container/heap\<close> as the sources use it: \<open>up\<close>, \<open>down\<close>, \<open>Push\<close>, \<open>Pop\<close>, \<open>Remove\<close> and \<open>Fix\<close> over
  the three operations of \<open>heap.Interface\<close> they call, \<open>Len\<close>, \<open>Less\<close> and \<open>Swap\<close>. The contract between
  the package and a queue is the locale \<open>heap_interface\<close>: a slice of elements, a key that \<open>Less\<close>
  compares and \<open>Swap\<close> does not touch. Inside it the heap order is proved for every operation.
\<close>

section \<open>The algorithms\<close>

text \<open>The parent index; Go's truncating division gives \<open>(0 - 1) / 2 = 0\<close>, as does \<open>nat\<close> subtraction.\<close>

definition parent :: "nat \<Rightarrow> nat" where
  "parent j = (j - 1) div 2"

lemma parent_less: "0 < j \<Longrightarrow> parent j < j"
  by (simp add: parent_def)

lemma parent_le: "parent j \<le> j"
  by (simp add: parent_def)

lemma parent_iff: "0 < c \<Longrightarrow> parent c = i \<longleftrightarrow> c = 2 * i + 1 \<or> c = 2 * i + 2"
  by (auto simp: parent_def)

function heap_up :: "('q \<Rightarrow> nat \<Rightarrow> nat \<Rightarrow> bool) \<Rightarrow> ('q \<Rightarrow> nat \<Rightarrow> nat \<Rightarrow> 'q) \<Rightarrow> 'q \<Rightarrow> nat \<Rightarrow> 'q" where
  "heap_up lt swap h j =
     (let i = parent j
      in if i = j \<or> \<not> lt h j i then h else heap_up lt swap (swap h i j) i)"
  by pat_completeness auto
termination
  by (relation "measure (\<lambda>(lt, swap, h, j). j)") (auto simp: parent_def)

text \<open>\<open>down\<close> returns where the element came to rest; it has moved if that is past the start.\<close>

function heap_down :: "('q \<Rightarrow> nat \<Rightarrow> nat \<Rightarrow> bool) \<Rightarrow> ('q \<Rightarrow> nat \<Rightarrow> nat \<Rightarrow> 'q) \<Rightarrow> 'q \<Rightarrow> nat \<Rightarrow> nat \<Rightarrow> 'q \<times> nat" where
  "heap_down lt swap h i n =
     (let j1 = 2 * i + 1
      in if n \<le> j1 then (h, i)
         else let j = (if j1 + 1 < n \<and> lt h (j1 + 1) j1 then j1 + 1 else j1)
              in if \<not> lt h j i then (h, i) else heap_down lt swap (swap h i j) j n)"
  by pat_completeness auto
termination
  by (relation "measure (\<lambda>(lt, swap, h, i, n). n - i)") (auto split: if_splits)

declare heap_up.simps [simp del] heap_down.simps [simp del]

definition heap_Fix :: "('q \<Rightarrow> nat \<Rightarrow> nat \<Rightarrow> bool) \<Rightarrow> ('q \<Rightarrow> nat \<Rightarrow> nat \<Rightarrow> 'q) \<Rightarrow> 'q \<Rightarrow> nat \<Rightarrow> nat \<Rightarrow> 'q" where
  "heap_Fix lt swap h i n =
     (case heap_down lt swap h i n of (h', i') \<Rightarrow> if i < i' then h' else heap_up lt swap h' i)"

text \<open>\<open>Pop\<close> and \<open>Remove\<close> up to the final \<open>h.Pop()\<close>; \<open>n\<close> is \<open>h.Len() - 1\<close>.\<close>

definition heap_Pop :: "('q \<Rightarrow> nat \<Rightarrow> nat \<Rightarrow> bool) \<Rightarrow> ('q \<Rightarrow> nat \<Rightarrow> nat \<Rightarrow> 'q) \<Rightarrow> 'q \<Rightarrow> nat \<Rightarrow> 'q" where
  "heap_Pop lt swap h n = fst (heap_down lt swap (swap h 0 n) 0 n)"

definition heap_Remove :: "('q \<Rightarrow> nat \<Rightarrow> nat \<Rightarrow> bool) \<Rightarrow> ('q \<Rightarrow> nat \<Rightarrow> nat \<Rightarrow> 'q) \<Rightarrow> 'q \<Rightarrow> nat \<Rightarrow> nat \<Rightarrow> 'q" where
  "heap_Remove lt swap h i n = (if n \<noteq> i then heap_Fix lt swap (swap h i n) i n else h)"

section \<open>Heap order on slices\<close>

definition list_swap :: "'a list \<Rightarrow> nat \<Rightarrow> nat \<Rightarrow> 'a list" where
  "list_swap xs i j = xs[i := xs ! j, j := xs ! i]"

lemma length_list_swap [simp]: "length (list_swap xs i j) = length xs"
  by (simp add: list_swap_def)

lemma mset_list_swap: "i < length xs \<Longrightarrow> j < length xs \<Longrightarrow> mset (list_swap xs i j) = mset xs"
  by (simp add: list_swap_def mset_swap)

lemma nth_list_swap:
  "i < length xs \<Longrightarrow> j < length xs \<Longrightarrow>
   list_swap xs i j ! m = (if m = j then xs ! i else if m = i then xs ! j else xs ! m)"
  by (cases "i = j") (auto simp: list_swap_def nth_list_update)

definition heap_upto :: "('a \<Rightarrow> 'k::linorder) \<Rightarrow> 'a list \<Rightarrow> nat \<Rightarrow> bool" where
  "heap_upto k xs n \<longleftrightarrow> (\<forall>c. 0 < c \<and> c < n \<longrightarrow> k (xs ! parent c) \<le> k (xs ! c))"

text \<open>
  The order holds except around position \<open>i\<close>, whose parent and children are in order with each
  other; \<open>below\<close> says that the element at \<open>i\<close> is in order with its children.
\<close>

definition heap_hole :: "('a \<Rightarrow> 'k::linorder) \<Rightarrow> 'a list \<Rightarrow> nat \<Rightarrow> nat \<Rightarrow> bool" where
  "heap_hole k xs n i \<longleftrightarrow>
     (\<forall>c. 0 < c \<and> c < n \<and> c \<noteq> i \<and> parent c \<noteq> i \<longrightarrow> k (xs ! parent c) \<le> k (xs ! c)) \<and>
     (\<forall>c. 0 < i \<and> 0 < c \<and> c < n \<and> parent c = i \<longrightarrow> k (xs ! parent i) \<le> k (xs ! c))"

definition below :: "('a \<Rightarrow> 'k::linorder) \<Rightarrow> 'a list \<Rightarrow> nat \<Rightarrow> nat \<Rightarrow> bool" where
  "below k xs n i \<longleftrightarrow> (\<forall>c. 0 < c \<and> c < n \<and> parent c = i \<longrightarrow> k (xs ! i) \<le> k (xs ! c))"

lemma heap_root: "heap_upto k xs n \<Longrightarrow> i < n \<Longrightarrow> k (xs ! 0) \<le> k (xs ! i)"
proof (induction i rule: less_induct)
  case (less i)
  show ?case
  proof (cases "i = 0")
    case False
    then have "parent i < i" by (simp add: parent_less)
    with less False show ?thesis
      unfolding heap_upto_def by (metis less_trans neq0_conv order_trans)
  qed simp
qed

lemma hole_other:
  "heap_hole k xs n i \<Longrightarrow> 0 < c \<Longrightarrow> c < n \<Longrightarrow> c \<noteq> i \<Longrightarrow> parent c \<noteq> i \<Longrightarrow> k (xs ! parent c) \<le> k (xs ! c)"
  unfolding heap_hole_def by simp

lemma hole_skip:
  "heap_hole k xs n i \<Longrightarrow> 0 < i \<Longrightarrow> 0 < c \<Longrightarrow> c < n \<Longrightarrow> parent c = i \<Longrightarrow> k (xs ! parent i) \<le> k (xs ! c)"
  unfolding heap_hole_def by simp

lemma heap_hole_end: "heap_upto k xs n \<Longrightarrow> heap_hole k xs (Suc n) n \<and> below k xs (Suc n) n"
  unfolding heap_upto_def heap_hole_def below_def
  using parent_le by (auto simp: less_Suc_eq dest: not_less [THEN iffD2])

lemma no_children: "n \<le> 2 * i + 1 \<Longrightarrow> below k xs n i"
proof -
  assume n: "n \<le> 2 * i + 1"
  have "parent c \<noteq> i" if "0 < c" "c < n" for c
    using that n by (simp add: parent_def)
  then show ?thesis unfolding below_def by blast
qed

lemma heap_hole_close:
  "heap_hole k xs n i \<Longrightarrow> below k xs n i \<Longrightarrow> (0 < i \<Longrightarrow> i < n \<Longrightarrow> k (xs ! parent i) \<le> k (xs ! i)) \<Longrightarrow> heap_upto k xs n"
  unfolding heap_hole_def below_def heap_upto_def by metis

lemma up_step:
  assumes "heap_hole k xs n j" "below k xs n j" "j < n" "n \<le> length xs" "0 < j" "k (xs ! j) < k (xs ! parent j)"
  shows "heap_hole k (list_swap xs (parent j) j) n (parent j) \<and> below k (list_swap xs (parent j) j) n (parent j)"
proof -
  let ?i = "parent j" and ?ys = "list_swap xs (parent j) j"
  have i: "?i < j" using assms(5) by (rule parent_less)
  then have nth: "?ys ! m = (if m = j then xs ! ?i else if m = ?i then xs ! j else xs ! m)" for m
    using assms by (simp add: nth_list_swap)
  have up: "k (xs ! parent ?i) \<le> k (xs ! ?i)" if "0 < ?i"
    by (rule hole_other [OF assms(1) that]) (use that i assms(3) parent_less [of ?i] in auto)
  have kid: "k (xs ! ?i) \<le> k (xs ! c)" if "0 < c" "c < n" "parent c = ?i" "c \<noteq> j" for c
    using hole_other [OF assms(1) that(1,2,4)] that(3) i by simp
  have "k (?ys ! parent c) \<le> k (?ys ! c)" if c: "0 < c" "c < n" "c \<noteq> ?i" "parent c \<noteq> ?i" for c
  proof (cases "parent c = j")
    case True
    then show ?thesis
      using c parent_less [of c] hole_skip [OF assms(1,5) c(1,2)] by (simp add: nth)
  next
    case False
    then show ?thesis
      using c hole_other [OF assms(1) c(1,2)] by (cases "c = j") (auto simp: nth)
  qed
  moreover have "k (?ys ! parent ?i) \<le> k (?ys ! c)" if "0 < ?i" "0 < c" "c < n" "parent c = ?i" for c
    using that up kid [of c] i parent_less [of ?i] parent_less [of c]
    by (cases "c = j") (auto simp: nth)
  moreover have "k (?ys ! ?i) \<le> k (?ys ! c)" if "0 < c" "c < n" "parent c = ?i" for c
    using that kid [of c] assms(6) i parent_less [of c] by (cases "c = j") (auto simp: nth)
  ultimately show ?thesis unfolding heap_hole_def below_def by blast
qed

lemma down_step:
  assumes "heap_hole k xs n i" "j < n" "n \<le> length xs" "0 < j" "parent j = i"
    and least: "\<And>c. 0 < c \<Longrightarrow> c < n \<Longrightarrow> parent c = i \<Longrightarrow> k (xs ! j) \<le> k (xs ! c)"
    and "k (xs ! j) < k (xs ! i)"
  shows "heap_hole k (list_swap xs i j) n j \<and> k (list_swap xs i j ! parent j) \<le> k (list_swap xs i j ! j)"
proof -
  let ?ys = "list_swap xs i j"
  have i: "i < j" using assms(4,5) parent_less by blast
  then have nth: "?ys ! m = (if m = j then xs ! i else if m = i then xs ! j else xs ! m)" for m
    using assms by (simp add: nth_list_swap)
  have "k (?ys ! parent c) \<le> k (?ys ! c)" if c: "0 < c" "c < n" "c \<noteq> j" "parent c \<noteq> j" for c
  proof (cases "c = i \<or> parent c = i")
    case True
    then show ?thesis
      using c least [of c] hole_skip [OF assms(1) _ assms(4,2,5)] parent_less [of c] by (auto simp: nth)
  next
    case False
    then show ?thesis using c hole_other [OF assms(1) c(1,2)] by (auto simp: nth)
  qed
  moreover have "k (?ys ! parent j) \<le> k (?ys ! c)" if c: "0 < c" "c < n" "parent c = j" for c
    using c assms(5) i parent_less [of c] hole_other [OF assms(1) c(1,2)] by (auto simp: nth)
  ultimately show ?thesis using assms(5,7) i unfolding heap_hole_def nth by auto
qed

section \<open>The interface\<close>

locale heap_interface =
  fixes items :: "'q \<Rightarrow> 'a list" and key :: "'q \<Rightarrow> 'a \<Rightarrow> 'k::linorder"
    and Less :: "'q \<Rightarrow> nat \<Rightarrow> nat \<Rightarrow> bool" and Swap :: "'q \<Rightarrow> nat \<Rightarrow> nat \<Rightarrow> 'q"
  assumes Less_key: "i < length (items h) \<Longrightarrow> j < length (items h) \<Longrightarrow>
      Less h i j \<longleftrightarrow> key h (items h ! i) < key h (items h ! j)"
    and items_Swap: "i < length (items h) \<Longrightarrow> j < length (items h) \<Longrightarrow>
      items (Swap h i j) = list_swap (items h) i j"
    and key_Swap: "key (Swap h i j) = key h"
begin

abbreviation "ordered h n \<equiv> heap_upto (key h) (items h) n"
abbreviation "hole h n i \<equiv> heap_hole (key h) (items h) n i"

text \<open>What every sequence of swaps below \<open>n\<close> keeps.\<close>

definition same :: "nat \<Rightarrow> 'q \<Rightarrow> 'q \<Rightarrow> bool" where
  "same n h h' \<longleftrightarrow> key h' = key h \<and> mset (items h') = mset (items h) \<and> drop n (items h') = drop n (items h)"

lemma same_refl: "same n h h"
  by (simp add: same_def)

lemma same_trans: "same n h h' \<Longrightarrow> same n h' h'' \<Longrightarrow> same n h h''"
  by (simp add: same_def)

lemma same_length: "same n h h' \<Longrightarrow> length (items h') = length (items h)"
  unfolding same_def by (metis size_mset)

lemma same_Swap:
  assumes "i < n" "j < n" "n \<le> length (items h)"
  shows "same n h (Swap h i j)"
proof -
  have "mset (items (Swap h i j)) = mset (items h)"
    using assms by (simp add: items_Swap mset_list_swap)
  with assms show ?thesis by (simp add: same_def key_Swap items_Swap list_swap_def)
qed

lemma up_unfold:
  "heap_up Less Swap h j =
     (if parent j = j \<or> \<not> Less h j (parent j) then h else heap_up Less Swap (Swap h (parent j) j) (parent j))"
  by (subst heap_up.simps) (simp add: Let_def)

lemma up_same: "j < n \<Longrightarrow> n \<le> length (items h) \<Longrightarrow> same n h (heap_up Less Swap h j)"
proof (induction j arbitrary: h rule: less_induct)
  case (less j)
  show ?case
  proof (cases "parent j = j \<or> \<not> Less h j (parent j)")
    case False
    with parent_le have lt: "parent j < j" by (simp add: le_neq_implies_less)
    with less.prems have s: "same n h (Swap h (parent j) j)" by (intro same_Swap) auto
    have "same n (Swap h (parent j) j) (heap_up Less Swap (Swap h (parent j) j) (parent j))"
      using lt less.prems same_length [OF s] by (intro less.IH) auto
    with s False show ?thesis by (subst up_unfold) (auto intro: same_trans)
  qed (subst up_unfold, simp add: same_refl)
qed

lemma up_ordered:
  "j < n \<Longrightarrow> n \<le> length (items h) \<Longrightarrow> hole h n j \<Longrightarrow> below (key h) (items h) n j \<Longrightarrow>
   ordered (heap_up Less Swap h j) n"
proof (induction j arbitrary: h rule: less_induct)
  case (less j)
  have p: "parent j < length (items h)" "j < length (items h)"
    using less.prems parent_le [of j] by auto
  show ?case
  proof (cases "parent j = j \<or> \<not> Less h j (parent j)")
    case True
    then have "0 < j \<Longrightarrow> key h (items h ! parent j) \<le> key h (items h ! j)"
      using p parent_less [of j] by (auto simp: Less_key)
    then have "ordered h n" using less.prems by (intro heap_hole_close) auto
    with True show ?thesis by (simp add: up_unfold [of h j])
  next
    case False
    let ?h = "Swap h (parent j) j"
    have j: "parent j < j" "0 < j" using False parent_le [of j] by (auto simp: parent_def le_neq_implies_less)
    have h: "items ?h = list_swap (items h) (parent j) j" using p by (simp add: items_Swap)
    have "hole ?h n (parent j) \<and> below (key ?h) (items ?h) n (parent j)"
      unfolding h key_Swap using less.prems j False p by (intro up_step) (auto simp: Less_key)
    then have "ordered (heap_up Less Swap ?h (parent j)) n"
      using j less.prems by (intro less.IH) (auto simp: h)
    with False show ?thesis by (simp add: up_unfold [of h j])
  qed
qed

text \<open>The smaller child, and the step of \<open>down\<close> towards it.\<close>

definition small :: "'q \<Rightarrow> nat \<Rightarrow> nat \<Rightarrow> nat" where
  "small h i n = (if 2 * i + 2 < n \<and> Less h (2 * i + 2) (2 * i + 1) then 2 * i + 2 else 2 * i + 1)"

lemma down_unfold:
  "heap_down Less Swap h i n =
     (if n \<le> 2 * i + 1 \<or> \<not> Less h (small h i n) i then (h, i)
      else heap_down Less Swap (Swap h i (small h i n)) (small h i n) n)"
  by (subst heap_down.simps) (simp add: Let_def small_def)

lemma small_bounds: "2 * i + 1 < n \<Longrightarrow> i < small h i n \<and> small h i n < n \<and> parent (small h i n) = i"
  by (auto simp: small_def parent_def)

lemma small_least:
  assumes "2 * i + 1 < n" "n \<le> length (items h)" "0 < c" "c < n" "parent c = i"
  shows "key h (items h ! small h i n) \<le> key h (items h ! c)"
  using assms by (auto simp: small_def Less_key parent_iff)

lemma down_facts:
  assumes "i < n" "n \<le> length (items h)"
  shows "same n h (fst (heap_down Less Swap h i n)) \<and> i \<le> snd (heap_down Less Swap h i n)"
  using assms
proof (induction "n - i" arbitrary: h i rule: less_induct)
  case less
  let ?j = "small h i n"
  show ?case
  proof (cases "n \<le> 2 * i + 1 \<or> \<not> Less h ?j i")
    case False
    then have j: "i < ?j" "?j < n" using small_bounds [of i n h] by auto
    then have s: "same n h (Swap h i ?j)" using less.prems by (intro same_Swap) auto
    have "same n (Swap h i ?j) (fst (heap_down Less Swap (Swap h i ?j) ?j n)) \<and>
        ?j \<le> snd (heap_down Less Swap (Swap h i ?j) ?j n)"
      using j less.prems same_length [OF s] by (intro less.hyps) auto
    with False j s show ?thesis by (subst (1 2) down_unfold) (auto intro: same_trans)
  qed (subst (1 2) down_unfold, simp add: same_refl)
qed

lemma down_ordered:
  assumes "i < n" "n \<le> length (items h)" "hole h n i"
  shows "if snd (heap_down Less Swap h i n) = i
    then heap_down Less Swap h i n = (h, i) \<and> below (key h) (items h) n i
    else ordered (fst (heap_down Less Swap h i n)) n"
  using assms
proof (induction "n - i" arbitrary: h i rule: less_induct)
  case less
  let ?j = "small h i n" and ?h = "Swap h i (small h i n)"
  have i: "i < length (items h)" using less.prems by simp
  show ?case
  proof (cases "n \<le> 2 * i + 1 \<or> \<not> Less h ?j i")
    case True
    have "below (key h) (items h) n i"
    proof (cases "n \<le> 2 * i + 1")
      case False
      with True small_bounds [of i n h] i less.prems have "key h (items h ! i) \<le> key h (items h ! ?j)"
        by (auto simp: Less_key)
      then have "key h (items h ! i) \<le> key h (items h ! c)" if "0 < c" "c < n" "parent c = i" for c
        using small_least [OF _ less.prems(2) that] False by (simp add: order_trans)
      then show ?thesis unfolding below_def by blast
    qed (simp add: no_children)
    with True show ?thesis by (simp add: down_unfold [of h i n])
  next
    case False
    then have j: "i < ?j" "?j < n" "parent ?j = i" using small_bounds [of i n h] by auto
    have h: "items ?h = list_swap (items h) i ?j" using j less.prems by (simp add: items_Swap)
    have step: "hole ?h n ?j \<and> key ?h (items ?h ! parent ?j) \<le> key ?h (items ?h ! ?j)"
      unfolding h key_Swap using less.prems False j
      by (intro down_step small_least) (auto simp: Less_key)
    have len: "n \<le> length (items ?h)" using less.prems by (simp add: h)
    have "i \<noteq> snd (heap_down Less Swap ?h ?j n)"
      using down_facts [OF j(2) len] j(1) by auto
    moreover have "ordered (fst (heap_down Less Swap ?h ?j n)) n"
    proof (cases "snd (heap_down Less Swap ?h ?j n) = ?j")
      case True
      have "n - ?j < n - i" using j by simp
      with True less.hyps [of ?j ?h] j len step
      have "heap_down Less Swap ?h ?j n = (?h, ?j)" "below (key ?h) (items ?h) n ?j" by simp_all
      with step show ?thesis by (auto intro: heap_hole_close)
    next
      case False
      have "n - ?j < n - i" using j by simp
      with False less.hyps [of ?j ?h] j len step show ?thesis by simp
    qed
    ultimately show ?thesis using False by (auto simp: down_unfold [of h i n])
  qed
qed

section \<open>The operations\<close>

lemma Push_ordered:
  assumes "items h = xs @ [x]" "heap_upto (key h) xs (length xs)"
  shows "ordered (heap_up Less Swap h (length xs)) (Suc (length xs)) \<and>
    same (Suc (length xs)) h (heap_up Less Swap h (length xs))"
proof -
  have "ordered h (length xs)"
    using assms order_le_less_trans [OF parent_le] by (auto simp: heap_upto_def nth_append)
  then have "hole h (Suc (length xs)) (length xs) \<and> below (key h) (items h) (Suc (length xs)) (length xs)"
    by (rule heap_hole_end)
  then show ?thesis using assms(1) by (intro conjI up_ordered up_same) auto
qed

lemma Fix_ordered:
  assumes "i < n" "n \<le> length (items h)" "hole h n i"
  shows "ordered (heap_Fix Less Swap h i n) n \<and> same n h (heap_Fix Less Swap h i n)"
proof (cases "snd (heap_down Less Swap h i n) = i")
  case True
  with down_ordered [OF assms] have "heap_down Less Swap h i n = (h, i)" "below (key h) (items h) n i"
    by simp_all
  then show ?thesis using assms up_ordered up_same by (simp add: heap_Fix_def)
next
  case False
  then show ?thesis
    using down_ordered [OF assms] down_facts [OF assms(1,2)] by (auto simp: heap_Fix_def split: prod.splits)
qed

lemma hole_Swap_end:
  assumes "ordered h (Suc n)" "length (items h) = Suc n" "i < n"
  shows "hole (Swap h i n) n i"
proof -
  have "heap_hole (key h) (list_swap (items h) i n) n i"
    unfolding heap_hole_def
  proof (intro conjI allI impI)
    fix c assume c: "0 < c \<and> c < n \<and> c \<noteq> i \<and> parent c \<noteq> i"
    then have "parent c < n" using parent_less [of c] by simp
    with c assms show "key h (list_swap (items h) i n ! parent c) \<le> key h (list_swap (items h) i n ! c)"
      by (simp add: nth_list_swap heap_upto_def)
  next
    fix c assume c: "0 < i \<and> 0 < c \<and> c < n \<and> parent c = i"
    then have "parent i < i" "i < c" using parent_less by blast+
    moreover from c assms have "key h (items h ! parent i) \<le> key h (items h ! i)"
      "key h (items h ! i) \<le> key h (items h ! c)" unfolding heap_upto_def by auto
    ultimately show "key h (list_swap (items h) i n ! parent i) \<le> key h (list_swap (items h) i n ! c)"
      using c assms by (simp add: nth_list_swap)
  qed
  then show ?thesis using assms by (simp add: items_Swap key_Swap)
qed

text \<open>Removing position \<open>i\<close>: what ends up last is the removed element, the rest is in order.\<close>

lemma Remove_ordered:
  assumes "ordered h (Suc n)" "length (items h) = Suc n" "i \<le> n"
  shows "ordered (heap_Remove Less Swap h i n) n \<and>
    key (heap_Remove Less Swap h i n) = key h \<and>
    (\<exists>ys. items (heap_Remove Less Swap h i n) = ys @ [items h ! i] \<and> mset (items h) = add_mset (items h ! i) (mset ys))"
proof (cases "i = n")
  case True
  then have "items h = butlast (items h) @ [items h ! i]"
    using assms(2) by (metis append_butlast_last_id diff_Suc_1 last_conv_nth length_0_conv nat.distinct(1))
  moreover from this have "mset (items h) = add_mset (items h ! i) (mset (butlast (items h)))"
    by (metis mset_append mset.simps union_mset_add_mset_right add.right_neutral)
  moreover have "ordered h n" using assms(1) by (simp add: heap_upto_def)
  ultimately show ?thesis using True unfolding heap_Remove_def by auto
next
  case False
  let ?h = "Swap h i n" and ?r = "heap_Remove Less Swap h i n"
  have i: "i < n" using False assms(3) by simp
  have sw: "items ?h = list_swap (items h) i n" using i assms(2) by (simp add: items_Swap)
  have fixed: "ordered ?r n \<and> same n ?h ?r"
    using Fix_ordered [of i n ?h] hole_Swap_end [OF assms(1,2) i] i assms(2) False
    by (simp add: heap_Remove_def sw)
  have "drop n (items ?h) = [items h ! i]"
    using i assms(2) by (intro nth_equalityI) (auto simp: sw nth_list_swap)
  with fixed have d: "drop n (items ?r) = [items h ! i]" by (simp add: same_def)
  have m: "mset (items ?r) = mset (items h)"
    using fixed i assms(2) by (simp add: same_def sw mset_list_swap)
  have items: "items ?r = take n (items ?r) @ [items h ! i]"
    using append_take_drop_id [of n "items ?r"] d by simp
  have "mset (items h) = add_mset (items h ! i) (mset (take n (items ?r)))"
    using m arg_cong [OF items, of mset] by simp
  moreover have "key ?r = key h" using fixed by (simp add: same_def key_Swap)
  ultimately show ?thesis using fixed items by blast
qed

lemma Pop_is_Remove: "0 < n \<Longrightarrow> ordered h (Suc n) \<Longrightarrow> length (items h) = Suc n \<Longrightarrow>
    heap_Pop Less Swap h n = heap_Remove Less Swap h 0 n"
proof -
  assume a: "0 < n" "ordered h (Suc n)" "length (items h) = Suc n"
  have "heap_up Less Swap h' 0 = h'" for h' by (subst up_unfold) (simp add: parent_def)
  with a show ?thesis
    by (auto simp: heap_Pop_def heap_Remove_def heap_Fix_def split: prod.splits)
qed

end

end
