(* ===== verification/TaskQueue.thy ===== *)
theory TaskQueue
  imports GoHeap "HOL-Library.Product_Lexorder"
begin

text \<open>
  The priority queue of coordinated agent tasks, \<open>internal/agent/priority_queue.go\<close>. Tasks are
  shared objects: the queue holds references into a store of tasks, as the coordinator does, and
  \<open>Swap\<close>, \<open>Push\<close> and \<open>Pop\<close> write the position and the sequence number of the tasks they touch. The
  heap operations are those of \<open>GoHeap\<close>, on whose interface \<open>Less\<close> and \<open>Swap\<close> are interpreted. What
  the queue promises, for every operation, is to behave like a list of tasks sorted by falling
  priority and, among equals, by arrival.
\<close>

section \<open>Tasks\<close>

datatype task_status =
    TaskStatusPending | TaskStatusBlocked | TaskStatusReady | TaskStatusRunning
  | TaskStatusCompleted | TaskStatusFailed

text \<open>The fields of an agent's result that coordination reads or writes.\<close>

record agent_result =
  ar_AgentID :: string
  ar_Type :: string
  ar_Status :: string
  ar_Error :: string
  ar_Completed :: bool
  ar_Metadata :: "(string \<times> string) list"

record ctask =
  t_ID :: string
  t_Prompt :: string
  t_AgentType :: string
  t_Priority :: int
  t_Dependencies :: "string list"
  t_Status :: task_status
  t_Result :: "agent_result option"
  t_Thought :: string
  t_index :: int
  t_queueSequence :: nat

definition PriorityLow :: int where "PriorityLow = 1"
definition PriorityNormal :: int where "PriorityNormal = 5"
definition PriorityHigh :: int where "PriorityHigh = 10"

text \<open>A caller-owned copy: results are values here, so only the position is reset.\<close>

definition cloneCoordinatedTask :: "ctask \<Rightarrow> ctask" where
  "cloneCoordinatedTask t = t\<lparr>t_index := - 1\<rparr>"

section \<open>The queue\<close>

type_synonym tref = nat

record task_queue =
  tq_items :: "tref list"
  tq_byID :: "(string \<times> tref) list"
  tq_nextSequence :: nat
  tq_mem :: "tref \<Rightarrow> ctask"

definition NewTaskQueue :: "(tref \<Rightarrow> ctask) \<Rightarrow> task_queue" where
  "NewTaskQueue mem = \<lparr>tq_items = [], tq_byID = [], tq_nextSequence = 0, tq_mem = mem\<rparr>"

definition TaskQueue_Len :: "task_queue \<Rightarrow> nat" where
  "TaskQueue_Len tq = length (tq_items tq)"

definition TaskQueue_Less :: "task_queue \<Rightarrow> nat \<Rightarrow> nat \<Rightarrow> bool" where
  "TaskQueue_Less tq i j =
     (let a = tq_mem tq (tq_items tq ! i); b = tq_mem tq (tq_items tq ! j)
      in if t_Priority a \<noteq> t_Priority b then t_Priority a > t_Priority b
         else t_queueSequence a < t_queueSequence b)"

definition set_index :: "(tref \<Rightarrow> ctask) \<Rightarrow> tref \<Rightarrow> int \<Rightarrow> tref \<Rightarrow> ctask" where
  "set_index mem r i = mem(r := (mem r)\<lparr>t_index := i\<rparr>)"

definition TaskQueue_Swap :: "task_queue \<Rightarrow> nat \<Rightarrow> nat \<Rightarrow> task_queue" where
  "TaskQueue_Swap tq i j =
     (let xs = list_swap (tq_items tq) i j
      in tq\<lparr>tq_items := xs,
            tq_mem := set_index (set_index (tq_mem tq) (xs ! i) (int i)) (xs ! j) (int j)\<rparr>)"

text \<open>The sequence counter is a \<open>uint64\<close>.\<close>

definition TaskQueue_Push :: "task_queue \<Rightarrow> tref \<Rightarrow> task_queue" where
  "TaskQueue_Push tq r =
     (let sq = (tq_nextSequence tq + 1) mod 2 ^ 64
      in tq\<lparr>tq_nextSequence := sq,
            tq_mem := (tq_mem tq)(r := (tq_mem tq r)\<lparr>t_queueSequence := sq, t_index := int (length (tq_items tq))\<rparr>),
            tq_items := tq_items tq @ [r],
            tq_byID := AList.update (t_ID (tq_mem tq r)) r (tq_byID tq)\<rparr>)"

definition TaskQueue_Pop :: "task_queue \<Rightarrow> task_queue \<times> tref" where
  "TaskQueue_Pop tq =
     (let r = last (tq_items tq)
      in (tq\<lparr>tq_items := butlast (tq_items tq), tq_mem := set_index (tq_mem tq) r (- 1),
             tq_byID := AList.delete (t_ID (tq_mem tq r)) (tq_byID tq)\<rparr>, r))"

text \<open>\<open>tq.items[task.index] == task\<close> with the bounds check in front.\<close>

definition at_index :: "task_queue \<Rightarrow> tref \<Rightarrow> bool" where
  "at_index tq r \<longleftrightarrow>
     0 \<le> t_index (tq_mem tq r) \<and> t_index (tq_mem tq r) < int (length (tq_items tq)) \<and>
     tq_items tq ! nat (t_index (tq_mem tq r)) = r"

definition PushTask :: "task_queue \<Rightarrow> tref option \<Rightarrow> task_queue" where
  "PushTask tq task =
     (case task of
        None \<Rightarrow> tq
      | Some r \<Rightarrow>
          if t_ID (tq_mem tq r) = [] then tq
          else if at_index tq r then tq
          else if map_of (tq_byID tq) (t_ID (tq_mem tq r)) \<noteq> None then tq
          else heap_up TaskQueue_Less TaskQueue_Swap (TaskQueue_Push tq r) (length (tq_items tq)))"

definition PopTask :: "task_queue \<Rightarrow> task_queue \<times> tref option" where
  "PopTask tq =
     (if TaskQueue_Len tq = 0 then (tq, None)
      else case TaskQueue_Pop (heap_Pop TaskQueue_Less TaskQueue_Swap tq (TaskQueue_Len tq - 1)) of
        (tq', r) \<Rightarrow> (tq', Some r))"

definition PeekTask :: "task_queue \<Rightarrow> ctask option" where
  "PeekTask tq =
     (if TaskQueue_Len tq = 0 then None else Some (cloneCoordinatedTask (tq_mem tq (tq_items tq ! 0))))"

definition UpdatePriority :: "task_queue \<Rightarrow> tref \<Rightarrow> int \<Rightarrow> task_queue \<times> bool" where
  "UpdatePriority tq r priority =
     (if at_index tq r
      then (heap_Fix TaskQueue_Less TaskQueue_Swap
              (tq\<lparr>tq_mem := (tq_mem tq)(r := (tq_mem tq r)\<lparr>t_Priority := priority\<rparr>)\<rparr>)
              (nat (t_index (tq_mem tq r))) (TaskQueue_Len tq), True)
      else (tq, False))"

fun index_of_ID :: "(tref \<Rightarrow> ctask) \<Rightarrow> string \<Rightarrow> nat \<Rightarrow> tref list \<Rightarrow> nat option" where
  "index_of_ID mem taskID i [] = None"
| "index_of_ID mem taskID i (r # rs) =
     (if t_ID (mem r) = taskID then Some i else index_of_ID mem taskID (Suc i) rs)"

definition RemoveTask :: "task_queue \<Rightarrow> string \<Rightarrow> task_queue \<times> tref option" where
  "RemoveTask tq taskID =
     (case index_of_ID (tq_mem tq) taskID 0 (tq_items tq) of
        None \<Rightarrow> (tq, None)
      | Some i \<Rightarrow>
          (case TaskQueue_Pop (heap_Remove TaskQueue_Less TaskQueue_Swap tq i (TaskQueue_Len tq - 1)) of
             (tq', r) \<Rightarrow> (tq', Some r)))"

definition GetReadyTasks :: "task_queue \<Rightarrow> ctask list" where
  "GetReadyTasks tq =
     map cloneCoordinatedTask (filter (\<lambda>t. t_Status t = TaskStatusReady) (map (tq_mem tq) (tq_items tq)))"

definition TaskQueue_Size :: "task_queue \<Rightarrow> nat" where
  "TaskQueue_Size tq = TaskQueue_Len tq"

section \<open>The heap interface\<close>

definition rank :: "task_queue \<Rightarrow> tref \<Rightarrow> int \<times> nat" where
  "rank tq r = (- t_Priority (tq_mem tq r), t_queueSequence (tq_mem tq r))"

interpretation hq: heap_interface tq_items rank TaskQueue_Less TaskQueue_Swap
proof
  show "TaskQueue_Less tq i j \<longleftrightarrow> rank tq (tq_items tq ! i) < rank tq (tq_items tq ! j)" for tq i j
    by (auto simp: TaskQueue_Less_def rank_def Let_def less_prod_def')
  show "tq_items (TaskQueue_Swap tq i j) = list_swap (tq_items tq) i j" for tq i j
    by (simp add: TaskQueue_Swap_def Let_def)
  show "rank (TaskQueue_Swap tq i j) = rank tq" for tq i j
    by (auto simp: rank_def TaskQueue_Swap_def Let_def set_index_def fun_eq_iff)
qed

text \<open>What the heap operations change of the tasks is their position only, and that they keep true.\<close>

definition positions :: "task_queue \<Rightarrow> bool" where
  "positions tq \<longleftrightarrow> distinct (tq_items tq) \<and>
     (\<forall>i < length (tq_items tq). t_index (tq_mem tq (tq_items tq ! i)) = int i)"

definition unindexed :: "(tref \<Rightarrow> ctask) \<Rightarrow> tref \<Rightarrow> ctask" where
  "unindexed mem r = (mem r)\<lparr>t_index := 0\<rparr>"

definition frame :: "task_queue \<Rightarrow> task_queue \<Rightarrow> bool" where
  "frame tq tq' \<longleftrightarrow> tq_byID tq' = tq_byID tq \<and> tq_nextSequence tq' = tq_nextSequence tq \<and>
     unindexed (tq_mem tq') = unindexed (tq_mem tq) \<and>
     (\<forall>r. r \<notin> set (tq_items tq) \<longrightarrow> tq_mem tq' r = tq_mem tq r) \<and>
     length (tq_items tq') = length (tq_items tq) \<and> set (tq_items tq') = set (tq_items tq) \<and>
     (positions tq \<longrightarrow> positions tq')"

lemma frame_refl: "frame tq tq"
  by (simp add: frame_def)

lemma frame_trans: "frame tq tq' \<Longrightarrow> frame tq' tq'' \<Longrightarrow> frame tq tq''"
  unfolding frame_def by auto

lemma set_list_swap: "i < length xs \<Longrightarrow> j < length xs \<Longrightarrow> set (list_swap xs i j) = set xs"
  using mset_list_swap [of i xs j] by (metis set_mset_mset)

lemma positions_Swap:
  assumes "i < length (tq_items tq)" "j < length (tq_items tq)" "positions tq"
  shows "positions (TaskQueue_Swap tq i j)"
proof -
  let ?xs = "list_swap (tq_items tq) i j"
  have d: "distinct ?xs"
    using assms mset_list_swap [of i "tq_items tq" j] by (metis mset_eq_imp_distinct_iff positions_def)
  have "t_index (set_index (set_index (tq_mem tq) (?xs ! i) (int i)) (?xs ! j) (int j) (?xs ! m)) = int m"
    if m: "m < length (tq_items tq)" for m
  proof (cases "m = i \<or> m = j")
    case True
    then show ?thesis
      using assms d nth_eq_iff_index_eq [of ?xs j i] by (auto simp: set_index_def)
  next
    case False
    then have "?xs ! m \<noteq> ?xs ! i" "?xs ! m \<noteq> ?xs ! j" "?xs ! m = tq_items tq ! m"
      using m assms by (auto simp: positions_def nth_eq_iff_index_eq nth_list_swap)
    then show ?thesis using m assms(3) by (simp add: set_index_def positions_def)
  qed
  with d show ?thesis by (simp add: positions_def TaskQueue_Swap_def Let_def)
qed

lemma frame_Swap:
  assumes "i < length (tq_items tq)" "j < length (tq_items tq)"
  shows "frame tq (TaskQueue_Swap tq i j)"
proof -
  have "list_swap (tq_items tq) i j ! m \<in> set (tq_items tq)" if "m = i \<or> m = j" for m
    using assms that by (auto simp: nth_list_swap)
  then show ?thesis
    using assms positions_Swap [OF assms]
    by (auto simp: frame_def TaskQueue_Swap_def Let_def set_index_def unindexed_def fun_eq_iff set_list_swap)
qed

lemma frame_up: "j < length (tq_items tq) \<Longrightarrow> frame tq (heap_up TaskQueue_Less TaskQueue_Swap tq j)"
proof (induction j arbitrary: tq rule: less_induct)
  case (less j)
  let ?q = "TaskQueue_Swap tq (parent j) j"
  show ?case
  proof (cases "parent j = j \<or> \<not> TaskQueue_Less tq j (parent j)")
    case False
    then have p: "parent j < j" using parent_le [of j] by auto
    then have f: "frame tq ?q" using less.prems by (intro frame_Swap) auto
    have "frame ?q (heap_up TaskQueue_Less TaskQueue_Swap ?q (parent j))"
      using p less.prems f by (intro less.IH) (auto simp: frame_def)
    with f False show ?thesis by (simp add: hq.up_unfold [of tq j] frame_trans)
  qed (simp add: hq.up_unfold [of tq j] frame_refl)
qed

lemma frame_down:
  "i < n \<Longrightarrow> n \<le> length (tq_items tq) \<Longrightarrow> frame tq (fst (heap_down TaskQueue_Less TaskQueue_Swap tq i n))"
proof (induction "n - i" arbitrary: tq i rule: less_induct)
  case less
  let ?j = "hq.small tq i n" and ?q = "TaskQueue_Swap tq i (hq.small tq i n)"
  show ?case
  proof (cases "n \<le> 2 * i + 1 \<or> \<not> TaskQueue_Less tq ?j i")
    case False
    then have j: "i < ?j" "?j < n" using hq.small_bounds [of i n tq] by auto
    then have f: "frame tq ?q" using less.prems by (intro frame_Swap) auto
    have "frame ?q (fst (heap_down TaskQueue_Less TaskQueue_Swap ?q ?j n))"
      using j less.prems f by (intro less.hyps) (auto simp: frame_def)
    with f False show ?thesis by (simp add: hq.down_unfold [of tq i n] frame_trans)
  qed (simp add: hq.down_unfold [of tq i n] frame_refl)
qed

lemma frame_Fix:
  assumes "i < n" "n \<le> length (tq_items tq)"
  shows "frame tq (heap_Fix TaskQueue_Less TaskQueue_Swap tq i n)"
proof -
  let ?d = "heap_down TaskQueue_Less TaskQueue_Swap tq i n"
  have f: "frame tq (fst ?d)" using assms by (rule frame_down)
  moreover have "frame (fst ?d) (heap_up TaskQueue_Less TaskQueue_Swap (fst ?d) i)"
    using f assms by (intro frame_up) (simp add: frame_def)
  ultimately show ?thesis by (auto simp: heap_Fix_def intro: frame_trans split: prod.splits)
qed

lemma frame_Remove:
  "i \<le> n \<Longrightarrow> length (tq_items tq) = Suc n \<Longrightarrow> frame tq (heap_Remove TaskQueue_Less TaskQueue_Swap tq i n)"
  by (auto simp: heap_Remove_def frame_refl intro!: frame_trans [OF frame_Swap frame_Fix]
      simp: hq.items_Swap)

section \<open>The invariant\<close>

definition queue_inv :: "task_queue \<Rightarrow> bool" where
  "queue_inv tq \<longleftrightarrow>
     positions tq \<and> hq.ordered tq (length (tq_items tq)) \<and>
     inj_on (\<lambda>r. t_queueSequence (tq_mem tq r)) (set (tq_items tq)) \<and>
     (\<forall>r \<in> set (tq_items tq). t_queueSequence (tq_mem tq r) \<le> tq_nextSequence tq) \<and>
     (\<forall>i r. map_of (tq_byID tq) i = Some r \<longleftrightarrow> r \<in> set (tq_items tq) \<and> t_ID (tq_mem tq r) = i)"

text \<open>The tasks in the order in which they will be served.\<close>

definition waiting :: "task_queue \<Rightarrow> tref list" where
  "waiting tq = sort_key (rank tq) (tq_items tq)"

lemma set_waiting [simp]: "set (waiting tq) = set (tq_items tq)"
  by (simp add: waiting_def)

lemma rank_inj: "queue_inv tq \<Longrightarrow> inj_on (rank tq) (set (tq_items tq))"
  by (auto simp: queue_inv_def rank_def inj_on_def)

lemma waiting_unique:
  "queue_inv tq \<Longrightarrow> mset ys = mset (tq_items tq) \<Longrightarrow> sorted (map (rank tq) ys) \<Longrightarrow> waiting tq = ys"
  unfolding waiting_def using rank_inj by (intro sort_key_inj_key_eq) auto

lemma frame_fields:
  assumes "frame tq tq'"
  shows "t_queueSequence (tq_mem tq' r) = t_queueSequence (tq_mem tq r)" "t_ID (tq_mem tq' r) = t_ID (tq_mem tq r)"
    "t_Priority (tq_mem tq' r) = t_Priority (tq_mem tq r)" "t_Status (tq_mem tq' r) = t_Status (tq_mem tq r)"
    "t_Dependencies (tq_mem tq' r) = t_Dependencies (tq_mem tq r)" "t_Result (tq_mem tq' r) = t_Result (tq_mem tq r)"
    "t_AgentType (tq_mem tq' r) = t_AgentType (tq_mem tq r)" "t_Prompt (tq_mem tq' r) = t_Prompt (tq_mem tq r)"
proof -
  have "unindexed (tq_mem tq') r = unindexed (tq_mem tq) r" using assms by (simp add: frame_def)
  then show "t_queueSequence (tq_mem tq' r) = t_queueSequence (tq_mem tq r)" "t_ID (tq_mem tq' r) = t_ID (tq_mem tq r)"
    "t_Priority (tq_mem tq' r) = t_Priority (tq_mem tq r)" "t_Status (tq_mem tq' r) = t_Status (tq_mem tq r)"
    "t_Dependencies (tq_mem tq' r) = t_Dependencies (tq_mem tq r)" "t_Result (tq_mem tq' r) = t_Result (tq_mem tq r)"
    "t_AgentType (tq_mem tq' r) = t_AgentType (tq_mem tq r)" "t_Prompt (tq_mem tq' r) = t_Prompt (tq_mem tq r)"
    by (simp_all add: unindexed_def ctask.ext_inject [symmetric] ctask.defs) (cases "tq_mem tq r"; cases "tq_mem tq' r"; simp)+
qed

lemma frame_rank: "frame tq tq' \<Longrightarrow> rank tq' = rank tq"
  by (auto simp: rank_def fun_eq_iff frame_fields)

lemma queue_inv_frame:
  assumes "frame tq tq'" "positions tq" "hq.ordered tq' (length (tq_items tq'))"
    and "inj_on (\<lambda>r. t_queueSequence (tq_mem tq r)) (set (tq_items tq))"
    and "\<forall>r \<in> set (tq_items tq). t_queueSequence (tq_mem tq r) \<le> tq_nextSequence tq"
    and "\<forall>i r. map_of (tq_byID tq) i = Some r \<longleftrightarrow> r \<in> set (tq_items tq) \<and> t_ID (tq_mem tq r) = i"
  shows "queue_inv tq'"
  using assms unfolding queue_inv_def by (simp add: frame_fields [OF assms(1)]) (simp add: frame_def)

lemma positions_at:
  assumes "positions tq"
  shows "at_index tq r \<longleftrightarrow> r \<in> set (tq_items tq)"
proof
  assume "r \<in> set (tq_items tq)"
  then obtain i where "i < length (tq_items tq)" "tq_items tq ! i = r" by (auto simp: in_set_conv_nth)
  with assms show "at_index tq r" by (auto simp: at_index_def positions_def)
next
  assume "at_index tq r"
  then have "nat (t_index (tq_mem tq r)) < length (tq_items tq)"
    "tq_items tq ! nat (t_index (tq_mem tq r)) = r" by (auto simp: at_index_def)
  then show "r \<in> set (tq_items tq)" by (metis nth_mem)
qed

lemma queue_inv_New: "queue_inv (NewTaskQueue mem)"
  by (simp add: queue_inv_def NewTaskQueue_def positions_def heap_upto_def)

section \<open>Adding a task\<close>

definition pushes :: "task_queue \<Rightarrow> tref \<Rightarrow> bool" where
  "pushes tq r \<longleftrightarrow> t_ID (tq_mem tq r) \<noteq> [] \<and> r \<notin> set (tq_items tq) \<and>
     t_ID (tq_mem tq r) \<notin> (\<lambda>s. t_ID (tq_mem tq s)) ` set (tq_items tq)"

lemma PushTask_iff:
  assumes "queue_inv tq"
  shows "PushTask tq (Some r) =
    (if pushes tq r then heap_up TaskQueue_Less TaskQueue_Swap (TaskQueue_Push tq r) (length (tq_items tq)) else tq)"
proof -
  have "map_of (tq_byID tq) i = None \<longleftrightarrow> i \<notin> (\<lambda>s. t_ID (tq_mem tq s)) ` set (tq_items tq)" for i
    using assms unfolding queue_inv_def by (metis (no_types, lifting) image_iff not_None_eq)
  with assms positions_at [of tq r] show ?thesis
    unfolding PushTask_def pushes_def queue_inv_def by auto
qed

lemma Push_fields:
  "tq_items (TaskQueue_Push tq r) = tq_items tq @ [r]"
  "r \<noteq> s \<Longrightarrow> tq_mem (TaskQueue_Push tq r) s = tq_mem tq s"
  "t_ID (tq_mem (TaskQueue_Push tq r) s) = t_ID (tq_mem tq s)"
  "t_Priority (tq_mem (TaskQueue_Push tq r) s) = t_Priority (tq_mem tq s)"
  "t_Status (tq_mem (TaskQueue_Push tq r) s) = t_Status (tq_mem tq s)"
  "t_Dependencies (tq_mem (TaskQueue_Push tq r) s) = t_Dependencies (tq_mem tq s)"
  "t_Result (tq_mem (TaskQueue_Push tq r) s) = t_Result (tq_mem tq s)"
  by (simp_all add: TaskQueue_Push_def Let_def)

lemma rank_Push: "r \<noteq> s \<Longrightarrow> rank (TaskQueue_Push tq r) s = rank tq s"
  by (simp add: rank_def Push_fields)

lemma Push_facts:
  assumes inv: "queue_inv tq" and new: "pushes tq r" and room: "tq_nextSequence tq + 1 < 2 ^ 64"
  shows "frame (TaskQueue_Push tq r) (PushTask tq (Some r))" "queue_inv (PushTask tq (Some r))"
proof -
  let ?p = "TaskQueue_Push tq r" and ?q = "PushTask tq (Some r)" and ?n = "length (tq_items tq)"
  have q: "?q = heap_up TaskQueue_Less TaskQueue_Swap ?p ?n" using assms by (simp add: PushTask_iff)
  show f: "frame ?p ?q" unfolding q by (rule frame_up) (simp add: Push_fields)
  have "r \<notin> set (tq_items tq)" using new by (simp add: pushes_def)
  then have same: "\<forall>s \<in> set (tq_items tq). rank ?p s = rank tq s"
    using rank_Push by metis
  have "heap_upto (rank ?p) (tq_items tq) ?n"
    unfolding heap_upto_def
  proof (intro allI impI)
    fix c assume c: "0 < c \<and> c < ?n"
    then have "parent c < ?n" using parent_less [of c] by simp
    with c same inv show "rank ?p (tq_items tq ! parent c) \<le> rank ?p (tq_items tq ! c)"
      by (simp add: queue_inv_def heap_upto_def)
  qed
  then have "hq.ordered ?q (Suc ?n)"
    unfolding q using hq.Push_ordered [of ?p "tq_items tq" r] by (simp add: Push_fields)
  moreover have "length (tq_items ?q) = Suc ?n" using f by (simp add: frame_def Push_fields)
  ultimately have ord: "hq.ordered ?q (length (tq_items ?q))" by simp
  show "queue_inv ?q"
  proof (rule queue_inv_frame [OF f _ ord])
    show "positions ?p"
      unfolding positions_def
    proof (intro conjI allI impI)
      show "distinct (tq_items ?p)"
        using inv new by (simp add: queue_inv_def positions_def pushes_def Push_fields)
      fix i assume i: "i < length (tq_items ?p)"
      show "t_index (tq_mem ?p (tq_items ?p ! i)) = int i"
      proof (cases "i = ?n")
        case False
        with i have "i < ?n" "tq_items tq ! i \<noteq> r"
          using new by (auto simp: Push_fields pushes_def)
        with inv show ?thesis by (simp add: Push_fields nth_append queue_inv_def positions_def)
      qed (simp add: Push_fields TaskQueue_Push_def Let_def)
    qed
    have seq: "t_queueSequence (tq_mem ?p s) = (if s = r then tq_nextSequence tq + 1 else t_queueSequence (tq_mem tq s))"
      for s using room by (simp add: TaskQueue_Push_def Let_def)
    have old: "t_queueSequence (tq_mem tq s) \<le> tq_nextSequence tq" if "s \<in> set (tq_items tq)" for s
      using inv that by (simp add: queue_inv_def)
    have "tq_nextSequence ?p = tq_nextSequence tq + 1" using room by (simp add: TaskQueue_Push_def Let_def)
    then show "\<forall>s \<in> set (tq_items ?p). t_queueSequence (tq_mem ?p s) \<le> tq_nextSequence ?p"
      using old by (auto simp: seq Push_fields intro: le_SucI)
    have inj: "inj_on (\<lambda>s. t_queueSequence (tq_mem tq s)) (set (tq_items tq))"
      using inv by (simp add: queue_inv_def)
    have "inj_on (\<lambda>s. t_queueSequence (tq_mem ?p s)) (set (tq_items tq))"
      by (rule inj_on_cong [THEN iffD1, OF _ inj]) (use new in \<open>auto simp: seq pushes_def\<close>)
    moreover have "tq_nextSequence tq + 1 \<notin> (\<lambda>s. t_queueSequence (tq_mem tq s)) ` set (tq_items tq)"
      using old by fastforce
    ultimately show "inj_on (\<lambda>s. t_queueSequence (tq_mem ?p s)) (set (tq_items ?p))"
      using new by (auto simp: seq Push_fields pushes_def)
    show "\<forall>i s. map_of (tq_byID ?p) i = Some s \<longleftrightarrow> s \<in> set (tq_items ?p) \<and> t_ID (tq_mem ?p s) = i"
    proof (intro allI)
      fix i s
      have "map_of (tq_byID tq) i = Some s \<longleftrightarrow> s \<in> set (tq_items tq) \<and> t_ID (tq_mem tq s) = i"
        using inv by (simp add: queue_inv_def)
      then show "map_of (tq_byID ?p) i = Some s \<longleftrightarrow> s \<in> set (tq_items ?p) \<and> t_ID (tq_mem ?p s) = i"
        using new by (auto simp: pushes_def TaskQueue_Push_def Let_def image_iff)
    qed
  qed
qed

text \<open>A new task is served after everything of its priority or more, and before the rest.\<close>

lemma waiting_Push:
  assumes inv: "queue_inv tq" and new: "pushes tq r" and room: "tq_nextSequence tq + 1 < 2 ^ 64"
  defines "ahead \<equiv> \<lambda>s. t_Priority (tq_mem tq r) \<le> t_Priority (tq_mem tq s)"
  shows "waiting (PushTask tq (Some r)) = filter ahead (waiting tq) @ r # filter (\<lambda>s. \<not> ahead s) (waiting tq)"
proof -
  let ?p = "TaskQueue_Push tq r" and ?q = "PushTask tq (Some r)"
  note f = Push_facts(1) [OF inv new room]
  have rk: "rank ?q s = (if s = r then (- t_Priority (tq_mem tq r), tq_nextSequence tq + 1) else rank tq s)" for s
    using room unfolding frame_rank [OF f]
    by (auto simp: rank_Push) (simp add: rank_def TaskQueue_Push_def Let_def)
  have notin: "r \<notin> set (tq_items tq)" using new by (simp add: pushes_def)
  have sorted: "sorted (map (rank tq) (waiting tq))" by (simp add: waiting_def)
  have keep: "map (rank ?q) (filter P (waiting tq)) = map (rank tq) (filter P (waiting tq))" for P
    using notin by (auto simp: rk)
  have before: "rank tq s \<le> (- t_Priority (tq_mem tq r), tq_nextSequence tq + 1)"
    if "s \<in> set (tq_items tq)" "ahead s" for s
    using that inv by (auto simp: rank_def ahead_def queue_inv_def less_eq_prod_def intro: le_SucI)
  have after: "(- t_Priority (tq_mem tq r), tq_nextSequence tq + 1) \<le> rank tq s"
    if "\<not> ahead s" for s
    using that by (auto simp: rank_def ahead_def less_eq_prod_def)
  have "sorted (map (rank ?q) (filter ahead (waiting tq) @ r # filter (\<lambda>s. \<not> ahead s) (waiting tq)))"
    using before after sorted sorted_filter [of "rank tq" "waiting tq"]
    by (auto simp: sorted_append keep rk notin intro: order_trans)
  moreover have "mset (filter ahead (waiting tq) @ r # filter (\<lambda>s. \<not> ahead s) (waiting tq)) = mset (tq_items ?q)"
  proof -
    have "mset (tq_items ?q) = mset (tq_items ?p)"
      using hq.Push_ordered [of ?p "tq_items tq" r] hq.up_same [of "length (tq_items tq)" "Suc (length (tq_items tq))" ?p]
        inv new by (simp add: PushTask_iff Push_fields hq.same_def)
    then show ?thesis by (simp add: Push_fields waiting_def multiset_partition [symmetric])
  qed
  ultimately show ?thesis using Push_facts(2) [OF inv new room] by (intro waiting_unique) auto
qed

section \<open>Removing tasks\<close>

definition removes :: "task_queue \<Rightarrow> tref \<Rightarrow> task_queue \<Rightarrow> bool" where
  "removes tq r tq' \<longleftrightarrow> r \<in> set (tq_items tq) \<and> queue_inv tq' \<and>
     mset (tq_items tq) = add_mset r (mset (tq_items tq')) \<and> rank tq' = rank tq \<and>
     tq_nextSequence tq' = tq_nextSequence tq \<and>
     unindexed (tq_mem tq') = unindexed (tq_mem tq) \<and> t_index (tq_mem tq' r) = - 1"

lemma removal:
  assumes inv: "queue_inv tq" and i: "i < length (tq_items tq)"
    and res: "TaskQueue_Pop (heap_Remove TaskQueue_Less TaskQueue_Swap tq i (length (tq_items tq) - 1)) = (tq', r)"
  shows "r = tq_items tq ! i \<and> removes tq r tq'"
proof -
  define n where "n = length (tq_items tq) - 1"
  define h where "h = heap_Remove TaskQueue_Less TaskQueue_Swap tq i n"
  have len: "length (tq_items tq) = Suc n" using i by (simp add: n_def)
  have res: "TaskQueue_Pop h = (tq', r)" using res by (simp add: n_def h_def)
  have ord: "hq.ordered tq (Suc n)" using inv len by (simp add: queue_inv_def)
  have le: "i \<le> n" using i len by simp
  have f: "frame tq h" unfolding h_def using le len by (rule frame_Remove)
  obtain ys where ys: "tq_items h = ys @ [tq_items tq ! i]" "mset (tq_items tq) = add_mset (tq_items tq ! i) (mset ys)"
    and o: "hq.ordered h n" and rk: "rank h = rank tq"
    using hq.Remove_ordered [OF ord len le] unfolding h_def by blast
  have r: "r = tq_items tq ! i" using res ys by (auto simp: TaskQueue_Pop_def Let_def)
  have q: "tq_items tq' = ys" "tq_mem tq' = set_index (tq_mem h) r (- 1)" "tq_nextSequence tq' = tq_nextSequence h"
    "tq_byID tq' = AList.delete (t_ID (tq_mem h r)) (tq_byID h)"
    using res ys r by (auto simp: TaskQueue_Pop_def Let_def)
  have n: "length ys = n" using f ys(1) len by (simp add: frame_def)
  have pos: "positions h" using f inv by (simp add: frame_def queue_inv_def)
  then have d: "distinct ys" "r \<notin> set ys" using ys r by (auto simp: positions_def)
  have set: "set (tq_items tq) = insert r (set ys)"
    using f ys(1) r by (auto simp: frame_def)
  have rk': "rank tq' = rank tq" unfolding rk [symmetric] by (auto simp: rank_def q set_index_def fun_eq_iff)
  have "queue_inv tq'"
    unfolding queue_inv_def
  proof (intro conjI)
    have "t_index (tq_mem h (ys ! m)) = int m" if "m < length ys" for m
      using pos that ys(1) unfolding positions_def by (metis length_append_singleton less_SucI nth_append)
    moreover have "ys ! m \<noteq> r" if "m < length ys" for m using d(2) that by (metis nth_mem)
    ultimately show "positions tq'" using d by (simp add: positions_def q set_index_def)
    show "hq.ordered tq' (length (tq_items tq'))"
      using o n order_le_less_trans [OF parent_le]
      unfolding heap_upto_def rk' rk [symmetric] q ys(1) by (auto simp: nth_append)
    have seq: "t_queueSequence (tq_mem tq' s) = t_queueSequence (tq_mem tq s)" for s
      by (simp add: q set_index_def frame_fields [OF f])
    have "inj_on (\<lambda>r. t_queueSequence (tq_mem tq r)) (set (tq_items tq))" using inv by (simp add: queue_inv_def)
    then show "inj_on (\<lambda>r. t_queueSequence (tq_mem tq' r)) (set (tq_items tq'))"
      unfolding seq by (rule inj_on_subset) (auto simp: set q)
    have "tq_nextSequence tq' = tq_nextSequence tq" using f by (simp add: q frame_def)
    then show "\<forall>r \<in> set (tq_items tq'). t_queueSequence (tq_mem tq' r) \<le> tq_nextSequence tq'"
      unfolding seq using inv set by (simp add: queue_inv_def q)
    have old: "map_of (tq_byID tq) k = Some s \<longleftrightarrow> s \<in> insert r (set ys) \<and> t_ID (tq_mem tq s) = k" for k s
      using inv set by (simp add: queue_inv_def)
    have uniq: "t_ID (tq_mem tq s) \<noteq> t_ID (tq_mem tq r)" if "s \<in> set ys" for s
      using that d(2) old [of "t_ID (tq_mem tq r)" s] old [of "t_ID (tq_mem tq r)" r] by auto
    have "tq_byID h = tq_byID tq" using f by (simp add: frame_def)
    then show "\<forall>k s. map_of (tq_byID tq') k = Some s \<longleftrightarrow> s \<in> set (tq_items tq') \<and> t_ID (tq_mem tq' s) = k"
      using old d(2) uniq by (auto simp: q set_index_def frame_fields [OF f])
  qed
  moreover have "unindexed (tq_mem tq') = unindexed (tq_mem tq)"
    using f by (auto simp: q frame_def unindexed_def set_index_def fun_eq_iff)
  ultimately show ?thesis
    using r rk' ys f set by (simp add: removes_def q frame_def set_index_def)
qed

lemma waiting_removed:
  assumes "queue_inv tq" "removes tq r tq'"
  shows "waiting tq' = filter (\<lambda>s. s \<noteq> r) (waiting tq)"
proof -
  have d: "distinct (tq_items tq)" using assms(1) by (simp add: queue_inv_def positions_def)
  have "mset (filter (\<lambda>s. s \<noteq> r) (tq_items tq)) = mset (remove1 r (tq_items tq))"
    using d by (simp add: distinct_remove1_removeAll removeAll_filter_not_eq) (metis (mono_tags, lifting) filter_cong)
  also have "\<dots> = mset (tq_items tq')" using assms(2) by (simp add: removes_def)
  finally have "mset (filter (\<lambda>s. s \<noteq> r) (tq_items tq)) = mset (tq_items tq')" .
  moreover have "sorted (map (rank tq') (filter (\<lambda>s. s \<noteq> r) (waiting tq)))"
    using assms(2) by (simp add: removes_def waiting_def sorted_filter)
  ultimately show ?thesis
    using assms by (intro waiting_unique) (auto simp: removes_def waiting_def filter_sort mset_filter)
qed

lemma index_of_ID_Some:
  "index_of_ID mem k n xs = Some i \<Longrightarrow> n \<le> i \<and> i - n < length xs \<and> t_ID (mem (xs ! (i - n))) = k"
proof (induction xs arbitrary: n)
  case (Cons x xs)
  show ?case
  proof (cases "t_ID (mem x) = k")
    case False
    with Cons have "Suc n \<le> i \<and> i - Suc n < length xs \<and> t_ID (mem (xs ! (i - Suc n))) = k" by simp
    moreover from this have "i - n = Suc (i - Suc n)" by auto
    ultimately show ?thesis by simp
  qed (use Cons.prems in auto)
qed simp

lemma index_of_ID_None: "index_of_ID mem k n xs = None \<longleftrightarrow> k \<notin> (\<lambda>r. t_ID (mem r)) ` set xs"
  by (induction xs arbitrary: n) (auto split: if_splits)

lemma RemoveTask_facts:
  assumes inv: "queue_inv tq" and res: "RemoveTask tq taskID = (tq', x)"
  shows "case x of
      None \<Rightarrow> tq' = tq \<and> (\<forall>r \<in> set (tq_items tq). t_ID (tq_mem tq r) \<noteq> taskID)
    | Some r \<Rightarrow> t_ID (tq_mem tq r) = taskID \<and> removes tq r tq'"
proof (cases "index_of_ID (tq_mem tq) taskID 0 (tq_items tq)")
  case None
  then have "tq' = tq \<and> x = None" using res by (simp add: RemoveTask_def)
  with None show ?thesis by (auto simp: index_of_ID_None)
next
  case (Some i)
  obtain r where r: "TaskQueue_Pop (heap_Remove TaskQueue_Less TaskQueue_Swap tq i (length (tq_items tq) - 1)) = (tq', r)"
    "x = Some r" using Some res by (auto simp: RemoveTask_def TaskQueue_Len_def split: prod.splits)
  have "i < length (tq_items tq) \<and> t_ID (tq_mem tq (tq_items tq ! i)) = taskID"
    using index_of_ID_Some [OF Some] by simp
  with removal [OF inv _ r(1)] r(2) show ?thesis by auto
qed

lemma PopTask_facts:
  assumes inv: "queue_inv tq" and res: "PopTask tq = (tq', x)"
  shows "case x of
      None \<Rightarrow> tq_items tq = [] \<and> tq' = tq
    | Some r \<Rightarrow> removes tq r tq' \<and> waiting tq = r # waiting tq'"
proof (cases "tq_items tq = []")
  case True
  then show ?thesis using res by (auto simp: PopTask_def TaskQueue_Len_def)
next
  case False
  define n where "n = length (tq_items tq) - 1"
  have len: "length (tq_items tq) = Suc n" using False by (simp add: n_def)
  have ord: "hq.ordered tq (Suc n)" using inv len by (simp add: queue_inv_def)
  have "heap_Pop TaskQueue_Less TaskQueue_Swap tq n = heap_Remove TaskQueue_Less TaskQueue_Swap tq 0 n"
  proof (cases "n = 0")
    case True
    then obtain a where a: "tq_items tq = [a]" using len by (cases "tq_items tq") auto
    have "TaskQueue_Swap tq 0 0 = tq"
      using inv a by (auto simp: TaskQueue_Swap_def set_index_def list_swap_def queue_inv_def positions_def fun_upd_idem)
    then show ?thesis using True by (simp add: heap_Pop_def heap_Remove_def hq.down_unfold [of _ 0 0])
  qed (use hq.Pop_is_Remove [OF _ ord len] in simp)
  then obtain r where r: "TaskQueue_Pop (heap_Remove TaskQueue_Less TaskQueue_Swap tq 0 n) = (tq', r)" "x = Some r"
    using res False by (auto simp: PopTask_def TaskQueue_Len_def n_def split: prod.splits)
  have hd: "r = tq_items tq ! 0" and rm: "removes tq r tq'"
    using removal [OF inv _ r(1) [unfolded n_def]] False by auto
  have least: "rank tq r \<le> rank tq s" if "s \<in> set (tq_items tq)" for s
    using that heap_root [OF ord] len unfolding hd by (auto simp: in_set_conv_nth)
  have "waiting tq = r # waiting tq'"
  proof (rule waiting_unique [OF inv])
    show "mset (r # waiting tq') = mset (tq_items tq)" using rm by (simp add: removes_def waiting_def)
    have "set (tq_items tq') \<subseteq> set (tq_items tq)"
      using rm unfolding removes_def by (metis set_mset_add_mset_insert set_mset_mset subset_insertI)
    then show "sorted (map (rank tq) (r # waiting tq'))"
      using rm least by (auto simp: removes_def waiting_def)
  qed
  with rm r(2) show ?thesis by simp
qed

section \<open>Changing a priority\<close>

lemma heap_change:
  assumes "heap_upto k xs n" "i < n" "\<And>j. j < n \<Longrightarrow> j \<noteq> i \<Longrightarrow> k' (xs ! j) = k (xs ! j)"
  shows "heap_hole k' xs n i"
  unfolding heap_hole_def
proof (intro conjI allI impI)
  fix c assume c: "0 < c \<and> c < n \<and> c \<noteq> i \<and> parent c \<noteq> i"
  moreover from c have "parent c < n" using parent_less [of c] by simp
  ultimately show "k' (xs ! parent c) \<le> k' (xs ! c)" using assms by (simp add: heap_upto_def)
next
  fix c assume c: "0 < i \<and> 0 < c \<and> c < n \<and> parent c = i"
  then have p: "parent i < i" "i < c" using parent_less by blast+
  from c assms(1) p have "k (xs ! parent i) \<le> k (xs ! i)" "k (xs ! i) \<le> k (xs ! c)"
    unfolding heap_upto_def by auto
  with assms(3) [of c] assms(3) [of "parent i"] c p show "k' (xs ! parent i) \<le> k' (xs ! c)" by simp
qed

text \<open>
  \<open>UpdatePriority\<close> succeeds exactly on queued tasks; it then sets the priority of this task alone and
  restores the serving order.
\<close>

lemma UpdatePriority_facts:
  assumes inv: "queue_inv tq" and res: "UpdatePriority tq r p = (tq', ok)"
  shows "ok \<longleftrightarrow> r \<in> set (waiting tq)" "queue_inv tq'"
    "ok \<Longrightarrow> mset (tq_items tq') = mset (tq_items tq) \<and> (\<forall>s. t_Priority (tq_mem tq' s) =
       (if s = r then p else t_Priority (tq_mem tq s)))"
proof -
  have pos: "positions tq" using inv by (simp add: queue_inv_def)
  show ok: "ok \<longleftrightarrow> r \<in> set (waiting tq)"
    using res positions_at [OF pos] by (auto simp: UpdatePriority_def split: if_splits)
  define q where "q = tq\<lparr>tq_mem := (tq_mem tq)(r := (tq_mem tq r)\<lparr>t_Priority := p\<rparr>)\<rparr>"
  define i where "i = nat (t_index (tq_mem tq r))"
  define n where "n = length (tq_items tq)"
  have "queue_inv tq' \<and> (ok \<longrightarrow> mset (tq_items tq') = mset (tq_items tq) \<and>
      (\<forall>s. t_Priority (tq_mem tq' s) = (if s = r then p else t_Priority (tq_mem tq s))))"
  proof (cases ok)
    case True
    then have at: "at_index tq r" and q': "tq' = heap_Fix TaskQueue_Less TaskQueue_Swap q i n"
      using res by (auto simp: UpdatePriority_def q_def i_def n_def TaskQueue_Len_def split: if_splits)
    have i: "i < n" "tq_items tq ! i = r" using at by (auto simp: at_index_def i_def n_def)
    have len: "n \<le> length (tq_items q)" by (simp add: q_def n_def)
    have "tq_items tq ! j \<noteq> r" if "j < n" "j \<noteq> i" for j
      using that i pos by (auto simp: positions_def n_def nth_eq_iff_index_eq)
    then have "hq.hole q n i"
      using inv i by (intro heap_change [where k = "rank tq"]) (auto simp: queue_inv_def q_def n_def rank_def)
    then have fixed: "hq.ordered tq' n" "hq.same n q tq'"
      using hq.Fix_ordered [OF i(1) len] by (simp_all add: q')
    have f: "frame q tq'" unfolding q' using i(1) len by (rule frame_Fix)
    have same: "tq_items q = tq_items tq" "tq_byID q = tq_byID tq" "tq_nextSequence q = tq_nextSequence tq"
      "t_queueSequence (tq_mem q s) = t_queueSequence (tq_mem tq s)" "t_ID (tq_mem q s) = t_ID (tq_mem tq s)" for s
      by (simp_all add: q_def)
    have "positions q" using pos by (auto simp: positions_def q_def)
    moreover have "length (tq_items tq') = n" using f by (simp add: frame_def q_def n_def)
    ultimately have "queue_inv tq'"
      using fixed inv by (intro queue_inv_frame [OF f]) (simp_all add: queue_inv_def same)
    moreover have "t_Priority (tq_mem tq' s) = (if s = r then p else t_Priority (tq_mem tq s))" for s
      by (simp add: frame_fields [OF f]) (simp add: q_def)
    ultimately show ?thesis using fixed by (simp add: hq.same_def q_def)
  qed (use res inv in \<open>auto simp: UpdatePriority_def split: if_splits\<close>)
  then show "queue_inv tq'" "ok \<Longrightarrow> mset (tq_items tq') = mset (tq_items tq) \<and> (\<forall>s. t_Priority (tq_mem tq' s) =
       (if s = r then p else t_Priority (tq_mem tq s)))" by simp_all
qed

section \<open>Properties\<close>

text \<open>
  C32: the queue serves tasks by priority and, among equals, in order of arrival. On every
  well-formed queue, \<open>PopTask\<close> returns the first of the waiting tasks and leaves the others in their
  order; \<open>PushTask\<close> puts a new task behind all tasks of its priority or higher and before all of
  lower priority, and ignores a task that is queued already, shares an ID with a queued one or has
  none; \<open>RemoveTask\<close> takes out exactly the task with the ID. All keep the queue well formed.
\<close>

theorem task_queue_serves_in_order:
  assumes "queue_inv tq" and "tq_nextSequence tq + 1 < 2 ^ 64"
  shows "(case PopTask tq of
        (tq', None) \<Rightarrow> waiting tq = [] \<and> tq' = tq
      | (tq', Some r) \<Rightarrow> waiting tq = r # waiting tq' \<and> queue_inv tq') \<and>
    (let tq' = PushTask tq (Some r);
         ahead = (\<lambda>s. t_Priority (tq_mem tq r) \<le> t_Priority (tq_mem tq s))
     in queue_inv tq' \<and>
        waiting tq' =
          (if t_ID (tq_mem tq r) = [] \<or> r \<in> set (waiting tq) \<or>
              (\<exists>s \<in> set (waiting tq). t_ID (tq_mem tq s) = t_ID (tq_mem tq r))
           then waiting tq
           else filter ahead (waiting tq) @ r # filter (\<lambda>s. \<not> ahead s) (waiting tq))) \<and>
    (case RemoveTask tq taskID of
        (tq', None) \<Rightarrow> tq' = tq \<and> (\<forall>s \<in> set (waiting tq). t_ID (tq_mem tq s) \<noteq> taskID)
      | (tq', Some s) \<Rightarrow> s \<in> set (waiting tq) \<and> t_ID (tq_mem tq s) = taskID \<and>
          waiting tq' = filter (\<lambda>x. x \<noteq> s) (waiting tq) \<and> queue_inv tq')"
proof (intro conjI)
  show "case PopTask tq of
        (tq', None) \<Rightarrow> waiting tq = [] \<and> tq' = tq
      | (tq', Some r) \<Rightarrow> waiting tq = r # waiting tq' \<and> queue_inv tq'"
  proof (cases "PopTask tq")
    case (Pair tq' x)
    with PopTask_facts [OF assms(1) Pair] show ?thesis
      by (cases x) (simp_all add: removes_def waiting_def)
  qed
  show "case RemoveTask tq taskID of
        (tq', None) \<Rightarrow> tq' = tq \<and> (\<forall>s \<in> set (waiting tq). t_ID (tq_mem tq s) \<noteq> taskID)
      | (tq', Some s) \<Rightarrow> s \<in> set (waiting tq) \<and> t_ID (tq_mem tq s) = taskID \<and>
          waiting tq' = filter (\<lambda>x. x \<noteq> s) (waiting tq) \<and> queue_inv tq'"
  proof (cases "RemoveTask tq taskID")
    case (Pair tq' x)
    show ?thesis
      using RemoveTask_facts [OF assms(1) Pair] waiting_removed [OF assms(1)]
      by (cases x) (auto simp: Pair removes_def)
  qed
next
  show "let tq' = PushTask tq (Some r);
         ahead = (\<lambda>s. t_Priority (tq_mem tq r) \<le> t_Priority (tq_mem tq s))
     in queue_inv tq' \<and>
        waiting tq' =
          (if t_ID (tq_mem tq r) = [] \<or> r \<in> set (waiting tq) \<or>
              (\<exists>s \<in> set (waiting tq). t_ID (tq_mem tq s) = t_ID (tq_mem tq r))
           then waiting tq
           else filter ahead (waiting tq) @ r # filter (\<lambda>s. \<not> ahead s) (waiting tq))"
  proof (cases "pushes tq r")
    case True
    then show ?thesis
      using waiting_Push [OF assms(1) True assms(2)] Push_facts(2) [OF assms(1) True assms(2)]
      by (auto simp: pushes_def image_iff)
  next
    case False
    then show ?thesis using assms(1) by (auto simp: PushTask_iff pushes_def image_iff)
  qed
qed

definition demo_task :: "string \<Rightarrow> int \<Rightarrow> ctask" where
  "demo_task i p = \<lparr>t_ID = i, t_Prompt = [], t_AgentType = ''general'', t_Priority = p, t_Dependencies = [],
     t_Status = TaskStatusReady, t_Result = None, t_Thought = [], t_index = 0, t_queueSequence = 0\<rparr>"

definition demo_queue :: task_queue where
  "demo_queue = NewTaskQueue (\<lambda>r. if r = 1 then demo_task ''a'' PriorityLow else demo_task ''b'' PriorityHigh)"

lemma demo_queue_facts:
  "queue_inv demo_queue" "waiting demo_queue = []" "tq_nextSequence demo_queue = 0"
  "t_ID (tq_mem demo_queue 1) = ''a''"
  by (simp_all add: demo_queue_def queue_inv_New) (simp_all add: NewTaskQueue_def waiting_def demo_task_def)

theorem task_queue_serves_in_order_witness:
  "queue_inv (PushTask demo_queue (Some 1)) \<and> waiting (PushTask demo_queue (Some 1)) = [1]"
  using task_queue_serves_in_order [of demo_queue 1 "''a''"]
  by (simp only: demo_queue_facts) (simp add: Let_def)

end
