(* ===== verification/GoRunes.thy ===== *)
theory GoRunes
  imports GoStrings
begin

text \<open>
  Go's conversions between strings and runes, \<open>[]rune(s)\<close> and \<open>string(runes)\<close>: UTF-8 decoding with the
  replacement character for each byte of an ill-formed sequence, and encoding. They carry the
  rune-counting truncations of the sources, of which the one modelled here is
  \<open>truncate\<close> (\<open>internal/agent/coordinator.go\<close>).
\<close>

section \<open>Decoding and encoding\<close>

definition byte :: "char \<Rightarrow> nat" where
  "byte c = of_char c"

lemma byte_char_of: "n < 256 \<Longrightarrow> byte (char_of n) = n"
  by (simp add: byte_def)

definition RuneError :: nat where
  "RuneError = 0xFFFD"

definition cont :: "char \<Rightarrow> bool" where
  "cont c \<longleftrightarrow> 0x80 \<le> byte c \<and> byte c \<le> 0xBF"

text \<open>The range of the second byte that the first byte admits.\<close>

definition second_low :: "nat \<Rightarrow> nat" where
  "second_low b = (if b = 0xE0 then 0xA0 else if b = 0xF0 then 0x90 else 0x80)"

definition second_high :: "nat \<Rightarrow> nat" where
  "second_high b = (if b = 0xED then 0x9F else if b = 0xF4 then 0x8F else 0xBF)"

definition second_ok :: "nat \<Rightarrow> char \<Rightarrow> bool" where
  "second_ok b c \<longleftrightarrow> second_low b \<le> byte c \<and> byte c \<le> second_high b"

text \<open>The first rune of a non-empty string and its width in bytes.\<close>

fun decode_rune :: "string \<Rightarrow> nat \<times> nat" where
  "decode_rune [] = (RuneError, 0)"
| "decode_rune (c0 # cs) =
     (let b = byte c0
      in if b < 0x80 then (b, 1)
         else if 0xC2 \<le> b \<and> b \<le> 0xDF then
           (case cs of
              c1 # _ \<Rightarrow> if cont c1 then ((b mod 32) * 64 + byte c1 mod 64, 2) else (RuneError, 1)
            | _ \<Rightarrow> (RuneError, 1))
         else if 0xE0 \<le> b \<and> b \<le> 0xEF then
           (case cs of
              c1 # c2 # _ \<Rightarrow>
                if second_ok b c1 \<and> cont c2
                then ((b mod 16) * 4096 + (byte c1 mod 64) * 64 + byte c2 mod 64, 3) else (RuneError, 1)
            | _ \<Rightarrow> (RuneError, 1))
         else if 0xF0 \<le> b \<and> b \<le> 0xF4 then
           (case cs of
              c1 # c2 # c3 # _ \<Rightarrow>
                if second_ok b c1 \<and> cont c2 \<and> cont c3
                then ((b mod 8) * 262144 + (byte c1 mod 64) * 4096 + (byte c2 mod 64) * 64 + byte c3 mod 64, 4)
                else (RuneError, 1)
            | _ \<Rightarrow> (RuneError, 1))
         else (RuneError, 1))"

declare decode_rune.simps(2) [simp del]

lemma decode_width: "s \<noteq> [] \<Longrightarrow> 0 < snd (decode_rune s)"
  by (cases s) (auto simp: decode_rune.simps(2) Let_def split: list.splits)

function to_runes :: "string \<Rightarrow> nat list" where
  "to_runes [] = []"
| "to_runes (c # cs) = fst (decode_rune (c # cs)) # to_runes (drop (snd (decode_rune (c # cs))) (c # cs))"
  by pat_completeness auto
termination
proof (relation "measure length")
  fix c :: char and cs
  show "(drop (snd (decode_rune (c # cs))) (c # cs), c # cs) \<in> measure length"
    using decode_width [of "c # cs"] by simp
qed simp

text \<open>A Unicode scalar value; every other rune is encoded as the replacement character.\<close>

definition scalar :: "nat \<Rightarrow> bool" where
  "scalar r \<longleftrightarrow> r < 0xD800 \<or> 0xDFFF < r \<and> r \<le> 0x10FFFF"

definition encode_scalar :: "nat \<Rightarrow> string" where
  "encode_scalar r =
     (if r < 0x80 then [char_of r]
      else if r < 0x800 then [char_of (0xC0 + r div 64), char_of (0x80 + r mod 64)]
      else if r < 0x10000 then
        [char_of (0xE0 + r div 4096), char_of (0x80 + (r div 64) mod 64), char_of (0x80 + r mod 64)]
      else [char_of (0xF0 + r div 262144), char_of (0x80 + (r div 4096) mod 64),
            char_of (0x80 + (r div 64) mod 64), char_of (0x80 + r mod 64)])"

definition encode_rune :: "nat \<Rightarrow> string" where
  "encode_rune r = encode_scalar (if scalar r then r else RuneError)"

definition of_runes :: "nat list \<Rightarrow> string" where
  "of_runes rs = concat (map encode_rune rs)"

section \<open>Decoding inverts encoding\<close>

lemma mod_digit: "x < n \<Longrightarrow> (m * n + x) mod n = (x::nat)"
  by simp

lemma decode_2:
  assumes "2 \<le> a" "a < 32" "b < 64"
  shows "decode_rune (char_of (0xC0 + a) # char_of (0x80 + b) # s) = (a * 64 + b, 2)"
proof -
  have e: "byte (char_of (0xC0 + a)) = 0xC0 + a" "byte (char_of (0x80 + b)) = 0x80 + b"
    using assms by (intro byte_char_of; simp)+
  have "(0xC0 + a) mod 32 = a" "(0x80 + b) mod 64 = b"
    using assms mod_digit [of a 32 6] mod_digit [of b 64 2] by simp_all
  then show ?thesis using assms by (simp add: decode_rune.simps(2) Let_def e cont_def)
qed

lemma decode_3:
  assumes "a < 16" "b < 64" "c < 64" "a = 0 \<longrightarrow> 32 \<le> b" "a = 13 \<longrightarrow> b < 32"
  shows "decode_rune (char_of (0xE0 + a) # char_of (0x80 + b) # char_of (0x80 + c) # s) = (a * 4096 + b * 64 + c, 3)"
proof -
  have e: "byte (char_of (0xE0 + a)) = 0xE0 + a" "byte (char_of (0x80 + b)) = 0x80 + b"
    "byte (char_of (0x80 + c)) = 0x80 + c"
    using assms by (intro byte_char_of; simp)+
  have m: "(0xE0 + a) mod 16 = a" "(0x80 + b) mod 64 = b" "(0x80 + c) mod 64 = c"
    using assms mod_digit [of a 16 14] mod_digit [of b 64 2] mod_digit [of c 64 2] by simp_all
  have "second_ok (0xE0 + a) (char_of (0x80 + b))"
    using assms unfolding second_ok_def e second_low_def second_high_def by auto
  then show ?thesis using assms by (simp add: decode_rune.simps(2) Let_def e m cont_def)
qed

lemma decode_4:
  assumes "a < 5" "b < 64" "c < 64" "d < 64" "a = 0 \<longrightarrow> 16 \<le> b" "a = 4 \<longrightarrow> b < 16"
  shows "decode_rune (char_of (0xF0 + a) # char_of (0x80 + b) # char_of (0x80 + c) # char_of (0x80 + d) # s) =
    (a * 262144 + b * 4096 + c * 64 + d, 4)"
proof -
  have e: "byte (char_of (0xF0 + a)) = 0xF0 + a" "byte (char_of (0x80 + b)) = 0x80 + b"
    "byte (char_of (0x80 + c)) = 0x80 + c" "byte (char_of (0x80 + d)) = 0x80 + d"
    using assms by (intro byte_char_of; simp)+
  have m: "(0xF0 + a) mod 8 = a" "(0x80 + b) mod 64 = b" "(0x80 + c) mod 64 = c" "(0x80 + d) mod 64 = d"
    using assms mod_digit [of a 8 30] mod_digit [of b 64 2] mod_digit [of c 64 2] mod_digit [of d 64 2]
    by simp_all
  have "second_ok (0xF0 + a) (char_of (0x80 + b))"
    using assms unfolding second_ok_def e second_low_def second_high_def by auto
  then show ?thesis using assms by (simp add: decode_rune.simps(2) Let_def e m cont_def)
qed

lemma digits_64:
  "r div 4096 = r div 64 div 64" "r div 262144 = r div 64 div 64 div 64"
  "r div 64 * 64 + r mod 64 = (r::nat)"
  by (simp_all add: div_mult2_eq [symmetric])

lemma decode_encode:
  assumes "scalar r"
  shows "decode_rune (encode_scalar r @ s) = (r, length (encode_scalar r))"
proof -
  define a where "a = r div 64"
  define b where "b = a div 64"
  have a: "r = a * 64 + r mod 64" "a = b * 64 + a mod 64" "b = b div 64 * 64 + b mod 64"
    by (simp_all add: a_def b_def digits_64)
  have d: "r div 4096 = b" "r div 262144 = b div 64" "r div 4096 mod 64 = b mod 64"
    by (simp_all add: a_def b_def digits_64)
  consider "r < 0x80" | "0x80 \<le> r" "r < 0x800" | "0x800 \<le> r" "r < 0x10000" | "0x10000 \<le> r" by linarith
  then show ?thesis
  proof cases
    case 1
    then show ?thesis by (simp add: encode_scalar_def decode_rune.simps(2) Let_def byte_char_of)
  next
    case 2
    then have "2 \<le> a" "a < 32" by (simp_all add: a_def)
    from decode_2 [OF this, of "r mod 64" s] a 2 show ?thesis
      by (simp add: encode_scalar_def a_def [symmetric])
  next
    case 3
    have ab: "a mod 64 < 64" "r mod 64 < 64" by simp_all
    have lo: "b < 16" using 3 unfolding a_def b_def by (simp add: div_mult2_eq [symmetric])
    moreover have "b = 0 \<longrightarrow> 32 \<le> a mod 64" using 3 a ab by linarith
    moreover have "b = 13 \<longrightarrow> a mod 64 < 32" using 3 a ab assms unfolding scalar_def by linarith
    ultimately show ?thesis
      using decode_3 [of b "a mod 64" "r mod 64" s] a 3 ab
      by (simp add: encode_scalar_def d a_def [symmetric])
  next
    case 4
    have ab: "a mod 64 < 64" "r mod 64 < 64" "b mod 64 < 64" by simp_all
    have "r \<le> 0x10FFFF" using 4 assms by (simp add: scalar_def)
    then have "b div 64 < 5" "b div 64 = 0 \<longrightarrow> 16 \<le> b mod 64" "b div 64 = 4 \<longrightarrow> b mod 64 < 16"
      using 4 a ab by linarith+
    moreover have "b div 64 * 262144 + b mod 64 * 4096 + a mod 64 * 64 + r mod 64 = r"
      using a by linarith
    ultimately show ?thesis
      using decode_4 [of "b div 64" "b mod 64" "a mod 64" "r mod 64" s] 4 ab
      by (simp add: encode_scalar_def d a_def [symmetric])
  qed
qed

lemma encode_nonempty: "encode_scalar r \<noteq> []"
  by (simp add: encode_scalar_def)

lemma to_runes_append_scalar:
  assumes "scalar r"
  shows "to_runes (encode_scalar r @ s) = r # to_runes s"
proof (cases "encode_scalar r @ s")
  case (Cons c cs)
  have "to_runes (encode_scalar r @ s) =
      fst (decode_rune (encode_scalar r @ s)) # to_runes (drop (snd (decode_rune (encode_scalar r @ s))) (encode_scalar r @ s))"
    unfolding Cons by (rule to_runes.simps(2))
  then show ?thesis by (simp add: decode_encode [OF assms])
qed (simp add: encode_nonempty)

lemma to_runes_of_runes: "list_all scalar rs \<Longrightarrow> to_runes (of_runes rs) = rs"
  by (induction rs) (simp_all add: of_runes_def encode_rune_def to_runes_append_scalar)

lemma to_runes_of_runes_append: "list_all scalar rs \<Longrightarrow> to_runes (of_runes rs @ s) = rs @ to_runes s"
  by (induction rs) (simp_all add: of_runes_def encode_rune_def to_runes_append_scalar)

section \<open>Truncation\<close>

definition truncate_runes :: "string \<Rightarrow> nat \<Rightarrow> string" where
  "truncate_runes s maxLen =
     (if length (to_runes s) \<le> maxLen then s else of_runes (take maxLen (to_runes s)) @ ''...'')"

text \<open>What truncation promises: on well-formed text it keeps whole characters.\<close>

lemma truncate_whole:
  assumes "list_all scalar rs"
  shows "to_runes (truncate_runes (of_runes rs) n) =
    (if length rs \<le> n then rs else take n rs @ to_runes ''...'')"
proof -
  have "list_all scalar (take n rs)"
    using assms unfolding list_all_iff by (meson in_set_takeD)
  with assms show ?thesis
    by (simp only: truncate_runes_def to_runes_of_runes to_runes_of_runes_append if_distrib [of to_runes])
qed

end
