(* ===== verification/Coordinator.thy ===== *)
theory Coordinator
  imports TaskQueue GoRunes GoFormat
begin

text \<open>
  The coordinator of dependent agent tasks, \<open>internal/agent/coordinator.go\<close>: the task graph, its
  queue of ready tasks, the running agents, and the accounting of completion callbacks.

  Every method holds the coordinator's lock for its state change and delivers callbacks after it is
  released. The model follows that cut: a method is the function of its locked part, which returns
  the batch of completions to deliver, and \<open>publishCompletionIfReady\<close>, \<open>invokeTaskComplete\<close>,
  \<open>account_batch\<close> and \<open>notifyAllComplete\<close> are the sections of \<open>deliverTaskCompletions\<close>. Callbacks are recorded
  as events. Arguments stand for what is outside: the generated task ID, the answer of the runner's
  \<open>SpawnAsync\<close> for a task, the results it has published, and \<open>strconv.Quote\<close>, which formats IDs in
  error texts. Wake-up signals carry no data and are left out: the process loop may run at any time.
\<close>

section \<open>State\<close>

type_synonym completion = "ctask \<times> agent_result"

datatype coord_event =
    TaskStarted ctask | TaskCompleted ctask agent_result
  | AllCompleted "(string \<times> agent_result option) list"

record coordinator =
  c_runner :: bool
  c_tasks :: "(string \<times> tref) list"
  c_dependencies :: "(string \<times> string list) list"
  c_queue :: task_queue
  c_maxParallel :: int
  c_running :: "(string \<times> string) list"
  c_completed :: "string list"
  c_onTaskStart :: bool
  c_onTaskComplete :: bool
  c_onAllComplete :: bool
  c_completion :: bool
  c_allCompleteOnce :: bool
  c_sealed :: bool
  c_pendingCallbacks :: int
  c_next :: tref
  c_events :: "coord_event list"

definition zero_task :: ctask where
  "zero_task = \<lparr>t_ID = [], t_Prompt = [], t_AgentType = [], t_Priority = 0, t_Dependencies = [],
     t_Status = TaskStatusPending, t_Result = None, t_Thought = [], t_index = 0, t_queueSequence = 0\<rparr>"

text \<open>\<open>config\<close> is the \<open>MaxParallel\<close> of the configuration, \<open>None\<close> for a nil one.\<close>

definition NewCoordinator :: "bool \<Rightarrow> int option \<Rightarrow> coordinator" where
  "NewCoordinator runner config =
     \<lparr>c_runner = runner, c_tasks = [], c_dependencies = [], c_queue = NewTaskQueue (\<lambda>_. zero_task),
      c_maxParallel = (case config of None \<Rightarrow> 3 | Some n \<Rightarrow> if n \<le> 0 then 3 else n),
      c_running = [], c_completed = [], c_onTaskStart = False, c_onTaskComplete = False,
      c_onAllComplete = False, c_completion = False, c_allCompleteOnce = False, c_sealed = False,
      c_pendingCallbacks = 0, c_next = 0, c_events = []\<rparr>"

abbreviation mem :: "coordinator \<Rightarrow> tref \<Rightarrow> ctask" where
  "mem c \<equiv> tq_mem (c_queue c)"

definition put_task :: "coordinator \<Rightarrow> tref \<Rightarrow> ctask \<Rightarrow> coordinator" where
  "put_task c r t = c\<lparr>c_queue := (c_queue c)\<lparr>tq_mem := (mem c)(r := t)\<rparr>\<rparr>"

definition find_task :: "coordinator \<Rightarrow> string \<Rightarrow> tref option" where
  "find_task c i = map_of (c_tasks c) i"

definition dependents :: "coordinator \<Rightarrow> string \<Rightarrow> string list" where
  "dependents c i = (case map_of (c_dependencies c) i of None \<Rightarrow> [] | Some ds \<Rightarrow> ds)"

definition mark_completed :: "coordinator \<Rightarrow> string \<Rightarrow> coordinator" where
  "mark_completed c i = (if i \<in> set (c_completed c) then c else c\<lparr>c_completed := c_completed c @ [i]\<rparr>)"

definition AgentStatusCompleted :: string where "AgentStatusCompleted = ''completed''"
definition AgentStatusFailed :: string where "AgentStatusFailed = ''failed''"
definition AgentStatusCancelled :: string where "AgentStatusCancelled = ''cancelled''"

definition AgentResult_IsSuccess :: "agent_result \<Rightarrow> bool" where
  "AgentResult_IsSuccess res \<longleftrightarrow> ar_Status res = AgentStatusCompleted \<and> ar_Error res = []"

definition terminal_status :: "task_status \<Rightarrow> bool" where
  "terminal_status s \<longleftrightarrow> s = TaskStatusCompleted \<or> s = TaskStatusFailed"

definition SetMaxParallel :: "coordinator \<Rightarrow> int \<Rightarrow> coordinator" where
  "SetMaxParallel c n = (if n \<le> 0 then c else c\<lparr>c_maxParallel := n\<rparr>)"

definition SetCallbacks :: "coordinator \<Rightarrow> bool \<Rightarrow> bool \<Rightarrow> bool \<Rightarrow> coordinator" where
  "SetCallbacks c onStart onComplete onAll =
     c\<lparr>c_onTaskStart := onStart, c_onTaskComplete := onComplete, c_onAllComplete := onAll\<rparr>"

text \<open>\<open>Start\<close>: the graph is sealed before the loop is launched; a second call does nothing.\<close>

definition Coordinator_Start :: "coordinator \<Rightarrow> coordinator" where
  "Coordinator_Start c = c\<lparr>c_sealed := True\<rparr>"

section \<open>Dependencies\<close>

definition areDependenciesMet :: "coordinator \<Rightarrow> ctask \<Rightarrow> bool" where
  "areDependenciesMet c t =
     list_all (\<lambda>d. case find_task c d of
                     None \<Rightarrow> False | Some r \<Rightarrow> t_Status (mem c r) = TaskStatusCompleted) (t_Dependencies t)"

definition failedDependency :: "coordinator \<Rightarrow> ctask \<Rightarrow> (string \<times> ctask option) option" where
  "failedDependency c t =
     (case List.find (\<lambda>d. case find_task c d of
                            None \<Rightarrow> True | Some r \<Rightarrow> t_Status (mem c r) = TaskStatusFailed) (t_Dependencies t) of
        None \<Rightarrow> None
      | Some d \<Rightarrow> Some (d, map_option (mem c) (find_task c d)))"

definition failed_result :: "string \<Rightarrow> string \<Rightarrow> agent_result" where
  "failed_result agentType msg =
     \<lparr>ar_AgentID = [], ar_Type = agentType, ar_Status = AgentStatusFailed, ar_Error = msg,
      ar_Completed = True, ar_Metadata = []\<rparr>"

definition dependency_status :: "ctask option \<Rightarrow> string" where
  "dependency_status dep =
     (case dep of
        None \<Rightarrow> ''missing''
      | Some t \<Rightarrow> (case t_Result t of
                     Some res \<Rightarrow> if ar_Status res \<noteq> [] then ar_Status res else AgentStatusFailed
                   | None \<Rightarrow> AgentStatusFailed))"

definition dependency_error :: "ctask option \<Rightarrow> string" where
  "dependency_error dep =
     (case dep of None \<Rightarrow> [] | Some t \<Rightarrow> (case t_Result t of Some res \<Rightarrow> ar_Error res | None \<Rightarrow> []))"

definition dependency_reason :: "(string \<Rightarrow> string) \<Rightarrow> string \<Rightarrow> ctask option \<Rightarrow> string" where
  "dependency_reason quote depID dep =
     ''dependency '' @ quote depID @
     (if dep = None then '' does not exist''
      else if dependency_status dep = AgentStatusCancelled then '' was cancelled''
      else '' failed'') @
     (if dependency_error dep \<noteq> [] then '': '' @ truncate_runes (dependency_error dep) 240 else [])"

definition dependency_result :: "(string \<Rightarrow> string) \<Rightarrow> ctask \<Rightarrow> string \<Rightarrow> ctask option \<Rightarrow> agent_result" where
  "dependency_result quote t depID dep =
     (failed_result (t_AgentType t) (dependency_reason quote depID dep))
       \<lparr>ar_Metadata := [(''dependency_id'', depID), (''dependency_status'', dependency_status dep)]\<rparr>"

definition finish_task :: "coordinator \<Rightarrow> tref \<Rightarrow> task_status \<Rightarrow> agent_result \<Rightarrow> coordinator" where
  "finish_task c r s res =
     mark_completed (put_task c r ((mem c r)\<lparr>t_Status := s, t_Result := Some res\<rparr>)) (t_ID (mem c r))"

definition failTaskForDependency ::
    "(string \<Rightarrow> string) \<Rightarrow> coordinator \<Rightarrow> tref \<Rightarrow> string \<Rightarrow> ctask option \<Rightarrow> coordinator \<times> agent_result" where
  "failTaskForDependency quote c r depID dep =
     (let res = dependency_result quote (mem c r) depID dep
      in (finish_task c r TaskStatusFailed res, res))"

definition snapshot :: "coordinator \<Rightarrow> tref \<Rightarrow> agent_result \<Rightarrow> completion" where
  "snapshot c r res = (cloneCoordinatedTask (mem c r), res)"

definition ready_task :: "coordinator \<Rightarrow> tref \<Rightarrow> coordinator" where
  "ready_task c r =
     (let c = put_task c r ((mem c r)\<lparr>t_Status := TaskStatusReady\<rparr>)
      in c\<lparr>c_queue := PushTask (c_queue c) (Some r)\<rparr>)"

section \<open>The resolve loop\<close>

text \<open>Termination: every task the loop moves was blocked, and is not afterwards.\<close>

definition blocked_count :: "coordinator \<Rightarrow> nat" where
  "blocked_count c =
     length (filter (\<lambda>(i, r). t_Status (mem c r) = TaskStatusBlocked) (c_tasks c))"

lemma blocked_count_less:
  assumes "(i, r) \<in> set (c_tasks c)" "t_Status (mem c r) = TaskStatusBlocked" "t_Status (mem c' r) \<noteq> TaskStatusBlocked"
    and "\<And>s. s \<noteq> r \<Longrightarrow> t_Status (mem c' s) = t_Status (mem c s)" "c_tasks c' = c_tasks c"
  shows "blocked_count c' < blocked_count c"
proof -
  let ?P = "\<lambda>c (i, r). t_Status (mem c r) = TaskStatusBlocked"
  have sub: "?P c' x \<Longrightarrow> ?P c x" for x :: "string \<times> tref"
    using assms(2,4) by (cases x; cases "snd x = r") auto
  have "filter (?P c') (c_tasks c) = filter (?P c') (filter (?P c) (c_tasks c))"
    using sub by (simp add: filter_filter conj_absorb) (metis (mono_tags, lifting) filter_cong)
  also have "length \<dots> < length (filter (?P c) (c_tasks c))"
    by (rule length_filter_less [of "(i, r)"]) (use assms(1-3) in auto)
  finally show ?thesis by (simp add: blocked_count_def assms(5))
qed

lemma Swap_status: "t_Status (tq_mem (TaskQueue_Swap q i j) s) = t_Status (tq_mem q s)"
  by (simp add: TaskQueue_Swap_def Let_def set_index_def)

lemma up_status: "t_Status (tq_mem (heap_up TaskQueue_Less TaskQueue_Swap q j) s) = t_Status (tq_mem q s)"
proof (induction j arbitrary: q rule: less_induct)
  case (less j)
  show ?case
  proof (cases "parent j = j \<or> \<not> TaskQueue_Less q j (parent j)")
    case False
    then have "parent j < j" using parent_le [of j] by auto
    with False less show ?thesis by (simp add: hq.up_unfold [of q j] Swap_status)
  qed (simp add: hq.up_unfold [of q j])
qed

lemma PushTask_status: "t_Status (tq_mem (PushTask q x) s) = t_Status (tq_mem q s)"
  by (simp add: PushTask_def up_status Push_fields split: option.splits)

lemma ready_task_fields:
  "c_tasks (ready_task c r) = c_tasks c"
  "t_Status (mem (ready_task c r) s) = (if s = r then TaskStatusReady else t_Status (mem c s))"
  by (simp_all add: ready_task_def put_task_def PushTask_status)

lemma finish_task_fields:
  "c_tasks (finish_task c r st res) = c_tasks c"
  "mem (finish_task c r st res) = (mem c)(r := (mem c r)\<lparr>t_Status := st, t_Result := Some res\<rparr>)"
  by (simp_all add: finish_task_def mark_completed_def put_task_def)

lemma blocked_less_ready:
  "find_task c d = Some r \<Longrightarrow> t_Status (mem c r) = TaskStatusBlocked \<Longrightarrow> blocked_count (ready_task c r) < blocked_count c"
  by (rule blocked_count_less [of d r]) (auto simp: find_task_def ready_task_fields dest: map_of_SomeD)

lemma blocked_less_failed:
  "find_task c d = Some r \<Longrightarrow> t_Status (mem c r) = TaskStatusBlocked \<Longrightarrow>
   (c', res) = failTaskForDependency quote c r depID dep \<Longrightarrow> blocked_count c' < blocked_count c"
  by (rule blocked_count_less [of d r])
    (auto simp: find_task_def failTaskForDependency_def Let_def finish_task_fields dest: map_of_SomeD)

function resolve_loop :: "(string \<Rightarrow> string) \<Rightarrow> coordinator \<Rightarrow> string list \<Rightarrow> coordinator \<times> completion list" where
  "resolve_loop quote c [] = (c, [])"
| "resolve_loop quote c (d # pend) =
     (case find_task c d of
        None \<Rightarrow> resolve_loop quote c pend
      | Some r \<Rightarrow>
          if t_Status (mem c r) \<noteq> TaskStatusBlocked then resolve_loop quote c pend
          else (case failedDependency c (mem c r) of
                  Some (depID, dep) \<Rightarrow>
                    (case failTaskForDependency quote c r depID dep of
                       (c1, res) \<Rightarrow>
                         (case resolve_loop quote c1 (pend @ dependents c1 d) of
                            (c2, cs) \<Rightarrow> (c2, snapshot c1 r res # cs)))
                | None \<Rightarrow>
                    if areDependenciesMet c (mem c r)
                    then resolve_loop quote (ready_task c r) pend
                    else resolve_loop quote c pend))"
  by pat_completeness auto
termination
  by (relation "measures [\<lambda>(quote, c, pend). blocked_count c, \<lambda>(quote, c, pend). length pend]")
    (auto dest: blocked_less_ready blocked_less_failed)

definition resolveDependents :: "(string \<Rightarrow> string) \<Rightarrow> coordinator \<Rightarrow> string \<Rightarrow> coordinator \<times> completion list" where
  "resolveDependents quote c terminalID = resolve_loop quote c (dependents c terminalID)"

section \<open>Adding tasks\<close>

definition add_dependents :: "(string \<times> string list) list \<Rightarrow> string \<Rightarrow> string list \<Rightarrow> (string \<times> string list) list" where
  "add_dependents m taskID deps =
     foldl (\<lambda>m d. AList.update d ((case map_of m d of None \<Rightarrow> [] | Some ds \<Rightarrow> ds) @ [taskID]) m) m deps"

definition register_task :: "coordinator \<Rightarrow> ctask \<Rightarrow> coordinator" where
  "register_task c t =
     (put_task c (c_next c) t)
       \<lparr>c_next := Suc (c_next c), c_tasks := AList.update (t_ID t) (c_next c) (c_tasks c),
        c_dependencies := add_dependents (c_dependencies c) (t_ID t) (t_Dependencies t)\<rparr>"

definition add_pending :: "coordinator \<times> completion list \<Rightarrow> coordinator \<times> completion list" where
  "add_pending x = (case x of (c, cs) \<Rightarrow>
     (c\<lparr>c_pendingCallbacks := c_pendingCallbacks c + int (length cs)\<rparr>, cs))"

text \<open>The first component of the result is the returned ID.\<close>

definition AddTask ::
    "(string \<Rightarrow> string) \<Rightarrow> coordinator \<Rightarrow> string \<Rightarrow> string \<Rightarrow> string \<Rightarrow> int \<Rightarrow> string list \<Rightarrow>
     string \<times> coordinator \<times> completion list" where
  "AddTask quote c taskID prompt agentType priority deps =
     (if c_sealed c then ([], c, [])
      else
        let t = zero_task\<lparr>t_ID := taskID, t_Prompt := prompt, t_AgentType := agentType,
                          t_Priority := priority, t_Dependencies := deps\<rparr>;
            r = c_next c;
            c = register_task c t
        in (taskID, add_pending
             (case failedDependency c t of
                Some (depID, dep) \<Rightarrow>
                  (case failTaskForDependency quote c r depID dep of (c, res) \<Rightarrow> (c, [snapshot c r res]))
              | None \<Rightarrow>
                  if areDependenciesMet c t then (ready_task c r, [])
                  else (put_task c r (t\<lparr>t_Status := TaskStatusBlocked\<rparr>), []))))"

section \<open>Starting ready tasks\<close>

definition fail_start :: "coordinator \<Rightarrow> tref \<Rightarrow> string \<Rightarrow> coordinator \<times> agent_result option" where
  "fail_start c r msg =
     (let res = failed_result (t_AgentType (mem c r)) msg
      in (finish_task c r TaskStatusFailed res, Some res))"

text \<open>\<open>spawn r\<close> is what \<open>SpawnAsync\<close> does for task \<open>r\<close>: panic with a message, or return an agent ID.\<close>

definition startTask :: "(tref \<Rightarrow> string + string) \<Rightarrow> coordinator \<Rightarrow> tref \<Rightarrow> coordinator \<times> agent_result option" where
  "startTask spawn c r =
     (if \<not> c_runner c then fail_start c r ''agent runner is not configured''
      else case spawn r of
        Inl msg \<Rightarrow> fail_start c r (''agent spawn panicked: '' @ msg)
      | Inr agentID \<Rightarrow>
          if agentID = [] then fail_start c r ''agent runner returned an empty agent ID''
          else (c\<lparr>c_running := AList.update agentID (t_ID (mem c r)) (c_running c)\<rparr>, None))"

lemma blocked_count_cong:
  "c_tasks c' = c_tasks c \<Longrightarrow>
   (\<And>r. t_Status (mem c' r) = TaskStatusBlocked \<longleftrightarrow> t_Status (mem c r) = TaskStatusBlocked) \<Longrightarrow>
   blocked_count c' = blocked_count c"
  by (simp add: blocked_count_def)

lemma down_status_length:
  "t_Status (tq_mem (fst (heap_down TaskQueue_Less TaskQueue_Swap q i n)) s) = t_Status (tq_mem q s) \<and>
   length (tq_items (fst (heap_down TaskQueue_Less TaskQueue_Swap q i n))) = length (tq_items q)"
proof (induction "n - i" arbitrary: q i rule: less_induct)
  case less
  show ?case
  proof (cases "n \<le> 2 * i + 1 \<or> \<not> TaskQueue_Less q (hq.small q i n) i")
    case False
    then have "n - hq.small q i n < n - i" using hq.small_bounds [of i n q] by auto
    with False less show ?thesis
      by (simp add: hq.down_unfold [of q i n] Swap_status) (simp add: TaskQueue_Swap_def Let_def)
  qed (simp add: hq.down_unfold [of q i n])
qed

lemma PopTask_status: "t_Status (tq_mem (fst (PopTask q)) s) = t_Status (tq_mem q s)"
  by (simp add: PopTask_def TaskQueue_Pop_def Let_def heap_Pop_def set_index_def down_status_length Swap_status)

lemma PopTask_length: "PopTask q = (q', Some r) \<Longrightarrow> length (tq_items q') < length (tq_items q)"
  using down_status_length [of "TaskQueue_Swap q 0 (length (tq_items q) - 1)" 0 "length (tq_items q) - 1"]
  by (auto simp: PopTask_def TaskQueue_Pop_def TaskQueue_Len_def Let_def heap_Pop_def TaskQueue_Swap_def
      split: if_splits)

lemma finish_task_queue: "tq_items (c_queue (finish_task c r s res)) = tq_items (c_queue c)"
  by (simp add: finish_task_def mark_completed_def put_task_def)

text \<open>The cases of the loop, as an induction rule.\<close>

lemma resolve_cases_induct [case_names Nil Skip Fail Ready Wait]:
  assumes "\<And>c. P c []"
    and "\<And>c d pend. \<forall>r. find_task c d = Some r \<longrightarrow> t_Status (mem c r) \<noteq> TaskStatusBlocked \<Longrightarrow>
      P c pend \<Longrightarrow> P c (d # pend)"
    and "\<And>c d pend r depID dep c1 res. find_task c d = Some r \<Longrightarrow> t_Status (mem c r) = TaskStatusBlocked \<Longrightarrow>
      failedDependency c (mem c r) = Some (depID, dep) \<Longrightarrow> failTaskForDependency quote c r depID dep = (c1, res) \<Longrightarrow>
      P c1 (pend @ dependents c1 d) \<Longrightarrow> P c (d # pend)"
    and "\<And>c d pend r. find_task c d = Some r \<Longrightarrow> t_Status (mem c r) = TaskStatusBlocked \<Longrightarrow>
      failedDependency c (mem c r) = None \<Longrightarrow> areDependenciesMet c (mem c r) \<Longrightarrow>
      P (ready_task c r) pend \<Longrightarrow> P c (d # pend)"
    and "\<And>c d pend r. find_task c d = Some r \<Longrightarrow> t_Status (mem c r) = TaskStatusBlocked \<Longrightarrow>
      failedDependency c (mem c r) = None \<Longrightarrow> \<not> areDependenciesMet c (mem c r) \<Longrightarrow>
      P c pend \<Longrightarrow> P c (d # pend)"
  shows "P c pend"
proof -
  have "q = quote \<Longrightarrow> P c pend" for q
  proof (induction q c pend rule: resolve_loop.induct)
    case (1 q c)
    show ?case by (rule assms(1))
  next
    case (2 q c d pend)
    show ?case
    proof (cases "\<forall>r. find_task c d = Some r \<longrightarrow> t_Status (mem c r) \<noteq> TaskStatusBlocked")
      case True
      then show ?thesis using 2 by (intro assms(2)) (cases "find_task c d"; auto)+
    next
      case False
      then obtain r where r: "find_task c d = Some r" "t_Status (mem c r) = TaskStatusBlocked" by auto
      show ?thesis
      proof (cases "failedDependency c (mem c r)")
        case (Some x)
        then obtain depID dep where x: "failedDependency c (mem c r) = Some (depID, dep)" by (cases x) auto
        obtain c1 res where f: "failTaskForDependency quote c r depID dep = (c1, res)" by force
        with r x 2 show ?thesis by (intro assms(3) [OF r x f]) auto
      next
        case None
        then show ?thesis using 2 r by (cases "areDependenciesMet c (mem c r)") (auto intro: assms(4,5))
      qed
    qed
  qed
  then show ?thesis by simp
qed

lemma resolve_skip:
  "\<forall>r. find_task c d = Some r \<longrightarrow> t_Status (mem c r) \<noteq> TaskStatusBlocked \<Longrightarrow>
   resolve_loop quote c (d # pend) = resolve_loop quote c pend"
  by (simp split: option.splits)

lemma resolve_fail:
  "find_task c d = Some r \<Longrightarrow> t_Status (mem c r) = TaskStatusBlocked \<Longrightarrow>
   failedDependency c (mem c r) = Some (depID, dep) \<Longrightarrow> failTaskForDependency quote c r depID dep = (c1, res) \<Longrightarrow>
   resolve_loop quote c (d # pend) =
     (fst (resolve_loop quote c1 (pend @ dependents c1 d)),
      snapshot c1 r res # snd (resolve_loop quote c1 (pend @ dependents c1 d)))"
  by (simp split: prod.splits)

lemma resolve_ready:
  "find_task c d = Some r \<Longrightarrow> t_Status (mem c r) = TaskStatusBlocked \<Longrightarrow>
   failedDependency c (mem c r) = None \<Longrightarrow>
   resolve_loop quote c (d # pend) =
     (if areDependenciesMet c (mem c r) then resolve_loop quote (ready_task c r) pend else resolve_loop quote c pend)"
  by simp

declare resolve_loop.simps(2) [simp del]

lemma resolve_measure:
  "blocked_count (fst (resolve_loop quote c pend)) < blocked_count c \<or>
   blocked_count (fst (resolve_loop quote c pend)) = blocked_count c \<and>
   tq_items (c_queue (fst (resolve_loop quote c pend))) = tq_items (c_queue c)"
proof (induction rule: resolve_cases_induct [where quote = quote])
  case (Fail c d pend r depID dep c1 res)
  then show ?case using blocked_less_failed [OF Fail(1,2) Fail(4) [symmetric]] by (auto simp: resolve_fail)
next
  case (Ready c d pend r)
  then show ?case using blocked_less_ready [OF Ready(1,2)] by (auto simp: resolve_ready)
qed (simp_all add: resolve_skip resolve_ready)

definition running_task :: "coordinator \<Rightarrow> tref \<Rightarrow> coordinator" where
  "running_task c r = put_task c r ((mem c r)\<lparr>t_Status := TaskStatusRunning\<rparr>)"

lemma startTask_fields:
  "c_tasks (fst (startTask spawn c r)) = c_tasks c"
  "tq_items (c_queue (fst (startTask spawn c r))) = tq_items (c_queue c)"
  "t_Status (mem (fst (startTask spawn c r)) s) =
     (if s = r \<and> snd (startTask spawn c r) \<noteq> None then TaskStatusFailed else t_Status (mem c s))"
  by (auto simp: startTask_def fail_start_def Let_def finish_task_fields finish_task_queue split: sum.splits)

text \<open>
  Popping a ready task, starting it and, when that fails, failing its dependents: one round of the
  scheduling loop after the pop. The flag tells whether a slot was used.
\<close>

definition start_round ::
    "(string \<Rightarrow> string) \<Rightarrow> (tref \<Rightarrow> string + string) \<Rightarrow> coordinator \<Rightarrow> tref \<Rightarrow> coordinator \<times> ctask list \<times> completion list" where
  "start_round quote spawn c r =
     (if t_Status (mem c r) \<noteq> TaskStatusReady then (c, [], [])
      else case startTask spawn (running_task c r) r of
        (c, Some failure) \<Rightarrow>
          (let comp = snapshot c r failure
           in case resolveDependents quote c (t_ID (mem c r)) of (c, cs) \<Rightarrow> (c, [], comp # cs))
      | (c, None) \<Rightarrow> (c, [cloneCoordinatedTask (mem c r)], []))"

lemma start_round_measure:
  assumes "PopTask (c_queue c) = (q, Some r)" and "start_round quote spawn (c\<lparr>c_queue := q\<rparr>) r = (c', x)"
  shows "blocked_count c' < blocked_count c \<or>
    blocked_count c' = blocked_count c \<and> length (tq_items (c_queue c')) < length (tq_items (c_queue c))"
proof -
  let ?c = "c\<lparr>c_queue := q\<rparr>"
  have st: "t_Status (mem ?c s) = t_Status (mem c s)" for s
    using PopTask_status [of "c_queue c" s] assms(1) by simp
  then have b: "blocked_count ?c = blocked_count c" by (intro blocked_count_cong) simp_all
  have len: "length (tq_items (c_queue ?c)) < length (tq_items (c_queue c))"
    using PopTask_length [OF assms(1)] by simp
  show ?thesis
  proof (cases "t_Status (mem ?c r) = TaskStatusReady")
    case False
    then show ?thesis using b len assms(2) by (auto simp: start_round_def)
  next
    case True
    define d where "d = fst (startTask spawn (running_task ?c r) r)"
    have "c_tasks d = c_tasks c" "tq_items (c_queue d) = tq_items q"
      by (simp_all add: d_def startTask_fields running_task_def put_task_def)
    moreover have "blocked_count d = blocked_count ?c"
      using True by (intro blocked_count_cong) (auto simp: d_def startTask_fields running_task_def put_task_def)
    moreover have "c' = (if snd (startTask spawn (running_task ?c r) r) = None then d
        else fst (resolveDependents quote d (t_ID (mem d r))))"
      using True assms(2) by (auto simp: start_round_def d_def Let_def split: prod.splits option.splits)
    ultimately show ?thesis
      using b len resolve_measure [of quote d "dependents d (t_ID (mem d r))"]
      by (auto simp: resolveDependents_def)
  qed
qed

function start_loop ::
    "(string \<Rightarrow> string) \<Rightarrow> (tref \<Rightarrow> string + string) \<Rightarrow> coordinator \<Rightarrow> int \<Rightarrow> coordinator \<times> ctask list \<times> completion list" where
  "start_loop quote spawn c slots =
     (if slots \<le> 0 then (c, [], [])
      else case PopTask (c_queue c) of
        (q, None) \<Rightarrow> (c\<lparr>c_queue := q\<rparr>, [], [])
      | (q, Some r) \<Rightarrow>
          (case start_round quote spawn (c\<lparr>c_queue := q\<rparr>) r of
             (c, started, failed) \<Rightarrow>
               (case start_loop quote spawn c (slots - int (length started)) of
                  (c, started', failed') \<Rightarrow> (c, started @ started', failed @ failed'))))"
  by pat_completeness auto
termination
proof (relation "measures [\<lambda>(quote, spawn, c, slots). blocked_count c,
    \<lambda>(quote, spawn, c, slots). length (tq_items (c_queue c))]", goal_cases)
  case 2
  then show ?case using start_round_measure by (fastforce dest!: sym [where s = "(_, _)"])
qed simp

declare start_loop.simps [simp del]

lemma start_loop_stop:
  "slots \<le> 0 \<or> PopTask (c_queue c) = (c_queue c, None) \<Longrightarrow> start_loop quote spawn c slots = (c, [], [])"
  by (auto simp: start_loop.simps [of quote spawn c slots])

lemma start_loop_step:
  "\<not> slots \<le> 0 \<Longrightarrow> PopTask (c_queue c) = (q, Some r) \<Longrightarrow> start_round quote spawn (c\<lparr>c_queue := q\<rparr>) r = (c1, xs, fs) \<Longrightarrow>
   start_loop quote spawn c1 (slots - int (length xs)) = (c2, ys, gs) \<Longrightarrow>
   start_loop quote spawn c slots = (c2, xs @ ys, fs @ gs)"
  by (simp add: start_loop.simps [of quote spawn c slots])

definition startReadyTasks ::
    "(string \<Rightarrow> string) \<Rightarrow> (tref \<Rightarrow> string + string) \<Rightarrow> coordinator \<Rightarrow> coordinator \<times> ctask list \<times> completion list" where
  "startReadyTasks quote spawn c =
     (case start_loop quote spawn c (c_maxParallel c - int (length (c_running c))) of
        (c, started, failed) \<Rightarrow>
          (c\<lparr>c_pendingCallbacks := c_pendingCallbacks c + int (length failed)\<rparr>, started, failed))"

section \<open>Completions\<close>

text \<open>The commit shared by the three places that learn the result of a running agent.\<close>

definition commit_agent ::
    "(string \<Rightarrow> string) \<Rightarrow> coordinator \<Rightarrow> string \<Rightarrow> string \<Rightarrow> tref \<Rightarrow> agent_result \<Rightarrow> coordinator \<times> completion list" where
  "commit_agent quote c agentID taskID r res =
     (let st = (if AgentResult_IsSuccess res then TaskStatusCompleted else TaskStatusFailed);
          c = mark_completed (put_task c r ((mem c r)\<lparr>t_Status := st, t_Result := Some res\<rparr>)) taskID;
          c = c\<lparr>c_running := AList.delete agentID (c_running c)\<rparr>;
          comp = snapshot c r res
      in case resolveDependents quote c taskID of (c, cs) \<Rightarrow> (c, comp # cs))"

definition handleAgentCompletionResult ::
    "(string \<Rightarrow> string) \<Rightarrow> coordinator \<Rightarrow> string \<Rightarrow> agent_result option \<Rightarrow> coordinator \<times> completion list" where
  "handleAgentCompletionResult quote c agentID result =
     (case map_of (c_running c) agentID of
        None \<Rightarrow> (c, [])
      | Some taskID \<Rightarrow>
          (case result of
             None \<Rightarrow> (c, [])
           | Some res \<Rightarrow>
               if \<not> ar_Completed res then (c, [])
               else (case find_task c taskID of
                       None \<Rightarrow> (c, [])
                     | Some r \<Rightarrow> add_pending (commit_agent quote c agentID taskID r res))))"

text \<open>\<open>published\<close> is \<open>completedResultLocked\<close> of the runner: the final result of an agent, if there is one.\<close>

fun check_loop ::
    "(string \<Rightarrow> string) \<Rightarrow> coordinator \<Rightarrow> (string \<times> string \<times> agent_result) list \<Rightarrow> coordinator \<times> completion list" where
  "check_loop quote c [] = (c, [])"
| "check_loop quote c ((agentID, taskID, res) # cas) =
     (case find_task c taskID of
        None \<Rightarrow> check_loop quote (c\<lparr>c_running := AList.delete agentID (c_running c)\<rparr>) cas
      | Some r \<Rightarrow>
          (case commit_agent quote c agentID taskID r res of
             (c, cs) \<Rightarrow> (case check_loop quote c cas of (c, cs') \<Rightarrow> (c, cs @ cs'))))"

definition finished_agents :: "(string \<Rightarrow> agent_result option) \<Rightarrow> coordinator \<Rightarrow> (string \<times> string \<times> agent_result) list" where
  "finished_agents published c =
     List.map_filter (\<lambda>(agentID, taskID). map_option (\<lambda>res. (agentID, taskID, res)) (published agentID)) (c_running c)"

definition checkCompletedAgents ::
    "(string \<Rightarrow> string) \<Rightarrow> (string \<Rightarrow> agent_result option) \<Rightarrow> coordinator \<Rightarrow> coordinator \<times> completion list" where
  "checkCompletedAgents quote published c = add_pending (check_loop quote c (finished_agents published c))"

definition cancelled_result :: "string \<Rightarrow> agent_result" where
  "cancelled_result agentType =
     (failed_result agentType ''cancelled by coordinator'')\<lparr>ar_Status := AgentStatusCancelled\<rparr>"

text \<open>\<open>cancel\<close> is the runner's answer to the request to cancel an agent: an error or none.\<close>

definition CancelTask ::
    "(string \<Rightarrow> string) \<Rightarrow> (string \<Rightarrow> agent_result option) \<Rightarrow> (string \<Rightarrow> string option) \<Rightarrow> coordinator \<Rightarrow> string \<Rightarrow>
     coordinator \<times> completion list \<times> string option" where
  "CancelTask quote published cancel c taskID =
     (case find_task c taskID of
        None \<Rightarrow> (c, [], Some (''task not found: '' @ taskID))
      | Some r \<Rightarrow>
          if terminal_status (t_Status (mem c r)) then (c, [], None)
          else (case List.find (\<lambda>(a, t). t = taskID) (c_running c) of
                  Some (agentID, _) \<Rightarrow>
                    if \<not> c_runner c then (c, [], Some ''agent runner is not configured'')
                    else (case published agentID of
                            Some res \<Rightarrow>
                              (case add_pending (commit_agent quote c agentID taskID r res) of
                                 (c, cs) \<Rightarrow> (c, cs, None))
                          | None \<Rightarrow> (c, [], cancel agentID))
                | None \<Rightarrow>
                    (let c = c\<lparr>c_queue := fst (RemoveTask (c_queue c) taskID)\<rparr>;
                         res = cancelled_result (t_AgentType (mem c r));
                         c = mark_completed
                               (put_task c r ((mem c r)\<lparr>t_Status := TaskStatusFailed, t_Result := Some res\<rparr>)) taskID;
                         comp = snapshot c r res
                     in case resolveDependents quote c taskID of
                          (c, cs) \<Rightarrow> (case add_pending (c, comp # cs) of (c, cs) \<Rightarrow> (c, cs, None)))))"

definition allTasksTerminal :: "coordinator \<Rightarrow> bool" where
  "allTasksTerminal c \<longleftrightarrow>
     c_running c = [] \<and> list_all (\<lambda>(i, r). terminal_status (t_Status (mem c r))) (c_tasks c)"

definition isAllComplete :: "coordinator \<Rightarrow> bool" where
  "isAllComplete c =
     (if c_running c \<noteq> [] \<or> 0 < c_pendingCallbacks c then False else allTasksTerminal c)"

definition publishCompletionIfReady :: "coordinator \<Rightarrow> coordinator" where
  "publishCompletionIfReady c = (if c_sealed c \<and> allTasksTerminal c then c\<lparr>c_completion := True\<rparr> else c)"

definition resultsSnapshot :: "coordinator \<Rightarrow> (string \<times> agent_result option) list" where
  "resultsSnapshot c = map (\<lambda>(i, r). (i, t_Result (mem c r))) (c_tasks c)"

definition notifyAllComplete :: "coordinator \<Rightarrow> coordinator" where
  "notifyAllComplete c =
     (if \<not> c_sealed c \<or> \<not> allTasksTerminal c \<or> 0 < c_pendingCallbacks c then c
      else if c_allCompleteOnce c then c\<lparr>c_completion := True\<rparr>
      else c\<lparr>c_completion := True, c_allCompleteOnce := True,
             c_events := c_events c @ (if c_onAllComplete c then [AllCompleted (resultsSnapshot c)] else [])\<rparr>)"

text \<open>
  \<open>deliverTaskCompletions\<close>: the callbacks of the batch, in order, then the accounting under the lock,
  whose flag tells whether \<open>notifyAllComplete\<close> is called. \<open>callback\<close> tells whether there was a completion
  callback when the batch was registered.
\<close>

definition invokeTaskComplete :: "bool \<Rightarrow> coordinator \<Rightarrow> completion list \<Rightarrow> coordinator" where
  "invokeTaskComplete callback c batch =
     c\<lparr>c_events := c_events c @ (if callback then map (\<lambda>(t, res). TaskCompleted t res) batch else [])\<rparr>"

definition account_batch :: "coordinator \<Rightarrow> completion list \<Rightarrow> coordinator \<times> bool" where
  "account_batch c batch =
     (let n = c_pendingCallbacks c - int (length batch);
          c = c\<lparr>c_pendingCallbacks := (if n < 0 then 0 else n)\<rparr>
      in (c, c_sealed c \<and> isAllComplete c))"

definition deliverTaskCompletions :: "bool \<Rightarrow> coordinator \<Rightarrow> completion list \<Rightarrow> coordinator" where
  "deliverTaskCompletions callback c batch =
     (if batch = [] then c
      else case account_batch (invokeTaskComplete callback (publishCompletionIfReady c) batch) batch of
        (c, ready) \<Rightarrow> if ready then notifyAllComplete c else c)"

definition invokeTaskStart :: "bool \<Rightarrow> coordinator \<Rightarrow> ctask list \<Rightarrow> coordinator" where
  "invokeTaskStart callback c started =
     c\<lparr>c_events := c_events c @ (if callback then map TaskStarted started else [])\<rparr>"

definition processReadyTasks :: "(string \<Rightarrow> string) \<Rightarrow> (tref \<Rightarrow> string + string) \<Rightarrow> coordinator \<Rightarrow> coordinator" where
  "processReadyTasks quote spawn c =
     (case startReadyTasks quote spawn c of
        (c', started, failed) \<Rightarrow>
          deliverTaskCompletions (c_onTaskComplete c) (invokeTaskStart (c_onTaskStart c) c' started) failed)"

text \<open>
  One turn of \<open>processLoop\<close>: what wakes the loop, and whether it ends. A callback may re-enter the
  coordinator; such a turn is the interleaving of the sections above.
\<close>

datatype loop_event = ContextDone | TaskReadySignal | AgentDone string "agent_result option" | Tick

definition finish_turn :: "coordinator \<Rightarrow> coordinator \<times> bool" where
  "finish_turn c = (if isAllComplete c then (notifyAllComplete c, True) else (c, False))"

definition deliver :: "coordinator \<Rightarrow> coordinator \<times> completion list \<Rightarrow> coordinator" where
  "deliver c x = (case x of (c', cs) \<Rightarrow> deliverTaskCompletions (c_onTaskComplete c) c' cs)"

definition processLoop_turn ::
    "(string \<Rightarrow> string) \<Rightarrow> (tref \<Rightarrow> string + string) \<Rightarrow> (string \<Rightarrow> agent_result option) \<Rightarrow> coordinator \<Rightarrow> loop_event \<Rightarrow>
     coordinator \<times> bool" where
  "processLoop_turn quote spawn published c ev =
     (case ev of
        ContextDone \<Rightarrow> (c, True)
      | TaskReadySignal \<Rightarrow> finish_turn (processReadyTasks quote spawn c)
      | AgentDone agentID res \<Rightarrow> finish_turn (deliver c (handleAgentCompletionResult quote c agentID res))
      | Tick \<Rightarrow> (let c = processReadyTasks quote spawn c
                 in finish_turn (deliver c (checkCompletedAgents quote published c))))"

definition handleAgentCompletion ::
    "(string \<Rightarrow> string) \<Rightarrow> (string \<Rightarrow> agent_result option) \<Rightarrow> coordinator \<Rightarrow> string \<Rightarrow> coordinator \<times> completion list" where
  "handleAgentCompletion quote published c agentID =
     (if \<not> c_runner c then (c, [])
      else case published agentID of
        None \<Rightarrow> (c, [])
      | Some res \<Rightarrow> handleAgentCompletionResult quote c agentID (Some res))"

text \<open>\<open>CancelRunning\<close> asks the runner to cancel every running agent and counts the accepted requests.\<close>

definition CancelRunning :: "(string \<Rightarrow> string option) \<Rightarrow> coordinator \<Rightarrow> nat" where
  "CancelRunning cancel c = length (filter (\<lambda>(agentID, _). cancel agentID = None) (c_running c))"

section \<open>Queries\<close>

definition GetTask :: "coordinator \<Rightarrow> string \<Rightarrow> ctask option" where
  "GetTask c i = map_option (\<lambda>r. cloneCoordinatedTask (mem c r)) (find_task c i)"

definition GetAllTasks :: "coordinator \<Rightarrow> ctask list" where
  "GetAllTasks c = map (\<lambda>(i, r). cloneCoordinatedTask (mem c r)) (c_tasks c)"

definition GetTaskAgentID :: "coordinator \<Rightarrow> string \<Rightarrow> string" where
  "GetTaskAgentID c taskID =
     (case List.find (\<lambda>(a, t). t = taskID) (c_running c) of None \<Rightarrow> [] | Some (a, _) \<Rightarrow> a)"

definition partialResults :: "coordinator \<Rightarrow> (string \<times> agent_result) list" where
  "partialResults c =
     List.map_filter (\<lambda>(i, r). map_option (\<lambda>res. (i, res)) (t_Result (mem c r))) (c_tasks c)"

text \<open>What wakes a waiter first decides its answer.\<close>

datatype wait_event = CompletionClosed | TimerFired | CoordinatorDone string | CallerDone string

definition WaitWithTimeoutCtx ::
    "coordinator \<Rightarrow> duration \<Rightarrow> wait_event \<Rightarrow> (string \<times> agent_result option) list \<times> string option" where
  "WaitWithTimeoutCtx c timeout ev =
     (let part = map (\<lambda>(i, res). (i, Some res)) (partialResults c)
      in case ev of
           CompletionClosed \<Rightarrow> (resultsSnapshot c, None)
         | TimerFired \<Rightarrow> (part, Some (''coordination timed out after '' @ duration_string timeout))
         | CoordinatorDone err \<Rightarrow> (part, Some err)
         | CallerDone err \<Rightarrow> (part, Some (''coordination cancelled: '' @ err)))"

record coordinator_status =
  cs_Total :: nat
  cs_Pending :: nat
  cs_Blocked :: nat
  cs_Ready :: nat
  cs_Running :: nat
  cs_Completed :: nat
  cs_Failed :: nat

definition count_status :: "coordinator \<Rightarrow> task_status \<Rightarrow> nat" where
  "count_status c st = length (filter (\<lambda>(i, r). t_Status (mem c r) = st) (c_tasks c))"

definition Coordinator_GetStatus :: "coordinator \<Rightarrow> coordinator_status" where
  "Coordinator_GetStatus c =
     \<lparr>cs_Total = length (c_tasks c), cs_Pending = count_status c TaskStatusPending,
      cs_Blocked = count_status c TaskStatusBlocked, cs_Ready = count_status c TaskStatusReady,
      cs_Running = length (c_running c), cs_Completed = length (c_completed c),
      cs_Failed = count_status c TaskStatusFailed\<rparr>"

end
