(* ===== verification/CoordInv.thy ===== *)
theory CoordInv
  imports Coordinator
begin

text \<open>
  The invariant of the coordinator. The graph part speaks about statuses, dependencies and creation
  order of task IDs only (\<open>graph_inv\<close>) and is kept by a handful of abstract moves; each operation of
  the model is then shown to be such a move. While dependents are being resolved, the invariant
  holds up to the set of tasks still to be looked at.
\<close>

section \<open>The task graph\<close>

type_synonym statuses = "string \<Rightarrow> task_status option"

definition deps_ok :: "statuses \<Rightarrow> (string \<Rightarrow> string list) \<Rightarrow> (string \<Rightarrow> nat) \<Rightarrow> bool" where
  "deps_ok S D R \<longleftrightarrow> (\<forall>i d. S i \<noteq> None \<and> S i \<noteq> Some TaskStatusFailed \<and> d \<in> set (D i) \<longrightarrow> S d \<noteq> None \<and> R d < R i)"

definition rev_ok :: "statuses \<Rightarrow> (string \<Rightarrow> string list) \<Rightarrow> (string \<Rightarrow> string list) \<Rightarrow> bool" where
  "rev_ok S D N \<longleftrightarrow> (\<forall>i d. S i \<noteq> None \<and> d \<in> set (D i) \<longrightarrow> i \<in> set (N d))"

definition run_ok :: "statuses \<Rightarrow> (string \<times> string) list \<Rightarrow> bool" where
  "run_ok S Run \<longleftrightarrow> distinct (map fst Run) \<and> distinct (map snd Run) \<and>
     (\<forall>i. i \<in> snd ` set Run \<longleftrightarrow> S i = Some TaskStatusRunning)"

definition done_ok :: "statuses \<Rightarrow> string list \<Rightarrow> bool" where
  "done_ok S Cmp \<longleftrightarrow> distinct Cmp \<and> (\<forall>i. i \<in> set Cmp \<longleftrightarrow> S i = Some TaskStatusCompleted \<or> S i = Some TaskStatusFailed)"

definition met_ok :: "statuses \<Rightarrow> (string \<Rightarrow> string list) \<Rightarrow> bool" where
  "met_ok S D \<longleftrightarrow>
     (\<forall>i d. (S i = Some TaskStatusReady \<or> S i = Some TaskStatusRunning \<or> S i = Some TaskStatusCompleted) \<and>
        d \<in> set (D i) \<longrightarrow> S d = Some TaskStatusCompleted)"

text \<open>A blocked task waits for something that can still happen.\<close>

definition waits :: "statuses \<Rightarrow> string list \<Rightarrow> bool" where
  "waits S ds \<longleftrightarrow> (\<forall>d \<in> set ds. S d \<noteq> Some TaskStatusFailed) \<and> (\<exists>d \<in> set ds. S d \<noteq> Some TaskStatusCompleted)"

definition blocked_ok :: "statuses \<Rightarrow> (string \<Rightarrow> string list) \<Rightarrow> string set \<Rightarrow> bool" where
  "blocked_ok S D X \<longleftrightarrow> (\<forall>i. S i = Some TaskStatusBlocked \<and> i \<notin> X \<longrightarrow> waits S (D i))"

definition graph_inv ::
    "statuses \<Rightarrow> (string \<Rightarrow> string list) \<Rightarrow> (string \<Rightarrow> nat) \<Rightarrow> (string \<Rightarrow> string list) \<Rightarrow>
     string set \<Rightarrow> (string \<times> string) list \<Rightarrow> string list \<Rightarrow> string set \<Rightarrow> bool" where
  "graph_inv S D R N Q Run Cmp X \<longleftrightarrow>
     deps_ok S D R \<and> rev_ok S D N \<and> Q = {i. S i = Some TaskStatusReady} \<and>
     (\<forall>i. S i \<noteq> Some TaskStatusPending) \<and> run_ok S Run \<and> done_ok S Cmp \<and> met_ok S D \<and> blocked_ok S D X"

text \<open>A task changes its status; only existing, unfinished tasks do.\<close>

lemma deps_ok_move: "deps_ok S D R \<Longrightarrow> S i = Some s \<Longrightarrow> s \<noteq> TaskStatusFailed \<Longrightarrow> deps_ok (S(i \<mapsto> t)) D R"
  unfolding deps_ok_def by (metis fun_upd_apply option.distinct(1) option.inject)

lemma rev_ok_move: "rev_ok S D N \<Longrightarrow> S i = Some s \<Longrightarrow> rev_ok (S(i \<mapsto> t)) D N"
  unfolding rev_ok_def by (metis fun_upd_apply option.distinct(1))

lemma done_ok_keep:
  "done_ok S Cmp \<Longrightarrow> S i = Some s \<Longrightarrow> \<not> terminal_status s \<Longrightarrow> \<not> terminal_status t \<Longrightarrow> done_ok (S(i \<mapsto> t)) Cmp"
  unfolding done_ok_def terminal_status_def by auto

lemma done_ok_add:
  "done_ok S Cmp \<Longrightarrow> S i = Some s \<Longrightarrow> \<not> terminal_status s \<Longrightarrow> terminal_status t \<Longrightarrow> done_ok (S(i \<mapsto> t)) (Cmp @ [i])"
  unfolding done_ok_def terminal_status_def by auto

lemma run_ok_keep:
  "run_ok S Run \<Longrightarrow> S i = Some s \<Longrightarrow> s \<noteq> TaskStatusRunning \<Longrightarrow> t \<noteq> TaskStatusRunning \<Longrightarrow> run_ok (S(i \<mapsto> t)) Run"
  unfolding run_ok_def by (metis fun_upd_apply option.inject)

definition launched :: "task_status \<Rightarrow> bool" where
  "launched s \<longleftrightarrow> s = TaskStatusReady \<or> s = TaskStatusRunning \<or> s = TaskStatusCompleted"

lemma met_okD: "met_ok S D \<Longrightarrow> S i = Some s \<Longrightarrow> launched s \<Longrightarrow> d \<in> set (D i) \<Longrightarrow> S d = Some TaskStatusCompleted"
  unfolding met_ok_def launched_def by blast

lemma met_okI:
  "(\<And>i s d. S i = Some s \<Longrightarrow> launched s \<Longrightarrow> d \<in> set (D i) \<Longrightarrow> S d = Some TaskStatusCompleted) \<Longrightarrow> met_ok S D"
  unfolding met_ok_def launched_def by blast

lemma deps_okD:
  "deps_ok S D R \<Longrightarrow> S i = Some s \<Longrightarrow> s \<noteq> TaskStatusFailed \<Longrightarrow> d \<in> set (D i) \<Longrightarrow> S d \<noteq> None \<and> R d < R i"
  unfolding deps_ok_def by (metis option.distinct(1) option.inject)

lemma met_ok_move:
  assumes "met_ok S D" "S i = Some s" "s \<noteq> TaskStatusCompleted"
    and "launched t \<Longrightarrow> \<forall>d \<in> set (D i). S d = Some TaskStatusCompleted"
  shows "met_ok (S(i \<mapsto> t)) D"
proof (rule met_okI)
  fix j u d assume a: "(S(i \<mapsto> t)) j = Some u" "launched u" "d \<in> set (D j)"
  have "S d = Some TaskStatusCompleted"
  proof (cases "j = i")
    case True
    with a assms(4) show ?thesis by simp
  next
    case False
    with a met_okD [OF assms(1)] show ?thesis by simp
  qed
  with assms(2,3) show "(S(i \<mapsto> t)) d = Some TaskStatusCompleted" by auto
qed

lemma waits_move: "waits S ds \<Longrightarrow> S' = S(i \<mapsto> t) \<Longrightarrow> i \<notin> set ds \<or> \<not> terminal_status t \<Longrightarrow> waits S' ds"
  unfolding waits_def terminal_status_def by auto

lemma blocked_ok_move:
  assumes "blocked_ok S D (insert i X)" "rev_ok S D N" "S i \<noteq> None" "t \<noteq> TaskStatusBlocked"
    and "terminal_status t \<Longrightarrow> set (N i) \<subseteq> X'" "X \<subseteq> X'"
  shows "blocked_ok (S(i \<mapsto> t)) D X'"
  unfolding blocked_ok_def
proof (intro allI impI)
  fix j assume j: "(S(i \<mapsto> t)) j = Some TaskStatusBlocked \<and> j \<notin> X'"
  then have ne: "j \<noteq> i" "S j = Some TaskStatusBlocked" using assms(4) by (auto split: if_splits)
  then have "waits S (D j)" using assms(1,6) j unfolding blocked_ok_def by auto
  moreover have "i \<notin> set (D j) \<or> \<not> terminal_status t"
    using assms(2,5) ne j unfolding rev_ok_def by (metis option.distinct(1) subsetD)
  ultimately show "waits (S(i \<mapsto> t)) (D j)" by (rule waits_move [OF _ refl])
qed

lemma blocked_ok_mono: "blocked_ok S D X \<Longrightarrow> X \<subseteq> Y \<Longrightarrow> blocked_ok S D Y"
  unfolding blocked_ok_def by blast

section \<open>Moves\<close>

lemma graph_mono: "graph_inv S D R N Q Run Cmp X \<Longrightarrow> X \<subseteq> Y \<Longrightarrow> graph_inv S D R N Q Run Cmp Y"
  unfolding graph_inv_def by (auto intro: blocked_ok_mono)

lemma graph_wait:
  "graph_inv S D R N Q Run Cmp (insert i X) \<Longrightarrow> (S i = Some TaskStatusBlocked \<Longrightarrow> waits S (D i)) \<Longrightarrow>
   graph_inv S D R N Q Run Cmp X"
  unfolding graph_inv_def blocked_ok_def by blast

lemma graph_ready:
  assumes "graph_inv S D R N Q Run Cmp (insert i X)" "S i = Some TaskStatusBlocked"
    and "\<forall>d \<in> set (D i). S d = Some TaskStatusCompleted"
  shows "graph_inv (S(i \<mapsto> TaskStatusReady)) D R N (insert i Q) Run Cmp X"
  unfolding graph_inv_def
proof (intro conjI)
  show "insert i Q = {j. (S(i \<mapsto> TaskStatusReady)) j = Some TaskStatusReady}"
    "\<forall>j. (S(i \<mapsto> TaskStatusReady)) j \<noteq> Some TaskStatusPending"
    using assms(1) by (auto simp: graph_inv_def)
  show "blocked_ok (S(i \<mapsto> TaskStatusReady)) D X"
    using assms by (intro blocked_ok_move [where N = N and X = X]) (auto simp: graph_inv_def terminal_status_def)
  show "met_ok (S(i \<mapsto> TaskStatusReady)) D"
    using assms by (intro met_ok_move [of S D i TaskStatusBlocked]) (simp_all add: graph_inv_def)
  show "deps_ok (S(i \<mapsto> TaskStatusReady)) D R"
    using assms by (intro deps_ok_move [of S D R i TaskStatusBlocked]) (simp_all add: graph_inv_def)
  show "rev_ok (S(i \<mapsto> TaskStatusReady)) D N"
    using assms by (intro rev_ok_move [of S D N i TaskStatusBlocked]) (simp_all add: graph_inv_def)
  show "run_ok (S(i \<mapsto> TaskStatusReady)) Run"
    using assms by (intro run_ok_keep [of S Run i TaskStatusBlocked]) (simp_all add: graph_inv_def)
  show "done_ok (S(i \<mapsto> TaskStatusReady)) Cmp"
    using assms by (intro done_ok_keep [of S Cmp i TaskStatusBlocked]) (simp_all add: graph_inv_def terminal_status_def)
qed

lemma graph_terminal:
  assumes "graph_inv S D R N Q Run Cmp (insert i X)" "S i = Some s" "\<not> terminal_status s" "terminal_status t"
    and "t = TaskStatusCompleted \<Longrightarrow> s = TaskStatusRunning"
    and "run_ok (S(i \<mapsto> t)) Run'"
  shows "graph_inv (S(i \<mapsto> t)) D R N (Q - {i}) Run' (Cmp @ [i]) (X \<union> set (N i))"
  unfolding graph_inv_def
proof (intro conjI)
  show "Q - {i} = {j. (S(i \<mapsto> t)) j = Some TaskStatusReady}" "\<forall>j. (S(i \<mapsto> t)) j \<noteq> Some TaskStatusPending"
    using assms(1,4) by (auto simp: graph_inv_def terminal_status_def)
  show "blocked_ok (S(i \<mapsto> t)) D (X \<union> set (N i))"
    using assms by (intro blocked_ok_move [where N = N and X = X]) (auto simp: graph_inv_def terminal_status_def)
  show "met_ok (S(i \<mapsto> t)) D"
  proof (rule met_ok_move [of S D i s])
    show "met_ok S D" using assms(1) by (simp add: graph_inv_def)
    then show "\<forall>d \<in> set (D i). S d = Some TaskStatusCompleted" if "launched t"
      using met_okD [of S D i s] that assms(2,4,5) by (auto simp: launched_def terminal_status_def)
  qed (use assms in \<open>auto simp: terminal_status_def\<close>)
  show "done_ok (S(i \<mapsto> t)) (Cmp @ [i])"
    using assms by (intro done_ok_add [of S Cmp i s]) (auto simp: graph_inv_def)
  show "deps_ok (S(i \<mapsto> t)) D R"
    using assms by (intro deps_ok_move [of S D R i s]) (auto simp: graph_inv_def terminal_status_def)
  show "rev_ok (S(i \<mapsto> t)) D N"
    using assms by (intro rev_ok_move [of S D N i s]) (auto simp: graph_inv_def)
qed (rule assms(6))

lemma run_ok_remove:
  assumes "run_ok S Run" "(a, i) \<in> set Run" "t \<noteq> TaskStatusRunning"
  shows "run_ok (S(i \<mapsto> t)) (AList.delete a Run)"
proof -
  have only: "b = a" if "(b, i) \<in> set Run" for b
    using assms(1,2) that unfolding run_ok_def by (metis distinct_map inj_onD snd_conv fst_conv)
  have sub: "set (AList.delete a Run) = {x \<in> set Run. fst x \<noteq> a}"
    by (auto simp: AList.delete_eq)
  have task: "j = i" if "(a, j) \<in> set Run" for j
    using assms(1,2) that unfolding run_ok_def by (metis distinct_map inj_onD snd_conv fst_conv)
  have "distinct (map fst (AList.delete a Run))" "distinct (map snd (AList.delete a Run))"
    using assms(1) by (auto simp: run_ok_def AList.delete_eq intro: distinct_map_filter)
  moreover have "j \<in> snd ` set (AList.delete a Run) \<longleftrightarrow> (S(i \<mapsto> t)) j = Some TaskStatusRunning" for j
  proof (cases "j = i")
    case True
    then show ?thesis using only assms(3) by (auto simp: sub)
  next
    case False
    have "x \<in> set (AList.delete a Run)" if "x \<in> set Run" "snd x = j" for x
      using that False task [of j] unfolding sub by (metis (mono_tags, lifting) mem_Collect_eq prod.collapse)
    then have "j \<in> snd ` set (AList.delete a Run) \<longleftrightarrow> j \<in> snd ` set Run"
      unfolding sub by blast
    then show ?thesis using False assms(1) by (simp add: run_ok_def)
  qed
  ultimately show ?thesis by (simp add: run_ok_def)
qed

lemma graph_run:
  assumes "graph_inv S D R N Q Run Cmp X" "S i = Some TaskStatusReady" "a \<notin> fst ` set Run"
  shows "graph_inv (S(i \<mapsto> TaskStatusRunning)) D R N (Q - {i}) (Run @ [(a, i)]) Cmp X"
  unfolding graph_inv_def
proof (intro conjI)
  have "i \<notin> snd ` set Run" using assms(1,2) by (auto simp: graph_inv_def run_ok_def)
  then show "run_ok (S(i \<mapsto> TaskStatusRunning)) (Run @ [(a, i)])"
    using assms by (auto simp: graph_inv_def run_ok_def)
  show "Q - {i} = {j. (S(i \<mapsto> TaskStatusRunning)) j = Some TaskStatusReady}"
    "\<forall>j. (S(i \<mapsto> TaskStatusRunning)) j \<noteq> Some TaskStatusPending"
    using assms(1) by (auto simp: graph_inv_def)
  show "blocked_ok (S(i \<mapsto> TaskStatusRunning)) D X"
    using assms by (intro blocked_ok_move [where N = N and X = X])
      (auto simp: graph_inv_def terminal_status_def intro: blocked_ok_mono)
  show "met_ok (S(i \<mapsto> TaskStatusRunning)) D"
  proof (rule met_ok_move [of S D i TaskStatusReady])
    show "met_ok S D" using assms(1) by (simp add: graph_inv_def)
    then show "\<forall>d \<in> set (D i). S d = Some TaskStatusCompleted"
      using met_okD [of S D i TaskStatusReady] assms(2) by (simp add: launched_def)
  qed (simp_all add: assms(2))
  show "deps_ok (S(i \<mapsto> TaskStatusRunning)) D R"
    using assms by (intro deps_ok_move [of S D R i TaskStatusReady]) (simp_all add: graph_inv_def)
  show "rev_ok (S(i \<mapsto> TaskStatusRunning)) D N"
    using assms by (intro rev_ok_move [of S D N i TaskStatusReady]) (simp_all add: graph_inv_def)
  show "done_ok (S(i \<mapsto> TaskStatusRunning)) Cmp"
    using assms by (intro done_ok_keep [of S Cmp i TaskStatusReady]) (simp_all add: graph_inv_def terminal_status_def)
qed

text \<open>A new task, whose ID no other task uses or depends on being absent.\<close>

lemma graph_add:
  assumes "graph_inv S D R N Q Run Cmp {}" "S i = None"
    and "D' = D(i := ds)" "\<And>j. S j \<noteq> None \<Longrightarrow> R' j = R j" "\<And>j. S j \<noteq> None \<Longrightarrow> R j < R' i"
    and "\<And>d. set (N d) \<subseteq> set (N' d)" "\<And>d. d \<in> set ds \<Longrightarrow> i \<in> set (N' d)"
    and kind: "t = TaskStatusReady \<and> (\<forall>d \<in> set ds. S d = Some TaskStatusCompleted) \<and> Q' = insert i Q \<and> Cmp' = Cmp \<or>
      t = TaskStatusBlocked \<and> waits S ds \<and> (\<forall>d \<in> set ds. S d \<noteq> None) \<and> Q' = Q \<and> Cmp' = Cmp \<or>
      t = TaskStatusFailed \<and> Q' = Q \<and> Cmp' = Cmp @ [i]"
  shows "graph_inv (S(i \<mapsto> t)) D' R' N' Q' Run Cmp' {}"
  unfolding graph_inv_def
proof (intro conjI)
  have deps: "deps_ok S D R" and met: "met_ok S D" using assms(1) by (simp_all add: graph_inv_def)
  have old: "d \<noteq> i" if "S j = Some s" "s \<noteq> TaskStatusFailed" "d \<in> set (D j)" for j d s
    using deps_okD [OF deps that] assms(2) by auto
  have new: "d \<noteq> i \<and> S d \<noteq> None" if "t \<noteq> TaskStatusFailed" "d \<in> set ds" for d
    using kind that assms(2) by auto
  show "deps_ok (S(i \<mapsto> t)) D' R'"
    unfolding deps_ok_def
  proof (intro allI impI)
    fix j d assume j: "(S(i \<mapsto> t)) j \<noteq> None \<and> (S(i \<mapsto> t)) j \<noteq> Some TaskStatusFailed \<and> d \<in> set (D' j)"
    show "(S(i \<mapsto> t)) d \<noteq> None \<and> R' d < R' j"
    proof (cases "j = i")
      case True
      then show ?thesis using j new [of d] assms(3-5) by auto
    next
      case False
      then have "S d \<noteq> None \<and> R d < R j" using j assms(3) deps_okD [OF deps, of j] by auto
      then show ?thesis using False j assms(4) by auto
    qed
  qed
  show "rev_ok (S(i \<mapsto> t)) D' N'"
    using assms(1,3,6,7) unfolding graph_inv_def rev_ok_def by (metis (no_types, lifting) fun_upd_apply subsetD)
  show "Q' = {j. (S(i \<mapsto> t)) j = Some TaskStatusReady}" "\<forall>j. (S(i \<mapsto> t)) j \<noteq> Some TaskStatusPending"
    using assms(1,2) kind by (auto simp: graph_inv_def)
  show "run_ok (S(i \<mapsto> t)) Run"
    using assms(1,2) kind unfolding graph_inv_def run_ok_def by (metis fun_upd_apply option.distinct(1) option.inject task_status.distinct)
  show "done_ok (S(i \<mapsto> t)) Cmp'"
    using assms(1,2) kind by (auto simp: graph_inv_def done_ok_def)
  show "met_ok (S(i \<mapsto> t)) D'"
  proof (rule met_okI)
    fix j u d assume j: "(S(i \<mapsto> t)) j = Some u" "launched u" "d \<in> set (D' j)"
    have "S d = Some TaskStatusCompleted"
    proof (cases "j = i")
      case True
      with j assms(3) kind show ?thesis by (auto simp: launched_def)
    next
      case False
      with j assms(3) met_okD [OF met] show ?thesis by simp
    qed
    with assms(2) show "(S(i \<mapsto> t)) d = Some TaskStatusCompleted" by auto
  qed
  show "blocked_ok (S(i \<mapsto> t)) D' {}"
    unfolding blocked_ok_def
  proof (intro allI impI)
    fix j assume j: "(S(i \<mapsto> t)) j = Some TaskStatusBlocked \<and> j \<notin> {}"
    have w: "waits S (D' j)" using j assms(1,3) kind by (cases "j = i") (auto simp: graph_inv_def blocked_ok_def)
    have "i \<notin> set (D' j)"
      using j old [of j TaskStatusBlocked i] new [of i] assms(3) by (cases "j = i") auto
    then show "waits (S(i \<mapsto> t)) (D' j)" by (intro waits_move [OF w refl] disjI1)
  qed
qed

end
