(* ===== verification/CoordOps.thy ===== *)
theory CoordOps
  imports CoordInv
begin

text \<open>
  The coordinator's operations keep its invariant: each is a sequence of the moves of \<open>CoordInv\<close> on the
  graph seen through the store, the queue and the maps of the coordinator. Along the way each
  operation is shown to report exactly the tasks it finished, in the order in which it finished them.
\<close>

section \<open>The invariant of a coordinator\<close>

definition st :: "coordinator \<Rightarrow> statuses" where
  "st c i = map_option (\<lambda>r. t_Status (mem c r)) (find_task c i)"

definition deps_of :: "coordinator \<Rightarrow> string \<Rightarrow> string list" where
  "deps_of c i = (case find_task c i of None \<Rightarrow> [] | Some r \<Rightarrow> t_Dependencies (mem c r))"

definition created :: "coordinator \<Rightarrow> string \<Rightarrow> nat" where
  "created c i = (case find_task c i of None \<Rightarrow> 0 | Some r \<Rightarrow> r)"

definition queued :: "coordinator \<Rightarrow> string set" where
  "queued c = (\<lambda>r. t_ID (mem c r)) ` set (tq_items (c_queue c))"

definition task_ok :: "coordinator \<Rightarrow> string \<Rightarrow> tref \<Rightarrow> bool" where
  "task_ok c i r \<longleftrightarrow> t_ID (mem c r) = i \<and> i \<noteq> [] \<and> r < c_next c \<and>
     (terminal_status (t_Status (mem c r)) \<longrightarrow> t_Result (mem c r) \<noteq> None)"

definition store_ok :: "coordinator \<Rightarrow> bool" where
  "store_ok c \<longleftrightarrow>
     (\<forall>i r. find_task c i = Some r \<longrightarrow> task_ok c i r) \<and>
     (\<forall>r \<in> set (tq_items (c_queue c)). find_task c (t_ID (mem c r)) = Some r) \<and>
     distinct (map fst (c_tasks c)) \<and>
     tq_nextSequence (c_queue c) + blocked_count c \<le> c_next c \<and> c_next c < 2 ^ 64"

definition coord_inv :: "coordinator \<Rightarrow> string set \<Rightarrow> bool" where
  "coord_inv c X \<longleftrightarrow> queue_inv (c_queue c) \<and> store_ok c \<and>
     graph_inv (st c) (deps_of c) (created c) (dependents c) (queued c) (c_running c) (c_completed c) X"

lemma store_okD: "store_ok c \<Longrightarrow> find_task c i = Some r \<Longrightarrow> task_ok c i r"
  by (simp add: store_ok_def)

lemma find_inj: "store_ok c \<Longrightarrow> find_task c i = Some r \<Longrightarrow> find_task c j = Some r \<Longrightarrow> i = j"
  using store_okD [of c i r] store_okD [of c j r] by (simp add: task_ok_def)

lemma find_ID: "store_ok c \<Longrightarrow> find_task c i = Some r \<Longrightarrow> t_ID (mem c r) = i"
  using store_okD by (simp add: task_ok_def)

section \<open>One task moves\<close>

text \<open>\<open>moved c c' r s\<close>: from \<open>c\<close> to \<open>c'\<close> the status of task \<open>r\<close> becomes \<open>s\<close>; IDs, dependencies and other tasks stay.\<close>

definition moved :: "coordinator \<Rightarrow> coordinator \<Rightarrow> tref \<Rightarrow> task_status \<Rightarrow> bool" where
  "moved c c' r s \<longleftrightarrow>
     c_tasks c' = c_tasks c \<and> c_dependencies c' = c_dependencies c \<and> c_next c' = c_next c \<and>
     (\<forall>x. t_ID (mem c' x) = t_ID (mem c x) \<and> t_Dependencies (mem c' x) = t_Dependencies (mem c x) \<and>
        t_Status (mem c' x) = (if x = r then s else t_Status (mem c x)) \<and>
        (x \<noteq> r \<longrightarrow> t_Result (mem c' x) = t_Result (mem c x))) \<and>
     (terminal_status s \<longrightarrow> t_Result (mem c' r) \<noteq> None) \<and>
     queue_inv (c_queue c') \<and> set (tq_items (c_queue c')) \<subseteq> insert r (set (tq_items (c_queue c))) \<and>
     tq_nextSequence (c_queue c') + blocked_count c' \<le> tq_nextSequence (c_queue c) + blocked_count c"

lemma movedD:
  assumes "moved c c' r s"
  shows "c_tasks c' = c_tasks c" "c_dependencies c' = c_dependencies c" "c_next c' = c_next c"
    "t_ID (mem c' x) = t_ID (mem c x)" "t_Dependencies (mem c' x) = t_Dependencies (mem c x)"
    "t_Status (mem c' x) = (if x = r then s else t_Status (mem c x))"
    "x \<noteq> r \<Longrightarrow> t_Result (mem c' x) = t_Result (mem c x)"
    "terminal_status s \<Longrightarrow> t_Result (mem c' r) \<noteq> None"
    "queue_inv (c_queue c')" "set (tq_items (c_queue c')) \<subseteq> insert r (set (tq_items (c_queue c)))"
    "tq_nextSequence (c_queue c') + blocked_count c' \<le> tq_nextSequence (c_queue c) + blocked_count c"
  using assms unfolding moved_def by blast+

lemma moved_find: "moved c c' r s \<Longrightarrow> find_task c' = find_task c"
  using movedD(1) by (simp add: find_task_def fun_eq_iff)

lemma moved_view:
  assumes "moved c c' r s" "find_task c i = Some r" "store_ok c"
  shows "st c' = (st c)(i \<mapsto> s)" "deps_of c' = deps_of c" "created c' = created c" "dependents c' = dependents c"
proof -
  note fnd = moved_find [OF assms(1)]
  have other: "x = i" if "find_task c x = Some r" for x using find_inj [OF assms(3) that assms(2)] .
  show "st c' = (st c)(i \<mapsto> s)"
  proof
    fix j show "st c' j = ((st c)(i \<mapsto> s)) j"
      using assms(2) other [of j] by (cases "find_task c j") (auto simp: st_def fnd movedD(6) [OF assms(1)])
  qed
  show "deps_of c' = deps_of c" "created c' = created c" "dependents c' = dependents c"
    using movedD(2,5) [OF assms(1)]
    by (simp_all add: deps_of_def created_def dependents_def fnd fun_eq_iff split: option.split)
qed

lemma moved_store:
  assumes "moved c c' r s" "find_task c i = Some r" "store_ok c"
  shows "store_ok c'"
  unfolding store_ok_def
proof (intro conjI allI impI ballI)
  note fnd = moved_find [OF assms(1)]
  note m = movedD [OF assms(1)]
  fix j x
  show "task_ok c' j x" if "find_task c' j = Some x"
    using store_okD [OF assms(3), of j x] that m(7) [of x] m(8)
    by (cases "x = r") (simp_all add: task_ok_def fnd m(3,4,6))
  have "find_task c (t_ID (mem c r)) = Some r" using find_ID [OF assms(3,2)] assms(2) by simp
  then show "find_task c' (t_ID (mem c' x)) = Some x" if "x \<in> set (tq_items (c_queue c'))"
    using m(10) that assms(3) by (auto simp: fnd m(4) store_ok_def)
  show "distinct (map fst (c_tasks c'))" "c_next c' < 2 ^ 64"
    "tq_nextSequence (c_queue c') + blocked_count c' \<le> c_next c'"
    using assms(3) m(11) by (simp_all add: m(1,3) store_ok_def)
qed

lemma moved_queued: "moved c c' r s \<Longrightarrow> queued c' = (\<lambda>x. t_ID (mem c x)) ` set (tq_items (c_queue c'))"
  using movedD(4) by (simp add: queued_def)

lemma queued_inj: "store_ok c \<Longrightarrow> inj_on (\<lambda>x. t_ID (mem c x)) (set (tq_items (c_queue c)))"
  unfolding store_ok_def inj_on_def by (metis option.inject)

section \<open>Elementary state changes\<close>

lemma ordered_cong: "rank q' = rank q \<Longrightarrow> tq_items q' = tq_items q \<Longrightarrow> hq.ordered q' n = hq.ordered q n"
  by (simp add: heap_upto_def)

lemma queue_inv_put:
  assumes "queue_inv q" "t_index t = t_index (tq_mem q r)" "t_Priority t = t_Priority (tq_mem q r)"
    and "t_queueSequence t = t_queueSequence (tq_mem q r)" "t_ID t = t_ID (tq_mem q r)"
  shows "queue_inv (q\<lparr>tq_mem := (tq_mem q)(r := t)\<rparr>)" (is "queue_inv ?q")
proof -
  have eq: "t_index (tq_mem ?q x) = t_index (tq_mem q x)" "t_queueSequence (tq_mem ?q x) = t_queueSequence (tq_mem q x)"
    "t_ID (tq_mem ?q x) = t_ID (tq_mem q x)" for x using assms(2-5) by simp_all
  have "rank ?q = rank q" using assms(2-5) by (auto simp: rank_def fun_eq_iff)
  then show ?thesis
    using assms(1) ordered_cong [of ?q q] unfolding queue_inv_def positions_def eq by simp
qed

lemma length_filter_mono: "(\<And>x. P x \<Longrightarrow> Q x) \<Longrightarrow> length (filter P xs) \<le> length (filter Q xs)"
  by (induction xs) (auto intro: le_SucI)

lemma blocked_count_le:
  "c_tasks c' = c_tasks c \<Longrightarrow>
   (\<And>x. t_Status (mem c' x) = TaskStatusBlocked \<Longrightarrow> t_Status (mem c x) = TaskStatusBlocked) \<Longrightarrow>
   blocked_count c' \<le> blocked_count c"
  unfolding blocked_count_def by (auto intro: length_filter_mono)

lemma unindexed_fields:
  assumes "unindexed m' = unindexed m"
  shows "t_ID (m' x) = t_ID (m x)" "t_Dependencies (m' x) = t_Dependencies (m x)"
    "t_Status (m' x) = t_Status (m x)" "t_Result (m' x) = t_Result (m x)"
proof -
  have "(m' x)\<lparr>t_index := 0\<rparr> = (m x)\<lparr>t_index := 0\<rparr>" using assms by (metis unindexed_def)
  then have "t_ID ((m' x)\<lparr>t_index := 0\<rparr>) = t_ID ((m x)\<lparr>t_index := 0\<rparr>)"
    "t_Dependencies ((m' x)\<lparr>t_index := 0\<rparr>) = t_Dependencies ((m x)\<lparr>t_index := 0\<rparr>)"
    "t_Status ((m' x)\<lparr>t_index := 0\<rparr>) = t_Status ((m x)\<lparr>t_index := 0\<rparr>)"
    "t_Result ((m' x)\<lparr>t_index := 0\<rparr>) = t_Result ((m x)\<lparr>t_index := 0\<rparr>)" by simp_all
  then show "t_ID (m' x) = t_ID (m x)" "t_Dependencies (m' x) = t_Dependencies (m x)"
    "t_Status (m' x) = t_Status (m x)" "t_Result (m' x) = t_Result (m x)" by simp_all
qed

text \<open>The queue loses task \<open>r\<close>, if it was there, and nothing else changes.\<close>

definition drops :: "task_queue \<Rightarrow> tref \<Rightarrow> task_queue \<Rightarrow> bool" where
  "drops q r q' \<longleftrightarrow> queue_inv q' \<and> unindexed (tq_mem q') = unindexed (tq_mem q) \<and>
     tq_nextSequence q' = tq_nextSequence q \<and> set (tq_items q') = set (tq_items q) - {r}"

lemma drops_removes:
  assumes "queue_inv q" "removes q r q'"
  shows "drops q r q'"
proof -
  have "distinct (tq_items q)" using assms(1) by (simp add: queue_inv_def positions_def)
  moreover have ms: "mset (tq_items q) = mset (r # tq_items q')" using assms(2) by (simp add: removes_def)
  ultimately have "r \<notin> set (tq_items q')" by (metis distinct.simps(2) mset_eq_imp_distinct_iff)
  moreover have "set (tq_items q) = insert r (set (tq_items q'))" using ms by (metis list.simps(15) set_mset_mset)
  ultimately show ?thesis using assms(2) by (auto simp: drops_def removes_def)
qed

lemma drops_refl: "queue_inv q \<Longrightarrow> r \<notin> set (tq_items q) \<Longrightarrow> drops q r q"
  by (simp add: drops_def)

text \<open>Status and result of one task are set, after it has left the queue.\<close>

lemma set_status_moved:
  assumes "drops (c_queue c) r q" "s \<noteq> TaskStatusBlocked" "terminal_status s \<Longrightarrow> x \<noteq> None"
    and c': "c_queue c' = q\<lparr>tq_mem := (tq_mem q)(r := (tq_mem q r)\<lparr>t_Status := s, t_Result := x\<rparr>)\<rparr>"
    "c_tasks c' = c_tasks c" "c_dependencies c' = c_dependencies c" "c_next c' = c_next c"
  shows "moved c c' r s" "set (tq_items (c_queue c')) = set (tq_items (c_queue c)) - {r}"
proof -
  have q: "queue_inv q" "unindexed (tq_mem q) = unindexed (mem c)" "tq_nextSequence q = tq_nextSequence (c_queue c)"
    and items: "set (tq_items q) = set (tq_items (c_queue c)) - {r}" using assms(1) by (simp_all add: drops_def)
  show "set (tq_items (c_queue c')) = set (tq_items (c_queue c)) - {r}" using items by (simp add: c')
  have fields: "t_ID (mem c' y) = t_ID (mem c y)" "t_Dependencies (mem c' y) = t_Dependencies (mem c y)"
    "t_Status (mem c' y) = (if y = r then s else t_Status (mem c y))"
    "y \<noteq> r \<Longrightarrow> t_Result (mem c' y) = t_Result (mem c y)" for y
    using unindexed_fields [OF q(2), of y] by (auto simp: c')
  have "queue_inv (c_queue c')" unfolding c' by (rule queue_inv_put [OF q(1)]) simp_all
  moreover have "blocked_count c' \<le> blocked_count c"
    using fields(3) assms(2) by (intro blocked_count_le) (auto simp: c' split: if_splits)
  moreover have "tq_nextSequence (c_queue c') = tq_nextSequence (c_queue c)" by (simp add: c' q)
  moreover have "terminal_status s \<longrightarrow> t_Result (mem c' r) \<noteq> None" using assms(3) by (simp add: c')
  moreover have "set (tq_items (c_queue c')) \<subseteq> insert r (set (tq_items (c_queue c)))" using items by (auto simp: c')
  ultimately show "moved c c' r s"
    unfolding moved_def using fields c'(2-4) by (intro conjI allI impI) simp_all
qed

text \<open>A blocked task becomes ready and joins the queue.\<close>

lemma ready_task_eq:
  "ready_task c r = c\<lparr>c_queue := PushTask ((c_queue c)\<lparr>tq_mem := (mem c)(r := (mem c r)\<lparr>t_Status := TaskStatusReady\<rparr>)\<rparr>) (Some r)\<rparr>"
  by (simp add: ready_task_def put_task_def Let_def)

lemma ready_fields:
  assumes "queue_inv (c_queue c)" "r \<notin> set (tq_items (c_queue c))" "t_ID (mem c r) \<noteq> []"
    and "t_ID (mem c r) \<notin> (\<lambda>x. t_ID (mem c x)) ` set (tq_items (c_queue c))"
    and "tq_nextSequence (c_queue c) + 1 < 2 ^ 64"
  shows "queue_inv (c_queue (ready_task c r))"
    "set (tq_items (c_queue (ready_task c r))) = insert r (set (tq_items (c_queue c)))"
    "tq_nextSequence (c_queue (ready_task c r)) = tq_nextSequence (c_queue c) + 1"
    "t_ID (mem (ready_task c r) y) = t_ID (mem c y)" "t_Dependencies (mem (ready_task c r) y) = t_Dependencies (mem c y)"
    "t_Status (mem (ready_task c r) y) = (if y = r then TaskStatusReady else t_Status (mem c y))"
    "t_Result (mem (ready_task c r) y) = t_Result (mem c y)"
proof -
  define q where "q = (c_queue c)\<lparr>tq_mem := (mem c)(r := (mem c r)\<lparr>t_Status := TaskStatusReady\<rparr>)\<rparr>"
  define p where "p = PushTask q (Some r)"
  have c': "ready_task c r = c\<lparr>c_queue := p\<rparr>" by (simp add: ready_task_eq p_def q_def)
  have qi: "queue_inv q" unfolding q_def by (rule queue_inv_put [OF assms(1)]) simp_all
  have room: "tq_nextSequence q + 1 < 2 ^ 64" using assms(5) by (simp add: q_def)
  have "t_ID (tq_mem q x) = t_ID (mem c x)" for x by (simp add: q_def)
  then have push: "pushes q r" using assms(2-4) by (simp add: pushes_def) (simp add: q_def)
  have f: "frame (TaskQueue_Push q r) p" and pi: "queue_inv p"
    using Push_facts [OF qi push room] by (simp_all add: p_def)
  then show "queue_inv (c_queue (ready_task c r))" by (simp add: c')
  show "t_ID (mem (ready_task c r) y) = t_ID (mem c y)" "t_Dependencies (mem (ready_task c r) y) = t_Dependencies (mem c y)"
    "t_Status (mem (ready_task c r) y) = (if y = r then TaskStatusReady else t_Status (mem c y))"
    "t_Result (mem (ready_task c r) y) = t_Result (mem c y)"
    by (simp_all add: c' frame_fields [OF f] Push_fields) (simp_all add: q_def)
  show "set (tq_items (c_queue (ready_task c r))) = insert r (set (tq_items (c_queue c)))"
    using f by (simp add: c' frame_def Push_fields) (simp add: q_def)
  have "tq_nextSequence p = tq_nextSequence (TaskQueue_Push q r)" using f by (simp add: frame_def)
  also have "\<dots> = tq_nextSequence q + 1" using room by (simp add: TaskQueue_Push_def Let_def)
  finally show "tq_nextSequence (c_queue (ready_task c r)) = tq_nextSequence (c_queue c) + 1" by (simp add: q_def c')
qed

lemma ready_moved:
  assumes "queue_inv (c_queue c)" "r \<notin> set (tq_items (c_queue c))" "t_ID (mem c r) \<noteq> []"
    and "t_ID (mem c r) \<notin> (\<lambda>x. t_ID (mem c x)) ` set (tq_items (c_queue c))"
    and "tq_nextSequence (c_queue c) + 1 < 2 ^ 64" "blocked_count (ready_task c r) < blocked_count c"
  shows "moved c (ready_task c r) r TaskStatusReady"
    "set (tq_items (c_queue (ready_task c r))) = insert r (set (tq_items (c_queue c)))"
proof -
  note R = ready_fields [OF assms(1-5)]
  show "set (tq_items (c_queue (ready_task c r))) = insert r (set (tq_items (c_queue c)))" by (rule R)
  have same: "c_tasks (ready_task c r) = c_tasks c" "c_dependencies (ready_task c r) = c_dependencies c"
    "c_next (ready_task c r) = c_next c" by (simp_all add: ready_task_eq)
  show "moved c (ready_task c r) r TaskStatusReady"
    unfolding moved_def using R assms(6) same by (intro conjI allI impI) (simp_all add: terminal_status_def)
qed

section \<open>Moves of the coordinator\<close>

lemma coord_invD:
  assumes "coord_inv c X"
  shows "queue_inv (c_queue c)" "store_ok c"
    "graph_inv (st c) (deps_of c) (created c) (dependents c) (queued c) (c_running c) (c_completed c) X"
  using assms by (simp_all add: coord_inv_def)

lemma coord_mono: "coord_inv c X \<Longrightarrow> X \<subseteq> Y \<Longrightarrow> coord_inv c Y"
  unfolding coord_inv_def by (auto intro: graph_mono)

lemma st_find: "find_task c i = Some r \<Longrightarrow> st c i = Some (t_Status (mem c r))"
  by (simp add: st_def)

lemma st_ex: "st c i = Some s \<longleftrightarrow> (\<exists>r. find_task c i = Some r \<and> t_Status (mem c r) = s)"
  by (auto simp: st_def)

lemma deps_find: "find_task c i = Some r \<Longrightarrow> deps_of c i = t_Dependencies (mem c r)"
  by (simp add: deps_of_def)

lemma queued_drop:
  assumes "store_ok c" "find_task c i = Some r" "moved c c' r s" "set (tq_items (c_queue c')) = set (tq_items (c_queue c)) - {r}"
  shows "queued c' = queued c - {i}"
proof -
  have "t_ID (mem c x) \<noteq> i" if "x \<in> set (tq_items (c_queue c))" "x \<noteq> r" for x
    using assms(1,2) that unfolding store_ok_def by (metis option.inject)
  then show ?thesis
    using find_ID [OF assms(1,2)] assms(4) unfolding moved_queued [OF assms(3)] by (auto simp: queued_def)
qed

text \<open>A task reaches its end; its dependents are to be looked at.\<close>

lemma inv_terminal:
  assumes inv: "coord_inv c (insert i X)" and r: "find_task c i = Some r" "\<not> terminal_status (t_Status (mem c r))"
    and m: "moved c c' r s" "terminal_status s" "s = TaskStatusCompleted \<Longrightarrow> t_Status (mem c r) = TaskStatusRunning"
    and q: "set (tq_items (c_queue c')) = set (tq_items (c_queue c)) - {r}"
    and cmp: "c_completed c' = c_completed c @ [i]" and run: "run_ok ((st c)(i \<mapsto> s)) (c_running c')"
  shows "coord_inv c' (X \<union> set (dependents c i))"
proof -
  note D = coord_invD [OF inv] and v = moved_view [OF m(1) r(1) coord_invD(2) [OF inv]]
  show ?thesis
    unfolding coord_inv_def v queued_drop [OF D(2) r(1) m(1) q] cmp
    using graph_terminal [OF D(3) st_find [OF r(1)] r(2) m(2,3) run] movedD(9) [OF m(1)]
      moved_store [OF m(1) r(1) D(2)] by simp
qed

lemma inv_not_queued:
  assumes "coord_inv c X" "find_task c i = Some r" "t_Status (mem c r) \<noteq> TaskStatusReady"
  shows "r \<notin> set (tq_items (c_queue c))" "t_ID (mem c r) \<notin> (\<lambda>x. t_ID (mem c x)) ` set (tq_items (c_queue c))"
proof -
  have "i \<notin> queued c"
    using coord_invD(3) [OF assms(1)] st_find [OF assms(2)] assms(3) by (simp add: graph_inv_def)
  then show *: "t_ID (mem c r) \<notin> (\<lambda>x. t_ID (mem c x)) ` set (tq_items (c_queue c))"
    using find_ID [OF coord_invD(2) [OF assms(1)] assms(2)] by (simp add: queued_def)
  then show "r \<notin> set (tq_items (c_queue c))" by blast
qed

lemma inv_ready:
  assumes inv: "coord_inv c (insert i X)" and r: "find_task c i = Some r" "t_Status (mem c r) = TaskStatusBlocked"
    and met: "\<forall>d \<in> set (deps_of c i). st c d = Some TaskStatusCompleted"
  shows "coord_inv (ready_task c r) X" "moved c (ready_task c r) r TaskStatusReady"
proof -
  note D = coord_invD [OF inv]
  have less: "blocked_count (ready_task c r) < blocked_count c" by (rule blocked_less_ready [OF r])
  then have room: "tq_nextSequence (c_queue c) + 1 < 2 ^ 64" using D(2) by (simp add: store_ok_def)
  have id: "t_ID (mem c r) = i" "i \<noteq> []" using store_okD [OF D(2) r(1)] by (simp_all add: task_ok_def)
  then have "t_ID (mem c r) \<noteq> []" by simp
  with inv_not_queued [OF inv r(1)] r(2) D(1) room less
  show m: "moved c (ready_task c r) r TaskStatusReady"
    by (simp add: ready_moved)
  have q: "set (tq_items (c_queue (ready_task c r))) = insert r (set (tq_items (c_queue c)))"
    using inv_not_queued [OF inv r(1)] r(2) D(1) room less id by (simp add: ready_moved)
  note v = moved_view [OF m r(1) D(2)]
  have "queued (ready_task c r) = insert i (queued c)"
    unfolding moved_queued [OF m] q by (simp add: queued_def id)
  moreover have "c_running (ready_task c r) = c_running c" "c_completed (ready_task c r) = c_completed c"
    by (simp_all add: ready_task_eq)
  ultimately show "coord_inv (ready_task c r) X"
    unfolding coord_inv_def v
    using graph_ready [OF D(3) st_find [OF r(1), unfolded r(2)] met] movedD(9) [OF m] moved_store [OF m r(1) D(2)] by simp
qed

lemma inv_wait:
  "coord_inv c (insert i X) \<Longrightarrow> (st c i = Some TaskStatusBlocked \<Longrightarrow> waits (st c) (deps_of c i)) \<Longrightarrow> coord_inv c X"
  unfolding coord_inv_def by (blast intro: graph_wait)

text \<open>What the guards of the code decide, in terms of the graph.\<close>

lemma met_iff:
  "areDependenciesMet c t \<longleftrightarrow> (\<forall>d \<in> set (t_Dependencies t). st c d = Some TaskStatusCompleted)"
  by (auto simp: areDependenciesMet_def list_all_iff st_def split: option.splits)

lemma failed_None_iff:
  "failedDependency c t = None \<longleftrightarrow>
     (\<forall>d \<in> set (t_Dependencies t). st c d \<noteq> None \<and> st c d \<noteq> Some TaskStatusFailed)"
proof -
  have "failedDependency c t = None \<longleftrightarrow>
      List.find (\<lambda>d. case find_task c d of None \<Rightarrow> True | Some r \<Rightarrow> t_Status (mem c r) = TaskStatusFailed)
        (t_Dependencies t) = None"
    by (simp add: failedDependency_def split: option.split)
  also have "\<dots> \<longleftrightarrow> (\<forall>d \<in> set (t_Dependencies t). st c d \<noteq> None \<and> st c d \<noteq> Some TaskStatusFailed)"
    by (auto simp: find_None_iff st_def split: option.splits)
  finally show ?thesis .
qed

lemma waits_iff:
  "failedDependency c t = None \<Longrightarrow> waits (st c) (t_Dependencies t) \<longleftrightarrow> \<not> areDependenciesMet c t"
  by (auto simp: failed_None_iff met_iff waits_def)

section \<open>Resolving dependents\<close>

text \<open>What an operation reports is what it appended to the list of completed tasks.\<close>

definition reports :: "coordinator \<Rightarrow> completion list \<Rightarrow> coordinator \<Rightarrow> bool" where
  "reports c cs c' \<longleftrightarrow> c_completed c' = c_completed c @ map (\<lambda>(t, res). t_ID t) cs \<and>
     (\<forall>(t, res) \<in> set cs. terminal_status (t_Status t) \<and> t_Result t = Some res)"

lemma reports_Nil: "c_completed c' = c_completed c \<Longrightarrow> reports c [] c'"
  by (simp add: reports_def)

lemma reports_append: "reports c cs c' \<Longrightarrow> reports c' cs' c'' \<Longrightarrow> reports c (cs @ cs') c''"
  unfolding reports_def by auto

lemma reports_one:
  "c_completed c' = c_completed c @ [t_ID (mem c' r)] \<Longrightarrow> terminal_status (t_Status (mem c' r)) \<Longrightarrow>
   t_Result (mem c' r) = Some res \<Longrightarrow> reports c [snapshot c' r res] c'"
  by (simp add: reports_def snapshot_def cloneCoordinatedTask_def)

text \<open>Only the queue, the store and the list of completed tasks are written.\<close>

definition inner :: "coordinator \<Rightarrow> coordinator \<Rightarrow> bool" where
  "inner c c' \<longleftrightarrow> (\<exists>q cmp. c' = c\<lparr>c_queue := q, c_completed := cmp\<rparr>)"

lemma innerD:
  assumes "inner c c'"
  shows "c_tasks c' = c_tasks c" "c_dependencies c' = c_dependencies c" "c_next c' = c_next c"
    "c_running c' = c_running c" "c_maxParallel c' = c_maxParallel c" "c_sealed c' = c_sealed c"
    "c_pendingCallbacks c' = c_pendingCallbacks c" "c_events c' = c_events c" "c_runner c' = c_runner c"
    "c_completion c' = c_completion c" "c_allCompleteOnce c' = c_allCompleteOnce c" "find_task c' = find_task c"
    "c_onTaskComplete c' = c_onTaskComplete c" "c_onAllComplete c' = c_onAllComplete c"
    "c_onTaskStart c' = c_onTaskStart c"
  using assms by (auto simp: inner_def find_task_def fun_eq_iff)

lemma inner_refl: "inner c c"
  unfolding inner_def by (rule exI [of _ "c_queue c"], rule exI [of _ "c_completed c"]) simp

lemma innerI: "inner c (c\<lparr>c_queue := q, c_completed := cmp\<rparr>)" "inner c (c\<lparr>c_queue := q\<rparr>)"
proof -
  show "inner c (c\<lparr>c_queue := q, c_completed := cmp\<rparr>)" for cmp unfolding inner_def by blast
  from this [of "c_completed c"] show "inner c (c\<lparr>c_queue := q\<rparr>)" by simp
qed

lemma inner_trans:
  assumes "inner c c'" "inner c' c''"
  shows "inner c c''"
proof -
  obtain q cmp q' cmp' where "c' = c\<lparr>c_queue := q, c_completed := cmp\<rparr>" "c'' = c'\<lparr>c_queue := q', c_completed := cmp'\<rparr>"
    using assms unfolding inner_def by blast
  then have "c'' = c\<lparr>c_queue := q', c_completed := cmp'\<rparr>" by simp
  then show ?thesis by (simp add: innerI)
qed

text \<open>Tasks that run or have ended are left alone.\<close>

definition settled :: "coordinator \<Rightarrow> coordinator \<Rightarrow> bool" where
  "settled c c' \<longleftrightarrow> (\<forall>r. t_Status (mem c r) = TaskStatusRunning \<or> terminal_status (t_Status (mem c r)) \<longrightarrow>
     t_Status (mem c' r) = t_Status (mem c r) \<and> t_Result (mem c' r) = t_Result (mem c r))"

lemma settled_refl: "settled c c"
  by (simp add: settled_def)

lemma settled_trans: "settled c c' \<Longrightarrow> settled c' c'' \<Longrightarrow> settled c c''"
  by (simp add: settled_def)

lemma moved_settled:
  assumes "moved c c' r s" "t_Status (mem c r) \<noteq> TaskStatusRunning" "\<not> terminal_status (t_Status (mem c r))"
  shows "settled c c'"
  unfolding settled_def
proof (intro allI impI)
  fix x assume "t_Status (mem c x) = TaskStatusRunning \<or> terminal_status (t_Status (mem c x))"
  then have "x \<noteq> r" using assms(2,3) by auto
  then show "t_Status (mem c' x) = t_Status (mem c x) \<and> t_Result (mem c' x) = t_Result (mem c x)"
    using movedD(6,7) [OF assms(1), of x] by simp
qed

definition resolved :: "coordinator \<Rightarrow> coordinator \<times> completion list \<Rightarrow> bool" where
  "resolved c x \<longleftrightarrow> coord_inv (fst x) {} \<and> reports c (snd x) (fst x) \<and> inner c (fst x) \<and> settled c (fst x)"

lemma finish_queue:
  "c_queue (finish_task c r s res) =
     (c_queue c)\<lparr>tq_mem := (mem c)(r := (mem c r)\<lparr>t_Status := s, t_Result := Some res\<rparr>)\<rparr>"
  "c_dependencies (finish_task c r s res) = c_dependencies c" "c_next (finish_task c r s res) = c_next c"
  "c_completed (finish_task c r s res) =
     (if t_ID (mem c r) \<in> set (c_completed c) then c_completed c else c_completed c @ [t_ID (mem c r)])"
  "inner c (finish_task c r s res)"
  by (auto simp: finish_task_def mark_completed_def put_task_def intro: innerI)

lemma not_completed:
  "coord_inv c X \<Longrightarrow> find_task c i = Some r \<Longrightarrow> \<not> terminal_status (t_Status (mem c r)) \<Longrightarrow> i \<notin> set (c_completed c)"
  using coord_invD(3) [of c X] st_find [of c i r] by (auto simp: graph_inv_def done_ok_def terminal_status_def)

lemma inv_run: "coord_inv c X \<Longrightarrow> run_ok (st c) (c_running c)"
  using coord_invD(3) by (simp add: graph_inv_def)

text \<open>A blocked task fails because of a dependency.\<close>

lemma finish_blocked:
  assumes inv: "coord_inv c (insert i X)" and r: "find_task c i = Some r" "t_Status (mem c r) = TaskStatusBlocked"
    and c': "c' = finish_task c r TaskStatusFailed res"
  shows "coord_inv c' (X \<union> set (dependents c i))" "reports c [snapshot c' r res] c'" "inner c c'" "settled c c'"
    "dependents c' i = dependents c i"
proof -
  have nt: "\<not> terminal_status (t_Status (mem c r))" by (simp add: r(2) terminal_status_def)
  note D = coord_invD [OF inv] and id = find_ID [OF coord_invD(2) [OF inv] r(1)] and f = finish_queue [of c r TaskStatusFailed res]
  have out: "r \<notin> set (tq_items (c_queue c))" using inv_not_queued(1) [OF inv r(1)] r(2) by simp
  have m: "moved c c' r TaskStatusFailed" and q: "set (tq_items (c_queue c')) = set (tq_items (c_queue c)) - {r}"
    unfolding c' by (rule set_status_moved [OF drops_refl [OF D(1) out], where x = "Some res"];
        simp add: f finish_task_fields)+
  have cmp: "c_completed c' = c_completed c @ [i]"
    using not_completed [OF inv r(1) nt] by (simp add: c' f id)
  show "inner c c'" by (simp add: c' f)
  then have running: "c_running c' = c_running c" by (rule innerD)
  have "run_ok ((st c)(i \<mapsto> TaskStatusFailed)) (c_running c')"
    unfolding running by (rule run_ok_keep [OF inv_run [OF inv] st_find [OF r(1)]]) (simp_all add: r(2))
  then show "coord_inv c' (X \<union> set (dependents c i))"
    by (intro inv_terminal [OF inv r(1) nt m _ _ q cmp]) (simp_all add: terminal_status_def)
  show "reports c [snapshot c' r res] c'"
    using cmp id by (intro reports_one) (simp_all add: c' finish_task_fields terminal_status_def)
  show "settled c c'" using moved_settled [OF m] nt r(2) by simp
  show "dependents c' i = dependents c i" using moved_view(4) [OF m r(1) D(2)] by simp
qed

lemma resolvedI:
  "inner c c1 \<Longrightarrow> settled c c1 \<Longrightarrow> reports c cs c1 \<Longrightarrow> resolved c1 (c2, cs') \<Longrightarrow> resolved c (c2, cs @ cs')"
  unfolding resolved_def using reports_append inner_trans settled_trans by auto

lemma resolve_loop_inv: "coord_inv c (set pend) \<Longrightarrow> resolved c (resolve_loop quote c pend)"
proof (induction rule: resolve_cases_induct [where quote = quote])
  case (Nil c)
  then show ?case by (simp add: resolved_def reports_Nil inner_refl settled_refl)
next
  case (Skip c d pend)
  have "st c d \<noteq> Some TaskStatusBlocked" using Skip(1) by (auto simp: st_ex)
  with Skip(2,3) inv_wait [of c d "set pend"] show ?case by (simp add: resolve_skip [OF Skip(1)])
next
  case (Fail c d pend r depID dep c1 res)
  have c1: "c1 = finish_task c r TaskStatusFailed res" using Fail(4) by (auto simp: failTaskForDependency_def Let_def)
  have inv: "coord_inv c (insert d (set pend))" using Fail(6) by simp
  note fb = finish_blocked [OF inv Fail(1,2) c1]
  have "resolved c1 (resolve_loop quote c1 (pend @ dependents c1 d))" using fb(1,5) Fail(5) by simp
  with resolvedI [OF fb(3,4,2)] show ?case by (simp add: resolve_fail [OF Fail(1-4)])
next
  case (Ready c d pend r)
  note ready = inv_ready [OF Ready(6) [unfolded list.set] Ready(1,2)]
  have met: "\<forall>x \<in> set (deps_of c d). st c x = Some TaskStatusCompleted"
    using Ready(4) by (simp add: met_iff deps_find [OF Ready(1)])
  have "settled c (ready_task c r)"
    using moved_settled [OF ready(2) [OF met]] Ready(2) by (simp add: terminal_status_def)
  moreover have "inner c (ready_task c r)" "c_completed (ready_task c r) = c_completed c"
    by (simp_all add: ready_task_eq innerI)
  moreover have "resolved (ready_task c r) (resolve_loop quote (ready_task c r) pend)"
    by (rule Ready(5) [OF ready(1) [OF met]])
  ultimately show ?case
    using resolvedI [of c "ready_task c r" "[]" _ ] Ready(4)
    by (cases "resolve_loop quote (ready_task c r) pend") (simp add: resolve_ready [OF Ready(1-3)] reports_Nil)
next
  case (Wait c d pend r)
  then show ?case
    using inv_wait [of c d "set pend"] by (simp add: resolve_ready waits_iff deps_find)
qed

end
