(* ===== verification/CoordSteps.thy ===== *)
theory CoordSteps
  imports CoordOps
begin

text \<open>
  Every entry point of the coordinator keeps the invariant and reports what it finishes: adding,
  starting, completing and cancelling tasks.
\<close>

section \<open>Ending a task\<close>

text \<open>Finished tasks stay as they are.\<close>

definition final :: "coordinator \<Rightarrow> coordinator \<Rightarrow> bool" where
  "final c c' \<longleftrightarrow> (\<forall>r. terminal_status (t_Status (mem c r)) \<longrightarrow>
     t_Status (mem c' r) = t_Status (mem c r) \<and> t_Result (mem c' r) = t_Result (mem c r))"

lemma settled_final: "settled c c' \<Longrightarrow> final c c'"
  by (simp add: settled_def final_def)

lemma final_trans: "final c c' \<Longrightarrow> final c' c'' \<Longrightarrow> final c c''"
  by (simp add: final_def)

lemma moved_final: "moved c c' r s \<Longrightarrow> \<not> terminal_status (t_Status (mem c r)) \<Longrightarrow> final c c'"
  unfolding final_def by (metis movedD(6,7))

text \<open>Everything but the queue, the store, the running agents and the completed tasks is kept.\<close>

definition outer :: "coordinator \<Rightarrow> coordinator \<Rightarrow> bool" where
  "outer c c' \<longleftrightarrow> c_tasks c' = c_tasks c \<and> c_dependencies c' = c_dependencies c \<and> c_next c' = c_next c \<and>
     c_maxParallel c' = c_maxParallel c \<and> c_sealed c' = c_sealed c \<and> c_pendingCallbacks c' = c_pendingCallbacks c \<and>
     c_events c' = c_events c \<and> c_runner c' = c_runner c \<and> c_completion c' = c_completion c \<and>
     c_allCompleteOnce c' = c_allCompleteOnce c \<and> c_onTaskComplete c' = c_onTaskComplete c \<and>
     c_onAllComplete c' = c_onAllComplete c \<and> c_onTaskStart c' = c_onTaskStart c"

lemma outer_inner: "inner c c' \<Longrightarrow> outer c c'"
  by (simp add: outer_def innerD)

lemma outer_trans: "outer c c' \<Longrightarrow> outer c' c'' \<Longrightarrow> outer c c''"
  by (simp add: outer_def)

text \<open>An operation that keeps the invariant and reports \<open>cs\<close>.\<close>

definition ends :: "coordinator \<Rightarrow> completion list \<Rightarrow> coordinator \<Rightarrow> bool" where
  "ends c cs c' \<longleftrightarrow> coord_inv c' {} \<and> reports c cs c' \<and> outer c c' \<and> final c c'"

lemma ends_trans: "ends c cs c' \<Longrightarrow> ends c' cs' c'' \<Longrightarrow> ends c (cs @ cs') c''"
  unfolding ends_def using reports_append outer_trans final_trans by blast

lemma ends_refl: "coord_inv c {} \<Longrightarrow> ends c [] c"
  by (simp add: ends_def reports_Nil outer_def final_def)

lemma resolved_ends: "resolved c (c', cs) \<Longrightarrow> ends c cs c'"
  by (simp add: resolved_def ends_def outer_inner settled_final)

lemma ends_completed: "ends c cs c' \<Longrightarrow> st c d = Some TaskStatusCompleted \<Longrightarrow> st c' d = Some TaskStatusCompleted"
  by (auto simp: ends_def outer_def final_def st_def find_task_def terminal_status_def)

lemma end_task:
  assumes inv: "coord_inv c {}" and r: "find_task c i = Some r" "\<not> terminal_status (t_Status (mem c r))"
    and q: "drops (c_queue c) r q"
    and s: "terminal_status s" "s = TaskStatusCompleted \<Longrightarrow> t_Status (mem c r) = TaskStatusRunning"
    and c': "c_queue c' = q\<lparr>tq_mem := (tq_mem q)(r := (tq_mem q r)\<lparr>t_Status := s, t_Result := Some res\<rparr>)\<rparr>"
      "outer c c'" "c_completed c' = c_completed c @ [i]"
    and run: "run_ok ((st c)(i \<mapsto> s)) (c_running c')"
    and d: "resolveDependents quote c' i = (c'', cs)"
  shows "moved c c' r s" "resolved c' (c'', cs)" "ends c (snapshot c' r res # cs) c''"
proof -
  note D = coord_invD [OF inv]
  have nb: "s \<noteq> TaskStatusBlocked" using s(1) by (auto simp: terminal_status_def)
  have o: "c_tasks c' = c_tasks c" "c_dependencies c' = c_dependencies c" "c_next c' = c_next c"
    using c'(2) by (simp_all add: outer_def)
  note sm = set_status_moved [OF q nb option.distinct(2) c'(1) o]
  show m: "moved c c' r s" by (rule sm(1))
  have inv': "coord_inv c (insert i {})" using inv by (rule coord_mono) simp
  have "coord_inv c' (set (dependents c i))"
    using inv_terminal [OF inv' r m s sm(2) c'(3) run] by simp
  then have "coord_inv c' (set (dependents c' i))"
    unfolding moved_view(4) [OF m r(1) D(2)] .
  then show res: "resolved c' (c'', cs)"
    using resolve_loop_inv [of c' "dependents c' i" quote] d by (simp add: resolveDependents_def)
  have id: "t_ID (mem c' r) = i" using movedD(4) [OF m, of r] find_ID [OF D(2) r(1)] by simp
  have one: "reports c [snapshot c' r res] c'"
    by (rule reports_one) (use id c'(1,3) s(1) in simp_all)
  have "final c c'" using moved_final [OF m r(2)] .
  with resolved_ends [OF res] one show "ends c (snapshot c' r res # cs) c''"
    using c'(2) reports_append [OF one, of cs c''] unfolding ends_def
    by (auto intro: outer_trans final_trans)
qed

section \<open>Starting tasks\<close>

definition distinct_ids :: "(tref \<Rightarrow> string + string) \<Rightarrow> bool" where
  "distinct_ids spawn \<longleftrightarrow> (\<forall>r s a. spawn r = Inr a \<and> spawn s = Inr a \<and> a \<noteq> [] \<longrightarrow> r = s)"

definition fresh_ids :: "(tref \<Rightarrow> string + string) \<Rightarrow> coordinator \<Rightarrow> bool" where
  "fresh_ids spawn c \<longleftrightarrow> distinct_ids spawn \<and>
     (\<forall>r a. spawn r = Inr a \<and> a \<in> fst ` set (c_running c) \<longrightarrow> a = [] \<or> t_Status (mem c r) = TaskStatusRunning)"

lemma fresh_settled:
  "fresh_ids spawn c \<Longrightarrow> settled c c' \<Longrightarrow> c_running c' = c_running c \<Longrightarrow> fresh_ids spawn c'"
  unfolding fresh_ids_def settled_def by metis

text \<open>One round starts at most the popped task, which was ready, or fails it and its dependents.\<close>

definition round_ok :: "(tref \<Rightarrow> string + string) \<Rightarrow> coordinator \<Rightarrow> coordinator \<times> ctask list \<times> completion list \<Rightarrow> bool" where
  "round_ok spawn c x \<longleftrightarrow> (case x of (c', started, failed) \<Rightarrow>
     ends c failed c' \<and> fresh_ids spawn c' \<and> settled c c' \<and>
     length (c_running c') = length (c_running c) + length started \<and>
     (\<forall>t \<in> set started. t_Status t = TaskStatusRunning \<and>
        (\<forall>d \<in> set (t_Dependencies t). st c' d = Some TaskStatusCompleted)))"

lemma popped:
  assumes inv: "coord_inv c {}" and pop: "PopTask (c_queue c) = (q, Some r)"
  shows "\<exists>i. find_task c i = Some r \<and> t_ID (mem c r) = i" "t_Status (mem c r) = TaskStatusReady" "drops (c_queue c) r q"
proof -
  note D = coord_invD [OF inv]
  have rm: "removes (c_queue c) r q" using PopTask_facts [OF D(1) pop] by simp
  then show "drops (c_queue c) r q" by (rule drops_removes [OF D(1)])
  have mem: "r \<in> set (tq_items (c_queue c))" using rm by (simp add: removes_def)
  then have f: "find_task c (t_ID (mem c r)) = Some r" using D(2) by (simp add: store_ok_def)
  then show "\<exists>i. find_task c i = Some r \<and> t_ID (mem c r) = i" by blast
  have "t_ID (mem c r) \<in> queued c" using mem by (auto simp: queued_def)
  then have "st c (t_ID (mem c r)) = Some TaskStatusReady" using D(3) by (simp add: graph_inv_def)
  then show "t_Status (mem c r) = TaskStatusReady" using f by (simp add: st_def)
qed

lemma update_fresh: "k \<notin> fst ` set m \<Longrightarrow> AList.update k v m = m @ [(k, v)]"
  by (induction m) auto

lemma startTask_cases:
  assumes "startTask spawn c r = (c', x)"
  obtains (Fail) res where "x = Some res" "c' = finish_task c r TaskStatusFailed res"
  | (Run) a where "x = None" "spawn r = Inr a" "a \<noteq> []"
      "c' = c\<lparr>c_running := AList.update a (t_ID (mem c r)) (c_running c)\<rparr>"
  using assms by (auto simp: startTask_def fail_start_def Let_def split: if_splits sum.splits)

lemma start_failed:
  assumes inv: "coord_inv c {}" and pop: "PopTask (c_queue c) = (q, Some r)" and fresh: "fresh_ids spawn c"
    and c1: "c1 = finish_task (running_task (c\<lparr>c_queue := q\<rparr>) r) r TaskStatusFailed res"
    and d: "resolveDependents quote c1 (t_ID (mem c1 r)) = (c', cs)"
  shows "round_ok spawn c (c', [], snapshot c1 r res # cs)"
proof -
  note P = popped [OF inv pop]
  obtain i where i: "find_task c i = Some r" "t_ID (mem c r) = i" using P(1) by blast
  have nt: "\<not> terminal_status (t_Status (mem c r))" using P(2) by (simp add: terminal_status_def)
  have eq: "t_ID (tq_mem q r) = i" using unindexed_fields(1) P(3) i(2) by (metis drops_def)
  have id: "t_ID (mem c1 r) = i" by (simp add: c1 finish_task_fields running_task_def put_task_def eq)
  have queue: "c_queue c1 = q\<lparr>tq_mem := (tq_mem q)(r := (tq_mem q r)\<lparr>t_Status := TaskStatusFailed, t_Result := Some res\<rparr>)\<rparr>"
    by (simp add: c1 finish_queue running_task_def put_task_def)
  have o: "outer c c1" "c_running c1 = c_running c"
    by (simp_all add: c1 outer_def finish_task_def running_task_def put_task_def mark_completed_def)
  have cmp: "c_completed c1 = c_completed c @ [i]"
    using not_completed [OF inv i(1) nt] by (simp add: c1 finish_queue running_task_def put_task_def eq)
  have run: "run_ok ((st c)(i \<mapsto> TaskStatusFailed)) (c_running c1)"
    unfolding o by (rule run_ok_keep [OF inv_run [OF inv] st_find [OF i(1)]]) (simp_all add: P(2))
  have tf: "terminal_status TaskStatusFailed" by (simp add: terminal_status_def)
  note E = end_task [OF inv i(1) nt P(3) tf _ queue o(1) cmp run d [unfolded id], simplified]
  have set1: "settled c c1" using moved_settled [OF E(1)] P(2) nt by simp
  have res: "inner c1 c'" "settled c1 c'" using E(2) by (simp_all add: resolved_def)
  have "settled c c'" using settled_trans [OF set1 res(2)] .
  moreover have same: "c_running c' = c_running c" using innerD(4) [OF res(1)] o(2) by simp
  ultimately show ?thesis
    using E(3) fresh_settled [OF fresh] by (simp add: round_ok_def)
qed

lemma start_running:
  assumes inv: "coord_inv c {}" and pop: "PopTask (c_queue c) = (q, Some r)" and fresh: "fresh_ids spawn c"
    and a: "spawn r = Inr a" "a \<noteq> []"
    and c': "c' = (running_task (c\<lparr>c_queue := q\<rparr>) r)\<lparr>c_running := AList.update a (t_ID (tq_mem q r)) (c_running c)\<rparr>"
  shows "round_ok spawn c (c', [cloneCoordinatedTask (mem c' r)], [])"
proof -
  note P = popped [OF inv pop] and D = coord_invD [OF inv]
  obtain i where i: "find_task c i = Some r" "t_ID (mem c r) = i" using P(1) by blast
  have eq: "t_ID (tq_mem q r) = i" using unindexed_fields(1) P(3) i(2) by (metis drops_def)
  have new: "a \<notin> fst ` set (c_running c)" using fresh a P(2) by (force simp: fresh_ids_def)
  then have run: "c_running c' = c_running c @ [(a, i)]"
    by (simp add: c' eq update_fresh)
  have queue: "c_queue c' = q\<lparr>tq_mem := (tq_mem q)(r := (tq_mem q r)\<lparr>t_Status := TaskStatusRunning, t_Result := t_Result (tq_mem q r)\<rparr>)\<rparr>"
    by (simp add: c' running_task_def put_task_def)
  have o: "outer c c'" "c_completed c' = c_completed c"
    by (simp_all add: c' outer_def running_task_def put_task_def)
  have m: "moved c c' r TaskStatusRunning" and items: "set (tq_items (c_queue c')) = set (tq_items (c_queue c)) - {r}"
    using o(1) by (intro set_status_moved [OF P(3) _ _ queue]; simp add: terminal_status_def outer_def)+
  note v = moved_view [OF m i(1) D(2)]
  have ready: "st c i = Some TaskStatusReady" using st_find [OF i(1)] P(2) by simp
  have "coord_inv c' {}"
    unfolding coord_inv_def v run o(2) queued_drop [OF D(2) i(1) m items]
    using graph_run [OF D(3) ready new] movedD(9) [OF m] moved_store [OF m i(1) D(2)] by simp
  moreover have set: "settled c c'" using moved_settled [OF m] P(2) by (simp add: terminal_status_def)
  moreover have "fresh_ids spawn c'"
    unfolding fresh_ids_def
  proof (intro conjI allI impI)
    show ids: "distinct_ids spawn" using fresh by (simp add: fresh_ids_def)
    fix x b assume b: "spawn x = Inr b \<and> b \<in> fst ` set (c_running c')"
    show "b = [] \<or> t_Status (mem c' x) = TaskStatusRunning"
    proof (cases "b = a")
      case True
      then have "x = r" using ids a b unfolding distinct_ids_def by blast
      then show ?thesis using movedD(6) [OF m] by simp
    next
      case False
      then have "b = [] \<or> t_Status (mem c x) = TaskStatusRunning" using fresh b by (auto simp: fresh_ids_def run)
      then show ?thesis using set by (auto simp: settled_def)
    qed
  qed
  moreover have "st c d = Some TaskStatusCompleted" if "d \<in> set (t_Dependencies (mem c r))" for d
    using D(3) met_okD [of "st c" "deps_of c" i TaskStatusReady d] ready that
    by (simp add: graph_inv_def launched_def deps_find [OF i(1)])
  moreover have "((st c)(i \<mapsto> TaskStatusRunning)) d = Some TaskStatusCompleted" if "st c d = Some TaskStatusCompleted" for d
    using that ready by auto
  ultimately show ?thesis
    using o movedD(5,6) [OF m, of r]
    by (simp add: round_ok_def v ends_def reports_Nil settled_final cloneCoordinatedTask_def run)
qed

lemma start_round_inv:
  assumes inv: "coord_inv c {}" and pop: "PopTask (c_queue c) = (q, Some r)" and fresh: "fresh_ids spawn c"
  shows "round_ok spawn c (start_round quote spawn (c\<lparr>c_queue := q\<rparr>) r)"
proof -
  let ?c = "c\<lparr>c_queue := q\<rparr>"
  have "t_Status (tq_mem q r) = TaskStatusReady"
    using popped(2,3) [OF inv pop] unindexed_fields(3) by (metis drops_def)
  then have ready: "t_Status (mem ?c r) = TaskStatusReady" by simp
  obtain c1 x where s: "startTask spawn (running_task ?c r) r = (c1, x)" by force
  then show ?thesis
  proof (cases rule: startTask_cases)
    case (Fail res)
    obtain c' cs where d: "resolveDependents quote c1 (t_ID (mem c1 r)) = (c', cs)" by force
    show ?thesis
      using start_failed [OF inv pop fresh Fail(2) d] s ready Fail(1) d by (simp add: start_round_def Let_def)
  next
    case (Run a)
    have "c1 = (running_task ?c r)\<lparr>c_running := AList.update a (t_ID (tq_mem q r)) (c_running c)\<rparr>"
      using Run(4) by (simp add: running_task_def put_task_def)
    from start_running [OF inv pop fresh Run(2,3) this] s ready Run(1) show ?thesis
      by (simp add: start_round_def)
  qed
qed

lemma round_ok_compose:
  assumes "round_ok spawn c (c1, xs, fs)" "round_ok spawn c1 (c2, ys, gs)"
  shows "round_ok spawn c (c2, xs @ ys, fs @ gs)"
proof -
  have E: "ends c fs c1" "ends c1 gs c2" "settled c c1" "settled c1 c2" using assms by (simp_all add: round_ok_def)
  have "ends c (fs @ gs) c2" "settled c c2" using ends_trans [OF E(1,2)] settled_trans [OF E(3,4)] .
  moreover have "st c2 d = Some TaskStatusCompleted" if "st c1 d = Some TaskStatusCompleted" for d
    by (rule ends_completed [OF E(2) that])
  moreover have "fresh_ids spawn c2" "length (c_running c2) = length (c_running c) + length (xs @ ys)"
    using assms by (simp_all add: round_ok_def)
  moreover have "\<forall>t \<in> set xs. t_Status t = TaskStatusRunning" "\<forall>t \<in> set ys. t_Status t = TaskStatusRunning"
    using assms by (simp_all add: round_ok_def)
  moreover have "\<forall>t \<in> set xs. \<forall>d \<in> set (t_Dependencies t). st c1 d = Some TaskStatusCompleted"
    "\<forall>t \<in> set ys. \<forall>d \<in> set (t_Dependencies t). st c2 d = Some TaskStatusCompleted"
    using assms by (simp_all add: round_ok_def)
  ultimately show ?thesis unfolding round_ok_def prod.case set_append by blast
qed

lemma start_loop_inv:
  assumes "coord_inv c {}" "fresh_ids spawn c"
  shows "round_ok spawn c (start_loop quote spawn c slots)"
  using assms
proof (induction quote spawn c slots rule: start_loop.induct)
  case (1 quote spawn c slots)
  have stop: "round_ok spawn c (c, [], [])"
    using 1(2,3) by (simp add: round_ok_def ends_refl settled_refl)
  show ?case
  proof (cases "slots \<le> 0 \<or> snd (PopTask (c_queue c)) = None")
    case True
    then have "slots \<le> 0 \<or> PopTask (c_queue c) = (c_queue c, None)"
      using PopTask_facts [OF coord_invD(1) [OF 1(2)], of "fst (PopTask (c_queue c))" None] by (cases "PopTask (c_queue c)") auto
    then show ?thesis using stop by (simp add: start_loop_stop)
  next
    case False
    then obtain q r where pop: "PopTask (c_queue c) = (q, Some r)" by (cases "PopTask (c_queue c)") auto
    obtain c1 xs fs where round: "start_round quote spawn (c\<lparr>c_queue := q\<rparr>) r = (c1, xs, fs)"
      by (cases "start_round quote spawn (c\<lparr>c_queue := q\<rparr>) r") auto
    have ok: "round_ok spawn c (c1, xs, fs)" using start_round_inv [OF 1(2) pop 1(3), of quote] round by simp
    then have "coord_inv c1 {}" "fresh_ids spawn c1" by (simp_all add: round_ok_def ends_def)
    then have "round_ok spawn c1 (start_loop quote spawn c1 (slots - int (length xs)))"
      using 1(1) [of q "Some r" r c1 "(xs, fs)" xs fs] False pop round by simp
    then show ?thesis
      using round_ok_compose [OF ok] start_loop_step [OF _ pop round] False
      by (cases "start_loop quote spawn c1 (slots - int (length xs))") simp
  qed
qed

section \<open>Completions\<close>

lemma coord_inv_cong:
  assumes "c_queue c' = c_queue c" "c_tasks c' = c_tasks c" "c_dependencies c' = c_dependencies c"
    "c_next c' = c_next c" "c_running c' = c_running c" "c_completed c' = c_completed c"
  shows "coord_inv c' X = coord_inv c X"
proof -
  have f: "find_task c' = find_task c" by (simp add: find_task_def fun_eq_iff assms(2))
  have "st c' = st c" "deps_of c' = deps_of c" "created c' = created c" "dependents c' = dependents c" "queued c' = queued c"
    by (simp_all add: st_def deps_of_def created_def dependents_def queued_def f fun_eq_iff assms split: option.split)
  moreover have "blocked_count c' = blocked_count c" by (simp add: blocked_count_def assms)
  ultimately show ?thesis
    by (simp add: coord_inv_def store_ok_def task_ok_def f assms)
qed

lemma running_task_found:
  assumes "coord_inv c X" "(a, i) \<in> set (c_running c)"
  shows "\<exists>r. find_task c i = Some r \<and> t_Status (mem c r) = TaskStatusRunning"
proof -
  have "i \<in> snd ` set (c_running c)" using assms(2) by force
  then have "st c i = Some TaskStatusRunning" using inv_run [OF assms(1)] by (simp add: run_ok_def)
  then show ?thesis by (simp add: st_ex)
qed

lemma mark_fields:
  "c_queue (mark_completed c i) = c_queue c" "c_running (mark_completed c i) = c_running c" "outer c (mark_completed c i)"
  "c_completed (mark_completed c i) = (if i \<in> set (c_completed c) then c_completed c else c_completed c @ [i])"
  by (simp_all add: mark_completed_def outer_def)

lemma commit_inv:
  assumes inv: "coord_inv c {}" and run: "(a, i) \<in> set (c_running c)" and r: "find_task c i = Some r"
    and com: "commit_agent quote c a i r res = (c', cs)"
  shows "ends c cs c'" "c_running c' = AList.delete a (c_running c)"
proof -
  define s where "s = (if AgentResult_IsSuccess res then TaskStatusCompleted else TaskStatusFailed)"
  define c1 where "c1 = (mark_completed (put_task c r ((mem c r)\<lparr>t_Status := s, t_Result := Some res\<rparr>)) i)
    \<lparr>c_running := AList.delete a (c_running c)\<rparr>"
  obtain cs1 where d: "resolveDependents quote c1 i = (c', cs1)" and cs: "cs = snapshot c1 r res # cs1"
    using com by (auto simp: commit_agent_def Let_def s_def c1_def mark_fields put_task_def split: prod.splits)
  have running: "t_Status (mem c r) = TaskStatusRunning" using running_task_found [OF inv run] r by simp
  have nt: "\<not> terminal_status (t_Status (mem c r))" by (simp add: running terminal_status_def)
  have out: "drops (c_queue c) r (c_queue c)"
    using inv_not_queued(1) [OF inv r] running coord_invD(1) [OF inv] by (simp add: drops_refl)
  have s: "terminal_status s" "s \<noteq> TaskStatusRunning" by (simp_all add: s_def terminal_status_def)
  have cmp: "c_completed c1 = c_completed c @ [i]"
    using not_completed [OF inv r nt] by (simp add: c1_def mark_fields put_task_def)
  have q: "c_queue c1 = (c_queue c)\<lparr>tq_mem := (mem c)(r := (mem c r)\<lparr>t_Status := s, t_Result := Some res\<rparr>)\<rparr>"
    by (simp add: c1_def mark_fields put_task_def)
  have o: "outer c c1" by (simp add: c1_def outer_def mark_completed_def put_task_def)
  have "run_ok ((st c)(i \<mapsto> s)) (c_running c1)"
    using run_ok_remove [OF inv_run [OF inv] run s(2)] by (simp add: c1_def)
  note E = end_task [OF inv r nt out s(1) running q o cmp this d]
  show "ends c cs c'" using E(3) by (simp add: cs)
  have "inner c1 c'" using E(2) by (simp add: resolved_def)
  then show "c_running c' = AList.delete a (c_running c)" by (simp add: innerD c1_def)
qed

text \<open>An operation registers its report before it releases the lock.\<close>

definition registers :: "coordinator \<Rightarrow> completion list \<Rightarrow> coordinator \<Rightarrow> bool" where
  "registers c cs c' \<longleftrightarrow>
     (\<exists>c1. ends c cs c1 \<and> c' = c1\<lparr>c_pendingCallbacks := c_pendingCallbacks c1 + int (length cs)\<rparr>)"

lemma registers_add: "ends c cs c1 \<Longrightarrow> add_pending (c1, cs) = (c', cs') \<Longrightarrow> registers c cs' c'"
  by (auto simp: registers_def add_pending_def)

lemma registers_refl: "coord_inv c {} \<Longrightarrow> registers c [] c"
  using ends_refl by (force simp: registers_def)

lemma handle_inv:
  assumes inv: "coord_inv c {}" and h: "handleAgentCompletionResult quote c a result = (c', cs)"
  shows "registers c cs c'"
proof (cases "\<exists>i r res. map_of (c_running c) a = Some i \<and> result = Some res \<and> ar_Completed res \<and> find_task c i = Some r")
  case True
  then obtain i r res where *: "map_of (c_running c) a = Some i" "result = Some res" "ar_Completed res" "find_task c i = Some r"
    by blast
  obtain c1 cs1 where com: "commit_agent quote c a i r res = (c1, cs1)" by force
  have "ends c cs1 c1" using commit_inv(1) [OF inv map_of_SomeD [OF *(1)] *(4) com] .
  then show ?thesis
    using h * com by (auto simp: handleAgentCompletionResult_def intro: registers_add)
next
  case False
  then have "(c', cs) = (c, [])"
    using h by (auto simp: handleAgentCompletionResult_def split: option.splits if_splits)
  then show ?thesis using registers_refl [OF inv] by simp
qed

lemma check_loop_inv:
  "coord_inv c {} \<Longrightarrow> distinct (map fst cas) \<Longrightarrow> (\<And>a i res. (a, i, res) \<in> set cas \<Longrightarrow> (a, i) \<in> set (c_running c)) \<Longrightarrow>
   check_loop quote c cas = (c', cs) \<Longrightarrow> ends c cs c'"
proof (induction cas arbitrary: c cs)
  case Nil
  then show ?case by (simp add: ends_refl)
next
  case (Cons x cas)
  obtain a i res where x: "x = (a, i, res)" by (cases x)
  have run: "(a, i) \<in> set (c_running c)" using Cons.prems(3) [of a i res] x by simp
  obtain r where r: "find_task c i = Some r" using running_task_found [OF Cons.prems(1) run] by blast
  obtain c1 cs1 where com: "commit_agent quote c a i r res = (c1, cs1)" by force
  note C = commit_inv [OF Cons.prems(1) run r com]
  obtain cs2 where l: "check_loop quote c1 cas = (c', cs2)" "cs = cs1 @ cs2"
    using Cons.prems(4) by (auto simp: x r com split: prod.splits)
  have "(b, j) \<in> set (c_running c1)" if "(b, j, res') \<in> set cas" for b j res'
    using Cons.prems(2,3) that x unfolding C(2) AList.delete_eq by (force simp: image_iff)
  with C(1) Cons.prems(2) l(1) have "ends c1 cs2 c'"
    by (intro Cons.IH) (auto simp: ends_def)
  with C(1) show ?case by (simp add: l(2) ends_trans)
qed

lemma finished_agents_facts:
  assumes "run_ok S (c_running c)"
  shows "distinct (map fst (finished_agents published c))"
    "(a, i, res) \<in> set (finished_agents published c) \<Longrightarrow> (a, i) \<in> set (c_running c)"
proof -
  have "map fst (finished_agents published c) = filter (\<lambda>a. published a \<noteq> None) (map fst (c_running c))"
    unfolding finished_agents_def
  proof (induction "c_running c" arbitrary: c)
    case (Cons x xs)
    have "map fst (List.map_filter (\<lambda>(a, i). map_option (\<lambda>res. (a, i, res)) (published a)) xs) =
        filter (\<lambda>a. published a \<noteq> None) (map fst xs)"
      using Cons(1) [of "c\<lparr>c_running := xs\<rparr>"] by simp
    then show ?case unfolding Cons(2) [symmetric] by (cases x) (auto simp: map_filter_simps split: option.split)
  qed (simp add: map_filter_simps)
  with assms show "distinct (map fst (finished_agents published c))" by (simp add: run_ok_def)
  show "(a, i, res) \<in> set (finished_agents published c) \<Longrightarrow> (a, i) \<in> set (c_running c)"
    by (auto simp: finished_agents_def List.map_filter_def)
qed

lemma check_inv:
  assumes inv: "coord_inv c {}" and h: "checkCompletedAgents quote published c = (c', cs)"
  shows "registers c cs c'"
proof -
  obtain c1 cs1 where l: "check_loop quote c (finished_agents published c) = (c1, cs1)" by force
  have "ends c cs1 c1"
    using finished_agents_facts [OF inv_run [OF inv]] by (intro check_loop_inv [OF inv _ _ l]) blast+
  then show ?thesis using h by (auto simp: checkCompletedAgents_def l intro: registers_add)
qed

section \<open>Cancelling\<close>

lemma RemoveTask_drops:
  assumes inv: "coord_inv c X" and r: "find_task c i = Some r"
  shows "drops (c_queue c) r (fst (RemoveTask (c_queue c) i))"
proof -
  note D = coord_invD [OF inv] and id = find_ID [OF coord_invD(2) [OF inv] r]
  obtain q x where rm: "RemoveTask (c_queue c) i = (q, x)" by force
  note F = RemoveTask_facts [OF D(1) rm]
  show ?thesis
  proof (cases x)
    case None
    then have "q = c_queue c" "r \<notin> set (tq_items (c_queue c))" using F id by auto
    then show ?thesis using drops_refl [OF D(1)] by (simp add: rm)
  next
    case (Some y)
    then have y: "t_ID (mem c y) = i" "removes (c_queue c) y q" using F by auto
    then have "find_task c i = Some y" using D(2) by (auto simp: store_ok_def removes_def)
    then have "y = r" using r by simp
    then show ?thesis using drops_removes [OF D(1) y(2)] by (simp add: rm)
  qed
qed

lemma cancel_waiting:
  assumes inv: "coord_inv c {}" and r: "find_task c i = Some r" "\<not> terminal_status (t_Status (mem c r))"
    and nr: "t_Status (mem c r) \<noteq> TaskStatusRunning"
    and q: "q = fst (RemoveTask (c_queue c) i)"
    and c1: "c1 = mark_completed (put_task (c\<lparr>c_queue := q\<rparr>) r
        ((tq_mem q r)\<lparr>t_Status := TaskStatusFailed, t_Result := Some res\<rparr>)) i"
    and d: "resolveDependents quote c1 i = (c', cs)"
  shows "ends c (snapshot c1 r res # cs) c'"
proof -
  have tf: "terminal_status TaskStatusFailed" by (simp add: terminal_status_def)
  have dr: "drops (c_queue c) r q" unfolding q by (rule RemoveTask_drops [OF inv r(1)])
  have queue: "c_queue c1 = q\<lparr>tq_mem := (tq_mem q)(r := (tq_mem q r)\<lparr>t_Status := TaskStatusFailed, t_Result := Some res\<rparr>)\<rparr>"
    by (simp add: c1 mark_fields put_task_def)
  have o: "outer c c1" "c_running c1 = c_running c" by (simp_all add: c1 outer_def mark_completed_def put_task_def)
  have cmp: "c_completed c1 = c_completed c @ [i]"
    using not_completed [OF inv r] by (simp add: c1 mark_fields put_task_def)
  have run: "run_ok ((st c)(i \<mapsto> TaskStatusFailed)) (c_running c1)"
    unfolding o by (rule run_ok_keep [OF inv_run [OF inv] st_find [OF r(1)]]) (simp_all add: nr)
  show ?thesis by (rule end_task(3) [OF inv r dr tf _ queue o(1) cmp run d]) simp
qed

lemma cancel_inv:
  assumes inv: "coord_inv c {}" and h: "CancelTask quote published cancel c i = (c', cs, err)"
  shows "registers c cs c'"
proof (cases "\<exists>r. find_task c i = Some r \<and> \<not> terminal_status (t_Status (mem c r))")
  case False
  then have "(c', cs) = (c, [])" using h by (auto simp: CancelTask_def split: option.splits)
  then show ?thesis using registers_refl [OF inv] by simp
next
  case True
  then obtain r where r: "find_task c i = Some r" "\<not> terminal_status (t_Status (mem c r))" by blast
  show ?thesis
  proof (cases "List.find (\<lambda>(a, t). t = i) (c_running c)")
    case (Some x)
    then obtain a where x: "x = (a, i)" "(a, i) \<in> set (c_running c)"
      by (cases x) (auto simp: find_Some_iff, metis nth_mem)
    show ?thesis
    proof (cases "c_runner c \<and> published a \<noteq> None")
      case True
      then obtain res where p: "published a = Some res" by blast
      obtain c1 cs1 where com: "commit_agent quote c a i r res = (c1, cs1)" by force
      note E = commit_inv(1) [OF inv x(2) r(1) com]
      have "add_pending (c1, cs1) = (c', cs)"
        using h r Some x True p com by (auto simp: CancelTask_def split: prod.splits)
      then show ?thesis by (rule registers_add [OF E])
    next
      case False
      then have "(c', cs) = (c, [])"
        using h r Some x by (auto simp: CancelTask_def split: if_splits option.splits)
      then show ?thesis using registers_refl [OF inv] by simp
    qed
  next
    case None
    have "i \<notin> snd ` set (c_running c)" using None by (force simp: find_None_iff)
    then have nr: "t_Status (mem c r) \<noteq> TaskStatusRunning"
      using inv_run [OF inv] st_find [OF r(1)] by (auto simp: run_ok_def)
    define q where "q = fst (RemoveTask (c_queue c) i)"
    define res where "res = cancelled_result (t_AgentType (tq_mem q r))"
    define c1 where "c1 = mark_completed (put_task (c\<lparr>c_queue := q\<rparr>) r
        ((tq_mem q r)\<lparr>t_Status := TaskStatusFailed, t_Result := Some res\<rparr>)) i"
    obtain c2 cs2 where d: "resolveDependents quote c1 i = (c2, cs2)" by force
    note E = cancel_waiting [OF inv r nr q_def c1_def d]
    have "add_pending (c2, snapshot c1 r res # cs2) = (c', cs)"
      using h r None d by (simp add: CancelTask_def q_def [symmetric] res_def [symmetric] c1_def [symmetric] Let_def
          split: prod.splits)
    then show ?thesis by (rule registers_add [OF E])
  qed
qed

section \<open>Adding a task\<close>

lemma queue_inv_put_out:
  assumes "queue_inv q" "r \<notin> set (tq_items q)"
  shows "queue_inv (q\<lparr>tq_mem := (tq_mem q)(r := t)\<rparr>)" (is "queue_inv ?q")
proof -
  have eq: "tq_mem ?q x = tq_mem q x" "rank ?q x = rank q x" if "x \<in> set (tq_items q)" for x
    using that assms(2) by (auto simp: rank_def)
  have ne: "tq_items q ! m \<noteq> r" if "m < length (tq_items q)" for m using that assms(2) by (metis nth_mem)
  have "positions ?q" using assms(1) ne by (simp add: queue_inv_def positions_def)
  moreover have "hq.ordered ?q (length (tq_items q))"
    unfolding heap_upto_def
  proof (intro allI impI)
    fix m assume m: "0 < m \<and> m < length (tq_items q)"
    then have "parent m < length (tq_items q)" using parent_less [of m] by simp
    then show "rank ?q (tq_items ?q ! parent m) \<le> rank ?q (tq_items ?q ! m)"
      using m assms(1) by (simp add: eq(2) queue_inv_def heap_upto_def)
  qed
  moreover have "inj_on (\<lambda>x. t_queueSequence (tq_mem ?q x)) (set (tq_items q))"
    using assms by (auto simp: queue_inv_def inj_on_def)
  moreover have "\<forall>k x. map_of (tq_byID q) k = Some x \<longleftrightarrow> x \<in> set (tq_items q) \<and> t_ID (tq_mem ?q x) = k"
    using assms unfolding queue_inv_def by (metis eq(1))
  ultimately show ?thesis
    using assms unfolding queue_inv_def by auto
qed

lemma add_dependents_lookup:
  "set (case map_of (add_dependents m i ds) d of None \<Rightarrow> [] | Some xs \<Rightarrow> xs) =
   set (case map_of m d of None \<Rightarrow> [] | Some xs \<Rightarrow> xs) \<union> (if d \<in> set ds then {i} else {})"
  unfolding add_dependents_def by (induction ds arbitrary: m) (auto split: option.split)

text \<open>A state that has one more task than \<open>c\<close>.\<close>

definition extends :: "coordinator \<Rightarrow> string \<Rightarrow> string list \<Rightarrow> task_status \<Rightarrow> coordinator \<Rightarrow> bool" where
  "extends c i ds s c' \<longleftrightarrow>
     c_tasks c' = c_tasks c @ [(i, c_next c)] \<and> c_dependencies c' = add_dependents (c_dependencies c) i ds \<and>
     c_next c' = Suc (c_next c) \<and> c_running c' = c_running c \<and>
     (\<forall>x. x \<noteq> c_next c \<longrightarrow> t_ID (mem c' x) = t_ID (mem c x) \<and> t_Dependencies (mem c' x) = t_Dependencies (mem c x) \<and>
        t_Status (mem c' x) = t_Status (mem c x) \<and> t_Result (mem c' x) = t_Result (mem c x)) \<and>
     t_ID (mem c' (c_next c)) = i \<and> t_Dependencies (mem c' (c_next c)) = ds \<and> t_Status (mem c' (c_next c)) = s \<and>
     (terminal_status s \<longrightarrow> t_Result (mem c' (c_next c)) \<noteq> None)"

lemma extendsD:
  assumes "extends c i ds s c'"
  shows "c_tasks c' = c_tasks c @ [(i, c_next c)]" "c_dependencies c' = add_dependents (c_dependencies c) i ds"
    "c_next c' = Suc (c_next c)" "c_running c' = c_running c"
    "x \<noteq> c_next c \<Longrightarrow> t_ID (mem c' x) = t_ID (mem c x)"
    "x \<noteq> c_next c \<Longrightarrow> t_Dependencies (mem c' x) = t_Dependencies (mem c x)"
    "x \<noteq> c_next c \<Longrightarrow> t_Status (mem c' x) = t_Status (mem c x)"
    "x \<noteq> c_next c \<Longrightarrow> t_Result (mem c' x) = t_Result (mem c x)"
    "t_ID (mem c' (c_next c)) = i" "t_Dependencies (mem c' (c_next c)) = ds" "t_Status (mem c' (c_next c)) = s"
    "terminal_status s \<Longrightarrow> t_Result (mem c' (c_next c)) \<noteq> None"
  using assms unfolding extends_def by blast+

lemma extends_view:
  assumes e: "extends c i ds s c'" and new: "find_task c i = None" and ok: "store_ok c"
  shows "find_task c' = (find_task c)(i \<mapsto> c_next c)" "st c' = (st c)(i \<mapsto> s)" "deps_of c' = (deps_of c)(i := ds)"
    "created c' = (created c)(i := c_next c)"
    "set (dependents c' d) = set (dependents c d) \<union> (if d \<in> set ds then {i} else {})"
proof -
  note E = extendsD [OF e]
  show f: "find_task c' = (find_task c)(i \<mapsto> c_next c)"
    using new by (auto simp: find_task_def fun_eq_iff E(1) map_add_def split: option.splits)
  have old: "x \<noteq> c_next c" if "find_task c j = Some x" for j x
    using store_okD [OF ok that] by (auto simp: task_ok_def)
  show "st c' = (st c)(i \<mapsto> s)"
  proof
    fix j show "st c' j = ((st c)(i \<mapsto> s)) j"
      using old [of j] E(7) by (cases "find_task c j") (auto simp: st_def f E(11))
  qed
  show "deps_of c' = (deps_of c)(i := ds)"
  proof
    fix j show "deps_of c' j = ((deps_of c)(i := ds)) j"
      using old [of j] E(6) by (cases "find_task c j") (auto simp: deps_of_def f E(10))
  qed
  show "created c' = (created c)(i := c_next c)" by (simp add: created_def f fun_eq_iff)
  show "set (dependents c' d) = set (dependents c d) \<union> (if d \<in> set ds then {i} else {})"
    unfolding dependents_def E(2) by (rule add_dependents_lookup)
qed

lemma extends_blocked:
  assumes "extends c i ds s c'" "store_ok c"
  shows "blocked_count c' = blocked_count c + (if s = TaskStatusBlocked then 1 else 0)"
proof -
  note E = extendsD [OF assms(1)]
  have "x \<noteq> c_next c" if "(j, x) \<in> set (c_tasks c)" for j x
    using assms(2) that unfolding store_ok_def find_task_def task_ok_def
    by (metis map_of_is_SomeI nat_neq_iff)
  then have "filter (\<lambda>(j, x). t_Status (mem c' x) = TaskStatusBlocked) (c_tasks c) =
      filter (\<lambda>(j, x). t_Status (mem c x) = TaskStatusBlocked) (c_tasks c)"
    by (intro filter_cong) (auto simp: E(7))
  then show ?thesis by (simp add: blocked_count_def E(1,11))
qed

lemma extends_store:
  assumes e: "extends c i ds s c'" and new: "find_task c i = None" "i \<noteq> []" "c_next c + 1 < 2 ^ 64" and ok: "store_ok c"
    and items: "set (tq_items (c_queue c')) = set (tq_items (c_queue c)) \<union> (if s = TaskStatusReady then {c_next c} else {})"
    and seq: "tq_nextSequence (c_queue c') = tq_nextSequence (c_queue c) + (if s = TaskStatusReady then 1 else 0)"
  shows "store_ok c'"
  unfolding store_ok_def
proof (intro conjI allI impI ballI)
  note E = extendsD [OF e] and v = extends_view [OF e new(1) ok]
  fix j x
  show "task_ok c' j x" if "find_task c' j = Some x"
  proof (cases "j = i")
    case True
    then have x: "x = c_next c" using that by (simp add: v(1))
    show ?thesis using True new(2) E(12) unfolding x by (simp add: task_ok_def E(3,9,11))
  next
    case False
    then have "task_ok c j x" using that store_okD [OF ok] by (simp add: v(1))
    then show ?thesis using E(5,7,8) [of x] by (auto simp: task_ok_def E(3))
  qed
  show "find_task c' (t_ID (mem c' x)) = Some x" if x: "x \<in> set (tq_items (c_queue c'))"
  proof (cases "x = c_next c")
    case False
    then have f: "find_task c (t_ID (mem c x)) = Some x" using x ok by (auto simp: items store_ok_def split: if_splits)
    then have "t_ID (mem c x) \<noteq> i" using new(1) by auto
    with f False show ?thesis by (simp add: v(1) E(5))
  qed (simp add: v(1) E(9))
  show "distinct (map fst (c_tasks c'))"
    using ok new(1) by (auto simp: E(1) store_ok_def find_task_def map_of_eq_None_iff)
  show "c_next c' < 2 ^ 64" "tq_nextSequence (c_queue c') + blocked_count c' \<le> c_next c'"
    using ok new(3) seq extends_blocked [OF e ok] by (simp_all add: E(3) store_ok_def)
qed

lemma add_inv:
  assumes inv: "coord_inv c {}" and e: "extends c i ds s c'"
    and new: "find_task c i = None" "i \<noteq> []" "c_next c + 1 < 2 ^ 64"
    and q: "queue_inv (c_queue c')"
    and items: "set (tq_items (c_queue c')) = set (tq_items (c_queue c)) \<union> (if s = TaskStatusReady then {c_next c} else {})"
    and seq: "tq_nextSequence (c_queue c') = tq_nextSequence (c_queue c) + (if s = TaskStatusReady then 1 else 0)"
    and kind: "s = TaskStatusReady \<and> (\<forall>d \<in> set ds. st c d = Some TaskStatusCompleted) \<and> c_completed c' = c_completed c \<or>
      s = TaskStatusBlocked \<and> waits (st c) ds \<and> (\<forall>d \<in> set ds. st c d \<noteq> None) \<and> c_completed c' = c_completed c \<or>
      s = TaskStatusFailed \<and> c_completed c' = c_completed c @ [i]"
  shows "coord_inv c' {}"
proof -
  note D = coord_invD [OF inv] and E = extendsD [OF e] and v = extends_view [OF e new(1) coord_invD(2) [OF inv]]
  have below: "x \<noteq> c_next c" if "x \<in> set (tq_items (c_queue c))" for x
    using D(2) that unfolding store_ok_def task_ok_def by (metis nat_neq_iff)
  have "(\<lambda>x. t_ID (mem c' x)) ` set (tq_items (c_queue c)) = queued c"
    unfolding queued_def using below E(5) by (intro image_cong refl) blast
  then have queued: "queued c' = queued c \<union> (if s = TaskStatusReady then {i} else {})"
    unfolding queued_def [of c'] items by (auto simp: E(9))
  have "graph_inv (st c') (deps_of c') (created c') (dependents c') (queued c') (c_running c') (c_completed c') {}"
    unfolding v(2) E(4)
  proof (rule graph_add [OF D(3)])
    show "st c i = None" using new(1) by (simp add: st_def)
    show "deps_of c' = (deps_of c)(i := ds)" by (rule v(3))
    show "created c' j = created c j" if "st c j \<noteq> None" for j
      using that \<open>st c i = None\<close> by (auto simp: v(4))
    show "created c j < created c' i" if "st c j \<noteq> None" for j
      using that store_okD [OF D(2), of j] by (auto simp: v(4) st_def created_def task_ok_def)
    show "set (dependents c d) \<subseteq> set (dependents c' d)" for d by (simp add: v(5))
    show "i \<in> set (dependents c' d)" if "d \<in> set ds" for d using that by (simp add: v(5))
  qed (use kind queued in auto)
  then show ?thesis using q extends_store [OF e new D(2) items seq] by (simp add: coord_inv_def)
qed

lemma register_fields:
  assumes ok: "store_ok c" and new: "find_task c (t_ID t) = None"
  shows "c_tasks (register_task c t) = c_tasks c @ [(t_ID t, c_next c)]"
    "c_dependencies (register_task c t) = add_dependents (c_dependencies c) (t_ID t) (t_Dependencies t)"
    "c_next (register_task c t) = Suc (c_next c)" "c_running (register_task c t) = c_running c"
    "c_completed (register_task c t) = c_completed c"
    "c_queue (register_task c t) = (c_queue c)\<lparr>tq_mem := (mem c)(c_next c := t)\<rparr>"
    "find_task (register_task c t) = (find_task c)(t_ID t \<mapsto> c_next c)"
proof -
  have "t_ID t \<notin> fst ` set (c_tasks c)" using new by (simp add: find_task_def map_of_eq_None_iff)
  then show *: "c_tasks (register_task c t) = c_tasks c @ [(t_ID t, c_next c)]"
    by (simp add: register_task_def put_task_def update_fresh)
  show "find_task (register_task c t) = (find_task c)(t_ID t \<mapsto> c_next c)"
    using new by (auto simp: find_task_def fun_eq_iff * map_add_def split: option.splits)
qed (simp_all add: register_task_def put_task_def)

text \<open>What a new task leads to: its end, if a dependency failed or is missing; the queue; or waiting.\<close>

definition added :: "coordinator \<Rightarrow> string \<Rightarrow> string list \<Rightarrow> completion list \<Rightarrow> coordinator \<Rightarrow> bool" where
  "added c i ds cs c' \<longleftrightarrow> coord_inv c' {} \<and> reports c cs c' \<and> (\<exists>s. extends c i ds s c') \<and>
     c_sealed c' = c_sealed c \<and> c_events c' = c_events c \<and> c_completion c' = c_completion c \<and>
     c_allCompleteOnce c' = c_allCompleteOnce c \<and> c_pendingCallbacks c' = c_pendingCallbacks c \<and>
     c_onTaskComplete c' = c_onTaskComplete c \<and> c_maxParallel c' = c_maxParallel c"

lemma new_ref:
  assumes "store_ok c"
  shows "c_next c \<notin> set (tq_items (c_queue c))"
  using assms unfolding store_ok_def task_ok_def by (metis nat_neq_iff)

lemma add_failed:
  assumes inv: "coord_inv c {}" and new: "find_task c i = None" "i \<noteq> []" "c_next c + 1 < 2 ^ 64"
    and t: "t_ID t = i" "t_Dependencies t = ds"
    and c': "c' = finish_task (register_task c t) (c_next c) TaskStatusFailed res"
  shows "added c i ds [snapshot c' (c_next c) res] c'"
proof -
  note D = coord_invD [OF inv] and r = new_ref [OF coord_invD(2) [OF inv]]
  note B = register_fields [OF D(2), of t, unfolded t, OF new(1)] and F = finish_queue [of "register_task c t" "c_next c" TaskStatusFailed res]
  have nc: "i \<notin> set (c_completed c)"
    using D(3) new(1) by (simp add: graph_inv_def done_ok_def st_def)
  then have cmp: "c_completed c' = c_completed c @ [i]" by (simp add: c' F B t)
  have m: "mem c' = (mem c)(c_next c := t\<lparr>t_Status := TaskStatusFailed, t_Result := Some res\<rparr>)"
    by (simp add: c' F B)
  have e: "extends c i ds TaskStatusFailed c'"
    unfolding extends_def m by (simp add: c' F B t innerD(4) [OF F(5)] finish_task_fields)
  have "coord_inv c' {}"
    by (rule add_inv [OF inv e new]) (use r nc in \<open>simp_all add: c' F B t queue_inv_put_out [OF D(1)]\<close>)
  moreover have "reports c [snapshot c' (c_next c) res] c'"
    by (rule reports_one) (simp_all add: m cmp t terminal_status_def)
  moreover have "inner (register_task c t) c'" by (simp add: c' F)
  ultimately show ?thesis
    using e unfolding added_def by (auto simp: innerD) (simp_all add: register_task_def put_task_def)
qed

lemma add_ready:
  assumes inv: "coord_inv c {}" and new: "find_task c i = None" "i \<noteq> []" "c_next c + 1 < 2 ^ 64"
    and t: "t_ID t = i" "t_Dependencies t = ds" and met: "\<forall>d \<in> set ds. st c d = Some TaskStatusCompleted"
    and c': "c' = ready_task (register_task c t) (c_next c)"
  shows "added c i ds [] c'"
proof -
  note D = coord_invD [OF inv] and r = new_ref [OF coord_invD(2) [OF inv]]
  define b where "b = register_task c t"
  note B = register_fields [OF D(2), of t, unfolded t, OF new(1), folded b_def]
  have ids: "i \<noteq> t_ID (mem c x)" if "x \<in> set (tq_items (c_queue c))" for x
    using D(2) new(1) that by (auto simp: store_ok_def)
  have room: "tq_nextSequence (c_queue c) + 1 < 2 ^ 64" using D(2) new(3) by (simp add: store_ok_def)
  have same: "t_ID (mem b x) = t_ID (mem c x)" if "x \<in> set (tq_items (c_queue c))" for x
    using that r by (auto simp: B)
  have "t_ID (mem b (c_next c)) = i" "tq_items (c_queue b) = tq_items (c_queue c)" by (simp_all add: B t)
  then have pre: "queue_inv (c_queue b)" "c_next c \<notin> set (tq_items (c_queue b))" "t_ID (mem b (c_next c)) \<noteq> []"
    "t_ID (mem b (c_next c)) \<notin> (\<lambda>x. t_ID (mem b x)) ` set (tq_items (c_queue b))"
    "tq_nextSequence (c_queue b) + 1 < 2 ^ 64"
    using r room new(2) ids same queue_inv_put_out [OF D(1) r] by (simp_all add: image_iff B(6))
  note R = ready_fields [OF pre, folded c' [folded b_def]]
  have same: "c_tasks c' = c_tasks b" "c_dependencies c' = c_dependencies b" "c_next c' = c_next b"
    "c_running c' = c_running b" "c_completed c' = c_completed b"
    by (simp_all add: c' b_def ready_task_eq)
  have e: "extends c i ds TaskStatusReady c'"
    unfolding extends_def R same by (simp add: B t terminal_status_def)
  have "coord_inv c' {}"
    by (rule add_inv [OF inv e new]) (use R(1) met in \<open>simp_all add: R(2,3) same B\<close>)
  moreover have "c_completed c' = c_completed c" by (simp add: same B)
  moreover have "inner b c'" by (simp add: c' b_def ready_task_eq innerI)
  ultimately show ?thesis
    using e unfolding added_def
    by (auto simp: innerD reports_Nil) (simp_all add: b_def register_task_def put_task_def)
qed

lemma add_blocked:
  assumes inv: "coord_inv c {}" and new: "find_task c i = None" "i \<noteq> []" "c_next c + 1 < 2 ^ 64"
    and t: "t_ID t = i" "t_Dependencies t = ds" and w: "waits (st c) ds" "\<forall>d \<in> set ds. st c d \<noteq> None"
    and c': "c' = put_task (register_task c t) (c_next c) (t\<lparr>t_Status := TaskStatusBlocked\<rparr>)"
  shows "added c i ds [] c'"
proof -
  note D = coord_invD [OF inv] and r = new_ref [OF coord_invD(2) [OF inv]]
  note B = register_fields [OF D(2), of t, unfolded t, OF new(1)]
  have q: "c_queue c' = (c_queue c)\<lparr>tq_mem := (mem c)(c_next c := t\<lparr>t_Status := TaskStatusBlocked\<rparr>)\<rparr>"
    by (simp add: c' put_task_def B)
  have same: "c_tasks c' = c_tasks c @ [(i, c_next c)]" "c_dependencies c' = add_dependents (c_dependencies c) i ds"
    "c_next c' = Suc (c_next c)" "c_running c' = c_running c" "c_completed c' = c_completed c"
    by (simp_all add: c' put_task_def B t)
  have e: "extends c i ds TaskStatusBlocked c'"
    unfolding extends_def q same by (simp add: t terminal_status_def)
  have "coord_inv c' {}"
    by (rule add_inv [OF inv e new]) (use r w in \<open>simp_all add: q same queue_inv_put_out [OF D(1)]\<close>)
  then show ?thesis
    using e same(5) unfolding added_def
    by (auto simp: reports_Nil) (simp_all add: c' register_task_def put_task_def)
qed

lemma AddTask_inv:
  assumes inv: "coord_inv c {}" and unsealed: "\<not> c_sealed c" and new: "find_task c i = None" "i \<noteq> []" "i \<notin> set ds"
    and room: "c_next c + 1 < 2 ^ 64"
    and h: "AddTask quote c i prompt ty prio ds = (i', c', cs)"
  shows "i' = i \<and> (\<exists>c1. added c i ds cs c1 \<and> c' = c1\<lparr>c_pendingCallbacks := c_pendingCallbacks c1 + int (length cs)\<rparr>)"
proof -
  define t where "t = zero_task\<lparr>t_ID := i, t_Prompt := prompt, t_AgentType := ty, t_Priority := prio, t_Dependencies := ds\<rparr>"
  define b where "b = register_task c t"
  note D = coord_invD [OF inv]
  have t: "t_ID t = i" "t_Dependencies t = ds" by (simp_all add: t_def)
  note B = register_fields [OF D(2), of t, unfolded t, OF new(1), folded b_def]
  have stb: "st b d = st c d" if "d \<in> set ds" for d
  proof -
    have "d \<noteq> i" using that new(3) by auto
    moreover have "x \<noteq> c_next c" if "find_task c d = Some x" for x
      using store_okD [OF D(2) that] by (auto simp: task_ok_def)
    ultimately show ?thesis by (cases "find_task c d") (simp_all add: st_def B)
  qed
  have h': "(i', c', cs) = (i, add_pending
      (case failedDependency b t of
         Some (depID, dep) \<Rightarrow>
           (case failTaskForDependency quote b (c_next c) depID dep of (c1, res) \<Rightarrow> (c1, [snapshot c1 (c_next c) res]))
       | None \<Rightarrow> if areDependenciesMet b t then (ready_task b (c_next c), [])
                 else (put_task b (c_next c) (t\<lparr>t_Status := TaskStatusBlocked\<rparr>), [])))"
    using h [symmetric] unsealed by (simp only: AddTask_def if_False Let_def t_def [symmetric] b_def [symmetric])
  show ?thesis
  proof (cases "failedDependency b t")
    case (Some x)
    obtain depID dep where x: "x = (depID, dep)" by (cases x)
    define res where "res = dependency_result quote (mem b (c_next c)) depID dep"
    have "added c i ds [snapshot (finish_task b (c_next c) TaskStatusFailed res) (c_next c) res]
        (finish_task b (c_next c) TaskStatusFailed res)"
      unfolding b_def by (rule add_failed [OF inv new(1,2) room t refl])
    then show ?thesis
      using h' Some x by (auto simp: failTaskForDependency_def Let_def res_def [symmetric] add_pending_def B(3))
  next
    case None
    then have some: "\<forall>d \<in> set ds. st c d \<noteq> None" using stb by (simp add: failed_None_iff t)
    show ?thesis
    proof (cases "areDependenciesMet b t")
      case True
      then have met: "\<forall>d \<in> set ds. st c d = Some TaskStatusCompleted" using stb by (simp add: met_iff t)
      have "added c i ds [] (ready_task b (c_next c))"
        unfolding b_def by (rule add_ready [OF inv new(1,2) room t met refl])
      then show ?thesis using h' None True by (auto simp: add_pending_def)
    next
      case False
      then have "waits (st b) ds" using waits_iff [OF None] by (simp add: t)
      then have w: "waits (st c) ds" using stb by (simp add: waits_def)
      have "added c i ds [] (put_task b (c_next c) (t\<lparr>t_Status := TaskStatusBlocked\<rparr>))"
        unfolding b_def by (rule add_blocked [OF inv new(1,2) room t w some refl])
      then show ?thesis using h' None False by (auto simp: add_pending_def)
    qed
  qed
qed

end
