(* ===== verification/CoordProps.thy ===== *)
theory CoordProps
  imports CoordSteps
begin

text \<open>
  The coordinator as a system: any number of goroutines call its methods, the locked sections of
  these calls interleave, and the completions they return are delivered one callback at a time. The
  step relation has one rule per locked section and one per callback; the properties hold in every
  reachable state.
\<close>

section \<open>The system\<close>

text \<open>
  A delivery in flight: the callbacks still to be invoked, and the batch to be accounted for at the
  end. \<open>unheard\<close> collects the tasks finished while no completion callback was installed.
\<close>

type_synonym flight = "coord_event list \<times> completion list"

record coord_system =
  coord :: coordinator
  flights :: "flight list"
  unheard :: "string list"

definition ids :: "completion list \<Rightarrow> string list" where
  "ids cs = map (\<lambda>(t, res). t_ID t) cs"

definition launch :: "coord_system \<Rightarrow> coordinator \<Rightarrow> ctask list \<Rightarrow> completion list \<Rightarrow> coord_system" where
  "launch s c started cs =
     (let todo = (if c_onTaskStart (coord s) then map TaskStarted started else []) @
                 (if c_onTaskComplete (coord s) then map (\<lambda>(t, res). TaskCompleted t res) cs else [])
      in s\<lparr>coord := c,
           flights := flights s @ (if todo = [] \<and> cs = [] then [] else [(todo, cs)]),
           unheard := unheard s @ (if c_onTaskComplete (coord s) then [] else ids cs)\<rparr>)"

text \<open>What the environment promises: generated task IDs are new, and so are the IDs of agents.\<close>

definition fresh_task :: "coordinator \<Rightarrow> string \<Rightarrow> string list \<Rightarrow> bool" where
  "fresh_task c i ds \<longleftrightarrow> find_task c i = None \<and> i \<noteq> [] \<and> i \<notin> set ds \<and> c_next c + 1 < 2 ^ 64"

inductive coord_step :: "(string \<Rightarrow> string) \<Rightarrow> coord_system \<Rightarrow> coord_system \<Rightarrow> bool" for quote where
  add: "fresh_task (coord s) i ds \<Longrightarrow> AddTask quote (coord s) i prompt ty prio ds = (i', c, cs) \<Longrightarrow>
    coord_step quote s (launch s c [] cs)"
| seal: "coord_step quote s (s\<lparr>coord := Coordinator_Start (coord s)\<rparr>)"
| parallel: "coord_step quote s (s\<lparr>coord := SetMaxParallel (coord s) n\<rparr>)"
| callbacks: "coord_step quote s (s\<lparr>coord := SetCallbacks (coord s) f g h\<rparr>)"
| ready: "fresh_ids spawn (coord s) \<Longrightarrow> startReadyTasks quote spawn (coord s) = (c, started, failed) \<Longrightarrow>
    coord_step quote s (launch s c started failed)"
| finished: "handleAgentCompletionResult quote (coord s) agentID result = (c, cs) \<Longrightarrow> coord_step quote s (launch s c [] cs)"
| check: "checkCompletedAgents quote published (coord s) = (c, cs) \<Longrightarrow> coord_step quote s (launch s c [] cs)"
| cancel: "CancelTask quote published request (coord s) taskID = (c, cs, err) \<Longrightarrow> coord_step quote s (launch s c [] cs)"
| publish: "coord_step quote s (s\<lparr>coord := publishCompletionIfReady (coord s)\<rparr>)"
| invoke: "flights s = fs @ (e # todo, batch) # fs' \<Longrightarrow>
    coord_step quote s (s\<lparr>coord := (coord s)\<lparr>c_events := c_events (coord s) @ [e]\<rparr>, flights := fs @ (todo, batch) # fs'\<rparr>)"
| landed: "flights s = fs @ ([], batch) # fs' \<Longrightarrow> account_batch (coord s) batch = (c, ready) \<Longrightarrow>
    coord_step quote s (s\<lparr>coord := c, flights := fs @ fs'\<rparr>)"
| notify: "coord_step quote s (s\<lparr>coord := notifyAllComplete (coord s)\<rparr>)"

definition coord_start :: "bool \<Rightarrow> int option \<Rightarrow> coord_system" where
  "coord_start runner config = \<lparr>coord = NewCoordinator runner config, flights = [], unheard = []\<rparr>"

inductive coord_reachable :: "(string \<Rightarrow> string) \<Rightarrow> coord_system \<Rightarrow> bool" for quote where
  start: "coord_reachable quote (coord_start runner config)"
| step: "coord_reachable quote s \<Longrightarrow> coord_step quote s s' \<Longrightarrow> coord_reachable quote s'"

section \<open>Invariants of the system\<close>

definition completed_ids :: "coord_event list \<Rightarrow> string list" where
  "completed_ids es = List.map_filter (\<lambda>e. case e of TaskCompleted t res \<Rightarrow> Some (t_ID t) | _ \<Rightarrow> None) es"

definition all_events :: "coord_event list \<Rightarrow> (string \<times> agent_result option) list list" where
  "all_events es = List.map_filter (\<lambda>e. case e of AllCompleted res \<Rightarrow> Some res | _ \<Rightarrow> None) es"

definition todo_ids :: "flight list \<Rightarrow> string list" where
  "todo_ids fs = concat (map (\<lambda>(todo, batch). completed_ids todo) fs)"

definition in_flight :: "flight list \<Rightarrow> nat" where
  "in_flight fs = sum_list (map (\<lambda>(todo, batch). length batch) fs)"

text \<open>A flight that still has completions to report has a batch to account for, and no \<open>AllCompleted\<close>.\<close>

definition flight_ok :: "flight \<Rightarrow> bool" where
  "flight_ok f \<longleftrightarrow> (case f of (todo, batch) \<Rightarrow> all_events todo = [] \<and> (batch = [] \<longrightarrow> completed_ids todo = []))"

text \<open>Nothing is reported after the end.\<close>

definition events_ok :: "coord_event list \<Rightarrow> bool" where
  "events_ok es \<longleftrightarrow> (\<forall>xs res ys. es = xs @ AllCompleted res # ys \<longrightarrow> completed_ids ys = [] \<and> all_events ys = [])"

definition system_inv :: "coord_system \<Rightarrow> bool" where
  "system_inv s \<longleftrightarrow> (let c = coord s in
     coord_inv c {} \<and> 0 < c_maxParallel c \<and>
     c_pendingCallbacks c = int (in_flight (flights s)) \<and>
     mset (c_completed c) = mset (completed_ids (c_events c)) + mset (todo_ids (flights s)) + mset (unheard s) \<and>
     list_all flight_ok (flights s) \<and> events_ok (c_events c) \<and>
     (c_completion c \<longrightarrow> c_sealed c \<and> allTasksTerminal c) \<and>
     (c_allCompleteOnce c \<longrightarrow> c_completion c \<and> in_flight (flights s) = 0) \<and>
     (all_events (c_events c) \<noteq> [] \<longrightarrow> c_allCompleteOnce c) \<and>
     (\<forall>res \<in> set (all_events (c_events c)). res = resultsSnapshot c))"

lemma events_simps [simp]:
  "completed_ids [] = []" "all_events [] = []"
  "completed_ids (xs @ ys) = completed_ids xs @ completed_ids ys" "all_events (xs @ ys) = all_events xs @ all_events ys"
  "completed_ids (TaskStarted t # xs) = completed_ids xs" "completed_ids (TaskCompleted t r # xs) = t_ID t # completed_ids xs"
  "completed_ids (AllCompleted m # xs) = completed_ids xs" "all_events (TaskStarted t # xs) = all_events xs"
  "all_events (TaskCompleted t r # xs) = all_events xs" "all_events (AllCompleted m # xs) = m # all_events xs"
  by (simp_all add: completed_ids_def all_events_def List.map_filter_def)

lemma starts_maps [simp]: "completed_ids (map TaskStarted ts) = []" "all_events (map TaskStarted ts) = []"
  by (induction ts) simp_all

lemma completes_maps [simp]:
  "completed_ids (map (\<lambda>(t, res). TaskCompleted t res) cs) = ids cs"
  "all_events (map (\<lambda>(t, res). TaskCompleted t res) cs) = []"
  by (induction cs) (auto simp: ids_def)

lemma flight_simps [simp]:
  "todo_ids [] = []" "todo_ids (fs @ gs) = todo_ids fs @ todo_ids gs" "todo_ids ((t, b) # fs) = completed_ids t @ todo_ids fs"
  "in_flight [] = 0" "in_flight (fs @ gs) = in_flight fs + in_flight gs" "in_flight ((t, b) # fs) = length b + in_flight fs"
  by (simp_all add: todo_ids_def in_flight_def)

lemma system_invD:
  assumes "system_inv s"
  shows "coord_inv (coord s) {}" "0 < c_maxParallel (coord s)"
    "c_pendingCallbacks (coord s) = int (in_flight (flights s))"
    "mset (c_completed (coord s)) = mset (completed_ids (c_events (coord s))) + mset (todo_ids (flights s)) + mset (unheard s)"
    "list_all flight_ok (flights s)" "events_ok (c_events (coord s))"
    "c_completion (coord s) \<Longrightarrow> c_sealed (coord s) \<and> allTasksTerminal (coord s)"
    "c_allCompleteOnce (coord s) \<Longrightarrow> c_completion (coord s) \<and> in_flight (flights s) = 0"
    "all_events (c_events (coord s)) \<noteq> [] \<Longrightarrow> c_allCompleteOnce (coord s)"
    "res \<in> set (all_events (c_events (coord s))) \<Longrightarrow> res = resultsSnapshot (coord s)"
  using assms by (simp_all add: system_inv_def Let_def)

text \<open>When every task has ended, an operation has nothing to finish.\<close>

lemma terminal_iff:
  assumes "coord_inv c {}"
  shows "allTasksTerminal c \<longleftrightarrow> (\<forall>i r. find_task c i = Some r \<longrightarrow> terminal_status (t_Status (mem c r)))"
proof
  assume t: "\<forall>i r. find_task c i = Some r \<longrightarrow> terminal_status (t_Status (mem c r))"
  have "c_running c = []"
  proof (rule ccontr)
    assume "c_running c \<noteq> []"
    then obtain a i where "(a, i) \<in> set (c_running c)" by (cases "c_running c") auto
    then show False using running_task_found [OF assms] t by (force simp: terminal_status_def)
  qed
  moreover have "distinct (map fst (c_tasks c))" using coord_invD(2) [OF assms] by (simp add: store_ok_def)
  ultimately show "allTasksTerminal c"
    using t by (auto simp: allTasksTerminal_def list_all_iff find_task_def)
qed (auto simp: allTasksTerminal_def list_all_iff find_task_def dest: map_of_SomeD)

lemma completed_iff:
  "coord_inv c X \<Longrightarrow> i \<in> set (c_completed c) \<longleftrightarrow> (\<exists>r. find_task c i = Some r \<and> terminal_status (t_Status (mem c r)))"
  using coord_invD(3) [of c X] by (auto simp: graph_inv_def done_ok_def st_ex terminal_status_def)

lemma completed_distinct: "coord_inv c X \<Longrightarrow> distinct (c_completed c)"
  using coord_invD(3) [of c X] by (simp add: graph_inv_def done_ok_def)

lemma ends_terminal:
  assumes inv: "coord_inv c {}" and t: "allTasksTerminal c" and e: "ends c cs c'"
  shows "allTasksTerminal c'" "resultsSnapshot c' = resultsSnapshot c" "cs = []"
proof -
  have inv': "coord_inv c' {}" and f: "find_task c' = find_task c" and tasks: "c_tasks c' = c_tasks c" and fin: "final c c'"
    and rep: "c_completed c' = c_completed c @ ids cs"
    using e by (auto simp: ends_def outer_def find_task_def reports_def ids_def)
  have old: "terminal_status (t_Status (mem c r))" if "find_task c i = Some r" for i r
    using t that terminal_iff [OF inv] by blast
  then show t': "allTasksTerminal c'"
    using fin unfolding terminal_iff [OF inv'] f final_def by metis
  have "terminal_status (t_Status (mem c r))" if "(i, r) \<in> set (c_tasks c)" for i r
    using t that by (auto simp: allTasksTerminal_def list_all_iff)
  then show "resultsSnapshot c' = resultsSnapshot c"
    using fin by (auto simp: resultsSnapshot_def tasks final_def)
  have "set (c_completed c') \<subseteq> set (c_completed c)"
    using old by (auto simp: completed_iff [OF inv'] completed_iff [OF inv] f)
  then have "ids cs = []" using completed_distinct [OF inv'] unfolding rep by (cases "ids cs") auto
  then show "cs = []" by (simp add: ids_def)
qed

lemma launch_inv:
  assumes sys: "system_inv s" and inv: "coord_inv c' {}" "0 < c_maxParallel c'"
    and rep: "reports (coord s) cs c'"
    and same: "c_pendingCallbacks c' = c_pendingCallbacks (coord s) + int (length cs)" "c_events c' = c_events (coord s)"
      "c_sealed c' = c_sealed (coord s)" "c_completion c' = c_completion (coord s)" "c_allCompleteOnce c' = c_allCompleteOnce (coord s)"
    and fin: "c_completion (coord s) \<Longrightarrow> allTasksTerminal c' \<and> resultsSnapshot c' = resultsSnapshot (coord s) \<and> cs = []"
  shows "system_inv (launch s c' started cs)"
proof -
  note S = system_invD [OF sys]
  define todo where "todo = (if c_onTaskStart (coord s) then map TaskStarted started else []) @
     (if c_onTaskComplete (coord s) then map (\<lambda>(t, res). TaskCompleted t res) cs else [])"
  have todo: "completed_ids todo = (if c_onTaskComplete (coord s) then ids cs else [])" "all_events todo = []"
    by (simp_all add: todo_def)
  have l: "coord (launch s c' started cs) = c'"
    "flights (launch s c' started cs) = flights s @ (if todo = [] \<and> cs = [] then [] else [(todo, cs)])"
    "unheard (launch s c' started cs) = unheard s @ (if c_onTaskComplete (coord s) then [] else ids cs)"
    by (simp_all add: launch_def Let_def todo_def)
  have "c_completed c' = c_completed (coord s) @ ids cs" using rep by (simp add: reports_def ids_def)
  then have "mset (c_completed c') = mset (completed_ids (c_events (coord s))) + mset (todo_ids (flights s)) + mset (unheard s) + mset (ids cs)"
    by (simp add: S(4))
  moreover have "ids [] = []" by (simp add: ids_def)
  moreover have "list_all flight_ok (if todo = [] \<and> cs = [] then [] else [(todo, cs)])"
    by (auto simp: flight_ok_def todo ids_def)
  moreover have "in_flight (flights s) = 0 \<and> cs = []" if "c_allCompleteOnce (coord s)"
    using that S(8) fin by blast
  moreover have "res = resultsSnapshot c'" if res: "res \<in> set (all_events (c_events (coord s)))" for res
  proof -
    have "all_events (c_events (coord s)) \<noteq> []" using res by auto
    then show ?thesis using S(8,9) S(10) [OF res] fin by simp
  qed
  ultimately show ?thesis
    unfolding system_inv_def Let_def l same
    using inv S(3,5-10) fin by (auto simp: todo)
qed

lemma pending_simps [simp]:
  "allTasksTerminal (c\<lparr>c_pendingCallbacks := n\<rparr>) = allTasksTerminal c"
  "resultsSnapshot (c\<lparr>c_pendingCallbacks := n\<rparr>) = resultsSnapshot c"
  by (simp_all add: allTasksTerminal_def resultsSnapshot_def)

lemma registers_launch:
  assumes sys: "system_inv s" and reg: "registers (coord s) cs c'"
  shows "system_inv (launch s c' started cs)"
proof -
  note S = system_invD [OF sys]
  obtain c1 where e: "ends (coord s) cs c1" and c': "c' = c1\<lparr>c_pendingCallbacks := c_pendingCallbacks c1 + int (length cs)\<rparr>"
    using reg by (auto simp: registers_def)
  have o: "outer (coord s) c1" "coord_inv c1 {}" "reports (coord s) cs c1" using e by (simp_all add: ends_def)
  have "coord_inv c' {} = coord_inv c1 {}" by (rule coord_inv_cong) (simp_all add: c')
  moreover have "reports (coord s) cs c'" using o(3) by (simp add: reports_def c')
  ultimately show ?thesis
    using o ends_terminal [OF S(1) _ e] S(2,7)
    by (intro launch_inv [OF sys]) (simp_all add: c' outer_def)
qed

lemma startReady_registers:
  assumes inv: "coord_inv c {}" and fresh: "fresh_ids spawn c"
    and h: "startReadyTasks quote spawn c = (c', started, failed)"
  shows "registers c failed c'"
    "length (c_running c') = length (c_running c) + length started"
    "\<forall>t \<in> set started. t_Status t = TaskStatusRunning \<and> (\<forall>d \<in> set (t_Dependencies t). st c' d = Some TaskStatusCompleted)"
proof -
  obtain c1 xs fs where l: "start_loop quote spawn c (c_maxParallel c - int (length (c_running c))) = (c1, xs, fs)"
    by (cases "start_loop quote spawn c (c_maxParallel c - int (length (c_running c)))") auto
  have ok: "round_ok spawn c (c1, xs, fs)" using start_loop_inv [OF inv fresh] l by metis
  have eq: "started = xs" "failed = fs" "c' = c1\<lparr>c_pendingCallbacks := c_pendingCallbacks c1 + int (length fs)\<rparr>"
    using h l by (auto simp: startReadyTasks_def)
  then show "registers c failed c'" using ok by (auto simp: round_ok_def registers_def)
  have "st c' = st c1" by (auto simp: st_def find_task_def eq(3))
  then show "\<forall>t \<in> set started. t_Status t = TaskStatusRunning \<and> (\<forall>d \<in> set (t_Dependencies t). st c' d = Some TaskStatusCompleted)"
    "length (c_running c') = length (c_running c) + length started"
    using ok by (simp_all add: round_ok_def eq)
qed

lemma add_launch:
  assumes sys: "system_inv s" and fresh: "fresh_task (coord s) i ds"
    and h: "AddTask quote (coord s) i prompt ty prio ds = (i', c', cs)"
  shows "system_inv (launch s c' [] cs)"
proof (cases "c_sealed (coord s)")
  case True
  then have "c' = coord s" "cs = []" using h by (simp_all add: AddTask_def)
  then show ?thesis using registers_launch [OF sys registers_refl] system_invD(1) [OF sys] by simp
next
  case False
  note S = system_invD [OF sys]
  obtain c1 where a: "added (coord s) i ds cs c1" and c': "c' = c1\<lparr>c_pendingCallbacks := c_pendingCallbacks c1 + int (length cs)\<rparr>"
    using AddTask_inv [OF S(1) False _ _ _ _ h] fresh by (auto simp: fresh_task_def)
  have "coord_inv c' {} = coord_inv c1 {}" by (rule coord_inv_cong) (simp_all add: c')
  moreover have "reports (coord s) cs c'" using a by (simp add: added_def reports_def c')
  moreover have "\<not> c_completion (coord s)" using S(7) False by blast
  ultimately show ?thesis
    using a S(2) by (intro launch_inv [OF sys]) (simp_all add: added_def c')
qed

text \<open>The remaining sections do not touch the tasks.\<close>

definition same_tasks :: "coordinator \<Rightarrow> coordinator \<Rightarrow> bool" where
  "same_tasks c c' \<longleftrightarrow> c_queue c' = c_queue c \<and> c_tasks c' = c_tasks c \<and> c_dependencies c' = c_dependencies c \<and>
     c_next c' = c_next c \<and> c_running c' = c_running c \<and> c_completed c' = c_completed c"

lemma same_tasksD:
  assumes "same_tasks c c'"
  shows "coord_inv c' X = coord_inv c X" "allTasksTerminal c' = allTasksTerminal c" "resultsSnapshot c' = resultsSnapshot c"
    "c_completed c' = c_completed c"
  using assms coord_inv_cong [of c' c X]
  by (simp_all add: same_tasks_def allTasksTerminal_def resultsSnapshot_def)

lemma same_tasks_inv:
  assumes sys: "system_inv s" and c': "same_tasks (coord s) c'" "0 < c_maxParallel c'"
    and pend: "c_pendingCallbacks c' = int (in_flight fs)" and fl: "list_all flight_ok fs"
    and ids: "mset (completed_ids (c_events c')) + mset (todo_ids fs) = mset (completed_ids (c_events (coord s))) + mset (todo_ids (flights s))"
    and ev: "events_ok (c_events c')" "all_events (c_events c') \<noteq> [] \<Longrightarrow> c_allCompleteOnce c'"
      "\<And>res. res \<in> set (all_events (c_events c')) \<Longrightarrow> res \<in> set (all_events (c_events (coord s))) \<or> res = resultsSnapshot (coord s)"
    and flags: "c_completion c' \<Longrightarrow> c_sealed c' \<and> allTasksTerminal (coord s)" "c_allCompleteOnce c' \<Longrightarrow> c_completion c' \<and> in_flight fs = 0"
  shows "system_inv (s\<lparr>coord := c', flights := fs\<rparr>)"
proof -
  note S = system_invD [OF sys] and T = same_tasksD [OF c'(1)]
  have "mset (c_completed c') = mset (completed_ids (c_events c')) + mset (todo_ids fs) + mset (unheard s)"
    unfolding ids T(4) by (rule S(4))
  moreover have "\<forall>res \<in> set (all_events (c_events c')). res = resultsSnapshot c'" using ev(3) S(10) T(3) by auto
  ultimately show ?thesis
    using S(1) c'(2) pend fl ev(1,2) flags unfolding system_inv_def Let_def by (simp add: T)
qed

lemma events_ok_snoc:
  assumes "events_ok es" "all_events es = [] \<or> completed_ids [e] = [] \<and> all_events [e] = []"
  shows "events_ok (es @ [e])"
  unfolding events_ok_def
proof (intro allI impI)
  fix xs res ys assume eq: "es @ [e] = xs @ AllCompleted res # ys"
  show "completed_ids ys = [] \<and> all_events ys = []"
  proof (cases ys rule: rev_cases)
    case (snoc zs x)
    then have x: "x = e" and es: "es = xs @ AllCompleted res # zs" using eq by auto
    then have "completed_ids zs = [] \<and> all_events zs = []" using assms(1) unfolding events_ok_def by blast
    then show ?thesis using assms(2) by (simp add: snoc x es)
  qed simp
qed

lemma invoke_inv:
  assumes sys: "system_inv s" and fl: "flights s = fs @ (e # todo, batch) # fs'"
  shows "system_inv (s\<lparr>coord := (coord s)\<lparr>c_events := c_events (coord s) @ [e]\<rparr>, flights := fs @ (todo, batch) # fs'\<rparr>)"
proof -
  note S = system_invD [OF sys]
  have ok: "flight_ok (e # todo, batch)" using S(5) by (simp add: fl)
  have e: "all_events [e] = []" "all_events todo = []"
    using ok events_simps(4) [of "[e]" todo] by (auto simp: flight_ok_def)
  have split: "completed_ids (e # todo) = completed_ids [e] @ completed_ids todo"
    using events_simps(3) [of "[e]" todo] by simp
  have quiet: "completed_ids [e] = []" if "all_events (c_events (coord s)) \<noteq> []"
    using S(8) [OF S(9) [OF that]] ok by (simp add: fl flight_ok_def split)
  show ?thesis
  proof (rule same_tasks_inv [OF sys])
    show "list_all flight_ok (fs @ (todo, batch) # fs')"
      using S(5) ok e(2) by (auto simp: fl flight_ok_def split)
    have "events_ok (c_events (coord s) @ [e])" using quiet e(1) by (intro events_ok_snoc S(6)) blast
    then show "events_ok (c_events ((coord s)\<lparr>c_events := c_events (coord s) @ [e]\<rparr>))" by simp
  qed (use S(2,3,7-10) in \<open>simp_all add: same_tasks_def fl e split\<close>)
qed

lemma landed_inv:
  assumes sys: "system_inv s" and fl: "flights s = fs @ ([], batch) # fs'" and h: "account_batch (coord s) batch = (c', ready)"
  shows "system_inv (s\<lparr>coord := c', flights := fs @ fs'\<rparr>)"
proof -
  note S = system_invD [OF sys]
  have "c_pendingCallbacks (coord s) - int (length batch) = int (in_flight (fs @ fs'))" using S(3) by (simp add: fl)
  then have c': "c' = (coord s)\<lparr>c_pendingCallbacks := int (in_flight (fs @ fs'))\<rparr>"
    using h by (auto simp: account_batch_def Let_def)
  show ?thesis
    by (rule same_tasks_inv [OF sys]) (use S in \<open>simp_all add: c' same_tasks_def fl\<close>)
qed

lemma notify_inv:
  assumes sys: "system_inv s"
  shows "system_inv (s\<lparr>coord := notifyAllComplete (coord s)\<rparr>)"
proof -
  note S = system_invD [OF sys]
  let ?c = "coord s"
  consider "\<not> c_sealed ?c \<or> \<not> allTasksTerminal ?c \<or> 0 < c_pendingCallbacks ?c"
    | (Again) "c_sealed ?c" "allTasksTerminal ?c" "c_pendingCallbacks ?c \<le> 0" "c_allCompleteOnce ?c"
    | (First) "c_sealed ?c" "allTasksTerminal ?c" "c_pendingCallbacks ?c \<le> 0" "\<not> c_allCompleteOnce ?c"
    by linarith
  then have "system_inv (s\<lparr>coord := notifyAllComplete ?c, flights := flights s\<rparr>)"
  proof cases
    case 1
    then show ?thesis using sys by (auto simp: notifyAllComplete_def)
  next
    case Again
    then show ?thesis
      by (intro same_tasks_inv [OF sys]) (use S in \<open>simp_all add: notifyAllComplete_def same_tasks_def\<close>)
  next
    case First
    have none: "all_events (c_events ?c) = []" using S(9) First(4) by blast
    have zero: "in_flight (flights s) = 0" using S(3) First(3) by simp
    define es where "es = (if c_onAllComplete ?c then [AllCompleted (resultsSnapshot ?c)] else [])"
    have es: "completed_ids es = []" "\<And>res. res \<in> set (all_events es) \<Longrightarrow> res = resultsSnapshot ?c"
      by (auto simp: es_def split: if_splits)
    have ok: "events_ok (c_events ?c @ es)" using S(6) none by (auto simp: es_def intro: events_ok_snoc)
    have n: "notifyAllComplete ?c = ?c\<lparr>c_completion := True, c_allCompleteOnce := True, c_events := c_events ?c @ es\<rparr>"
      using First by (simp add: notifyAllComplete_def es_def)
    show ?thesis
      by (rule same_tasks_inv [OF sys]) (use S First zero none es ok in \<open>auto simp: n same_tasks_def\<close>)
  qed
  then show ?thesis by simp
qed

lemma step_inv: "coord_step quote s s' \<Longrightarrow> system_inv s \<Longrightarrow> system_inv s'"
proof (induction rule: coord_step.induct)
  case (add s i ds prompt ty prio i' c cs)
  then show ?case by (simp add: add_launch)
next
  case (seal s)
  have "system_inv (s\<lparr>coord := Coordinator_Start (coord s), flights := flights s\<rparr>)"
    by (rule same_tasks_inv [OF seal]) (use system_invD [OF seal] in \<open>simp_all add: Coordinator_Start_def same_tasks_def\<close>)
  then show ?case by simp
next
  case (parallel s n)
  have "system_inv (s\<lparr>coord := SetMaxParallel (coord s) n, flights := flights s\<rparr>)"
    by (rule same_tasks_inv [OF parallel]) (use system_invD [OF parallel] in \<open>auto simp: SetMaxParallel_def same_tasks_def split: if_splits\<close>)
  then show ?case by simp
next
  case (callbacks s f g h)
  have "system_inv (s\<lparr>coord := SetCallbacks (coord s) f g h, flights := flights s\<rparr>)"
    by (rule same_tasks_inv [OF callbacks]) (use system_invD [OF callbacks] in \<open>simp_all add: SetCallbacks_def same_tasks_def\<close>)
  then show ?case by simp
next
  case (ready spawn s c started failed)
  then show ?case by (intro registers_launch startReady_registers(1) system_invD(1))
next
  case (finished s agentID result c cs)
  then show ?case by (intro registers_launch handle_inv system_invD(1))
next
  case (check published s c cs)
  then show ?case by (intro registers_launch check_inv system_invD(1))
next
  case (cancel published request s taskID c cs err)
  then show ?case by (intro registers_launch cancel_inv system_invD(1))
next
  case (publish s)
  have "system_inv (s\<lparr>coord := publishCompletionIfReady (coord s), flights := flights s\<rparr>)"
    by (rule same_tasks_inv [OF publish]) (use system_invD [OF publish] in \<open>auto simp: publishCompletionIfReady_def same_tasks_def split: if_splits\<close>)
  then show ?case by simp
next
  case (invoke s fs e todo batch fs')
  then show ?case by (simp add: invoke_inv)
next
  case (landed s fs batch fs' c ready)
  then show ?case by (simp add: landed_inv)
next
  case (notify s)
  then show ?case by (rule notify_inv)
qed

end
