(* ===== verification/CoordLive.thy ===== *)
theory CoordLive
  imports CoordProps
begin

text \<open>
  What the coordinator guarantees in every reachable state: the order of dependencies, the bound on
  parallel agents, exact reporting, and progress to the end of every task.
\<close>

lemma NewCoordinator_inv: "coord_inv (NewCoordinator runner config) {}"
proof -
  let ?c = "NewCoordinator runner config"
  have f: "find_task ?c i = None" for i by (simp add: find_task_def NewCoordinator_def)
  have "store_ok ?c" "queue_inv (c_queue ?c)" "queued ?c = {}" "c_running ?c = []" "c_completed ?c = []"
    by (simp_all add: store_ok_def f blocked_count_def queued_def) (simp_all add: NewCoordinator_def NewTaskQueue_def queue_inv_New [unfolded NewTaskQueue_def])
  moreover have "st ?c i = None" for i by (simp add: st_def f)
  ultimately show ?thesis
    by (simp add: coord_inv_def graph_inv_def deps_ok_def rev_ok_def run_ok_def done_ok_def met_ok_def blocked_ok_def)
qed

lemma coord_start_inv: "system_inv (coord_start runner config)"
proof -
  have "c_events (NewCoordinator runner config) = []" "c_completed (NewCoordinator runner config) = []"
    "c_pendingCallbacks (NewCoordinator runner config) = 0" "\<not> c_completion (NewCoordinator runner config)"
    "\<not> c_allCompleteOnce (NewCoordinator runner config)" "0 < c_maxParallel (NewCoordinator runner config)"
    by (simp_all add: NewCoordinator_def split: option.split)
  then show ?thesis
    using NewCoordinator_inv by (simp add: system_inv_def coord_start_def Let_def events_ok_def)
qed

lemma coord_reachable_inv: "coord_reachable quote s \<Longrightarrow> system_inv s"
  by (induction rule: coord_reachable.induct) (auto intro: coord_start_inv step_inv)

section \<open>No deadlock\<close>

text \<open>Follow the dependencies of a waiting task backwards: they end in a task that is queued or runs.\<close>

lemma never_stuck:
  assumes inv: "coord_inv c {}" and idle: "tq_items (c_queue c) = []" "c_running c = []"
  shows "allTasksTerminal c"
proof -
  have G: "graph_inv (st c) (deps_of c) (created c) (dependents c) (queued c) (c_running c) (c_completed c) {}"
    by (rule coord_invD(3) [OF inv])
  have none: "st c i \<noteq> Some TaskStatusReady" "st c i \<noteq> Some TaskStatusRunning" "st c i \<noteq> Some TaskStatusPending" for i
    using G idle by (auto simp: graph_inv_def run_ok_def queued_def)
  have "st c i \<noteq> Some TaskStatusBlocked" for i
  proof (induction "created c i" arbitrary: i rule: less_induct)
    case less
    show ?case
    proof
      assume b: "st c i = Some TaskStatusBlocked"
      then have "waits (st c) (deps_of c i)" using G by (simp add: graph_inv_def blocked_ok_def)
      then obtain d where d: "d \<in> set (deps_of c i)" "st c d \<noteq> Some TaskStatusCompleted" "st c d \<noteq> Some TaskStatusFailed"
        by (auto simp: waits_def)
      have "st c d \<noteq> None \<and> created c d < created c i"
        using G deps_okD [of "st c" "deps_of c" "created c" i, OF _ b _ d(1)] by (simp add: graph_inv_def)
      then obtain u where "st c d = Some u" "u \<noteq> TaskStatusBlocked" using less by auto
      then show False using d none [of d] by (cases u) auto
    qed
  qed
  with none have "terminal_status (t_Status (mem c r))" if "find_task c i = Some r" for i r
    using st_find [OF that] by (cases "t_Status (mem c r)") (force simp: terminal_status_def)+
  then show ?thesis using terminal_iff [OF inv] by blast
qed

section \<open>Bound on parallel agents\<close>

lemma start_round_slots: "length (fst (snd (start_round quote spawn c r))) \<le> 1"
  by (simp add: start_round_def Let_def split: prod.split option.split)

lemma start_loop_slots: "int (length (fst (snd (start_loop quote spawn c slots)))) \<le> max 0 slots"
proof (induction quote spawn c slots rule: start_loop.induct)
  case (1 quote spawn c slots)
  show ?case
  proof (cases "slots \<le> 0 \<or> snd (PopTask (c_queue c)) = None")
    case True
    then show ?thesis by (auto simp: start_loop.simps [of quote spawn c slots] split: prod.splits)
  next
    case False
    then obtain q r where pop: "PopTask (c_queue c) = (q, Some r)" by (cases "PopTask (c_queue c)") auto
    obtain c1 xs fs where round: "start_round quote spawn (c\<lparr>c_queue := q\<rparr>) r = (c1, xs, fs)"
      by (cases "start_round quote spawn (c\<lparr>c_queue := q\<rparr>) r") auto
    have "int (length xs) \<le> slots" using start_round_slots [of quote spawn "c\<lparr>c_queue := q\<rparr>" r] round False by simp
    moreover have "int (length (fst (snd (start_loop quote spawn c1 (slots - int (length xs)))))) \<le> max 0 (slots - int (length xs))"
      using 1 [of q "Some r" r c1 "(xs, fs)" xs fs] False pop round by simp
    ultimately show ?thesis
      using start_loop_step [OF _ pop round] False
      by (cases "start_loop quote spawn c1 (slots - int (length xs))") simp
  qed
qed

lemma startReady_bound:
  assumes "coord_inv c {}" "fresh_ids spawn c" "startReadyTasks quote spawn c = (c', started, failed)"
  shows "int (length (c_running c')) \<le> max (int (length (c_running c))) (c_maxParallel c)"
proof -
  have "int (length started) \<le> max 0 (c_maxParallel c - int (length (c_running c)))"
    using start_loop_slots [of quote spawn c "c_maxParallel c - int (length (c_running c))"] assms(3)
    by (auto simp: startReadyTasks_def split: prod.splits)
  then show ?thesis using startReady_registers(2) [OF assms] by simp
qed

lemma delete_length: "length (AList.delete k m) \<le> length m"
  by (simp add: AList.delete_eq)

lemma commit_running:
  "coord_inv c {} \<Longrightarrow> (a, i) \<in> set (c_running c) \<Longrightarrow> find_task c i = Some r \<Longrightarrow>
   length (c_running (fst (commit_agent quote c a i r res))) \<le> length (c_running c)"
  using commit_inv(2) [of c a i r quote res] delete_length [of a "c_running c"]
  by (cases "commit_agent quote c a i r res") simp

lemma add_pending_fst: "fst (add_pending x) = (fst x)\<lparr>c_pendingCallbacks := c_pendingCallbacks (fst x) + int (length (snd x))\<rparr>"
  by (simp add: add_pending_def split: prod.split)

lemma handle_running:
  assumes inv: "coord_inv c {}"
  shows "length (c_running (fst (handleAgentCompletionResult quote c a result))) \<le> length (c_running c)"
proof (cases "map_of (c_running c) a")
  case (Some i)
  then show ?thesis
    using commit_running [OF inv map_of_SomeD [OF Some]]
    by (simp add: handleAgentCompletionResult_def add_pending_fst split: option.split)
qed (simp add: handleAgentCompletionResult_def)

lemma check_loop_running:
  "coord_inv c {} \<Longrightarrow> distinct (map fst cas) \<Longrightarrow> (\<And>a i res. (a, i, res) \<in> set cas \<Longrightarrow> (a, i) \<in> set (c_running c)) \<Longrightarrow>
   c_running (fst (check_loop quote c cas)) = filter (\<lambda>x. fst x \<notin> fst ` set cas) (c_running c) \<and>
   length cas \<le> length (snd (check_loop quote c cas))"
proof (induction cas arbitrary: c)
  case (Cons x cas)
  obtain a i res where x: "x = (a, i, res)" by (cases x)
  have run: "(a, i) \<in> set (c_running c)" using Cons.prems(3) [of a i res] x by simp
  obtain r where r: "find_task c i = Some r" using running_task_found [OF Cons.prems(1) run] by blast
  obtain c1 cs1 where com: "commit_agent quote c a i r res = (c1, cs1)" by force
  note C = commit_inv [OF Cons.prems(1) run r com]
  have one: "1 \<le> length cs1" using com by (auto simp: commit_agent_def Let_def split: prod.splits)
  have "(b, j) \<in> set (c_running c1)" if "(b, j, res') \<in> set cas" for b j res'
    using Cons.prems(2,3) that x unfolding C(2) AList.delete_eq by (force simp: image_iff)
  with C(1) Cons.prems(2) have IH:
    "c_running (fst (check_loop quote c1 cas)) = filter (\<lambda>x. fst x \<notin> fst ` set cas) (c_running c1)"
    "length cas \<le> length (snd (check_loop quote c1 cas))"
    using Cons.IH [of c1] by (auto simp: ends_def)
  have "filter (\<lambda>x. fst x \<notin> fst ` set cas) (c_running c1) = filter (\<lambda>y. fst y \<notin> fst ` set (x # cas)) (c_running c)"
    unfolding C(2) AList.delete_eq by (auto simp: x intro: filter_cong)
  then show ?case using IH one by (cases "check_loop quote c1 cas") (simp add: x r com)
qed simp

lemma check_running:
  assumes inv: "coord_inv c {}"
  shows "c_running (fst (checkCompletedAgents quote published c)) =
      filter (\<lambda>x. fst x \<notin> fst ` set (finished_agents published c)) (c_running c)"
    "length (finished_agents published c) \<le> length (snd (checkCompletedAgents quote published c))"
proof -
  have "c_running (fst (check_loop quote c (finished_agents published c))) =
      filter (\<lambda>x. fst x \<notin> fst ` set (finished_agents published c)) (c_running c) \<and>
      length (finished_agents published c) \<le> length (snd (check_loop quote c (finished_agents published c)))"
    using finished_agents_facts [OF inv_run [OF inv]] by (intro check_loop_running inv) blast+
  then show "c_running (fst (checkCompletedAgents quote published c)) =
      filter (\<lambda>x. fst x \<notin> fst ` set (finished_agents published c)) (c_running c)"
    "length (finished_agents published c) \<le> length (snd (checkCompletedAgents quote published c))"
    by (simp_all add: checkCompletedAgents_def add_pending_def case_prod_beta)
qed

lemma resolve_running: "c_running (fst (resolve_loop quote c pend)) = c_running c"
proof (induction rule: resolve_cases_induct [where quote = quote])
  case (Fail c d pend r depID dep c1 res)
  have "c_running c1 = c_running c"
    using Fail(4) by (auto simp: failTaskForDependency_def Let_def innerD(4) [OF finish_queue(5)])
  then show ?case using Fail by (simp add: resolve_fail)
qed (simp_all add: resolve_skip resolve_ready ready_task_eq)

lemma cancel_running:
  assumes inv: "coord_inv c {}"
  shows "length (c_running (fst (CancelTask quote published cancel c i))) \<le> length (c_running c)"
proof (cases "\<exists>r. find_task c i = Some r \<and> \<not> terminal_status (t_Status (mem c r))")
  case False
  then show ?thesis by (auto simp: CancelTask_def split: option.splits)
next
  case True
  then obtain r where r: "find_task c i = Some r" "\<not> terminal_status (t_Status (mem c r))" by blast
  show ?thesis
  proof (cases "List.find (\<lambda>(a, t). t = i) (c_running c)")
    case (Some x)
    then obtain a where x: "x = (a, i)" "(a, i) \<in> set (c_running c)"
      by (cases x) (auto simp: find_Some_iff, metis nth_mem)
    then show ?thesis
      using Some r commit_running [OF inv x(2) r(1), of quote]
      by (auto simp: CancelTask_def add_pending_def split: option.split prod.splits)
        (metis fst_conv)
  next
    case None
    then show ?thesis
      using r by (simp add: CancelTask_def Let_def case_prod_beta add_pending_fst resolveDependents_def resolve_running
          mark_fields put_task_def)
  qed
qed

section \<open>Running to the end\<close>

text \<open>
  One round: start what can be started, then let every running agent finish with some result.
\<close>

definition work_round :: "(string \<Rightarrow> string) \<Rightarrow> (tref \<Rightarrow> string + string) \<Rightarrow> (string \<Rightarrow> agent_result) \<Rightarrow> coordinator \<Rightarrow> coordinator" where
  "work_round quote spawn answer c =
     fst (checkCompletedAgents quote (\<lambda>a. Some (answer a)) (fst (startReadyTasks quote spawn c)))"

primrec rounds ::
    "(string \<Rightarrow> string) \<Rightarrow> (nat \<Rightarrow> tref \<Rightarrow> string + string) \<Rightarrow> (string \<Rightarrow> agent_result) \<Rightarrow> nat \<Rightarrow> coordinator \<Rightarrow> coordinator" where
  "rounds quote spawn answer 0 c = c"
| "rounds quote spawn answer (Suc n) c = work_round quote (spawn n) answer (rounds quote spawn answer n c)"

lemma start_progress:
  assumes inv: "coord_inv c {}" and q: "tq_items (c_queue c) \<noteq> []" and slots: "int (length (c_running c)) < c_maxParallel c"
    and h: "startReadyTasks quote spawn c = (c', started, failed)"
  shows "started \<noteq> [] \<or> failed \<noteq> []"
proof -
  define n where "n = c_maxParallel c - int (length (c_running c))"
  obtain qq x where pop: "PopTask (c_queue c) = (qq, x)" by force
  then obtain r where x: "x = Some r" using PopTask_facts [OF coord_invD(1) [OF inv] pop] q by (cases x) auto
  obtain c1 xs fs where round: "start_round quote spawn (c\<lparr>c_queue := qq\<rparr>) r = (c1, xs, fs)"
    by (cases "start_round quote spawn (c\<lparr>c_queue := qq\<rparr>) r") auto
  have ready: "t_Status (tq_mem qq r) = TaskStatusReady"
    using popped(2,3) [OF inv pop [unfolded x]] unindexed_fields(3) by (metis drops_def)
  have "xs \<noteq> [] \<or> fs \<noteq> []"
    using round ready by (auto simp: start_round_def Let_def split: prod.splits option.splits)
  moreover obtain c2 ys gs where "start_loop quote spawn c1 (n - int (length xs)) = (c2, ys, gs)"
    by (cases "start_loop quote spawn c1 (n - int (length xs))") auto
  then have "start_loop quote spawn c n = (c2, xs @ ys, fs @ gs)"
    using start_loop_step [OF _ pop [unfolded x] round] slots by (simp add: n_def)
  ultimately show ?thesis using h by (auto simp: startReadyTasks_def n_def [symmetric])
qed

lemma registers_facts:
  assumes "registers c cs c'"
  shows "coord_inv c' {}" "c_tasks c' = c_tasks c" "c_maxParallel c' = c_maxParallel c"
    "length (c_completed c') = length (c_completed c) + length cs"
proof -
  obtain c1 where e: "ends c cs c1" and c': "c' = c1\<lparr>c_pendingCallbacks := c_pendingCallbacks c1 + int (length cs)\<rparr>"
    using assms by (auto simp: registers_def)
  have "coord_inv c' {} = coord_inv c1 {}" by (rule coord_inv_cong) (simp_all add: c')
  then show "coord_inv c' {}" "c_tasks c' = c_tasks c" "c_maxParallel c' = c_maxParallel c"
    "length (c_completed c') = length (c_completed c) + length cs"
    using e by (simp_all add: ends_def outer_def reports_def c')
qed

lemma map_filter_total: "List.map_filter (\<lambda>(a, i). Some (a, i, f a)) xs = map (\<lambda>(a, i). (a, i, f a)) xs"
  by (induction xs) (auto simp: map_filter_simps)

lemma registers_terminal:
  assumes "coord_inv c {}" "allTasksTerminal c" "registers c cs c'"
  shows "allTasksTerminal c'"
  using assms(3) ends_terminal(1) [OF assms(1,2)] by (auto simp: registers_def)

lemma round_facts:
  assumes inv: "coord_inv c {}" and fresh: "fresh_ids spawn c" and par: "0 < c_maxParallel c"
    and c': "c' = work_round quote spawn answer c"
  shows "coord_inv c' {}" "c_running c' = []" "c_tasks c' = c_tasks c" "c_maxParallel c' = c_maxParallel c"
    "length (c_completed c) \<le> length (c_completed c')"
    "\<not> allTasksTerminal c \<Longrightarrow> length (c_completed c) < length (c_completed c')"
    "allTasksTerminal c \<Longrightarrow> allTasksTerminal c'"
proof -
  obtain c1 started failed where s: "startReadyTasks quote spawn c = (c1, started, failed)"
    by (cases "startReadyTasks quote spawn c") auto
  obtain cs where k: "checkCompletedAgents quote (\<lambda>a. Some (answer a)) c1 = (c', cs)"
    by (cases "checkCompletedAgents quote (\<lambda>a. Some (answer a)) c1") (simp add: c' work_round_def s)
  note S = registers_facts [OF startReady_registers(1) [OF inv fresh s]]
  note K = registers_facts [OF check_inv [OF S(1) k]] and C = check_running [OF S(1), where quote = quote and published = "\<lambda>a. Some (answer a)", unfolded k]
  have all: "finished_agents (\<lambda>a. Some (answer a)) c1 = map (\<lambda>(a, i). (a, i, answer a)) (c_running c1)"
    by (simp add: finished_agents_def map_filter_total)
  show "coord_inv c' {}" "c_tasks c' = c_tasks c" "c_maxParallel c' = c_maxParallel c"
    "length (c_completed c) \<le> length (c_completed c')"
    using K S by simp_all
  show "allTasksTerminal c'" if "allTasksTerminal c"
    using registers_terminal [OF S(1) registers_terminal [OF inv that startReady_registers(1) [OF inv fresh s]] check_inv [OF S(1) k]] .
  show "c_running c' = []" using C(1) by (auto simp: all filter_empty_conv image_iff) (force simp: image_iff)
  have n: "length (c_running c1) \<le> length cs" using C(2) by (simp add: all)
  have run: "length (c_running c1) = length (c_running c) + length started" by (rule startReady_registers(2) [OF inv fresh s])
  show "length (c_completed c) < length (c_completed c')" if "\<not> allTasksTerminal c"
  proof (cases "c_running c = []")
    case True
    then have "tq_items (c_queue c) \<noteq> []" using never_stuck [OF inv] that by blast
    then have "started \<noteq> [] \<or> failed \<noteq> []" using start_progress [OF inv _ _ s] True par by simp
    then have "0 < length started \<or> 0 < length failed" by simp
    then show ?thesis using n run S(4) K(4) by linarith
  next
    case False
    then have "0 < length (c_running c)" by simp
    then show ?thesis using n run S(4) K(4) by linarith
  qed
qed

lemma completed_bound:
  assumes inv: "coord_inv c {}"
  shows "length (c_completed c) \<le> length (c_tasks c)"
proof -
  have "set (c_completed c) \<subseteq> fst ` set (c_tasks c)"
    using completed_iff [OF inv] by (force simp: find_task_def dest: map_of_SomeD)
  then have "card (set (c_completed c)) \<le> card (fst ` set (c_tasks c))" by (intro card_mono) auto
  also have "\<dots> \<le> length (c_tasks c)" by (metis card_length length_map set_map)
  finally show ?thesis using completed_distinct [OF inv] by (simp add: distinct_card)
qed

lemma rounds_facts:
  assumes inv: "coord_inv c {}" and par: "0 < c_maxParallel c" and fresh: "\<And>k. fresh_ids (spawn k) c"
  shows "coord_inv (rounds quote spawn answer n c) {} \<and> c_tasks (rounds quote spawn answer n c) = c_tasks c \<and>
    c_maxParallel (rounds quote spawn answer n c) = c_maxParallel c \<and>
    (\<forall>k. fresh_ids (spawn k) (rounds quote spawn answer n c)) \<and>
    (allTasksTerminal (rounds quote spawn answer n c) \<or> n \<le> length (c_completed (rounds quote spawn answer n c)))"
proof (induction n)
  case 0
  then show ?case using assms by simp
next
  case (Suc n)
  let ?c = "rounds quote spawn answer n c" and ?d = "rounds quote spawn answer (Suc n) c"
  have "coord_inv ?c {}" "fresh_ids (spawn n) ?c" "0 < c_maxParallel ?c" using Suc par by simp_all
  note R = round_facts [OF this, of ?d quote answer, OF rounds.simps(2)]
  have "distinct_ids (spawn k)" for k using fresh by (simp add: fresh_ids_def)
  then have "fresh_ids (spawn k) ?d" for k using R(2) by (simp add: fresh_ids_def del: rounds.simps)
  moreover have "allTasksTerminal ?d \<or> Suc n \<le> length (c_completed ?d)"
    using Suc R(6,7) by (cases "allTasksTerminal ?c") (simp_all del: rounds.simps)
  ultimately show ?case using R Suc by simp
qed

section \<open>Properties\<close>

lemma task_result: "coord_inv c X \<Longrightarrow> find_task c i = Some r \<Longrightarrow> terminal_status (t_Status (mem c r)) \<Longrightarrow> t_Result (mem c r) \<noteq> None"
  using store_okD [OF coord_invD(2)] by (simp add: task_ok_def)

text \<open>
  C22: dependencies order the work. In every reachable state of the coordinator, whatever the
  interleaving of its methods: a task that is ready, runs or has succeeded has only dependencies that
  succeeded; a task with a dependency that failed or does not exist has failed; a task still blocked
  waits for a dependency that has not ended; no task stays pending.
\<close>

theorem coordinator_respects_dependencies:
  assumes "coord_reachable quote s" and "find_task (coord s) i = Some r"
  shows "(t_Status (mem (coord s) r) \<in> {TaskStatusReady, TaskStatusRunning, TaskStatusCompleted} \<longrightarrow>
        (\<forall>d \<in> set (t_Dependencies (mem (coord s) r)). st (coord s) d = Some TaskStatusCompleted)) \<and>
    ((\<exists>d \<in> set (t_Dependencies (mem (coord s) r)). st (coord s) d = None \<or> st (coord s) d = Some TaskStatusFailed) \<longrightarrow>
        t_Status (mem (coord s) r) = TaskStatusFailed) \<and>
    (t_Status (mem (coord s) r) = TaskStatusBlocked \<longrightarrow>
        (\<exists>d \<in> set (t_Dependencies (mem (coord s) r)). \<exists>u. st (coord s) d = Some u \<and> \<not> terminal_status u)) \<and>
    t_Status (mem (coord s) r) \<noteq> TaskStatusPending"
proof -
  let ?c = "coord s" and ?t = "t_Status (mem (coord s) r)" and ?ds = "set (t_Dependencies (mem (coord s) r))"
  have inv: "coord_inv ?c {}" using coord_reachable_inv [OF assms(1)] system_invD(1) by blast
  note G = coord_invD(3) [OF inv, unfolded graph_inv_def] and f = st_find [OF assms(2)] and d = deps_find [OF assms(2)]
  have met: "st ?c x = Some TaskStatusCompleted" if "launched ?t" "x \<in> ?ds" for x
    using met_okD [of "st ?c" "deps_of ?c" i ?t x] G f that by (simp add: d)
  have ex: "st ?c x \<noteq> None" if "?t \<noteq> TaskStatusFailed" "x \<in> ?ds" for x
    using deps_okD [of "st ?c" "deps_of ?c" "created ?c" i ?t x] G f that by (simp add: d)
  have w: "waits (st ?c) (t_Dependencies (mem ?c r))" if "?t = TaskStatusBlocked"
    using G f that by (simp add: blocked_ok_def d [symmetric])
  have p: "?t \<noteq> TaskStatusPending" using G f by auto
  have fail: "?t = TaskStatusFailed" if x: "x \<in> ?ds" "st ?c x = None \<or> st ?c x = Some TaskStatusFailed" for x
  proof (rule ccontr)
    assume nf: "?t \<noteq> TaskStatusFailed"
    then have "st ?c x = Some TaskStatusFailed" using ex [OF nf x(1)] x(2) by auto
    moreover from this have "?t \<noteq> TaskStatusBlocked" using w x(1) by (auto simp: waits_def)
    moreover have "\<not> launched ?t" using calculation(1) met [of x] x(1) by auto
    ultimately show False using nf p by (cases ?t) (simp_all add: launched_def)
  qed
  have wait: "\<exists>x \<in> ?ds. \<exists>u. st ?c x = Some u \<and> \<not> terminal_status u" if b: "?t = TaskStatusBlocked"
  proof -
    obtain x where x: "x \<in> ?ds" "st ?c x \<noteq> Some TaskStatusCompleted" "st ?c x \<noteq> Some TaskStatusFailed"
      using w [OF b] by (auto simp: waits_def)
    moreover obtain u where "st ?c x = Some u" using ex [of x] x(1) b by auto
    ultimately show ?thesis by (auto simp: terminal_status_def)
  qed
  show ?thesis
  proof (intro conjI impI ballI)
    fix x assume "?t \<in> {TaskStatusReady, TaskStatusRunning, TaskStatusCompleted}" and x: "x \<in> ?ds"
    then have "launched ?t" by (simp add: launched_def)
    then show "st ?c x = Some TaskStatusCompleted" using met x by simp
  next
    assume "\<exists>x \<in> ?ds. st ?c x = None \<or> st ?c x = Some TaskStatusFailed"
    then show "?t = TaskStatusFailed" using fail by (elim bexE)
  qed (use wait p in simp_all)
qed

end
