(* ===== verification/CoordMain.thy ===== *)
theory CoordMain
  imports CoordLive
begin

text \<open>The coordinator's guarantees, on all reachable states, with a concrete run that exercises them.\<close>

section \<open>Steps\<close>

lemma launch_coord [simp]: "coord (launch s c started cs) = c"
  by (simp add: launch_def Let_def)

lemma step_running:
  assumes "coord_step quote s s'" "system_inv s"
  shows "int (length (c_running (coord s'))) \<le> max (int (length (c_running (coord s)))) (c_maxParallel (coord s))"
  using assms
proof (induction rule: coord_step.induct)
  case (add s i ds prompt ty prio i' c cs)
  have "c_running c = c_running (coord s)"
  proof (cases "c_sealed (coord s)")
    case False
    then show ?thesis
      using AddTask_inv [OF system_invD(1) [OF add(3)] False _ _ _ _ add(2)] add(1)
      by (auto simp: fresh_task_def added_def extends_def)
  qed (use add(2) in \<open>simp add: AddTask_def\<close>)
  then show ?case by simp
next
  case (ready spawn s c started failed)
  then show ?case using startReady_bound [OF system_invD(1)] by simp
next
  case (finished s agentID result c cs)
  then show ?case using handle_running [OF system_invD(1), of s quote agentID result] by simp
next
  case (check published s c cs)
  have "length (c_running c) \<le> length (c_running (coord s))"
    using check_running(1) [OF system_invD(1) [OF check(2)], where quote = quote and published = published] check(1) by simp
  then show ?case by simp
next
  case (cancel published request s taskID c cs err)
  then show ?case using cancel_running [OF system_invD(1), of s quote published request taskID] by simp
next
  case (landed s fs batch fs' c ready)
  then show ?case by (auto simp: account_batch_def Let_def)
qed (simp_all add: Coordinator_Start_def SetMaxParallel_def SetCallbacks_def publishCompletionIfReady_def notifyAllComplete_def)

text \<open>Once completion is published, no step changes a task.\<close>

lemma step_after_completion:
  assumes "coord_step quote s s'" "system_inv s" "c_completion (coord s)"
  shows "c_completion (coord s') \<and> resultsSnapshot (coord s') = resultsSnapshot (coord s) \<and>
    c_completed (coord s') = c_completed (coord s)"
proof -
  note S = system_invD [OF assms(2)]
  have fin: "c_sealed (coord s)" "allTasksTerminal (coord s)" using S(7) assms(3) by simp_all
  have keep: "c_completion c \<and> resultsSnapshot c = resultsSnapshot (coord s) \<and> c_completed c = c_completed (coord s)"
    if reg: "registers (coord s) cs c" for c cs
  proof -
    obtain c1 where e: "ends (coord s) cs c1" "c = c1\<lparr>c_pendingCallbacks := c_pendingCallbacks c1 + int (length cs)\<rparr>"
      using reg by (auto simp: registers_def)
    then show ?thesis using ends_terminal [OF S(1) fin(2) e(1)] assms(3) by (simp add: ends_def outer_def reports_def)
  qed
  show ?thesis using assms(1)
  proof cases
    case (add i ds prompt ty prio i' c cs)
    then show ?thesis using fin(1) assms(3) by (simp add: AddTask_def)
  next
    case (ready spawn c started failed)
    then show ?thesis using keep [OF startReady_registers(1) [OF S(1)]] by simp
  next
    case (finished agentID result c cs)
    then show ?thesis using keep [OF handle_inv [OF S(1)]] by simp
  next
    case (check published c cs)
    then show ?thesis using keep [OF check_inv [OF S(1)]] by simp
  next
    case (cancel published request taskID c cs err)
    then show ?thesis using keep [OF cancel_inv [OF S(1)]] by simp
  next
    case (landed fs batch fs' c ready)
    then show ?thesis using assms(3) by (auto simp: account_batch_def Let_def)
  qed (use assms(3) in \<open>simp_all add: Coordinator_Start_def SetMaxParallel_def SetCallbacks_def publishCompletionIfReady_def
      notifyAllComplete_def resultsSnapshot_def\<close>)
qed

lemma all_events_split:
  "all_events es \<noteq> [] \<Longrightarrow> \<exists>xs res ys. es = xs @ AllCompleted res # ys \<and> all_events xs = []"
proof (induction es)
  case (Cons e es)
  show ?case
  proof (cases e)
    case (AllCompleted res)
    then have "e # es = [] @ AllCompleted res # es" by simp
    then show ?thesis using events_simps(2) by metis
  next
    case (TaskStarted t)
    then obtain xs res ys where "es = xs @ AllCompleted res # ys" "all_events xs = []" using Cons by auto
    then show ?thesis using TaskStarted by (intro exI [of _ "e # xs"]) auto
  next
    case (TaskCompleted t r)
    then obtain xs res ys where "es = xs @ AllCompleted res # ys" "all_events xs = []" using Cons by auto
    then show ?thesis using TaskCompleted by (intro exI [of _ "e # xs"]) auto
  qed
qed simp

lemma all_events_one:
  assumes "events_ok es" "res \<in> set (all_events es)"
  shows "all_events es = [res]"
proof -
  obtain xs res' ys where *: "es = xs @ AllCompleted res' # ys" "all_events xs = []"
    using all_events_split [OF length_pos_if_in_set [OF assms(2), unfolded length_greater_0_conv]] by metis
  then have "all_events ys = []" using assms(1) by (simp add: events_ok_def)
  then show ?thesis using * assms(2) by simp
qed

lemma landed_quiet: "list_all flight_ok fs \<Longrightarrow> in_flight fs = 0 \<Longrightarrow> todo_ids fs = []"
  by (induction fs) (auto simp: flight_ok_def)

section \<open>A concrete run\<close>

text \<open>Two tasks, the second depending on the first; the first is cancelled, the graph is sealed, completion published.\<close>

definition demo_add :: "coord_system \<Rightarrow> string \<Rightarrow> string list \<Rightarrow> coord_system" where
  "demo_add s i ds = (case AddTask (\<lambda>x. x) (coord s) i ''work'' ''general'' PriorityNormal ds of
     (i', c, cs) \<Rightarrow> launch s c [] cs)"

definition demo_two :: coord_system where
  "demo_two = demo_add (demo_add (coord_start True None) ''a'' []) ''b'' [''a'']"

definition demo_cancelled :: coord_system where
  "demo_cancelled = (case CancelTask (\<lambda>x. x) (\<lambda>a. None) (\<lambda>a. None) (coord demo_two) ''a'' of
     (c, cs, err) \<Rightarrow> launch demo_two c [] cs)"

definition demo_published :: coord_system where
  "demo_published = (let s = demo_cancelled\<lparr>coord := Coordinator_Start (coord demo_cancelled)\<rparr>
     in s\<lparr>coord := publishCompletionIfReady (coord s)\<rparr>)"

definition demo_spawn :: "tref \<Rightarrow> string + string" where
  "demo_spawn r = Inr (if r = 0 then ''x'' else if r = 1 then ''y'' else [])"

lemma demo_reachable:
  "coord_reachable (\<lambda>x. x) demo_two" "coord_reachable (\<lambda>x. x) demo_cancelled" "coord_reachable (\<lambda>x. x) demo_published"
proof -
  have add: "coord_reachable (\<lambda>x. x) (demo_add s i ds)" if "coord_reachable (\<lambda>x. x) s" "fresh_task (coord s) i ds" for s i ds
    using that coord_reachable.step coord_step.add by (auto simp: demo_add_def split: prod.split)
  have "fresh_task (coord (coord_start True None)) ''a'' []"
    "fresh_task (coord (demo_add (coord_start True None) ''a'' [])) ''b'' [''a'']"
    unfolding fresh_task_def by code_simp+
  then show two: "coord_reachable (\<lambda>x. x) demo_two"
    unfolding demo_two_def by (intro add coord_reachable.start)
  then show c: "coord_reachable (\<lambda>x. x) demo_cancelled"
    unfolding demo_cancelled_def using coord_reachable.step coord_step.cancel by (auto split: prod.split)
  show "coord_reachable (\<lambda>x. x) demo_published"
    unfolding demo_published_def Let_def
    by (rule coord_reachable.step [OF coord_reachable.step [OF c coord_step.seal] coord_step.publish])
qed

lemma demo_fresh: "fresh_ids demo_spawn (coord demo_two)"
proof -
  have "c_running (coord demo_two) = []" by code_simp
  moreover have "distinct_ids demo_spawn" by (auto simp: distinct_ids_def demo_spawn_def split: if_splits)
  ultimately show ?thesis by (simp add: fresh_ids_def)
qed

lemma demo_facts:
  "find_task (coord demo_cancelled) ''b'' = Some 1" "t_Dependencies (mem (coord demo_cancelled) 1) = [''a'']"
  "st (coord demo_cancelled) ''a'' = Some TaskStatusFailed"
  "completed_ids (c_events (coord demo_cancelled)) = []" "todo_ids (flights demo_cancelled) = []"
  "unheard demo_cancelled = [''a'', ''b'']" "c_completion (coord demo_published)" "length (c_tasks (coord demo_two)) = 2"
  by code_simp+

theorem coordinator_respects_dependencies_witness:
  "t_Status (mem (coord demo_cancelled) 1) = TaskStatusFailed"
proof -
  have "\<exists>d \<in> set (t_Dependencies (mem (coord demo_cancelled) 1)).
      st (coord demo_cancelled) d = None \<or> st (coord demo_cancelled) d = Some TaskStatusFailed"
    unfolding demo_facts(2) using demo_facts(3) by simp
  from coordinator_respects_dependencies [OF demo_reachable(2) demo_facts(1), THEN conjunct2, THEN conjunct1, THEN mp, OF this]
  show ?thesis .
qed

section \<open>Properties\<close>

text \<open>
  The limit on parallel agents. No step of the coordinator raises the number of running agents
  above \<open>maxParallel\<close>: only \<open>startReadyTasksLocked\<close> starts agents, and only into free slots. A limit
  lowered below the number already running stops no agent.
\<close>

theorem coordinator_bounds_parallelism:
  assumes "coord_reachable quote s" and "coord_step quote s s'"
  shows "int (length (c_running (coord s'))) \<le> max (int (length (c_running (coord s)))) (c_maxParallel (coord s)) \<and>
    0 < c_maxParallel (coord s')"
  using step_running [OF assms(2)] coord_reachable_inv [OF assms(1)] step_inv [OF assms(2)] system_invD(2) by blast

text \<open>
  C24: completions are reported exactly once. In every reachable state the tasks that have ended are
  exactly those reported to the completion callback, those still to be reported by a delivery in
  flight, and those that ended while no callback was installed; none is counted twice, and the
  coordinator's counter of pending callbacks is the number of completions in flight.
\<close>

theorem coordinator_reports_exactly_once:
  assumes "coord_reachable quote s"
  shows "distinct (completed_ids (c_events (coord s)) @ todo_ids (flights s) @ unheard s) \<and>
    (\<forall>i. i \<in> set (completed_ids (c_events (coord s)) @ todo_ids (flights s) @ unheard s) \<longleftrightarrow>
       st (coord s) i = Some TaskStatusCompleted \<or> st (coord s) i = Some TaskStatusFailed) \<and>
    c_pendingCallbacks (coord s) = int (in_flight (flights s))"
proof -
  note S = system_invD [OF coord_reachable_inv [OF assms]]
  let ?l = "completed_ids (c_events (coord s)) @ todo_ids (flights s) @ unheard s"
  have m: "mset ?l = mset (c_completed (coord s))" by (simp add: S(4))
  then have "distinct ?l" using completed_distinct [OF S(1)] by (metis mset_eq_imp_distinct_iff)
  moreover have "set ?l = set (c_completed (coord s))" using m by (metis mset_eq_setD)
  ultimately show ?thesis
    using coord_invD(3) [OF S(1)] S(3) by (simp add: graph_inv_def done_ok_def)
qed

text \<open>
  Completion is announced once, and last. Once the coordinator has published completion, which is
  what \<open>Wait\<close> returns on, it is sealed, every task has ended with a result, and no later step changes
  any result. The all-complete callback is invoked at most once, with exactly these results, after
  every completion callback has returned, and no completion is reported after it.
\<close>

theorem coordinator_completion_is_final:
  assumes "coord_reachable quote s"
  shows "(c_completion (coord s) \<longrightarrow>
       c_sealed (coord s) \<and> (\<forall>(i, res) \<in> set (resultsSnapshot (coord s)). res \<noteq> None) \<and>
       (\<forall>s'. coord_step quote s s' \<longrightarrow> c_completion (coord s') \<and> resultsSnapshot (coord s') = resultsSnapshot (coord s) \<and>
          WaitWithTimeoutCtx (coord s') timeout CompletionClosed = (resultsSnapshot (coord s), None))) \<and>
    (\<forall>xs res ys. c_events (coord s) = xs @ AllCompleted res # ys \<longrightarrow>
       c_completion (coord s) \<and> res = resultsSnapshot (coord s) \<and> all_events (c_events (coord s)) = [res] \<and>
       todo_ids (flights s) = [] \<and> c_pendingCallbacks (coord s) = 0 \<and> completed_ids ys = [])"
proof (intro conjI impI allI)
  note R = coord_reachable_inv [OF assms]
  note S = system_invD [OF R]
  {
    assume c: "c_completion (coord s)"
    then show "c_sealed (coord s)" using S(7) by simp
    have "t_Result (mem (coord s) r) \<noteq> None" if "(i, r) \<in> set (c_tasks (coord s))" for i r
    proof -
      have "distinct (map fst (c_tasks (coord s)))" using coord_invD(2) [OF S(1)] by (simp add: store_ok_def)
      then have "find_task (coord s) i = Some r" using that by (simp add: find_task_def)
      moreover have "terminal_status (t_Status (mem (coord s) r))"
        using S(7) [OF c] that by (auto simp: allTasksTerminal_def list_all_iff)
      ultimately show ?thesis using task_result [OF S(1)] by simp
    qed
    then show "\<forall>(i, res) \<in> set (resultsSnapshot (coord s)). res \<noteq> None" by (auto simp: resultsSnapshot_def)
    fix s' assume step: "coord_step quote s s'"
    note K = step_after_completion [OF step R c]
    then show "c_completion (coord s')" "resultsSnapshot (coord s') = resultsSnapshot (coord s)" by simp_all
    then show "WaitWithTimeoutCtx (coord s') timeout CompletionClosed = (resultsSnapshot (coord s), None)"
      by (simp add: WaitWithTimeoutCtx_def)
  next
    fix xs res ys assume ev: "c_events (coord s) = xs @ AllCompleted res # ys"
    have mem: "res \<in> set (all_events (c_events (coord s)))" by (simp add: ev)
    have "all_events (c_events (coord s)) \<noteq> []" by (simp add: ev)
    then have once: "c_allCompleteOnce (coord s)" by (rule S(9))
    then show "c_completion (coord s)" using S(8) by simp
    show "res = resultsSnapshot (coord s)" using S(10) [OF mem] .
    show "all_events (c_events (coord s)) = [res]" using all_events_one [OF S(6) mem] .
    show "todo_ids (flights s) = []" using landed_quiet [OF S(5)] S(8) [OF once] by simp
    show "c_pendingCallbacks (coord s) = 0" using S(3) S(8) [OF once] by simp
    show "completed_ids ys = []" using S(6) ev by (simp add: events_ok_def)
  }
qed

text \<open>
  C23: no task is left behind. From every reachable state, if each round starts what can be started
  and then every running agent ends, with success or failure in any mixture, then after as many
  rounds as there are tasks every task has ended, whatever the dependencies.
\<close>

theorem coordinator_runs_to_completion:
  assumes "coord_reachable quote s" and "\<And>k. fresh_ids (spawn k) (coord s)"
  shows "allTasksTerminal (rounds quote spawn answer (length (c_tasks (coord s))) (coord s))"
proof -
  note S = system_invD [OF coord_reachable_inv [OF assms(1)]]
  let ?c = "rounds quote spawn answer (length (c_tasks (coord s))) (coord s)"
  have F: "coord_inv ?c {}" "c_tasks ?c = c_tasks (coord s)"
    "allTasksTerminal ?c \<or> length (c_tasks (coord s)) \<le> length (c_completed ?c)"
    using rounds_facts [OF S(1,2) assms(2)] by simp_all
  show ?thesis
  proof (rule ccontr)
    assume no: "\<not> allTasksTerminal ?c"
    then obtain i r where f: "find_task ?c i = Some r" "\<not> terminal_status (t_Status (mem ?c r))"
      using terminal_iff [OF F(1)] by auto
    have "set (c_completed ?c) \<subseteq> fst ` set (c_tasks ?c) - {i}"
      using completed_iff [OF F(1)] f by (force simp: find_task_def dest: map_of_SomeD)
    moreover have "i \<in> fst ` set (c_tasks ?c)" using f(1) by (force simp: find_task_def dest: map_of_SomeD)
    ultimately have "card (set (c_completed ?c)) < card (fst ` set (c_tasks ?c))"
      by (intro psubset_card_mono) auto
    moreover have "card (fst ` set (c_tasks ?c)) \<le> length (c_tasks ?c)" by (metis card_length length_map set_map)
    ultimately show False using F(2,3) no completed_distinct [OF F(1)] by (simp add: distinct_card)
  qed
qed

theorem coordinator_bounds_parallelism_witness:
  "int (length (c_running (fst (startReadyTasks (\<lambda>x. x) demo_spawn (coord demo_two))))) \<le> 3"
proof -
  obtain c started failed where h: "startReadyTasks (\<lambda>x. x) demo_spawn (coord demo_two) = (c, started, failed)"
    by (cases "startReadyTasks (\<lambda>x. x) demo_spawn (coord demo_two)") auto
  have "c_running (coord demo_two) = []" "c_maxParallel (coord demo_two) = 3" by code_simp+
  with coordinator_bounds_parallelism [OF demo_reachable(1) coord_step.ready [OF demo_fresh h]] show ?thesis by (simp add: h)
qed

theorem coordinator_reports_exactly_once_witness:
  "distinct (unheard demo_cancelled) \<and> (st (coord demo_cancelled) ''b'' = Some TaskStatusCompleted \<or>
     st (coord demo_cancelled) ''b'' = Some TaskStatusFailed)"
  using coordinator_reports_exactly_once [OF demo_reachable(2), THEN conjunct1]
    coordinator_reports_exactly_once [OF demo_reachable(2), THEN conjunct2, THEN conjunct1, THEN spec, of "''b''"]
  by (simp add: demo_facts)

theorem coordinator_completion_is_final_witness:
  "c_sealed (coord demo_published) \<and> None \<notin> snd ` set (resultsSnapshot (coord demo_published))"
proof -
  have "c_sealed (coord demo_published) \<and> (\<forall>(i, res) \<in> set (resultsSnapshot (coord demo_published)). res \<noteq> None)"
    using coordinator_completion_is_final [OF demo_reachable(3), THEN conjunct1, THEN mp, OF demo_facts(7)] by simp
  then show ?thesis by auto
qed

theorem coordinator_runs_to_completion_witness:
  "allTasksTerminal (rounds (\<lambda>x. x) (\<lambda>k. demo_spawn) (\<lambda>a. cancelled_result ''general'') 2 (coord demo_two))"
  using coordinator_runs_to_completion [OF demo_reachable(1) demo_fresh] by (simp only: demo_facts(8))

end
