(* ===== verification/PlanUndo.thy ===== *)
theory PlanUndo
  imports PlanCore
begin

text \<open>
  \<open>internal/plan/undo.go\<close>: checkpoints of a plan before it runs, and the capture of the exact
  file changes of one execution segment between two snapshots of the shared undo history.

  The plan the manager currently owns is an argument (\<open>None\<close> is a nil plan). Counters of the undo
  history are \<open>uint64\<close> in the code and \<open>64 word\<close> here. A deep copy of a checkpoint is the
  checkpoint itself.

  Lemmas: the history never outgrows its bound, undo and redo exclude one another, a capture
  records exactly the changes that appeared in its segment, and it is usable for undo exactly when
  the counters show that nothing else touched the history.
\<close>

section \<open>State\<close>

record undo_state =
  u_PlanID :: string
  u_PlanTitle :: string
  u_Description :: string
  u_Request :: string
  u_Steps :: "step list"
  u_Timestamp :: time
  u_Executed :: "int list"
  u_ChangeIDs :: "string list"
  u_Undone :: bool
  u_CaptureOK :: bool
  u_CaptureErr :: string

record undo_capture =
  c_planID :: string
  c_baseline :: "string list"
  c_records :: "64 word"
  c_mutations :: "64 word"

record history_snapshot =
  hs_ChangeIDs :: "string list"
  hs_RecordCount :: "64 word"
  hs_Mutations :: "64 word"

record undo_ext =
  x_history :: "undo_state list"
  x_maxHistory :: nat
  x_active :: "undo_capture option"

definition NewManagerUndoExtension :: "int \<Rightarrow> undo_ext" where
  "NewManagerUndoExtension maxHistory =
     \<lparr>x_history = [], x_maxHistory = (if maxHistory \<le> 0 then 10 else nat maxHistory), x_active = None\<rparr>"

text \<open>The latest checkpoint, \<open>e.history[len(e.history)-1]\<close>, and its update through the pointer.\<close>

definition last_checkpoint :: "undo_ext \<Rightarrow> undo_state option" where
  "last_checkpoint e = (if x_history e = [] then None else Some (last (x_history e)))"

definition update_last :: "('a \<Rightarrow> 'a) \<Rightarrow> 'a list \<Rightarrow> 'a list" where
  "update_last f xs = (if xs = [] then [] else butlast xs @ [f (last xs)])"

section \<open>Checkpoints\<close>

definition checkpoint_of :: "plan \<Rightarrow> time \<Rightarrow> undo_state" where
  "checkpoint_of p now =
     \<lparr>u_PlanID = p_ID p, u_PlanTitle = p_Title p, u_Description = p_Description p,
      u_Request = p_Request p, u_Steps = p_Steps p, u_Timestamp = now, u_Executed = [],
      u_ChangeIDs = [], u_Undone = False, u_CaptureOK = True, u_CaptureErr = []\<rparr>"

definition no_plan_error :: string where
  "no_plan_error = ''no active plan to checkpoint''"

definition SaveCheckpoint :: "undo_ext \<Rightarrow> plan option \<Rightarrow> time \<Rightarrow> undo_ext \<times> string option" where
  "SaveCheckpoint e current now =
     (case current of
        None \<Rightarrow> (e, Some no_plan_error)
      | Some p \<Rightarrow>
          let h = x_history e @ [checkpoint_of p now]
          in (e\<lparr>x_history := (if x_maxHistory e < length h then drop 1 h else h)\<rparr>, None))"

definition RecordExecutedStep :: "undo_ext \<Rightarrow> int \<Rightarrow> undo_ext" where
  "RecordExecutedStep e stepID =
     e\<lparr>x_history := update_last
         (\<lambda>st. if stepID \<in> set (u_Executed st) then st else st\<lparr>u_Executed := u_Executed st @ [stepID]\<rparr>)
         (x_history e)\<rparr>"

definition GetLastCheckpoint :: "undo_ext \<Rightarrow> undo_state option" where
  "GetLastCheckpoint e = last_checkpoint e"

definition GetHistory :: "undo_ext \<Rightarrow> undo_state list" where
  "GetHistory e = x_history e"

definition ClearHistory :: "undo_ext \<Rightarrow> undo_ext" where
  "ClearHistory e = e\<lparr>x_history := [], x_active := None\<rparr>"

definition CanUndo :: "undo_ext \<Rightarrow> bool" where
  "CanUndo e =
     (case last_checkpoint e of None \<Rightarrow> False | Some st \<Rightarrow> \<not> u_Undone st \<and> u_CaptureOK st)"

definition CanRedo :: "undo_ext \<Rightarrow> bool" where
  "CanRedo e =
     (case last_checkpoint e of
        None \<Rightarrow> False
      | Some st \<Rightarrow> u_Undone st \<and> u_CaptureOK st \<and> 0 < length (u_ChangeIDs st))"

section \<open>Capturing one execution segment\<close>

definition capture_reuses :: "undo_ext \<Rightarrow> plan \<Rightarrow> bool" where
  "capture_reuses e p =
     (case last_checkpoint e of None \<Rightarrow> False | Some st \<Rightarrow> u_PlanID st = p_ID p \<and> \<not> u_Undone st)"

definition BeginCapture ::
    "undo_ext \<Rightarrow> plan option \<Rightarrow> history_snapshot \<Rightarrow> time \<Rightarrow> undo_ext \<times> string option" where
  "BeginCapture e current snapshot now =
     (case current of
        None \<Rightarrow> (e, Some no_plan_error)
      | Some p \<Rightarrow>
          (case (if capture_reuses e p then (e, None) else SaveCheckpoint e current now) of
             (e, Some err) \<Rightarrow> (e, Some err)
           | (e, None) \<Rightarrow>
               (e\<lparr>x_active := Some \<lparr>c_planID = p_ID p, c_baseline = hs_ChangeIDs snapshot,
                    c_records = hs_RecordCount snapshot, c_mutations = hs_Mutations snapshot\<rparr>\<rparr>, None)))"

text \<open>The loop of \<open>FinishCapture\<close>: the change IDs after the loop, and how many were added.\<close>

fun capture_loop :: "string list \<Rightarrow> string list \<Rightarrow> nat \<Rightarrow> string list \<Rightarrow> string list \<times> nat" where
  "capture_loop baseline known captured [] = (known, captured)"
| "capture_loop baseline known captured (c # cs) =
     (if c \<in> set baseline then capture_loop baseline known captured cs
      else if c \<in> set known then capture_loop baseline known captured cs
      else capture_loop baseline (known @ [c]) (captured + 1) cs)"

definition capture_verdict :: "undo_capture \<Rightarrow> history_snapshot \<Rightarrow> nat \<Rightarrow> string option" where
  "capture_verdict c snapshot captured =
     (if hs_RecordCount snapshot < c_records c \<or> hs_Mutations snapshot < c_mutations c
      then Some ''undo history revision moved backwards during plan execution''
      else let newRecords = hs_RecordCount snapshot - c_records c;
               newMutations = hs_Mutations snapshot - c_mutations c
           in if newMutations \<noteq> newRecords then Some ''undo history changed during plan execution''
              else if of_nat captured \<noteq> newRecords
              then Some ''plan change history exceeded the undo retention limit''
              else None)"

definition finish_state :: "undo_capture \<Rightarrow> history_snapshot \<Rightarrow> undo_state \<Rightarrow> undo_state" where
  "finish_state c snapshot st =
     (let (ids, captured) = capture_loop (c_baseline c) (u_ChangeIDs st) 0 (hs_ChangeIDs snapshot);
          st = st\<lparr>u_ChangeIDs := ids\<rparr>
      in case capture_verdict c snapshot captured of
           None \<Rightarrow> st
         | Some err \<Rightarrow> st\<lparr>u_CaptureOK := False, u_CaptureErr := err\<rparr>)"

definition FinishCapture :: "undo_ext \<Rightarrow> history_snapshot \<Rightarrow> undo_ext" where
  "FinishCapture e snapshot =
     (case (x_active e, last_checkpoint e) of
        (Some c, Some st) \<Rightarrow>
          if u_PlanID st \<noteq> c_planID c \<or> u_Undone st then e\<lparr>x_active := None\<rparr>
          else e\<lparr>x_history := update_last (finish_state c snapshot) (x_history e), x_active := None\<rparr>
      | _ \<Rightarrow> e)"

definition stale_checkpoint_error :: "string \<Rightarrow> string" where
  "stale_checkpoint_error planID = ''plan checkpoint '' @ planID @ '' is no longer current''"

definition mark_last :: "undo_ext \<Rightarrow> string \<Rightarrow> bool \<Rightarrow> undo_ext \<times> string option" where
  "mark_last e planID undone =
     (case last_checkpoint e of
        None \<Rightarrow> (e, Some (stale_checkpoint_error planID))
      | Some st \<Rightarrow>
          if u_PlanID st \<noteq> planID then (e, Some (stale_checkpoint_error planID))
          else (e\<lparr>x_history := update_last (\<lambda>st. st\<lparr>u_Undone := undone\<rparr>) (x_history e)\<rparr>, None))"

definition MarkUndone :: "undo_ext \<Rightarrow> string \<Rightarrow> undo_ext \<times> string option" where
  "MarkUndone e planID = mark_last e planID True"

definition MarkRedone :: "undo_ext \<Rightarrow> string \<Rightarrow> undo_ext \<times> string option" where
  "MarkRedone e planID = mark_last e planID False"

section \<open>Lemmas\<close>

lemma update_last_simps [simp]:
  "length (update_last f xs) = length xs" "update_last f xs = [] \<longleftrightarrow> xs = []"
  by (auto simp: update_last_def)

lemma last_update_last [simp]: "xs \<noteq> [] \<Longrightarrow> last (update_last f xs) = f (last xs)"
  by (simp add: update_last_def)

lemma butlast_update_last [simp]: "butlast (update_last f xs) = butlast xs"
  by (simp add: update_last_def)

lemma last_checkpoint_update:
  "last_checkpoint (e\<lparr>x_history := update_last f (x_history e)\<rparr>) = map_option f (last_checkpoint e)"
  by (simp add: last_checkpoint_def)

lemma last_checkpoint_active [simp]: "last_checkpoint (e\<lparr>x_active := a\<rparr>) = last_checkpoint e"
  by (simp add: last_checkpoint_def)

text \<open>What the capture loop collects: the fresh IDs in order, each once.\<close>

definition fresh_ids :: "string list \<Rightarrow> string list \<Rightarrow> string list \<Rightarrow> string list" where
  "fresh_ids baseline known ids =
     filter (\<lambda>c. c \<notin> set baseline \<and> c \<notin> set known) (rev (remdups (rev ids)))"

lemma rev_remdups_Cons: "rev (remdups (rev (c # cs))) = c # filter (\<lambda>x. x \<noteq> c) (rev (remdups (rev cs)))"
proof -
  have "remdups (ys @ [c]) = filter (\<lambda>x. x \<noteq> c) (remdups ys) @ [c]" for ys :: "'a list"
    by (induction ys) auto
  from this [of "rev cs"] show ?thesis by (simp add: rev_filter)
qed

lemma capture_loop_fresh:
  "capture_loop baseline known n ids =
     (known @ fresh_ids baseline known ids, n + length (fresh_ids baseline known ids))"
proof (induction baseline known n ids rule: capture_loop.induct)
  case (2 baseline known captured c cs)
  have step: "fresh_ids baseline known (c # cs) =
      (if c \<in> set baseline \<or> c \<in> set known then fresh_ids baseline known cs
       else c # fresh_ids baseline (known @ [c]) cs)"
    unfolding fresh_ids_def rev_remdups_Cons by (auto intro!: filter_cong)
  from 2 show ?case by (auto simp: step)
qed (simp add: fresh_ids_def)

lemma distinct_fresh_ids: "distinct (fresh_ids baseline known ids)"
  by (simp add: fresh_ids_def)

lemma set_fresh_ids: "set (fresh_ids baseline known ids) = set ids - set baseline - set known"
  by (auto simp: fresh_ids_def)

lemma history_bound_save:
  "length (x_history e) \<le> x_maxHistory e \<Longrightarrow> 0 < x_maxHistory e \<Longrightarrow>
   length (x_history (fst (SaveCheckpoint e current now))) \<le> x_maxHistory e"
  by (auto simp: SaveCheckpoint_def Let_def split: option.splits)

lemma save_last:
  "0 < x_maxHistory e \<Longrightarrow>
   last_checkpoint (fst (SaveCheckpoint e (Some p) now)) = Some (checkpoint_of p now)"
  by (auto simp: SaveCheckpoint_def last_checkpoint_def Let_def last_drop)

lemma max_unchanged [simp]: "x_maxHistory (fst (SaveCheckpoint e current now)) = x_maxHistory e"
  by (auto simp: SaveCheckpoint_def Let_def split: option.splits)

lemma save_no_error [simp]: "snd (SaveCheckpoint e (Some p) now) = None"
  by (simp add: SaveCheckpoint_def Let_def)

lemma begin_capture_ok:
  assumes "0 < x_maxHistory e"
  shows "snd (BeginCapture e (Some p) s0 now) = None"
    and "x_active (fst (BeginCapture e (Some p) s0 now)) =
      Some \<lparr>c_planID = p_ID p, c_baseline = hs_ChangeIDs s0, c_records = hs_RecordCount s0,
            c_mutations = hs_Mutations s0\<rparr>"
    and "last_checkpoint (fst (BeginCapture e (Some p) s0 now)) =
      (if capture_reuses e p then last_checkpoint e else Some (checkpoint_of p now))"
  using save_last [OF assms, of p now] save_no_error [of e p now]
  by (cases "SaveCheckpoint e (Some p) now"; auto simp: BeginCapture_def split: option.splits)+

text \<open>Recording executed steps changes nothing but their list.\<close>

lemma executed_last:
  "last_checkpoint e = Some st \<Longrightarrow>
   \<exists>xs. last_checkpoint (RecordExecutedStep e i) = Some (st\<lparr>u_Executed := xs\<rparr>) \<and>
        x_active (RecordExecutedStep e i) = x_active e"
  unfolding RecordExecutedStep_def last_checkpoint_update
  by (cases "i \<in> set (u_Executed st)")
     (auto intro: exI [of _ "u_Executed st"] exI [of _ "u_Executed st @ [i]"])

lemma executed_all_last:
  "last_checkpoint e = Some st \<Longrightarrow>
   \<exists>xs. last_checkpoint (foldl RecordExecutedStep e is) = Some (st\<lparr>u_Executed := xs\<rparr>) \<and>
        x_active (foldl RecordExecutedStep e is) = x_active e"
proof (induction "is" arbitrary: e st)
  case Nil
  then show ?case by (auto intro!: exI [of _ "u_Executed st"])
next
  case (Cons i js)
  obtain xs where "last_checkpoint (RecordExecutedStep e i) = Some (st\<lparr>u_Executed := xs\<rparr>)"
    and "x_active (RecordExecutedStep e i) = x_active e"
    using executed_last [OF Cons.prems] by blast
  then show ?case using Cons.IH [of "RecordExecutedStep e i" "st\<lparr>u_Executed := xs\<rparr>"] by auto
qed

lemma finish_last:
  assumes "x_active e = Some c" "last_checkpoint e = Some st" "u_PlanID st = c_planID c" "\<not> u_Undone st"
  shows "last_checkpoint (FinishCapture e s1) = Some (finish_state c s1 st)"
  using assms by (auto simp: FinishCapture_def last_checkpoint_update [symmetric] last_checkpoint_def)

lemma verdict_None_iff:
  "capture_verdict c s1 n = None \<longleftrightarrow>
   c_records c \<le> hs_RecordCount s1 \<and> c_mutations c \<le> hs_Mutations s1 \<and>
   hs_Mutations s1 - c_mutations c = hs_RecordCount s1 - c_records c \<and>
   of_nat n = hs_RecordCount s1 - c_records c"
  by (auto simp: capture_verdict_def Let_def not_less)

lemma capture_result:
  assumes "0 < x_maxHistory e"
    and "st0 = (if capture_reuses e p then last (x_history e) else checkpoint_of p now)"
    and "new = fresh_ids (hs_ChangeIDs s0) (u_ChangeIDs st0) (hs_ChangeIDs s1)"
    and "e' = FinishCapture (foldl RecordExecutedStep (fst (BeginCapture e (Some p) s0 now)) steps) s1"
  shows "\<exists>st. last_checkpoint e' = Some st \<and> u_PlanID st = p_ID p \<and> \<not> u_Undone st \<and>
    u_ChangeIDs st = u_ChangeIDs st0 @ new \<and>
    (u_CaptureOK st \<longleftrightarrow>
       u_CaptureOK st0 \<and> hs_RecordCount s0 \<le> hs_RecordCount s1 \<and> hs_Mutations s0 \<le> hs_Mutations s1 \<and>
       hs_Mutations s1 - hs_Mutations s0 = hs_RecordCount s1 - hs_RecordCount s0 \<and>
       of_nat (length new) = hs_RecordCount s1 - hs_RecordCount s0)"
proof -
  let ?e1 = "fst (BeginCapture e (Some p) s0 now)"
  let ?c = "\<lparr>c_planID = p_ID p, c_baseline = hs_ChangeIDs s0, c_records = hs_RecordCount s0,
             c_mutations = hs_Mutations s0\<rparr>"
  have st0: "last_checkpoint ?e1 = Some st0" "u_PlanID st0 = p_ID p" "\<not> u_Undone st0"
    using assms(2) begin_capture_ok(3) [OF assms(1), of p s0 now]
    by (auto simp: capture_reuses_def last_checkpoint_def checkpoint_of_def split: if_splits)
  obtain xs where e2: "last_checkpoint (foldl RecordExecutedStep ?e1 steps) = Some (st0\<lparr>u_Executed := xs\<rparr>)"
    "x_active (foldl RecordExecutedStep ?e1 steps) = Some ?c"
    using executed_all_last [OF st0(1), of steps] begin_capture_ok(2) [OF assms(1), of p s0 now] by auto
  have "last_checkpoint e' = Some (finish_state ?c s1 (st0\<lparr>u_Executed := xs\<rparr>))"
    unfolding assms(4) using st0 by (intro finish_last [OF e2(2,1)]) simp_all
  then show ?thesis
    using st0 verdict_None_iff [of ?c s1 "length new"]
    by (cases "capture_verdict ?c s1 (length new)")
       (auto simp: finish_state_def capture_loop_fresh assms(3))
qed

section \<open>Properties\<close>

text \<open>
  The capture of an execution segment is exact. Between \<open>BeginCapture\<close> at history snapshot
  \<open>s0\<close> and \<open>FinishCapture\<close> at \<open>s1\<close>, with any number of steps recorded as executed, the checkpoint of
  the plan (the reused one when the same plan resumes, a new one otherwise) gains exactly the
  change IDs of \<open>s1\<close> that were neither in \<open>s0\<close> nor captured before, in order and once each; and it
  stays usable for undo exactly when it was before, the counters did not move backwards, every
  history mutation was a new record, and every new record was captured.
\<close>

theorem capture_exact:
  assumes "0 < x_maxHistory e"
    and "st0 = (if capture_reuses e p then last (x_history e) else checkpoint_of p now)"
    and "new = fresh_ids (hs_ChangeIDs s0) (u_ChangeIDs st0) (hs_ChangeIDs s1)"
    and "e' = FinishCapture (foldl RecordExecutedStep (fst (BeginCapture e (Some p) s0 now)) steps) s1"
  shows "\<exists>st. last_checkpoint e' = Some st \<and> u_PlanID st = p_ID p \<and>
    u_ChangeIDs st = u_ChangeIDs st0 @ new \<and>
    (u_CaptureOK st \<longleftrightarrow>
       u_CaptureOK st0 \<and> hs_RecordCount s0 \<le> hs_RecordCount s1 \<and> hs_Mutations s0 \<le> hs_Mutations s1 \<and>
       hs_Mutations s1 - hs_Mutations s0 = hs_RecordCount s1 - hs_RecordCount s0 \<and>
       of_nat (length new) = hs_RecordCount s1 - hs_RecordCount s0)"
  using capture_result [OF assms] by auto

definition undo_demo_plan :: plan where
  "undo_demo_plan = NewPlan ''t'' ''d'' 7"

theorem capture_exact_witness:
  "\<exists>st. last_checkpoint (FinishCapture (foldl RecordExecutedStep
       (fst (BeginCapture (NewManagerUndoExtension 2) (Some undo_demo_plan)
          \<lparr>hs_ChangeIDs = [''a''], hs_RecordCount = 1, hs_Mutations = 1\<rparr> 9)) [1, 2])
       \<lparr>hs_ChangeIDs = [''a'', ''b''], hs_RecordCount = 2, hs_Mutations = 2\<rparr>) = Some st \<and>
     u_ChangeIDs st = [''b''] \<and> u_CaptureOK st"
  using capture_exact [of "NewManagerUndoExtension 2" _ undo_demo_plan 9 _
      "\<lparr>hs_ChangeIDs = [''a''], hs_RecordCount = 1, hs_Mutations = 1\<rparr>"
      "\<lparr>hs_ChangeIDs = [''a'', ''b''], hs_RecordCount = 2, hs_Mutations = 2\<rparr>" _ "[1, 2]", OF _ refl refl refl]
  by (fastforce simp: NewManagerUndoExtension_def capture_reuses_def last_checkpoint_def checkpoint_of_def
      fresh_ids_def)

section \<open>Reachable histories\<close>

inductive undo_reachable :: "undo_ext \<Rightarrow> bool" where
  init: "undo_reachable (NewManagerUndoExtension n)"
| save: "undo_reachable e \<Longrightarrow> undo_reachable (fst (SaveCheckpoint e current now))"
| executed: "undo_reachable e \<Longrightarrow> undo_reachable (RecordExecutedStep e i)"
| clear: "undo_reachable e \<Longrightarrow> undo_reachable (ClearHistory e)"
| begin_capture: "undo_reachable e \<Longrightarrow> undo_reachable (fst (BeginCapture e current snap now))"
| finish_capture: "undo_reachable e \<Longrightarrow> undo_reachable (FinishCapture e snap)"
| undone: "undo_reachable e \<Longrightarrow> undo_reachable (fst (MarkUndone e planID))"
| redone: "undo_reachable e \<Longrightarrow> undo_reachable (fst (MarkRedone e planID))"

definition checkpoint_ok :: "undo_state \<Rightarrow> bool" where
  "checkpoint_ok st \<longleftrightarrow> distinct (u_Executed st) \<and> (distinct (u_ChangeIDs st))"

definition undo_inv :: "undo_ext \<Rightarrow> bool" where
  "undo_inv e \<longleftrightarrow>
     0 < x_maxHistory e \<and> length (x_history e) \<le> x_maxHistory e \<and> list_all checkpoint_ok (x_history e)"

lemma update_last_all: "list_all P xs \<Longrightarrow> (\<And>x. P x \<Longrightarrow> P (f x)) \<Longrightarrow> list_all P (update_last f xs)"
  by (induction xs rule: rev_induct) (auto simp: update_last_def)

lemma undo_inv_update_last:
  "undo_inv e \<Longrightarrow> (\<And>st. checkpoint_ok st \<Longrightarrow> checkpoint_ok (f st)) \<Longrightarrow>
   undo_inv (e\<lparr>x_history := update_last f (x_history e)\<rparr>)"
  by (simp add: undo_inv_def update_last_all)

lemma undo_inv_active [simp]: "undo_inv (e\<lparr>x_active := a\<rparr>) = undo_inv e"
  by (simp add: undo_inv_def)

lemma undo_inv_save: "undo_inv e \<Longrightarrow> undo_inv (fst (SaveCheckpoint e current now))"
  by (auto simp: undo_inv_def SaveCheckpoint_def Let_def checkpoint_of_def checkpoint_ok_def list_all_iff
      dest: in_set_dropD split: option.splits)

lemma undo_inv_begin: "undo_inv e \<Longrightarrow> undo_inv (fst (BeginCapture e current snap now))"
  using undo_inv_save [of e current now]
  by (auto simp: BeginCapture_def split: option.splits prod.splits)

lemma finish_state_ok: "checkpoint_ok st \<Longrightarrow> checkpoint_ok (finish_state c snap st)"
  by (auto simp: finish_state_def capture_loop_fresh checkpoint_ok_def distinct_fresh_ids set_fresh_ids
      Let_def split: option.splits)

lemma undo_inv_finish: "undo_inv e \<Longrightarrow> undo_inv (FinishCapture e snap)"
  by (auto simp: FinishCapture_def undo_inv_def update_last_all finish_state_ok split: option.splits)

lemma undo_inv_mark: "undo_inv e \<Longrightarrow> undo_inv (fst (mark_last e planID b))"
  by (auto simp: mark_last_def checkpoint_ok_def intro!: undo_inv_update_last split: option.splits)

lemma undo_inv_reachable: "undo_reachable e \<Longrightarrow> undo_inv e"
proof (induction rule: undo_reachable.induct)
  case (init n)
  show ?case by (simp add: undo_inv_def NewManagerUndoExtension_def)
next
  case (executed e i)
  then show ?case
    unfolding RecordExecutedStep_def by (intro undo_inv_update_last) (auto simp: checkpoint_ok_def)
next
  case (clear e)
  then show ?case by (simp add: undo_inv_def ClearHistory_def)
qed (simp_all add: undo_inv_save undo_inv_begin undo_inv_finish undo_inv_mark MarkUndone_def MarkRedone_def)

text \<open>
  Whatever sequence of checkpoint operations has run, the history holds at most its configured
  number of checkpoints, no checkpoint lists an executed step or a change twice, and undo and redo
  are never both available.
\<close>

theorem undo_history_well_formed:
  assumes "undo_reachable e"
  shows "length (x_history e) \<le> x_maxHistory e \<and>
    (\<forall>st \<in> set (x_history e). distinct (u_Executed st) \<and> distinct (u_ChangeIDs st)) \<and>
    \<not> (CanUndo e \<and> CanRedo e)"
  using undo_inv_reachable [OF assms]
  by (auto simp: undo_inv_def list_all_iff checkpoint_ok_def CanUndo_def CanRedo_def split: option.splits)

theorem undo_history_well_formed_witness:
  "length (x_history (RecordExecutedStep (fst (SaveCheckpoint (NewManagerUndoExtension 0)
     (Some undo_demo_plan) 3)) 1)) \<le> 10"
  using undo_history_well_formed [OF undo_reachable.executed [OF undo_reachable.save [OF undo_reachable.init]]]
  by (simp add: NewManagerUndoExtension_def RecordExecutedStep_def SaveCheckpoint_def)

text \<open>
  Undoing and redoing a plan transaction is a state machine on the latest checkpoint only. For
  a plan that is not the latest checkpoint both marks fail and change nothing; for the latest one
  an undoable transaction with captured changes becomes redoable, and marking it redone gives back
  the state before.
\<close>

theorem undo_redo_cycle:
  "(case last_checkpoint e of
      Some st \<Rightarrow>
        (if u_PlanID st = planID
         then (CanUndo e \<longrightarrow> snd (MarkUndone e planID) = None \<and> \<not> CanUndo (fst (MarkUndone e planID)) \<and>
                (CanRedo (fst (MarkUndone e planID)) \<longleftrightarrow> u_ChangeIDs st \<noteq> []) \<and>
                MarkRedone (fst (MarkUndone e planID)) planID = (e, None))
         else MarkUndone e planID = (e, Some (stale_checkpoint_error planID)) \<and>
              MarkRedone e planID = (e, Some (stale_checkpoint_error planID)))
    | None \<Rightarrow> MarkUndone e planID = (e, Some (stale_checkpoint_error planID)))"
proof (cases "last_checkpoint e")
  case (Some st)
  have restore: "update_last (\<lambda>st. st\<lparr>u_Undone := False\<rparr>) (update_last (\<lambda>st. st\<lparr>u_Undone := True\<rparr>) (x_history e)) =
      x_history e" if "\<not> u_Undone st"
  proof -
    have "st\<lparr>u_Undone := False\<rparr> = st" using that by (cases st) simp
    then show ?thesis
      using Some append_butlast_last_id [of "x_history e"]
      by (auto simp: last_checkpoint_def update_last_def split: if_splits)
  qed
  show ?thesis
    using Some restore
    by (auto simp: CanUndo_def CanRedo_def MarkUndone_def MarkRedone_def mark_last_def last_checkpoint_update)
qed (simp add: MarkUndone_def mark_last_def)

theorem undo_redo_cycle_witness:
  "MarkUndone (NewManagerUndoExtension 3) ''x'' =
     (NewManagerUndoExtension 3, Some (stale_checkpoint_error ''x''))"
  using undo_redo_cycle [of "NewManagerUndoExtension 3" "''x''"]
  by (simp add: NewManagerUndoExtension_def last_checkpoint_def)

end
