(* ===== verification/PlanManager.thy ===== *)
theory PlanManager
  imports PlanUndo
begin

text \<open>
  \<open>internal/plan/executor.go\<close>: the plan manager, which owns the slot of the active plan, the
  approval dialogue, the hand-off of an approved plan to execution, feedback, replanning, and the
  step calls that persist the plan and report progress.

  The code compares plans by pointer and shares them between goroutines, so plans live on a heap:
  \<open>m_plans\<close> maps references to plans and the manager's fields hold references. A call through a
  reference changes the heap. Callbacks whose result the code uses (lint, approval, replan, the
  loads of the plan store) are arguments that return a new manager state with their result: while
  they run no manager lock is held, so any other operation may happen. Callbacks that are only
  notified (saves, progress, step handlers, the approval commit) are entries of \<open>m_events\<close>, newest
  last; the manager records whether each of them is configured.
\<close>

section \<open>State\<close>

type_synonym ref = nat

datatype approval_decision =
    ApprovalPending | ApprovalApproved | ApprovalRejected | ApprovalModified | ApprovalOther int

record progress_update =
  pu_PlanID :: string
  pu_CurrentStepID :: int
  pu_CurrentTitle :: string
  pu_TotalSteps :: nat
  pu_Completed :: nat
  pu_Progress :: rat
  pu_Status :: string
  pu_Reason :: string

datatype event =
    Saved plan | Progressed progress_update | StepStarted step | StepCompleted step | ApprovalCommitted

record manager =
  m_enabled :: bool
  m_requireApproval :: bool
  m_currentPlan :: "ref option"
  m_lastRejectedPlan :: "ref option"
  m_lastFeedback :: string
  m_approvalFeedback :: "(ref \<times> string) list"
  m_committedFeedback :: "(ref \<times> string) list"
  m_onApprovalCommit :: bool
  m_onStepStart :: bool
  m_onStepComplete :: bool
  m_onProgressUpdate :: bool
  m_undoExtension :: "undo_ext option"
  m_planStore :: bool
  m_workDir :: string
  m_contextClearRequested :: bool
  m_approvedPlanSnapshot :: "ref option"
  m_executionMode :: bool
  m_currentStepID :: int
  m_plans :: "ref \<Rightarrow> plan"
  m_next :: ref
  m_events :: "event list"

definition NewManager :: "bool \<Rightarrow> bool \<Rightarrow> manager" where
  "NewManager enabled requireApproval =
     \<lparr>m_enabled = enabled, m_requireApproval = requireApproval, m_currentPlan = None,
      m_lastRejectedPlan = None, m_lastFeedback = [], m_approvalFeedback = [], m_committedFeedback = [],
      m_onApprovalCommit = False, m_onStepStart = False, m_onStepComplete = False,
      m_onProgressUpdate = False, m_undoExtension = None, m_planStore = False, m_workDir = [],
      m_contextClearRequested = False, m_approvedPlanSnapshot = None, m_executionMode = False,
      m_currentStepID = - 1, m_plans = (\<lambda>_. NewPlan [] [] 0), m_next = 0, m_events = []\<rparr>"

section \<open>Heap and events\<close>

definition put_plan :: "manager \<Rightarrow> ref \<Rightarrow> plan \<Rightarrow> manager" where
  "put_plan m r p = m\<lparr>m_plans := (m_plans m)(r := p)\<rparr>"

definition alloc_plan :: "manager \<Rightarrow> plan \<Rightarrow> manager \<times> ref" where
  "alloc_plan m p = ((put_plan m (m_next m) p)\<lparr>m_next := Suc (m_next m)\<rparr>, m_next m)"

definition emit :: "manager \<Rightarrow> event \<Rightarrow> manager" where
  "emit m ev = m\<lparr>m_events := m_events m @ [ev]\<rparr>"

text \<open>\<open>store.Save(plan)\<close>: a failed save is only logged.\<close>

definition save_plan :: "manager \<Rightarrow> ref \<Rightarrow> manager" where
  "save_plan m r = (if m_planStore m then emit m (Saved (m_plans m r)) else m)"

definition progress_of :: "plan \<Rightarrow> int \<Rightarrow> string \<Rightarrow> string \<Rightarrow> string \<Rightarrow> progress_update" where
  "progress_of p stepID title st reason =
     \<lparr>pu_PlanID = p_ID p, pu_CurrentStepID = stepID, pu_CurrentTitle = title,
      pu_TotalSteps = Plan_StepCount p, pu_Completed = Plan_CompletedCount p,
      pu_Progress = Plan_Progress p, pu_Status = st, pu_Reason = reason\<rparr>"

definition notify_progress :: "manager \<Rightarrow> ref \<Rightarrow> int \<Rightarrow> string \<Rightarrow> string \<Rightarrow> manager" where
  "notify_progress m r stepID st reason =
     (if \<not> m_onProgressUpdate m then m
      else case Plan_GetStep (m_plans m r) stepID of
        None \<Rightarrow> m
      | Some s \<Rightarrow> emit m (Progressed (progress_of (m_plans m r) stepID (s_Title s) st reason)))"

section \<open>Switches and accessors\<close>

definition SetEnabled :: "manager \<Rightarrow> bool \<Rightarrow> manager" where
  "SetEnabled m b = m\<lparr>m_enabled := b\<rparr>"

definition SetApprovalCommitHandler :: "manager \<Rightarrow> bool \<Rightarrow> manager" where
  "SetApprovalCommitHandler m present = m\<lparr>m_onApprovalCommit := present\<rparr>"

definition SetStepHandlers :: "manager \<Rightarrow> bool \<Rightarrow> bool \<Rightarrow> manager" where
  "SetStepHandlers m onStart onComplete = m\<lparr>m_onStepStart := onStart, m_onStepComplete := onComplete\<rparr>"

definition SetProgressUpdateHandler :: "manager \<Rightarrow> bool \<Rightarrow> manager" where
  "SetProgressUpdateHandler m present = m\<lparr>m_onProgressUpdate := present\<rparr>"

definition SetPlanStore :: "manager \<Rightarrow> bool \<Rightarrow> manager" where
  "SetPlanStore m present = m\<lparr>m_planStore := present\<rparr>"

definition SetWorkDir :: "manager \<Rightarrow> string \<Rightarrow> manager" where
  "SetWorkDir m dir = m\<lparr>m_workDir := dir\<rparr>"

definition IsActive :: "manager \<Rightarrow> bool" where
  "IsActive m =
     (case m_currentPlan m of None \<Rightarrow> False | Some r \<Rightarrow> \<not> Plan_IsComplete (m_plans m r))"

definition findActiveContractStep :: "step list \<Rightarrow> int \<Rightarrow> step option" where
  "findActiveContractStep steps currentStepID =
     (case (if 0 < currentStepID then List.find (\<lambda>s. s_ID s = currentStepID) steps else None) of
        Some s \<Rightarrow> Some s
      | None \<Rightarrow>
          (case List.find (\<lambda>s. s_Status s = StatusInProgress) steps of
             Some s \<Rightarrow> Some s
           | None \<Rightarrow> List.find (\<lambda>s. s_Status s = StatusPending) steps))"

section \<open>The slot of the active plan\<close>

definition setCurrentPlan :: "manager \<Rightarrow> ref option \<Rightarrow> manager" where
  "setCurrentPlan m r =
     m\<lparr>m_currentPlan := r, m_contextClearRequested := False, m_approvedPlanSnapshot := None,
       m_executionMode := False, m_currentStepID := - 1\<rparr>"

definition CreatePlan :: "manager \<Rightarrow> string \<Rightarrow> string \<Rightarrow> string \<Rightarrow> time \<Rightarrow> manager \<times> ref" where
  "CreatePlan m title description request now =
     (let (m', r) = alloc_plan m
            ((NewPlan title description now)\<lparr>p_Request := request, p_WorkDir := m_workDir m\<rparr>)
      in (setCurrentPlan m' (Some r), r))"

definition SetPlan :: "manager \<Rightarrow> ref option \<Rightarrow> manager" where
  "SetPlan m plan =
     setCurrentPlan
       (case plan of None \<Rightarrow> m | Some r \<Rightarrow> put_plan m r (Plan_EnsureStepContracts (m_plans m r))) plan"

definition ClearPlan :: "manager \<Rightarrow> manager \<times> ref option" where
  "ClearPlan m = (setCurrentPlan m None, m_currentPlan m)"

definition ClearPlanIfCurrent :: "manager \<Rightarrow> ref option \<Rightarrow> manager \<times> bool" where
  "ClearPlanIfCurrent m expected =
     (if expected = None \<or> m_currentPlan m \<noteq> expected then (m, False)
      else (setCurrentPlan m None, True))"

definition no_active_plan :: string where
  "no_active_plan = ''no active plan''"

definition TransitionPlanLifecycleIfCurrent ::
    "manager \<Rightarrow> ref option \<Rightarrow> lifecycle \<Rightarrow> time \<Rightarrow> manager \<times> string option" where
  "TransitionPlanLifecycleIfCurrent m expected nxt now =
     (case (expected, m_currentPlan m) of
        (Some e, Some c) \<Rightarrow>
          if c \<noteq> e then (m, Some ''active plan changed while applying lifecycle transition'')
          else (case Plan_TransitionLifecycle (m_plans m e) nxt now of
                  (p, Some err) \<Rightarrow> (put_plan m e p, Some err)
                | (p, None) \<Rightarrow>
                    (let m' = put_plan m e p
                     in if nxt = LifecycleApproved \<and> m_onApprovalCommit m
                        then emit m' ApprovalCommitted else m', None))
      | _ \<Rightarrow> (m, Some no_active_plan))"

definition TransitionCurrentPlanLifecycle :: "manager \<Rightarrow> lifecycle \<Rightarrow> time \<Rightarrow> manager \<times> string option" where
  "TransitionCurrentPlanLifecycle m nxt now = TransitionPlanLifecycleIfCurrent m (m_currentPlan m) nxt now"

definition ApprovePlanAndRequestContextClearIfCurrent ::
    "manager \<Rightarrow> ref option \<Rightarrow> time \<Rightarrow> manager \<times> string option" where
  "ApprovePlanAndRequestContextClearIfCurrent m expected now =
     (case (expected, m_currentPlan m) of
        (Some e, Some c) \<Rightarrow>
          if c \<noteq> e then (m, Some ''active plan changed while committing approval'')
          else (case Plan_TransitionLifecycle (m_plans m e) LifecycleApproved now of
                  (p, Some err) \<Rightarrow> (put_plan m e p, Some err)
                | (p, None) \<Rightarrow>
                    (let m' = (put_plan m e p)\<lparr>m_contextClearRequested := True,
                                 m_approvedPlanSnapshot := Some e\<rparr>
                     in if m_onApprovalCommit m then emit m' ApprovalCommitted else m', None))
      | _ \<Rightarrow> (m, Some no_active_plan))"

definition GetCurrentPlanLifecycle :: "manager \<Rightarrow> lifecycle" where
  "GetCurrentPlanLifecycle m =
     (case m_currentPlan m of None \<Rightarrow> LifecycleEmpty | Some r \<Rightarrow> Plan_LifecycleState (m_plans m r))"

section \<open>Hand-off to execution\<close>

definition RequestContextClear :: "manager \<Rightarrow> ref option \<Rightarrow> manager \<times> bool" where
  "RequestContextClear m plan =
     (case plan of
        None \<Rightarrow> (m, False)
      | Some r \<Rightarrow>
          if m_currentPlan m \<noteq> Some r \<or> Plan_LifecycleState (m_plans m r) \<noteq> LifecycleApproved then (m, False)
          else (m\<lparr>m_contextClearRequested := True, m_approvedPlanSnapshot := Some r\<rparr>, True))"

definition ConsumeContextClearRequest :: "manager \<Rightarrow> manager \<times> ref option" where
  "ConsumeContextClearRequest m =
     (if \<not> m_contextClearRequested m then (m, None)
      else let m' = m\<lparr>m_contextClearRequested := False, m_approvedPlanSnapshot := None\<rparr>
           in case m_approvedPlanSnapshot m of
                None \<Rightarrow> (m', None)
              | Some r \<Rightarrow>
                  if m_currentPlan m \<noteq> Some r \<or> Plan_LifecycleState (m_plans m r) \<noteq> LifecycleApproved
                  then (m', None) else (m', Some r))"

definition SetExecutionMode :: "manager \<Rightarrow> bool \<Rightarrow> manager" where
  "SetExecutionMode m executing =
     (let m' = m\<lparr>m_executionMode := executing\<rparr>
      in if \<not> executing then m'\<lparr>m_currentStepID := - 1\<rparr> else m')"

definition SetCurrentStepID :: "manager \<Rightarrow> int \<Rightarrow> manager" where
  "SetCurrentStepID m stepID = m\<lparr>m_currentStepID := stepID\<rparr>"

section \<open>Feedback and approval\<close>

definition SaveRejectedPlan :: "manager \<Rightarrow> ref option \<Rightarrow> manager" where
  "SaveRejectedPlan m plan = m\<lparr>m_lastRejectedPlan := plan\<rparr>"

definition SetFeedback :: "manager \<Rightarrow> string \<Rightarrow> manager" where
  "SetFeedback m feedback = m\<lparr>m_lastFeedback := feedback\<rparr>"

definition GetFeedback :: "manager \<Rightarrow> manager \<times> string" where
  "GetFeedback m = (m\<lparr>m_lastFeedback := []\<rparr>, m_lastFeedback m)"

definition HasFeedback :: "manager \<Rightarrow> bool" where
  "HasFeedback m \<longleftrightarrow> m_lastFeedback m \<noteq> []"

definition feedback_of :: "(ref \<times> string) list \<Rightarrow> ref \<Rightarrow> string" where
  "feedback_of fb r = (case map_of fb r of None \<Rightarrow> [] | Some t \<Rightarrow> t)"

definition StageApprovalFeedback :: "manager \<Rightarrow> ref option \<Rightarrow> string \<Rightarrow> manager \<times> bool" where
  "StageApprovalFeedback m plan feedback0 =
     (let feedback = trim_space feedback0
      in case plan of
           None \<Rightarrow> (m, False)
         | Some r \<Rightarrow>
             if feedback = [] then (m, False)
             else if m_currentPlan m \<noteq> Some r then (m, False)
             else (m\<lparr>m_approvalFeedback := AList.update r feedback (m_approvalFeedback m)\<rparr>, True))"

definition ConsumeApprovalFeedback :: "manager \<Rightarrow> ref option \<Rightarrow> manager \<times> string" where
  "ConsumeApprovalFeedback m plan =
     (case plan of
        None \<Rightarrow> (m, [])
      | Some r \<Rightarrow>
          let feedback = feedback_of (m_committedFeedback m) r;
              m' = m\<lparr>m_committedFeedback := AList.delete r (m_committedFeedback m)\<rparr>
          in (if feedback \<noteq> [] \<and> m_lastFeedback m = feedback then m'\<lparr>m_lastFeedback := []\<rparr> else m',
              feedback))"

type_synonym lint_handler = "manager \<Rightarrow> ref \<Rightarrow> manager \<times> string option"
type_synonym approval_handler = "manager \<Rightarrow> ref \<Rightarrow> manager \<times> approval_decision \<times> string option"

definition drop_staged :: "manager \<Rightarrow> ref \<Rightarrow> manager" where
  "drop_staged m r = m\<lparr>m_approvalFeedback := AList.delete r (m_approvalFeedback m)\<rparr>"

text \<open>The commit of a decision, under the manager's lock and only for the plan still current.\<close>

definition commit_decision :: "manager \<Rightarrow> ref \<Rightarrow> approval_decision \<Rightarrow> manager" where
  "commit_decision m r decision =
     (let feedback = feedback_of (m_approvalFeedback m) r;
          m' = drop_staged m r
      in case decision of
           ApprovalRejected \<Rightarrow> m'\<lparr>m_lastRejectedPlan := Some r\<rparr>
         | ApprovalModified \<Rightarrow>
             (let m'' = m'\<lparr>m_lastRejectedPlan := Some r, m_lastFeedback := feedback\<rparr>
              in if feedback \<noteq> []
                 then m''\<lparr>m_committedFeedback := AList.update r feedback (m_committedFeedback m'')\<rparr>
                 else m'')
         | _ \<Rightarrow> m')"

definition stale_decision_msg :: string where
  "stale_decision_msg =
     ''active plan changed while approval was pending; the stale decision was discarded''"

definition run_lint :: "lint_handler option \<Rightarrow> manager \<Rightarrow> ref \<Rightarrow> manager \<times> string option" where
  "run_lint lint m r = (case lint of None \<Rightarrow> (m, None) | Some f \<Rightarrow> f m r)"

definition finish_approval ::
    "manager \<Rightarrow> ref \<Rightarrow> approval_decision \<Rightarrow> string option \<Rightarrow> manager \<times> approval_decision \<times> string option" where
  "finish_approval m r decision err =
     (case err of
        Some e \<Rightarrow> (drop_staged m r, ApprovalRejected, Some e)
      | None \<Rightarrow>
          if m_currentPlan m \<noteq> Some r then (drop_staged m r, ApprovalRejected, Some stale_decision_msg)
          else (commit_decision m r decision, decision, None))"

definition RequestApproval ::
    "lint_handler option \<Rightarrow> approval_handler option \<Rightarrow> manager \<Rightarrow> time \<Rightarrow>
     manager \<times> approval_decision \<times> string option" where
  "RequestApproval lint handler m0 now =
     (case m_currentPlan m0 of
        None \<Rightarrow> (m0, ApprovalRejected, None)
      | Some r \<Rightarrow>
          (case run_lint lint m0 r of
             (m, Some err) \<Rightarrow> (m, ApprovalRejected, Some (''plan lint failed: '' @ err))
           | (m, None) \<Rightarrow>
               (case Plan_TransitionLifecycle (m_plans m r) LifecycleAwaitingApproval now of
                  (p, Some err) \<Rightarrow> (put_plan m r p, ApprovalRejected, Some err)
                | (p, None) \<Rightarrow>
                    let m = put_plan m r p
                    in if \<not> m_requireApproval m
                       then (if m_currentPlan m \<noteq> Some r
                             then (m, ApprovalRejected,
                                   Some ''active plan changed while approval was being prepared'')
                             else (m, ApprovalApproved, None))
                       else (case handler of
                               None \<Rightarrow>
                                 (m, ApprovalRejected,
                                  Some ''plan approval is required, but no approval handler is configured'')
                             | Some h \<Rightarrow>
                                 let (m, decision, err) = h m r in finish_approval m r decision err))))"

section \<open>Replanning\<close>

type_synonym replan_handler = "manager \<Rightarrow> ref \<Rightarrow> step \<Rightarrow> manager \<times> (string + step list)"

fun renumber :: "int \<Rightarrow> step list \<Rightarrow> step list" where
  "renumber nextID [] = []"
| "renumber nextID (s # ss) =
     Step_EnsureContractDefaults (s\<lparr>s_ID := nextID, s_Status := StatusPending\<rparr>) # renumber (nextID + 1) ss"

definition replan_steps :: "plan \<Rightarrow> step list \<Rightarrow> step list" where
  "replan_steps p newSteps =
     (let kept = filter (\<lambda>s. s_Status s \<noteq> StatusPending) (p_Steps p);
          new = renumber (int (length kept) + 1) newSteps;
          validIDs = map s_ID kept @ map s_ID new;
          new = map (\<lambda>s. s\<lparr>s_DependsOn := filter (\<lambda>d. d \<in> set validIDs) (s_DependsOn s)\<rparr>) new
      in kept @ new)"

definition replan_plan :: "plan \<Rightarrow> step list \<Rightarrow> time \<Rightarrow> plan" where
  "replan_plan p newSteps now =
     p\<lparr>p_Steps := replan_steps p newSteps, p_Version := p_Version p + 1,
       p_Status := StatusInProgress, p_UpdatedAt := now\<rparr>"

definition RequestReplan ::
    "replan_handler option \<Rightarrow> manager \<Rightarrow> step option \<Rightarrow> time \<Rightarrow> manager \<times> string option" where
  "RequestReplan handler m0 failedStep now =
     (case handler of
        None \<Rightarrow> (m0, Some ''no replan handler configured'')
      | Some h \<Rightarrow>
          (case m_currentPlan m0 of
             None \<Rightarrow> (m0, Some no_active_plan)
           | Some r \<Rightarrow>
               (case failedStep of
                  None \<Rightarrow> (m0, Some ''failed step is nil'')
                | Some fs \<Rightarrow>
                    (case h m0 r fs of
                       (m, Inl err) \<Rightarrow> (m, Some (''replan failed: '' @ err))
                     | (m, Inr newSteps) \<Rightarrow>
                         (put_plan m r (replan_plan (m_plans m r) newSteps now), None)))))"

section \<open>Step calls\<close>

definition on_plan :: "manager \<Rightarrow> ref \<Rightarrow> (plan \<Rightarrow> plan) \<Rightarrow> manager" where
  "on_plan m r f = put_plan m r (f (m_plans m r))"

definition StartStep :: "manager \<Rightarrow> int \<Rightarrow> time \<Rightarrow> manager" where
  "StartStep m stepID now =
     (case m_currentPlan m of
        None \<Rightarrow> m
      | Some r \<Rightarrow>
          let m = on_plan m r (\<lambda>p. Plan_StartStep p stepID now);
              m = save_plan m r;
              m = notify_progress m r stepID ''in_progress'' []
          in if m_onStepStart m
             then (case Plan_GetStep (m_plans m r) stepID of
                     None \<Rightarrow> m | Some s \<Rightarrow> emit m (StepStarted s))
             else m)"

text \<open>A completion without recorded evidence gets the manual marker first.\<close>

definition manual_evidence :: "string \<Rightarrow> string list" where
  "manual_evidence result =
     [''manual completion marker'', verify_proof_token] @
     (if trim_space result \<noteq> [] then [''output provided''] else [])"

definition manual_note :: string where
  "manual_note = ''Completed via plan manager''"

definition manual_complete :: "plan \<Rightarrow> int \<Rightarrow> string \<Rightarrow> time \<Rightarrow> plan" where
  "manual_complete p stepID result now =
     (let p = (case Plan_GetStep p stepID of
                 Some s \<Rightarrow>
                   if s_Evidence s = []
                   then fst (Plan_RecordStepVerification p stepID (manual_evidence result) manual_note now)
                   else p
               | None \<Rightarrow> p)
      in Plan_CompleteStep p stepID result now)"

definition record_executed :: "manager \<Rightarrow> int \<Rightarrow> manager" where
  "record_executed m stepID =
     m\<lparr>m_undoExtension := map_option (\<lambda>e. RecordExecutedStep e stepID) (m_undoExtension m)\<rparr>"

definition CompleteStep :: "manager \<Rightarrow> int \<Rightarrow> string \<Rightarrow> time \<Rightarrow> manager" where
  "CompleteStep m stepID result now =
     (case m_currentPlan m of
        None \<Rightarrow> m
      | Some r \<Rightarrow>
          let m = on_plan m r (\<lambda>p. manual_complete p stepID result now);
              m = record_executed m stepID;
              m = save_plan m r;
              m = notify_progress m r stepID
                    (if 1 \<le> Plan_Progress (m_plans m r) then ''completed'' else ''in_progress'')
                    ''step completed''
          in if m_onStepComplete m
             then (case Plan_GetStep (m_plans m r) stepID of
                     None \<Rightarrow> m | Some s \<Rightarrow> emit m (StepCompleted s))
             else m)"

definition RecordStepVerification :: "manager \<Rightarrow> int \<Rightarrow> string list \<Rightarrow> string \<Rightarrow> time \<Rightarrow> manager \<times> bool" where
  "RecordStepVerification m stepID evidence comment now =
     (case m_currentPlan m of
        None \<Rightarrow> (m, False)
      | Some r \<Rightarrow>
          (case Plan_RecordStepVerification (m_plans m r) stepID evidence comment now of
             (p, False) \<Rightarrow> (put_plan m r p, False)
           | (p, True) \<Rightarrow> (save_plan (put_plan m r p) r, True)))"

definition FailStep :: "manager \<Rightarrow> int \<Rightarrow> string \<Rightarrow> time \<Rightarrow> manager" where
  "FailStep m stepID errMsg now =
     (case m_currentPlan m of
        None \<Rightarrow> m
      | Some r \<Rightarrow>
          let m = on_plan m r (\<lambda>p. Plan_FailStep p stepID errMsg now);
              m = save_plan m r
          in notify_progress m r stepID ''failed'' errMsg)"

definition SkipStep :: "manager \<Rightarrow> int \<Rightarrow> time \<Rightarrow> manager" where
  "SkipStep m stepID now =
     (case m_currentPlan m of
        None \<Rightarrow> m
      | Some r \<Rightarrow>
          notify_progress (on_plan m r (\<lambda>p. Plan_SkipStep p stepID now)) r stepID
            ''skipped'' ''condition not met'')"

definition PauseStep :: "manager \<Rightarrow> int \<Rightarrow> string \<Rightarrow> time \<Rightarrow> manager" where
  "PauseStep m stepID reason now =
     (case m_currentPlan m of
        None \<Rightarrow> m
      | Some r \<Rightarrow>
          let m = on_plan m r (\<lambda>p. Plan_PauseStep p stepID reason now);
              m = save_plan m r
          in notify_progress m r stepID ''paused'' reason)"

definition GetProgress :: "manager \<Rightarrow> nat \<times> nat \<times> rat" where
  "GetProgress m =
     (case m_currentPlan m of
        None \<Rightarrow> (0, 0, 0)
      | Some r \<Rightarrow> (Plan_CompletedCount (m_plans m r), Plan_StepCount (m_plans m r), Plan_Progress (m_plans m r)))"

definition AddStep :: "manager \<Rightarrow> string \<Rightarrow> string \<Rightarrow> time \<Rightarrow> manager \<times> step option" where
  "AddStep m title description now =
     (case m_currentPlan m of
        None \<Rightarrow> (m, None)
      | Some r \<Rightarrow> (case Plan_AddStep (m_plans m r) title description now of
                     (p, s) \<Rightarrow> (put_plan m r p, Some s)))"

definition NextStep :: "manager \<Rightarrow> step option" where
  "NextStep m = (case m_currentPlan m of None \<Rightarrow> None | Some r \<Rightarrow> Plan_NextStep (m_plans m r))"

section \<open>Pausing and resuming a plan\<close>

definition reset_for_resume :: "step \<Rightarrow> step" where
  "reset_for_resume s =
     (if s_Status s = StatusPaused \<or> s_Status s = StatusFailed
      then (pass_checkpoint s)\<lparr>s_Status := StatusPending, s_Error := []\<rparr> else s)"

definition resume_plan :: "plan \<Rightarrow> time \<Rightarrow> plan" where
  "resume_plan p now =
     p\<lparr>p_Steps := map reset_for_resume (p_Steps p),
       p_RunLedger := clear_partial
         (map s_ID (filter (\<lambda>s. s_Status s = StatusPaused \<or> s_Status s = StatusFailed) (p_Steps p)))
         (p_RunLedger p),
       p_Status := StatusInProgress, p_UpdatedAt := now\<rparr>"

definition ResumePlan :: "manager \<Rightarrow> time \<Rightarrow> manager \<times> (string + ref)" where
  "ResumePlan m now =
     (case m_currentPlan m of
        None \<Rightarrow> (m, Inl ''no active plan to resume'')
      | Some r \<Rightarrow>
          if \<not> list_ex (\<lambda>s. resumable_status (s_Status s)) (p_Steps (m_plans m r))
          then (m, Inl ''plan already completed, no steps to resume'')
          else (case Plan_TransitionLifecycle (m_plans m r) LifecycleApproved now of
                  (p, Some err) \<Rightarrow> (put_plan m r p, Inl err)
                | (p, None) \<Rightarrow> (put_plan m r (resume_plan p now), Inr r)))"

definition IsPlanPaused :: "manager \<Rightarrow> bool" where
  "IsPlanPaused m =
     (case m_currentPlan m of None \<Rightarrow> False | Some r \<Rightarrow> p_Status (m_plans m r) = StatusPaused)"

definition PausePlan :: "manager \<Rightarrow> time \<Rightarrow> manager" where
  "PausePlan m now =
     (case m_currentPlan m of
        None \<Rightarrow> m
      | Some r \<Rightarrow>
          let m = on_plan m r (\<lambda>p. p\<lparr>p_Status := StatusPaused, p_UpdatedAt := now\<rparr>);
              m = on_plan m r (\<lambda>p. fst (Plan_TransitionLifecycle p LifecyclePaused now));
              m = save_plan m r
          in if m_onProgressUpdate m
             then emit m (Progressed
                    (progress_of (m_plans m r) 0 [] ''paused'' ''plan paused by orchestrator''))
             else m)"

definition ResumePausedSteps :: "manager \<Rightarrow> time \<Rightarrow> manager \<times> nat" where
  "ResumePausedSteps m now =
     (case m_currentPlan m of
        None \<Rightarrow> (m, 0)
      | Some r \<Rightarrow>
          (case Plan_ResumePausedSteps (m_plans m r) now of
             (p, count) \<Rightarrow>
               (let m = put_plan m r p in if 0 < count then save_plan m r else m, count)))"

text \<open>\<open>resumable\<close> is the answer of \<open>store.ListResumable\<close>, an error or the saved plans.\<close>

definition HasPausedPlan :: "manager \<Rightarrow> (string + 'info list) \<Rightarrow> bool" where
  "HasPausedPlan m resumable \<longleftrightarrow>
     IsPlanPaused m \<or>
     (m_planStore m \<and> (case resumable of Inl _ \<Rightarrow> False | Inr plans \<Rightarrow> 0 < length plans))"

section \<open>Persistence\<close>

definition store_missing :: string where
  "store_missing = ''plan store not configured''"

text \<open>\<open>save\<close> is the store's answer: the explicit save is the one whose error is returned.\<close>

definition SaveCurrentPlan :: "(plan \<Rightarrow> string option) \<Rightarrow> manager \<Rightarrow> manager \<times> string option" where
  "SaveCurrentPlan save m =
     (if \<not> m_planStore m then (m, None)
      else case m_currentPlan m of
        None \<Rightarrow> (m, None)
      | Some r \<Rightarrow> (save_plan m r, save (m_plans m r)))"

text \<open>\<open>load\<close> is the store's answer; the decoded plan is a fresh object.\<close>

definition install_loaded :: "manager \<Rightarrow> (string + plan) \<Rightarrow> manager \<times> (string + ref)" where
  "install_loaded m loaded =
     (if \<not> m_planStore m then (m, Inl store_missing)
      else case loaded of
        Inl err \<Rightarrow> (m, Inl err)
      | Inr p \<Rightarrow> (let (m, r) = alloc_plan m p in (setCurrentPlan m (Some r), Inr r)))"

definition LoadPausedPlan :: "(string \<Rightarrow> string + plan) \<Rightarrow> manager \<Rightarrow> manager \<times> (string + ref)" where
  "LoadPausedPlan loadLast m = install_loaded m (loadLast (m_workDir m))"

definition LoadPlanByID :: "(string \<Rightarrow> string + plan) \<Rightarrow> manager \<Rightarrow> string \<Rightarrow> manager \<times> (string + ref)" where
  "LoadPlanByID load m planID = install_loaded m (load planID)"

section \<open>Undo support\<close>

definition EnableUndo :: "manager \<Rightarrow> int \<Rightarrow> manager" where
  "EnableUndo m maxHistory = m\<lparr>m_undoExtension := Some (NewManagerUndoExtension maxHistory)\<rparr>"

definition DisableUndo :: "manager \<Rightarrow> manager" where
  "DisableUndo m = m\<lparr>m_undoExtension := None\<rparr>"

definition current_plan :: "manager \<Rightarrow> plan option" where
  "current_plan m = map_option (m_plans m) (m_currentPlan m)"

definition SavePlanCheckpoint :: "manager \<Rightarrow> time \<Rightarrow> manager \<times> string option" where
  "SavePlanCheckpoint m now =
     (case m_undoExtension m of
        None \<Rightarrow> (m, None)
      | Some e \<Rightarrow> (case SaveCheckpoint e (current_plan m) now of
                     (e, err) \<Rightarrow> (m\<lparr>m_undoExtension := Some e\<rparr>, err)))"

definition BeginPlanUndoCapture :: "manager \<Rightarrow> history_snapshot \<Rightarrow> time \<Rightarrow> manager \<times> string option" where
  "BeginPlanUndoCapture m snapshot now =
     (case m_undoExtension m of
        None \<Rightarrow> (m, None)
      | Some e \<Rightarrow> (case BeginCapture e (current_plan m) snapshot now of
                     (e, err) \<Rightarrow> (m\<lparr>m_undoExtension := Some e\<rparr>, err)))"

definition FinishPlanUndoCapture :: "manager \<Rightarrow> history_snapshot \<Rightarrow> manager" where
  "FinishPlanUndoCapture m snapshot =
     m\<lparr>m_undoExtension := map_option (\<lambda>e. FinishCapture e snapshot) (m_undoExtension m)\<rparr>"

end
