(* ===== verification/ManagerInv.thy ===== *)
theory ManagerInv
  imports PlanManager PlanProps
begin

text \<open>
  Everything the plan manager can do as one relation: \<open>mgr_reach m m'\<close> holds when some sequence of
  manager calls leads from \<open>m\<close> to \<open>m'\<close>, where the lint, approval and replan callbacks may
  themselves perform any such sequence before they answer. The invariant \<open>mgr_inv\<close> ties the
  hand-off flag to the active plan, keeps the slot inside the heap and the undo history well
  formed; it is kept by every call.
\<close>

section \<open>The invariant\<close>

definition handoff_inv :: "manager \<Rightarrow> bool" where
  "handoff_inv m \<longleftrightarrow>
     m_approvedPlanSnapshot m = (if m_contextClearRequested m then m_currentPlan m else None) \<and>
     (m_contextClearRequested m \<longrightarrow> m_currentPlan m \<noteq> None)"

definition slot_inv :: "manager \<Rightarrow> bool" where
  "slot_inv m \<longleftrightarrow> (\<forall>r. m_currentPlan m = Some r \<longrightarrow> r < m_next m)"

definition undo_ok :: "manager \<Rightarrow> bool" where
  "undo_ok m \<longleftrightarrow> (\<forall>e. m_undoExtension m = Some e \<longrightarrow> undo_reachable e)"

definition mgr_inv :: "manager \<Rightarrow> bool" where
  "mgr_inv m \<longleftrightarrow> handoff_inv m \<and> slot_inv m \<and> undo_ok m"

lemmas mgr_inv_defs = mgr_inv_def handoff_inv_def slot_inv_def undo_ok_def

section \<open>Calls that leave the slot alone\<close>

text \<open>
  The part of the manager the invariant reads. A call that keeps it keeps the invariant, whatever
  it does to the plans, the feedback and the events.
\<close>

definition slot :: "manager \<Rightarrow> ref option \<times> bool \<times> ref option \<times> ref \<times> undo_ext option" where
  "slot m = (m_currentPlan m, m_contextClearRequested m, m_approvedPlanSnapshot m, m_next m, m_undoExtension m)"

locale slot_frame =
  fixes op :: "manager \<Rightarrow> manager"
  assumes keeps_slot: "slot (op m) = slot m"
begin

lemma inv_kept: "mgr_inv m \<Longrightarrow> mgr_inv (op m)"
  using keeps_slot [of m] by (simp add: mgr_inv_defs slot_def)

lemma current_kept: "m_currentPlan (op m) = m_currentPlan m"
  using keeps_slot [of m] by (simp add: slot_def)

end

lemma slot_put_plan [simp]: "slot (put_plan m r p) = slot m"
  by (simp add: slot_def put_plan_def)

lemma slot_on_plan [simp]: "slot (on_plan m r f) = slot m"
  by (simp add: on_plan_def)

lemma slot_emit [simp]: "slot (emit m ev) = slot m"
  by (simp add: slot_def emit_def)

lemma slot_save_plan [simp]: "slot (save_plan m r) = slot m"
  by (simp add: save_plan_def)

lemma slot_notify [simp]: "slot (notify_progress m r i st reason) = slot m"
  by (simp add: notify_progress_def split: option.splits)

lemma slot_drop_staged [simp]: "slot (drop_staged m r) = slot m"
  by (simp add: slot_def drop_staged_def)

lemma slot_commit [simp]: "slot (commit_decision m r d) = slot m"
  by (cases d) (simp_all add: commit_decision_def Let_def slot_def drop_staged_def)

lemma slot_inv_cong: "slot m' = slot m \<Longrightarrow> mgr_inv m' = mgr_inv m"
  by (simp add: mgr_inv_defs slot_def)

interpretation start: slot_frame "\<lambda>m. StartStep m i now" for i now
  by unfold_locales (simp add: StartStep_def Let_def split: option.splits)

interpretation fail: slot_frame "\<lambda>m. FailStep m i msg now" for i msg now
  by unfold_locales (simp add: FailStep_def Let_def split: option.splits)

interpretation skip: slot_frame "\<lambda>m. SkipStep m i now" for i now
  by unfold_locales (simp add: SkipStep_def split: option.splits)

interpretation pause: slot_frame "\<lambda>m. PauseStep m i reason now" for i reason now
  by unfold_locales (simp add: PauseStep_def Let_def split: option.splits)

interpretation pause_plan: slot_frame "\<lambda>m. PausePlan m now" for now
  by unfold_locales (simp add: PausePlan_def Let_def split: option.splits)

interpretation resume: slot_frame "\<lambda>m. fst (ResumePlan m now)" for now
  by unfold_locales (simp add: ResumePlan_def split: option.splits prod.splits)

interpretation resume_steps: slot_frame "\<lambda>m. fst (ResumePausedSteps m now)" for now
  by unfold_locales (simp add: ResumePausedSteps_def Let_def split: option.splits prod.splits)

interpretation verify: slot_frame "\<lambda>m. fst (RecordStepVerification m i ev c now)" for i ev c now
  by unfold_locales (simp add: RecordStepVerification_def split: option.splits prod.splits bool.splits)

interpretation add_step: slot_frame "\<lambda>m. fst (AddStep m title desc now)" for title desc now
  by unfold_locales (simp add: AddStep_def split: option.splits prod.splits)

interpretation save: slot_frame "\<lambda>m. fst (SaveCurrentPlan store_save m)" for store_save
  by unfold_locales (simp add: SaveCurrentPlan_def split: option.splits)

interpretation transition: slot_frame "\<lambda>m. fst (TransitionPlanLifecycleIfCurrent m r nxt now)" for r nxt now
  by unfold_locales (simp add: TransitionPlanLifecycleIfCurrent_def Let_def split: option.splits prod.splits)

interpretation stage: slot_frame "\<lambda>m. fst (StageApprovalFeedback m r fb)" for r fb
  by unfold_locales (simp add: StageApprovalFeedback_def Let_def slot_def split: option.splits)

interpretation consume_fb: slot_frame "\<lambda>m. fst (ConsumeApprovalFeedback m r)" for r
  by unfold_locales (simp add: ConsumeApprovalFeedback_def Let_def slot_def split: option.splits)

interpretation get_fb: slot_frame "\<lambda>m. fst (GetFeedback m)"
  by unfold_locales (simp add: GetFeedback_def slot_def)

interpretation set_fb: slot_frame "\<lambda>m. SetFeedback m fb" for fb
  by unfold_locales (simp add: SetFeedback_def slot_def)

interpretation save_rejected: slot_frame "\<lambda>m. SaveRejectedPlan m r" for r
  by unfold_locales (simp add: SaveRejectedPlan_def slot_def)

interpretation exec_mode: slot_frame "\<lambda>m. SetExecutionMode m b" for b
  by unfold_locales (simp add: SetExecutionMode_def Let_def slot_def)

interpretation step_id: slot_frame "\<lambda>m. SetCurrentStepID m i" for i
  by unfold_locales (simp add: SetCurrentStepID_def slot_def)

interpretation handlers: slot_frame
  "\<lambda>m. SetPlanStore (SetWorkDir (SetProgressUpdateHandler (SetStepHandlers (SetApprovalCommitHandler
     (SetEnabled m a) b) c d) e) dir) f" for a b c d e dir f
  by unfold_locales (simp add: SetPlanStore_def SetWorkDir_def SetProgressUpdateHandler_def
      SetStepHandlers_def SetApprovalCommitHandler_def SetEnabled_def slot_def)

lemmas framed_calls =
  start.inv_kept fail.inv_kept skip.inv_kept pause.inv_kept pause_plan.inv_kept resume.inv_kept
  resume_steps.inv_kept verify.inv_kept add_step.inv_kept save.inv_kept transition.inv_kept
  stage.inv_kept consume_fb.inv_kept get_fb.inv_kept set_fb.inv_kept save_rejected.inv_kept
  exec_mode.inv_kept step_id.inv_kept handlers.inv_kept

section \<open>Calls that move the slot\<close>

lemma mgr_inv_undo: "mgr_inv m \<Longrightarrow> undo_ok m"
  by (simp add: mgr_inv_def)

lemma inv_setCurrentPlan:
  "undo_ok m \<Longrightarrow> (\<forall>x. r = Some x \<longrightarrow> x < m_next m) \<Longrightarrow> mgr_inv (setCurrentPlan m r)"
  by (simp add: mgr_inv_defs setCurrentPlan_def)

lemma alloc_facts:
  "m_next (fst (alloc_plan m p)) = Suc (m_next m)" "snd (alloc_plan m p) = m_next m"
  "undo_ok (fst (alloc_plan m p)) = undo_ok m" "m_plans (fst (alloc_plan m p)) (m_next m) = p"
  by (simp_all add: alloc_plan_def put_plan_def undo_ok_def)

lemma inv_CreatePlan: "mgr_inv m \<Longrightarrow> mgr_inv (fst (CreatePlan m title desc req now))"
  by (auto simp: CreatePlan_def alloc_facts split_beta intro!: inv_setCurrentPlan dest: mgr_inv_undo)

lemma inv_SetPlan:
  "mgr_inv m \<Longrightarrow> (\<forall>x. r = Some x \<longrightarrow> x < m_next m) \<Longrightarrow> mgr_inv (SetPlan m r)"
  by (auto simp: SetPlan_def put_plan_def undo_ok_def intro!: inv_setCurrentPlan dest!: mgr_inv_undo
      split: option.splits)

lemma inv_ClearPlan: "mgr_inv m \<Longrightarrow> mgr_inv (fst (ClearPlan m))"
  by (auto simp: ClearPlan_def intro!: inv_setCurrentPlan dest: mgr_inv_undo)

lemma inv_ClearPlanIfCurrent: "mgr_inv m \<Longrightarrow> mgr_inv (fst (ClearPlanIfCurrent m r))"
  by (auto simp: ClearPlanIfCurrent_def intro!: inv_setCurrentPlan dest: mgr_inv_undo)

lemma inv_install_loaded: "mgr_inv m \<Longrightarrow> mgr_inv (fst (install_loaded m loaded))"
  by (auto simp: install_loaded_def alloc_facts split_beta intro!: inv_setCurrentPlan dest: mgr_inv_undo
      split: sum.splits)

lemma inv_Approve: "mgr_inv m \<Longrightarrow> mgr_inv (fst (ApprovePlanAndRequestContextClearIfCurrent m r now))"
  by (auto simp: ApprovePlanAndRequestContextClearIfCurrent_def mgr_inv_defs put_plan_def emit_def Let_def
      split: option.splits prod.splits)

lemma inv_RequestContextClear: "mgr_inv m \<Longrightarrow> mgr_inv (fst (RequestContextClear m r))"
  by (auto simp: RequestContextClear_def mgr_inv_defs split: option.splits)

lemma inv_Consume: "mgr_inv m \<Longrightarrow> mgr_inv (fst (ConsumeContextClearRequest m))"
  by (auto simp: ConsumeContextClearRequest_def mgr_inv_defs Let_def split: option.splits)

lemma slot_CompleteStep:
  "slot (CompleteStep m i result now) =
     (if m_currentPlan m = None then slot m else slot (record_executed m i))"
proof (cases "m_currentPlan m")
  case (Some r)
  have "slot (record_executed m' i) = slot (record_executed m i)" if "slot m' = slot m" for m'
    using that by (simp add: slot_def record_executed_def)
  from this [of "on_plan m r (\<lambda>p. manual_complete p i result now)"] show ?thesis
    using Some by (simp add: CompleteStep_def Let_def split: option.splits)
qed (simp add: CompleteStep_def)

lemma inv_record_executed: "mgr_inv m \<Longrightarrow> mgr_inv (record_executed m i)"
  by (auto simp: mgr_inv_defs record_executed_def intro: undo_reachable.executed split: option.splits)

lemma inv_mgr_CompleteStep: "mgr_inv m \<Longrightarrow> mgr_inv (CompleteStep m i result now)"
  using slot_CompleteStep [of m i result now] inv_record_executed [of m i] slot_inv_cong
  by (metis (full_types))

lemma inv_undo_calls:
  assumes "mgr_inv m"
  shows "mgr_inv (EnableUndo m n)" "mgr_inv (DisableUndo m)" "mgr_inv (fst (SavePlanCheckpoint m now))"
    "mgr_inv (fst (BeginPlanUndoCapture m snap now))" "mgr_inv (FinishPlanUndoCapture m snap)"
proof -
  show "mgr_inv (EnableUndo m n)" "mgr_inv (DisableUndo m)" "mgr_inv (FinishPlanUndoCapture m snap)"
    using assms undo_reachable.init [of n] undo_reachable.finish_capture
    by (auto simp: EnableUndo_def DisableUndo_def FinishPlanUndoCapture_def mgr_inv_defs split: option.splits)
  show "mgr_inv (fst (SavePlanCheckpoint m now))"
  proof (cases "m_undoExtension m")
    case (Some e)
    with assms have "undo_reachable (fst (SaveCheckpoint e (current_plan m) now))"
      by (auto simp: mgr_inv_defs intro: undo_reachable.save)
    with Some assms show ?thesis by (simp add: SavePlanCheckpoint_def mgr_inv_defs split_beta)
  qed (use assms in \<open>simp add: SavePlanCheckpoint_def\<close>)
  show "mgr_inv (fst (BeginPlanUndoCapture m snap now))"
  proof (cases "m_undoExtension m")
    case (Some e)
    with assms have "undo_reachable (fst (BeginCapture e (current_plan m) snap now))"
      by (auto simp: mgr_inv_defs intro: undo_reachable.begin_capture)
    with Some assms show ?thesis by (simp add: BeginPlanUndoCapture_def mgr_inv_defs split_beta)
  qed (use assms in \<open>simp add: BeginPlanUndoCapture_def\<close>)
qed

lemma inv_finish_approval: "mgr_inv (fst (finish_approval m r d err)) = mgr_inv m"
  by (rule slot_inv_cong) (simp add: finish_approval_def split: option.splits)

lemma inv_RequestApproval:
  assumes "mgr_inv m"
    and "\<And>f v r. lint = Some f \<Longrightarrow> mgr_inv v \<Longrightarrow> mgr_inv (fst (f v r))"
    and "\<And>h v r. handler = Some h \<Longrightarrow> mgr_inv v \<Longrightarrow> mgr_inv (fst (h v r))"
  shows "mgr_inv (fst (RequestApproval lint handler m now))"
proof (cases "m_currentPlan m")
  case (Some r)
  obtain m1 e1 where l: "run_lint lint m r = (m1, e1)" by fastforce
  have i1: "mgr_inv m1"
  proof (cases lint)
    case (Some f)
    with l have "m1 = fst (f m r)" by (simp add: run_lint_def)
    then show ?thesis using assms(2) [OF Some assms(1)] by simp
  qed (use l assms(1) in \<open>simp add: run_lint_def\<close>)
  obtain p e2 where t: "Plan_TransitionLifecycle (m_plans m1 r) LifecycleAwaitingApproval now = (p, e2)"
    by fastforce
  have i2: "mgr_inv (put_plan m1 r p)" using i1 slot_inv_cong [OF slot_put_plan] by blast
  show ?thesis
  proof (cases handler)
    case None
    with Some l t i1 i2 show ?thesis
      by (simp add: RequestApproval_def Let_def split: option.splits)
  next
    case (Some h)
    obtain m3 d e3 where h: "h (put_plan m1 r p) r = (m3, d, e3)" by (metis prod_cases3)
    have i3: "mgr_inv m3" using assms(3) [OF Some i2, of r] h by simp
    from Some l t h i1 i2 i3 \<open>m_currentPlan m = Some r\<close> show ?thesis
      by (simp add: RequestApproval_def Let_def inv_finish_approval split: option.splits)
  qed
qed (use assms in \<open>simp add: RequestApproval_def\<close>)

lemma inv_RequestReplan:
  assumes "mgr_inv m" and "\<And>h v r s. handler = Some h \<Longrightarrow> mgr_inv v \<Longrightarrow> mgr_inv (fst (h v r s))"
  shows "mgr_inv (fst (RequestReplan handler m failed now))"
proof (cases "handler = None \<or> m_currentPlan m = None \<or> failed = None")
  case True
  then show ?thesis using assms(1) by (auto simp: RequestReplan_def split: option.splits)
next
  case False
  then obtain h r s where c: "handler = Some h" "m_currentPlan m = Some r" "failed = Some s" by auto
  obtain m1 res where h: "h m r s = (m1, res)" by fastforce
  have "mgr_inv m1" using assms(2) [OF c(1) assms(1), of r s] h by simp
  then show ?thesis
    using c h slot_inv_cong [OF slot_put_plan] by (cases res) (simp_all add: RequestReplan_def)
qed

section \<open>Reachability\<close>

inductive mgr_reach :: "manager \<Rightarrow> manager \<Rightarrow> bool" where
  idle: "mgr_reach m m"
| create: "mgr_reach m v \<Longrightarrow> mgr_reach m (fst (CreatePlan v title desc req now))"
| set_plan: "mgr_reach m v \<Longrightarrow> (\<forall>x. r = Some x \<longrightarrow> x < m_next v) \<Longrightarrow> mgr_reach m (SetPlan v r)"
| clear: "mgr_reach m v \<Longrightarrow> mgr_reach m (fst (ClearPlan v))"
| clear_if: "mgr_reach m v \<Longrightarrow> mgr_reach m (fst (ClearPlanIfCurrent v r))"
| load_paused: "mgr_reach m v \<Longrightarrow> mgr_reach m (fst (LoadPausedPlan ld v))"
| load_id: "mgr_reach m v \<Longrightarrow> mgr_reach m (fst (LoadPlanByID ld v pid))"
| transition_if: "mgr_reach m v \<Longrightarrow> mgr_reach m (fst (TransitionPlanLifecycleIfCurrent v r nxt now))"
| transition_current: "mgr_reach m v \<Longrightarrow> mgr_reach m (fst (TransitionCurrentPlanLifecycle v nxt now))"
| approve: "mgr_reach m v \<Longrightarrow> mgr_reach m (fst (ApprovePlanAndRequestContextClearIfCurrent v r now))"
| request_clear: "mgr_reach m v \<Longrightarrow> mgr_reach m (fst (RequestContextClear v r))"
| consume_clear: "mgr_reach m v \<Longrightarrow> mgr_reach m (fst (ConsumeContextClearRequest v))"
| exec_mode: "mgr_reach m v \<Longrightarrow> mgr_reach m (SetExecutionMode v b)"
| step_id: "mgr_reach m v \<Longrightarrow> mgr_reach m (SetCurrentStepID v i)"
| handlers: "mgr_reach m v \<Longrightarrow>
    mgr_reach m (SetPlanStore (SetWorkDir (SetProgressUpdateHandler (SetStepHandlers
      (SetApprovalCommitHandler (SetEnabled v a) b) c d) e) dir) f)"
| save_rejected: "mgr_reach m v \<Longrightarrow> mgr_reach m (SaveRejectedPlan v r)"
| set_feedback: "mgr_reach m v \<Longrightarrow> mgr_reach m (SetFeedback v fb)"
| get_feedback: "mgr_reach m v \<Longrightarrow> mgr_reach m (fst (GetFeedback v))"
| stage_feedback: "mgr_reach m v \<Longrightarrow> mgr_reach m (fst (StageApprovalFeedback v r fb))"
| consume_feedback: "mgr_reach m v \<Longrightarrow> mgr_reach m (fst (ConsumeApprovalFeedback v r))"
| request_approval: "mgr_reach m v \<Longrightarrow>
    (\<And>f w r. lint = Some f \<Longrightarrow> mgr_reach w (fst (f w r))) \<Longrightarrow>
    (\<And>h w r. handler = Some h \<Longrightarrow> mgr_reach w (fst (h w r))) \<Longrightarrow>
    mgr_reach m (fst (RequestApproval lint handler v now))"
| replan: "mgr_reach m v \<Longrightarrow>
    (\<And>h w r s. replanner = Some h \<Longrightarrow> mgr_reach w (fst (h w r s))) \<Longrightarrow>
    mgr_reach m (fst (RequestReplan replanner v failed now))"
| start: "mgr_reach m v \<Longrightarrow> mgr_reach m (StartStep v i now)"
| complete: "mgr_reach m v \<Longrightarrow> mgr_reach m (CompleteStep v i result now)"
| verify: "mgr_reach m v \<Longrightarrow> mgr_reach m (fst (RecordStepVerification v i ev c now))"
| fail: "mgr_reach m v \<Longrightarrow> mgr_reach m (FailStep v i msg now)"
| skip: "mgr_reach m v \<Longrightarrow> mgr_reach m (SkipStep v i now)"
| pause: "mgr_reach m v \<Longrightarrow> mgr_reach m (PauseStep v i reason now)"
| add_step: "mgr_reach m v \<Longrightarrow> mgr_reach m (fst (AddStep v title desc now))"
| resume: "mgr_reach m v \<Longrightarrow> mgr_reach m (fst (ResumePlan v now))"
| pause_plan: "mgr_reach m v \<Longrightarrow> mgr_reach m (PausePlan v now)"
| resume_steps: "mgr_reach m v \<Longrightarrow> mgr_reach m (fst (ResumePausedSteps v now))"
| save: "mgr_reach m v \<Longrightarrow> mgr_reach m (fst (SaveCurrentPlan store_save v))"
| enable_undo: "mgr_reach m v \<Longrightarrow> mgr_reach m (EnableUndo v n)"
| disable_undo: "mgr_reach m v \<Longrightarrow> mgr_reach m (DisableUndo v)"
| checkpoint: "mgr_reach m v \<Longrightarrow> mgr_reach m (fst (SavePlanCheckpoint v now))"
| begin_capture: "mgr_reach m v \<Longrightarrow> mgr_reach m (fst (BeginPlanUndoCapture v snap now))"
| finish_capture: "mgr_reach m v \<Longrightarrow> mgr_reach m (FinishPlanUndoCapture v snap)"

lemma mgr_inv_kept: "mgr_reach m m' \<Longrightarrow> mgr_inv m \<Longrightarrow> mgr_inv m'"
proof (induction rule: mgr_reach.induct)
  case (request_approval m v lint handler now)
  then show ?case by (intro inv_RequestApproval) blast+
next
  case (replan m v replanner failed now)
  then show ?case by (intro inv_RequestReplan) blast+
qed (simp_all add: framed_calls inv_CreatePlan inv_SetPlan inv_ClearPlan inv_ClearPlanIfCurrent
    inv_install_loaded LoadPausedPlan_def LoadPlanByID_def inv_Approve inv_RequestContextClear inv_Consume
    inv_mgr_CompleteStep inv_undo_calls TransitionCurrentPlanLifecycle_def)

lemma mgr_inv_NewManager: "mgr_inv (NewManager a b)"
  by (simp add: mgr_inv_defs NewManager_def)

lemma mgr_inv_reachable: "mgr_reach (NewManager a b) m \<Longrightarrow> mgr_inv m"
  by (rule mgr_inv_kept [OF _ mgr_inv_NewManager])

end
