(* ===== verification/ManagerProps.thy ===== *)
theory ManagerProps
  imports ManagerInv
begin

text \<open>
  Properties of the plan manager: the hand-off of an approved plan is consumed once and only for
  the plan that is still active, calls that come late for a replaced plan change nothing, feedback
  reaches exactly the plan it was given for, and what approving, resuming, completing and
  replanning do on every branch.
\<close>

section \<open>What the calls do to the heap\<close>

lemma plans_emit [simp]: "m_plans (emit m ev) = m_plans m"
  by (simp add: emit_def)

lemma plans_save [simp]: "m_plans (save_plan m r) = m_plans m"
  by (simp add: save_plan_def)

lemma plans_notify [simp]: "m_plans (notify_progress m r i st reason) = m_plans m"
  by (simp add: notify_progress_def split: option.splits)

lemma plans_executed [simp]: "m_plans (record_executed m i) = m_plans m"
  by (simp add: record_executed_def)

lemma plans_put [simp]: "m_plans (put_plan m r p) = (m_plans m)(r := p)"
  by (simp add: put_plan_def)

lemma plans_on [simp]: "m_plans (on_plan m r f) = (m_plans m)(r := f (m_plans m r))"
  by (simp add: on_plan_def)

lemma plans_CompleteStep:
  "m_currentPlan m = Some r \<Longrightarrow>
   m_plans (CompleteStep m i result now) = (m_plans m)(r := manual_complete (m_plans m r) i result now)"
  by (simp add: CompleteStep_def Let_def split: option.splits)

lemma staged_drop [simp]: "map_of (m_approvalFeedback (drop_staged m r)) r = None"
  by (simp add: drop_staged_def)

section \<open>The hand-off\<close>

lemma Consume_result:
  "snd (ConsumeContextClearRequest m) = Some r \<longleftrightarrow>
   m_contextClearRequested m \<and> m_approvedPlanSnapshot m = Some r \<and> m_currentPlan m = Some r \<and>
   Plan_LifecycleState (m_plans m r) = LifecycleApproved"
  by (auto simp: ConsumeContextClearRequest_def Let_def split: option.splits)

lemma Consume_clears:
  "\<not> m_contextClearRequested (fst (ConsumeContextClearRequest m))"
  by (auto simp: ConsumeContextClearRequest_def Let_def split: option.splits)

lemma Consume_idle: "\<not> m_contextClearRequested m \<Longrightarrow> ConsumeContextClearRequest m = (m, None)"
  by (simp add: ConsumeContextClearRequest_def)

text \<open>
  C4: in every state the manager can reach, with callbacks that interleave any further calls, the
  execution hand-off is safe. What \<open>ConsumeContextClearRequest\<close> hands out is the active plan, in the
  approved state; a request is pending only for the active plan; and a second consumption hands
  out nothing.
\<close>

theorem handoff_is_exact:
  assumes "mgr_reach (NewManager a b) m"
  shows "(\<forall>r. snd (ConsumeContextClearRequest m) = Some r \<longrightarrow>
            m_currentPlan m = Some r \<and> r < m_next m \<and>
            Plan_LifecycleState (m_plans m r) = LifecycleApproved) \<and>
    (m_contextClearRequested m \<longrightarrow>
       m_currentPlan m \<noteq> None \<and> m_approvedPlanSnapshot m = m_currentPlan m) \<and>
    snd (ConsumeContextClearRequest (fst (ConsumeContextClearRequest m))) = None"
proof -
  have "mgr_inv m" using assms by (rule mgr_inv_reachable)
  then show ?thesis
    using Consume_idle [OF Consume_clears [of m]] by (auto simp: Consume_result mgr_inv_defs)
qed

theorem handoff_is_exact_witness:
  "snd (ConsumeContextClearRequest (fst (ConsumeContextClearRequest
     (fst (CreatePlan (NewManager True True) ''t'' ''d'' ''q'' 4))))) = None"
  using handoff_is_exact [OF mgr_reach.create [OF mgr_reach.idle]] by blast

lemma TransitionLifecycle_state:
  assumes "Plan_TransitionLifecycle p nxt now = (p', None)" "nxt \<noteq> LifecycleEmpty"
  shows "Plan_LifecycleState p' = nxt"
  using TransitionLifecycle_applied(1) [OF assms(1)] assms(2) by (simp add: Plan_LifecycleState_def)

text \<open>
  Approving the plan on display succeeds exactly when it is the active plan and its lifecycle
  may become approved. Then the hand-off is pending for exactly this plan, so that the next
  consumption returns it, and the application's commit callback has run if one is configured. When
  it fails, no hand-off is requested that was not there before.
\<close>

theorem approval_hands_off:
  assumes "ApprovePlanAndRequestContextClearIfCurrent m (Some r) now = (m', err)"
  shows "(err = None \<longleftrightarrow>
            m_currentPlan m = Some r \<and>
            Lifecycle_CanTransitionTo (Plan_LifecycleState (m_plans m r)) LifecycleApproved) \<and>
    (err = None \<longrightarrow>
       snd (ConsumeContextClearRequest m') = Some r \<and>
       m_events m' = m_events m @ (if m_onApprovalCommit m then [ApprovalCommitted] else [])) \<and>
    (err \<noteq> None \<longrightarrow> slot m' = slot m \<and> m_events m' = m_events m)"
proof (cases "m_currentPlan m = Some r")
  case True
  obtain p e where t: "Plan_TransitionLifecycle (m_plans m r) LifecycleApproved now = (p, e)" by fastforce
  have e: "e = None \<longleftrightarrow> Lifecycle_CanTransitionTo (Plan_LifecycleState (m_plans m r)) LifecycleApproved"
    using TransitionLifecycle_error [of "m_plans m r" LifecycleApproved now] t by auto
  show ?thesis
  proof (cases e)
    case None
    then have "Plan_LifecycleState p = LifecycleApproved"
      using TransitionLifecycle_state t by blast
    with True None t e assms show ?thesis
      by (auto simp: ApprovePlanAndRequestContextClearIfCurrent_def Let_def Consume_result emit_def put_plan_def
          split: if_splits)
  next
    case (Some x)
    with True t e assms show ?thesis
      by (auto simp: ApprovePlanAndRequestContextClearIfCurrent_def put_plan_def slot_def)
  qed
qed (use assms in \<open>auto simp: ApprovePlanAndRequestContextClearIfCurrent_def slot_def split: option.splits if_splits\<close>)

definition awaiting_manager :: manager where
  "awaiting_manager =
     (NewManager True True)\<lparr>m_currentPlan := Some 0, m_next := 1,
        m_plans := (\<lambda>_. (NewPlan ''t'' ''d'' 5)\<lparr>p_Lifecycle := LifecycleAwaitingApproval\<rparr>)\<rparr>"

theorem approval_hands_off_witness:
  "snd (ConsumeContextClearRequest
     (fst (ApprovePlanAndRequestContextClearIfCurrent awaiting_manager (Some 0) 9))) = Some 0"
proof -
  have "m_currentPlan awaiting_manager = Some 0 \<and>
      Lifecycle_CanTransitionTo (Plan_LifecycleState (m_plans awaiting_manager 0)) LifecycleApproved"
    by (simp add: awaiting_manager_def Plan_LifecycleState_def Lifecycle_CanTransitionTo_def)
  then show ?thesis
    using approval_hands_off [of awaiting_manager 0 9] by (metis prod.collapse)
qed

text \<open>
  Calls made for a plan that is no longer active change nothing and say so: lifecycle
  transitions, approval, clearing, requesting the hand-off and staging feedback.
\<close>

theorem stale_plan_calls_are_noops:
  assumes "m_currentPlan m \<noteq> Some r"
  shows "(\<exists>e. TransitionPlanLifecycleIfCurrent m (Some r) nxt now = (m, Some e)) \<and>
    (\<exists>e. ApprovePlanAndRequestContextClearIfCurrent m (Some r) now = (m, Some e)) \<and>
    ClearPlanIfCurrent m (Some r) = (m, False) \<and>
    RequestContextClear m (Some r) = (m, False) \<and>
    StageApprovalFeedback m (Some r) feedback = (m, False)"
  using assms
  by (cases "m_currentPlan m")
     (auto simp: TransitionPlanLifecycleIfCurrent_def ApprovePlanAndRequestContextClearIfCurrent_def
       ClearPlanIfCurrent_def RequestContextClear_def StageApprovalFeedback_def Let_def)

theorem stale_plan_calls_are_noops_witness:
  "ClearPlanIfCurrent awaiting_manager (Some 7) = (awaiting_manager, False)"
  using stale_plan_calls_are_noops [of awaiting_manager 7] by (simp add: awaiting_manager_def)

section \<open>Approval\<close>

text \<open>The state in which the approval handler is asked.\<close>

definition asked_manager :: "lint_handler option \<Rightarrow> manager \<Rightarrow> ref \<Rightarrow> time \<Rightarrow> manager" where
  "asked_manager lint m r now =
     (let m1 = fst (run_lint lint m r)
      in put_plan m1 r (fst (Plan_TransitionLifecycle (m_plans m1 r) LifecycleAwaitingApproval now)))"

lemma RequestApproval_asked:
  assumes "m_currentPlan m = Some r" "snd (run_lint lint m r) = None"
    and "m_requireApproval (fst (run_lint lint m r))"
    and "Lifecycle_CanTransitionTo (Plan_LifecycleState (m_plans (fst (run_lint lint m r)) r)) LifecycleAwaitingApproval"
    and "h (asked_manager lint m r now) r = (m2, decision, err)"
  shows "RequestApproval lint (Some h) m now = finish_approval m2 r decision err"
proof -
  obtain m1 where l: "run_lint lint m r = (m1, None)" using assms(2) by (cases "run_lint lint m r") auto
  obtain p where t: "Plan_TransitionLifecycle (m_plans m1 r) LifecycleAwaitingApproval now = (p, None)"
    using TransitionLifecycle_error [of "m_plans m1 r" LifecycleAwaitingApproval now] assms(4) l
    by (cases "Plan_TransitionLifecycle (m_plans m1 r) LifecycleAwaitingApproval now") auto
  from l t assms show ?thesis
    by (simp add: RequestApproval_def asked_manager_def Let_def put_plan_def split: prod.splits)
qed

text \<open>
  C5: a decision that arrives after the active plan was replaced is discarded: the caller gets a
  rejection with an error, the feedback staged for the old plan is dropped, and neither the last
  feedback, the committed feedback, the last rejected plan, the plans nor the active slot change
  from what the handler left.
\<close>

theorem stale_decision_discarded:
  assumes "m_currentPlan m = Some r" "snd (run_lint lint m r) = None"
    and "m_requireApproval (fst (run_lint lint m r))"
    and "Lifecycle_CanTransitionTo (Plan_LifecycleState (m_plans (fst (run_lint lint m r)) r)) LifecycleAwaitingApproval"
    and "h (asked_manager lint m r now) r = (m2, decision, None)"
    and "m_currentPlan m2 \<noteq> Some r"
    and "RequestApproval lint (Some h) m now = (m', d, err)"
  shows "d = ApprovalRejected \<and> err = Some stale_decision_msg \<and>
    m' = m2\<lparr>m_approvalFeedback := AList.delete r (m_approvalFeedback m2)\<rparr>"
  using RequestApproval_asked [where h = h, OF assms(1-5)] assms(6,7)
  by (simp add: finish_approval_def drop_staged_def)

definition replacing_handler :: approval_handler where
  "replacing_handler m r = (fst (CreatePlan m ''b'' ''d'' ''q'' 8), ApprovalApproved, None)"

theorem stale_decision_discarded_witness:
  "fst (snd (RequestApproval None (Some replacing_handler) awaiting_manager 9)) = ApprovalRejected"
proof -
  let ?a = "asked_manager None awaiting_manager 0 9"
  have "m_currentPlan (fst (replacing_handler ?a 0)) \<noteq> Some 0"
    by (simp add: replacing_handler_def CreatePlan_def alloc_plan_def setCurrentPlan_def asked_manager_def
        run_lint_def put_plan_def awaiting_manager_def Let_def)
  then show ?thesis
    using stale_decision_discarded [of awaiting_manager 0 None replacing_handler 9
        "fst (replacing_handler ?a 0)" ApprovalApproved]
    by (simp add: awaiting_manager_def run_lint_def NewManager_def Lifecycle_CanTransitionTo_def
        Plan_LifecycleState_def replacing_handler_def split_paired_all)
       (metis prod.collapse)
qed

text \<open>
  Where approval is required, the answer "approved" always comes from the handler, asked
  about the plan that was active at the call and is still active at the answer; without a handler
  or after a failed lint nothing is approved.
\<close>

theorem approval_needs_consent:
  assumes "RequestApproval lint handler m now = (m', ApprovalApproved, err)"
    and "\<And>r. m_requireApproval (fst (run_lint lint m r)) = m_requireApproval m"
    and "m_requireApproval m"
  shows "err = None \<and>
    (\<exists>r h m2. m_currentPlan m = Some r \<and> handler = Some h \<and> snd (run_lint lint m r) = None \<and>
       h (asked_manager lint m r now) r = (m2, ApprovalApproved, None) \<and> m_currentPlan m2 = Some r)"
proof -
  obtain r where r: "m_currentPlan m = Some r"
    using assms(1) by (cases "m_currentPlan m") (auto simp: RequestApproval_def)
  obtain m1 where l: "run_lint lint m r = (m1, None)"
    using assms(1) r by (cases "run_lint lint m r") (auto simp: RequestApproval_def split: option.splits)
  have req: "m_requireApproval m1" using assms(2) [of r] assms(3) l by simp
  obtain p where t: "Plan_TransitionLifecycle (m_plans m1 r) LifecycleAwaitingApproval now = (p, None)"
    using assms(1) r l by (cases "Plan_TransitionLifecycle (m_plans m1 r) LifecycleAwaitingApproval now")
      (auto simp: RequestApproval_def split: option.splits)
  have asked: "asked_manager lint m r now = put_plan m1 r p"
    using l t by (simp add: asked_manager_def)
  obtain h where h: "handler = Some h"
    using assms(1) r l t req
    by (cases handler) (auto simp: RequestApproval_def put_plan_def Let_def split: if_splits)
  obtain m2 d e where a: "h (put_plan m1 r p) r = (m2, d, e)" by (metis prod_cases3)
  have "finish_approval m2 r d e = (m', ApprovalApproved, err)"
    using assms(1) r l t req h a by (simp add: RequestApproval_def put_plan_def Let_def)
  then show ?thesis
    using r l h a asked by (auto simp: finish_approval_def split: option.splits if_splits)
qed

definition consenting_handler :: approval_handler where
  "consenting_handler m r = (m, ApprovalApproved, None)"

theorem approval_needs_consent_witness:
  "snd (RequestApproval None (Some consenting_handler) awaiting_manager 9) = (ApprovalApproved, None) \<and>
   (\<exists>r h m2. m_currentPlan awaiting_manager = Some r \<and> Some consenting_handler = Some h \<and>
      h (asked_manager None awaiting_manager r 9) r = (m2, ApprovalApproved, None) \<and> m_currentPlan m2 = Some r)"
proof -
  have ok: "snd (RequestApproval None (Some consenting_handler) awaiting_manager 9) = (ApprovalApproved, None)"
    by (simp add: RequestApproval_def awaiting_manager_def run_lint_def consenting_handler_def NewManager_def
        Plan_TransitionLifecycle_def Plan_LifecycleState_def Lifecycle_CanTransitionTo_def put_plan_def
        finish_approval_def commit_decision_def drop_staged_def Let_def)
  have "\<And>r. m_requireApproval (fst (run_lint None awaiting_manager r)) = m_requireApproval awaiting_manager"
    "m_requireApproval awaiting_manager"
    by (simp_all add: run_lint_def awaiting_manager_def NewManager_def)
  from approval_needs_consent [OF _ this] ok show ?thesis by (metis prod.collapse)
qed

section \<open>Feedback\<close>

text \<open>
  Feedback a user gives while asking for changes reaches exactly the plan it was given for.
  If the handler stages text for the plan it was shown and answers "modified", then after the call
  the feedback committed for that plan is the trimmed text, reading it returns it once and then
  nothing, and the feedback committed for any other plan is what it was.
\<close>

theorem modified_feedback_delivered:
  assumes "m_currentPlan m = Some r" "trim_space text \<noteq> []"
    and "StageApprovalFeedback m (Some r) text = (m1, staged)"
    and "finish_approval m1 r ApprovalModified None = (m', d, err)"
  shows "staged \<and> d = ApprovalModified \<and> err = None \<and>
    snd (ConsumeApprovalFeedback m' (Some r)) = trim_space text \<and>
    snd (ConsumeApprovalFeedback (fst (ConsumeApprovalFeedback m' (Some r))) (Some r)) = [] \<and>
    m_lastFeedback m' = trim_space text \<and> m_lastRejectedPlan m' = Some r \<and>
    (q \<noteq> r \<longrightarrow> feedback_of (m_committedFeedback m') q = feedback_of (m_committedFeedback m) q)"
proof -
  have m1: "m1 = m\<lparr>m_approvalFeedback := AList.update r (trim_space text) (m_approvalFeedback m)\<rparr>" "staged"
    using assms(1-3) by (auto simp: StageApprovalFeedback_def Let_def)
  have m': "m' = commit_decision m1 r ApprovalModified" "d = ApprovalModified" "err = None"
    using assms(1,4) m1 by (auto simp: finish_approval_def)
  have c: "m_committedFeedback m' = AList.update r (trim_space text) (m_committedFeedback m)"
    "m_lastFeedback m' = trim_space text" "m_lastRejectedPlan m' = Some r"
    using m1 m' assms(2) by (simp_all add: commit_decision_def drop_staged_def feedback_of_def Let_def)
  then show ?thesis
    using m1 m' assms(2) by (simp add: ConsumeApprovalFeedback_def feedback_of_def Let_def)
qed

theorem modified_feedback_delivered_witness:
  "snd (ConsumeApprovalFeedback (fst (finish_approval
     (fst (StageApprovalFeedback awaiting_manager (Some 0) ''redo'')) 0 ApprovalModified None)) (Some 0)) = ''redo''"
proof -
  have "trim_space ''redo'' = ''redo''" by (rule trim_space_printable) (simp_all add: printable_def)
  then show ?thesis
    using modified_feedback_delivered [of awaiting_manager 0 "''redo''"]
    by (simp add: awaiting_manager_def) (metis prod.collapse)
qed

section \<open>Replacing the plan\<close>

text \<open>
  Whenever the active plan is replaced or cleared (a new plan, an explicit one, one loaded
  from the store, or none) a pending hand-off of the old plan is void, execution mode is off and no
  step is current.
\<close>

theorem replacement_voids_handoff:
  "m' \<in> {fst (CreatePlan m title desc req now), SetPlan m q, fst (ClearPlan m)} \<or>
   (\<exists>p. m' = fst (install_loaded m (Inr p)) \<and> m_planStore m) \<or>
   (m' = fst (ClearPlanIfCurrent m (m_currentPlan m)) \<and> m_currentPlan m \<noteq> None) \<Longrightarrow>
   snd (ConsumeContextClearRequest m') = None \<and> \<not> m_executionMode m' \<and> m_currentStepID m' = - 1"
  by (auto simp: CreatePlan_def SetPlan_def ClearPlan_def install_loaded_def ClearPlanIfCurrent_def alloc_plan_def
      setCurrentPlan_def Consume_idle)

theorem replacement_voids_handoff_witness:
  "snd (ConsumeContextClearRequest (fst (ClearPlan awaiting_manager))) = None"
  using replacement_voids_handoff [of "fst (ClearPlan awaiting_manager)" awaiting_manager] by blast

section \<open>Completing steps through the manager\<close>

lemma manual_evidence_has_proof:
  "containsEvidenceToken (collect_trimmed 40 (manual_evidence result)) verify_proof_token"
  "collect_trimmed 40 (manual_evidence result) \<noteq> []"
proof -
  let ?a = "''manual completion marker''" and ?b = verify_proof_token and ?c = "''output provided''"
  have t: "trim_space ?a = ?a" "trim_space ?b = ?b" "trim_space ?c = ?c"
    by (rule trim_space_printable; simp add: printable_def verify_proof_token_def)+
  have "trimmed_list 40 (manual_evidence result)"
    using t by (simp add: trimmed_list_def manual_evidence_def verify_proof_token_def)
  then have c: "collect_trimmed 40 (manual_evidence result) = manual_evidence result"
    by (rule collect_trimmed_fixed)
  have "to_lower ?b = ?b"
    by (rule to_lower_fixed) (simp add: verify_proof_token_def plain_lower_def)
  with t c show "containsEvidenceToken (collect_trimmed 40 (manual_evidence result)) verify_proof_token"
    "collect_trimmed 40 (manual_evidence result) \<noteq> []"
    by (simp_all add: containsEvidenceToken_def manual_evidence_def) (simp add: verify_proof_token_def)
qed

lemma manual_complete_find:
  assumes "find_step p i = Some s"
  shows "\<exists>s'. find_step (manual_complete p i result now) i = Some s' \<and>
    s_Status s' = (if s_Evidence s = [] \<or> gate_failure s = None then StatusCompleted else StatusPaused)"
proof (cases "s_Evidence s = []")
  case True
  let ?q = "fst (Plan_RecordStepVerification p i (manual_evidence result) manual_note now)"
  let ?s = "verify_update (collect_trimmed 40 (manual_evidence result)) (trim_space manual_note) s"
  have q: "find_step ?q i = Some ?s"
    using assms by (simp add: Plan_RecordStepVerification_def find_updated_or)
  have "gate_failure ?s = None"
    using manual_evidence_has_proof [of result] by (simp add: gate_failure_def verify_update_def)
  then show ?thesis
    using True assms CompleteStep_find [OF q, of result now]
    by (simp add: manual_complete_def Plan_GetStep_def complete_update_def)
next
  case False
  then show ?thesis
    using assms CompleteStep_find [OF assms, of result now]
    by (auto simp: manual_complete_def Plan_GetStep_def complete_update_def pause_update_def split: option.splits)
qed

text \<open>
  Completing a step through the manager never leaves it undecided. A step of the active plan
  without recorded evidence gets the manual marker and is completed; one with recorded evidence
  goes through the gate, so it is completed or, when the proof of its verify commands is missing,
  paused.
\<close>

theorem manager_completion_decides:
  assumes "m_currentPlan m = Some r" and "find_step (m_plans m r) i = Some s"
  shows "\<exists>s'. find_step (m_plans (CompleteStep m i result now) r) i = Some s' \<and>
    s_Status s' = (if s_Evidence s = [] \<or> gate_failure s = None then StatusCompleted else StatusPaused)"
  using manual_complete_find [OF assms(2)] assms(1) by (simp add: plans_CompleteStep)

definition running_manager :: manager where
  "running_manager = awaiting_manager\<lparr>m_plans := (\<lambda>_. (NewPlan ''t'' ''d'' 5)
     \<lparr>p_Lifecycle := LifecycleExecuting,
      p_Steps := [zero_step\<lparr>s_ID := 1, s_Status := StatusFailed, s_VerifyCommands := [''true'']\<rparr>]\<rparr>)\<rparr>"

theorem manager_completion_decides_witness:
  "\<exists>s'. find_step (m_plans (CompleteStep running_manager 1 ''ok'' 9) 0) 1 = Some s' \<and>
        s_Status s' = StatusCompleted"
  using manager_completion_decides [of running_manager 0 1
      "zero_step\<lparr>s_ID := 1, s_Status := StatusFailed, s_VerifyCommands := [''true'']\<rparr>" "''ok''" 9]
  by (simp add: running_manager_def awaiting_manager_def find_step_def zero_step_def)

section \<open>Resuming\<close>

lemma reset_facts:
  "s_ID (reset_for_resume s) = s_ID s" "s_Status (reset_for_resume s) \<noteq> StatusPaused"
  "s_Status (reset_for_resume s) \<noteq> StatusFailed"
  "resumable_status (s_Status s) \<longleftrightarrow> s_Status (reset_for_resume s) = StatusPending"
  "\<not> resumable_status (s_Status s) \<Longrightarrow> reset_for_resume s = s"
  by (auto simp: reset_for_resume_def pass_checkpoint_def resumable_status_def)

text \<open>
  Resuming succeeds exactly when there is an active plan with a pending, paused or failed step
  whose lifecycle may return to approved. Then the lifecycle is approved, the plan is in progress,
  every paused or failed step is pending again and no other step is touched; on an error no step,
  status or ledger entry of any plan has changed.
\<close>

theorem ResumePlan_behaviour:
  assumes "ResumePlan m now = (m', res)"
  shows "case m_currentPlan m of
      None \<Rightarrow> m' = m \<and> (\<exists>e. res = Inl e)
    | Some r \<Rightarrow>
        (let p = m_plans m r; p' = m_plans m' r
         in (\<forall>q. q \<noteq> r \<longrightarrow> m_plans m' q = m_plans m q) \<and>
            (if list_ex (\<lambda>s. resumable_status (s_Status s)) (p_Steps p) \<and>
                Lifecycle_CanTransitionTo (Plan_LifecycleState p) LifecycleApproved
             then res = Inr r \<and> p_Lifecycle p' = LifecycleApproved \<and> p_Status p' = StatusInProgress \<and>
                  length (p_Steps p') = length (p_Steps p) \<and>
                  list_all2 (\<lambda>s s'. s_ID s' = s_ID s \<and>
                      (if resumable_status (s_Status s) then s_Status s' = StatusPending else s' = s))
                    (p_Steps p) (p_Steps p')
             else (\<exists>e. res = Inl e) \<and> p_Steps p' = p_Steps p \<and> p_Status p' = p_Status p \<and>
                  p_RunLedger p' = p_RunLedger p))"
proof (cases "m_currentPlan m")
  case (Some r)
  let ?p = "m_plans m r"
  obtain p1 e where t: "Plan_TransitionLifecycle ?p LifecycleApproved now = (p1, e)" by fastforce
  have e: "e = None \<longleftrightarrow> Lifecycle_CanTransitionTo (Plan_LifecycleState ?p) LifecycleApproved"
    using TransitionLifecycle_error [of ?p LifecycleApproved now] t by auto
  have frame: "p_Steps p1 = p_Steps ?p" "p_Status p1 = p_Status ?p" "p_RunLedger p1 = p_RunLedger ?p"
    using TransitionLifecycle_frame [of ?p LifecycleApproved now] t by simp_all
  have lc: "e = None \<Longrightarrow> p_Lifecycle p1 = LifecycleApproved"
    using TransitionLifecycle_applied(1) [of ?p LifecycleApproved now p1] t by simp
  have steps: "list_all2 (\<lambda>s s'. s_ID s' = s_ID s \<and>
        (if resumable_status (s_Status s) then s_Status s' = StatusPending else s' = s)) ss (map reset_for_resume ss)"
    for ss by (induction ss) (simp_all add: reset_facts(1,5) iffD1 [OF reset_facts(4)])
  let ?can = "list_ex (\<lambda>s. resumable_status (s_Status s)) (p_Steps ?p)"
  show ?thesis
  proof (cases "?can \<and> e = None")
    case True
    then have m': "m' = put_plan m r (resume_plan p1 now)" "res = Inr r"
      using assms Some t by (auto simp: ResumePlan_def)
    show ?thesis
      using True Some e m' lc frame steps [of "p_Steps ?p"] by (simp add: Let_def resume_plan_def)
  next
    case False
    then have "(m' = m \<or> m' = put_plan m r p1) \<and> (\<exists>x. res = Inl x)"
      using assms Some t by (cases ?can; cases e) (auto simp: ResumePlan_def)
    then show ?thesis using False Some e frame by (auto simp: Let_def)
  qed
qed (use assms in \<open>auto simp: ResumePlan_def\<close>)

theorem ResumePlan_behaviour_witness: "snd (ResumePlan running_manager 9) = Inr 0"
  using ResumePlan_behaviour [of running_manager 9 "fst (ResumePlan running_manager 9)" "snd (ResumePlan running_manager 9)"]
  by (simp add: running_manager_def awaiting_manager_def Let_def zero_step_def resumable_status_def
      Plan_LifecycleState_def Lifecycle_CanTransitionTo_def)

section \<open>Replanning\<close>

lemma renumber_facts:
  "length (renumber n ss) = length ss" "map s_ID (renumber n ss) = map (\<lambda>k. n + int k) [0..<length ss]"
  "s \<in> set (renumber n ss) \<Longrightarrow> s_Status s = StatusPending \<and> contract_ok s"
proof -
  show "length (renumber n ss) = length ss" by (induction n ss rule: renumber.induct) simp_all
  show "map s_ID (renumber n ss) = map (\<lambda>k. n + int k) [0..<length ss]"
    by (induction n ss rule: renumber.induct) (simp_all add: upt_conv_Cons map_Suc_upt [symmetric] del: upt_Suc)
  show "s \<in> set (renumber n ss) \<Longrightarrow> s_Status s = StatusPending \<and> contract_ok s"
    by (induction n ss rule: renumber.induct) (auto simp: contract_ok_ensured)
qed

lemma contract_ok_deps [simp]: "contract_ok (s\<lparr>s_DependsOn := d\<rparr>) = contract_ok s"
  by (simp add: contract_ok_def)

text \<open>
  C39: replanning keeps every step that is not pending, unchanged and in order, and appends the new
  steps as pending steps with normalised contracts whose dependencies all name steps of the new
  plan; the version goes up by one. If the kept steps carry IDs 1 to k, the IDs stay distinct.
\<close>

theorem replan_behaviour:
  assumes "kept = filter (\<lambda>s. s_Status s \<noteq> StatusPending) (p_Steps p)"
    and "p' = replan_plan p newSteps now"
  shows "p_Version p' = p_Version p + 1 \<and> p_Status p' = StatusInProgress \<and>
    take (length kept) (p_Steps p') = kept \<and> length (p_Steps p') = length kept + length newSteps \<and>
    (\<forall>s \<in> set (drop (length kept) (p_Steps p')).
        s_Status s = StatusPending \<and> contract_ok s \<and> set (s_DependsOn s) \<subseteq> s_ID ` set (p_Steps p')) \<and>
    (map s_ID kept = map int [1..<Suc (length kept)] \<longrightarrow> distinct (map s_ID (p_Steps p')))"
proof -
  let ?new = "renumber (int (length kept) + 1) newSteps"
  let ?fix = "\<lambda>s. s\<lparr>s_DependsOn := filter (\<lambda>d. d \<in> set (map s_ID kept @ map s_ID ?new)) (s_DependsOn s)\<rparr>"
  have steps: "p_Steps p' = kept @ map ?fix ?new"
    using assms by (simp add: replan_plan_def replan_steps_def Let_def)
  have ids: "map s_ID (p_Steps p') = map s_ID kept @ map (\<lambda>k. int (length kept) + 1 + int k) [0..<length newSteps]"
    unfolding steps by (simp add: renumber_facts(2) [symmetric] o_def)
  have "distinct (map s_ID (p_Steps p'))" if "map s_ID kept = map int [1..<Suc (length kept)]"
    unfolding ids that by (auto simp: distinct_map inj_on_def simp del: upt_Suc)
  moreover have "\<forall>s \<in> set (map ?fix ?new).
      s_Status s = StatusPending \<and> contract_ok s \<and> set (s_DependsOn s) \<subseteq> s_ID ` set (p_Steps p')"
    unfolding image_set ids unfolding renumber_facts(2) [symmetric]
    by (auto simp: renumber_facts(3))
  moreover have "take (length kept) (p_Steps p') = kept" "drop (length kept) (p_Steps p') = map ?fix ?new"
    "length (p_Steps p') = length kept + length newSteps"
    by (simp_all add: steps renumber_facts(1))
  moreover have "p_Version p' = p_Version p + 1" "p_Status p' = StatusInProgress"
    using assms(2) by (simp_all add: replan_plan_def)
  ultimately show ?thesis by (intro conjI impI) (simp_all only:)
qed

theorem replan_behaviour_witness:
  "p_Version (replan_plan (m_plans running_manager 0) [zero_step] 9) = 1"
  using replan_behaviour [OF refl refl, of "m_plans running_manager 0" "[zero_step]" 9]
  by (simp add: running_manager_def NewPlan_def)

definition collision_plan :: plan where
  "collision_plan =
     Plan_FailStep (Plan_SkipStep
       (fst (Plan_AddStep (fst (Plan_AddStep (fst (Plan_AddStep (NewPlan ''t'' ''d'' 5) ''a'' [] 6)) ''b'' [] 6)) ''c'' [] 6))
       1 7) 3 ''boom'' 8"

lemma collision_plan_steps:
  "map (\<lambda>s. (s_ID s, s_Status s)) (p_Steps collision_plan) =
     [(1, StatusSkipped), (2, StatusPending), (3, StatusFailed)]"
  by (simp add: collision_plan_def Plan_AddStep_def Plan_AddStepWithOptions_def append_step_def Let_def NewPlan_def
      Plan_SkipStep_def Plan_FailStep_def find_step_def update_step_def skip_update_def fail_update_def
      markStepFailed_def set_entry_def zero_step_def)

text \<open>
  The numbering is not safe in general. \<open>RequestReplan\<close> starts the new IDs at the number of
  kept steps plus one, not after the last kept ID, so when a pending step lies before a kept one
  (a parallel step failed first) a new step gets the ID of a kept one, and every call addressed to
  that ID then acts on the old step: starting "step 3" of this replanned plan restarts the failed
  step, and the new one stays pending.
\<close>

theorem replan_ids_can_collide:
  "plan_reachable collision_plan \<and>
   map s_ID (p_Steps (replan_plan collision_plan [zero_step] 9)) = [1, 3, 3] \<and>
   map s_Status (p_Steps (Plan_StartStep (replan_plan collision_plan [zero_step] 9) 3 10)) =
     [StatusSkipped, StatusInProgress, StatusPending]"
proof -
  have "plan_reachable collision_plan"
    unfolding collision_plan_def Plan_AddStep_def
    by (intro plan_reachable.op [OF _ plan_op.fail_step] plan_reachable.op [OF _ plan_op.skip_step]
        plan_reachable.op [OF _ plan_op.add_step] plan_reachable.fresh)
  obtain a b c where steps: "p_Steps collision_plan = [a, b, c]" "s_ID a = 1" "s_Status a = StatusSkipped"
    "s_Status b = StatusPending" "s_ID c = 3" "s_Status c = StatusFailed"
    using collision_plan_steps by (auto simp: map_eq_Cons_conv)
  have new: "p_Steps (replan_plan collision_plan [zero_step] 9) =
      [a, c, (Step_EnsureContractDefaults (zero_step\<lparr>s_ID := 3, s_Status := StatusPending\<rparr>))\<lparr>s_DependsOn := []\<rparr>]"
    using steps by (simp add: replan_plan_def replan_steps_def Let_def) (simp add: zero_step_def)
  show ?thesis
    using \<open>plan_reachable collision_plan\<close> steps
    by (simp add: new Plan_StartStep_def find_step_def update_step_def start_update_def markStepStarted_def
        set_entry_def Let_def)
qed

end
