(* ===== verification/CircuitBreaker.thy ===== *)
theory CircuitBreaker
  imports Prelude
begin

text \<open>
  \<open>internal/robustness/circuit_breaker.go\<close>: the circuit breaker in its classic mode (consecutive
  failures) and its windowed mode (failures inside a rolling window), with the admission of
  requests, the recording of outcomes, the forced reset and the window query.

  The admission contract shared by the code that asks first and calls later (\<open>CanExecute\<close>, then
  \<open>Execute\<close>) is the locale \<open>admission_gate\<close>. Lemmas: the query agrees with the admission, an open
  breaker rejects every request until its reset timeout has passed, a classic breaker is closed
  exactly while fewer than the threshold of failures came in a row, and a windowed one is at every
  moment in the state that the full history of failures, probes and resets demands.
\<close>

section \<open>State\<close>

datatype breaker_state = StateClosed | StateHalfOpen | StateOpen

fun State_String :: "breaker_state \<Rightarrow> string" where
  "State_String StateClosed = ''closed''"
| "State_String StateHalfOpen = ''half_open''"
| "State_String StateOpen = ''open''"

record breaker =
  cb_state :: breaker_state
  cb_failures :: int
  cb_threshold :: int
  cb_resetTimeout :: duration
  cb_lastFailure :: time
  cb_window :: duration
  cb_failureTimes :: "time list"

definition NewCircuitBreaker :: "int \<Rightarrow> duration \<Rightarrow> breaker" where
  "NewCircuitBreaker threshold resetTimeout =
     \<lparr>cb_state = StateClosed, cb_failures = 0, cb_threshold = threshold,
      cb_resetTimeout = resetTimeout, cb_lastFailure = zero_time, cb_window = 0, cb_failureTimes = []\<rparr>"

definition NewWindowedCircuitBreaker :: "int \<Rightarrow> duration \<Rightarrow> duration \<Rightarrow> breaker" where
  "NewWindowedCircuitBreaker threshold window resetTimeout =
     \<lparr>cb_state = StateClosed, cb_failures = 0, cb_threshold = threshold,
      cb_resetTimeout = resetTimeout, cb_lastFailure = zero_time, cb_window = window, cb_failureTimes = []\<rparr>"

section \<open>Operations\<close>

definition allowRequest :: "breaker \<Rightarrow> time \<Rightarrow> breaker \<times> bool" where
  "allowRequest cb now =
     (case cb_state cb of
        StateClosed \<Rightarrow> (cb, True)
      | StateOpen \<Rightarrow>
          if time_sub now (cb_lastFailure cb) > cb_resetTimeout cb
          then (cb\<lparr>cb_state := StateHalfOpen\<rparr>, True) else (cb, False)
      | StateHalfOpen \<Rightarrow> (cb, True))"

definition CanExecute :: "breaker \<Rightarrow> time \<Rightarrow> bool" where
  "CanExecute cb now =
     (case cb_state cb of
        StateClosed \<Rightarrow> True
      | StateOpen \<Rightarrow> time_sub now (cb_lastFailure cb) > cb_resetTimeout cb
      | StateHalfOpen \<Rightarrow> True)"

definition in_window :: "breaker \<Rightarrow> time \<Rightarrow> time list" where
  "in_window cb now = filter (\<lambda>t. t > now - cb_window cb) (cb_failureTimes cb)"

definition recordFailure :: "breaker \<Rightarrow> time \<Rightarrow> breaker" where
  "recordFailure cb0 now =
     (let cb = cb0\<lparr>cb_failures := cb_failures cb0 + 1, cb_lastFailure := now\<rparr>
      in if 0 < cb_window cb
         then (let cb = cb\<lparr>cb_failureTimes := in_window cb now @ [now]\<rparr>
               in if cb_state cb = StateHalfOpen \<or> cb_threshold cb \<le> int (length (cb_failureTimes cb))
                  then cb\<lparr>cb_state := StateOpen\<rparr> else cb)
         else if cb_state cb = StateHalfOpen \<or> cb_threshold cb \<le> cb_failures cb
              then cb\<lparr>cb_state := StateOpen\<rparr> else cb)"

definition recordSuccess :: "breaker \<Rightarrow> breaker" where
  "recordSuccess cb =
     (case cb_state cb of
        StateHalfOpen \<Rightarrow> cb\<lparr>cb_state := StateClosed, cb_failures := 0, cb_failureTimes := []\<rparr>
      | StateClosed \<Rightarrow> cb\<lparr>cb_failures := 0\<rparr>
      | StateOpen \<Rightarrow> cb)"

definition Reset :: "breaker \<Rightarrow> breaker" where
  "Reset cb = cb\<lparr>cb_state := StateClosed, cb_failures := 0, cb_failureTimes := []\<rparr>"

definition WindowedFailureCount :: "breaker \<Rightarrow> time \<Rightarrow> nat" where
  "WindowedFailureCount cb now = (if cb_window cb = 0 then 0 else length (in_window cb now))"

text \<open>
  \<open>Execute\<close>: the outcome of a call that was let through is its error (\<open>None\<close> for success); a
  rejected call answers \<open>ErrCircuitOpen\<close> and never runs. \<open>start\<close> and \<open>finish\<close> are the two clock
  readings.
\<close>

datatype 'e exec_result = Rejected | Ran "'e option"

definition Execute :: "breaker \<Rightarrow> 'e option \<Rightarrow> time \<Rightarrow> time \<Rightarrow> breaker \<times> 'e exec_result" where
  "Execute cb outcome start finish =
     (case allowRequest cb start of
        (cb, False) \<Rightarrow> (cb, Rejected)
      | (cb, True) \<Rightarrow>
          (case outcome of
             Some e \<Rightarrow> (recordFailure cb finish, Ran (Some e))
           | None \<Rightarrow> (recordSuccess cb, Ran None)))"

section \<open>The admission contract\<close>

text \<open>
  What a client that checks before it calls relies on: the read-only query says what the admission
  will answer, and a refused request leaves no trace.
\<close>

locale admission_gate =
  fixes admit :: "'s \<Rightarrow> time \<Rightarrow> 's \<times> bool"
    and may :: "'s \<Rightarrow> time \<Rightarrow> bool"
  assumes query_agrees: "may s t = snd (admit s t)"
    and refusal_is_silent: "\<not> snd (admit s t) \<Longrightarrow> fst (admit s t) = s"
begin

lemma refused_run:
  assumes "\<And>t. t \<in> set ts \<Longrightarrow> \<not> may s t"
  shows "foldl (\<lambda>s t. fst (admit s t)) s ts = s"
  using assms
proof (induction ts)
  case (Cons t ts)
  then have "fst (admit s t) = s" using refusal_is_silent query_agrees by simp
  with Cons show ?case by simp
qed simp

end

interpretation gate: admission_gate allowRequest CanExecute
  by unfold_locales (auto simp: allowRequest_def CanExecute_def split: breaker_state.splits if_splits)

section \<open>Lemmas\<close>

lemma recordFailure_open: "cb_state cb = StateOpen \<Longrightarrow> cb_state (recordFailure cb now) = StateOpen"
  by (simp add: recordFailure_def Let_def)

lemma recordFailure_frame [simp]:
  "cb_window (recordFailure cb now) = cb_window cb"
  "cb_threshold (recordFailure cb now) = cb_threshold cb"
  "cb_resetTimeout (recordFailure cb now) = cb_resetTimeout cb"
  "cb_lastFailure (recordFailure cb now) = now"
  "cb_failures (recordFailure cb now) = cb_failures cb + 1"
  by (simp_all add: recordFailure_def Let_def)

lemma recordSuccess_frame [simp]:
  "cb_window (recordSuccess cb) = cb_window cb"
  "cb_threshold (recordSuccess cb) = cb_threshold cb"
  "cb_resetTimeout (recordSuccess cb) = cb_resetTimeout cb"
  by (simp_all add: recordSuccess_def split: breaker_state.splits)

lemma classic_state:
  "\<not> 0 < cb_window cb \<Longrightarrow>
   cb_state (recordFailure cb now) =
     (if cb_state cb = StateHalfOpen \<or> cb_threshold cb \<le> cb_failures cb + 1 then StateOpen else cb_state cb)"
  by (simp add: recordFailure_def Let_def)

section \<open>Properties\<close>

text \<open>
  While a breaker is open and its reset timeout has not passed since the last failure, every
  request is rejected without running and without any change of state; the first request after
  the timeout is let through as a probe, whose failure opens the breaker again at once and whose
  success closes it with a clean count.
\<close>

theorem open_breaker_behaviour:
  assumes "cb_state cb = StateOpen"
  shows "(time_sub start (cb_lastFailure cb) \<le> cb_resetTimeout cb \<longrightarrow>
            Execute cb outcome start finish = (cb, Rejected) \<and> \<not> CanExecute cb start) \<and>
    (cb_resetTimeout cb < time_sub start (cb_lastFailure cb) \<longrightarrow>
       CanExecute cb start \<and>
       (case Execute cb outcome start finish of (cb', res) \<Rightarrow>
          res = Ran outcome \<and>
          (outcome \<noteq> None \<longrightarrow> cb_state cb' = StateOpen \<and> cb_lastFailure cb' = finish) \<and>
          (outcome = None \<longrightarrow> cb_state cb' = StateClosed \<and> cb_failures cb' = 0 \<and> cb_failureTimes cb' = [])))"
  using assms
  by (cases outcome)
     (auto simp: Execute_def allowRequest_def CanExecute_def recordSuccess_def recordFailure_def Let_def)

theorem open_breaker_behaviour_witness:
  "Execute (recordFailure (NewCircuitBreaker 1 30) 100) (None :: nat option) 110 111 =
     (recordFailure (NewCircuitBreaker 1 30) 100, Rejected)"
  using open_breaker_behaviour [of "recordFailure (NewCircuitBreaker 1 30) 100" 110 "None :: nat option" 111]
  by (simp add: NewCircuitBreaker_def recordFailure_def time_sub_def max_int64_def min_int64_def)

text \<open>One call after another on the same breaker, with the clock readings of each.\<close>

fun run_calls :: "breaker \<Rightarrow> ('e option \<times> time \<times> time) list \<Rightarrow> breaker" where
  "run_calls cb [] = cb"
| "run_calls cb ((outcome, start, finish) # calls) = run_calls (fst (Execute cb outcome start finish)) calls"

definition trailing_failures :: "('e option \<times> time \<times> time) list \<Rightarrow> nat" where
  "trailing_failures calls = length (takeWhile (\<lambda>(outcome, _, _). outcome \<noteq> None) (rev calls))"

lemma run_calls_snoc:
  "run_calls cb (calls @ [(outcome, start, finish)]) = fst (Execute (run_calls cb calls) outcome start finish)"
  by (induction cb calls rule: run_calls.induct) auto

lemma trailing_snoc:
  "trailing_failures (calls @ [(outcome, start, finish)]) =
     (if outcome = None then 0 else Suc (trailing_failures calls))"
  by (simp add: trailing_failures_def)

text \<open>The length of the longest run of failures seen so far stays below the threshold.\<close>

fun below_threshold :: "int \<Rightarrow> ('e option \<times> time \<times> time) list \<Rightarrow> bool" where
  "below_threshold n calls =
     list_all (\<lambda>k. int (trailing_failures (take k calls)) < n) [0..<Suc (length calls)]"

lemma below_threshold_snoc:
  "below_threshold n (calls @ [c]) \<longleftrightarrow> below_threshold n calls \<and> int (trailing_failures (calls @ [c])) < n"
  by (auto simp: list_all_iff less_Suc_eq)

lemma classic_run:
  assumes "0 < n"
  shows "if below_threshold n calls
         then cb_state (run_calls (NewCircuitBreaker n r) calls) = StateClosed \<and>
              cb_failures (run_calls (NewCircuitBreaker n r) calls) = int (trailing_failures calls) \<and>
              cb_window (run_calls (NewCircuitBreaker n r) calls) = 0 \<and>
              cb_threshold (run_calls (NewCircuitBreaker n r) calls) = n
         else True"
proof (induction calls rule: rev_induct)
  case Nil
  show ?case by (simp add: NewCircuitBreaker_def trailing_failures_def)
next
  case (snoc c calls)
  obtain outcome start finish where c: "c = (outcome, start, finish)" by (metis prod_cases3)
  show ?case
    using snoc
    by (cases outcome)
       (auto simp: c run_calls_snoc below_threshold_snoc trailing_snoc Execute_def allowRequest_def
         recordSuccess_def classic_state simp del: below_threshold.simps)
qed

text \<open>
  A classic breaker used by one call after another stays closed, and runs every call, exactly
  as long as no run of consecutive failures has reached the threshold; the failure that completes
  such a run opens it.
\<close>

theorem classic_breaker_trips_exactly:
  assumes "0 < n" and "below_threshold n calls"
  shows "cb_state (run_calls (NewCircuitBreaker n r) calls) = StateClosed \<and>
    (cb_state (run_calls (NewCircuitBreaker n r) (calls @ [(outcome, start, finish)])) = StateOpen \<longleftrightarrow>
       n \<le> int (trailing_failures (calls @ [(outcome, start, finish)])))"
proof -
  have "if below_threshold n calls
         then cb_state (run_calls (NewCircuitBreaker n r) calls) = StateClosed \<and>
              cb_failures (run_calls (NewCircuitBreaker n r) calls) = int (trailing_failures calls) \<and>
              cb_window (run_calls (NewCircuitBreaker n r) calls) = 0 \<and>
              cb_threshold (run_calls (NewCircuitBreaker n r) calls) = n
         else True"
    by (rule classic_run [OF assms(1)])
  with assms show ?thesis
    by (cases outcome)
       (auto simp: run_calls_snoc trailing_snoc Execute_def allowRequest_def recordSuccess_def classic_state
         simp del: below_threshold.simps)
qed

theorem classic_breaker_trips_exactly_witness:
  "cb_state (run_calls (NewCircuitBreaker 2 30) [(Some (1::nat), 5, 6), (Some 1, 7, 8)]) = StateOpen"
  using classic_breaker_trips_exactly [of 2 "[(Some (1::nat), 5, 6)]" 30 "Some 1" 7 8]
  by (simp add: trailing_failures_def)

section \<open>The windowed mode against its meaning\<close>

text \<open>
  What callers do to a breaker: they ask for admission at a time, they record the outcome of a call, at any moment and
  in any order, and they reset it.
\<close>

datatype breaker_event = Asked time | Failed time | Succeeded | ForcedReset

fun breaker_step :: "breaker \<Rightarrow> breaker_event \<Rightarrow> breaker" where
  "breaker_step cb (Asked t) = fst (allowRequest cb t)"
| "breaker_step cb (Failed t) = recordFailure cb t"
| "breaker_step cb Succeeded = recordSuccess cb"
| "breaker_step cb ForcedReset = Reset cb"

text \<open>
  The meaning: a breaker that forgets nothing. Its state, every failure since it was last closed, and its last
  failure. It opens at a failure that completes a full window or that ends a probe, a request after the timeout
  begins a probe, a successful probe or a reset closes it.
\<close>

type_synonym breaker_history = "breaker_state \<times> time list \<times> time"

fun spec_step :: "int \<Rightarrow> duration \<Rightarrow> duration \<Rightarrow> breaker_history \<Rightarrow> breaker_event \<Rightarrow> breaker_history" where
  "spec_step n w r (st, ts, lastFailure) (Asked t) =
     (if st = StateOpen \<and> r < time_sub t lastFailure then StateHalfOpen else st, ts, lastFailure)"
| "spec_step n w r (st, ts, lastFailure) (Failed t) =
     (if st = StateHalfOpen \<or> n \<le> int (length (filter (\<lambda>u. t - w < u) (ts @ [t]))) then StateOpen else st, ts @ [t], t)"
| "spec_step n w r (st, ts, lastFailure) Succeeded =
     (if st = StateHalfOpen then (StateClosed, [], lastFailure) else (st, ts, lastFailure))"
| "spec_step n w r (st, ts, lastFailure) ForcedReset = (StateClosed, [], lastFailure)"

definition failure_times :: "breaker_event list \<Rightarrow> time list" where
  "failure_times evs = concat (map (\<lambda>ev. case ev of Failed t \<Rightarrow> [t] | _ \<Rightarrow> []) evs)"

text \<open>
  The two agree: the breaker keeps of the failures since it was last closed those that a later window can still hold.
  Expired ones never come back, because the clock does not run backwards.
\<close>

definition remembers :: "int \<Rightarrow> duration \<Rightarrow> duration \<Rightarrow> breaker \<Rightarrow> breaker_history \<Rightarrow> time \<Rightarrow> bool" where
  "remembers n w r cb h latest \<longleftrightarrow>
     (case h of (st, ts, lastFailure) \<Rightarrow>
        cb_window cb = w \<and> cb_threshold cb = n \<and> cb_resetTimeout cb = r \<and> cb_state cb = st \<and> cb_lastFailure cb = lastFailure \<and>
        (\<forall>t \<ge> latest. filter (\<lambda>u. t - w < u) (cb_failureTimes cb) = filter (\<lambda>u. t - w < u) ts))"

lemma remembers_later: "remembers n w r cb h t \<Longrightarrow> t \<le> t' \<Longrightarrow> remembers n w r cb h t'"
  by (auto simp: remembers_def)

lemma remembers_step:
  assumes "remembers n w r cb h latest" "0 < w" "\<And>t. ev = Failed t \<Longrightarrow> latest \<le> t"
  shows "remembers n w r (breaker_step cb ev) (spec_step n w r h ev) (case ev of Failed t \<Rightarrow> t | _ \<Rightarrow> latest)"
proof -
  obtain st ts lf where h: "h = (st, ts, lf)" by (metis prod_cases3)
  show ?thesis
  proof (cases ev)
    case (Failed t)
    then have later: "filter (\<lambda>u. t' - w < u) (cb_failureTimes cb) = filter (\<lambda>u. t' - w < u) ts" if "t \<le> t'" for t'
      using assms(1,3) that by (auto simp: remembers_def h)
    have "filter (\<lambda>u. t' - w < u) (filter (\<lambda>u. t - w < u) (cb_failureTimes cb)) = filter (\<lambda>u. t' - w < u) ts" if "t \<le> t'" for t'
      unfolding later [OF that, symmetric] filter_filter by (rule filter_cong) (use that in auto)
    moreover have "in_window (cb\<lparr>cb_failures := k, cb_lastFailure := t\<rparr>) t = filter (\<lambda>u. t - w < u) ts" for k
      using assms(1) later [of t] by (simp add: in_window_def remembers_def h)
    ultimately show ?thesis
      using assms(1,2) later [of t] by (auto simp: Failed remembers_def h recordFailure_def Let_def)
  qed (use assms in \<open>auto simp: remembers_def h allowRequest_def recordSuccess_def Reset_def split: breaker_state.splits\<close>)
qed

lemma failure_times_Cons: "failure_times (ev # evs) = (case ev of Failed t \<Rightarrow> [t] | _ \<Rightarrow> []) @ failure_times evs"
  by (simp add: failure_times_def)

lemma remembers_run:
  "remembers n w r cb h latest \<Longrightarrow> 0 < w \<Longrightarrow> sorted (failure_times evs) \<Longrightarrow> list_all ((\<le>) latest) (failure_times evs) \<Longrightarrow>
   \<exists>latest'. remembers n w r (foldl breaker_step cb evs) (foldl (spec_step n w r) h evs) latest'"
proof (induction evs arbitrary: cb h latest)
  case (Cons ev evs)
  have "remembers n w r (breaker_step cb ev) (spec_step n w r h ev) (case ev of Failed t \<Rightarrow> t | _ \<Rightarrow> latest)"
    using Cons.prems by (intro remembers_step) (auto simp: failure_times_Cons)
  moreover have "sorted (failure_times evs)" "list_all ((\<le>) (case ev of Failed t \<Rightarrow> t | _ \<Rightarrow> latest)) (failure_times evs)"
    using Cons.prems by (auto simp: failure_times_Cons list_all_iff split: breaker_event.splits)
  ultimately show ?case
    using Cons.IH Cons.prems(2) by simp
qed auto

text \<open>
  C38: whatever is done to a windowed breaker (requests for admission, recorded outcomes in any order, forced
  resets), with failures recorded in the order of their times, its state is the one the full history demands: it
  opens exactly at a failure that completes the threshold of failures within the window ending there, counted since it
  was last closed, or that ends a probe; it stays open until the reset timeout has passed and then admits a probe, and
  it closes on a success of the probe or a reset. A request is admitted exactly when that state is not open.
\<close>

theorem windowed_breaker_trips_exactly:
  assumes "0 < w" "sorted (failure_times evs)"
    and "cb = foldl breaker_step (NewWindowedCircuitBreaker n w r) evs"
    and "h = foldl (spec_step n w r) (StateClosed, [], zero_time) evs"
  shows "cb_state cb = fst h \<and> snd (allowRequest cb now) = (fst (spec_step n w r h (Asked now)) \<noteq> StateOpen)"
proof -
  define first where "first = (case failure_times evs of [] \<Rightarrow> 0 | t # _ \<Rightarrow> t)"
  have "remembers n w r (NewWindowedCircuitBreaker n w r) (StateClosed, [], zero_time) first"
    by (simp add: remembers_def NewWindowedCircuitBreaker_def)
  moreover have "list_all ((\<le>) first) (failure_times evs)"
    using assms(2) by (auto simp: first_def list_all_iff split: list.splits)
  ultimately obtain latest where "remembers n w r cb h latest"
    using remembers_run assms by blast
  then show ?thesis
    by (cases h) (auto simp: remembers_def allowRequest_def split: breaker_state.splits)
qed

theorem windowed_breaker_trips_exactly_witness:
  "let cb = foldl breaker_step (NewWindowedCircuitBreaker 2 10 30) [Failed 5, Succeeded, Failed 9]
   in cb_state cb = StateOpen \<and> \<not> snd (allowRequest cb 20) \<and> snd (allowRequest cb 50) \<and>
      cb_state (foldl breaker_step cb [Asked 50, Succeeded, Failed 51]) = StateClosed"
proof -
  let ?cb = "\<lambda>evs. foldl breaker_step (NewWindowedCircuitBreaker 2 10 30) evs"
  let ?h = "\<lambda>evs. foldl (spec_step 2 10 30) (StateClosed, [], zero_time) evs"
  have h: "?h [Failed 5, Succeeded, Failed 9] = (StateOpen, [5, 9], 9)"
    "?h [Failed 5, Succeeded, Failed 9, Asked 50, Succeeded, Failed 51] = (StateClosed, [51], 51)"
    by (simp_all add: time_sub_def max_int64_def min_int64_def)
  note t = windowed_breaker_trips_exactly [of 10 "[Failed 5, Succeeded, Failed 9]" _ 2 30]
    windowed_breaker_trips_exactly [of 10 "[Failed 5, Succeeded, Failed 9, Asked 50, Succeeded, Failed 51]" _ 2 30]
  have "cb_state (?cb [Failed 5, Succeeded, Failed 9]) = StateOpen" "\<not> snd (allowRequest (?cb [Failed 5, Succeeded, Failed 9]) 20)"
    "snd (allowRequest (?cb [Failed 5, Succeeded, Failed 9]) 50)"
    "cb_state (?cb [Failed 5, Succeeded, Failed 9, Asked 50, Succeeded, Failed 51]) = StateClosed"
    using t(1) [OF _ _ refl refl, unfolded h(1), of 20] t(1) [OF _ _ refl refl, unfolded h(1), of 50]
      t(2) [OF _ _ refl refl, unfolded h(2), of 0]
    by (simp_all add: failure_times_def time_sub_def max_int64_def min_int64_def del: foldl.simps)
  then show ?thesis
    by simp
qed

end
