(* ===== verification/LRUCache.thy ===== *)
theory LRUCache
  imports Prelude
begin

text \<open>
  \<open>internal/cache/lru.go\<close>: the generic LRU cache with a time to live. The state has the map of
  entries and the eviction list separately, as in the code (front of the list is the most recently
  used key); \<open>lru_removed\<close> is the sequence of calls of the removal callback. Where the code ranges
  over a Go map the model uses the order of the association list, one of the orders the language
  allows; the lemmas do not depend on it.

  The cache is refined by a plain list of entries in order of recency (\<open>spec_set\<close>, \<open>spec_get\<close>, ...),
  and the locale \<open>cache_operation\<close> states what every operation promises to the caches built on top:
  the representation invariant and a complete record of removals.
\<close>

section \<open>State\<close>

record ('k, 'v) lru =
  lru_capacity :: nat
  lru_ttl :: duration
  lru_entries :: "('k \<times> 'v \<times> time) list"
  lru_evict :: "'k list"
  lru_lastCleanup :: time
  lru_onRemove :: bool
  lru_removed :: "('k \<times> 'v) list"

definition NewLRUCache :: "int \<Rightarrow> duration \<Rightarrow> time \<Rightarrow> ('k, 'v) lru" where
  "NewLRUCache capacity ttl now =
     \<lparr>lru_capacity = (if capacity < 1 then 1 else nat capacity), lru_ttl = ttl, lru_entries = [],
      lru_evict = [], lru_lastCleanup = now, lru_onRemove = False, lru_removed = []\<rparr>"

definition cleanupInterval :: duration where
  "cleanupInterval = 5 * minute"

section \<open>Operations\<close>

definition removeEntry :: "('k, 'v) lru \<Rightarrow> 'k \<times> 'v \<times> time \<Rightarrow> ('k, 'v) lru" where
  "removeEntry c e =
     c\<lparr>lru_evict := remove1 (fst e) (lru_evict c), lru_entries := AList.delete (fst e) (lru_entries c),
       lru_removed := lru_removed c @ (if lru_onRemove c then [(fst e, fst (snd e))] else [])\<rparr>"

definition remove_all :: "('k, 'v) lru \<Rightarrow> ('k \<times> 'v \<times> time) list \<Rightarrow> ('k, 'v) lru" where
  "remove_all c es = foldl removeEntry c es"

definition expired :: "time \<Rightarrow> 'k \<times> 'v \<times> time \<Rightarrow> bool" where
  "expired now e \<longleftrightarrow> snd (snd e) < now"

definition maybeCleanup :: "('k, 'v) lru \<Rightarrow> time \<Rightarrow> ('k, 'v) lru" where
  "maybeCleanup c now =
     (if time_sub now (lru_lastCleanup c) < cleanupInterval then c
      else remove_all (c\<lparr>lru_lastCleanup := now\<rparr>) (filter (expired now) (lru_entries c)))"

definition SetOnRemove :: "('k, 'v) lru \<Rightarrow> bool \<Rightarrow> ('k, 'v) lru" where
  "SetOnRemove c present = c\<lparr>lru_onRemove := present\<rparr>"

definition move_to_front :: "'k \<Rightarrow> 'k list \<Rightarrow> 'k list" where
  "move_to_front k xs = (if k \<in> set xs then k # remove1 k xs else xs)"

definition lru_Get :: "('k, 'v) lru \<Rightarrow> 'k \<Rightarrow> time \<Rightarrow> ('k, 'v) lru \<times> 'v option" where
  "lru_Get c key now =
     (case map_of (lru_entries c) key of
        None \<Rightarrow> (c, None)
      | Some (v, expiry) \<Rightarrow>
          if expired now (key, v, expiry) then (removeEntry c (key, v, expiry), None)
          else (c\<lparr>lru_evict := move_to_front key (lru_evict c)\<rparr>, Some v))"

definition evictOldest :: "('k, 'v) lru \<Rightarrow> ('k, 'v) lru" where
  "evictOldest c =
     (if lru_evict c = [] then c
      else let k = last (lru_evict c)
           in case map_of (lru_entries c) k of
                Some e \<Rightarrow> removeEntry c (k, e)
              | None \<Rightarrow> c\<lparr>lru_evict := butlast (lru_evict c)\<rparr>)"

text \<open>
  \<open>for c.evictList.Len() > c.capacity\<close>: the loop runs at most once per element of the list. (A list
  element without a map entry does not occur; it would only leave the list.)
\<close>

primrec evict_loop :: "nat \<Rightarrow> ('k, 'v) lru \<Rightarrow> ('k, 'v) lru" where
  "evict_loop 0 c = c"
| "evict_loop (Suc n) c = (if lru_capacity c < length (lru_evict c) then evict_loop n (evictOldest c) else c)"

definition lru_Set :: "('k, 'v) lru \<Rightarrow> 'k \<Rightarrow> 'v \<Rightarrow> time \<Rightarrow> time \<Rightarrow> ('k, 'v) lru" where
  "lru_Set c key v now now' =
     (case map_of (lru_entries c) key of
        Some _ \<Rightarrow>
          c\<lparr>lru_entries := AList.update key (v, now + lru_ttl c) (lru_entries c),
            lru_evict := move_to_front key (lru_evict c)\<rparr>
      | None \<Rightarrow>
          let c1 = c\<lparr>lru_entries := AList.update key (v, now + lru_ttl c) (lru_entries c),
                     lru_evict := key # lru_evict c\<rparr>
          in maybeCleanup (evict_loop (length (lru_evict c1)) c1) now')"

definition lru_Delete :: "('k, 'v) lru \<Rightarrow> 'k \<Rightarrow> ('k, 'v) lru" where
  "lru_Delete c key =
     (case map_of (lru_entries c) key of None \<Rightarrow> c | Some e \<Rightarrow> removeEntry c (key, e))"

definition lru_Remove :: "('k, 'v) lru \<Rightarrow> ('k \<Rightarrow> 'v \<Rightarrow> bool) \<Rightarrow> ('k, 'v) lru" where
  "lru_Remove c P = remove_all c (filter (\<lambda>e. P (fst e) (fst (snd e))) (lru_entries c))"

definition lru_Clear :: "('k, 'v) lru \<Rightarrow> ('k, 'v) lru" where
  "lru_Clear c =
     c\<lparr>lru_removed := lru_removed c @
         (if lru_onRemove c then map (\<lambda>e. (fst e, fst (snd e))) (lru_entries c) else []),
       lru_entries := [], lru_evict := []\<rparr>"

definition lru_Len :: "('k, 'v) lru \<Rightarrow> nat" where
  "lru_Len c = length (lru_entries c)"

definition lru_Cleanup :: "('k, 'v) lru \<Rightarrow> time \<Rightarrow> ('k, 'v) lru \<times> nat" where
  "lru_Cleanup c now =
     (let es = filter (expired now) (lru_entries c) in (remove_all c es, length es))"

definition lru_Keys :: "('k, 'v) lru \<Rightarrow> time \<Rightarrow> 'k list" where
  "lru_Keys c now = map fst (filter (\<lambda>e. \<not> expired now e) (lru_entries c))"

section \<open>Representation\<close>

definition lru_rep :: "('k, 'v) lru \<Rightarrow> bool" where
  "lru_rep c \<longleftrightarrow>
     distinct (map fst (lru_entries c)) \<and> distinct (lru_evict c) \<and>
     set (lru_evict c) = fst ` set (lru_entries c)"

definition lru_inv :: "('k, 'v) lru \<Rightarrow> bool" where
  "lru_inv c \<longleftrightarrow> lru_rep c \<and> 0 < lru_capacity c \<and> length (lru_evict c) \<le> lru_capacity c"

text \<open>The abstract cache: entries in order of recency.\<close>

definition lru_abs :: "('k, 'v) lru \<Rightarrow> ('k \<times> 'v \<times> time) list" where
  "lru_abs c = map (\<lambda>k. (k, the (map_of (lru_entries c) k))) (lru_evict c)"

definition spec_get :: "('k \<times> 'v \<times> time) list \<Rightarrow> 'k \<Rightarrow> time \<Rightarrow> ('k \<times> 'v \<times> time) list \<times> 'v option" where
  "spec_get xs k now =
     (case map_of xs k of
        None \<Rightarrow> (xs, None)
      | Some e \<Rightarrow>
          if expired now (k, e) then (filter (\<lambda>x. fst x \<noteq> k) xs, None)
          else ((k, e) # filter (\<lambda>x. fst x \<noteq> k) xs, Some (fst e)))"

definition spec_set ::
    "nat \<Rightarrow> ('k \<times> 'v \<times> time) list \<Rightarrow> 'k \<times> 'v \<times> time \<Rightarrow> ('k \<times> 'v \<times> time) list" where
  "spec_set cap xs e = take cap (e # filter (\<lambda>x. fst x \<noteq> fst e) xs)"

section \<open>Lemmas on removal\<close>

lemma rep_mem: "lru_rep c \<Longrightarrow> k \<in> set (lru_evict c) \<longleftrightarrow> map_of (lru_entries c) k \<noteq> None"
  by (simp add: lru_rep_def map_of_eq_None_iff)

lemma entry_mem: "lru_rep c \<Longrightarrow> e \<in> set (lru_entries c) \<longleftrightarrow> map_of (lru_entries c) (fst e) = Some (snd e)"
  by (cases e) (simp add: lru_rep_def)

lemma delete_filter: "AList.delete k xs = filter (\<lambda>e. fst e \<noteq> k) xs"
  by (auto simp: AList.delete_eq split_def intro: filter_cong)

lemma removeEntry_frame [simp]:
  "lru_capacity (removeEntry c e) = lru_capacity c" "lru_ttl (removeEntry c e) = lru_ttl c"
  "lru_lastCleanup (removeEntry c e) = lru_lastCleanup c" "lru_onRemove (removeEntry c e) = lru_onRemove c"
  by (simp_all add: removeEntry_def)

lemma removeEntry_filter:
  "distinct (lru_evict c) \<Longrightarrow> lru_evict (removeEntry c e) = filter (\<lambda>k. k \<noteq> fst e) (lru_evict c)"
  "lru_entries (removeEntry c e) = filter (\<lambda>x. fst x \<noteq> fst e) (lru_entries c)"
  by (simp_all add: removeEntry_def distinct_remove1_removeAll removeAll_filter_not_eq delete_filter)
     (metis (mono_tags, lifting) filter_cong)

lemma remove_all_frame [simp]:
  "lru_capacity (remove_all c es) = lru_capacity c" "lru_ttl (remove_all c es) = lru_ttl c"
  "lru_lastCleanup (remove_all c es) = lru_lastCleanup c" "lru_onRemove (remove_all c es) = lru_onRemove c"
  by (induction es arbitrary: c) (simp_all add: remove_all_def)

lemma remove_all_filter:
  assumes "distinct (lru_evict c)"
  shows "lru_evict (remove_all c es) = filter (\<lambda>k. k \<notin> fst ` set es) (lru_evict c)"
    and "lru_entries (remove_all c es) = filter (\<lambda>x. fst x \<notin> fst ` set es) (lru_entries c)"
    and "lru_removed (remove_all c es) =
      lru_removed c @ (if lru_onRemove c then map (\<lambda>e. (fst e, fst (snd e))) es else [])"
  using assms
proof (induction es arbitrary: c)
  case (Cons e es)
  {
    case 1
    then have "lru_evict (remove_all (removeEntry c e) es) =
        filter (\<lambda>k. k \<notin> fst ` set es) (lru_evict (removeEntry c e))"
      by (intro Cons.IH(1)) (simp add: removeEntry_filter)
    with 1 show ?case by (auto simp: remove_all_def removeEntry_filter intro!: filter_cong)
  next
    case 2
    then have "lru_entries (remove_all (removeEntry c e) es) =
        filter (\<lambda>x. fst x \<notin> fst ` set es) (lru_entries (removeEntry c e))"
      by (intro Cons.IH(2)) (simp add: removeEntry_filter)
    with 2 show ?case by (auto simp: remove_all_def removeEntry_filter intro!: filter_cong)
  next
    case 3
    then have "lru_removed (remove_all (removeEntry c e) es) =
        lru_removed (removeEntry c e) @
          (if lru_onRemove (removeEntry c e) then map (\<lambda>e. (fst e, fst (snd e))) es else [])"
      by (intro Cons.IH(3)) (simp add: removeEntry_filter)
    then show ?case by (simp add: remove_all_def removeEntry_def)
  }
qed (simp_all add: remove_all_def)

text \<open>Removing a set of entries of the cache keeps the representation and filters the abstraction.\<close>

lemma remove_all_rep:
  assumes "lru_rep c"
  shows "lru_rep (remove_all c es)"
    and "lru_abs (remove_all c es) = filter (\<lambda>x. fst x \<notin> fst ` set es) (lru_abs c)"
proof -
  have d: "distinct (lru_evict c)" using assms by (simp add: lru_rep_def)
  show "lru_rep (remove_all c es)"
    using assms by (auto simp: lru_rep_def remove_all_filter [OF d] distinct_map_filter)
  have "map_of (filter (\<lambda>x. fst x \<notin> S) xs) k = (if k \<in> S then None else map_of xs k)"
    for S and xs :: "('a \<times> 'b \<times> time) list" and k
    by (induction xs) auto
  then show "lru_abs (remove_all c es) = filter (\<lambda>x. fst x \<notin> fst ` set es) (lru_abs c)"
    by (simp add: lru_abs_def remove_all_filter [OF d] filter_map o_def)
qed

lemma removeEntry_single: "removeEntry c e = remove_all c [e]"
  by (simp add: remove_all_def)

section \<open>Eviction\<close>

lemma abs_keys: "map fst (lru_abs c) = lru_evict c"
  by (simp add: lru_abs_def o_def)

lemma abs_keys_filter_last:
  "distinct (ks @ [k]) \<Longrightarrow>
   filter (\<lambda>x. fst x \<noteq> k) (map (\<lambda>k. (k, f k)) (ks @ [k])) = butlast (map (\<lambda>k. (k, f k)) (ks @ [k]))"
  by (auto intro!: filter_True)

lemma evictOldest_abs:
  assumes "lru_rep c" "lru_evict c \<noteq> []"
  shows "lru_rep (evictOldest c)" "lru_abs (evictOldest c) = butlast (lru_abs c)"
    "lru_capacity (evictOldest c) = lru_capacity c"
proof -
  obtain ks k where ks: "lru_evict c = ks @ [k]" using assms(2) by (cases "lru_evict c" rule: rev_cases) auto
  obtain e where e: "map_of (lru_entries c) k = Some e"
    using rep_mem [OF assms(1), of k] ks by auto
  have o: "evictOldest c = remove_all c [(k, e)]"
    using e by (simp add: evictOldest_def ks Let_def removeEntry_single)
  have "distinct (ks @ [k])" using assms(1) by (simp only: lru_rep_def ks)
  then have "filter (\<lambda>x. fst x \<noteq> k) (lru_abs c) = butlast (lru_abs c)"
    unfolding lru_abs_def ks by (rule abs_keys_filter_last)
  then show "lru_rep (evictOldest c)" "lru_abs (evictOldest c) = butlast (lru_abs c)"
    "lru_capacity (evictOldest c) = lru_capacity c"
    using o remove_all_rep [OF assms(1), of "[(k, e)]"] by simp_all
qed

lemma length_abs [simp]: "length (lru_abs c) = length (lru_evict c)"
  by (simp add: lru_abs_def)

lemma evict_loop_abs:
  fixes c :: "('k, 'v) lru"
  assumes "lru_rep c" "length (lru_evict c) \<le> n + lru_capacity c"
  shows "lru_rep (evict_loop n c)" "lru_abs (evict_loop n c) = take (lru_capacity c) (lru_abs c)"
    "lru_capacity (evict_loop n c) = lru_capacity c"
  using assms
proof (induction n arbitrary: c)
  case (Suc n)
  have step: "lru_rep (evictOldest c)" "lru_abs (evictOldest c) = butlast (lru_abs c)"
      "lru_capacity (evictOldest c) = lru_capacity c"
      "length (lru_evict (evictOldest c)) \<le> n + lru_capacity (evictOldest c)"
    if "lru_capacity c < length (lru_evict c)" "lru_rep c" "length (lru_evict c) \<le> Suc n + lru_capacity c"
    for c :: "('k, 'v) lru"
  proof -
    have ne: "lru_evict c \<noteq> []" using that(1) by auto
    note e = evictOldest_abs [OF that(2) ne]
    then show "lru_rep (evictOldest c)" "lru_abs (evictOldest c) = butlast (lru_abs c)"
      "lru_capacity (evictOldest c) = lru_capacity c" by simp_all
    have "length (lru_evict (evictOldest c)) = length (lru_evict c) - 1"
      using arg_cong [OF e(2), of length] by simp
    then show "length (lru_evict (evictOldest c)) \<le> n + lru_capacity (evictOldest c)" using that(3) e(3) by simp
  qed
  {
    case 1
    then show ?case
      using step [OF _ 1] Suc.IH(1) [of "evictOldest c"] by (cases "lru_capacity c < length (lru_evict c)") simp_all
  next
    case 2
    then show ?case
      using step [OF _ 2] Suc.IH(2) [of "evictOldest c"]
      by (cases "lru_capacity c < length (lru_evict c)") (simp_all add: take_butlast)
  next
    case 3
    then show ?case
      using step [OF _ 3] Suc.IH(3) [of "evictOldest c"] by (cases "lru_capacity c < length (lru_evict c)") simp_all
  }
qed simp_all

section \<open>Refinement\<close>

lemma map_of_abs: "lru_rep c \<Longrightarrow> map_of (lru_abs c) k = map_of (lru_entries c) k"
  using rep_mem [of c k]
  by (cases "map_of (lru_entries c) k") (auto simp: lru_abs_def map_of_map_restrict restrict_map_def)

lemma filter_abs:
  "lru_rep c \<Longrightarrow> filter (\<lambda>x. fst x \<noteq> k) (lru_abs c) = map (\<lambda>j. (j, the (map_of (lru_entries c) j))) (remove1 k (lru_evict c))"
  by (simp add: lru_abs_def filter_map o_def distinct_remove1_removeAll removeAll_filter_not_eq lru_rep_def)
     (metis (mono_tags, lifting) filter_cong)

lemma update_rep:
  assumes "lru_rep c" "k \<in> set (lru_evict c)"
  shows "lru_rep (c\<lparr>lru_entries := AList.update k e (lru_entries c), lru_evict := move_to_front k (lru_evict c)\<rparr>)"
    and "lru_abs (c\<lparr>lru_entries := AList.update k e (lru_entries c), lru_evict := move_to_front k (lru_evict c)\<rparr>) =
      (k, e) # filter (\<lambda>x. fst x \<noteq> k) (lru_abs c)"
proof -
  have k: "k \<in> fst ` set (lru_entries c)" using assms by (simp add: lru_rep_def)
  have d: "distinct (lru_evict c)" using assms by (simp add: lru_rep_def)
  show "lru_rep (c\<lparr>lru_entries := AList.update k e (lru_entries c), lru_evict := move_to_front k (lru_evict c)\<rparr>)"
    using assms k
    by (simp add: lru_rep_def move_to_front_def distinct_update dom_update [symmetric])
       (auto simp: dom_update)
  have "map (\<lambda>j. (j, the (map_of (AList.update k e (lru_entries c)) j))) (remove1 k (lru_evict c)) =
      map (\<lambda>j. (j, the (map_of (lru_entries c) j))) (remove1 k (lru_evict c))"
    using d by (intro map_cong) auto
  then show "lru_abs (c\<lparr>lru_entries := AList.update k e (lru_entries c), lru_evict := move_to_front k (lru_evict c)\<rparr>) =
      (k, e) # filter (\<lambda>x. fst x \<noteq> k) (lru_abs c)"
    using assms filter_abs [OF assms(1), of k] by (simp add: lru_abs_def move_to_front_def)
qed

lemma insert_rep:
  assumes "lru_rep c" "k \<notin> set (lru_evict c)"
  shows "lru_rep (c\<lparr>lru_entries := AList.update k e (lru_entries c), lru_evict := k # lru_evict c\<rparr>)"
    and "lru_abs (c\<lparr>lru_entries := AList.update k e (lru_entries c), lru_evict := k # lru_evict c\<rparr>) =
      (k, e) # lru_abs c"
proof -
  show "lru_rep (c\<lparr>lru_entries := AList.update k e (lru_entries c), lru_evict := k # lru_evict c\<rparr>)"
    using assms by (simp add: lru_rep_def distinct_update dom_update)
  show "lru_abs (c\<lparr>lru_entries := AList.update k e (lru_entries c), lru_evict := k # lru_evict c\<rparr>) =
      (k, e) # lru_abs c"
    using assms(2) by (auto simp: lru_abs_def)
qed

lemma abs_expired:
  assumes "lru_rep c"
  shows "filter (\<lambda>x. fst x \<notin> fst ` set (filter P (lru_entries c))) (lru_abs c) = filter (\<lambda>x. \<not> P x) (lru_abs c)"
proof -
  have "fst x \<in> fst ` set (filter P (lru_entries c)) \<longleftrightarrow> P x" if "x \<in> set (lru_abs c)" for x
  proof -
    have "(fst x, the (map_of (lru_entries c) (fst x))) = x" "fst x \<in> set (lru_evict c)"
      using that by (auto simp: lru_abs_def)
    moreover have "map_of (lru_entries c) (fst x) \<noteq> None"
      using rep_mem [OF assms] calculation(2) by blast
    ultimately have x: "x \<in> set (lru_entries c)"
      using map_of_SomeD by (metis option.exhaust_sel)
    have "y = x" if "y \<in> set (lru_entries c)" "fst y = fst x" for y
      using that x assms by (metis eq_key_imp_eq_value lru_rep_def prod.collapse)
    then show ?thesis using x by force
  qed
  then show ?thesis by (intro filter_cong) auto
qed

definition cleanup_due :: "('k, 'v) lru \<Rightarrow> time \<Rightarrow> bool" where
  "cleanup_due c now \<longleftrightarrow> \<not> time_sub now (lru_lastCleanup c) < cleanupInterval"

lemma rep_frame: "lru_rep (c\<lparr>lru_lastCleanup := t\<rparr>) = lru_rep c" "lru_abs (c\<lparr>lru_lastCleanup := t\<rparr>) = lru_abs c"
  by (simp_all add: lru_rep_def lru_abs_def)

lemma maybeCleanup_abs:
  assumes "lru_rep c"
  shows "lru_rep (maybeCleanup c now)"
    and "lru_abs (maybeCleanup c now) =
      (if cleanup_due c now then filter (\<lambda>x. \<not> expired now x) (lru_abs c) else lru_abs c)"
    and "lru_capacity (maybeCleanup c now) = lru_capacity c"
  using assms remove_all_rep [of "c\<lparr>lru_lastCleanup := now\<rparr>" "filter (expired now) (lru_entries c)"]
    abs_expired [of "c\<lparr>lru_lastCleanup := now\<rparr>" "expired now"]
  by (simp_all add: maybeCleanup_def cleanup_due_def rep_frame)

lemma evict_loop_frame: "lru_lastCleanup (evict_loop n c) = lru_lastCleanup c"
  by (induction n arbitrary: c) (auto simp: evictOldest_def Let_def split: option.splits)

lemma filter_absent_key: "k \<notin> set (lru_evict c) \<Longrightarrow> filter (\<lambda>x. fst x \<noteq> k) (lru_abs c) = lru_abs c"
  by (auto simp: lru_abs_def filter_id_conv)

lemma Set_refines:
  assumes "lru_inv c"
  shows "lru_rep (lru_Set c k v now now')" "lru_capacity (lru_Set c k v now now') = lru_capacity c"
    and "lru_abs (lru_Set c k v now now') =
      (let xs = spec_set (lru_capacity c) (lru_abs c) (k, v, now + lru_ttl c)
       in if k \<notin> set (lru_evict c) \<and> cleanup_due c now' then filter (\<lambda>x. \<not> expired now' x) xs else xs)"
proof -
  have rep: "lru_rep c" using assms by (simp add: lru_inv_def)
  let ?e = "(v, now + lru_ttl c)"
  have "lru_rep (lru_Set c k v now now') \<and> lru_capacity (lru_Set c k v now now') = lru_capacity c \<and>
    lru_abs (lru_Set c k v now now') =
      (let xs = spec_set (lru_capacity c) (lru_abs c) (k, ?e)
       in if k \<notin> set (lru_evict c) \<and> cleanup_due c now' then filter (\<lambda>x. \<not> expired now' x) xs else xs)"
  proof (cases "k \<in> set (lru_evict c)")
    case True
    then have set: "lru_Set c k v now now' =
        c\<lparr>lru_entries := AList.update k ?e (lru_entries c), lru_evict := move_to_front k (lru_evict c)\<rparr>"
      using rep_mem [OF rep, of k] by (auto simp: lru_Set_def)
    have "length ((k, ?e) # filter (\<lambda>x. fst x \<noteq> k) (lru_abs c)) = length (lru_evict c)"
      using arg_cong [OF update_rep(2) [OF rep True, of ?e], of length] True
      by (simp add: move_to_front_def length_remove1) (metis Suc_pred length_pos_if_in_set)
    then show ?thesis
      using True assms update_rep [OF rep True, of ?e] unfolding set
      by (simp add: spec_set_def lru_inv_def)
  next
    case False
    let ?c1 = "c\<lparr>lru_entries := AList.update k ?e (lru_entries c), lru_evict := k # lru_evict c\<rparr>"
    let ?c2 = "evict_loop (length (lru_evict ?c1)) ?c1"
    have none: "map_of (lru_entries c) k = None" using rep_mem [OF rep, of k] False by blast
    have set: "lru_Set c k v now now' = maybeCleanup ?c2 now'"
      by (simp only: lru_Set_def none option.case Let_def)
    note i = insert_rep [OF rep False, of ?e]
    note l = evict_loop_abs [OF i(1), of "length (lru_evict ?c1)"]
    have xs: "lru_abs ?c2 = spec_set (lru_capacity c) (lru_abs c) (k, ?e)"
      using l(2) i(2) False by (simp add: spec_set_def filter_absent_key)
    have due: "cleanup_due ?c2 now' = cleanup_due c now'"
      unfolding cleanup_due_def evict_loop_frame by simp
    show ?thesis
      unfolding set using maybeCleanup_abs [of ?c2 now'] l xs due False by (simp add: Let_def)
  qed
  then show "lru_rep (lru_Set c k v now now')" "lru_capacity (lru_Set c k v now now') = lru_capacity c"
    "lru_abs (lru_Set c k v now now') =
      (let xs = spec_set (lru_capacity c) (lru_abs c) (k, v, now + lru_ttl c)
       in if k \<notin> set (lru_evict c) \<and> cleanup_due c now' then filter (\<lambda>x. \<not> expired now' x) xs else xs)"
    by blast+
qed

lemma Get_refines:
  assumes "lru_inv c"
  shows "lru_rep (fst (lru_Get c k now))" "lru_capacity (fst (lru_Get c k now)) = lru_capacity c"
    and "(lru_abs (fst (lru_Get c k now)), snd (lru_Get c k now)) = spec_get (lru_abs c) k now"
proof -
  have rep: "lru_rep c" using assms by (simp add: lru_inv_def)
  have "lru_rep (fst (lru_Get c k now)) \<and> lru_capacity (fst (lru_Get c k now)) = lru_capacity c \<and>
      (lru_abs (fst (lru_Get c k now)), snd (lru_Get c k now)) = spec_get (lru_abs c) k now"
  proof (cases "map_of (lru_entries c) k")
    case None
    then show ?thesis using rep map_of_abs [OF rep, of k] by (simp add: lru_Get_def spec_get_def)
  next
    case (Some e)
    obtain v x where e: "e = (v, x)" by fastforce
    have k: "k \<in> set (lru_evict c)" using rep_mem [OF rep, of k] Some by simp
    have "AList.update k e (lru_entries c) = lru_entries c"
      using Some by (simp add: update_triv)
    then have front: "lru_rep (c\<lparr>lru_evict := move_to_front k (lru_evict c)\<rparr>)"
      "lru_abs (c\<lparr>lru_evict := move_to_front k (lru_evict c)\<rparr>) = (k, e) # filter (\<lambda>x. fst x \<noteq> k) (lru_abs c)"
      using update_rep [OF rep k, of e] by simp_all
    show ?thesis
      using Some e front remove_all_rep [OF rep, of "[(k, e)]"] map_of_abs [OF rep, of k]
      by (simp add: lru_Get_def spec_get_def removeEntry_single)
  qed
  then show "lru_rep (fst (lru_Get c k now))" "lru_capacity (fst (lru_Get c k now)) = lru_capacity c"
    "(lru_abs (fst (lru_Get c k now)), snd (lru_Get c k now)) = spec_get (lru_abs c) k now"
    by blast+
qed

section \<open>What every operation promises\<close>

text \<open>
  Nothing leaves the cache silently: with the callback installed, every key that was cached before
  and is not cached after is in the part of the removal record that was added.
\<close>

definition logged :: "('k, 'v) lru \<Rightarrow> ('k, 'v) lru \<Rightarrow> bool" where
  "logged c c' \<longleftrightarrow>
     lru_onRemove c' = lru_onRemove c \<and>
     (\<exists>rs. lru_removed c' = lru_removed c @ rs \<and>
           (lru_onRemove c \<longrightarrow> set (lru_evict c) - set (lru_evict c') \<subseteq> fst ` set rs))"

lemma logged_grow:
  "lru_onRemove c' = lru_onRemove c \<Longrightarrow> lru_removed c' = lru_removed c \<Longrightarrow>
   set (lru_evict c) \<subseteq> set (lru_evict c') \<Longrightarrow> logged c c'"
  by (auto simp: logged_def)

lemma logged_trans:
  assumes "logged c c1" "logged c1 c2" shows "logged c c2"
proof -
  obtain r s where "lru_removed c1 = lru_removed c @ r" "lru_removed c2 = lru_removed c1 @ s"
    "lru_onRemove c \<longrightarrow> set (lru_evict c) - set (lru_evict c1) \<subseteq> fst ` set r"
    "lru_onRemove c \<longrightarrow> set (lru_evict c1) - set (lru_evict c2) \<subseteq> fst ` set s"
    "lru_onRemove c1 = lru_onRemove c" "lru_onRemove c2 = lru_onRemove c"
    using assms by (auto simp: logged_def)
  then show ?thesis by (auto simp: logged_def intro!: exI [of _ "r @ s"])
qed

lemma remove1_only: "x \<in> set xs \<Longrightarrow> x \<notin> set (remove1 k xs) \<Longrightarrow> x = k"
  by (induction xs) (auto split: if_splits)

lemma logged_refl [simp]: "logged c c"
  by (simp add: logged_def)

lemma logged_removeEntry: "logged c (removeEntry c e)"
  by (auto simp: logged_def removeEntry_def dest: remove1_only)

lemma logged_front: "logged c (c\<lparr>lru_entries := es, lru_evict := move_to_front k (lru_evict c)\<rparr>)"
  by (auto simp: logged_def move_to_front_def dest: remove1_only)

lemma logged_remove_all: "logged c (remove_all c es)"
proof (induction es arbitrary: c)
  case (Cons e es)
  then show ?case
    using logged_trans [OF logged_removeEntry [of c e] Cons.IH [of "removeEntry c e"]]
    by (simp add: remove_all_def)
qed (simp add: remove_all_def logged_def)

lemma logged_evictOldest:
  assumes "lru_rep c" shows "logged c (evictOldest c)"
proof (cases "lru_evict c = []")
  case False
  then obtain e where "map_of (lru_entries c) (last (lru_evict c)) = Some e"
    using rep_mem [OF assms, of "last (lru_evict c)"] by auto
  then show ?thesis using False logged_removeEntry by (simp add: evictOldest_def Let_def)
qed (simp add: evictOldest_def logged_def)

lemma logged_evict_loop: "lru_rep c \<Longrightarrow> logged c (evict_loop n c)"
proof (induction n arbitrary: c)
  case (Suc n)
  show ?case
  proof (cases "lru_capacity c < length (lru_evict c)")
    case True
    then have "lru_evict c \<noteq> []" by auto
    then have "lru_rep (evictOldest c)" using evictOldest_abs(1) Suc.prems by blast
    with True show ?thesis
      using logged_trans [OF logged_evictOldest [OF Suc.prems] Suc.IH] by simp
  qed (simp add: logged_def)
qed (simp add: logged_def)

lemma logged_maybeCleanup: "logged c (maybeCleanup c now)"
proof -
  have "logged c (c\<lparr>lru_lastCleanup := now\<rparr>)" by (rule logged_grow) simp_all
  from logged_trans [OF this logged_remove_all] show ?thesis
    by (simp add: maybeCleanup_def logged_def)
qed

locale cache_operation =
  fixes op :: "('k, 'v) lru \<Rightarrow> ('k, 'v) lru"
  assumes keeps_inv: "lru_inv c \<Longrightarrow> lru_inv (op c)"
    and logs_removals: "lru_inv c \<Longrightarrow> logged c (op c)"
begin

lemma size_bounded: "lru_inv c \<Longrightarrow> length (lru_entries (op c)) = length (lru_evict (op c))"
proof -
  assume "lru_inv c"
  then have "lru_rep (op c)" using keeps_inv by (simp add: lru_inv_def)
  then show ?thesis
    by (metis distinct_card length_map list.set_map lru_rep_def)
qed

lemma no_silent_removal:
  assumes "lru_inv c" "lru_onRemove c" "k \<in> set (lru_evict c)" "k \<notin> set (lru_evict (op c))"
  shows "\<exists>v. (k, v) \<in> set (lru_removed (op c))"
  using logs_removals [OF assms(1)] assms(2-4) by (fastforce simp: logged_def)

end

lemma inv_of_abs:
  "lru_inv c \<Longrightarrow> lru_rep c' \<Longrightarrow> lru_capacity c' = lru_capacity c \<Longrightarrow> length (lru_abs c') \<le> lru_capacity c \<Longrightarrow>
   lru_inv c'"
  by (simp add: lru_inv_def)

lemma length_filter_inv: "lru_inv c \<Longrightarrow> length (filter P (lru_abs c)) \<le> lru_capacity c"
  using length_filter_le [of P "lru_abs c"] by (simp add: lru_inv_def)

lemma inv_remove_all: "lru_inv c \<Longrightarrow> lru_inv (remove_all c es)"
proof (rule inv_of_abs [of c])
  assume inv: "lru_inv c"
  then have rep: "lru_rep c" by (simp add: lru_inv_def)
  then show "lru_rep (remove_all c es)" by (rule remove_all_rep)
  show "length (lru_abs (remove_all c es)) \<le> lru_capacity c"
    unfolding remove_all_rep(2) [OF rep] by (rule length_filter_inv [OF inv])
qed simp_all

lemma inv_Set: "lru_inv c \<Longrightarrow> lru_inv (lru_Set c k v now now')"
proof (rule inv_of_abs [of c])
  assume inv: "lru_inv c"
  have "length (spec_set (lru_capacity c) (lru_abs c) e) \<le> lru_capacity c" for e
    by (simp add: spec_set_def)
  then show "length (lru_abs (lru_Set c k v now now')) \<le> lru_capacity c"
    unfolding Set_refines(3) [OF inv] Let_def by (auto intro: order_trans [OF length_filter_le])
qed (simp_all add: Set_refines)

lemma logged_Set: "lru_inv c \<Longrightarrow> logged c (lru_Set c k v now now')"
proof -
  assume inv: "lru_inv c"
  then have rep: "lru_rep c" by (simp add: lru_inv_def)
  let ?e = "(v, now + lru_ttl c)"
  let ?c1 = "c\<lparr>lru_entries := AList.update k ?e (lru_entries c), lru_evict := k # lru_evict c\<rparr>"
  show ?thesis
  proof (cases "map_of (lru_entries c) k")
    case None
    then have "k \<notin> set (lru_evict c)" using rep_mem [OF rep] by blast
    then have rep1: "lru_rep ?c1" by (rule insert_rep(1) [OF rep])
    have "logged c ?c1" by (rule logged_grow) auto
    from logged_trans [OF this logged_trans [OF logged_evict_loop [OF rep1] logged_maybeCleanup]]
    show ?thesis by (simp only: lru_Set_def None option.case Let_def)
  next
    case (Some x)
    then show ?thesis by (simp add: lru_Set_def logged_front)
  qed
qed

lemma inv_Get: "lru_inv c \<Longrightarrow> lru_inv (fst (lru_Get c k now))"
proof (rule inv_of_abs [of c])
  assume inv: "lru_inv c"
  have less: "length (filter (\<lambda>x. fst x \<noteq> k) (lru_abs c)) < length (lru_abs c)"
    if "map_of (lru_abs c) k = Some e" for e
    using map_of_SomeD [OF that] by (intro length_filter_less [of "(k, e)"]) simp_all
  have cap: "length (lru_abs c) \<le> lru_capacity c" using inv by (simp add: lru_inv_def)
  have "length (fst (spec_get (lru_abs c) k now)) \<le> lru_capacity c"
    using less cap by (cases "map_of (lru_abs c) k") (auto simp: spec_get_def simp del: length_abs)
  then show "length (lru_abs (fst (lru_Get c k now))) \<le> lru_capacity c"
    unfolding Get_refines(3) [OF inv, of k now, symmetric] by simp
qed (simp_all add: Get_refines)

lemma logged_Get: "logged c (fst (lru_Get c k now))"
  using logged_front [where c = c and es = "lru_entries c" and k = k] by (simp add: lru_Get_def logged_removeEntry split: option.splits)

interpretation get: cache_operation "\<lambda>c. fst (lru_Get c k now)" for k now
  by unfold_locales (simp_all add: inv_Get logged_Get)

interpretation set: cache_operation "\<lambda>c. lru_Set c k v now now'" for k v now now'
  by unfold_locales (simp_all add: inv_Set logged_Set)

interpretation delete: cache_operation "\<lambda>c. lru_Delete c k" for k
  by unfold_locales
     (simp_all add: lru_Delete_def inv_remove_all removeEntry_single logged_remove_all split: option.splits)

interpretation remove: cache_operation "\<lambda>c. lru_Remove c P" for P
  by unfold_locales (simp_all add: lru_Remove_def inv_remove_all logged_remove_all)

interpretation cleanup: cache_operation "\<lambda>c. fst (lru_Cleanup c now)" for now
  by unfold_locales (simp_all add: lru_Cleanup_def Let_def inv_remove_all logged_remove_all)

interpretation clear: cache_operation lru_Clear
proof unfold_locales
  fix c :: "('k, 'v) lru"
  assume "lru_inv c"
  then show "lru_inv (lru_Clear c)" "logged c (lru_Clear c)"
    by (auto simp: lru_inv_def lru_rep_def lru_Clear_def logged_def image_image)
qed

section \<open>Runs\<close>

datatype ('k, 'v) lru_call =
    CallGet 'k time | CallSet 'k 'v time time | CallDelete 'k | CallRemove "'k \<Rightarrow> 'v \<Rightarrow> bool"
  | CallCleanup time | CallClear

fun lru_step :: "('k, 'v) lru \<Rightarrow> ('k, 'v) lru_call \<Rightarrow> ('k, 'v) lru" where
  "lru_step c (CallGet k now) = fst (lru_Get c k now)"
| "lru_step c (CallSet k v now now') = lru_Set c k v now now'"
| "lru_step c (CallDelete k) = lru_Delete c k"
| "lru_step c (CallRemove P) = lru_Remove c P"
| "lru_step c (CallCleanup now) = fst (lru_Cleanup c now)"
| "lru_step c CallClear = lru_Clear c"

fun set_keys :: "('k, 'v) lru_call list \<Rightarrow> 'k list" where
  "set_keys [] = []"
| "set_keys (CallSet k v now now' # calls) = k # set_keys calls"
| "set_keys (_ # calls) = set_keys calls"

interpretation step: cache_operation "\<lambda>c. lru_step c call" for call
  by unfold_locales
     (cases call; simp add: get.keeps_inv set.keeps_inv delete.keeps_inv remove.keeps_inv cleanup.keeps_inv
        clear.keeps_inv get.logs_removals set.logs_removals delete.logs_removals remove.logs_removals
        cleanup.logs_removals clear.logs_removals)+

lemma run_inv: "lru_inv c \<Longrightarrow> lru_inv (foldl lru_step c calls) \<and> logged c (foldl lru_step c calls)"
proof (induction calls arbitrary: c)
  case (Cons call calls)
  then have "lru_inv (lru_step c call)" "logged c (lru_step c call)"
    using step.keeps_inv step.logs_removals by blast+
  with Cons.IH show ?case using logged_trans by fastforce
qed simp

lemma Set_present:
  assumes "lru_inv c" "now' \<le> now + lru_ttl c"
  shows "map_of (lru_abs (lru_Set c k v now now')) k = Some (v, now + lru_ttl c)"
proof -
  let ?e = "(k, v, now + lru_ttl c)"
  obtain n where n: "lru_capacity c = Suc n" using assms(1) by (cases "lru_capacity c") (auto simp: lru_inv_def)
  have "spec_set (lru_capacity c) (lru_abs c) ?e = ?e # take n (filter (\<lambda>x. fst x \<noteq> k) (lru_abs c))"
    by (simp add: spec_set_def n)
  then show ?thesis
    unfolding Set_refines(3) [OF assms(1)] using assms(2) by (simp add: Let_def expired_def)
qed

text \<open>A key that was cached or reported stays cached or reported.\<close>

definition known :: "('k, 'v) lru \<Rightarrow> 'k set" where
  "known c = set (lru_evict c) \<union> fst ` set (lru_removed c)"

lemma logged_known: "logged c c' \<Longrightarrow> lru_onRemove c \<Longrightarrow> known c \<subseteq> known c'"
  by (auto simp: logged_def known_def image_Un)

lemma Set_known:
  assumes "lru_inv c" "lru_onRemove c" shows "k \<in> known (lru_Set c k v now now')"
proof (cases "map_of (lru_entries c) k")
  case None
  have rep: "lru_rep c" using assms by (simp add: lru_inv_def)
  let ?e = "(v, now + lru_ttl c)"
  let ?c1 = "c\<lparr>lru_entries := AList.update k ?e (lru_entries c), lru_evict := k # lru_evict c\<rparr>"
  have "k \<notin> set (lru_evict c)" using rep_mem [OF rep] None by blast
  then have rep1: "lru_rep ?c1" by (rule insert_rep(1) [OF rep])
  have "k \<in> known ?c1" "lru_onRemove ?c1" using assms(2) by (simp_all add: known_def)
  then show ?thesis
    using logged_known [OF logged_trans [OF logged_evict_loop [OF rep1] logged_maybeCleanup]]
    by (simp only: lru_Set_def None option.case Let_def) blast
next
  case (Some x)
  then have "k \<in> set (lru_evict c)" using rep_mem [of c k] assms(1) by (auto simp: lru_inv_def)
  with Some show ?thesis by (simp add: lru_Set_def known_def move_to_front_def)
qed

lemma run_known:
  "lru_inv c \<Longrightarrow> lru_onRemove c \<Longrightarrow> set (set_keys calls) \<subseteq> known (foldl lru_step c calls)"
proof (induction calls arbitrary: c)
  case (Cons call calls)
  let ?d = "lru_step c call"
  have d: "lru_inv ?d" "logged c ?d" using Cons.prems step.keeps_inv step.logs_removals by blast+
  then have on: "lru_onRemove ?d" using Cons.prems by (simp add: logged_def)
  have later: "known ?d \<subseteq> known (foldl lru_step ?d calls)"
    using run_inv [OF d(1)] logged_known on by blast
  have "set (set_keys calls) \<subseteq> known (foldl lru_step ?d calls)" by (rule Cons.IH [OF d(1) on])
  then show ?case
    using later Set_known [OF Cons.prems] by (cases call) auto
qed simp

text \<open>
  C31: the cache implements a recency list. On every well-formed cache, \<open>Get\<close> answers like a lookup
  in the list of entries ordered by recency, drops the entry if it has expired and otherwise moves
  it to the front; \<open>Set\<close> puts the entry in front, drops its old version, keeps the first
  \<open>capacity\<close> entries (so the least recently used one goes) and, when a new key comes in and the
  cleanup interval has passed, drops the expired entries. Both leave a well-formed cache: the map and the eviction
  list hold the same keys, none twice and at most \<open>capacity\<close> of them, so that nothing dropped stays in the map.
\<close>

theorem cache_refines_recency_list:
  assumes "lru_inv c"
  shows "lru_inv (fst (lru_Get c k now)) \<and> lru_inv (lru_Set c k v now now') \<and>
    (lru_abs (fst (lru_Get c k now)), snd (lru_Get c k now)) = spec_get (lru_abs c) k now \<and>
    lru_abs (lru_Set c k v now now') =
      (let xs = spec_set (lru_capacity c) (lru_abs c) (k, v, now + lru_ttl c)
       in if k \<notin> set (lru_evict c) \<and> cleanup_due c now' then filter (\<lambda>x. \<not> expired now' x) xs else xs)"
  using Get_refines(3) [OF assms] Set_refines(3) [OF assms] inv_Get [OF assms] inv_Set [OF assms] by blast

theorem cache_refines_recency_list_witness:
  "lru_abs (lru_Set (NewLRUCache 1 10 0 :: (nat, nat) lru) 7 8 5 5) = [(7, 8, 15)]"
  using cache_refines_recency_list [of "NewLRUCache 1 10 0 :: (nat, nat) lru" 7 5 8 5]
  by (simp add: NewLRUCache_def lru_inv_def lru_rep_def lru_abs_def spec_set_def cleanup_due_def cleanupInterval_def
      minute_def time_sub_def max_int64_def min_int64_def)

text \<open>
  After any sequence of calls on a new cache with the removal callback installed, the map and
  the eviction list hold the same keys, at most \<open>capacity\<close> of them, and no key has disappeared
  silently: every key ever set is still cached or was reported to the callback.
\<close>

theorem cache_never_forgets_silently:
  assumes "c = foldl lru_step (SetOnRemove (NewLRUCache cap ttl now0) True) calls"
  shows "distinct (lru_evict c) \<and> set (lru_evict c) = fst ` set (lru_entries c) \<and>
    lru_Len c \<le> lru_capacity c \<and>
    set (set_keys calls) \<subseteq> set (lru_evict c) \<union> fst ` set (lru_removed c)"
proof -
  let ?c0 = "SetOnRemove (NewLRUCache cap ttl now0) True"
  have inv0: "lru_inv ?c0" by (simp add: SetOnRemove_def NewLRUCache_def lru_inv_def lru_rep_def)
  have inv: "lru_inv c" unfolding assms by (rule conjunct1 [OF run_inv [OF inv0]])
  have "set (set_keys calls) \<subseteq> known c"
    unfolding assms by (rule run_known [OF inv0]) (simp add: SetOnRemove_def)
  moreover have "length (lru_entries c) = length (lru_evict c)"
    using inv by (metis distinct_card length_map list.set_map lru_inv_def lru_rep_def)
  ultimately show ?thesis
    using inv by (simp add: lru_inv_def lru_rep_def lru_Len_def known_def)
qed

theorem cache_never_forgets_silently_witness:
  "lru_Len (foldl lru_step (SetOnRemove (NewLRUCache 1 10 0) True) [CallSet (1::nat) (2::nat) 3 3, CallSet 4 5 6 6]) \<le> 1"
  using cache_never_forgets_silently [OF refl, of 1 10 0 "[CallSet (1::nat) (2::nat) 3 3, CallSet 4 5 6 6]"]
  by (simp add: lru_Set_def SetOnRemove_def NewLRUCache_def maybeCleanup_def evictOldest_def removeEntry_def Let_def
      cleanupInterval_def minute_def time_sub_def max_int64_def min_int64_def)

text \<open>
  What was set is found: within its time to live, a value stored with \<open>Set\<close> is returned by the
  next \<open>Get\<close> of its key.
\<close>

theorem set_then_get:
  assumes "lru_inv c" "now' \<le> now + lru_ttl c" "t \<le> now + lru_ttl c"
  shows "snd (lru_Get (lru_Set c k v now now') k t) = Some v"
  using Set_present [OF assms(1,2)] Get_refines(3) [OF inv_Set [OF assms(1)], of k v now now' k t] assms(3)
  by (auto simp: spec_get_def expired_def prod_eq_iff)

theorem set_then_get_witness:
  "snd (lru_Get (lru_Set (NewLRUCache 1 10 0 :: (nat, nat) lru) 7 8 5 5) 7 9) = Some 8"
  using set_then_get [of "NewLRUCache 1 10 0 :: (nat, nat) lru" 5 5 9 7 8]
  by (simp add: NewLRUCache_def lru_inv_def lru_rep_def)

end
