(* ===== verification/ThinkParser.thy ===== *)
theory ThinkParser
  imports GoStrings
begin

text \<open>
  \<open>internal/client/stream_think_parser.go\<close>: the parser that separates the reasoning a model embeds
  between think tags from its regular text while the text arrives in chunks that may cut a tag
  anywhere. The reference is \<open>think_spec\<close>, which reads the whole text at once; the main result is
  that the streaming parser gives the same two texts for every way of cutting the stream.
\<close>

section \<open>The parser\<close>

record think_parser =
  tp_inThinkBlock :: bool
  tp_tagBuffer :: string

definition new_think_parser :: think_parser where
  "new_think_parser = \<lparr>tp_inThinkBlock = False, tp_tagBuffer = []\<rparr>"

definition think_tag :: "bool \<Rightarrow> string" where
  "think_tag inThink = (if inThink then ''</think>'' else ''<think>'')"

text \<open>\<open>partialSuffix\<close>: the longest proper prefix of the tag that ends the text.\<close>

primrec partial_loop :: "'a list \<Rightarrow> 'a list \<Rightarrow> nat \<Rightarrow> nat" where
  "partial_loop str tag 0 = 0"
| "partial_loop str tag (Suc n) =
     (if has_suffix str (take (Suc n) tag) then Suc n else partial_loop str tag n)"

definition partialSuffix :: "'a list \<Rightarrow> 'a list \<Rightarrow> nat" where
  "partialSuffix str tag =
     (let maxCheck = length tag - 1
      in partial_loop str tag (if length str < maxCheck then length str else maxCheck))"

lemma tag_length [simp]: "0 < length (think_tag b)" "think_tag b \<noteq> []"
  by (simp_all add: think_tag_def)

text \<open>
  The loop over the unread text, with the two output builders: the state afterwards (in a block or
  not, buffered partial tag) and the builders.
\<close>

function process_loop :: "bool \<Rightarrow> string \<Rightarrow> string \<Rightarrow> string \<Rightarrow> (bool \<times> string) \<times> string \<times> string" where
  "process_loop inThink rest thinkBuf textBuf =
     (if rest = [] then ((inThink, []), thinkBuf, textBuf)
      else case index_of rest (think_tag inThink) of
        Some i \<Rightarrow>
          process_loop (\<not> inThink) (drop (i + length (think_tag inThink)) rest)
            (if inThink then thinkBuf @ take i rest else thinkBuf)
            (if inThink then textBuf else textBuf @ take i rest)
      | None \<Rightarrow>
          let n = length rest - partialSuffix rest (think_tag inThink)
          in ((inThink, drop n rest),
              (if inThink then thinkBuf @ take n rest else thinkBuf),
              (if inThink then textBuf else textBuf @ take n rest)))"
  by pat_completeness auto

termination
  by (relation "measure (\<lambda>(_, rest, _, _). length rest)") auto

declare process_loop.simps [simp del]

definition Process :: "think_parser \<Rightarrow> string \<Rightarrow> think_parser \<times> string \<times> string" where
  "Process p chunk =
     (let ((inThink, buffered), thinking, regular) =
            process_loop (tp_inThinkBlock p) (tp_tagBuffer p @ chunk) [] []
      in (\<lparr>tp_inThinkBlock = inThink, tp_tagBuffer = buffered\<rparr>, thinking, regular))"

definition Flush :: "think_parser \<Rightarrow> think_parser \<times> string \<times> string" where
  "Flush p =
     (if tp_tagBuffer p = [] then (p, [], [])
      else (p\<lparr>tp_tagBuffer := []\<rparr>,
            if tp_inThinkBlock p then (tp_tagBuffer p, []) else ([], tp_tagBuffer p)))"

text \<open>A whole stream: the chunks in order, then \<open>Flush\<close>; the two texts are concatenated.\<close>

fun feed :: "think_parser \<Rightarrow> string list \<Rightarrow> think_parser \<times> string \<times> string" where
  "feed p [] = Flush p"
| "feed p (chunk # chunks) =
     (let (p, th, re) = Process p chunk; (p, th', re') = feed p chunks in (p, th @ th', re @ re'))"

section \<open>The reference\<close>

function think_spec :: "bool \<Rightarrow> string \<Rightarrow> bool \<times> string \<times> string" where
  "think_spec inThink s =
     (case index_of s (think_tag inThink) of
        None \<Rightarrow> (inThink, if inThink then (s, []) else ([], s))
      | Some i \<Rightarrow>
          let (b, th, re) = think_spec (\<not> inThink) (drop (i + length (think_tag inThink)) s)
          in (b, if inThink then (take i s @ th, re) else (th, take i s @ re)))"
  by pat_completeness auto

termination
proof (relation "measure (\<lambda>(_, s). length s)")
  fix b s i assume "index_of s (think_tag b) = Some i"
  then have "i + length (think_tag b) \<le> length s" by (simp add: index_of_SomeD)
  then show "((\<not> b, drop (i + length (think_tag b)) s), b, s) \<in> measure (\<lambda>(_, s). length s)"
    using tag_length(1) [of b] by (simp only: in_measure case_prod_conv length_drop)
qed simp

declare think_spec.simps [simp del]

section \<open>Searching in a longer text\<close>

lemma index_of_append:
  assumes "index_of s p = Some i" shows "index_of (s @ t) p = Some i"
proof (rule index_ofI)
  have i: "i + length p \<le> length s" "has_prefix (drop i s) p" using index_of_SomeD [OF assms] by auto
  then show "has_prefix (drop i (s @ t)) p" "i \<le> length (s @ t)" by (auto simp: has_prefix_iff)
  show "\<not> has_prefix (drop j (s @ t)) p" if "j < i" for j
  proof
    assume "has_prefix (drop j (s @ t)) p"
    moreover have "j + length p \<le> length s" using that i(1) by simp
    ultimately have "has_prefix (drop j s) p"
      by (simp add: has_prefix_def)
    with index_of_least [OF assms that] show False by simp
  qed
qed

lemma partial_loop_max:
  "k \<le> n \<Longrightarrow> has_suffix str (take k tag) \<Longrightarrow> k \<le> length tag \<Longrightarrow> k \<le> partial_loop str tag n"
  by (induction n) (auto simp: le_Suc_eq)

lemma partial_loop_le: "partial_loop str tag n \<le> n"
  by (induction n) auto

lemma partial_loop_suffix: "has_suffix str (take (partial_loop str tag n) tag)"
  by (induction n) (auto simp: has_suffix_def)

lemma partialSuffix_bound: "partialSuffix str tag \<le> length tag - 1" "partialSuffix str tag \<le> length str"
  using partial_loop_le [of str tag "length str"] partial_loop_le [of str tag "length tag - 1"]
  by (simp_all add: partialSuffix_def Let_def)

lemma partialSuffix_suffix:
  "drop (length str - partialSuffix str tag) str = take (partialSuffix str tag) tag"
proof -
  have "has_suffix str (take (partialSuffix str tag) tag)"
    by (simp add: partialSuffix_def Let_def partial_loop_suffix)
  moreover have "partialSuffix str tag \<le> length tag"
    using partialSuffix_bound(1) [of str tag] by linarith
  ultimately show ?thesis by (simp add: has_suffix_def)
qed

lemma partialSuffix_max:
  assumes "has_suffix str (take k tag)" "k < length tag" "k \<le> length str"
  shows "k \<le> partialSuffix str tag"
  using assms by (auto simp: partialSuffix_def Let_def intro!: partial_loop_max)

text \<open>
  A text without the tag, cut before its longest partial tag: nothing that follows can make the tag
  start before the cut.
\<close>

lemma no_tag_before_cut:
  assumes none: "index_of s tag = None" and "tag \<noteq> []"
    and cut: "n = length s - partialSuffix s tag" and j: "j < n"
  shows "\<not> has_prefix (drop j (s @ t)) tag"
proof
  assume pre: "has_prefix (drop j (s @ t)) tag"
  have jl: "j < length s" using j cut by simp
  show False
  proof (cases "j + length tag \<le> length s")
    case True
    with pre have "has_prefix (drop j s) tag" by (simp add: has_prefix_def)
    with index_of_NoneD [OF none] show False by blast
  next
    case False
    let ?k = "length s - j"
    from pre obtain r where r: "drop j s @ t = tag @ r" using jl by (auto simp: has_prefix_iff)
    have "drop j s = take ?k tag"
      using arg_cong [OF r, of "take ?k"] False by simp
    then have "has_suffix s (take ?k tag)"
      using jl False by (simp add: has_suffix_def)
    then have "?k \<le> partialSuffix s tag"
      using False jl by (intro partialSuffix_max) auto
    with j cut jl show False by simp
  qed
qed

lemma index_after_cut:
  assumes "index_of s tag = None" "tag \<noteq> []" "n = length s - partialSuffix s tag"
  shows "index_of (s @ t) tag = map_option (\<lambda>i. n + i) (index_of (drop n s @ t) tag)"
proof -
  have n: "n \<le> length s" using assms(3) by simp
  have early: "\<not> has_prefix (drop j (s @ t)) tag" if "j < n" for j
    using no_tag_before_cut [OF assms that] .
  have shift: "drop (n + j) (s @ t) = drop j (drop n s @ t)" for j
    using n by (simp add: add.commute)
  show ?thesis
  proof (cases "index_of (drop n s @ t) tag")
    case None
    have "\<not> has_prefix (drop j (s @ t)) tag" for j
      using early [of j] index_of_NoneD [OF None, of "j - n"] shift [of "j - n"] by (cases "j < n") auto
    then have "index_of (s @ t) tag = None"
      using index_of_SomeD [of "s @ t" tag] by (cases "index_of (s @ t) tag") auto
    with None show ?thesis by simp
  next
    case (Some i)
    have "index_of (s @ t) tag = Some (n + i)"
    proof (rule index_ofI)
      show "has_prefix (drop (n + i) (s @ t)) tag"
        using index_of_SomeD [OF Some] by (simp only: shift)
      show "n + i \<le> length (s @ t)"
        using conjunct1 [OF index_of_SomeD [OF Some]] n by simp
      show "\<not> has_prefix (drop j (s @ t)) tag" if "j < n + i" for j
        using early [of j] index_of_least [OF Some, of "j - n"] shift [of "j - n"] that
        by (cases "j < n") auto
    qed
    with Some show ?thesis by simp
  qed
qed

section \<open>One chunk\<close>

text \<open>Put text in front of a result, on the side of the current mode.\<close>

definition prepend :: "string \<times> string \<Rightarrow> bool \<times> string \<times> string \<Rightarrow> bool \<times> string \<times> string" where
  "prepend pre res = (fst res, fst pre @ fst (snd res), snd pre @ snd (snd res))"

definition on_side :: "bool \<Rightarrow> string \<Rightarrow> string \<times> string" where
  "on_side inThink s = (if inThink then (s, []) else ([], s))"

lemma spec_none: "index_of s (think_tag b) = None \<Longrightarrow> think_spec b s = (b, on_side b s)"
  by (simp add: think_spec.simps [of b s] on_side_def)

lemma spec_some:
  "index_of s (think_tag b) = Some i \<Longrightarrow>
   think_spec b s = prepend (on_side b (take i s)) (think_spec (\<not> b) (drop (i + length (think_tag b)) s))"
  by (simp add: think_spec.simps [of b s] on_side_def prepend_def split_beta)

lemma prepend_prepend:
  "prepend p (prepend q r) = prepend (fst p @ fst q, snd p @ snd q) r"
  by (simp add: prepend_def)

lemma spec_cut:
  assumes "index_of s (think_tag b) = None" "n = length s - partialSuffix s (think_tag b)"
  shows "think_spec b (s @ t) = prepend (on_side b (take n s)) (think_spec b (drop n s @ t))"
proof (cases "index_of (drop n s @ t) (think_tag b)")
  case None
  then show ?thesis
    using index_after_cut [OF assms(1) tag_length(2) assms(2), of t]
    by (simp add: spec_none on_side_def prepend_def flip: append_assoc)
next
  case (Some i)
  have n: "n \<le> length s" using assms(2) by simp
  have idx: "index_of (s @ t) (think_tag b) = Some (n + i)"
    using index_after_cut [OF assms(1) tag_length(2) assms(2), of t] Some by simp
  have "take (n + i) (s @ t) = take n s @ take i (drop n s @ t)"
    unfolding take_add using n by simp
  moreover have "drop (n + i + length (think_tag b)) (s @ t) = drop (i + length (think_tag b)) (drop n s @ t)"
    using n by (simp add: add.assoc [symmetric]) (simp add: ac_simps)
  ultimately show ?thesis
    unfolding spec_some [OF idx] spec_some [OF Some] prepend_prepend by (simp add: on_side_def)
qed

text \<open>
  The loop on an unread text, seen from the reference: whatever follows, the builders have received
  exactly what the reference sends out before the buffered rest.
\<close>

lemma process_loop_spec:
  assumes "process_loop b rest th re = ((b', buf), th', re')"
  shows "\<exists>x y. th' = th @ x \<and> re' = re @ y \<and> think_spec b (rest @ t) = prepend (x, y) (think_spec b' (buf @ t)) \<and>
    index_of buf (think_tag b') = None"
  using assms
proof (induction b rest th re rule: process_loop.induct)
  case (1 b rest th re)
  show ?case
  proof (cases "rest = []")
    case True
    then show ?thesis using "1.prems" by (simp add: process_loop.simps prepend_def)
  next
    case False
    show ?thesis
    proof (cases "index_of rest (think_tag b)")
      case None
      let ?n = "length rest - partialSuffix rest (think_tag b)"
      have r: "b' = b" "buf = drop ?n rest"
        "th' = th @ fst (on_side b (take ?n rest))" "re' = re @ snd (on_side b (take ?n rest))"
        using "1.prems" None False by (auto simp: process_loop.simps [of b rest] on_side_def Let_def)
      have "index_of buf (think_tag b) = None"
      proof (rule ccontr)
        assume "index_of buf (think_tag b) \<noteq> None"
        then obtain i where "index_of buf (think_tag b) = Some i" by blast
        from conjunct1 [OF index_of_SomeD [OF this]] have "length (think_tag b) \<le> length buf" by linarith
        moreover have "length buf \<le> partialSuffix rest (think_tag b)" using r(2) by simp
        ultimately show False
          using partialSuffix_bound(1) [of rest "think_tag b"] tag_length(1) [of b] by linarith
      qed
      with r show ?thesis
        using spec_cut [OF None refl, of t] by (intro exI conjI) (simp_all, simp add: prepend_def)
    next
      case (Some i)
      let ?rest = "drop (i + length (think_tag b)) rest"
      have i: "i + length (think_tag b) \<le> length rest" using index_of_SomeD [OF Some] by simp
      have call: "process_loop (\<not> b) ?rest (th @ fst (on_side b (take i rest))) (re @ snd (on_side b (take i rest))) =
          ((b', buf), th', re')"
        using "1.prems" Some False by (simp add: process_loop.simps [of b rest] on_side_def split: if_splits)
      then obtain x y where xy: "th' = (th @ fst (on_side b (take i rest))) @ x"
        "re' = (re @ snd (on_side b (take i rest))) @ y"
        "think_spec (\<not> b) (?rest @ t) = prepend (x, y) (think_spec b' (buf @ t))"
        "index_of buf (think_tag b') = None"
        using "1.IH" [OF False Some] by (auto simp: on_side_def split: if_splits)
      have "think_spec b (rest @ t) = prepend (on_side b (take i rest)) (think_spec (\<not> b) (?rest @ t))"
        using spec_some [OF index_of_append [OF Some]] i by simp
      then show ?thesis
        using xy by (auto simp: prepend_prepend intro!: exI)
    qed
  qed
qed

section \<open>The stream\<close>

definition parser_ok :: "think_parser \<Rightarrow> bool" where
  "parser_ok p \<longleftrightarrow> index_of (tp_tagBuffer p) (think_tag (tp_inThinkBlock p)) = None"

definition parser_result :: "think_parser \<times> string \<times> string \<Rightarrow> bool \<times> string \<times> string" where
  "parser_result r = (tp_inThinkBlock (fst r), snd r)"

lemma flush_spec:
  "parser_ok p \<Longrightarrow> parser_result (Flush p) = think_spec (tp_inThinkBlock p) (tp_tagBuffer p)"
  by (auto simp: parser_ok_def parser_result_def Flush_def spec_none on_side_def)

lemma feed_spec:
  "parser_ok p \<Longrightarrow>
   parser_result (feed p chunks) = think_spec (tp_inThinkBlock p) (tp_tagBuffer p @ concat chunks)"
proof (induction chunks arbitrary: p)
  case Nil
  then show ?case by (simp add: flush_spec)
next
  case (Cons chunk chunks)
  obtain b buf th re where loop:
    "process_loop (tp_inThinkBlock p) (tp_tagBuffer p @ chunk) [] [] = ((b, buf), th, re)"
    by (metis prod.collapse)
  let ?p = "\<lparr>tp_inThinkBlock = b, tp_tagBuffer = buf\<rparr>"
  obtain p' th' re' where rest: "feed ?p chunks = (p', th', re')" by (metis prod_cases3)
  have spec: "think_spec (tp_inThinkBlock p) ((tp_tagBuffer p @ chunk) @ concat chunks) =
      prepend (th, re) (think_spec b (buf @ concat chunks))" and ok: "parser_ok ?p"
    using process_loop_spec [OF loop, of "concat chunks"] by (auto simp: parser_ok_def)
  have "think_spec b (buf @ concat chunks) = (tp_inThinkBlock p', th', re')"
    using Cons.IH [OF ok] rest by (simp add: parser_result_def)
  then show ?case
    using spec rest loop by (simp add: Process_def parser_result_def prepend_def)
qed

text \<open>
  C25: the streaming parser does not depend on how the stream is cut. For every list of chunks, the
  thinking text, the regular text and the final mode it delivers, flush included, are those of
  the reference that reads the concatenated stream at once.
\<close>

theorem streaming_equals_whole_text:
  "(case feed new_think_parser chunks of (p, thinking, regular) \<Rightarrow> (tp_inThinkBlock p, thinking, regular)) =
   think_spec False (concat chunks)"
  using feed_spec [of new_think_parser chunks]
  by (simp add: new_think_parser_def parser_ok_def parser_result_def case_prod_beta)

text \<open>
  A think block is delivered as thinking with its tags removed and the text around it as
  regular text, even when a chunk boundary falls inside a tag.
\<close>

theorem think_block_delivered:
  assumes "index_of (before @ ''<think>'') ''<think>'' = Some (length before)"
    and "index_of (thought @ ''</think>'') ''</think>'' = Some (length thought)"
    and "\<not> contains after ''<think>''"
    and "concat chunks = before @ ''<think>'' @ thought @ ''</think>'' @ after"
  shows "snd (feed new_think_parser chunks) = (thought, before @ after)"
proof -
  have i: "index_of (concat chunks) (think_tag False) = Some (length before)"
    using index_of_append [OF assms(1), of "thought @ ''</think>'' @ after"] by (simp add: assms(4) think_tag_def)
  have j: "index_of (thought @ ''</think>'' @ after) (think_tag True) = Some (length thought)"
    using index_of_append [OF assms(2), of after] by (simp add: think_tag_def)
  have k: "index_of after (think_tag False) = None" using assms(3) by (simp add: contains_def think_tag_def)
  have "think_spec False (concat chunks) =
      prepend (on_side False before) (think_spec True (thought @ ''</think>'' @ after))"
    using spec_some [OF i] by (simp add: assms(4) think_tag_def)
  moreover have "think_spec True (thought @ ''</think>'' @ after) = prepend (on_side True thought) (False, on_side False after)"
    using spec_some [OF j] spec_none [OF k] by (simp add: think_tag_def)
  ultimately have "snd (think_spec False (concat chunks)) = (thought, before @ after)"
    by (simp add: prepend_def on_side_def)
  then show ?thesis
    using arg_cong [OF feed_spec [of new_think_parser chunks], of snd]
    by (simp add: new_think_parser_def parser_ok_def parser_result_def)
qed

theorem think_block_delivered_witness:
  "snd (feed new_think_parser [''a<th'', ''ink>b</thi'', ''nk>c'']) = (''b'', ''ac'')"
  by (rule think_block_delivered [of "''a''" "''b''" "''c''", simplified])
     (simp_all add: has_prefix_def contains_def)

end
