(* ===== verification/ToolPairs.thy ===== *)
theory ToolPairs
  imports Prelude "HOL-Library.Sublist"
begin

text \<open>
  The three functions that keep tool calls and tool results of a chat history paired:
  \<open>AdjustBoundaryForToolPairs\<close> and \<open>pruneOrphanedToolParts\<close> of \<open>internal/context/tool_pairs.go\<close>, and
  the last-defence sanitizer of \<open>internal/client/history_sanitizer.go\<close>.

  A message part keeps the ID of its function call and of its function response (\<open>None\<close> for a nil
  pointer) and, opaque, everything else; nil messages and nil parts are \<open>None\<close>. What a cleaner of
  histories promises to the request builders is the locale \<open>pair_cleaner\<close>, interpreted on both
  cleaners.
\<close>

section \<open>Histories\<close>

record 'x part =
  pt_call :: "string option"
  pt_resp :: "string option"
  pt_body :: 'x

record 'x content =
  ct_Role :: string
  ct_Parts :: "'x part option list"

type_synonym 'x history = "'x content option list"

definition nonempty_id :: "string option \<Rightarrow> string option" where
  "nonempty_id i = (if i = Some [] then None else i)"

definition call_id :: "'x part \<Rightarrow> string option" where
  "call_id p = nonempty_id (pt_call p)"

definition resp_id :: "'x part \<Rightarrow> string option" where
  "resp_id p = nonempty_id (pt_resp p)"

definition msg_parts :: "'x content option \<Rightarrow> 'x part list" where
  "msg_parts m = (case m of None \<Rightarrow> [] | Some c \<Rightarrow> List.map_filter (\<lambda>p. p) (ct_Parts c))"

definition history_parts :: "'x history \<Rightarrow> 'x part list" where
  "history_parts h = concat (map msg_parts h)"

definition call_ids :: "'x part list \<Rightarrow> string list" where
  "call_ids ps = List.map_filter call_id ps"

definition resp_ids :: "'x part list \<Rightarrow> string list" where
  "resp_ids ps = List.map_filter resp_id ps"

text \<open>A part of the provider's API is a call or a response, not both.\<close>

definition exclusive :: "'x part \<Rightarrow> bool" where
  "exclusive p \<longleftrightarrow> call_id p = None \<or> resp_id p = None"

section \<open>Pruning\<close>

definition orphan_part :: "string list \<Rightarrow> string list \<Rightarrow> 'x part \<Rightarrow> bool" where
  "orphan_part calls resps p \<longleftrightarrow>
     (case call_id p of None \<Rightarrow> False | Some i \<Rightarrow> i \<notin> set resps) \<or>
     (case resp_id p of None \<Rightarrow> False | Some i \<Rightarrow> i \<notin> set calls)"

definition rebuild :: "'x content \<Rightarrow> 'x part list \<Rightarrow> 'x content" where
  "rebuild c kept =
     (if length kept = length (ct_Parts c) then c
      else \<lparr>ct_Role = ct_Role c, ct_Parts = map Some kept\<rparr>)"

fun prune_messages :: "string list \<Rightarrow> string list \<Rightarrow> 'x history \<Rightarrow> 'x history" where
  "prune_messages calls resps [] = []"
| "prune_messages calls resps (None # ms) = prune_messages calls resps ms"
| "prune_messages calls resps (Some c # ms) =
     (let kept = filter (\<lambda>p. \<not> orphan_part calls resps p) (msg_parts (Some c))
      in if kept = [] then prune_messages calls resps ms
         else Some (rebuild c kept) # prune_messages calls resps ms)"

definition pruneOrphanedToolParts :: "'x history \<Rightarrow> 'x history" where
  "pruneOrphanedToolParts h =
     (let calls = call_ids (history_parts h); resps = resp_ids (history_parts h)
      in if filter (orphan_part calls resps) (history_parts h) = [] then h
         else prune_messages calls resps h)"

section \<open>Sanitizing with counts\<close>

definition take_budget :: "string option \<Rightarrow> (string \<Rightarrow> nat) \<Rightarrow> bool \<times> (string \<Rightarrow> nat)" where
  "take_budget i budget =
     (case i of
        None \<Rightarrow> (True, budget)
      | Some x \<Rightarrow> if 0 < budget x then (True, budget(x := budget x - 1)) else (False, budget))"

fun sanitize_parts ::
    "(string \<Rightarrow> nat) \<Rightarrow> (string \<Rightarrow> nat) \<Rightarrow> 'x part list \<Rightarrow>
     'x part list \<times> (string \<Rightarrow> nat) \<times> (string \<Rightarrow> nat)" where
  "sanitize_parts cb rb [] = ([], cb, rb)"
| "sanitize_parts cb rb (p # ps) =
     (let (keep1, cb) = take_budget (call_id p) cb;
          (keep2, rb) = take_budget (resp_id p) rb;
          (kept, cb, rb) = sanitize_parts cb rb ps
      in (if keep1 \<and> keep2 then p # kept else kept, cb, rb))"

fun sanitize_messages :: "(string \<Rightarrow> nat) \<Rightarrow> (string \<Rightarrow> nat) \<Rightarrow> 'x history \<Rightarrow> 'x history" where
  "sanitize_messages cb rb [] = []"
| "sanitize_messages cb rb (None # ms) = sanitize_messages cb rb ms"
| "sanitize_messages cb rb (Some c # ms) =
     (let (kept, cb, rb) = sanitize_parts cb rb (msg_parts (Some c))
      in if kept = [] then sanitize_messages cb rb ms
         else Some \<lparr>ct_Role = ct_Role c, ct_Parts = map Some kept\<rparr> # sanitize_messages cb rb ms)"

text \<open>The pending results are the IDs of the function responses that are not in the history yet.\<close>

definition sanitizeToolPairsWithPendingResults :: "'x history \<Rightarrow> string option list \<Rightarrow> 'x history" where
  "sanitizeToolPairsWithPendingResults h pending =
     (let calls = call_ids (history_parts h);
          resps = resp_ids (history_parts h) @ List.map_filter nonempty_id pending;
          callCount = count_list calls; respCount = count_list resps;
          orphanedCalls = sum_list (map (\<lambda>i. callCount i - respCount i) (remdups calls));
          orphanedResponses = sum_list (map (\<lambda>i. respCount i - callCount i) (remdups resps));
          budget = (\<lambda>i. if callCount i < respCount i then callCount i else respCount i)
      in if h = [] then h
         else if orphanedCalls = 0 \<and> orphanedResponses = 0 then h
         else sanitize_messages budget budget h)"

definition sanitizeToolPairs :: "'x history \<Rightarrow> 'x history" where
  "sanitizeToolPairs h = sanitizeToolPairsWithPendingResults h []"

section \<open>Adjusting a split boundary\<close>

definition has_call_in :: "string list \<Rightarrow> 'x content option \<Rightarrow> bool" where
  "has_call_in ids m \<longleftrightarrow> list_ex (\<lambda>i. i \<in> set ids) (call_ids (msg_parts m))"

definition has_orphan_response :: "string list \<Rightarrow> 'x content option \<Rightarrow> bool" where
  "has_orphan_response calls m \<longleftrightarrow> list_ex (\<lambda>i. i \<notin> set calls) (resp_ids (msg_parts m))"

definition right_calls :: "'x history \<Rightarrow> nat \<Rightarrow> string list" where
  "right_calls h b = call_ids (history_parts (drop b h))"

definition right_responses :: "'x history \<Rightarrow> nat \<Rightarrow> string list" where
  "right_responses h b = resp_ids (history_parts (drop b h))"

text \<open>
  Case 1, scanning backwards from index \<open>i\<close> while it is within ten messages of the boundary, which
  moves as the scan goes: \<open>back_scan h ids (Suc i) a\<close> looks at message \<open>i\<close>.
\<close>

primrec back_scan :: "'x history \<Rightarrow> string list \<Rightarrow> nat \<Rightarrow> nat \<Rightarrow> nat" where
  "back_scan h ids 0 adjusted = adjusted"
| "back_scan h ids (Suc i) adjusted =
     (if adjusted \<le> i + 10
      then back_scan h ids i (if has_call_in ids (h ! i) \<and> i < adjusted then i else adjusted)
      else adjusted)"

text \<open>Case 2, scanning forwards over the messages from the boundary, at most ten.\<close>

fun forward_scan :: "string list \<Rightarrow> nat \<Rightarrow> nat \<Rightarrow> nat \<Rightarrow> 'x history \<Rightarrow> nat" where
  "forward_scan calls limit i adjusted [] = adjusted"
| "forward_scan calls limit i adjusted (m # ms) =
     (if i < limit
      then (case m of
              None \<Rightarrow> forward_scan calls limit (Suc i) adjusted ms
            | Some c \<Rightarrow>
                if has_orphan_response calls m then forward_scan calls limit (Suc i) (Suc i) ms else adjusted)
      else adjusted)"

definition adjust_once :: "'x history \<Rightarrow> nat \<Rightarrow> nat" where
  "adjust_once h adjusted =
     (let a = back_scan h (right_responses h adjusted) adjusted adjusted
      in forward_scan (right_calls h a) (a + 10) a a (drop a h))"

primrec adjust_iterate :: "nat \<Rightarrow> 'x history \<Rightarrow> nat \<Rightarrow> nat" where
  "adjust_iterate 0 h adjusted = adjusted"
| "adjust_iterate (Suc n) h adjusted =
     (let a = adjust_once h adjusted in if a = adjusted then a else adjust_iterate n h a)"

definition AdjustBoundaryForToolPairs :: "'x history \<Rightarrow> int \<Rightarrow> int" where
  "AdjustBoundaryForToolPairs h boundary =
     (if boundary \<le> 0 \<or> int (length h) \<le> boundary then boundary
      else let a = adjust_iterate 3 h (nat boundary)
           in if length h < a then int (length h) else int a)"

section \<open>Lemmas on parts\<close>

lemma map_filter_filter: "List.map_filter f (filter P xs) = List.map_filter (\<lambda>x. if P x then f x else None) xs"
  by (induction xs) (auto simp: List.map_filter_simps split: option.splits)

lemma set_map_filter: "set (List.map_filter f xs) = {y. \<exists>x \<in> set xs. f x = Some y}"
  by (force simp: List.map_filter_def)

lemma map_filter_append: "List.map_filter f (xs @ ys) = List.map_filter f xs @ List.map_filter f ys"
  by (simp add: List.map_filter_def)

lemma map_filter_Some: "List.map_filter (\<lambda>p. p) (map Some xs) = xs"
  by (induction xs) (simp_all add: List.map_filter_simps)

lemma ids_append [simp]:
  "call_ids (xs @ ys) = call_ids xs @ call_ids ys" "resp_ids (xs @ ys) = resp_ids xs @ resp_ids ys"
  by (simp_all add: call_ids_def resp_ids_def map_filter_append)

lemma ids_simps [simp]:
  "call_ids [] = []" "resp_ids [] = []"
  "call_ids (p # ps) = (case call_id p of None \<Rightarrow> call_ids ps | Some i \<Rightarrow> i # call_ids ps)"
  "resp_ids (p # ps) = (case resp_id p of None \<Rightarrow> resp_ids ps | Some i \<Rightarrow> i # resp_ids ps)"
  by (simp_all add: call_ids_def resp_ids_def List.map_filter_simps split: option.splits)

lemma set_ids:
  "i \<in> set (call_ids ps) \<longleftrightarrow> (\<exists>p \<in> set ps. call_id p = Some i)"
  "i \<in> set (resp_ids ps) \<longleftrightarrow> (\<exists>p \<in> set ps. resp_id p = Some i)"
  by (auto simp: call_ids_def resp_ids_def set_map_filter)

lemma history_parts_simps [simp]:
  "history_parts [] = []" "history_parts (m # ms) = msg_parts m @ history_parts ms"
  "history_parts (h @ h') = history_parts h @ history_parts h'" "msg_parts None = []"
  by (simp_all add: history_parts_def msg_parts_def)

lemma rebuilt_parts: "msg_parts (Some \<lparr>ct_Role = r, ct_Parts = map Some kept\<rparr>) = kept"
  by (simp add: msg_parts_def map_filter_Some)

text \<open>If filtering loses nothing, not even a nil part, the message was reused unchanged.\<close>

lemma length_map_filter: "length (List.map_filter f xs) \<le> length xs"
  by (induction xs) (auto simp: List.map_filter_simps split: option.splits)

lemma rebuild_parts:
  "msg_parts (Some (rebuild c (filter P (msg_parts (Some c))))) = filter P (msg_parts (Some c))"
proof (cases "length (filter P (msg_parts (Some c))) = length (ct_Parts c)")
  case True
  then have "length (filter P (msg_parts (Some c))) = length (msg_parts (Some c))"
    using length_filter_le [of P "msg_parts (Some c)"] length_map_filter [of "\<lambda>p. p" "ct_Parts c"]
    by (simp add: msg_parts_def)
  then have "filter P (msg_parts (Some c)) = msg_parts (Some c)"
    by (metis length_filter_less less_irrefl filter_True)
  with True show ?thesis by (simp add: rebuild_def)
qed (simp add: rebuild_def rebuilt_parts)

lemma prune_messages_parts:
  "history_parts (prune_messages calls resps h) =
     filter (\<lambda>p. \<not> orphan_part calls resps p) (history_parts h)"
  by (induction calls resps h rule: prune_messages.induct) (auto simp: Let_def rebuild_parts)

lemma prune_parts:
  "history_parts (pruneOrphanedToolParts h) =
     filter (\<lambda>p. \<not> orphan_part (call_ids (history_parts h)) (resp_ids (history_parts h)) p) (history_parts h)"
  by (auto simp: pruneOrphanedToolParts_def Let_def prune_messages_parts filter_empty_conv intro!: filter_True [symmetric])

section \<open>Counting what the sanitizer keeps\<close>

lemma sanitize_parts_counts:
  assumes "list_all exclusive ps" "sanitize_parts cb rb ps = (kept, cb', rb')"
  shows "count_list (call_ids kept) i = min (count_list (call_ids ps) i) (cb i) \<and>
         count_list (resp_ids kept) i = min (count_list (resp_ids ps) i) (rb i) \<and>
         cb' i = cb i - count_list (call_ids ps) i \<and> rb' i = rb i - count_list (resp_ids ps) i"
  using assms
proof (induction cb rb ps arbitrary: kept cb' rb' rule: sanitize_parts.induct)
  case (2 cb rb p ps)
  obtain k1 cb1 where b1: "take_budget (call_id p) cb = (k1, cb1)" by fastforce
  obtain k2 rb1 where b2: "take_budget (resp_id p) rb = (k2, rb1)" by fastforce
  obtain ks cb2 rb2 where rest: "sanitize_parts cb1 rb1 ps = (ks, cb2, rb2)" by (metis prod_cases3)
  have ex: "exclusive p" "list_all exclusive ps" using "2.prems" by simp_all
  note IH = "2.IH" [OF b1 [symmetric] refl b2 [symmetric] refl ex(2) rest]
  have "kept = (if k1 \<and> k2 then p # ks else ks)" "cb' = cb2" "rb' = rb2"
    using "2.prems"(2) b1 b2 rest by auto
  then show ?case
    using IH b1 b2 ex(1)
    by (auto simp: take_budget_def exclusive_def min_def split: option.splits if_splits)
qed simp

lemma sanitize_parts_subseq: "subseq (fst (sanitize_parts cb rb ps)) ps"
  by (induction ps arbitrary: cb rb) (auto simp: split_beta Let_def)

definition plain :: "'x part \<Rightarrow> bool" where
  "plain p \<longleftrightarrow> call_id p = None \<and> resp_id p = None"

lemma sanitize_parts_plain: "filter plain (fst (sanitize_parts cb rb ps)) = filter plain ps"
  by (induction ps arbitrary: cb rb)
     (auto simp: split_beta Let_def plain_def take_budget_def split: option.splits)

lemma sanitize_parts_append:
  "sanitize_parts cb rb (ps @ qs) =
     (let (kept, cb, rb) = sanitize_parts cb rb ps; (kept', cb, rb) = sanitize_parts cb rb qs
      in (kept @ kept', cb, rb))"
  by (induction ps arbitrary: cb rb) (auto simp: split_beta Let_def)

lemma sanitize_messages_parts:
  "history_parts (sanitize_messages cb rb h) = fst (sanitize_parts cb rb (history_parts h))"
proof (induction h arbitrary: cb rb)
  case (Cons m ms)
  then show ?case
    by (cases m) (auto simp: sanitize_parts_append split_beta Let_def rebuilt_parts)
qed simp

text \<open>The parts after sanitizing, with or without the fast path, as one equation.\<close>

definition pair_budget :: "'x part list \<Rightarrow> string list \<Rightarrow> string \<Rightarrow> nat" where
  "pair_budget ps pending i = min (count_list (call_ids ps) i) (count_list (resp_ids ps @ pending) i)"

lemma budget_enough:
  assumes "\<And>i. count_list (case x of None \<Rightarrow> xs | Some y \<Rightarrow> y # xs) i \<le> b i"
  shows "\<exists>b'. take_budget x b = (True, b') \<and> (\<forall>i. count_list xs i \<le> b' i)"
proof (cases x)
  case (Some y)
  have y: "Suc (count_list xs y) \<le> b y" using assms [of y] Some by simp
  have "count_list xs i \<le> (b(y := b y - 1)) i" for i
    using y assms [of i] Some by (cases "i = y") auto
  with y Some show ?thesis by (simp add: take_budget_def)
qed (use assms in \<open>simp add: take_budget_def\<close>)

lemma sanitize_all_kept:
  assumes "\<And>i. count_list (call_ids ps) i \<le> cb i" "\<And>i. count_list (resp_ids ps) i \<le> rb i"
  shows "fst (sanitize_parts cb rb ps) = ps"
  using assms
proof (induction ps arbitrary: cb rb)
  case (Cons p ps)
  obtain cb1 where b1: "take_budget (call_id p) cb = (True, cb1)" "\<And>i. count_list (call_ids ps) i \<le> cb1 i"
    using budget_enough [where x = "call_id p" and xs = "call_ids ps" and b = cb] Cons.prems(1) by auto
  obtain rb1 where b2: "take_budget (resp_id p) rb = (True, rb1)" "\<And>i. count_list (resp_ids ps) i \<le> rb1 i"
    using budget_enough [where x = "resp_id p" and xs = "resp_ids ps" and b = rb] Cons.prems(2) by auto
  show ?case using Cons.IH [OF b1(2) b2(2)] b1(1) b2(1) by (simp add: split_beta Let_def)
qed simp

lemma orphan_sum_zero:
  "sum_list (map (\<lambda>i. count_list xs i - count_list ys i) (remdups xs)) = 0 \<longleftrightarrow>
   (\<forall>i. count_list xs i \<le> count_list ys i)"
  by (auto simp: sum_list_nonneg_eq_0_iff)

lemma sanitize_result_parts:
  "history_parts (sanitizeToolPairsWithPendingResults h pending) =
     fst (sanitize_parts (pair_budget (history_parts h) (List.map_filter nonempty_id pending))
       (pair_budget (history_parts h) (List.map_filter nonempty_id pending)) (history_parts h))"
proof -
  let ?ps = "history_parts h" and ?pend = "List.map_filter nonempty_id pending"
  let ?calls = "call_ids ?ps" and ?resps = "resp_ids ?ps @ ?pend"
  have budget: "(\<lambda>i. if count_list ?calls i < count_list ?resps i then count_list ?calls i else count_list ?resps i) =
      pair_budget ?ps ?pend"
    by (auto simp: pair_budget_def)
  show ?thesis
  proof (cases "(\<forall>i. count_list ?calls i \<le> count_list ?resps i) \<and> (\<forall>i. count_list ?resps i \<le> count_list ?calls i)")
    case True
    have "fst (sanitize_parts (pair_budget ?ps ?pend) (pair_budget ?ps ?pend) ?ps) = ?ps"
      using True by (intro sanitize_all_kept) (auto simp: pair_budget_def count_list_append intro: add_leD1)
    moreover have "sanitizeToolPairsWithPendingResults h pending = h"
      using True by (simp only: sanitizeToolPairsWithPendingResults_def Let_def orphan_sum_zero) simp
    ultimately show ?thesis by simp
  next
    case False
    then have "sanitizeToolPairsWithPendingResults h pending =
        sanitize_messages (pair_budget ?ps ?pend) (pair_budget ?ps ?pend) h"
      unfolding sanitizeToolPairsWithPendingResults_def Let_def orphan_sum_zero budget by auto
    then show ?thesis by (simp add: sanitize_messages_parts)
  qed
qed

section \<open>The contract of a cleaner\<close>

locale pair_cleaner =
  fixes clean :: "'x history \<Rightarrow> 'x history"
    and paired :: "'x part list \<Rightarrow> bool"
  assumes only_removes: "subseq (history_parts (clean h)) (history_parts h)"
    and keeps_plain: "filter plain (history_parts (clean h)) = filter plain (history_parts h)"
    and pairs: "list_all exclusive (history_parts h) \<Longrightarrow> paired (history_parts (clean h))"
    and leaves_paired: "paired (history_parts h) \<Longrightarrow> clean h = h"
begin

lemma clean_exclusive: "list_all exclusive (history_parts h) \<Longrightarrow> list_all exclusive (history_parts (clean h))"
  using only_removes [of h] by (auto simp: list_all_iff elim: list_emb_set)

lemma clean_idempotent: "list_all exclusive (history_parts h) \<Longrightarrow> clean (clean h) = clean h"
  by (intro leaves_paired pairs)

end

definition paired_ids :: "'x part list \<Rightarrow> bool" where
  "paired_ids ps \<longleftrightarrow> set (call_ids ps) = set (resp_ids ps)"

definition balanced_ids :: "'x part list \<Rightarrow> bool" where
  "balanced_ids ps \<longleftrightarrow> (\<forall>i. count_list (call_ids ps) i = count_list (resp_ids ps) i)"

lemma prune_paired:
  assumes "list_all exclusive (history_parts h)"
  shows "paired_ids (history_parts (pruneOrphanedToolParts h))"
proof -
  let ?ps = "history_parts h"
  let ?keep = "\<lambda>p. \<not> orphan_part (call_ids ?ps) (resp_ids ?ps) p"
  have ex: "call_id p = None \<or> resp_id p = None" if "p \<in> set ?ps" for p
    using assms that by (auto simp: list_all_iff exclusive_def)
  have c: "p \<in> set ?ps \<Longrightarrow> call_id p = Some i \<Longrightarrow> ?keep p \<longleftrightarrow> i \<in> set (resp_ids ?ps)"
    and r: "p \<in> set ?ps \<Longrightarrow> resp_id p = Some i \<Longrightarrow> ?keep p \<longleftrightarrow> i \<in> set (call_ids ?ps)" for p i
    using ex [of p] by (auto simp: orphan_part_def split: option.splits)
  show ?thesis
    unfolding paired_ids_def prune_parts using c r by (auto simp: set_ids) blast+
qed

lemma paired_no_orphans:
  "paired_ids ps \<Longrightarrow> p \<in> set ps \<Longrightarrow> \<not> orphan_part (call_ids ps) (resp_ids ps) p"
  by (auto simp: paired_ids_def orphan_part_def set_ids split: option.splits)

interpretation prune: pair_cleaner pruneOrphanedToolParts paired_ids
proof unfold_locales
  fix h :: "'x history"
  show "subseq (history_parts (pruneOrphanedToolParts h)) (history_parts h)"
    by (simp add: prune_parts subseq_filter_left)
  show "filter plain (history_parts (pruneOrphanedToolParts h)) = filter plain (history_parts h)"
    by (auto simp: prune_parts plain_def orphan_part_def intro!: filter_cong)
  show "list_all exclusive (history_parts h) \<Longrightarrow> paired_ids (history_parts (pruneOrphanedToolParts h))"
    by (rule prune_paired)
  show "paired_ids (history_parts h) \<Longrightarrow> pruneOrphanedToolParts h = h"
    by (auto simp: pruneOrphanedToolParts_def Let_def filter_empty_conv paired_no_orphans)
qed

lemma sanitize_counts:
  assumes "list_all exclusive (history_parts h)"
  shows "count_list (call_ids (history_parts (sanitizeToolPairsWithPendingResults h pending))) i =
      min (count_list (call_ids (history_parts h)) i)
        (count_list (resp_ids (history_parts h)) i + count_list (List.map_filter nonempty_id pending) i)"
    and "count_list (resp_ids (history_parts (sanitizeToolPairsWithPendingResults h pending))) i =
      min (count_list (resp_ids (history_parts h)) i) (count_list (call_ids (history_parts h)) i)"
proof -
  let ?b = "pair_budget (history_parts h) (List.map_filter nonempty_id pending)"
  obtain kept cb rb where s: "sanitize_parts ?b ?b (history_parts h) = (kept, cb, rb)" by (metis prod_cases3)
  show "count_list (call_ids (history_parts (sanitizeToolPairsWithPendingResults h pending))) i =
      min (count_list (call_ids (history_parts h)) i)
        (count_list (resp_ids (history_parts h)) i + count_list (List.map_filter nonempty_id pending) i)"
    "count_list (resp_ids (history_parts (sanitizeToolPairsWithPendingResults h pending))) i =
      min (count_list (resp_ids (history_parts h)) i) (count_list (call_ids (history_parts h)) i)"
    using sanitize_parts_counts [OF assms s, of i]
    by (auto simp: sanitize_result_parts s pair_budget_def count_list_append)
qed

interpretation sanitize: pair_cleaner sanitizeToolPairs balanced_ids
proof unfold_locales
  fix h :: "'x history"
  show "subseq (history_parts (sanitizeToolPairs h)) (history_parts h)"
    by (simp add: sanitizeToolPairs_def sanitize_result_parts sanitize_parts_subseq)
  show "filter plain (history_parts (sanitizeToolPairs h)) = filter plain (history_parts h)"
    by (simp add: sanitizeToolPairs_def sanitize_result_parts sanitize_parts_plain)
  show "list_all exclusive (history_parts h) \<Longrightarrow> balanced_ids (history_parts (sanitizeToolPairs h))"
    by (simp add: balanced_ids_def sanitizeToolPairs_def sanitize_counts List.map_filter_simps min.commute)
  show "balanced_ids (history_parts h) \<Longrightarrow> sanitizeToolPairs h = h"
    unfolding sanitizeToolPairs_def sanitizeToolPairsWithPendingResults_def Let_def
    by (simp only: balanced_ids_def List.map_filter_simps append_Nil2 orphan_sum_zero) simp
qed

section \<open>The boundary on well-formed histories\<close>

text \<open>
  The shape the chat loop produces: a message with responses holds no calls and directly follows
  the message with their calls.
\<close>

definition responses_follow_calls :: "'x history \<Rightarrow> bool" where
  "responses_follow_calls h \<longleftrightarrow>
     list_all (\<lambda>i. list_all (\<lambda>x. call_ids (msg_parts (h ! i)) = [] \<and> 0 < i \<and>
                                x \<in> set (call_ids (msg_parts (h ! (i - 1)))))
                   (resp_ids (msg_parts (h ! i))))
       [0..<length h]"

lemma followD:
  assumes "responses_follow_calls h" "i < length h" "x \<in> set (resp_ids (msg_parts (h ! i)))"
  shows "call_ids (msg_parts (h ! i)) = []" "0 < i" "x \<in> set (call_ids (msg_parts (h ! (i - 1))))"
  using assms by (simp_all add: responses_follow_calls_def list_all_iff)

definition starts_clean :: "'x history \<Rightarrow> nat \<Rightarrow> bool" where
  "starts_clean h a \<longleftrightarrow> a < length h \<longrightarrow> resp_ids (msg_parts (h ! a)) = []"

lemma back_scan_le: "back_scan h ids i a \<le> a"
proof (induction i arbitrary: a)
  case (Suc i)
  show ?case using Suc.IH [of i] Suc.IH [of a] by auto
qed simp

lemma back_scan_moved:
  "back_scan h ids i a = a \<or> (back_scan h ids i a < i \<and> has_call_in ids (h ! back_scan h ids i a))"
proof (induction i arbitrary: a)
  case (Suc i)
  show ?case using Suc.IH [of i] Suc.IH [of a] by (auto simp: less_Suc_eq)
qed simp

lemma back_scan_found:
  "0 < i \<Longrightarrow> i \<le> a \<Longrightarrow> a \<le> i + 9 \<Longrightarrow> has_call_in ids (h ! (i - 1)) \<Longrightarrow> back_scan h ids i a < a"
  by (cases i) (auto intro: le_less_trans [OF back_scan_le])

lemma forward_no_orphans:
  "\<forall>m \<in> set ms. \<not> has_orphan_response calls m \<Longrightarrow> forward_scan calls limit i a ms = a"
  by (induction ms arbitrary: i) (auto split: option.splits)

lemma in_set_drop: "x \<in> set (drop a h) \<longleftrightarrow> (\<exists>i. a \<le> i \<and> i < length h \<and> h ! i = x)"
proof
  assume "x \<in> set (drop a h)"
  then obtain n where "n < length h - a" "h ! (a + n) = x" by (auto simp: in_set_conv_nth)
  then show "\<exists>i. a \<le> i \<and> i < length h \<and> h ! i = x" by (intro exI [of _ "a + n"]) auto
next
  assume "\<exists>i. a \<le> i \<and> i < length h \<and> h ! i = x"
  then obtain i where "a \<le> i" "i < length h" "h ! i = x" by blast
  then show "x \<in> set (drop a h)" by (auto simp: in_set_conv_nth intro!: exI [of _ "i - a"])
qed

lemma set_right:
  "x \<in> set (right_responses h a) \<longleftrightarrow> (\<exists>i. a \<le> i \<and> i < length h \<and> x \<in> set (resp_ids (msg_parts (h ! i))))"
  "x \<in> set (right_calls h a) \<longleftrightarrow> (\<exists>i. a \<le> i \<and> i < length h \<and> x \<in> set (call_ids (msg_parts (h ! i))))"
proof -
  have parts: "p \<in> set (history_parts (drop a h)) \<longleftrightarrow> (\<exists>i. a \<le> i \<and> i < length h \<and> p \<in> set (msg_parts (h ! i)))" for p
    unfolding history_parts_def set_concat set_map UN_iff image_image Bex_def in_set_drop by blast
  show "x \<in> set (right_responses h a) \<longleftrightarrow> (\<exists>i. a \<le> i \<and> i < length h \<and> x \<in> set (resp_ids (msg_parts (h ! i))))"
    "x \<in> set (right_calls h a) \<longleftrightarrow> (\<exists>i. a \<le> i \<and> i < length h \<and> x \<in> set (call_ids (msg_parts (h ! i))))"
    unfolding right_responses_def right_calls_def set_ids Bex_def parts by blast+
qed

lemma clean_start_no_orphans:
  assumes "responses_follow_calls h" "starts_clean h a"
  shows "set (right_responses h a) \<subseteq> set (right_calls h a)"
proof
  fix x assume "x \<in> set (right_responses h a)"
  then obtain i where i: "a \<le> i" "i < length h" "x \<in> set (resp_ids (msg_parts (h ! i)))"
    by (auto simp: set_right)
  have "a \<noteq> i" using i assms(2) by (auto simp: starts_clean_def)
  then show "x \<in> set (right_calls h a)"
    using followD [OF assms(1) i(2,3)] i(1,2) by (auto simp: set_right intro!: exI [of _ "i - 1"])
qed

lemma adjust_once_clean:
  assumes "responses_follow_calls h" "a \<le> length h"
  shows "starts_clean h (adjust_once h a)" "adjust_once h a \<le> a"
proof -
  let ?a = "back_scan h (right_responses h a) a a"
  have "starts_clean h ?a"
  proof (cases "?a = a")
    case True
    have False if a: "a < length h" and x: "x \<in> set (resp_ids (msg_parts (h ! a)))" for x
    proof -
      note f = followD [OF assms(1) a x]
      have "x \<in> set (right_responses h a)" using a x by (auto simp: set_right)
      then have "has_call_in (right_responses h a) (h ! (a - 1))"
        using f(3) by (auto simp: has_call_in_def list_ex_iff)
      then show False using back_scan_found [of a a "right_responses h a" h] f(2) True by simp
    qed
    then show ?thesis unfolding True starts_clean_def by (metis last_in_set)
  next
    case False
    then have "has_call_in (right_responses h a) (h ! ?a)"
      using back_scan_moved [of h "right_responses h a" a a] by blast
    then have "call_ids (msg_parts (h ! ?a)) \<noteq> []" by (auto simp: has_call_in_def)
    then show ?thesis
      using followD(1) [OF assms(1), of ?a] unfolding starts_clean_def by (metis last_in_set)
  qed
  moreover have "adjust_once h a = ?a"
  proof -
    have "\<forall>m \<in> set (drop ?a h). \<not> has_orphan_response (right_calls h ?a) m"
      using clean_start_no_orphans [OF assms(1) \<open>starts_clean h ?a\<close>]
      by (fastforce simp: has_orphan_response_def list_ex_iff in_set_drop set_right)
    then show ?thesis by (simp add: adjust_once_def Let_def forward_no_orphans)
  qed
  ultimately show "starts_clean h (adjust_once h a)" "adjust_once h a \<le> a"
    using back_scan_le by simp_all
qed

lemma adjust_iterate_clean:
  assumes "responses_follow_calls h"
  shows "a \<le> length h \<Longrightarrow> starts_clean h (adjust_iterate (Suc n) h a) \<and> adjust_iterate (Suc n) h a \<le> a"
proof (induction n arbitrary: a)
  case 0
  then show ?case using adjust_once_clean [OF assms 0] by (auto simp: Let_def)
next
  case (Suc n)
  note c = adjust_once_clean [OF assms Suc.prems]
  have "adjust_once h a \<le> length h" using c(2) Suc.prems by simp
  from Suc.IH [OF this] c show ?case
    by (auto simp: adjust_iterate.simps(2) [of "Suc n"] Let_def simp del: adjust_iterate.simps)
qed

section \<open>Properties\<close>

text \<open>
  After pruning, the IDs of the calls and the IDs of the responses in a history are the same
  set; the remaining parts are in their old order, none without an ID is lost, and pruning again
  changes nothing. (Each part is a call or a response, not both, as in the provider's API.)
\<close>

theorem prune_leaves_no_orphans:
  assumes "list_all exclusive (history_parts h)"
  shows "set (call_ids (history_parts (pruneOrphanedToolParts h))) =
      set (resp_ids (history_parts (pruneOrphanedToolParts h))) \<and>
    subseq (history_parts (pruneOrphanedToolParts h)) (history_parts h) \<and>
    filter plain (history_parts (pruneOrphanedToolParts h)) = filter plain (history_parts h) \<and>
    pruneOrphanedToolParts (pruneOrphanedToolParts h) = pruneOrphanedToolParts h"
  using prune.pairs [OF assms] prune.only_removes [of h] prune.keeps_plain [of h]
    prune.clean_idempotent [OF assms]
  by (simp add: paired_ids_def)

definition call_msg :: "string \<Rightarrow> unit content option" where
  "call_msg i = Some \<lparr>ct_Role = ''model'', ct_Parts = [Some \<lparr>pt_call = Some i, pt_resp = None, pt_body = ()\<rparr>]\<rparr>"

definition resp_msg :: "string \<Rightarrow> unit content option" where
  "resp_msg i = Some \<lparr>ct_Role = ''user'', ct_Parts = [Some \<lparr>pt_call = None, pt_resp = Some i, pt_body = ()\<rparr>]\<rparr>"

definition text_msg :: "unit content option" where
  "text_msg = Some \<lparr>ct_Role = ''user'', ct_Parts = [Some \<lparr>pt_call = None, pt_resp = None, pt_body = ()\<rparr>]\<rparr>"

lemmas sample_msgs = call_msg_def resp_msg_def text_msg_def msg_parts_def List.map_filter_simps
  exclusive_def call_id_def resp_id_def nonempty_id_def

theorem prune_leaves_no_orphans_witness:
  "set (call_ids (history_parts (pruneOrphanedToolParts [call_msg ''a'', resp_msg ''b'']))) =
   set (resp_ids (history_parts (pruneOrphanedToolParts [call_msg ''a'', resp_msg ''b''])))"
  using prune_leaves_no_orphans [of "[call_msg ''a'', resp_msg ''b'']"] by (simp add: sample_msgs)

text \<open>
  C40: the sanitizer pairs by number. For every ID it keeps as many calls as there are responses
  (pending ones included) to answer them, and at most as many responses as calls; without pending
  results every ID has equally many calls and responses afterwards. It only removes parts, keeps
  every part without an ID, and leaves a balanced history untouched.
\<close>

theorem sanitizer_balances_counts:
  assumes "list_all exclusive (history_parts h)"
  shows "(\<forall>i. count_list (call_ids (history_parts (sanitizeToolPairsWithPendingResults h pending))) i =
          min (count_list (call_ids (history_parts h)) i)
            (count_list (resp_ids (history_parts h)) i + count_list (List.map_filter nonempty_id pending) i)) \<and>
    (\<forall>i. count_list (resp_ids (history_parts (sanitizeToolPairsWithPendingResults h pending))) i =
          min (count_list (resp_ids (history_parts h)) i) (count_list (call_ids (history_parts h)) i)) \<and>
    (\<forall>i. count_list (call_ids (history_parts (sanitizeToolPairs h))) i =
          count_list (resp_ids (history_parts (sanitizeToolPairs h))) i) \<and>
    subseq (history_parts (sanitizeToolPairs h)) (history_parts h) \<and>
    filter plain (history_parts (sanitizeToolPairs h)) = filter plain (history_parts h) \<and>
    (balanced_ids (history_parts h) \<longrightarrow> sanitizeToolPairs h = h)"
  using sanitize_counts [OF assms] sanitize.pairs [OF assms] sanitize.only_removes [of h]
    sanitize.keeps_plain [of h] sanitize.leaves_paired [of h]
  by (simp add: balanced_ids_def)

theorem sanitizer_balances_counts_witness:
  "count_list (call_ids (history_parts (sanitizeToolPairs [call_msg ''a'', call_msg ''a'', resp_msg ''a'']))) ''a'' =
   count_list (resp_ids (history_parts (sanitizeToolPairs [call_msg ''a'', call_msg ''a'', resp_msg ''a'']))) ''a''"
  using sanitizer_balances_counts [of "[call_msg ''a'', call_msg ''a'', resp_msg ''a'']" "[]"]
  by (simp add: sample_msgs)

text \<open>
  In a history in which responses directly follow their calls, the adjusted boundary lies
  between the start and the given boundary, and no response on the kept side has lost its call.
\<close>

theorem boundary_keeps_pairs:
  assumes "responses_follow_calls h" "0 < b" "b < int (length h)"
  shows "0 \<le> AdjustBoundaryForToolPairs h b \<and> AdjustBoundaryForToolPairs h b \<le> b \<and>
    set (right_responses h (nat (AdjustBoundaryForToolPairs h b))) \<subseteq>
      set (right_calls h (nat (AdjustBoundaryForToolPairs h b)))"
proof -
  let ?a = "adjust_iterate 3 h (nat b)"
  have a: "starts_clean h ?a" "?a \<le> nat b"
    using adjust_iterate_clean [OF assms(1), of "nat b" 2] assms(2,3) by (simp_all add: numeral_3_eq_3)
  then have "\<not> length h < ?a" using assms(3) by linarith
  then have "AdjustBoundaryForToolPairs h b = int ?a"
    using assms(2,3) by (simp add: AdjustBoundaryForToolPairs_def Let_def)
  with a clean_start_no_orphans [OF assms(1) a(1)] assms(2) show ?thesis by simp
qed

theorem boundary_keeps_pairs_witness:
  "AdjustBoundaryForToolPairs [text_msg, call_msg ''a'', resp_msg ''a''] 2 \<le> 2"
  using boundary_keeps_pairs [of "[text_msg, call_msg ''a'', resp_msg ''a'']" 2]
  by (simp add: responses_follow_calls_def sample_msgs)

definition far_apart_history :: "unit history" where
  "far_apart_history = call_msg ''a'' # replicate 11 text_msg @ [resp_msg ''a'']"

text \<open>
  In general the promise is not kept. When a response is more than ten messages away from its
  call, the scan does not see the call, and the boundary stays between the two: the kept side has
  a response without its call.
\<close>

theorem boundary_can_split_a_pair:
  "AdjustBoundaryForToolPairs far_apart_history 11 = 11 \<and>
   ''a'' \<in> set (right_responses far_apart_history 11) \<and> ''a'' \<notin> set (right_calls far_apart_history 11)"
  by code_simp

end
