(* ===== verification/Version.thy ===== *)
theory Version
  imports GoFormat
begin

text \<open>
  \<open>internal/update/version.go\<close>: semantic versions of the self-updater. Parsing (the anchored regular
  expression as a deterministic scan), printing, comparison and the update decision.

  The contract of a three-way comparison is the locale \<open>comparator\<close>; it is interpreted on the
  integer, byte-string, prerelease and version comparisons of the code, each built from the
  previous ones, so that the update decision inherits irreflexivity, asymmetry and transitivity.
\<close>

section \<open>Parsing and printing\<close>

record version =
  v_Major :: int
  v_Minor :: int
  v_Patch :: int
  v_Prerelease :: string
  v_Build :: string
  v_Raw :: string

datatype version_error = ErrVersionParse | ErrVersionParseOf string

definition tag_char :: "char \<Rightarrow> bool" where
  "tag_char c \<longleftrightarrow>
     (let n = (of_char c :: nat)
      in (97 \<le> n \<and> n \<le> 122) \<or> (65 \<le> n \<and> n \<le> 90) \<or> (48 \<le> n \<and> n \<le> 57) \<or> n = 46)"

text \<open>One or more characters of a class, greedily; the classes end where the next token starts.\<close>

definition scan1 :: "(char \<Rightarrow> bool) \<Rightarrow> string \<Rightarrow> (string \<times> string) option" where
  "scan1 P s = (if takeWhile P s = [] then None else Some (takeWhile P s, dropWhile P s))"

definition expect :: "char \<Rightarrow> string \<Rightarrow> string option" where
  "expect c s = (case s of [] \<Rightarrow> None | x # xs \<Rightarrow> if x = c then Some xs else None)"

text \<open>An optional group: a marker and a tag, absent if the marker is.\<close>

definition scan_tag :: "char \<Rightarrow> string \<Rightarrow> (string \<times> string) option" where
  "scan_tag c s = (case expect c s of None \<Rightarrow> Some ([], s) | Some r \<Rightarrow> scan1 tag_char r)"

definition semver_match :: "string \<Rightarrow> (string \<times> string \<times> string \<times> string \<times> string) option" where
  "semver_match s =
     Option.bind (scan1 is_digit (case expect (CHR ''v'') s of None \<Rightarrow> s | Some r \<Rightarrow> r)) (\<lambda>(a, r).
     Option.bind (expect (CHR ''.'') r) (\<lambda>r.
     Option.bind (scan1 is_digit r) (\<lambda>(b, r).
     Option.bind (expect (CHR ''.'') r) (\<lambda>r.
     Option.bind (scan1 is_digit r) (\<lambda>(c, r).
     Option.bind (scan_tag (CHR ''-'') r) (\<lambda>(pre, r).
     Option.bind (scan_tag (CHR ''+'') r) (\<lambda>(build, r).
     if r = [] then Some (a, b, c, pre, build) else None)))))))"

definition ParseVersion :: "string \<Rightarrow> version_error + version" where
  "ParseVersion s0 =
     (let s = trim_space s0
      in if s = [] then Inl ErrVersionParse
         else case semver_match s of
           None \<Rightarrow> Inl (ErrVersionParseOf s)
         | Some (a, b, c, pre, build) \<Rightarrow>
             Inr \<lparr>v_Major = atoi_value (atoi a), v_Minor = atoi_value (atoi b), v_Patch = atoi_value (atoi c),
                  v_Prerelease = pre, v_Build = build, v_Raw = s\<rparr>)"

definition Version_String :: "version \<Rightarrow> string" where
  "Version_String v =
     show_int (v_Major v) @ ''.'' @ show_int (v_Minor v) @ ''.'' @ show_int (v_Patch v) @
     (if v_Prerelease v \<noteq> [] then ''-'' @ v_Prerelease v else []) @
     (if v_Build v \<noteq> [] then ''+'' @ v_Build v else [])"

definition IsPrerelease :: "version \<Rightarrow> bool" where
  "IsPrerelease v \<longleftrightarrow> v_Prerelease v \<noteq> []"

definition NormalizeVersion :: "string \<Rightarrow> string" where
  "NormalizeVersion s0 =
     (let s = trim_space s0 in if 0 < length s \<and> hd s = CHR ''v'' then drop 1 s else s)"

section \<open>Comparison\<close>

definition compareInts :: "int \<Rightarrow> int \<Rightarrow> int" where
  "compareInts a b = (if a < b then - 1 else if a > b then 1 else 0)"

text \<open>\<open>strings.Compare\<close>, byte by byte.\<close>

fun strings_Compare :: "string \<Rightarrow> string \<Rightarrow> int" where
  "strings_Compare [] [] = 0"
| "strings_Compare [] (_ # _) = - 1"
| "strings_Compare (_ # _) [] = 1"
| "strings_Compare (x # xs) (y # ys) =
     (if (of_char x :: nat) < of_char y then - 1
      else if (of_char y :: nat) < of_char x then 1 else strings_Compare xs ys)"

fun strings_Split :: "char \<Rightarrow> string \<Rightarrow> string list" where
  "strings_Split sep [] = [[]]"
| "strings_Split sep (c # cs) =
     (if c = sep then [] # strings_Split sep cs
      else case strings_Split sep cs of [] \<Rightarrow> [[c]] | p # ps \<Rightarrow> (c # p) # ps)"

definition compare_part :: "string \<Rightarrow> string \<Rightarrow> int" where
  "compare_part a b =
     (if a = [] \<and> b \<noteq> [] then - 1
      else if a \<noteq> [] \<and> b = [] then 1
      else if a = [] \<and> b = [] then 0
      else case (atoi a, atoi b) of
             (AtoiOk n, AtoiOk m) \<Rightarrow> if n \<noteq> m then compareInts n m else 0
           | (AtoiOk n, _) \<Rightarrow> - 1
           | (_, AtoiOk m) \<Rightarrow> 1
           | _ \<Rightarrow> strings_Compare a b)"

definition nth_part :: "string list \<Rightarrow> nat \<Rightarrow> string" where
  "nth_part ps i = (if i < length ps then ps ! i else [])"

fun compare_at :: "string list \<Rightarrow> string list \<Rightarrow> nat list \<Rightarrow> int" where
  "compare_at as bs [] = 0"
| "compare_at as bs (i # is) =
     (let r = compare_part (nth_part as i) (nth_part bs i) in if r \<noteq> 0 then r else compare_at as bs is)"

definition comparePrerelease :: "string \<Rightarrow> string \<Rightarrow> int" where
  "comparePrerelease a b =
     (let as = strings_Split (CHR ''.'') a; bs = strings_Split (CHR ''.'') b
      in compare_at as bs [0..<max (length as) (length bs)])"

definition Version_Compare :: "version \<Rightarrow> version option \<Rightarrow> int" where
  "Version_Compare v other =
     (case other of
        None \<Rightarrow> 1
      | Some w \<Rightarrow>
          if v_Major v \<noteq> v_Major w then compareInts (v_Major v) (v_Major w)
          else if v_Minor v \<noteq> v_Minor w then compareInts (v_Minor v) (v_Minor w)
          else if v_Patch v \<noteq> v_Patch w then compareInts (v_Patch v) (v_Patch w)
          else if v_Prerelease v = [] \<and> v_Prerelease w = [] then 0
          else if v_Prerelease v = [] then 1
          else if v_Prerelease w = [] then - 1
          else comparePrerelease (v_Prerelease v) (v_Prerelease w))"

definition LessThan :: "version \<Rightarrow> version option \<Rightarrow> bool" where
  "LessThan v w \<longleftrightarrow> Version_Compare v w < 0"

definition GreaterThan :: "version \<Rightarrow> version option \<Rightarrow> bool" where
  "GreaterThan v w \<longleftrightarrow> Version_Compare v w > 0"

definition Version_Equal :: "version \<Rightarrow> version option \<Rightarrow> bool" where
  "Version_Equal v w \<longleftrightarrow> Version_Compare v w = 0"

definition IsNewerVersion :: "string \<Rightarrow> string \<Rightarrow> bool" where
  "IsNewerVersion newVer currentVer =
     (case ParseVersion newVer of
        Inl _ \<Rightarrow> False
      | Inr n \<Rightarrow> (case ParseVersion currentVer of Inl _ \<Rightarrow> False | Inr c \<Rightarrow> GreaterThan n (Some c)))"

definition CompareVersionStrings :: "string \<Rightarrow> string \<Rightarrow> int" where
  "CompareVersionStrings a b =
     (case (ParseVersion a, ParseVersion b) of
        (Inr v, Inr w) \<Rightarrow> Version_Compare v (Some w)
      | _ \<Rightarrow> 0)"

section \<open>The contract of a comparison\<close>

locale comparator =
  fixes cmp :: "'a \<Rightarrow> 'a \<Rightarrow> int"
  assumes three_way: "cmp a b \<in> {- 1, 0, 1}"
    and swapped: "cmp b a = - cmp a b"
    and le_trans: "cmp a b \<le> 0 \<Longrightarrow> cmp b c \<le> 0 \<Longrightarrow> cmp a c \<le> 0"
begin

lemma same: "cmp a a = 0"
  using swapped [of a a] by simp

lemma asym: "0 < cmp a b \<longleftrightarrow> cmp b a < 0"
  using swapped [of a b] by auto

lemma less_trans: "cmp a b < 0 \<Longrightarrow> cmp b c \<le> 0 \<Longrightarrow> cmp a c < 0"
  using le_trans [of a b c] le_trans [of c a b] swapped [of a b] swapped [of a c] swapped [of b c]
    le_trans [of b c a]
  by linarith

lemma greater_trans: "0 < cmp a b \<Longrightarrow> 0 < cmp b c \<Longrightarrow> 0 < cmp a c"
  using less_trans [of c b a] swapped [of a b] swapped [of b c] swapped [of a c] by linarith

lemma equal_cong: "cmp a b = 0 \<Longrightarrow> cmp a c = cmp b c"
  using le_trans [of a b c] le_trans [of b a c] le_trans [of c a b] le_trans [of c b a]
    swapped [of a b] swapped [of a c] swapped [of b c] three_way [of a c] three_way [of b c]
  by auto

end

text \<open>Comparing first one view of a value and then another is a comparison again.\<close>

lemma lex_comparator:
  assumes "comparator ca" "comparator cb"
  shows "comparator (\<lambda>a b. if ca (f a) (f b) \<noteq> 0 then ca (f a) (f b) else cb (g a) (g b))"
proof
  fix a b c
  let ?l = "\<lambda>a b. if ca (f a) (f b) \<noteq> 0 then ca (f a) (f b) else cb (g a) (g b)"
  note ca = comparator.swapped [OF assms(1)] and cb = comparator.swapped [OF assms(2)]
  show "?l a b \<in> {- 1, 0, 1}"
    using comparator.three_way [OF assms(1), of "f a" "f b"] comparator.three_way [OF assms(2), of "g a" "g b"] by auto
  show "?l b a = - ?l a b"
    using ca [of "f b" "f a"] cb [of "g b" "g a"] by simp
  assume le: "?l a b \<le> 0" "?l b c \<le> 0"
  have bc: "ca (f b) (f c) \<le> 0" using le(2) by (auto split: if_splits)
  show "?l a c \<le> 0"
  proof (cases "ca (f a) (f b) = 0")
    case True
    then have "ca (f a) (f c) = ca (f b) (f c)" by (rule comparator.equal_cong [OF assms(1)])
    then show ?thesis
      using le True comparator.le_trans [OF assms(2), of "g a" "g b" "g c"] by (auto split: if_splits)
  next
    case False
    then have "ca (f a) (f b) < 0" using le(1) by simp
    then have "ca (f a) (f c) < 0" using bc by (rule comparator.less_trans [OF assms(1)])
    then show ?thesis by simp
  qed
qed

interpretation ints: comparator compareInts
  by unfold_locales (auto simp: compareInts_def split: if_splits)

lemma strings_Compare_swapped: "strings_Compare b a = - strings_Compare a b"
  by (induction a b rule: strings_Compare.induct) auto

lemma strings_Compare_trans: "strings_Compare a b \<le> 0 \<Longrightarrow> strings_Compare b c \<le> 0 \<Longrightarrow> strings_Compare a c \<le> 0"
proof (induction a b arbitrary: c rule: strings_Compare.induct)
  case (4 x xs y ys)
  show ?case
  proof (cases c)
    case (Cons z zs)
    let ?n = "\<lambda>ch. of_char ch :: nat"
    have xy: "?n x < ?n y \<or> (?n x = ?n y \<and> strings_Compare xs ys \<le> 0)"
      and yz: "?n y < ?n z \<or> (?n y = ?n z \<and> strings_Compare ys zs \<le> 0)"
      using "4.prems" Cons by (simp_all split: if_splits)
    show ?thesis
    proof (cases "?n x < ?n z")
      case False
      then have eq: "?n x = ?n y" "?n y = ?n z" using xy yz by linarith+
      then have "strings_Compare xs zs \<le> 0" using "4.IH" xy yz by simp
      then show ?thesis using eq Cons by simp
    qed (simp add: Cons)
  qed (use "4.prems"(2) in simp)
next
  case (2 y ys)
  then show ?case by (cases c) auto
qed auto

interpretation strs: comparator strings_Compare
proof unfold_locales
  show "strings_Compare a b \<in> {- 1, 0, 1}" for a b
    by (induction a b rule: strings_Compare.induct) auto
qed (fact strings_Compare_swapped strings_Compare_trans)+

text \<open>A prerelease part as a sort key: absent, then numbers, then words.\<close>

definition part_key :: "string \<Rightarrow> int \<times> int \<times> string" where
  "part_key a =
     (if a = [] then (0, 0, [])
      else case atoi a of AtoiOk n \<Rightarrow> (1, n, []) | _ \<Rightarrow> (2, 0, a))"

lemma compare_part_key:
  "compare_part a b =
     (let ka = part_key a; kb = part_key b
      in if compareInts (fst ka) (fst kb) \<noteq> 0 then compareInts (fst ka) (fst kb)
         else if compareInts (fst (snd ka)) (fst (snd kb)) \<noteq> 0 then compareInts (fst (snd ka)) (fst (snd kb))
         else strings_Compare (snd (snd ka)) (snd (snd kb)))"
  by (auto simp: compare_part_def part_key_def compareInts_def Let_def split: atoi_result.splits)

interpretation part: comparator compare_part
proof -
  have "comparator (\<lambda>a b. if compareInts (fst (part_key a)) (fst (part_key b)) \<noteq> 0
      then compareInts (fst (part_key a)) (fst (part_key b))
      else if compareInts (fst (snd (part_key a))) (fst (snd (part_key b))) \<noteq> 0
           then compareInts (fst (snd (part_key a))) (fst (snd (part_key b)))
           else strings_Compare (snd (snd (part_key a))) (snd (snd (part_key b))))"
    by (rule lex_comparator [where ca = compareInts and f = "\<lambda>a. fst (part_key a)" and g = "\<lambda>a. a" and
          cb = "\<lambda>a b. if compareInts (fst (snd (part_key a))) (fst (snd (part_key b))) \<noteq> 0
           then compareInts (fst (snd (part_key a))) (fst (snd (part_key b)))
           else strings_Compare (snd (snd (part_key a))) (snd (snd (part_key b)))"])
       (rule ints.comparator_axioms, rule lex_comparator [where f = "\<lambda>a. fst (snd (part_key a))" and
          g = "\<lambda>a. snd (snd (part_key a))"], rule ints.comparator_axioms, rule strs.comparator_axioms)
  then show "comparator compare_part"
    by (simp add: compare_part_key [abs_def] Let_def)
qed

text \<open>Comparing beyond the length of both part lists makes no difference.\<close>

lemma nth_part_beyond: "length ps \<le> i \<Longrightarrow> nth_part ps i = []"
  by (simp add: nth_part_def)

lemma compare_at_append:
  "compare_at as bs (is @ js) = (if compare_at as bs is \<noteq> 0 then compare_at as bs is else compare_at as bs js)"
  by (induction as bs "is" rule: compare_at.induct) (auto simp: Let_def)

lemma compare_at_beyond:
  "(\<And>i. i \<in> set is \<Longrightarrow> length as \<le> i \<and> length bs \<le> i) \<Longrightarrow> compare_at as bs is = 0"
  by (induction as bs "is" rule: compare_at.induct) (auto simp: Let_def nth_part_beyond compare_part_def)

lemma compare_at_extend:
  assumes "max (length as) (length bs) \<le> n"
  shows "compare_at as bs [0..<n] = compare_at as bs [0..<max (length as) (length bs)]"
proof -
  have "[0..<n] = [0..<max (length as) (length bs)] @ [max (length as) (length bs)..<n]"
    using upt_add_eq_append [of 0 "max (length as) (length bs)" "n - max (length as) (length bs)"] assms by simp
  then show ?thesis using compare_at_beyond [of "[max (length as) (length bs)..<n]" as bs]
    by (simp add: compare_at_append)
qed

lemma compare_at_comparator: "comparator (\<lambda>as bs. compare_at as bs is)"
proof (induction "is")
  case Nil
  show ?case by unfold_locales simp_all
next
  case (Cons i js)
  from lex_comparator [OF part.comparator_axioms this, of "\<lambda>ps. nth_part ps i" "\<lambda>ps. ps"]
  show ?case by (simp add: Let_def)
qed

interpretation prerelease: comparator comparePrerelease
proof -
  let ?sp = "strings_Split (CHR ''.'')"
  have wide: "comparePrerelease a b = compare_at (?sp a) (?sp b) [0..<n]"
    if "length (?sp a) \<le> n" "length (?sp b) \<le> n" for a b n
    using compare_at_extend [of "?sp a" "?sp b" n] that by (simp add: comparePrerelease_def Let_def)
  show "comparator comparePrerelease"
  proof
    fix a b c
    let ?n = "length (?sp a) + length (?sp b) + length (?sp c)"
    have eqs: "comparePrerelease a b = compare_at (?sp a) (?sp b) [0..<?n]"
      "comparePrerelease b a = compare_at (?sp b) (?sp a) [0..<?n]"
      "comparePrerelease b c = compare_at (?sp b) (?sp c) [0..<?n]"
      "comparePrerelease a c = compare_at (?sp a) (?sp c) [0..<?n]"
      by (rule wide; simp)+
    note cmp = compare_at_comparator [of "[0..<?n]"]
    show "comparePrerelease a b \<in> {- 1, 0, 1}" "comparePrerelease b a = - comparePrerelease a b"
      unfolding eqs by (rule comparator.three_way [OF cmp], rule comparator.swapped [OF cmp])
    show "comparePrerelease a b \<le> 0 \<Longrightarrow> comparePrerelease b c \<le> 0 \<Longrightarrow> comparePrerelease a c \<le> 0"
      unfolding eqs by (rule comparator.le_trans [OF cmp])
  qed
qed

text \<open>A release comes after all of its prereleases.\<close>

definition compare_release :: "string \<Rightarrow> string \<Rightarrow> int" where
  "compare_release a b =
     (if a = [] \<and> b = [] then 0 else if a = [] then 1 else if b = [] then - 1 else comparePrerelease a b)"

interpretation release: comparator compare_release
proof
  show "compare_release a b \<in> {- 1, 0, 1}" for a b
    using prerelease.three_way [of a b] by (simp add: compare_release_def)
  show "compare_release b a = - compare_release a b" for a b
    using prerelease.swapped [of b a] by (simp add: compare_release_def)
  show "compare_release a b \<le> 0 \<Longrightarrow> compare_release b c \<le> 0 \<Longrightarrow> compare_release a c \<le> 0" for a b c
    using prerelease.le_trans [of a b c] by (auto simp: compare_release_def split: if_splits)
qed

lemma Version_Compare_lex:
  "Version_Compare v (Some w) =
     (if compareInts (v_Major v) (v_Major w) \<noteq> 0 then compareInts (v_Major v) (v_Major w)
      else if compareInts (v_Minor v) (v_Minor w) \<noteq> 0 then compareInts (v_Minor v) (v_Minor w)
      else if compareInts (v_Patch v) (v_Patch w) \<noteq> 0 then compareInts (v_Patch v) (v_Patch w)
      else compare_release (v_Prerelease v) (v_Prerelease w))"
  by (auto simp: Version_Compare_def compareInts_def compare_release_def)

interpretation vers: comparator "\<lambda>v w. Version_Compare v (Some w)"
  unfolding Version_Compare_lex
  by (intro lex_comparator [where g = "\<lambda>v. v" and f = v_Major] lex_comparator [where g = "\<lambda>v. v" and f = v_Minor]
      lex_comparator [where g = v_Prerelease and f = v_Patch] ints.comparator_axioms release.comparator_axioms)

section \<open>Round trip\<close>

definition valid_version :: "version \<Rightarrow> bool" where
  "valid_version v \<longleftrightarrow>
     list_all (\<lambda>n. 0 \<le> n \<and> n \<le> max_int64) [v_Major v, v_Minor v, v_Patch v] \<and>
     list_all tag_char (v_Prerelease v) \<and> list_all tag_char (v_Build v)"

lemma scan1_append:
  "xs \<noteq> [] \<Longrightarrow> list_all P xs \<Longrightarrow> (case ys of [] \<Rightarrow> True | y # _ \<Rightarrow> \<not> P y) \<Longrightarrow> scan1 P (xs @ ys) = Some (xs, ys)"
proof -
  assume xs: "xs \<noteq> []" "list_all P xs" and ys: "case ys of [] \<Rightarrow> True | y # _ \<Rightarrow> \<not> P y"
  have "takeWhile P (xs @ ys) = xs" "dropWhile P (xs @ ys) = ys"
    using xs(2) ys by (cases ys; simp add: takeWhile_append dropWhile_append list_all_iff)+
  with xs(1) show ?thesis by (simp add: scan1_def)
qed

lemma show_int_digits: "0 \<le> n \<Longrightarrow> list_all is_digit (show_int n) \<and> show_int n \<noteq> []"
  using show_nat_digits [of "nat n"] by (simp add: show_int_def list_all_iff)

lemma atoi_show_int: "0 \<le> n \<Longrightarrow> n \<le> max_int64 \<Longrightarrow> atoi_value (atoi (show_int n)) = n"
  using atoi_show_nat [of "nat n"] by (simp add: show_int_def atoi_value_def)

lemma marker_chars:
  "\<not> is_digit (CHR ''.'')" "\<not> is_digit (CHR ''-'')" "\<not> is_digit (CHR ''+'')" "\<not> tag_char (CHR ''+'')"
  "\<not> is_digit (CHR ''v'')"
  by (simp_all add: is_digit_def tag_char_def)

lemma scan_tag_present:
  "t \<noteq> [] \<Longrightarrow> list_all tag_char t \<Longrightarrow> (case ys of [] \<Rightarrow> True | y # _ \<Rightarrow> \<not> tag_char y) \<Longrightarrow>
   scan_tag c (c # t @ ys) = Some (t, ys)"
  by (simp add: scan_tag_def expect_def scan1_append)

lemma scan_tag_absent: "(case ys of [] \<Rightarrow> True | y # _ \<Rightarrow> y \<noteq> c) \<Longrightarrow> scan_tag c ys = Some ([], ys)"
  by (cases ys) (simp_all add: scan_tag_def expect_def)

definition version_tail :: "version \<Rightarrow> string" where
  "version_tail v = (if v_Build v \<noteq> [] then ''+'' @ v_Build v else [])"

lemma scan_tags:
  assumes "list_all tag_char (v_Prerelease v)" "list_all tag_char (v_Build v)"
  shows "scan_tag (CHR ''-'') ((if v_Prerelease v \<noteq> [] then ''-'' @ v_Prerelease v else []) @ version_tail v) =
      Some (v_Prerelease v, version_tail v)"
    and "scan_tag (CHR ''+'') (version_tail v) = Some (v_Build v, [])"
proof -
  have "scan_tag (CHR ''+'') (CHR ''+'' # v_Build v @ []) = Some (v_Build v, [])" if "v_Build v \<noteq> []"
    using that assms(2) by (intro scan_tag_present) simp_all
  then show "scan_tag (CHR ''+'') (version_tail v) = Some (v_Build v, [])"
    by (simp add: version_tail_def scan_tag_absent)
  show "scan_tag (CHR ''-'') ((if v_Prerelease v \<noteq> [] then ''-'' @ v_Prerelease v else []) @ version_tail v) =
      Some (v_Prerelease v, version_tail v)"
  proof (cases "v_Prerelease v = []")
    case True
    then show ?thesis by (auto simp: version_tail_def intro!: scan_tag_absent)
  next
    case False
    then have "scan_tag (CHR ''-'') (CHR ''-'' # v_Prerelease v @ version_tail v) = Some (v_Prerelease v, version_tail v)"
      using assms(1) by (intro scan_tag_present) (simp_all add: version_tail_def marker_chars)
    with False show ?thesis by simp
  qed
qed

lemma digits_then:
  "0 \<le> n \<Longrightarrow> (case ys of [] \<Rightarrow> True | y # _ \<Rightarrow> \<not> is_digit y) \<Longrightarrow> scan1 is_digit (show_int n @ ys) = Some (show_int n, ys)"
  using show_int_digits [of n] by (intro scan1_append) simp_all

lemma semver_printed:
  assumes "valid_version v"
  shows "semver_match (Version_String v) =
    Some (show_int (v_Major v), show_int (v_Minor v), show_int (v_Patch v), v_Prerelease v, v_Build v)"
    and "semver_match (''v'' @ Version_String v) =
    Some (show_int (v_Major v), show_int (v_Minor v), show_int (v_Patch v), v_Prerelease v, v_Build v)"
proof -
  let ?tags = "(if v_Prerelease v \<noteq> [] then ''-'' @ v_Prerelease v else []) @ version_tail v"
  have n: "0 \<le> v_Major v" "0 \<le> v_Minor v" "0 \<le> v_Patch v"
    and t: "list_all tag_char (v_Prerelease v)" "list_all tag_char (v_Build v)"
    using assms by (auto simp: valid_version_def)
  have s: "Version_String v = show_int (v_Major v) @ ''.'' @ show_int (v_Minor v) @ ''.'' @ show_int (v_Patch v) @ ?tags"
    by (simp add: Version_String_def version_tail_def)
  have first: "expect (CHR ''v'') (Version_String v) = None"
    using show_int_digits [OF n(1)] marker_chars(5)
    by (cases "show_int (v_Major v)") (auto simp: s expect_def)
  have last: "scan1 is_digit (show_int (v_Patch v) @ ?tags) = Some (show_int (v_Patch v), ?tags)"
    using n(3) by (rule digits_then) (auto simp: version_tail_def marker_chars)
  have rest: "Option.bind (scan1 is_digit (Version_String v)) (\<lambda>(a, r).
     Option.bind (expect (CHR ''.'') r) (\<lambda>r.
     Option.bind (scan1 is_digit r) (\<lambda>(b, r).
     Option.bind (expect (CHR ''.'') r) (\<lambda>r.
     Option.bind (scan1 is_digit r) (\<lambda>(c, r).
     Option.bind (scan_tag (CHR ''-'') r) (\<lambda>(pre, r).
     Option.bind (scan_tag (CHR ''+'') r) (\<lambda>(build, r).
     if r = [] then Some (a, b, c, pre, build) else None))))))) =
    Some (show_int (v_Major v), show_int (v_Minor v), show_int (v_Patch v), v_Prerelease v, v_Build v)"
    unfolding s using last scan_tags [OF t]
    by (simp add: digits_then [OF n(1)] digits_then [OF n(2)] marker_chars expect_def)
  show "semver_match (Version_String v) =
    Some (show_int (v_Major v), show_int (v_Minor v), show_int (v_Patch v), v_Prerelease v, v_Build v)"
    unfolding semver_match_def first option.case by (rule rest)
  show "semver_match (''v'' @ Version_String v) =
    Some (show_int (v_Major v), show_int (v_Minor v), show_int (v_Patch v), v_Prerelease v, v_Build v)"
    unfolding semver_match_def using rest by (simp add: expect_def)
qed

lemma tag_char_printable: "tag_char c \<or> is_digit c \<or> c \<in> {CHR ''.'', CHR ''-'', CHR ''+'', CHR ''v''} \<Longrightarrow> printable c"
  by (auto simp: tag_char_def is_digit_def printable_def Let_def)

lemma printed_printable:
  assumes "valid_version v" shows "list_all printable (''v'' @ Version_String v)"
proof -
  have "0 \<le> v_Major v" "0 \<le> v_Minor v" "0 \<le> v_Patch v"
    and t: "list_all tag_char (v_Prerelease v)" "list_all tag_char (v_Build v)"
    using assms by (auto simp: valid_version_def)
  note d = this(1-3) [THEN show_int_digits]
  show ?thesis
    using d t by (auto simp: Version_String_def list_all_iff intro!: tag_char_printable)
qed

lemma version_nonempty: "Version_String v \<noteq> []"
  by (simp add: Version_String_def)

lemma all_printable_trim: "list_all printable s \<Longrightarrow> s \<noteq> [] \<Longrightarrow> trim_space s = s"
  by (intro trim_space_printable) (simp_all add: list_all_iff)

section \<open>Properties\<close>

text \<open>
  Printing and parsing versions are inverse: the text of a version with non-negative 64-bit
  numbers and tags made of letters, digits and dots parses back, with or without the leading v, to
  the same version (with the text as its raw form).
\<close>

theorem version_round_trip:
  assumes "valid_version v"
  shows "ParseVersion (Version_String v) = Inr (v\<lparr>v_Raw := Version_String v\<rparr>) \<and>
    ParseVersion (''v'' @ Version_String v) = Inr (v\<lparr>v_Raw := ''v'' @ Version_String v\<rparr>) \<and>
    NormalizeVersion (''v'' @ Version_String v) = Version_String v"
proof -
  have p: "list_all printable (''v'' @ Version_String v)" by (rule printed_printable [OF assms])
  have t: "trim_space (Version_String v) = Version_String v"
    "trim_space (''v'' @ Version_String v) = ''v'' @ Version_String v"
    using p version_nonempty [of v] by (auto intro!: all_printable_trim)
  have n: "atoi_value (atoi (show_int (v_Major v))) = v_Major v" "atoi_value (atoi (show_int (v_Minor v))) = v_Minor v"
    "atoi_value (atoi (show_int (v_Patch v))) = v_Patch v"
    using assms by (auto simp: valid_version_def intro!: atoi_show_int)
  show ?thesis
    unfolding ParseVersion_def NormalizeVersion_def t Let_def semver_printed [OF assms]
    using version_nonempty [of v] n by (simp add: version.defs)
qed

lemma sample_digits:
  "char_of (49 :: nat) = CHR ''1''" "char_of (50 :: nat) = CHR ''2''" "char_of (51 :: nat) = CHR ''3''"
  by code_simp+

theorem version_round_trip_witness:
  "ParseVersion ''1.2.3-rc.1'' =
     Inr \<lparr>v_Major = 1, v_Minor = 2, v_Patch = 3, v_Prerelease = ''rc.1'', v_Build = [], v_Raw = ''1.2.3-rc.1''\<rparr>"
  using version_round_trip [of "\<lparr>v_Major = 1, v_Minor = 2, v_Patch = 3, v_Prerelease = ''rc.1'', v_Build = [], v_Raw = []\<rparr>"]
  by (simp add: valid_version_def max_int64_def tag_char_def Version_String_def show_int_def show_nat.simps digit_char_def
      sample_digits)

text \<open>
  Version comparison is a total preorder: three-valued, antisymmetric under swapping,
  transitive, and versions that compare equal are interchangeable on either side.
\<close>

theorem version_compare_total_preorder:
  "Version_Compare a (Some b) \<in> {- 1, 0, 1} \<and>
   Version_Compare b (Some a) = - Version_Compare a (Some b) \<and>
   (Version_Compare a (Some b) \<le> 0 \<longrightarrow> Version_Compare b (Some c) \<le> 0 \<longrightarrow> Version_Compare a (Some c) \<le> 0) \<and>
   (Version_Equal a (Some b) \<longrightarrow> Version_Compare a (Some c) = Version_Compare b (Some c))"
  using vers.three_way [of a b] vers.swapped [of b a] vers.le_trans [of a b c] vers.equal_cong [of a b c]
  by (auto simp: Version_Equal_def)

definition plain_version :: "int \<Rightarrow> version" where
  "plain_version n = \<lparr>v_Major = n, v_Minor = 0, v_Patch = 0, v_Prerelease = [], v_Build = [], v_Raw = []\<rparr>"

theorem version_compare_total_preorder_witness:
  "Version_Compare (plain_version 1) (Some (plain_version 3)) \<le> 0"
  using version_compare_total_preorder [of "plain_version 1" "plain_version 2" "plain_version 3"]
  by (simp add: Version_Compare_def plain_version_def compareInts_def)

text \<open>
  The update decision cannot cycle: no version string is newer than itself, two strings are
  never both newer than the other, and "newer" is transitive, so that following updates always
  makes progress.
\<close>

theorem newer_is_a_strict_order:
  "\<not> IsNewerVersion a a \<and>
   \<not> (IsNewerVersion a b \<and> IsNewerVersion b a) \<and>
   (IsNewerVersion a b \<longrightarrow> IsNewerVersion b c \<longrightarrow> IsNewerVersion a c)"
proof -
  have iff: "IsNewerVersion x y \<longleftrightarrow>
      (\<exists>v w. ParseVersion x = Inr v \<and> ParseVersion y = Inr w \<and> 0 < Version_Compare v (Some w))" for x y
    by (auto simp: IsNewerVersion_def GreaterThan_def split: sum.splits)
  have "\<not> IsNewerVersion a a" by (auto simp: iff vers.same)
  moreover have "\<not> (IsNewerVersion a b \<and> IsNewerVersion b a)" using vers.asym by (auto simp: iff) (metis not_less_iff_gr_or_eq)
  moreover have "IsNewerVersion a b \<longrightarrow> IsNewerVersion b c \<longrightarrow> IsNewerVersion a c"
    using vers.greater_trans by (auto simp: iff)
  ultimately show ?thesis by blast
qed

theorem newer_is_a_strict_order_witness: "\<not> IsNewerVersion ''1.0.0'' ''1.0.0''"
  using newer_is_a_strict_order [of "''1.0.0''" "''1.0.0''" "''1.0.0''"] by blast

end
