(* ===== verification/GoInt.thy ===== *)
theory GoInt
  imports Prelude "HOL-Library.Word"
begin

text \<open>Signed 64-bit arithmetic of Go: the value an \<open>int64\<close> keeps of an integer.\<close>

definition wrap64 :: "int \<Rightarrow> int" where
  "wrap64 x = sint (word_of_int x :: 64 word)"

lemma wrap64_id: "- (2 ^ 63) \<le> x \<Longrightarrow> x < 2 ^ 63 \<Longrightarrow> wrap64 x = x"
  using signed_take_bit_int_eq_self [of 63 x] by (simp add: wrap64_def sint_sbintrunc')

end
