(* ===== verification/ErrorPolicy.thy ===== *)
theory ErrorPolicy
  imports GoFormat GoInt
begin

text \<open>
  How failures of the model providers are classified and retried: \<open>internal/client/errors.go\<close>,
  \<open>internal/client/overload.go\<close>, the retry policies and the backoff of
  \<open>internal/client/retry.go\<close>, and \<open>ClassifyError\<close> of \<open>internal/plan/plan.go\<close>.

  A Go error is its text and its chain of wrapped layers from the outside in, which is what
  \<open>errors.Is\<close> and \<open>errors.As\<close> walk; a nil error is \<open>None\<close>. The types the code distinguishes are the
  constructors of \<open>err_layer\<close>; \<open>LOther\<close> is any other error. \<open>LNet\<close> is a foreign error with the
  interface \<open>net.Error\<close>, which \<open>context.DeadlineExceeded\<close> has too.

  The random jitter of the backoff is an argument with the documented range of \<open>rand.Int63n\<close>.
\<close>

section \<open>Errors\<close>

datatype err_layer =
    LOther
  | LCanceled
  | LDeadlineExceeded
  | LNet bool
  | LAPI int string
  | LHTTP int string
  | LTerminal
  | LDegenerate bool
  | LStreamIdle duration bool
  | LTimeout string string duration
  | LModelRoundTimeout
  | LEmptyResponse
  | LPartial

record go_error =
  e_text :: string
  e_chain :: "err_layer list"

type_synonym error_value = "go_error option"

definition errors_New :: "string \<Rightarrow> go_error" where
  "errors_New msg = \<lparr>e_text = msg, e_chain = [LOther]\<rparr>"

definition err_is :: "go_error \<Rightarrow> err_layer \<Rightarrow> bool" where
  "err_is e l \<longleftrightarrow> l \<in> set (e_chain e)"

text \<open>\<open>errors.As\<close>: the first layer the selector accepts.\<close>

fun first_layer :: "(err_layer \<Rightarrow> 'a option) \<Rightarrow> err_layer list \<Rightarrow> 'a option" where
  "first_layer f [] = None"
| "first_layer f (l # ls) = (case f l of Some x \<Rightarrow> Some x | None \<Rightarrow> first_layer f ls)"

definition err_as :: "go_error \<Rightarrow> (err_layer \<Rightarrow> 'a option) \<Rightarrow> 'a option" where
  "err_as e f = first_layer f (e_chain e)"

definition as_net :: "err_layer \<Rightarrow> bool option" where
  "as_net l = (case l of LNet t \<Rightarrow> Some t | LDeadlineExceeded \<Rightarrow> Some True | _ \<Rightarrow> None)"

definition as_api :: "err_layer \<Rightarrow> (int \<times> string) option" where
  "as_api l = (case l of LAPI s m \<Rightarrow> Some (s, m) | _ \<Rightarrow> None)"

definition as_http :: "err_layer \<Rightarrow> (int \<times> string) option" where
  "as_http l = (case l of LHTTP s m \<Rightarrow> Some (s, m) | _ \<Rightarrow> None)"

definition as_degenerate :: "err_layer \<Rightarrow> bool option" where
  "as_degenerate l = (case l of LDegenerate x \<Rightarrow> Some x | _ \<Rightarrow> None)"

definition as_stream_idle :: "err_layer \<Rightarrow> (duration \<times> bool) option" where
  "as_stream_idle l = (case l of LStreamIdle t p \<Rightarrow> Some (t, p) | _ \<Rightarrow> None)"

definition as_timeout :: "err_layer \<Rightarrow> (string \<times> string \<times> duration) option" where
  "as_timeout l = (case l of LTimeout r p t \<Rightarrow> Some (r, p, t) | _ \<Rightarrow> None)"

definition lower_text :: "go_error \<Rightarrow> string" where
  "lower_text e = to_lower (e_text e)"

definition contains_any :: "string \<Rightarrow> string list \<Rightarrow> bool" where
  "contains_any s ps \<longleftrightarrow> list_ex (contains s) ps"

section \<open>Case-insensitive search\<close>

text \<open>\<open>containsLower\<close>, \<open>containsFold\<close>, \<open>equalFold\<close>: byte-wise ASCII folding.\<close>

definition fold_byte :: "char \<Rightarrow> char" where
  "fold_byte c =
     (if 65 \<le> (of_char c :: nat) \<and> (of_char c :: nat) \<le> 90 then char_of ((of_char c :: nat) + 32) else c)"

definition equalFold :: "string \<Rightarrow> string \<Rightarrow> bool" where
  "equalFold a b \<longleftrightarrow> list_all (\<lambda>i. fold_byte (a ! i) = fold_byte (b ! i)) [0..<length a]"

definition containsFold :: "string \<Rightarrow> string \<Rightarrow> bool" where
  "containsFold s sub =
     (if length sub = 0 then True
      else list_ex (\<lambda>i. equalFold (take (length sub) (drop i s)) sub) [0..<Suc (length s) - length sub])"

definition containsLower :: "string \<Rightarrow> string \<Rightarrow> bool" where
  "containsLower s sub \<longleftrightarrow> length sub \<le> length s \<and> containsFold s sub"

section \<open>Classification\<close>

definition IsStreamIdleTimeout :: "go_error \<Rightarrow> bool" where
  "IsStreamIdleTimeout e \<longleftrightarrow> err_as e as_stream_idle \<noteq> None"

definition IsTerminalProviderError :: "go_error \<Rightarrow> bool" where
  "IsTerminalProviderError e \<longleftrightarrow> err_is e LTerminal"

definition OutputRecoveryError :: "go_error \<Rightarrow> bool option" where
  "OutputRecoveryError e = err_as e as_degenerate"

definition overload_words :: "string list" where
  "overload_words = [''overloaded'', ''rate limit'', ''rate_limit'', ''too many requests'']"

definition IsOverloadError :: "error_value \<Rightarrow> bool" where
  "IsOverloadError err =
     (case err of
        None \<Rightarrow> False
      | Some e \<Rightarrow>
          if OutputRecoveryError e \<noteq> None then False
          else if IsTerminalProviderError e then False
          else contains_any (lower_text e) overload_words)"

definition network_words :: "string list" where
  "network_words = [''connection refused'', ''connection reset'', ''no such host'', ''service unavailable'',
     ''bad gateway'', ''temporarily'']"

definition IsTransientProviderError :: "error_value \<Rightarrow> bool" where
  "IsTransientProviderError err =
     (case err of
        None \<Rightarrow> False
      | Some e \<Rightarrow> IsOverloadError err \<or> contains_any (lower_text e) network_words)"

definition http_timeout_words :: "string list" where
  "http_timeout_words = [''client.timeout exceeded'', ''timeout awaiting response headers'',
     ''response header timeout'', ''awaiting headers'', ''i/o timeout'', ''tls handshake timeout'', ''http timeout'']"

definition isLikelyHTTPTimeout :: "go_error \<Rightarrow> bool" where
  "isLikelyHTTPTimeout e =
     (if err_is e LModelRoundTimeout \<or> IsStreamIdleTimeout e \<or> err_is e LCanceled then False
      else if err_as e as_net = Some True then True
      else if err_is e LDeadlineExceeded then True
      else contains_any (lower_text e) http_timeout_words)"

definition IsHTTPTimeout :: "go_error \<Rightarrow> bool" where
  "IsHTTPTimeout e =
     (case err_as e as_timeout of
        Some (reason, _, _) \<Rightarrow> reason = ''http_timeout''
      | None \<Rightarrow> isLikelyHTTPTimeout e)"

definition isRetryableHTTPStatusCode :: "int \<Rightarrow> bool" where
  "isRetryableHTTPStatusCode code \<longleftrightarrow> code \<in> {429, 500, 502, 503, 504, 529}"

definition IsRetryableAPIError :: "go_error \<Rightarrow> bool" where
  "IsRetryableAPIError e \<longleftrightarrow>
     (case err_as e as_api of Some (s, _) \<Rightarrow> isRetryableHTTPStatusCode s | None \<Rightarrow> False) \<or>
     (case err_as e as_http of
        Some (s, m) \<Rightarrow>
          isRetryableHTTPStatusCode s \<or>
          (s = 400 \<and> contains_any (to_lower m) [''model_not_found'', ''model not found''])
      | None \<Rightarrow> False)"

definition IsRateLimitError :: "error_value \<Rightarrow> bool" where
  "IsRateLimitError err =
     (case err of
        None \<Rightarrow> False
      | Some e \<Rightarrow>
          if OutputRecoveryError e \<noteq> None then False
          else (case err_as e as_api of Some (s, _) \<Rightarrow> s = 429 | None \<Rightarrow> False) \<or>
               (case err_as e as_http of Some (s, _) \<Rightarrow> s = 429 | None \<Rightarrow> False) \<or>
               containsLower (e_text e) ''rate limit'' \<or> containsLower (e_text e) ''too many requests'')"

definition untyped_words :: "string list" where
  "untyped_words = [''rate limit'', ''overloaded'', ''temporarily'', ''eof'', ''tls handshake'', ''no such host'']"

definition IsRetryableError :: "error_value \<Rightarrow> bool" where
  "IsRetryableError err =
     (case err of
        None \<Rightarrow> False
      | Some e \<Rightarrow>
          if err_is e LCanceled then False
          else case OutputRecoveryError e of
            Some exhausted \<Rightarrow> \<not> exhausted
          | None \<Rightarrow>
              if IsTerminalProviderError e then False
              else if err_is e LModelRoundTimeout then False
              else if err_is e LEmptyResponse then True
              else if err_is e LDeadlineExceeded then True
              else if IsStreamIdleTimeout e then True
              else if IsHTTPTimeout e then True
              else if err_as e as_net \<noteq> None then True
              else if IsRetryableAPIError e then True
              else list_ex (containsLower (e_text e)) untyped_words)"

definition messageIndicatesContextOverflow :: "string \<Rightarrow> bool" where
  "messageIndicatesContextOverflow msg =
     (if contains msg ''message size'' \<and> (contains msg ''exceed'' \<or> contains msg ''limit'') then True
      else if contains msg ''context'' \<or> contains msg ''too long'' \<or> contains msg ''too large'' then True
      else contains msg ''token'' \<and>
           (contains msg ''limit'' \<or> contains msg ''exceed'' \<or> contains msg ''maximum'' \<or> contains msg ''too many''))"

definition typed_400 :: "(err_layer \<Rightarrow> (int \<times> string) option) \<Rightarrow> go_error \<Rightarrow> string option" where
  "typed_400 sel e =
     (case err_as e sel of Some (s, m) \<Rightarrow> if s = 400 then Some m else None | None \<Rightarrow> None)"

definition IsContextTooLongError :: "error_value \<Rightarrow> bool" where
  "IsContextTooLongError err =
     (case err of
        None \<Rightarrow> False
      | Some e \<Rightarrow>
          (case typed_400 as_http e of
             Some m \<Rightarrow> messageIndicatesContextOverflow (to_lower m)
           | None \<Rightarrow>
               (case typed_400 as_api e of
                  Some m \<Rightarrow> messageIndicatesContextOverflow (to_lower m)
                | None \<Rightarrow>
                    (contains (lower_text e) ''400'' \<or> contains (lower_text e) ''bad request'') \<and>
                    messageIndicatesContextOverflow (lower_text e))))"

record failure_telemetry =
  ft_Reason :: string
  ft_Partial :: bool
  ft_Timeout :: duration
  ft_Provider :: string

definition DetectFailureTelemetry :: "error_value \<Rightarrow> failure_telemetry" where
  "DetectFailureTelemetry err =
     (let t = \<lparr>ft_Reason = ''other'', ft_Partial = False, ft_Timeout = 0, ft_Provider = []\<rparr>
      in case err of
           None \<Rightarrow> t
         | Some e \<Rightarrow>
             if OutputRecoveryError e \<noteq> None then t\<lparr>ft_Reason := ''degenerate_output''\<rparr>
             else
               let t = t\<lparr>ft_Partial := err_is e LPartial\<rparr>;
                   t = (case err_as e as_timeout of
                          None \<Rightarrow> t
                        | Some (reason, provider, timeout) \<Rightarrow>
                            t\<lparr>ft_Reason := (if reason \<noteq> [] then reason else ft_Reason t), ft_Provider := provider,
                              ft_Timeout := (if 0 < timeout then timeout else ft_Timeout t)\<rparr>)
               in case err_as e as_stream_idle of
                    Some (timeout, partial) \<Rightarrow>
                      t\<lparr>ft_Reason := ''stream_idle_timeout'', ft_Partial := partial, ft_Timeout := timeout\<rparr>
                  | None \<Rightarrow>
                      if err_is e LModelRoundTimeout then t\<lparr>ft_Reason := ''model_round_timeout''\<rparr>
                      else if err_is e LCanceled then t\<lparr>ft_Reason := ''context_cancel''\<rparr>
                      else if IsHTTPTimeout e \<or> err_is e LDeadlineExceeded then t\<lparr>ft_Reason := ''http_timeout''\<rparr>
                      else t)"

section \<open>Categories of plan step errors\<close>

datatype error_category = ErrorTransient | ErrorLogic | ErrorFatal | ErrorUnknown

fun ErrorCategory_String :: "error_category \<Rightarrow> string" where
  "ErrorCategory_String ErrorTransient = ''transient''"
| "ErrorCategory_String ErrorLogic = ''logic''"
| "ErrorCategory_String ErrorFatal = ''fatal''"
| "ErrorCategory_String ErrorUnknown = ''unknown''"

definition ClassifyError :: "error_value \<Rightarrow> string \<Rightarrow> error_category" where
  "ClassifyError err errMsg =
     (if (case err of
            None \<Rightarrow> False
          | Some e \<Rightarrow> err_is e LDeadlineExceeded \<or> err_is e LCanceled \<or> err_as e as_net \<noteq> None \<or>
                      err_is e LEmptyResponse)
      then ErrorTransient
      else
        let msg = (if errMsg = [] then (case err of None \<Rightarrow> [] | Some e \<Rightarrow> e_text e) else errMsg);
            overloadErr = (if err = None \<and> msg \<noteq> [] then Some (errors_New msg) else err);
            lower = to_lower msg
        in if IsOverloadError overloadErr then ErrorTransient
           else if contains_any lower [''rate limit'', ''timeout'', ''connection refused'', ''eof'', ''503'', ''502'', ''429'']
           then ErrorTransient
           else if contains_any lower [''permission denied'', ''not found'', ''no such file'', ''access denied'', ''forbidden'']
           then ErrorFatal
           else if contains_any lower [''validation error'', ''invalid argument'', ''wrong'', ''syntax error'', ''parse error'']
           then ErrorLogic
           else ErrorUnknown)"

section \<open>Backoff\<close>

definition CalculateBackoff :: "(int \<Rightarrow> int) \<Rightarrow> duration \<Rightarrow> int \<Rightarrow> duration \<Rightarrow> duration" where
  "CalculateBackoff int63n baseDelay attempt0 maxDelay =
     (let attempt = (if attempt0 < 0 then 0 else attempt0);
          attempt = (if attempt > 20 then 20 else attempt);
          delay = wrap64 (baseDelay * 2 ^ nat attempt);
          delay = (if delay \<le> 0 \<or> maxDelay < delay then maxDelay else delay);
          quarter = (if delay \<ge> 0 then delay div 4 else - ((- delay) div 4))
      in if 0 < quarter then wrap64 (delay + int63n quarter) else delay)"

definition cappedRetryDelay :: "duration \<Rightarrow> duration \<Rightarrow> duration \<Rightarrow> duration" where
  "cappedRetryDelay backoff retryAfter maxRetryAfter =
     (if retryAfter > backoff then min retryAfter maxRetryAfter else backoff)"

section \<open>Policies\<close>

record retry_config =
  rc_MaxRetries :: int
  rc_RetryDelay :: duration
  rc_MaxDelay :: duration

definition DefaultRetryConfig :: retry_config where
  "DefaultRetryConfig = \<lparr>rc_MaxRetries = 10, rc_RetryDelay = 1 * second, rc_MaxDelay = 30 * second\<rparr>"

record stream_retry_policy =
  sp_MaxRetries :: int
  sp_MaxPartialRetries :: int
  sp_BaseDelay :: duration
  sp_MaxDelay :: duration

record retry_decision =
  rd_ShouldRetry :: bool
  rd_Delay :: duration
  rd_Reason :: string
  rd_Partial :: bool

definition no_retry :: retry_decision where
  "no_retry = \<lparr>rd_ShouldRetry = False, rd_Delay = 0, rd_Reason = [], rd_Partial = False\<rparr>"

definition DefaultStreamRetryPolicy :: stream_retry_policy where
  "DefaultStreamRetryPolicy =
     \<lparr>sp_MaxRetries = 2, sp_MaxPartialRetries = 1, sp_BaseDelay = 2 * second, sp_MaxDelay = 30 * second\<rparr>"

definition normalizeStreamRetryPolicy :: "stream_retry_policy \<Rightarrow> stream_retry_policy" where
  "normalizeStreamRetryPolicy p =
     (let def = DefaultStreamRetryPolicy
      in if p = \<lparr>sp_MaxRetries = 0, sp_MaxPartialRetries = 0, sp_BaseDelay = 0, sp_MaxDelay = 0\<rparr> then def
         else p\<lparr>sp_MaxRetries := (if sp_MaxRetries p < 0 then 0 else sp_MaxRetries p),
                sp_MaxPartialRetries := (if sp_MaxPartialRetries p < 0 then 0 else sp_MaxPartialRetries p),
                sp_BaseDelay := (if sp_BaseDelay p \<le> 0 then sp_BaseDelay def else sp_BaseDelay p),
                sp_MaxDelay := (if sp_MaxDelay p \<le> 0 then sp_MaxDelay def else sp_MaxDelay p)\<rparr>)"

text \<open>\<open>ctxErr\<close>: the context is set and already done.\<close>

definition DecideStreamRetry ::
    "(int \<Rightarrow> int) \<Rightarrow> stream_retry_policy \<Rightarrow> error_value \<Rightarrow> int \<Rightarrow> int \<Rightarrow> bool \<Rightarrow> bool \<Rightarrow> retry_decision" where
  "DecideStreamRetry int63n policy0 err retryCount partialRetryCount ctxErr allowPartial =
     (case err of
        None \<Rightarrow> no_retry
      | Some e \<Rightarrow>
          if ctxErr then no_retry
          else if err_is e LCanceled \<or> err_is e LModelRoundTimeout then no_retry
          else let policy = normalizeStreamRetryPolicy policy0
               in case err_as e as_stream_idle of
                    Some (_, True) \<Rightarrow>
                      if \<not> allowPartial \<or> sp_MaxPartialRetries policy \<le> partialRetryCount then no_retry
                      else \<lparr>rd_ShouldRetry = True,
                            rd_Delay = CalculateBackoff int63n (sp_BaseDelay policy) partialRetryCount (sp_MaxDelay policy),
                            rd_Reason = ''stream_idle_timeout'', rd_Partial = True\<rparr>
                  | Some (_, False) \<Rightarrow>
                      if sp_MaxRetries policy \<le> retryCount then no_retry
                      else \<lparr>rd_ShouldRetry = True,
                            rd_Delay = CalculateBackoff int63n (sp_BaseDelay policy) retryCount (sp_MaxDelay policy),
                            rd_Reason = ''stream_idle_timeout'', rd_Partial = False\<rparr>
                  | None \<Rightarrow>
                      if \<not> IsRetryableError err \<or> sp_MaxRetries policy \<le> retryCount then no_retry
                      else let reason = ft_Reason (DetectFailureTelemetry err)
                           in \<lparr>rd_ShouldRetry = True,
                               rd_Delay = CalculateBackoff int63n (sp_BaseDelay policy) retryCount (sp_MaxDelay policy),
                               rd_Reason = (if reason = [] then ''other'' else reason), rd_Partial = False\<rparr>)"

definition AdaptiveRetryConfig :: "int \<Rightarrow> int \<Rightarrow> retry_config" where
  "AdaptiveRetryConfig score failureStreak =
     (let base = DefaultRetryConfig;
          base =
            (if score \<ge> 5 then base\<lparr>rc_RetryDelay := 500000000, rc_MaxDelay := 15 * second\<rparr>
             else if score \<ge> 0 then base
             else if score \<ge> - 5
             then base\<lparr>rc_RetryDelay := 2 * second, rc_MaxDelay := 45 * second, rc_MaxRetries := 7\<rparr>
             else if score \<ge> - 10
             then base\<lparr>rc_RetryDelay := 4 * second, rc_MaxDelay := 60 * second, rc_MaxRetries := 5\<rparr>
             else base\<lparr>rc_RetryDelay := 8 * second, rc_MaxDelay := 90 * second, rc_MaxRetries := 3\<rparr>)
      in if failureStreak \<ge> 5
         then base\<lparr>rc_RetryDelay := max (rc_RetryDelay base) (5 * second), rc_MaxRetries := min (rc_MaxRetries base) 4\<rparr>
         else base)"

definition streamStallProneProvider :: "string \<Rightarrow> bool" where
  "streamStallProneProvider provider \<longleftrightarrow> to_lower (trim_space provider) = ''glm''"

definition AdaptiveStreamRetryPolicy :: "string \<Rightarrow> int \<Rightarrow> stream_retry_policy" where
  "AdaptiveStreamRetryPolicy provider score =
     (let base = DefaultStreamRetryPolicy;
          base =
            (if score \<ge> 5 then base\<lparr>sp_MaxRetries := 3, sp_BaseDelay := 1 * second\<rparr>
             else if score \<ge> 0 then base
             else if score \<ge> - 5 then base\<lparr>sp_BaseDelay := 3 * second, sp_MaxDelay := 45 * second\<rparr>
             else base\<lparr>sp_MaxRetries := 1, sp_BaseDelay := 5 * second, sp_MaxDelay := 60 * second\<rparr>)
      in if streamStallProneProvider provider \<and> score \<ge> 0
         then let base = base\<lparr>sp_MaxRetries := (if sp_MaxRetries base < 3 then 3 else sp_MaxRetries base),
                              sp_MaxPartialRetries := (if sp_MaxPartialRetries base < 2 then 2 else sp_MaxPartialRetries base)\<rparr>
              in if score < 5
                 then base\<lparr>sp_BaseDelay := (if sp_BaseDelay base < 3 * second then 3 * second else sp_BaseDelay base),
                           sp_MaxDelay := (if sp_MaxDelay base < 45 * second then 45 * second else sp_MaxDelay base)\<rparr>
                 else base
         else base)"

section \<open>Waiting out an overload\<close>

record overload_policy =
  op_MaxRetries :: int
  op_BaseDelay :: duration
  op_MaxDelay :: duration
  op_MaxTotal :: duration

definition DefaultOverloadRetryPolicy :: overload_policy where
  "DefaultOverloadRetryPolicy =
     \<lparr>op_MaxRetries = 40, op_BaseDelay = 3 * second, op_MaxDelay = 45 * second, op_MaxTotal = 10 * minute\<rparr>"

definition normalizeOverloadRetryPolicy :: "overload_policy \<Rightarrow> overload_policy" where
  "normalizeOverloadRetryPolicy p =
     (let def = DefaultOverloadRetryPolicy
      in p\<lparr>op_MaxRetries := (if op_MaxRetries p \<le> 0 then op_MaxRetries def else op_MaxRetries p),
           op_BaseDelay := (if op_BaseDelay p \<le> 0 then op_BaseDelay def else op_BaseDelay p),
           op_MaxDelay := (if op_MaxDelay p \<le> 0 then op_MaxDelay def else op_MaxDelay p),
           op_MaxTotal := (if op_MaxTotal p \<le> 0 then op_MaxTotal def else op_MaxTotal p)\<rparr>)"

definition DecideOverloadRetry ::
    "(int \<Rightarrow> int) \<Rightarrow> overload_policy \<Rightarrow> error_value \<Rightarrow> int \<Rightarrow> duration \<Rightarrow> bool \<Rightarrow> retry_decision" where
  "DecideOverloadRetry int63n policy0 err overloadCount elapsed ctxErr =
     (if err = None \<or> \<not> IsOverloadError err then no_retry
      else if ctxErr then no_retry
      else
        let policy = normalizeOverloadRetryPolicy policy0
        in if op_MaxRetries policy \<le> overloadCount \<or> op_MaxTotal policy \<le> elapsed then no_retry
           else let delay = CalculateBackoff int63n (op_BaseDelay policy) overloadCount (op_MaxDelay policy);
                    remaining = op_MaxTotal policy - elapsed;
                    delay = (if 0 < remaining \<and> remaining < delay then remaining else delay)
                in \<lparr>rd_ShouldRetry = True, rd_Delay = delay, rd_Reason = ''overloaded'', rd_Partial = False\<rparr>)"

section \<open>Lemmas on the backoff\<close>

text \<open>The documented range of \<open>rand.Int63n\<close>: for a positive bound a value below it.\<close>

definition jitter_range :: "(int \<Rightarrow> int) \<Rightarrow> bool" where
  "jitter_range int63n \<longleftrightarrow> (\<forall>n. 0 < n \<longrightarrow> 0 \<le> int63n n \<and> int63n n < n)"

lemma backoff_core:
  assumes "jitter_range r" "0 < d" "d \<le> m" "m \<le> 7 * 10 ^ 18"
  shows "let q = (if d \<ge> 0 then d div 4 else - ((- d) div 4));
             x = (if 0 < q then wrap64 (d + r q) else d)
         in d \<le> x \<and> x \<le> d + d div 4"
proof (cases "0 < d div 4")
  case True
  then have j: "0 \<le> r (d div 4)" "r (d div 4) < d div 4" using assms(1) by (simp_all add: jitter_range_def)
  have "wrap64 (d + r (d div 4)) = d + r (d div 4)"
    using j assms by (intro wrap64_id) auto
  with True j assms(2) show ?thesis by (simp add: Let_def)
qed (use assms(2) in \<open>simp add: Let_def\<close>)

definition clamped_attempt :: "int \<Rightarrow> int" where
  "clamped_attempt a = max 0 (min 20 a)"

definition raw_delay :: "duration \<Rightarrow> int \<Rightarrow> duration \<Rightarrow> duration" where
  "raw_delay base a m =
     (let d = wrap64 (base * 2 ^ nat (clamped_attempt a)) in if d \<le> 0 \<or> m < d then m else d)"

lemma raw_delay_bounds: "0 < m \<Longrightarrow> 0 < raw_delay base a m \<and> raw_delay base a m \<le> m"
  by (simp add: raw_delay_def Let_def)

lemma CalculateBackoff_raw:
  "CalculateBackoff r base a m =
     (let d = raw_delay base a m; q = (if d \<ge> 0 then d div 4 else - ((- d) div 4))
      in if 0 < q then wrap64 (d + r q) else d)"
proof -
  have "(let x = (if a < 0 then 0 else a) in if x > 20 then 20 else x) = clamped_attempt a"
    by (simp add: clamped_attempt_def)
  then show ?thesis unfolding CalculateBackoff_def raw_delay_def by (simp only: Let_def)
qed

lemma backoff_bounds:
  assumes "jitter_range r" "0 < m" "m \<le> 7 * 10 ^ 18"
  shows "raw_delay base a m \<le> CalculateBackoff r base a m"
    "CalculateBackoff r base a m \<le> raw_delay base a m + raw_delay base a m div 4"
    "0 < CalculateBackoff r base a m"
proof -
  have d: "0 < raw_delay base a m" "raw_delay base a m \<le> m" using raw_delay_bounds [OF assms(2)] by auto
  note c = backoff_core [OF assms(1) d assms(3)]
  show "raw_delay base a m \<le> CalculateBackoff r base a m"
    "CalculateBackoff r base a m \<le> raw_delay base a m + raw_delay base a m div 4"
    using c by (simp_all add: CalculateBackoff_raw Let_def)
  with d(1) show "0 < CalculateBackoff r base a m" by linarith
qed

text \<open>The folding search is a plain search in the folded text.\<close>

lemma equalFold_map: "length a = length b \<Longrightarrow> equalFold a b \<longleftrightarrow> map fold_byte a = map fold_byte b"
  unfolding equalFold_def list_all_iff list_eq_iff_nth_eq set_upt Ball_def atLeastLessThan_iff by simp

lemma containsLower_reference:
  "containsLower s sub \<longleftrightarrow> contains (map fold_byte s) (map fold_byte sub)"
proof (cases "length sub \<le> length s")
  case True
  have hit: "equalFold (take (length sub) (drop i s)) sub \<longleftrightarrow> has_prefix (drop i (map fold_byte s)) (map fold_byte sub)"
    if "i + length sub \<le> length s" for i
    using that by (simp add: equalFold_map has_prefix_def take_map drop_map)
  have "contains (map fold_byte s) (map fold_byte sub) \<longleftrightarrow>
      (\<exists>i. i + length sub \<le> length s \<and> has_prefix (drop i (map fold_byte s)) (map fold_byte sub))"
  proof (cases "index_of (map fold_byte s) (map fold_byte sub)")
    case None
    then show ?thesis using index_of_NoneD [OF None] by (simp add: contains_def)
  next
    case (Some k)
    then show ?thesis using index_of_SomeD [OF Some] unfolding contains_def by auto
  qed
  also have "\<dots> \<longleftrightarrow> (\<exists>i. i + length sub \<le> length s \<and> equalFold (take (length sub) (drop i s)) sub)"
    using hit by blast
  also have "\<dots> \<longleftrightarrow> containsFold s sub"
  proof (cases "sub = []")
    case True
    then show ?thesis by (auto simp: containsFold_def equalFold_def)
  next
    case False
    have "i \<in> {0..<Suc (length s) - length sub} \<longleftrightarrow> i \<in> {i. i + length sub \<le> length s}" for i
      unfolding atLeastLessThan_iff mem_Collect_eq using True by linarith
    then have range: "{0..<Suc (length s) - length sub} = {i. i + length sub \<le> length s}" by (rule set_eqI)
    show ?thesis using False unfolding containsFold_def list_ex_iff set_upt range by simp
  qed
  finally show ?thesis using True by (simp add: containsLower_def)
next
  case False
  then have "\<not> contains (map fold_byte s) (map fold_byte sub)"
    by (auto simp: contains_iff dest!: arg_cong [where f = length])
  with False show ?thesis by (simp add: containsLower_def)
qed

section \<open>Properties\<close>

text \<open>
  A hard provider failure is never retried by the client's deciders, whatever its text says: it
  is no overload, not retryable, and neither the overload budget nor the stream budget grants a
  retry for it.
\<close>

theorem terminal_errors_never_retried:
  assumes "IsTerminalProviderError e" "OutputRecoveryError e = None" "\<not> IsStreamIdleTimeout e"
  shows "\<not> IsOverloadError (Some e) \<and> \<not> IsRetryableError (Some e) \<and>
    DecideOverloadRetry r op (Some e) n elapsed c = no_retry \<and>
    DecideStreamRetry r sp (Some e) n k c allow = no_retry"
proof -
  have o: "\<not> IsOverloadError (Some e)" using assms by (simp add: IsOverloadError_def)
  have t: "\<not> IsRetryableError (Some e)" using assms by (simp add: IsRetryableError_def)
  have idle: "err_as e as_stream_idle = None" using assms(3) unfolding IsStreamIdleTimeout_def by blast
  show ?thesis
    using o t idle by (simp add: DecideOverloadRetry_def DecideStreamRetry_def Let_def)
qed

definition capped_usage_error :: go_error where
  "capped_usage_error = \<lparr>e_text = ''usage limit reached (429)'', e_chain = [LTerminal]\<rparr>"

theorem terminal_errors_never_retried_witness: "\<not> IsRetryableError (Some capped_usage_error)"
  using terminal_errors_never_retried [of capped_usage_error]
  by (simp add: capped_usage_error_def IsTerminalProviderError_def err_is_def OutputRecoveryError_def err_as_def
      as_degenerate_def IsStreamIdleTimeout_def as_stream_idle_def)

text \<open>
  The plan layer does not share that rule. \<open>ClassifyError\<close> keeps a local list of transient words
  after the shared detector, so a terminal failure whose message mentions 429 is classified as
  transient, and the step is retried although the client layer refuses to.
\<close>

theorem terminal_error_classified_transient:
  "IsTerminalProviderError capped_usage_error \<and> \<not> IsOverloadError (Some capped_usage_error) \<and>
   \<not> IsRetryableError (Some capped_usage_error) \<and> ClassifyError (Some capped_usage_error) [] = ErrorTransient"
proof -
  have low: "to_lower ''usage limit reached (429)'' = ''usage limit reached (429)''"
    by (rule to_lower_fixed) (simp add: plain_lower_def)
  have hit: "contains ''usage limit reached (429)'' ''429''" by code_simp
  show ?thesis
    using low hit
    by (simp add: capped_usage_error_def IsTerminalProviderError_def err_is_def IsOverloadError_def OutputRecoveryError_def
        err_as_def as_degenerate_def IsRetryableError_def ClassifyError_def as_net_def contains_any_def Let_def)
qed

text \<open>
  One provider call after another failing with overload errors: how many waits are granted, and for
  how long in total, by the counters the callers keep.
\<close>

primrec overload_run :: "(int \<Rightarrow> int) \<Rightarrow> overload_policy \<Rightarrow> error_value \<Rightarrow> nat \<Rightarrow> int \<times> duration" where
  "overload_run r policy err 0 = (0, 0)"
| "overload_run r policy err (Suc n) =
     (let (count, elapsed) = overload_run r policy err n;
          d = DecideOverloadRetry r policy err count elapsed False
      in if rd_ShouldRetry d then (count + 1, elapsed + rd_Delay d) else (count, elapsed))"

lemma normalized_positive:
  "0 < op_MaxRetries (normalizeOverloadRetryPolicy p)" "0 < op_BaseDelay (normalizeOverloadRetryPolicy p)"
  "0 < op_MaxDelay (normalizeOverloadRetryPolicy p)" "0 < op_MaxTotal (normalizeOverloadRetryPolicy p)"
  by (auto simp: normalizeOverloadRetryPolicy_def DefaultOverloadRetryPolicy_def Let_def second_def minute_def)

lemma overload_decision:
  assumes "jitter_range r" "op_MaxDelay (normalizeOverloadRetryPolicy p) \<le> 7 * 10 ^ 18"
    and "rd_ShouldRetry (DecideOverloadRetry r p err n elapsed c)"
  shows "n < op_MaxRetries (normalizeOverloadRetryPolicy p)"
    "0 < rd_Delay (DecideOverloadRetry r p err n elapsed c)"
    "elapsed + rd_Delay (DecideOverloadRetry r p err n elapsed c) \<le> op_MaxTotal (normalizeOverloadRetryPolicy p)"
    "IsOverloadError err" "\<not> c"
  using assms(3) backoff_bounds(3) [OF assms(1) normalized_positive(3) assms(2)]
  by (auto simp: DecideOverloadRetry_def no_retry_def Let_def split: if_splits)

text \<open>
  Waiting out an overload is bounded. However many overload failures follow one another, at most
  \<open>MaxRetries\<close> waits are granted, their total never exceeds \<open>MaxTotal\<close>, and after \<open>MaxRetries\<close>
  failures the decision is to give up (the limits being those of the normalised policy).
\<close>

theorem overload_waiting_is_bounded:
  assumes "jitter_range r" "op_MaxDelay (normalizeOverloadRetryPolicy p) \<le> 7 * 10 ^ 18"
    and "overload_run r p err n = (count, elapsed)"
  shows "count \<le> op_MaxRetries (normalizeOverloadRetryPolicy p) \<and>
    elapsed \<le> op_MaxTotal (normalizeOverloadRetryPolicy p) \<and> count \<le> int n \<and>
    (op_MaxRetries (normalizeOverloadRetryPolicy p) \<le> int n \<longrightarrow>
       \<not> rd_ShouldRetry (DecideOverloadRetry r p err count elapsed False))"
proof -
  let ?q = "normalizeOverloadRetryPolicy p"
  have step: "case overload_run r p err k of (c, e) \<Rightarrow>
      c \<le> op_MaxRetries ?q \<and> e \<le> op_MaxTotal ?q \<and> c \<le> int k \<and>
      (c < int k \<longrightarrow> \<not> rd_ShouldRetry (DecideOverloadRetry r p err c e False))" for k
  proof (induction k)
    case 0
    then show ?case using normalized_positive [of p] by simp
  next
    case (Suc k)
    obtain c e where k: "overload_run r p err k = (c, e)" by fastforce
    show ?case
    proof (cases "rd_ShouldRetry (DecideOverloadRetry r p err c e False)")
      case True
      note d = overload_decision [OF assms(1,2) True]
      with True Suc k show ?thesis by simp
    next
      case False
      with Suc k show ?thesis by simp
    qed
  qed
  show ?thesis
    using step [of n] assms(3) overload_decision(1) [OF assms(1,2), of err count elapsed False] by fastforce
qed

lemma midpoint_jitter: "jitter_range (\<lambda>n. n div 2)"
  unfolding jitter_range_def by auto

theorem overload_waiting_is_bounded_witness:
  "fst (overload_run (\<lambda>n. n div 2) DefaultOverloadRetryPolicy (Some (errors_New ''overloaded'')) 3) \<le> 40"
  using overload_waiting_is_bounded [OF midpoint_jitter, of DefaultOverloadRetryPolicy "Some (errors_New ''overloaded'')" 3]
  by (simp add: normalizeOverloadRetryPolicy_def DefaultOverloadRetryPolicy_def Let_def second_def minute_def)
     (metis prod.collapse)

text \<open>
  The backoff is always positive, at least the capped exponential delay and at most a quarter
  above it, for every attempt number and base delay, overflowing ones included; so it can exceed
  the cap \<open>maxDelay\<close>, by up to a quarter, and it does so for an actual jitter value.
\<close>

theorem backoff_range:
  assumes "jitter_range r" "0 < m" "m \<le> 7 * 10 ^ 18"
  shows "0 < CalculateBackoff r base a m \<and>
    raw_delay base a m \<le> CalculateBackoff r base a m \<and> CalculateBackoff r base a m \<le> m + m div 4 \<and>
    (0 \<le> a \<longrightarrow> a \<le> 20 \<longrightarrow> 0 < base \<longrightarrow> base * 2 ^ nat a \<le> m \<longrightarrow> raw_delay base a m = base * 2 ^ nat a) \<and>
    30 * second < CalculateBackoff (\<lambda>n. n - 1) second 10 (30 * second)"
proof -
  have d: "raw_delay base a m \<le> m" using raw_delay_bounds [OF assms(2)] by simp
  then have "raw_delay base a m div 4 \<le> m div 4" by (simp add: zdiv_mono1)
  moreover have "raw_delay base a m = base * 2 ^ nat a"
    if "0 \<le> a" "a \<le> 20" "0 < base" "base * 2 ^ nat a \<le> m"
  proof -
    have p: "0 < base * 2 ^ nat a" using that(3) by simp
    have w: "wrap64 (base * 2 ^ nat a) = base * 2 ^ nat a"
    proof (rule wrap64_id)
      have "(7 * 10 ^ 18 :: int) < 2 ^ 63" "(0 :: int) < 2 ^ 63" by simp_all
      then show "- (2 ^ 63) \<le> base * 2 ^ nat a" "base * 2 ^ nat a < 2 ^ 63"
        using p that(4) assms(3) by linarith+
    qed
    have c: "clamped_attempt a = a" using that(1,2) by (simp add: clamped_attempt_def)
    have "\<not> (base * 2 ^ nat a \<le> 0 \<or> m < base * 2 ^ nat a)" using p that(4) by linarith
    then show ?thesis unfolding raw_delay_def Let_def c w by (rule if_not_P)
  qed
  moreover have "30 * second < CalculateBackoff (\<lambda>n. n - 1) second 10 (30 * second)"
    by (simp add: CalculateBackoff_def second_def wrap64_id Let_def)
  ultimately show ?thesis
    using backoff_bounds [OF assms, of base a] d by auto
qed

theorem backoff_range_witness: "0 < CalculateBackoff (\<lambda>n. n div 2) second 64 (30 * second)"
  using backoff_range [OF midpoint_jitter, of "30 * second" second 64] by (simp add: second_def)

end
