(* ===== verification/Wildcard.thy ===== *)
theory Wildcard
  imports GoStrings
begin

text \<open>
  The two pattern matchers of the permission rules, \<open>wildcardMatch\<close> (\<open>internal/permission/tool_grants.go\<close>) and
  \<open>wildcardMatchRestricted\<close> (\<open>internal/permission/tool_rule_match.go\<close>), against the declarative matching
  \<open>glob\<close>. The code keeps indices into pattern and value; here an index is the rest of the string it points to,
  and \<open>star\<close> is the rest of the pattern behind the last star with the rest of the value it may still give up.
  Both loops share one function, whose argument \<open>blocked\<close> says which character a star must not swallow.
\<close>

section \<open>The loop\<close>

function wildcard_loop :: "(string \<Rightarrow> bool) \<Rightarrow> string \<Rightarrow> string \<Rightarrow> (string \<times> string) option \<Rightarrow> bool" where
  "wildcard_loop blocked p [] star = list_all (\<lambda>c. c = CHR ''*'') p"
| "wildcard_loop blocked p (c # v) star =
     (if p \<noteq> [] \<and> hd p = c then wildcard_loop blocked (tl p) v star
      else if p \<noteq> [] \<and> hd p = CHR ''*'' then wildcard_loop blocked (tl p) (c # v) (Some (tl p, c # v))
      else case star of
        Some (q, x # r) \<Rightarrow> if blocked (x # r) then False else wildcard_loop blocked q r (Some (q, r))
      | _ \<Rightarrow> False)"
  by pat_completeness auto
termination
  by (relation "measures [\<lambda>(b, p, v, star). max (length v) (case star of None \<Rightarrow> 0 | Some (q, r) \<Rightarrow> length r),
                          \<lambda>(b, p, v, star). length p]")
     (auto simp: max_def split: option.splits)

declare wildcard_loop.simps(2) [simp del]

lemma wildcard_retry:
  "\<not> (p \<noteq> [] \<and> hd p = c) \<Longrightarrow> \<not> (p \<noteq> [] \<and> hd p = CHR ''*'') \<Longrightarrow>
   wildcard_loop blocked p (c # v) (Some (q, x # r)) = (\<not> blocked (x # r) \<and> wildcard_loop blocked q r (Some (q, r)))"
  by (subst wildcard_loop.simps(2)) auto

definition wildcardMatch :: "string \<Rightarrow> string \<Rightarrow> bool" where
  "wildcardMatch pattern val = wildcard_loop (\<lambda>v. False) pattern val None"

text \<open>A star stops at an operator byte, at a backquote and at a command substitution.\<close>

definition swallow_blocked :: "string \<Rightarrow> string \<Rightarrow> bool" where
  "swallow_blocked forbidden v =
     (case v of
        [] \<Rightarrow> False
      | c # w \<Rightarrow> c \<in> set forbidden \<or> c = CHR ''`'' \<or> (c = CHR ''$'' \<and> w \<noteq> [] \<and> hd w = CHR ''(''))"

definition wildcardMatchRestricted :: "string \<Rightarrow> string \<Rightarrow> string \<Rightarrow> bool" where
  "wildcardMatchRestricted pattern val forbidden = wildcard_loop (swallow_blocked forbidden) pattern val None"

section \<open>Declarative matching\<close>

fun glob :: "(string \<Rightarrow> bool) \<Rightarrow> string \<Rightarrow> string \<Rightarrow> bool" where
  "glob blocked [] v = (v = [])"
| "glob blocked (x # p) [] = (x = CHR ''*'' \<and> glob blocked p [])"
| "glob blocked (x # p) (c # v) =
     (if x = CHR ''*'' then glob blocked p (c # v) \<or> (\<not> blocked (c # v) \<and> glob blocked (x # p) v)
      else x = c \<and> glob blocked p v)"

lemma glob_Nil: "glob blocked p [] = list_all (\<lambda>c. c = CHR ''*'') p"
  by (induction p) auto

lemma glob_star_empty: "glob blocked p v \<Longrightarrow> glob blocked (CHR ''*'' # p) v"
  by (cases v) auto

lemma glob_swallow: "glob blocked (CHR ''*'' # p) v \<Longrightarrow> \<not> blocked (c # v) \<Longrightarrow> glob blocked (CHR ''*'' # p) (c # v)"
  by auto

text \<open>Whatever the loop accepts, the pattern matches; this needs no assumption on the value.\<close>

lemma wildcard_sound:
  assumes "\<And>v. \<not> blocked (CHR ''*'' # v)" "wildcard_loop blocked p v star"
  shows "glob blocked p v \<or> (\<exists>q x r. star = Some (q, x # r) \<and> \<not> blocked (x # r) \<and> glob blocked (CHR ''*'' # q) r)"
  using assms
proof (induction blocked p v star rule: wildcard_loop.induct [case_names empty step])
  case (empty blocked p star)
  then show ?case by (simp add: glob_Nil)
next
  case (step blocked p c v star)
  consider (literal) "p \<noteq> [] \<and> hd p = c" | (star) "\<not> (p \<noteq> [] \<and> hd p = c)" "p \<noteq> [] \<and> hd p = CHR ''*''"
    | (retry) "\<not> (p \<noteq> [] \<and> hd p = c)" "\<not> (p \<noteq> [] \<and> hd p = CHR ''*'')"
    by blast
  then show ?case
  proof cases
    case literal
    then obtain p' where p: "p = c # p'" by (cases p) auto
    have "glob blocked p' v \<Longrightarrow> glob blocked p (c # v)" using step.prems(1) by (auto simp: p intro: glob_star_empty)
    then show ?thesis using step.IH(1) [OF literal step.prems(1)] step.prems(2) literal by (auto simp: wildcard_loop.simps p)
  next
    case star
    then obtain p' where p: "p = CHR ''*'' # p'" by (cases p) auto
    have "glob blocked p' (c # v) \<or> \<not> blocked (c # v) \<and> glob blocked (CHR ''*'' # p') v"
      using step.IH(2) [OF star step.prems(1)] step.prems(2) star by (auto simp: wildcard_loop.simps p)
    then show ?thesis by (auto simp: p intro: glob_swallow)
  next
    case retry
    then obtain q x r where s: "star = Some (q, x # r)" "\<not> blocked (x # r)" "wildcard_loop blocked q r (Some (q, r))"
      using step.prems(2) by (auto simp: wildcard_loop.simps split: option.splits list.splits if_splits)
    have "glob blocked q r \<or> (\<exists>x' r'. r = x' # r' \<and> \<not> blocked (x' # r') \<and> glob blocked (CHR ''*'' # q) r')"
      using step.IH(3) [OF retry s(1) refl refl s(2) step.prems(1) s(3)] by auto
    then have "glob blocked (CHR ''*'' # q) r" by (auto intro: glob_star_empty)
    then show ?thesis using s(1,2) by blast
  qed
qed

text \<open>
  Conversely, when nothing is blocked and the value has no star of its own. The part of the pattern behind the
  last star is what was matched since (\<open>lit\<close>) and what is left.
\<close>

lemma glob_longer: "glob (\<lambda>v. False) (CHR ''*'' # p) w \<Longrightarrow> glob (\<lambda>v. False) (CHR ''*'' # p) (u @ w)"
  by (induction u) auto

lemma glob_literal:
  "CHR ''*'' \<notin> set lit \<Longrightarrow> glob blocked (lit @ p) v \<longleftrightarrow> (\<exists>w. v = lit @ w \<and> glob blocked p w)"
proof (induction lit arbitrary: v)
  case (Cons x lit)
  then show ?case by (cases v) auto
qed simp

lemma glob_star_split:
  "glob (\<lambda>v. False) (CHR ''*'' # p) v \<Longrightarrow> \<exists>u w. v = u @ w \<and> glob (\<lambda>v. False) p w"
proof (induction v)
  case (Cons c v)
  then consider "glob (\<lambda>v. False) p (c # v)" | "glob (\<lambda>v. False) (CHR ''*'' # p) v" by auto
  then show ?case
  proof cases
    case 1
    then show ?thesis by (metis append_Nil)
  next
    case 2
    then show ?thesis using Cons.IH by (metis append_Cons)
  qed
qed auto

definition star_state :: "string \<Rightarrow> string \<Rightarrow> (string \<times> string) option \<Rightarrow> bool" where
  "star_state p v star = (case star of
     None \<Rightarrow> glob (\<lambda>v. False) p v
   | Some (q, r) \<Rightarrow> (\<exists>lit. CHR ''*'' \<notin> set lit \<and> q = lit @ p \<and> r = lit @ v) \<and> glob (\<lambda>v. False) (CHR ''*'' # q) r)"

lemma wildcard_complete:
  assumes "CHR ''*'' \<notin> set v" "star_state p v star"
  shows "wildcard_loop (\<lambda>v. False) p v star"
  using assms
proof (induction "\<lambda>v::string. False" p v star rule: wildcard_loop.induct [case_names empty step])
  case (empty p star)
  show ?case
  proof (cases star)
    case (Some qr)
    then obtain lit where "CHR ''*'' \<notin> set lit" "glob (\<lambda>v. False) (CHR ''*'' # lit @ p) lit"
      using empty.prems(2) by (auto simp: star_state_def split: prod.splits)
    then obtain u w where "lit = u @ lit @ w" "glob (\<lambda>v. False) p w"
      using glob_star_split [of "lit @ p" lit] glob_literal [of lit "\<lambda>v. False" p] by metis
    moreover from this(1) have "length lit = length u + (length lit + length w)" by (metis length_append)
    then have "w = []" by simp
    ultimately show ?thesis by (simp add: glob_Nil)
  qed (use empty in \<open>simp add: star_state_def glob_Nil\<close>)
next
  case (step p c v star)
  have c: "c \<noteq> CHR ''*''" "CHR ''*'' \<notin> set v" using step.prems(1) by auto
  consider (literal) p' where "p = c # p'" | (star) p' where "p = CHR ''*'' # p'"
    | (retry) "\<not> (p \<noteq> [] \<and> hd p = c)" "\<not> (p \<noteq> [] \<and> hd p = CHR ''*'')"
    by (cases p) auto
  then show ?case
  proof cases
    case literal
    have "star_state p' v star"
      using step.prems(2) c(1) by (auto simp: star_state_def literal split: option.splits intro!: exI [of _ "_ @ [c]"])
    then show ?thesis using step.hyps(1) [of] literal c(2) by (simp add: wildcard_loop.simps)
  next
    case star
    have "glob (\<lambda>v. False) (CHR ''*'' # p') (c # v)"
    proof (cases \<open>star\<close>)
      case (Some qr)
      then obtain lit where lit: "CHR ''*'' \<notin> set lit" "glob (\<lambda>v. False) (CHR ''*'' # lit @ CHR ''*'' # p') (lit @ c # v)"
        using step.prems(2) by (auto simp: star_state_def star split: prod.splits)
      obtain u w where uw: "lit @ c # v = u @ lit @ w" "glob (\<lambda>v. False) (CHR ''*'' # p') w"
        using glob_star_split [OF lit(2)] glob_literal [OF lit(1), of "\<lambda>v. False" "CHR ''*'' # p'"] by metis
      have "drop (length lit) (lit @ c # v) = drop (length lit) ((u @ lit) @ w)" using uw(1) by simp
      also have "\<dots> = drop (length lit) (u @ lit) @ w" by (subst drop_append) simp
      finally have "c # v = drop (length lit) (u @ lit) @ w" by simp
      then show ?thesis using glob_longer [OF uw(2), of "drop (length lit) (u @ lit)"] by metis
    qed (use step.prems(2) in \<open>auto simp: star_state_def star\<close>)
    then have "star_state p' (c # v) (Some (p', c # v))" by (auto simp: star_state_def)
    then show ?thesis using step.hyps(2) step.prems(1) c(1) by (simp add: wildcard_loop.simps star)
  next
    case retry
    then have no: "\<not> glob (\<lambda>v. False) p (c # v)" by (cases p) auto
    then obtain q r where s: "star = Some (q, r)" using step.prems(2) by (cases star) (auto simp: star_state_def)
    then obtain lit where lit: "CHR ''*'' \<notin> set lit" "q = lit @ p" "r = lit @ c # v"
      and g: "glob (\<lambda>v. False) (CHR ''*'' # q) r"
      using step.prems(2) by (auto simp: star_state_def)
    obtain x r' where r: "r = x # r'" using lit(3) by (metis append_is_Nil_conv list.distinct(1) neq_Nil_conv)
    have "\<not> glob (\<lambda>v. False) q r" using no glob_literal [OF lit(1), of "\<lambda>v. False" p r] lit by auto
    then have "star_state q r' (Some (q, r'))" using g by (auto simp: star_state_def r)
    moreover have "CHR ''*'' \<notin> set r'" using lit(1,3) step.prems(1) r by (metis Un_iff list.set_intros(2) set_append)
    ultimately have "wildcard_loop (\<lambda>v. False) q r' (Some (q, r'))" using step.hyps(3) [OF retry s refl r] by simp
    then show ?thesis using wildcard_retry [OF retry, of "\<lambda>v. False" v q x r'] by (simp add: s r)
  qed
qed

section \<open>Properties\<close>

lemma wildcardMatch_sound: "wildcardMatch p v \<Longrightarrow> glob (\<lambda>v. False) p v"
  using wildcard_sound [of "\<lambda>v. False" p v None] by (simp add: wildcardMatch_def)

text \<open>
  C14: the linear-time matcher of the permission rules is exact on values without a star: with one saved star
  and no recursion it accepts exactly the values that some choice of a run of characters for each star makes.
  On any value it accepts nothing the pattern does not match.
\<close>

theorem wildcard_match_exact:
  shows "(wildcardMatch p v \<longrightarrow> glob (\<lambda>v. False) p v) \<and>
    (CHR ''*'' \<notin> set v \<longrightarrow> wildcardMatch p v = glob (\<lambda>v. False) p v)"
proof -
  have "star_state p v None" if "glob (\<lambda>v. False) p v" using that by (simp add: star_state_def)
  then show ?thesis using wildcardMatch_sound wildcard_complete [of v p None] by (auto simp: wildcardMatch_def)
qed

theorem wildcard_match_exact_witness:
  "wildcardMatch ''git * --hard*'' ''git reset --hard HEAD'' \<and> \<not> wildcardMatch ''git * --hard*'' ''git status''"
  using wildcard_match_exact [of "''git * --hard*''" "''git reset --hard HEAD''"]
    wildcard_match_exact [of "''git * --hard*''" "''git status''"]
  by simp

end
