(* ===== verification/BashRules.thy ===== *)
theory BashRules
  imports Wildcard
begin

text \<open>
  What the permission rules know about shell commands. From \<open>internal/permission/tool_rule_match.go\<close> and
  \<open>internal/permission/bash_readonly.go\<close>: the argument patterns of Bash rules, in which an allow matches
  the whole command with stars that stop at shell operators, and a deny any segment of it. From
  \<open>internal/permission/command_semantics.go\<close>: the classifier of commands that must be confirmed even where
  Bash is allowed (pushes, hard resets, sudo, remote code, recursive deletes).
\<close>

section \<open>More of the strings package\<close>

text \<open>\<open>strings.Fields\<close>; white space starts only at the first byte of a rune, so a byte scan is exact.\<close>

fun until_space :: "string \<Rightarrow> string" where
  "until_space [] = []"
| "until_space (c # s) = (if lead_space (c # s) = 0 then c # until_space s else [])"

lemma until_space_le: "length (until_space s) \<le> length s"
  by (induction s) auto

lemma until_space_nonempty: "s \<noteq> [] \<Longrightarrow> lead_space s = 0 \<Longrightarrow> until_space s \<noteq> []"
  by (cases s) auto

lemma length_trim_left: "length (trim_left s) \<le> length s"
proof -
  obtain n where "trim_left s = drop n s" using trim_left_drop by metis
  then show ?thesis by simp
qed

function fields :: "string \<Rightarrow> string list" where
  "fields s =
     (let t = trim_left s
      in if t = [] then [] else until_space t # fields (drop (length (until_space t)) t))"
  by pat_completeness auto
termination
proof (relation "measure length", simp)
  fix s t
  assume t: "t = trim_left s" "t \<noteq> []"
  have "0 < length (until_space t)" "length t \<le> length s" using until_space_nonempty [of t] t length_trim_left [of s] by auto
  then show "(drop (length (until_space t)) t, s) \<in> measure length"
    unfolding in_measure length_drop using until_space_le [of t] by linarith
qed

declare fields.simps [simp del]

text \<open>\<open>strings.ReplaceAll\<close> of a non-empty text by one byte.\<close>

function replace_all :: "string \<Rightarrow> char \<Rightarrow> string \<Rightarrow> string" where
  "replace_all old new [] = []"
| "replace_all old new (c # s) =
     (if old \<noteq> [] \<and> has_prefix (c # s) old then new # replace_all old new (drop (length old) (c # s))
      else c # replace_all old new s)"
  by pat_completeness auto
termination
  by (relation "measure (\<lambda>(old, new, s). length s)") (auto simp: Suc_le_eq)

text \<open>\<open>strings.Split\<close> at a byte.\<close>

fun split_at :: "char \<Rightarrow> string \<Rightarrow> string list" where
  "split_at sep [] = [[]]"
| "split_at sep (c # s) =
     (if c = sep then [] # split_at sep s
      else case split_at sep s of [] \<Rightarrow> [[c]] | w # ws \<Rightarrow> (c # w) # ws)"

definition contains_byte :: "string \<Rightarrow> string \<Rightarrow> bool" where
  "contains_byte s cs \<longleftrightarrow> list_ex (\<lambda>c. c \<in> set cs) s"

definition trim_suffix :: "string \<Rightarrow> string \<Rightarrow> string" where
  "trim_suffix s suf = (if has_suffix s suf then take (length s - length suf) s else s)"

definition trim_prefix :: "string \<Rightarrow> string \<Rightarrow> string" where
  "trim_prefix s pre = (if has_prefix s pre then drop (length pre) s else s)"

section \<open>Redirections that write no file\<close>

text \<open>
  \<open>harmlessBashRedirectRE\<close>: \<open>[012]?&?>>?\s*/dev/null\<close> or \<open>2>&1\<close>. The parts start with different bytes, so the
  greedy choice is the only one that can match; the result is what follows the match.
\<close>

definition skip_if :: "(char \<Rightarrow> bool) \<Rightarrow> string \<Rightarrow> string" where
  "skip_if P s = (case s of c # t \<Rightarrow> if P c then t else s | [] \<Rightarrow> [])"

definition null_redirect :: "string \<Rightarrow> string option" where
  "null_redirect s =
     (let t = skip_if (\<lambda>c. c = CHR ''&'') (skip_if (\<lambda>c. c \<in> set ''012'') s)
      in case t of
           c # u \<Rightarrow>
             if c = CHR ''>''
             then let w = dropWhile (\<lambda>c. c \<in> {CHR 0x09, CHR 0x0A, CHR 0x0C, CHR 0x0D, CHR 0x20}) (skip_if (\<lambda>c. c = CHR ''>'') u)
                  in if has_prefix w ''/dev/null'' then Some (drop (length ''/dev/null'') w) else None
             else None
         | [] \<Rightarrow> None)"

definition harmless_redirect :: "string \<Rightarrow> string option" where
  "harmless_redirect s =
     (case null_redirect s of
        Some r \<Rightarrow> Some r
      | None \<Rightarrow> if has_prefix s ''2>&1'' then Some (drop (length ''2>&1'') s) else None)"

lemma skip_if_le: "length (skip_if P s) \<le> length s"
  by (auto simp: skip_if_def split: list.splits)

lemma null_redirect_shorter:
  assumes "null_redirect s = Some r"
  shows "length r < length s"
proof -
  let ?t = "skip_if (\<lambda>c. c = CHR ''&'') (skip_if (\<lambda>c. c \<in> set ''012'') s)"
  obtain u where t: "?t = CHR ''>'' # u"
    using assms by (auto simp: null_redirect_def Let_def split: list.splits if_splits)
  let ?w = "dropWhile (\<lambda>c. c \<in> {CHR 0x09, CHR 0x0A, CHR 0x0C, CHR 0x0D, CHR 0x20}) (skip_if (\<lambda>c. c = CHR ''>'') u)"
  have "r = drop (length ''/dev/null'') ?w"
    using assms t by (simp add: null_redirect_def Let_def split: if_splits)
  then have "length r \<le> length ?w" by simp
  also have "\<dots> \<le> length u" using length_dropWhile_le skip_if_le le_trans by metis
  also have "\<dots> < length ?t" unfolding t by simp
  also have "\<dots> \<le> length s" using skip_if_le le_trans by metis
  finally show ?thesis .
qed

lemma harmless_redirect_shorter: "harmless_redirect s = Some r \<Longrightarrow> length r < length s"
  using null_redirect_shorter
  by (auto simp: harmless_redirect_def has_prefix_iff split: option.splits if_splits)

function drop_redirects :: "string \<Rightarrow> string" where
  "drop_redirects [] = []"
| "drop_redirects (c # s) =
     (case harmless_redirect (c # s) of
        Some r \<Rightarrow> CHR '' '' # drop_redirects r
      | None \<Rightarrow> c # drop_redirects s)"
  by pat_completeness auto
termination
  by (relation "measure length") (auto dest: harmless_redirect_shorter)

section \<open>Argument patterns\<close>

definition splitBashSegments :: "string \<Rightarrow> string list" where
  "splitBashSegments command =
     filter (\<lambda>s. s \<noteq> []) (map trim_space (split_at (CHR 0x00)
       (fold (\<lambda>sep s. replace_all sep (CHR 0x00) s) [''&&'', ''||'', '';'', ''|''] command)))"

definition bashShellOperatorBytes :: string where
  "bashShellOperatorBytes = ''|&;'' @ [CHR 0x0A, CHR 0x0D] @ ''<>''"

definition bashCommandChainsPrograms :: "string \<Rightarrow> bool" where
  "bashCommandChainsPrograms t \<longleftrightarrow> contains_byte t bashShellOperatorBytes \<or> contains t ''`'' \<or> contains t ''$(''"

definition bashPermissionPatternMatches :: "string \<Rightarrow> string \<Rightarrow> bool \<Rightarrow> bool" where
  "bashPermissionPatternMatches pattern command restrictStar =
     (if pattern = ''*'' then \<not> restrictStar \<or> \<not> bashCommandChainsPrograms command
      else if has_suffix pattern '':*'' then
        let prefix = trim_suffix pattern '':*''
        in if command \<noteq> prefix \<and> \<not> has_prefix command (prefix @ '' '') then False
           else \<not> restrictStar \<or> \<not> bashCommandChainsPrograms (trim_prefix command prefix)
      else if has_suffix pattern '' *'' \<and> command = trim_suffix pattern '' *'' then True
      else if \<not> restrictStar then wildcardMatch pattern command
      else wildcardMatchRestricted pattern command bashShellOperatorBytes)"

definition bashPermissionRuleMatches :: "string \<Rightarrow> string \<Rightarrow> bool \<Rightarrow> bool" where
  "bashPermissionRuleMatches pattern command deny =
     (if deny
      then bashPermissionPatternMatches pattern command False \<or>
           list_ex (\<lambda>segment. bashPermissionPatternMatches pattern segment False) (splitBashSegments command)
      else bashPermissionPatternMatches (trim_space pattern) (trim_space (drop_redirects command)) True)"

section \<open>What an allow can match\<close>

lemma restricted_sound: "wildcardMatchRestricted p v bashShellOperatorBytes \<Longrightarrow> glob (swallow_blocked bashShellOperatorBytes) p v"
  using wildcard_sound [of "swallow_blocked bashShellOperatorBytes" p v None]
  by (simp add: wildcardMatchRestricted_def swallow_blocked_def bashShellOperatorBytes_def)

text \<open>A place in a command at which a second program can start, or a file can be written.\<close>

fun chain_point :: "string \<Rightarrow> bool" where
  "chain_point [] \<longleftrightarrow> False"
| "chain_point (c # w) \<longleftrightarrow> c \<in> set (''|&;<>'' @ [CHR 0x0A, CHR 0x0D]) \<or> c = CHR ''`'' \<or> (c = CHR ''$'' \<and> take 1 w = ''('')"

declare chain_point.simps(2) [simp del]

lemma chain_point_Cons:
  "chain_point (c # w) \<longleftrightarrow>
   c \<in> set bashShellOperatorBytes \<or> c = CHR ''`'' \<or> (c = CHR ''$'' \<and> (\<exists>v. w = CHR ''('' # v))"
  by (cases w) (auto simp: chain_point.simps(2) bashShellOperatorBytes_def)

lemma blocked_chain_point: "swallow_blocked bashShellOperatorBytes = chain_point"
proof
  fix v
  show "swallow_blocked bashShellOperatorBytes v = chain_point v"
    by (cases v; cases "tl v") (auto simp: swallow_blocked_def chain_point_Cons)
qed

lemma chains_iff: "bashCommandChainsPrograms t \<longleftrightarrow> (\<exists>a w. t = a @ w \<and> chain_point w)"
proof
  assume "bashCommandChainsPrograms t"
  then consider c where "c \<in> set t" "c \<in> set bashShellOperatorBytes" | a b where "t = a @ ''`'' @ b" | a b where "t = a @ ''$('' @ b"
    by (auto simp: bashCommandChainsPrograms_def contains_byte_def list_ex_iff contains_iff)
  then show "\<exists>a w. t = a @ w \<and> chain_point w"
  proof cases
    case 1
    then obtain a w where "t = a @ c # w" by (auto dest: split_list)
    then show ?thesis using 1(2) chain_point_Cons by blast
  next
    case 2
    then show ?thesis by (intro exI [of _ a] exI [of _ "''`'' @ b"]) (simp add: chain_point_Cons)
  next
    case 3
    then show ?thesis by (intro exI [of _ a] exI [of _ "''$('' @ b"]) (simp add: chain_point_Cons)
  qed
next
  assume "\<exists>a w. t = a @ w \<and> chain_point w"
  then obtain a w' where aw: "t = a @ w'" "chain_point w'" by blast
  moreover have "w' \<noteq> []" using aw(2) by auto
  ultimately obtain c w where t: "t = a @ c # w" and c: "chain_point (c # w)" by (cases w') auto
  then consider "c \<in> set bashShellOperatorBytes" | "c = CHR ''`''" | v where "c = CHR ''$''" "w = CHR ''('' # v"
    by (auto simp: chain_point_Cons)
  then show "bashCommandChainsPrograms t"
  proof cases
    case 1
    then show ?thesis by (simp add: bashCommandChainsPrograms_def contains_byte_def t)
  next
    case 2
    then have "contains t ''`''" unfolding contains_iff t by (intro exI [of _ a] exI [of _ w]) simp
    then show ?thesis by (simp add: bashCommandChainsPrograms_def)
  next
    case 3
    then have "contains t ''$(''" unfolding contains_iff t by (intro exI [of _ a] exI [of _ v]) simp
    then show ?thesis by (simp add: bashCommandChainsPrograms_def)
  qed
qed

text \<open>What may be dropped from a command before it is matched, as a grammar: a redirection to the null device, or \<open>2>&1\<close>.\<close>

definition harmless_text :: "string \<Rightarrow> bool" where
  "harmless_text r \<longleftrightarrow>
     r = ''2>&1'' \<or>
     (\<exists>fd amp gt ws. fd \<in> {[], ''0'', ''1'', ''2''} \<and> amp \<in> {[], ''&''} \<and> gt \<in> {''>'', ''>>''} \<and>
        set ws \<subseteq> {CHR 0x09, CHR 0x0A, CHR 0x0C, CHR 0x0D, CHR 0x20} \<and> r = fd @ amp @ gt @ ws @ ''/dev/null'')"

lemma skip_if_split: "\<exists>x. s = x @ skip_if P s \<and> (x = [] \<or> (\<exists>c. x = [c] \<and> P c))"
  by (cases s) (auto simp: skip_if_def)

lemma null_redirect_text:
  assumes "null_redirect s = Some r"
  shows "\<exists>x. s = x @ r \<and> harmless_text x"
proof -
  let ?sp = "\<lambda>c. c \<in> {CHR 0x09, CHR 0x0A, CHR 0x0C, CHR 0x0D, CHR 0x20}"
  define s1 where "s1 = skip_if (\<lambda>c. c \<in> set ''012'') s"
  define s2 where "s2 = skip_if (\<lambda>c. c = CHR ''&'') s1"
  obtain fd where fd: "s = fd @ s1" "fd \<in> {[], ''0'', ''1'', ''2''}"
    using skip_if_split [of s "\<lambda>c. c \<in> set ''012''"] by (auto simp: s1_def)
  obtain amp where amp: "s1 = amp @ s2" "amp \<in> {[], ''&''}"
    using skip_if_split [of s1 "\<lambda>c. c = CHR ''&''"] by (auto simp: s2_def)
  note found = assms [unfolded null_redirect_def Let_def, folded s1_def, folded s2_def]
  obtain u where u: "s2 = CHR ''>'' # u"
    using found by (auto split: list.splits if_splits)
  define v where "v = skip_if (\<lambda>c. c = CHR ''>'') u"
  obtain gt where gt: "CHR ''>'' # u = gt @ v" "gt \<in> {''>'', ''>>''}"
    using skip_if_split [of u "\<lambda>c. c = CHR ''>''"] that [of "''>''"] that [of "''>>''"] by (auto simp: v_def)
  obtain t where t: "dropWhile ?sp v = ''/dev/null'' @ t" "r = t"
    using found u by (auto simp: v_def has_prefix_iff split: if_splits)
  have "v = takeWhile ?sp v @ ''/dev/null'' @ r"
    using t takeWhile_dropWhile_id [of ?sp v] by simp
  moreover have "set (takeWhile ?sp v) \<subseteq> {CHR 0x09, CHR 0x0A, CHR 0x0C, CHR 0x0D, CHR 0x20}"
    using set_takeWhileD [of _ ?sp v] by blast
  ultimately have "s = (fd @ amp @ gt @ takeWhile ?sp v @ ''/dev/null'') @ r"
    using fd(1) amp(1) u gt(1) by simp
  then show ?thesis
    using fd(2) amp(2) gt(2) \<open>set (takeWhile ?sp v) \<subseteq> _\<close> unfolding harmless_text_def by blast
qed

lemma harmless_redirect_text: "harmless_redirect s = Some r \<Longrightarrow> \<exists>x. s = x @ r \<and> harmless_text x"
  using null_redirect_text
  by (auto simp: harmless_redirect_def has_prefix_iff harmless_text_def split: option.splits if_splits)

text \<open>A command cut into the bytes that are matched and the redirections that are not.\<close>

datatype piece = Kept char | Dropped string

fun piece_text :: "piece \<Rightarrow> string" where
  "piece_text (Kept c) = [c]"
| "piece_text (Dropped r) = r"

fun piece_matched :: "piece \<Rightarrow> string" where
  "piece_matched (Kept c) = [c]"
| "piece_matched (Dropped r) = '' ''"

lemma drop_redirects_pieces:
  "\<exists>pieces. command = concat (map piece_text pieces) \<and> drop_redirects command = concat (map piece_matched pieces) \<and>
     (\<forall>r. Dropped r \<in> set pieces \<longrightarrow> harmless_text r)"
proof (induction command rule: drop_redirects.induct)
  case 1
  show ?case by (rule exI [of _ "[]"]) simp
next
  case (2 c s)
  show ?case
  proof (cases "harmless_redirect (c # s)")
    case None
    with 2(1) obtain ps where "s = concat (map piece_text ps)" "drop_redirects s = concat (map piece_matched ps)"
      "\<forall>r. Dropped r \<in> set ps \<longrightarrow> harmless_text r" by auto
    then show ?thesis using None by (intro exI [of _ "Kept c # ps"]) auto
  next
    case (Some r)
    with 2(2) obtain ps where ps: "r = concat (map piece_text ps)" "drop_redirects r = concat (map piece_matched ps)"
      "\<forall>r. Dropped r \<in> set ps \<longrightarrow> harmless_text r" by auto
    obtain x where x: "c # s = x @ r" "harmless_text x" using harmless_redirect_text [OF Some] by blast
    have "drop_redirects (c # s) = CHR '' '' # drop_redirects r" using Some by simp
    then show ?thesis using x ps by (intro exI [of _ "Dropped x # ps"]) auto
  qed
qed

text \<open>
  What an allow pattern can stand for: its literal bytes in their order, and between them, where it has a star, text in
  which no second program starts and no file is written; \<open>p:*\<close> stands for \<open>p\<close> and such a text, \<open>p *\<close> also for \<open>p\<close> alone.
\<close>

definition spelled_out :: "string \<Rightarrow> string \<Rightarrow> bool" where
  "spelled_out pattern cmd \<longleftrightarrow>
     glob chain_point pattern cmd \<or>
     (\<exists>p rest. pattern = p @ '':*'' \<and> cmd = p @ rest \<and> (rest = [] \<or> hd rest = CHR '' '') \<and>
        (\<forall>a w. rest = a @ w \<longrightarrow> \<not> chain_point w)) \<or>
     pattern = cmd @ '' *''"

lemma trim_suffix_eq: "has_suffix s suf \<Longrightarrow> s = trim_suffix s suf @ suf"
  by (auto simp: trim_suffix_def has_suffix_iff)

lemma glob_any: "\<not> bashCommandChainsPrograms v \<Longrightarrow> glob chain_point ''*'' v"
proof (induction v)
  case (Cons c v)
  have "\<not> chain_point (c # v)" using Cons.prems by (auto simp: chains_iff)
  moreover have "\<not> bashCommandChainsPrograms v"
    using Cons.prems unfolding chains_iff by (metis append_Cons)
  ultimately show ?case using Cons.IH by simp
qed simp

lemma pattern_spelled_out:
  assumes "bashPermissionPatternMatches pattern cmd True"
  shows "spelled_out pattern cmd"
proof -
  consider (any) "pattern = ''*''" "\<not> bashCommandChainsPrograms cmd"
    | (prefix) "has_suffix pattern '':*''" "cmd = trim_suffix pattern '':*'' \<or> has_prefix cmd (trim_suffix pattern '':*'' @ '' '')"
      "\<not> bashCommandChainsPrograms (trim_prefix cmd (trim_suffix pattern '':*''))"
    | (exact) "has_suffix pattern '' *''" "cmd = trim_suffix pattern '' *''"
    | (glob) "wildcardMatchRestricted pattern cmd bashShellOperatorBytes"
    using assms by (auto simp: bashPermissionPatternMatches_def Let_def split: if_splits)
  then show ?thesis
  proof cases
    case any
    then show ?thesis by (simp add: spelled_out_def glob_any)
  next
    case prefix
    let ?p = "trim_suffix pattern '':*''"
    obtain rest where "cmd = ?p @ rest" "rest = [] \<or> hd rest = CHR '' ''" "\<not> bashCommandChainsPrograms rest"
      using prefix(2,3) by (auto simp: has_prefix_iff trim_prefix_def)
    then show ?thesis using trim_suffix_eq [OF prefix(1)] unfolding spelled_out_def chains_iff by blast
  next
    case exact
    then show ?thesis using trim_suffix_eq [OF exact(1)] by (simp add: spelled_out_def)
  next
    case glob
    then show ?thesis using restricted_sound by (simp add: spelled_out_def blocked_chain_point)
  qed
qed

text \<open>
  C13: a pre-approved command runs nothing its rule does not spell out. When an allow rule matches a command, the whole
  command is made of redirections to the null device (spelled \<open>>/dev/null\<close> with an optional descriptor, or \<open>2>&1\<close>)
  and of text that the rule's pattern spells out: the
  pattern's own bytes in their order and, for each star, a stretch in which there is no shell operator, no newline,
  no redirection, no backquote and no command substitution.
\<close>

theorem grant_spells_out_operators:
  assumes "bashPermissionRuleMatches pattern command False"
  shows "\<exists>pieces. command = concat (map piece_text pieces) \<and> (\<forall>r. Dropped r \<in> set pieces \<longrightarrow> harmless_text r) \<and>
    spelled_out (trim_space pattern) (trim_space (concat (map piece_matched pieces)))"
proof -
  obtain pieces where "command = concat (map piece_text pieces)" "drop_redirects command = concat (map piece_matched pieces)"
    "\<forall>r. Dropped r \<in> set pieces \<longrightarrow> harmless_text r"
    using drop_redirects_pieces by blast
  moreover have "spelled_out (trim_space pattern) (trim_space (drop_redirects command))"
    using assms by (intro pattern_spelled_out) (simp add: bashPermissionRuleMatches_def)
  ultimately show ?thesis by metis
qed

theorem grant_spells_out_operators_witness:
  "bashPermissionRuleMatches ''git log *'' ''git log -3 2>/dev/null'' False \<and>
   (\<exists>pieces. ''git log -3 2>/dev/null'' = concat (map piece_text pieces) \<and> (\<forall>r. Dropped r \<in> set pieces \<longrightarrow> harmless_text r) \<and>
      spelled_out (trim_space ''git log *'') (trim_space (concat (map piece_matched pieces))))"
proof -
  have "bashPermissionRuleMatches ''git log *'' ''git log -3 2>/dev/null'' False" by code_simp
  from grant_spells_out_operators [OF this] this show ?thesis by blast
qed

text \<open>
  The redirection is recognised by its text alone: a longer path that begins like the null device is taken for it.
\<close>

lemma longer_path_taken_for_null: "bashPermissionRuleMatches ''git log *'' ''git log >/dev/nullx'' False"
  by code_simp

text \<open>
  A deny rule with a star does not stop every command its pattern describes. A star in the command itself is
  matched against the star of the pattern as a literal, so that the rule \<open>Bash(rm *)\<close> denies \<open>rm a.txt\<close> and lets
  \<open>rm *.txt\<close> pass.
\<close>

theorem deny_rule_misses_star:
  "bashPermissionRuleMatches ''rm *'' ''rm a.txt'' True \<and> glob (\<lambda>v. False) ''rm *'' ''rm *.txt'' \<and>
   \<not> bashPermissionRuleMatches ''rm *'' ''rm *.txt'' True \<and> \<not> bashPermissionRuleMatches ''rm *'' ''cd x && rm *.txt'' True"
  by code_simp

section \<open>Commands that must be confirmed\<close>

datatype bash_danger = BashDangerNone | BashDangerElevated

definition em_dash :: string where
  "em_dash = [CHR 0xE2, CHR 0x80, CHR 0x94]"

definition hasShortOrLongForceFlag :: "string \<Rightarrow> bool" where
  "hasShortOrLongForceFlag n =
     list_ex (\<lambda>f. f = ''--force'' \<or> f = ''--force-with-lease'' \<or>
                  (has_prefix f ''-'' \<and> \<not> has_prefix f ''--'' \<and> contains f ''f'')) (fields n)"

definition pipesRemoteToShell :: "string \<Rightarrow> bool" where
  "pipesRemoteToShell n =
     (if \<not> contains n ''curl'' \<and> \<not> contains n ''wget'' then False
      else list_ex (contains n) [''| sh'', ''|sh'', ''| bash'', ''|bash'', ''| zsh'', ''|zsh'', ''| dash'', ''|dash''])"

text \<open>The first word after \<open>git\<close> that is neither an option nor the value of one.\<close>

fun git_subcommand :: "string list \<Rightarrow> string option" where
  "git_subcommand [] = None"
| "git_subcommand (t # ts) =
     (if t \<in> {''-c'', ''-C'', ''--git-dir'', ''--work-tree'', ''--namespace''}
      then (case ts of [] \<Rightarrow> None | _ # us \<Rightarrow> git_subcommand us)
      else if has_prefix t ''-'' then git_subcommand ts
      else Some t)"

fun git_push_from :: "string list \<Rightarrow> bool" where
  "git_push_from [] = False"
| "git_push_from (f # fs) = ((f = ''git'' \<and> git_subcommand fs = Some ''push'') \<or> git_push_from fs)"

definition isGitPush :: "string \<Rightarrow> bool" where
  "isGitPush n = git_push_from (fields n)"

text \<open>The replacer: at a position where both \<open>||\<close> and \<open>|\<close> match, the one listed first wins.\<close>

function replace_separators :: "string \<Rightarrow> string" where
  "replace_separators [] = []"
| "replace_separators (c # s) =
     (if has_prefix (c # s) ''&&'' \<or> has_prefix (c # s) ''||'' then CHR 0x00 # replace_separators (drop 2 (c # s))
      else if c = CHR ''|'' \<or> c = CHR '';'' then CHR 0x00 # replace_separators s
      else c # replace_separators s)"
  by pat_completeness auto
termination
  by (relation "measure length") auto

definition splitOnShellSeparators :: "string \<Rightarrow> string list" where
  "splitOnShellSeparators n = split_at (CHR 0x00) (replace_separators n)"

definition env_start :: "char \<Rightarrow> bool" where
  "env_start c \<longleftrightarrow> c = CHR ''_'' \<or> (97 \<le> (of_char c :: nat) \<and> (of_char c :: nat) \<le> 122)"

definition env_rest :: "char \<Rightarrow> bool" where
  "env_rest c \<longleftrightarrow> env_start c \<or> (48 \<le> (of_char c :: nat) \<and> (of_char c :: nat) \<le> 57)"

definition isEnvAssignment :: "string \<Rightarrow> bool" where
  "isEnvAssignment tok =
     (case index_of tok ''='' of
        None \<Rightarrow> False
      | Some eq \<Rightarrow> (case take eq tok of [] \<Rightarrow> False | c # cs \<Rightarrow> env_start c \<and> list_all env_rest cs))"

definition starts_with_sudo :: "string \<Rightarrow> bool" where
  "starts_with_sudo seg = (case dropWhile isEnvAssignment (fields seg) of [] \<Rightarrow> False | f # _ \<Rightarrow> f = ''sudo'')"

definition usesSudo :: "string \<Rightarrow> bool" where
  "usesSudo n =
     (if list_ex starts_with_sudo (splitOnShellSeparators n) then True
      else contains n ''sudo'' \<and>
           list_ex (contains n) [''bash -c'', ''sh -c'', ''zsh -c'', ''dash -c'', ''bash -lc'', ''sh -lc''])"

definition normalized :: "string \<Rightarrow> string" where
  "normalized cmd = join '' '' (fields (to_lower cmd))"

definition ClassifyBashCommand :: "string \<Rightarrow> bash_danger \<times> string" where
  "ClassifyBashCommand cmd =
     (let n = normalized cmd
      in if n = [] then (BashDangerNone, [])
         else if isGitPush n \<and> hasShortOrLongForceFlag n
         then (BashDangerElevated, ''force-pushes to a remote '' @ em_dash @ '' rewrites published history, very hard to undo'')
         else if isGitPush n
         then (BashDangerElevated, ''pushes commits to a remote '' @ em_dash @ '' an external, hard-to-revert side effect'')
         else if contains n ''git reset --hard''
         then (BashDangerElevated, ''git reset --hard discards uncommitted work '' @ em_dash @ '' irreversible'')
         else if contains n ''git clean'' \<and> hasShortOrLongForceFlag n
         then (BashDangerElevated, ''git clean -f permanently deletes untracked files '' @ em_dash @ '' irreversible'')
         else if pipesRemoteToShell n
         then (BashDangerElevated, ''pipes remote content straight into a shell '' @ em_dash @ '' remote code execution risk'')
         else if usesSudo n then (BashDangerElevated, ''runs with elevated (root) privileges via sudo'')
         else if contains n ''rm -rf'' \<or> contains n ''rm -fr''
         then (BashDangerElevated, ''recursively force-deletes files '' @ em_dash @ '' irreversible'')
         else (BashDangerNone, []))"

section \<open>Normalised commands\<close>

lemma join_Cons: "join sep (x # xs) = (if xs = [] then x else x @ sep @ join sep xs)"
  by (cases xs) auto

text \<open>A word of a command line: not empty, and no white space starts inside.\<close>

definition is_word :: "string \<Rightarrow> bool" where
  "is_word w \<longleftrightarrow> w \<noteq> [] \<and> until_space w = w"

lemma space_blocks_encoding:
  "e \<in> set space_encodings \<Longrightarrow> u \<noteq> [] \<Longrightarrow> has_prefix (u @ CHR '' '' # r) e \<Longrightarrow> has_prefix u e"
  by (cases u; cases "tl u"; cases "tl (tl u)") (auto simp: space_encodings_def has_prefix_def)

lemma until_space_stop: "until_space w = w \<Longrightarrow> until_space (w @ CHR '' '' # r) = w"
proof (induction w)
  case Nil
  have "lead_space (CHR '' '' # r) \<noteq> 0" by (auto simp: lead_space_eq_0 space_encodings_def has_prefix_def)
  then show ?case by simp
next
  case (Cons c w)
  then have l: "lead_space (c # w) = 0" "until_space w = w" by (auto split: if_splits)
  then have "lead_space (c # w @ CHR '' '' # r) = 0"
    using space_blocks_encoding [of _ "c # w" r] by (auto simp: lead_space_eq_0)
  then show ?case using Cons.IH [OF l(2)] by simp
qed

lemma until_space_word: "is_word (until_space s)" if "s \<noteq> []" "lead_space s = 0"
proof -
  have pre: "\<exists>v. s = until_space s @ v" for s by (induction s) auto
  have "until_space (until_space s) = until_space s" for s
  proof (induction s)
    case (Cons c s)
    show ?case
    proof (cases "lead_space (c # s) = 0")
      case True
      obtain v where v: "s = until_space s @ v" using pre by blast
      have "lead_space (c # until_space s) = 0"
        using True v by (auto simp: lead_space_eq_0 has_prefix_iff) (metis append_Cons append_assoc)
      then show ?thesis using True Cons.IH by simp
    qed simp
  qed simp
  then show ?thesis using until_space_nonempty that by (auto simp: is_word_def)
qed

lemma fields_words: "list_all is_word (fields s)"
proof (induction s rule: fields.induct)
  case (1 s)
  show ?case
  proof (cases "trim_left s = []")
    case False
    then show ?thesis using 1 [OF refl] until_space_word [of "trim_left s"] by (subst fields.simps) (simp add: Let_def)
  qed (simp add: fields.simps)
qed

lemma fields_join: "list_all is_word ws \<Longrightarrow> fields (join '' '' ws) = ws"
proof (induction ws)
  case Nil
  have "trim_left [] = []" by (simp add: trim_left_fixed)
  then show ?case by (simp add: fields.simps)
next
  case (Cons w ws)
  have w: "until_space w = w" "w \<noteq> []" "lead_space w = 0"
    using Cons.prems by (auto simp: is_word_def) (metis until_space.simps(2) list.exhaust list.distinct(1))
  show ?case
  proof (cases "ws = []")
    case True
    then show ?thesis using w by (subst fields.simps) (simp add: Let_def trim_left_fixed fields.simps)
  next
    case False
    let ?r = "join '' '' ws"
    have t: "trim_left (w @ CHR '' '' # ?r) = w @ CHR '' '' # ?r"
      using w space_blocks_encoding [of _ w ?r] by (intro trim_left_fixed) (auto simp: lead_space_eq_0)
    have sp: "fields (CHR '' '' # s) = fields s" for s
    proof -
      have "lead_space (CHR '' '' # s) = 1"
        by (simp add: lead_space_def space_encodings_def has_prefix_def)
      then have "trim_left (CHR '' '' # s) = trim_left s" by (subst trim_left.simps) simp
      then show ?thesis by (simp add: fields.simps [of "CHR '' '' # s"] fields.simps [of s] Let_def)
    qed
    have "fields (w @ CHR '' '' # ?r) = w # fields (CHR '' '' # ?r)"
      by (subst fields.simps) (simp add: Let_def t until_space_stop [OF w(1)])
    then show ?thesis using False Cons by (simp add: join_Cons sp)
  qed
qed

lemma fields_normalized: "fields (normalized cmd) = fields (to_lower cmd)"
  unfolding normalized_def by (rule fields_join [OF fields_words])

text \<open>Global options of git, with the values some of them take.\<close>

fun git_options :: "string list \<Rightarrow> bool" where
  "git_options [] = True"
| "git_options (t # ts) =
     (if t \<in> {''-c'', ''-C'', ''--git-dir'', ''--work-tree'', ''--namespace''}
      then (case ts of [] \<Rightarrow> False | _ # us \<Rightarrow> git_options us)
      else has_prefix t ''-'' \<and> git_options ts)"

lemma git_subcommand_options: "git_options opts \<Longrightarrow> git_subcommand (opts @ ws) = git_subcommand ws"
proof (induction opts rule: git_options.induct)
  case (2 t ts)
  show ?case
  proof (cases "t \<in> {''-c'', ''-C'', ''--git-dir'', ''--work-tree'', ''--namespace''}")
    case True
    then obtain u us where "ts = u # us" using 2(3) by (cases ts) auto
    then show ?thesis using 2(1) [OF True] 2(3) True by auto
  next
    case False
    then show ?thesis using 2(2) 2(3) by auto
  qed
qed simp

lemma git_push_found: "git_push_from (pre @ ''git'' # opts @ ''push'' # rest)" if "git_options opts"
  using git_subcommand_options [OF that, of "''push'' # rest"] by (induction pre) (auto simp: has_prefix_def)

text \<open>
  No spelling of a push escapes the confirmation floor. Whatever the case and the spacing, a command one of
  whose words is \<open>git\<close>, followed by global options with their values and then \<open>push\<close>, is classified as
  elevated.
\<close>

theorem git_push_is_elevated:
  assumes "fields (to_lower cmd) = pre @ ''git'' # opts @ ''push'' # rest" "git_options opts"
  shows "fst (ClassifyBashCommand cmd) = BashDangerElevated"
proof -
  have push: "isGitPush (normalized cmd)"
    using git_push_found [OF assms(2)] by (simp add: isGitPush_def fields_normalized assms(1))
  moreover have "normalized cmd \<noteq> []" using push by (auto simp: isGitPush_def fields.simps trim_left_fixed)
  ultimately show ?thesis by (simp add: ClassifyBashCommand_def Let_def)
qed

theorem git_push_is_elevated_witness:
  "fst (ClassifyBashCommand ''cd x  &&  GIT -C /r --no-pager   Push'') = BashDangerElevated"
  by (rule git_push_is_elevated [of _ "[''cd'', ''x'', ''&&'']" "[''-c'', ''/r'', ''--no-pager'']" "[]"]) code_simp+

end
