(* ===== verification/GoPath.thy ===== *)
theory GoPath
  imports BashRules
begin

text \<open>
  The functions of Go's \<open>path/filepath\<close> the permission rules use, on Unix: \<open>Clean\<close>, \<open>Join\<close>, \<open>IsAbs\<close>, \<open>Dir\<close>,
  \<open>Base\<close> and \<open>Rel\<close>. Purely lexical; \<open>ToSlash\<close> and \<open>FromSlash\<close> are the identity there.
\<close>

definition slash :: char where
  "slash = CHR ''/''"

definition path_IsAbs :: "string \<Rightarrow> bool" where
  "path_IsAbs p \<longleftrightarrow> has_prefix p ''/''"

text \<open>The elements of a path, resolved: \<open>stack\<close> holds those kept so far, last first.\<close>

fun clean_elements :: "bool \<Rightarrow> string list \<Rightarrow> string list \<Rightarrow> string list" where
  "clean_elements rooted stack [] = rev stack"
| "clean_elements rooted stack (e # es) =
     (if e = [] \<or> e = ''.'' then clean_elements rooted stack es
      else if e = ''..'' then
        (case stack of
           [] \<Rightarrow> if rooted then clean_elements rooted [] es else clean_elements rooted [''..''] es
         | prev # rest \<Rightarrow> if prev = ''..'' then clean_elements rooted (''..'' # stack) es else clean_elements rooted rest es)
      else clean_elements rooted (e # stack) es)"

definition path_Clean :: "string \<Rightarrow> string" where
  "path_Clean p =
     (if p = [] then ''.''
      else let rooted = path_IsAbs p;
               es = clean_elements rooted [] (split_at slash p)
           in if rooted then ''/'' @ join ''/'' es
              else if es = [] then ''.'' else join ''/'' es)"

definition path_Join :: "string \<Rightarrow> string \<Rightarrow> string" where
  "path_Join a b =
     (if a = [] then if b = [] then [] else path_Clean b
      else path_Clean (a @ ''/'' @ b))"

definition path_Dir :: "string \<Rightarrow> string" where
  "path_Dir p = path_Clean (rev (dropWhile (\<lambda>c. c \<noteq> slash) (rev p)))"

definition path_Base :: "string \<Rightarrow> string" where
  "path_Base p =
     (if p = [] then ''.''
      else let t = rev (dropWhile (\<lambda>c. c = slash) (rev p));
               b = rev (takeWhile (\<lambda>c. c \<noteq> slash) (rev t))
           in if b = [] then ''/'' else b)"

text \<open>\<open>Rel\<close>: \<open>None\<close> is its error.\<close>

definition rel_elements :: "string \<Rightarrow> string list" where
  "rel_elements p = (if p = [] then [] else if p = ''/'' then [[]] else split_at slash p)"

fun strip_common :: "'a list \<Rightarrow> 'a list \<Rightarrow> 'a list \<times> 'a list" where
  "strip_common (x # xs) (y # ys) = (if x = y then strip_common xs ys else (x # xs, y # ys))"
| "strip_common xs ys = (xs, ys)"

definition path_Rel :: "string \<Rightarrow> string \<Rightarrow> string option" where
  "path_Rel basepath targpath =
     (let base = path_Clean basepath; targ = path_Clean targpath
      in if targ = base then Some ''.''
         else let base = (if base = ''.'' then [] else base)
              in if path_IsAbs base \<noteq> path_IsAbs targ then None
                 else case strip_common (rel_elements base) (rel_elements targ) of (bs, ts) \<Rightarrow>
                        if bs \<noteq> [] \<and> ts \<noteq> [] \<and> hd bs = ''..'' then None
                        else Some (join ''/'' (replicate (length bs) ''..'' @ ts)))"

section \<open>Laws\<close>

lemma split_at_parts: "w \<in> set (split_at c s) \<Longrightarrow> c \<notin> set w"
proof (induction c s arbitrary: w rule: split_at.induct)
  case (2 sep c s)
  then show ?case by (cases "split_at sep s") (auto split: if_splits)
qed simp

lemma split_at_Nil [simp]: "split_at c s \<noteq> []"
  by (induction c s rule: split_at.induct) (auto split: list.splits)

lemma split_at_join: "ws \<noteq> [] \<Longrightarrow> \<forall>w \<in> set ws. c \<notin> set w \<Longrightarrow> split_at c (join [c] ws) = ws"
proof (induction ws)
  case (Cons w ws)
  have one: "c \<notin> set w \<Longrightarrow> split_at c w = [w]" for w by (induction w) auto
  have app: "c \<notin> set w \<Longrightarrow> split_at c (w @ c # s) = w # split_at c s" for w s by (induction w) auto
  show ?case using Cons one app by (cases ws) (auto simp: join_Cons)
qed simp

text \<open>What \<open>Clean\<close> leaves: proper names, with \<open>..\<close> only in front of a relative path.\<close>

definition clean_list :: "bool \<Rightarrow> string list \<Rightarrow> bool" where
  "clean_list rooted es \<longleftrightarrow>
     (\<exists>n names. es = replicate n ''..'' @ names \<and> (rooted \<longrightarrow> n = 0) \<and>
        (\<forall>e \<in> set names. e \<noteq> [] \<and> e \<noteq> ''.'' \<and> e \<noteq> ''..'' \<and> slash \<notin> set e))"

lemma clean_list_push:
  "clean_list rooted es \<Longrightarrow> e \<noteq> [] \<Longrightarrow> e \<noteq> ''.'' \<Longrightarrow> e \<noteq> ''..'' \<Longrightarrow> slash \<notin> set e \<Longrightarrow> clean_list rooted (es @ [e])"
  unfolding clean_list_def
proof (elim exE conjE)
  fix n names
  assume "e \<noteq> []" "e \<noteq> ''.''" "e \<noteq> ''..''" "slash \<notin> set e" "es = replicate n ''..'' @ names" "rooted \<longrightarrow> n = 0"
    "\<forall>e \<in> set names. e \<noteq> [] \<and> e \<noteq> ''.'' \<and> e \<noteq> ''..'' \<and> slash \<notin> set e"
  then show "\<exists>n names'. es @ [e] = replicate n ''..'' @ names' \<and> (rooted \<longrightarrow> n = 0) \<and>
      (\<forall>e \<in> set names'. e \<noteq> [] \<and> e \<noteq> ''.'' \<and> e \<noteq> ''..'' \<and> slash \<notin> set e)"
    by (intro exI [of _ n] exI [of _ "names @ [e]"]) auto
qed

lemma clean_list_rooted: "clean_list True es \<Longrightarrow> ''..'' \<notin> set es"
  by (auto simp: clean_list_def)

lemma clean_list_pop: "clean_list rooted (es @ [e]) \<Longrightarrow> e \<noteq> ''..'' \<Longrightarrow> clean_list rooted es"
proof -
  assume a: "clean_list rooted (es @ [e])" and e: "e \<noteq> ''..''"
  then obtain n names where n: "es @ [e] = replicate n ''..'' @ names" "rooted \<longrightarrow> n = 0"
    "\<forall>e \<in> set names. e \<noteq> [] \<and> e \<noteq> ''.'' \<and> e \<noteq> ''..'' \<and> slash \<notin> set e"
    unfolding clean_list_def by blast
  have "names \<noteq> []" using n(1) e by (metis append_Nil2 in_set_replicate last_in_set last_snoc snoc_eq_iff_butlast)
  then obtain ns x where "names = ns @ [x]" by (metis append_butlast_last_id)
  then show ?thesis using n unfolding clean_list_def by (intro exI [of _ n] exI [of _ ns]) auto
qed

lemma clean_list_up: "clean_list False es \<Longrightarrow> es = [] \<or> last es = ''..'' \<Longrightarrow> clean_list False (es @ [''..''])"
proof -
  assume a: "clean_list False es" and l: "es = [] \<or> last es = ''..''"
  then obtain n names where n: "es = replicate n ''..'' @ names" "\<forall>e \<in> set names. e \<noteq> [] \<and> e \<noteq> ''.'' \<and> e \<noteq> ''..'' \<and> slash \<notin> set e"
    unfolding clean_list_def by blast
  have "names = []"
  proof (rule ccontr)
    assume "names \<noteq> []"
    then have "last es = last names" "last names \<in> set names" "es \<noteq> []" using n(1) by auto
    then show False using l n(2) by auto
  qed
  then show ?thesis using n(1) unfolding clean_list_def
    by (intro exI [of _ "Suc n"] exI [of _ "[]"]) (simp add: replicate_append_same)
qed

lemma clean_elements_clean:
  "clean_list rooted (rev stack) \<Longrightarrow> \<forall>e \<in> set es. slash \<notin> set e \<Longrightarrow> clean_list rooted (clean_elements rooted stack es)"
proof (induction rooted stack es rule: clean_elements.induct)
  case (2 rooted stack e es)
  show ?case
  proof (cases stack)
    case Nil
    then show ?thesis
      using 2 clean_list_push [of rooted "[]" e] clean_list_up [of "[]"] by (auto simp: clean_list_def [of False "[]"])
  next
    case (Cons prev rest)
    then show ?thesis
      using 2 clean_list_push [of rooted "rev stack" e] clean_list_pop [of rooted "rev rest" prev] clean_list_up [of "rev stack"]
        clean_list_rooted [of "rev stack"]
      by (cases rooted) auto
  qed
qed simp

lemma clean_elements_fixed:
  "clean_list rooted (rev stack @ es) \<Longrightarrow> clean_elements rooted stack es = rev stack @ es"
proof (induction rooted stack es rule: clean_elements.induct)
  case (2 rooted stack e es)
  obtain n names where n: "rev stack @ e # es = replicate n ''..'' @ names" "rooted \<longrightarrow> n = 0"
    "\<forall>e \<in> set names. e \<noteq> [] \<and> e \<noteq> ''.'' \<and> e \<noteq> ''..'' \<and> slash \<notin> set e"
    using "2.prems" unfolding clean_list_def by blast
  have e: "e \<noteq> [] \<and> e \<noteq> ''.''"
  proof -
    have "e \<in> set (rev stack @ e # es)" by simp
    then have "e \<in> set (replicate n ''..'') \<union> set names" unfolding n(1) by simp
    then show ?thesis using n(3) by (auto split: if_splits)
  qed
  show ?case
  proof (cases "e = ''..''")
    case True
    have "length stack < n"
    proof (rule ccontr)
      assume "\<not> length stack < n"
      then have "e \<in> set names" using arg_cong [OF n(1), of "\<lambda>x. x ! length stack"] arg_cong [OF n(1), of length]
        by (auto simp: nth_append)
      then show False using n(3) True by auto
    qed
    then have "rev stack = take (length stack) (replicate n ''..'')" using arg_cong [OF n(1), of "take (length stack)"] by simp
    then have st: "rev stack = replicate (length stack) ''..''" using \<open>length stack < n\<close> by simp
    then have "stack = [] \<or> (\<exists>rest. stack = ''..'' # rest)"
      by (cases stack) (auto simp: replicate_append_same [symmetric])
    moreover have "\<not> rooted" using \<open>length stack < n\<close> n(2) by auto
    ultimately show ?thesis using 2 True by auto
  next
    case False
    then show ?thesis using 2 e by auto
  qed
qed simp

text \<open>\<open>Clean\<close> is idempotent.\<close>

lemma clean_parts:
  assumes "clean_list rooted es" "es \<noteq> []"
  shows "split_at slash (join ''/'' es) = es" "hd (join ''/'' es) \<noteq> slash" "join ''/'' es \<noteq> []"
proof -
  obtain n names where "es = replicate n ''..'' @ names" "\<forall>e \<in> set names. e \<noteq> [] \<and> e \<noteq> ''.'' \<and> e \<noteq> ''..'' \<and> slash \<notin> set e"
    using assms(1) unfolding clean_list_def by metis
  moreover have "''..'' \<noteq> [] \<and> slash \<notin> set ''..''" by (simp add: slash_def)
  ultimately have e: "\<forall>e \<in> set es. e \<noteq> [] \<and> slash \<notin> set e" by (metis Un_iff in_set_replicate set_append)
  then show "split_at slash (join ''/'' es) = es" using split_at_join [OF assms(2), of slash] by (simp add: slash_def)
  obtain x xs where x: "es = x # xs" "x \<noteq> []" using assms(2) e by (cases es) auto
  then show "join ''/'' es \<noteq> []" by (simp add: join_Cons)
  have "hd (join ''/'' es) = hd x" using x by (simp add: join_Cons)
  then show "hd (join ''/'' es) \<noteq> slash" using x e by (metis hd_in_set list.set_intros(1))
qed

lemma path_Clean_idem: "path_Clean (path_Clean p) = path_Clean p"
proof (cases "p = []")
  case True
  have "path_Clean ''.'' = ''.''" "path_Clean [] = ''.''" by code_simp+
  then show ?thesis using True by simp
next
  case False
  let ?r = "path_IsAbs p"
  define es where "es = clean_elements ?r [] (split_at slash p)"
  have p: "path_Clean p = (if ?r then ''/'' @ join ''/'' es else if es = [] then ''.'' else join ''/'' es)"
    using False by (simp add: path_Clean_def Let_def es_def)
  have cl: "clean_list ?r es"
    unfolding es_def by (rule clean_elements_clean) (auto simp: clean_list_def dest: split_at_parts)
  show ?thesis
  proof (cases "es = []")
    case True
    have "path_Clean ''.'' = ''.''" "path_Clean ''/'' = ''/''" by code_simp+
    then show ?thesis using True by (simp add: p)
  next
    case ne: False
    note parts = clean_parts [OF cl ne]
    have fixed: "clean_elements ?r [] es = es" using clean_elements_fixed [of ?r "[]" es] cl by simp
    show ?thesis
    proof (cases ?r)
      case True
      have "split_at slash (''/'' @ join ''/'' es) = [] # es" using parts(1) by (simp add: slash_def)
      moreover have "path_IsAbs (''/'' @ join ''/'' es)" by (simp add: path_IsAbs_def has_prefix_def)
      ultimately have "path_Clean (''/'' @ join ''/'' es) = ''/'' @ join ''/'' es"
        using True fixed by (simp add: path_Clean_def Let_def)
      then show ?thesis using True by (simp add: p)
    next
      case rel: False
      have "\<not> path_IsAbs (join ''/'' es)" using parts(2,3) by (cases "join ''/'' es") (auto simp: path_IsAbs_def has_prefix_def slash_def)
      then have "path_Clean (join ''/'' es) = join ''/'' es" using rel fixed ne parts by (simp add: path_Clean_def Let_def)
      then show ?thesis using rel ne by (simp add: p)
    qed
  qed
qed

end
