(* ===== verification/AtomicFile.thy ===== *)
theory AtomicFile
  imports GoPath
begin

text \<open>
  \<open>internal/fileutil/atomic.go\<close> with \<open>atomic_platform_unix.go\<close>: the atomic replacement of a file, on which the undo
  manager and the state files of the loops rest. The operating system is an argument: a value of type \<open>'f os\<close> gives, on
  a file system state of any type \<open>'f\<close>, the answers and the effects of its calls. An open file is named by its path.
  What the calls document is \<open>os_laws\<close>; under these laws the new content is readable when \<open>AtomicWrite\<close> succeeds, and
  also when it fails with an uncertain commit.
\<close>

section \<open>The operating system\<close>

text \<open>\<open>Wrapped\<close> is \<open>fmt.Errorf\<close> with \<open>%w\<close>, \<open>CommitUncertain\<close> the error type of that name.\<close>

datatype io_error = IsNotExist | IOError string | Wrapped string io_error | CommitUncertain io_error

datatype lstat_result = LstatError io_error | RegularFile | DirEntry | OtherEntry

record 'f os =
  os_Lstat :: "'f \<Rightarrow> string \<Rightarrow> lstat_result"
  os_ReadFile :: "'f \<Rightarrow> string \<Rightarrow> io_error + string"
  os_Remove :: "'f \<Rightarrow> string \<Rightarrow> 'f \<times> io_error option"
  os_MkdirAll :: "'f \<Rightarrow> string \<Rightarrow> 'f \<times> io_error option"
  os_Rename :: "'f \<Rightarrow> string \<Rightarrow> string \<Rightarrow> 'f \<times> io_error option"
  os_CreateTemp :: "'f \<Rightarrow> string \<Rightarrow> string \<Rightarrow> 'f \<times> (io_error + string)"
  os_Write :: "'f \<Rightarrow> string \<Rightarrow> string \<Rightarrow> 'f \<times> io_error option"
  os_Chmod :: "'f \<Rightarrow> string \<Rightarrow> nat \<Rightarrow> 'f \<times> io_error option"
  os_SyncFile :: "'f \<Rightarrow> string \<Rightarrow> 'f \<times> io_error option"
  os_CloseFile :: "'f \<Rightarrow> string \<Rightarrow> 'f \<times> io_error option"
  os_Open :: "'f \<Rightarrow> string \<Rightarrow> 'f \<times> io_error option"
  os_restore :: "'f \<Rightarrow> string \<Rightarrow> io_error option"

section \<open>The atomic write\<close>

definition syncParentDir :: "'f os \<Rightarrow> 'f \<Rightarrow> string \<Rightarrow> 'f \<times> io_error option" where
  "syncParentDir os f path =
     (case os_Open os f path of
        (f, Some e) \<Rightarrow> (f, Some e)
      | (f, None) \<Rightarrow>
          (case os_SyncFile os f path of
             (f, syncErr) \<Rightarrow> (case os_CloseFile os f path of (f, closeErr) \<Rightarrow> (f, if syncErr \<noteq> None then syncErr else closeErr))))"

definition replaceAtomic :: "'f os \<Rightarrow> 'f \<Rightarrow> string \<Rightarrow> string \<Rightarrow> 'f \<times> io_error option" where
  "replaceAtomic os f oldPath newPath = os_Rename os f oldPath newPath"

text \<open>The deferred clean-up of a write that did not get to the replacement: close the file if it is open, remove it.\<close>

definition abandon :: "'f os \<Rightarrow> bool \<Rightarrow> string \<Rightarrow> 'f \<Rightarrow> 'f" where
  "abandon os isClosed tmp f = fst (os_Remove os (if isClosed then f else fst (os_CloseFile os f tmp)) tmp)"

definition stage :: "'f \<times> io_error option \<Rightarrow> ('f \<Rightarrow> 'f) \<Rightarrow> string \<Rightarrow> ('f \<Rightarrow> 'f \<times> io_error option) \<Rightarrow> 'f \<times> io_error option" where
  "stage x cleanup what k = (case x of (f, Some e) \<Rightarrow> (cleanup f, Some (Wrapped what e)) | (f, None) \<Rightarrow> k f)"

definition AtomicWrite :: "'f os \<Rightarrow> 'f \<Rightarrow> string \<Rightarrow> string \<Rightarrow> nat \<Rightarrow> 'f \<times> io_error option" where
  "AtomicWrite os f path data perm =
     (let dir = path_Dir path
      in case os_CreateTemp os f dir ''.gokin-*.tmp'' of
           (f, Inl e) \<Rightarrow> (f, Some (Wrapped ''create atomic-write temp file: '' e))
         | (f, Inr tmp) \<Rightarrow>
             stage (os_Write os f tmp data) (abandon os False tmp) ''write atomic-write temp file: '' (\<lambda>f.
             stage (os_Chmod os f tmp perm) (abandon os False tmp) ''set atomic-write temp permissions: '' (\<lambda>f.
             stage (os_SyncFile os f tmp) (abandon os False tmp) ''sync atomic-write temp file: '' (\<lambda>f.
             stage (os_CloseFile os f tmp) (abandon os True tmp) ''close atomic-write temp file: '' (\<lambda>f.
             stage (replaceAtomic os f tmp path) (abandon os True tmp) ''replace atomic-write target: '' (\<lambda>f.
             case syncParentDir os f dir of
               (f, Some e) \<Rightarrow> (f, Some (CommitUncertain (Wrapped ''sync atomic-write parent directory: '' e)))
             | (f, None) \<Rightarrow> (f, None)))))))"

section \<open>What the calls document\<close>

definition gone :: "'f os \<Rightarrow> 'f \<Rightarrow> string \<Rightarrow> bool" where
  "gone os f p \<longleftrightarrow> os_Lstat os f p = LstatError IsNotExist"

definition there :: "'f os \<Rightarrow> 'f \<Rightarrow> string \<Rightarrow> bool" where
  "there os f p \<longleftrightarrow> os_Lstat os f p \<in> {RegularFile, DirEntry, OtherEntry}"

text \<open>The same kind of entry, and the same content of a regular file (a link may point elsewhere after a move).\<close>

definition same_entry :: "'f os \<Rightarrow> 'f \<Rightarrow> string \<Rightarrow> 'f \<Rightarrow> string \<Rightarrow> bool" where
  "same_entry os f p f' p' \<longleftrightarrow>
     os_Lstat os f' p' = os_Lstat os f p \<and> (os_Lstat os f p = RegularFile \<longrightarrow> os_ReadFile os f' p' = os_ReadFile os f p)"

text \<open>Read permission for the owner, who is the process that created the file.\<close>

definition owner_readable :: "nat \<Rightarrow> bool" where
  "owner_readable mode \<longleftrightarrow> mode div 256 mod 2 = 1"

text \<open>A path in normal form that is not its own directory.\<close>

definition plain_path :: "string \<Rightarrow> bool" where
  "plain_path p \<longleftrightarrow> path_Clean p = p \<and> path_Dir p \<noteq> p"

definition temp_laws :: "'f os \<Rightarrow> bool" where
  "temp_laws os \<longleftrightarrow>
     (\<forall>f f' dir pat tmp. os_CreateTemp os f dir pat = (f', Inr tmp) \<longrightarrow> os_Lstat os f' tmp = RegularFile \<and> os_ReadFile os f' tmp = Inr []) \<and>
     (\<forall>f f' p c. os_Write os f p c = (f', None) \<and> os_Lstat os f p = RegularFile \<and> os_ReadFile os f p = Inr [] \<longrightarrow>
        os_Lstat os f' p = RegularFile \<and> os_ReadFile os f' p = Inr c) \<and>
     (\<forall>f f' p mode. os_Chmod os f p mode = (f', None) \<and> owner_readable mode \<and> there os f p \<longrightarrow> same_entry os f p f' p)"

definition quiet_laws :: "'f os \<Rightarrow> bool" where
  "quiet_laws os \<longleftrightarrow>
     (\<forall>f f' p q e. os_SyncFile os f p = (f', e) \<and> there os f q \<longrightarrow> same_entry os f q f' q) \<and>
     (\<forall>f f' p q e. os_CloseFile os f p = (f', e) \<and> there os f q \<longrightarrow> same_entry os f q f' q) \<and>
     (\<forall>f f' p q e. os_Open os f p = (f', e) \<and> there os f q \<longrightarrow> same_entry os f q f' q)"

definition tree_laws :: "'f os \<Rightarrow> bool" where
  "tree_laws os \<longleftrightarrow>
     (\<forall>f f' p. os_Remove os f p = (f', None) \<or> os_Remove os f p = (f', Some IsNotExist) \<longrightarrow> gone os f' p) \<and>
     (\<forall>f f' p q e. os_Remove os f p = (f', e) \<and> gone os f q \<longrightarrow> gone os f' q) \<and>
     (\<forall>f f' p. os_MkdirAll os f p = (f', None) \<and> gone os f p \<longrightarrow> os_Lstat os f' p = DirEntry) \<and>
     (\<forall>f f' p q. os_MkdirAll os f p = (f', None) \<and> there os f q \<longrightarrow> same_entry os f q f' q) \<and>
     (\<forall>f f' p. os_MkdirAll os f (path_Dir p) = (f', None) \<and> plain_path p \<and> gone os f p \<longrightarrow> gone os f' p) \<and>
     (\<forall>f f' a b. os_Rename os f a b = (f', None) \<and> there os f a \<longrightarrow>
        same_entry os f a f' b \<and> (gone os f b \<longrightarrow> gone os f' a))"

definition os_laws :: "'f os \<Rightarrow> bool" where
  "os_laws os \<longleftrightarrow> temp_laws os \<and> quiet_laws os \<and> tree_laws os"

lemma os_lawsD:
  assumes "os_laws os"
  shows "os_CreateTemp os f dir pat = (f', Inr tmp) \<Longrightarrow> os_Lstat os f' tmp = RegularFile \<and> os_ReadFile os f' tmp = Inr []"
    and "os_Write os f p c = (f', None) \<Longrightarrow> os_Lstat os f p = RegularFile \<Longrightarrow> os_ReadFile os f p = Inr [] \<Longrightarrow>
      os_Lstat os f' p = RegularFile \<and> os_ReadFile os f' p = Inr c"
    and "os_Chmod os f p mode = (f', None) \<Longrightarrow> owner_readable mode \<Longrightarrow> there os f p \<Longrightarrow> same_entry os f p f' p"
    and "os_SyncFile os f p = (f', e) \<Longrightarrow> there os f q \<Longrightarrow> same_entry os f q f' q"
    and "os_CloseFile os f p = (f', e) \<Longrightarrow> there os f q \<Longrightarrow> same_entry os f q f' q"
    and "os_Open os f p = (f', e) \<Longrightarrow> there os f q \<Longrightarrow> same_entry os f q f' q"
    and "os_Remove os f p = (f', None) \<or> os_Remove os f p = (f', Some IsNotExist) \<Longrightarrow> gone os f' p"
    and "os_Remove os f p = (f', e) \<Longrightarrow> gone os f q \<Longrightarrow> gone os f' q"
    and "os_MkdirAll os f p = (f', None) \<Longrightarrow> gone os f p \<Longrightarrow> os_Lstat os f' p = DirEntry"
    and "os_MkdirAll os f p = (f', None) \<Longrightarrow> there os f q \<Longrightarrow> same_entry os f q f' q"
    and "os_MkdirAll os f (path_Dir p) = (f', None) \<Longrightarrow> plain_path p \<Longrightarrow> gone os f p \<Longrightarrow> gone os f' p"
    and "os_Rename os f a b = (f', None) \<Longrightarrow> there os f a \<Longrightarrow> same_entry os f a f' b"
    and "os_Rename os f a b = (f', None) \<Longrightarrow> there os f a \<Longrightarrow> gone os f b \<Longrightarrow> gone os f' a"
proof -
  note l = assms [unfolded os_laws_def]
  note t = l [THEN conjunct1, unfolded temp_laws_def] and q = l [THEN conjunct2, THEN conjunct1, unfolded quiet_laws_def]
    and r = l [THEN conjunct2, THEN conjunct2, unfolded tree_laws_def]
  show "os_CreateTemp os f dir pat = (f', Inr tmp) \<Longrightarrow> os_Lstat os f' tmp = RegularFile \<and> os_ReadFile os f' tmp = Inr []" using t by blast
  show "os_Write os f p c = (f', None) \<Longrightarrow> os_Lstat os f p = RegularFile \<Longrightarrow> os_ReadFile os f p = Inr [] \<Longrightarrow>
      os_Lstat os f' p = RegularFile \<and> os_ReadFile os f' p = Inr c" using t by blast
  show "os_Chmod os f p mode = (f', None) \<Longrightarrow> owner_readable mode \<Longrightarrow> there os f p \<Longrightarrow> same_entry os f p f' p" using t by blast
  show "os_SyncFile os f p = (f', e) \<Longrightarrow> there os f q \<Longrightarrow> same_entry os f q f' q" using q by blast
  show "os_CloseFile os f p = (f', e) \<Longrightarrow> there os f q \<Longrightarrow> same_entry os f q f' q" using q by blast
  show "os_Open os f p = (f', e) \<Longrightarrow> there os f q \<Longrightarrow> same_entry os f q f' q" using q by blast
qed (use assms [unfolded os_laws_def, THEN conjunct2, THEN conjunct2, unfolded tree_laws_def] in metis)+

section \<open>What an atomic write leaves\<close>

definition holds_text :: "'f os \<Rightarrow> 'f \<Rightarrow> string \<Rightarrow> string \<Rightarrow> bool" where
  "holds_text os f p c \<longleftrightarrow> os_Lstat os f p = RegularFile \<and> os_ReadFile os f p = Inr c"

lemma holds_text_same: "holds_text os f p c \<Longrightarrow> same_entry os f p f' p' \<Longrightarrow> holds_text os f' p' c"
  by (simp add: holds_text_def same_entry_def)

lemma holds_text_there: "holds_text os f p c \<Longrightarrow> there os f p"
  by (simp add: holds_text_def there_def)

lemma syncParentDir_keeps:
  assumes "os_laws os" "holds_text os f p c" "syncParentDir os f dir = (f', e)"
  shows "holds_text os f' p c"
proof -
  obtain f1 e1 where 1: "os_Open os f dir = (f1, e1)" by fastforce
  have h1: "holds_text os f1 p c"
    using holds_text_same [OF assms(2) os_lawsD(6) [OF assms(1) 1 holds_text_there [OF assms(2)]]] .
  obtain f2 e2 where 2: "os_SyncFile os f1 dir = (f2, e2)" by fastforce
  have h2: "holds_text os f2 p c" using holds_text_same [OF h1 os_lawsD(4) [OF assms(1) 2 holds_text_there [OF h1]]] .
  obtain f3 e3 where 3: "os_CloseFile os f2 dir = (f3, e3)" by fastforce
  have h3: "holds_text os f3 p c" using holds_text_same [OF h2 os_lawsD(5) [OF assms(1) 3 holds_text_there [OF h2]]] .
  show ?thesis
    using assms(3) h1 h3 1 2 3 by (cases e1) (auto simp: syncParentDir_def)
qed

text \<open>
  When an atomic write reports success the target holds the new content, and so it does when the write reports an
  uncertain commit.
\<close>

theorem AtomicWrite_visible:
  assumes laws: "os_laws os" and mode: "owner_readable perm"
    and wr: "AtomicWrite os f path data perm = (f', r)" and r: "r = None \<or> (\<exists>e. r = Some (CommitUncertain e))"
  shows "holds_text os f' path data"
proof -
  obtain f1 c1 where 1: "os_CreateTemp os f (path_Dir path) ''.gokin-*.tmp'' = (f1, c1)" by fastforce
  obtain tmp where tmp: "c1 = Inr tmp" using wr r 1 by (cases c1) (auto simp: AtomicWrite_def)
  obtain f2 e2 where 2: "os_Write os f1 tmp data = (f2, e2)" by fastforce
  obtain f3 e3 where 3: "os_Chmod os f2 tmp perm = (f3, e3)" by fastforce
  obtain f4 e4 where 4: "os_SyncFile os f3 tmp = (f4, e4)" by fastforce
  obtain f5 e5 where 5: "os_CloseFile os f4 tmp = (f5, e5)" by fastforce
  obtain f6 e6 where 6: "os_Rename os f5 tmp path = (f6, e6)" by fastforce
  obtain f7 e7 where 7: "syncParentDir os f6 (path_Dir path) = (f7, e7)" by fastforce
  have e: "e2 = None" "e3 = None" "e4 = None" "e5 = None" "e6 = None" and f': "f' = f7"
    using wr r 1 2 3 4 5 6 7 tmp
    by (auto simp: AtomicWrite_def Let_def stage_def replaceAtomic_def split: option.splits)
  have "holds_text os f2 tmp data"
    using os_lawsD(1) [OF laws 1 [unfolded tmp]] os_lawsD(2) [OF laws 2 [unfolded e]] by (simp add: holds_text_def)
  then have h3: "holds_text os f3 tmp data"
    using holds_text_same os_lawsD(3) [OF laws 3 [unfolded e] mode] holds_text_there by metis
  then have h4: "holds_text os f4 tmp data" using holds_text_same os_lawsD(4) [OF laws 4] holds_text_there by metis
  then have h5: "holds_text os f5 tmp data" using holds_text_same os_lawsD(5) [OF laws 5] holds_text_there by metis
  then have "holds_text os f6 path data" using holds_text_same os_lawsD(12) [OF laws 6 [unfolded e]] holds_text_there by metis
  then show ?thesis using syncParentDir_keeps [OF laws _ 7] f' by simp
qed

end
