(* ===== verification/UndoFiles.thy ===== *)
theory UndoFiles
  imports AtomicFile
begin

text \<open>
  Reverting and re-applying file changes, \<open>internal/undo/change.go\<close> and the file half of
  \<open>internal/undo/manager.go\<close>: the recorded change, the preflight that compares the working tree with
  what the change left behind (on a virtual view, so that a group is checked before the first write),
  and the writes themselves, with \<open>AtomicWrite\<close> of \<open>AtomicFile\<close>. The operating system is an argument, as there;
  \<open>os_restore\<close> is the verdict of \<open>validateRestorePath\<close> on a path.
\<close>

section \<open>Changes\<close>

record file_change =
  fc_ID :: string
  fc_FilePath :: string
  fc_Tool :: string
  fc_Timestamp :: time
  fc_OldContent :: string
  fc_NewContent :: string
  fc_WasNew :: bool
  fc_GroupID :: string
  fc_Mode :: nat
  fc_CreatedDirs :: "string list"

definition NewFileChange :: "string \<Rightarrow> time \<Rightarrow> string \<Rightarrow> string \<Rightarrow> string \<Rightarrow> string \<Rightarrow> bool \<Rightarrow> file_change" where
  "NewFileChange newID now filePath tool oldContent newContent wasNew =
     \<lparr>fc_ID = newID, fc_FilePath = filePath, fc_Tool = tool, fc_Timestamp = now, fc_OldContent = oldContent,
      fc_NewContent = newContent, fc_WasNew = wasNew, fc_GroupID = [], fc_Mode = 0, fc_CreatedDirs = []\<rparr>"

definition Summary :: "file_change \<Rightarrow> string" where
  "Summary c = (if fc_WasNew c then ''created '' @ fc_FilePath c else ''modified '' @ fc_FilePath c)"

definition SizeChange :: "file_change \<Rightarrow> int" where
  "SizeChange c = int (length (fc_NewContent c)) - int (length (fc_OldContent c))"

definition MaxSnapshotBytes :: nat where
  "MaxSnapshotBytes = 10 * 2 ^ 20"

definition SnapshotTooLarge :: "string \<Rightarrow> string \<Rightarrow> bool" where
  "SnapshotTooLarge oldContent newContent \<longleftrightarrow> MaxSnapshotBytes < length oldContent + length newContent"

definition changePaths :: "file_change \<Rightarrow> string list" where
  "changePaths c = (if fc_Tool c = ''move'' then [fc_OldContent c, fc_FilePath c] else [fc_FilePath c])"

definition permOrDefault :: "nat \<Rightarrow> nat" where
  "permOrDefault m = (if m = 0 then 420 else m)"

section \<open>The state of a path\<close>

datatype path_state = MissingPath | FileState string | DirectoryState | OtherState

datatype path_error =
    MissingSource string
  | InspectError string string io_error
  | Conflict string string "path_state option" path_state
  | WriteError io_error

definition readPathState :: "'f os \<Rightarrow> 'f \<Rightarrow> string \<Rightarrow> io_error + path_state" where
  "readPathState os f path =
     (case os_Lstat os f path of
        LstatError e \<Rightarrow> if e = IsNotExist then Inr MissingPath else Inl e
      | RegularFile \<Rightarrow>
          (case os_ReadFile os f path of Inl e \<Rightarrow> Inl e | Inr content \<Rightarrow> Inr (FileState content))
      | DirEntry \<Rightarrow> Inr DirectoryState
      | OtherEntry \<Rightarrow> Inr OtherState)"

section \<open>The virtual view\<close>

record path_view =
  v_states :: "(string \<times> path_state) list"
  v_moves :: "(string \<times> string) list"

definition newPathStateView :: path_view where
  "newPathStateView = \<lparr>v_states = [], v_moves = []\<rparr>"

definition below :: "string \<Rightarrow> string \<Rightarrow> bool" where
  "below dir path \<longleftrightarrow> has_prefix path (dir @ ''/'')"

text \<open>Where a path of the simulated tree is on disk, newest move first; \<open>None\<close> under a vacated source.\<close>

fun disk_path :: "(string \<times> string) list \<Rightarrow> string \<Rightarrow> string option" where
  "disk_path [] path = Some path"
| "disk_path ((source, destination) # moves) path =
     (if below destination path then disk_path moves (source @ drop (length destination) path)
      else if below source path then None
      else disk_path moves path)"

definition view_set :: "path_view \<Rightarrow> string \<Rightarrow> path_state \<Rightarrow> path_view" where
  "view_set v path s = v\<lparr>v_states := AList.update path s (v_states v)\<rparr>"

definition view_get :: "'f os \<Rightarrow> 'f \<Rightarrow> path_view \<Rightarrow> string \<Rightarrow> path_view \<times> (io_error + path_state)" where
  "view_get os f v path =
     (case map_of (v_states v) path of
        Some s \<Rightarrow> (v, Inr s)
      | None \<Rightarrow>
          (case disk_path (rev (v_moves v)) path of
             None \<Rightarrow> (v, Inr MissingPath)
           | Some diskPath \<Rightarrow>
               (case (if diskPath \<noteq> path then os_restore os f diskPath else None) of
                  Some e \<Rightarrow> (v, Inl e)
                | None \<Rightarrow>
                    (case readPathState os f diskPath of
                       Inl e \<Rightarrow> (v, Inl e)
                     | Inr s \<Rightarrow> (view_set v path s, Inr s)))))"

definition move_children :: "string \<Rightarrow> string \<Rightarrow> (string \<times> path_state) list \<Rightarrow> (string \<times> path_state) list" where
  "move_children source destination states =
     foldl (\<lambda>m (p, s). AList.update p s m)
       (List.map_filter (\<lambda>(p, s). if below source p then Some (p, MissingPath)
                                  else if below destination p then None else Some (p, s)) states)
       (List.map_filter (\<lambda>(p, s). if below source p then Some (destination @ drop (length source) p, s) else None) states)"

definition view_move :: "path_view \<Rightarrow> string \<Rightarrow> string \<Rightarrow> path_state \<Rightarrow> path_view" where
  "view_move v source destination s =
     (let v = (if s = DirectoryState
               then \<lparr>v_states = move_children source destination (v_states v), v_moves = v_moves v @ [(source, destination)]\<rparr>
               else v)
      in view_set (view_set v source MissingPath) destination s)"

definition requirePathState ::
    "'f os \<Rightarrow> 'f \<Rightarrow> path_view \<Rightarrow> string \<Rightarrow> path_state \<Rightarrow> string \<Rightarrow> path_view \<times> path_error option" where
  "requirePathState os f v path expected operation =
     (case view_get os f v path of
        (v, Inl e) \<Rightarrow> (v, Some (InspectError operation path e))
      | (v, Inr actual) \<Rightarrow>
          if actual \<noteq> expected then (v, Some (Conflict operation path (Some expected) actual)) else (v, None))"

definition requirePresentPath ::
    "'f os \<Rightarrow> 'f \<Rightarrow> path_view \<Rightarrow> string \<Rightarrow> string \<Rightarrow> path_view \<times> (path_error + path_state)" where
  "requirePresentPath os f v path operation =
     (case view_get os f v path of
        (v, Inl e) \<Rightarrow> (v, Inl (InspectError operation path e))
      | (v, Inr actual) \<Rightarrow>
          if actual = MissingPath then (v, Inl (Conflict operation path None actual)) else (v, Inr actual))"

text \<open>Continue with the next check unless the last one failed.\<close>

definition checked :: "path_view \<times> path_error option \<Rightarrow> (path_view \<Rightarrow> path_view \<times> path_error option) \<Rightarrow> path_view \<times> path_error option" where
  "checked x k = (case x of (v, Some e) \<Rightarrow> (v, Some e) | (v, None) \<Rightarrow> k v)"

definition is_delete :: "file_change \<Rightarrow> bool" where
  "is_delete c \<longleftrightarrow> fc_Tool c = ''delete'' \<or> fc_Tool c = ''batch_delete''"

definition simulateUndo :: "'f os \<Rightarrow> 'f \<Rightarrow> file_change \<Rightarrow> path_view \<Rightarrow> path_view \<times> path_error option" where
  "simulateUndo os f c v =
     (if fc_Tool c = ''move'' then
        if fc_OldContent c = [] then (v, Some (MissingSource ''undo''))
        else checked (requirePathState os f v (fc_OldContent c) MissingPath ''undo'') (\<lambda>v.
          case requirePresentPath os f v (fc_FilePath c) ''undo'' of
            (v, Inl e) \<Rightarrow> (v, Some e)
          | (v, Inr s) \<Rightarrow> (view_move v (fc_FilePath c) (fc_OldContent c) s, None))
      else if is_delete c then
        checked (requirePathState os f v (fc_FilePath c) MissingPath ''undo'') (\<lambda>v.
          (view_set v (fc_FilePath c) (FileState (fc_OldContent c)), None))
      else if fc_Tool c = ''mkdir'' then
        checked (requirePathState os f v (fc_FilePath c) DirectoryState ''undo'') (\<lambda>v.
          (view_set v (fc_FilePath c) MissingPath, None))
      else
        checked (requirePathState os f v (fc_FilePath c) (FileState (fc_NewContent c)) ''undo'') (\<lambda>v.
          (view_set v (fc_FilePath c) (if fc_WasNew c then MissingPath else FileState (fc_OldContent c)), None)))"

definition simulateRedo :: "'f os \<Rightarrow> 'f \<Rightarrow> file_change \<Rightarrow> path_view \<Rightarrow> path_view \<times> path_error option" where
  "simulateRedo os f c v =
     (if fc_Tool c = ''move'' then
        if fc_OldContent c = [] then (v, Some (MissingSource ''redo''))
        else case requirePresentPath os f v (fc_OldContent c) ''redo'' of
            (v, Inl e) \<Rightarrow> (v, Some e)
          | (v, Inr s) \<Rightarrow>
              checked (requirePathState os f v (fc_FilePath c) MissingPath ''redo'') (\<lambda>v.
                (view_move v (fc_OldContent c) (fc_FilePath c) s, None))
      else if is_delete c then
        checked (requirePathState os f v (fc_FilePath c) (FileState (fc_OldContent c)) ''redo'') (\<lambda>v.
          (view_set v (fc_FilePath c) MissingPath, None))
      else if fc_Tool c = ''mkdir'' then
        checked (requirePathState os f v (fc_FilePath c) MissingPath ''redo'') (\<lambda>v.
          (view_set v (fc_FilePath c) DirectoryState, None))
      else
        checked (requirePathState os f v (fc_FilePath c)
                   (if fc_WasNew c then MissingPath else FileState (fc_OldContent c)) ''redo'') (\<lambda>v.
          (view_set v (fc_FilePath c) (FileState (fc_NewContent c)), None)))"

fun simulate_all ::
    "(file_change \<Rightarrow> path_view \<Rightarrow> path_view \<times> path_error option) \<Rightarrow> path_view \<Rightarrow> file_change list \<Rightarrow> path_error option" where
  "simulate_all sim v [] = None"
| "simulate_all sim v (c # cs) = (case sim c v of (v, Some e) \<Rightarrow> Some e | (v, None) \<Rightarrow> simulate_all sim v cs)"

definition preflightUndoChanges :: "'f os \<Rightarrow> 'f \<Rightarrow> file_change list \<Rightarrow> path_error option" where
  "preflightUndoChanges os f cs = simulate_all (simulateUndo os f) newPathStateView cs"

definition preflightRedoChanges :: "'f os \<Rightarrow> 'f \<Rightarrow> file_change list \<Rightarrow> path_error option" where
  "preflightRedoChanges os f cs = simulate_all (simulateRedo os f) newPathStateView cs"

section \<open>The writes\<close>

text \<open>Run a call; on success go on with the next.\<close>

definition and_then :: "'f \<times> io_error option \<Rightarrow> ('f \<Rightarrow> 'f \<times> path_error option) \<Rightarrow> 'f \<times> path_error option" where
  "and_then x k = (case x of (f, Some e) \<Rightarrow> (f, Some (WriteError e)) | (f, None) \<Rightarrow> k f)"

definition ending :: "'f \<times> io_error option \<Rightarrow> 'f \<times> path_error option" where
  "ending x = and_then x (\<lambda>f. (f, None))"

text \<open>\<open>os.Remove\<close>, where a missing path is no error.\<close>

definition remove_path :: "'f os \<Rightarrow> 'f \<Rightarrow> string \<Rightarrow> 'f \<times> path_error option" where
  "remove_path os f path =
     (case os_Remove os f path of
        (f, Some e) \<Rightarrow> if e = IsNotExist then (f, None) else (f, Some (WriteError e))
      | (f, None) \<Rightarrow> (f, None))"

definition write_file :: "'f os \<Rightarrow> 'f \<Rightarrow> string \<Rightarrow> string \<Rightarrow> nat \<Rightarrow> 'f \<times> path_error option" where
  "write_file os f path content mode =
     and_then (os_MkdirAll os f (path_Dir path)) (\<lambda>f. ending (AtomicWrite os f path content (permOrDefault mode)))"

definition revertMove :: "'f os \<Rightarrow> 'f \<Rightarrow> file_change \<Rightarrow> 'f \<times> path_error option" where
  "revertMove os f c =
     (if fc_OldContent c = [] then (f, Some (MissingSource ''undo''))
      else and_then (os_MkdirAll os f (path_Dir (fc_OldContent c))) (\<lambda>f.
             ending (os_Rename os f (fc_FilePath c) (fc_OldContent c))))"

definition applyMove :: "'f os \<Rightarrow> 'f \<Rightarrow> file_change \<Rightarrow> 'f \<times> path_error option" where
  "applyMove os f c =
     (if fc_OldContent c = [] then (f, Some (MissingSource ''redo''))
      else and_then (os_MkdirAll os f (path_Dir (fc_FilePath c))) (\<lambda>f.
             ending (os_Rename os f (fc_OldContent c) (fc_FilePath c))))"

fun prune_dirs :: "'f os \<Rightarrow> string \<Rightarrow> 'f \<Rightarrow> string list \<Rightarrow> 'f" where
  "prune_dirs os leaf f [] = f"
| "prune_dirs os leaf f (d # ds) =
     (if d = leaf then prune_dirs os leaf f ds
      else case os_Remove os f d of
        (f, Some e) \<Rightarrow> f
      | (f, None) \<Rightarrow> prune_dirs os leaf f ds)"

definition revertMkdir :: "'f os \<Rightarrow> 'f \<Rightarrow> file_change \<Rightarrow> 'f \<times> path_error option" where
  "revertMkdir os f c =
     (case remove_path os f (fc_FilePath c) of
        (f, Some e) \<Rightarrow> (f, Some e)
      | (f, None) \<Rightarrow> (prune_dirs os (fc_FilePath c) f (fc_CreatedDirs c), None))"

definition revertChangeUnchecked :: "'f os \<Rightarrow> 'f \<Rightarrow> file_change \<Rightarrow> 'f \<times> path_error option" where
  "revertChangeUnchecked os f c =
     (if fc_Tool c = ''move'' then revertMove os f c
      else if fc_Tool c = ''mkdir'' then revertMkdir os f c
      else if fc_WasNew c then remove_path os f (fc_FilePath c)
      else write_file os f (fc_FilePath c) (fc_OldContent c) (fc_Mode c))"

definition revertChange :: "'f os \<Rightarrow> 'f \<Rightarrow> file_change \<Rightarrow> 'f \<times> path_error option" where
  "revertChange os f c =
     (case preflightUndoChanges os f [c] of Some e \<Rightarrow> (f, Some e) | None \<Rightarrow> revertChangeUnchecked os f c)"

definition applyChangeUnchecked :: "'f os \<Rightarrow> 'f \<Rightarrow> file_change \<Rightarrow> 'f \<times> path_error option" where
  "applyChangeUnchecked os f c =
     (if fc_Tool c = ''move'' then applyMove os f c
      else if fc_Tool c = ''mkdir'' then ending (os_MkdirAll os f (fc_FilePath c))
      else if is_delete c then remove_path os f (fc_FilePath c)
      else write_file os f (fc_FilePath c) (fc_NewContent c) (fc_Mode c))"

definition applyChange :: "'f os \<Rightarrow> 'f \<Rightarrow> file_change \<Rightarrow> 'f \<times> path_error option" where
  "applyChange os f c =
     (case preflightRedoChanges os f [c] of Some e \<Rightarrow> (f, Some e) | None \<Rightarrow> applyChangeUnchecked os f c)"

end
