(* ===== verification/UndoManager.thy ===== *)
theory UndoManager
  imports UndoFiles PlanUndo
begin

text \<open>
  The undo history, \<open>internal/undo/tracker.go\<close> and the history half of \<open>internal/undo/manager.go\<close>:
  a bounded stack of recorded changes, a redo stack, groups, exact transactions by change ID, and the
  counters a plan capture relies on. The manager's lock makes every method one step on the file
  system state and the history. What the observer is told is recorded in \<open>um_log\<close>.
\<close>

section \<open>The tracker\<close>

definition DefaultMaxChanges :: nat where
  "DefaultMaxChanges = 100"

record tracker =
  tr_changes :: "file_change list"
  tr_maxSize :: nat

definition NewTracker :: tracker where
  "NewTracker = \<lparr>tr_changes = [], tr_maxSize = DefaultMaxChanges\<rparr>"

definition NewTrackerWithSize :: "int \<Rightarrow> tracker" where
  "NewTrackerWithSize maxSize = \<lparr>tr_changes = [], tr_maxSize = (if maxSize \<le> 0 then DefaultMaxChanges else nat maxSize)\<rparr>"

definition Tracker_Record :: "tracker \<Rightarrow> file_change \<Rightarrow> tracker" where
  "Tracker_Record t c =
     t\<lparr>tr_changes := (if tr_maxSize t \<le> length (tr_changes t) then drop 1 (tr_changes t) else tr_changes t) @ [c]\<rparr>"

definition GetLast :: "tracker \<Rightarrow> file_change option" where
  "GetLast t = (if tr_changes t = [] then None else Some (last (tr_changes t)))"

definition PopLast :: "tracker \<Rightarrow> tracker \<times> file_change option" where
  "PopLast t = (if tr_changes t = [] then (t, None)
                else (t\<lparr>tr_changes := butlast (tr_changes t)\<rparr>, Some (last (tr_changes t))))"

definition Tracker_ListRecent :: "tracker \<Rightarrow> int \<Rightarrow> file_change list" where
  "Tracker_ListRecent t n =
     (if n \<le> 0 \<or> tr_changes t = [] then [] else take (nat n) (rev (tr_changes t)))"

definition Tracker_Count :: "tracker \<Rightarrow> nat" where
  "Tracker_Count t = length (tr_changes t)"

definition Tracker_Clear :: "tracker \<Rightarrow> tracker" where
  "Tracker_Clear t = t\<lparr>tr_changes := []\<rparr>"

definition GetByID :: "tracker \<Rightarrow> string \<Rightarrow> file_change option" where
  "GetByID t i = List.find (\<lambda>c. fc_ID c = i) (rev (tr_changes t))"

text \<open>Remove the newest change with the ID.\<close>

fun remove_newest :: "string \<Rightarrow> file_change list \<Rightarrow> file_change list \<times> file_change option" where
  "remove_newest i [] = ([], None)"
| "remove_newest i (c # cs) =
     (case remove_newest i cs of
        (cs, Some x) \<Rightarrow> (c # cs, Some x)
      | (_, None) \<Rightarrow> if fc_ID c = i then (cs, Some c) else (c # cs, None))"

definition RemoveByID :: "tracker \<Rightarrow> string \<Rightarrow> tracker \<times> file_change option" where
  "RemoveByID t i = (case remove_newest i (tr_changes t) of (cs, x) \<Rightarrow> (t\<lparr>tr_changes := cs\<rparr>, x))"

section \<open>The manager\<close>

record operation =
  op_Change :: file_change
  op_Undo :: bool
  op_Missing :: string

record undo_manager =
  um_tracker :: tracker
  um_undone :: "file_change list"
  um_maxRedo :: nat
  um_activeGroup :: string
  um_recordCount :: "64 word"
  um_mutations :: "64 word"
  um_observer :: bool
  um_log :: "operation list list"

definition NewManagerWithTracker :: "tracker \<Rightarrow> undo_manager" where
  "NewManagerWithTracker t =
     \<lparr>um_tracker = t, um_undone = [], um_maxRedo = 50, um_activeGroup = [], um_recordCount = 0, um_mutations = 0,
      um_observer = False, um_log = []\<rparr>"

definition NewUndoManager :: undo_manager where
  "NewUndoManager = NewManagerWithTracker NewTracker"

definition SetActiveGroup :: "undo_manager \<Rightarrow> string \<Rightarrow> undo_manager" where
  "SetActiveGroup m g = m\<lparr>um_activeGroup := g\<rparr>"

definition ClearActiveGroup :: "undo_manager \<Rightarrow> undo_manager" where
  "ClearActiveGroup m = m\<lparr>um_activeGroup := []\<rparr>"

definition observe :: "undo_manager \<Rightarrow> operation list \<Rightarrow> undo_manager" where
  "observe m ops = (if um_observer m then m\<lparr>um_log := um_log m @ [ops]\<rparr> else m)"

definition operation_of :: "bool \<Rightarrow> file_change \<Rightarrow> operation" where
  "operation_of undo c = \<lparr>op_Change = c, op_Undo = undo, op_Missing = []\<rparr>"

definition observeChanges :: "undo_manager \<Rightarrow> file_change list \<Rightarrow> bool \<Rightarrow> undo_manager" where
  "observeChanges m cs undo = observe m (map (operation_of undo) cs)"

definition SetObserver :: "undo_manager \<Rightarrow> bool \<Rightarrow> undo_manager" where
  "SetObserver m present = m\<lparr>um_observer := present\<rparr>"

definition MarkUntracked :: "undo_manager \<Rightarrow> string \<Rightarrow> string \<Rightarrow> undo_manager" where
  "MarkUntracked m path reason =
     observe m [\<lparr>op_Change = (NewFileChange [] 0 path [] [] [] False), op_Undo = False, op_Missing = reason\<rparr>]"

definition mutated :: "undo_manager \<Rightarrow> undo_manager" where
  "mutated m = m\<lparr>um_mutations := um_mutations m + 1\<rparr>"

definition Manager_Record :: "undo_manager \<Rightarrow> file_change \<Rightarrow> undo_manager \<times> bool" where
  "Manager_Record m c =
     (if SnapshotTooLarge (fc_OldContent c) (fc_NewContent c)
      then (MarkUntracked m (fc_FilePath c) ''file exceeds the snapshot limit'', False)
      else let c = (if um_activeGroup m \<noteq> [] \<and> fc_GroupID c = [] then c\<lparr>fc_GroupID := um_activeGroup m\<rparr> else c)
           in (observe (mutated (m\<lparr>um_tracker := Tracker_Record (um_tracker m) c, um_undone := [],
                                    um_recordCount := um_recordCount m + 1\<rparr>))
                 [operation_of False c], True))"

datatype undo_error =
    NothingToUndo | NothingToRedo
  | FailedUndo path_error | FailedRedo path_error
  | RolledBack path_error | RollbackIncomplete path_error
  | NoGroup string
  | NoIDs | EmptyID | DuplicateID string
  | HistoryGone "string list" | LaterOverlap string string

definition push_undone :: "undo_manager \<Rightarrow> file_change \<Rightarrow> undo_manager" where
  "push_undone m c =
     m\<lparr>um_undone := (if um_maxRedo m \<le> length (um_undone m) then drop 1 (um_undone m) else um_undone m) @ [c]\<rparr>"

text \<open>The body shared by \<open>Undo\<close> and the ungrouped \<open>UndoLastGroup\<close>.\<close>

definition Undo :: "'f os \<Rightarrow> 'f \<Rightarrow> undo_manager \<Rightarrow> 'f \<times> undo_manager \<times> (undo_error + file_change)" where
  "Undo os f m =
     (case PopLast (um_tracker m) of
        (t, None) \<Rightarrow> (f, m\<lparr>um_tracker := t\<rparr>, Inl NothingToUndo)
      | (t, Some c) \<Rightarrow>
          (case revertChange os f c of
             (f, Some e) \<Rightarrow> (f, m\<lparr>um_tracker := Tracker_Record t c\<rparr>, Inl (FailedUndo e))
           | (f, None) \<Rightarrow>
               (f, observe (mutated (push_undone (m\<lparr>um_tracker := t\<rparr>) c)) [operation_of True c], Inr c)))"

definition Redo :: "'f os \<Rightarrow> 'f \<Rightarrow> undo_manager \<Rightarrow> 'f \<times> undo_manager \<times> (undo_error + file_change)" where
  "Redo os f m =
     (if um_undone m = [] then (f, m, Inl NothingToRedo)
      else let c = last (um_undone m); rest = butlast (um_undone m)
           in case applyChange os f c of
                (f, Some e) \<Rightarrow> (f, m\<lparr>um_undone := rest @ [c]\<rparr>, Inl (FailedRedo e))
              | (f, None) \<Rightarrow>
                  (f, observe (mutated (m\<lparr>um_undone := rest, um_tracker := Tracker_Record (um_tracker m) c\<rparr>))
                        [operation_of False c], Inr c))"

section \<open>Transactions\<close>

text \<open>
  Apply a list of changes; at the first failure the ones done so far are returned with the error.
\<close>

fun run_all ::
    "('f \<Rightarrow> file_change \<Rightarrow> 'f \<times> path_error option) \<Rightarrow> 'f \<Rightarrow> file_change list \<Rightarrow> file_change list \<Rightarrow> 'f \<times> file_change list \<times> path_error option" where
  "run_all act f acc [] = (f, acc, None)"
| "run_all act f acc (c # cs) =
     (case act f c of
        (f, Some e) \<Rightarrow> (f, acc, Some e)
      | (f, None) \<Rightarrow> run_all act f (acc @ [c]) cs)"

text \<open>Roll back what was done, after a preflight: going on after an error (groups), or stopping at it (exact transactions).\<close>

fun roll_on :: "('f \<Rightarrow> file_change \<Rightarrow> 'f \<times> path_error option) \<Rightarrow> 'f \<Rightarrow> file_change list \<Rightarrow> bool \<Rightarrow> 'f \<times> bool" where
  "roll_on act f [] failed = (f, failed)"
| "roll_on act f (c # cs) failed =
     (case act f c of (f, e) \<Rightarrow> roll_on act f cs (failed \<or> e \<noteq> None))"

definition roll_back_group ::
    "('f \<Rightarrow> file_change list \<Rightarrow> path_error option) \<Rightarrow> ('f \<Rightarrow> file_change \<Rightarrow> 'f \<times> path_error option) \<Rightarrow> 'f \<Rightarrow> file_change list \<Rightarrow> 'f \<times> bool" where
  "roll_back_group pre act f finished =
     (if pre f (rev finished) \<noteq> None then (f, True) else roll_on act f (rev finished) False)"

definition roll_back_exact ::
    "('f \<Rightarrow> file_change list \<Rightarrow> path_error option) \<Rightarrow> ('f \<Rightarrow> file_change \<Rightarrow> 'f \<times> path_error option) \<Rightarrow> 'f \<Rightarrow> file_change list \<Rightarrow> 'f \<times> bool" where
  "roll_back_exact pre act f finished =
     (if pre f (rev finished) \<noteq> None then (f, True)
      else case run_all act f [] (rev finished) of (f, _, e) \<Rightarrow> (f, e \<noteq> None))"

definition failed_error :: "bool \<Rightarrow> path_error \<Rightarrow> undo_error" where
  "failed_error incomplete e = (if incomplete then RollbackIncomplete e else RolledBack e)"

definition undoGroup :: "'f os \<Rightarrow> 'f \<Rightarrow> undo_manager \<Rightarrow> string \<Rightarrow> 'f \<times> undo_manager \<times> (undo_error + file_change list)" where
  "undoGroup os f m g =
     (let grouped = rev (filter (\<lambda>c. fc_GroupID c = g) (tr_changes (um_tracker m)))
      in if grouped = [] then (f, m, Inl (NoGroup g))
         else case preflightUndoChanges os f grouped of
           Some e \<Rightarrow> (f, m, Inl (FailedUndo e))
         | None \<Rightarrow>
             (case run_all (revertChange os) f [] grouped of
                (f, reverted, Some e) \<Rightarrow>
                  (case roll_back_group (preflightRedoChanges os) (applyChange os) f reverted of
                     (f, bad) \<Rightarrow> (f, m, Inl (failed_error bad e)))
              | (f, reverted, None) \<Rightarrow>
                  let t = (um_tracker m)\<lparr>tr_changes := filter (\<lambda>c. fc_GroupID c \<noteq> g) (tr_changes (um_tracker m))\<rparr>;
                      m = foldl push_undone (m\<lparr>um_tracker := t\<rparr>) reverted
                  in (f, observeChanges (mutated m) reverted True, Inr reverted)))"

definition UndoGroup :: "'f os \<Rightarrow> 'f \<Rightarrow> undo_manager \<Rightarrow> string \<Rightarrow> 'f \<times> undo_manager \<times> (undo_error + file_change list)" where
  "UndoGroup os f m g = undoGroup os f m g"

definition one :: "'f \<times> undo_manager \<times> (undo_error + file_change) \<Rightarrow> 'f \<times> undo_manager \<times> (undo_error + file_change list)" where
  "one x = (case x of (f, m, Inl e) \<Rightarrow> (f, m, Inl e) | (f, m, Inr c) \<Rightarrow> (f, m, Inr [c]))"

definition UndoLastGroup :: "'f os \<Rightarrow> 'f \<Rightarrow> undo_manager \<Rightarrow> 'f \<times> undo_manager \<times> (undo_error + file_change list)" where
  "UndoLastGroup os f m =
     (case GetLast (um_tracker m) of
        None \<Rightarrow> (f, m, Inl NothingToUndo)
      | Some c \<Rightarrow> if fc_GroupID c = [] then one (Undo os f m) else undoGroup os f m (fc_GroupID c))"

definition redoGroup :: "'f os \<Rightarrow> 'f \<Rightarrow> undo_manager \<Rightarrow> string \<Rightarrow> 'f \<times> undo_manager \<times> (undo_error + file_change list)" where
  "redoGroup os f m g =
     (let grouped = rev (filter (\<lambda>c. fc_GroupID c = g) (um_undone m))
      in if grouped = [] then (f, m, Inl (NoGroup g))
         else case preflightRedoChanges os f grouped of
           Some e \<Rightarrow> (f, m, Inl (FailedRedo e))
         | None \<Rightarrow>
             (case run_all (applyChange os) f [] grouped of
                (f, applied, Some e) \<Rightarrow>
                  (case roll_back_group (preflightUndoChanges os) (revertChange os) f applied of
                     (f, bad) \<Rightarrow> (f, m, Inl (failed_error bad e)))
              | (f, applied, None) \<Rightarrow>
                  let m = m\<lparr>um_undone := filter (\<lambda>c. fc_GroupID c \<noteq> g) (um_undone m),
                            um_tracker := foldl Tracker_Record (um_tracker m) applied\<rparr>
                  in (f, observeChanges (mutated m) applied False, Inr applied)))"

definition RedoLastGroup :: "'f os \<Rightarrow> 'f \<Rightarrow> undo_manager \<Rightarrow> 'f \<times> undo_manager \<times> (undo_error + file_change list)" where
  "RedoLastGroup os f m =
     (if um_undone m = [] then (f, m, Inl NothingToRedo)
      else if fc_GroupID (last (um_undone m)) = [] then one (Redo os f m)
      else redoGroup os f m (fc_GroupID (last (um_undone m))))"

fun unique_loop :: "string list \<Rightarrow> string list \<Rightarrow> undo_error option" where
  "unique_loop seen [] = None"
| "unique_loop seen (i # is) =
     (if i = [] then Some EmptyID else if i \<in> set seen then Some (DuplicateID i) else unique_loop (i # seen) is)"

definition uniqueChangeIDs :: "string list \<Rightarrow> undo_error option" where
  "uniqueChangeIDs is = (if is = [] then Some NoIDs else unique_loop [] is)"

text \<open>The requested IDs without a change.\<close>

definition missingChangeIDs :: "string list \<Rightarrow> string list \<Rightarrow> string list" where
  "missingChangeIDs requested found = filter (\<lambda>i. i \<notin> set found) requested"

text \<open>The first later change, from the oldest requested one on, that shares a path with a requested one.\<close>

definition overlap_from :: "string list \<Rightarrow> string list \<Rightarrow> file_change list \<Rightarrow> (string \<times> string) option" where
  "overlap_from requested targets cs =
     (case List.find (\<lambda>c. fc_ID c \<notin> set requested \<and> list_ex (\<lambda>p. p \<in> set targets) (changePaths c))
             (dropWhile (\<lambda>c. fc_ID c \<notin> set requested) cs) of
        None \<Rightarrow> None
      | Some c \<Rightarrow> (case List.find (\<lambda>p. p \<in> set targets) (changePaths c) of
                    None \<Rightarrow> None | Some p \<Rightarrow> Some (fc_ID c, p)))"

definition UndoChanges :: "'f os \<Rightarrow> 'f \<Rightarrow> undo_manager \<Rightarrow> string list \<Rightarrow> 'f \<times> undo_manager \<times> (undo_error + file_change list)" where
  "UndoChanges os f m is =
     (case uniqueChangeIDs is of
        Some e \<Rightarrow> (f, m, Inl e)
      | None \<Rightarrow>
          let cs = tr_changes (um_tracker m);
              selected = rev (filter (\<lambda>c. fc_ID c \<in> set is) cs);
              missing = missingChangeIDs is (map fc_ID selected)
          in if missing \<noteq> [] then (f, m, Inl (HistoryGone missing))
             else case overlap_from is (concat (map changePaths selected)) cs of
               Some (i, p) \<Rightarrow> (f, m, Inl (LaterOverlap i p))
             | None \<Rightarrow>
                 (case preflightUndoChanges os f selected of
                    Some e \<Rightarrow> (f, m, Inl (FailedUndo e))
                  | None \<Rightarrow>
                      (case run_all (revertChangeUnchecked os) f [] selected of
                         (f, reverted, Some e) \<Rightarrow>
                           (case roll_back_exact (preflightRedoChanges os) (applyChangeUnchecked os) f reverted of
                              (f, bad) \<Rightarrow> (f, m, Inl (failed_error bad e)))
                       | (f, reverted, None) \<Rightarrow>
                           let t = (um_tracker m)\<lparr>tr_changes := filter (\<lambda>c. fc_ID c \<notin> set is) cs\<rparr>;
                               room = um_maxRedo m - length reverted;
                               m = m\<lparr>um_tracker := t,
                                     um_undone := drop (length (um_undone m) - room) (um_undone m) @ reverted\<rparr>
                           in (f, observeChanges (mutated m) reverted True, Inr reverted))))"

text \<open>Of several undone changes with one ID the newest counts, as the map keeps the last.\<close>

definition undone_with :: "file_change list \<Rightarrow> string \<Rightarrow> file_change option" where
  "undone_with cs i = List.find (\<lambda>c. fc_ID c = i) (rev cs)"

definition RedoChanges :: "'f os \<Rightarrow> 'f \<Rightarrow> undo_manager \<Rightarrow> string list \<Rightarrow> 'f \<times> undo_manager \<times> (undo_error + file_change list)" where
  "RedoChanges os f m is =
     (case uniqueChangeIDs is of
        Some e \<Rightarrow> (f, m, Inl e)
      | None \<Rightarrow>
          let missing = filter (\<lambda>i. undone_with (um_undone m) i = None) is;
              selected = List.map_filter (undone_with (um_undone m)) is
          in if missing \<noteq> [] then (f, m, Inl (HistoryGone missing))
             else case preflightRedoChanges os f selected of
               Some e \<Rightarrow> (f, m, Inl (FailedRedo e))
             | None \<Rightarrow>
                 (case run_all (applyChangeUnchecked os) f [] selected of
                    (f, applied, Some e) \<Rightarrow>
                      (case roll_back_exact (preflightUndoChanges os) (revertChangeUnchecked os) f applied of
                         (f, bad) \<Rightarrow> (f, m, Inl (failed_error bad e)))
                  | (f, applied, None) \<Rightarrow>
                      let m = m\<lparr>um_undone := filter (\<lambda>c. fc_ID c \<notin> set is) (um_undone m),
                                um_tracker := foldl Tracker_Record (um_tracker m) selected\<rparr>
                      in (f, observeChanges (mutated m) applied False, Inr applied)))"

section \<open>Queries and restoring\<close>

definition Manager_CanUndo :: "undo_manager \<Rightarrow> bool" where
  "Manager_CanUndo m \<longleftrightarrow> 0 < Tracker_Count (um_tracker m)"

definition Manager_CanRedo :: "undo_manager \<Rightarrow> bool" where
  "Manager_CanRedo m \<longleftrightarrow> 0 < length (um_undone m)"

definition ChangeIDs :: "undo_manager \<Rightarrow> string list" where
  "ChangeIDs m = map fc_ID (tr_changes (um_tracker m))"

definition Snapshot :: "undo_manager \<Rightarrow> history_snapshot" where
  "Snapshot m = \<lparr>hs_ChangeIDs = ChangeIDs m, hs_RecordCount = um_recordCount m, hs_Mutations = um_mutations m\<rparr>"

definition Manager_Clear :: "undo_manager \<Rightarrow> undo_manager" where
  "Manager_Clear m = mutated (m\<lparr>um_tracker := Tracker_Clear (um_tracker m), um_undone := []\<rparr>)"

definition RestoreChanges :: "undo_manager \<Rightarrow> file_change list \<Rightarrow> undo_manager" where
  "RestoreChanges m cs =
     mutated (m\<lparr>um_tracker := foldl Tracker_Record (Tracker_Clear (um_tracker m)) cs, um_undone := []\<rparr>)"

definition SetRedoStack :: "undo_manager \<Rightarrow> file_change list \<Rightarrow> undo_manager" where
  "SetRedoStack m stack = m\<lparr>um_undone := stack\<rparr>"

definition ExclusiveRestore :: "undo_manager \<Rightarrow> bool \<Rightarrow> 'e option \<Rightarrow> undo_manager \<times> 'e option" where
  "ExclusiveRestore m code result =
     (case result of
        Some e \<Rightarrow> (m, Some e)
      | None \<Rightarrow> (if code then mutated (m\<lparr>um_tracker := Tracker_Clear (um_tracker m), um_undone := []\<rparr>) else m, None))"

definition ReverseOperations :: "operation list \<Rightarrow> operation list" where
  "ReverseOperations ops = rev (map (\<lambda>op. op\<lparr>op_Undo := \<not> op_Undo op\<rparr>) ops)"

end
