(* ===== verification/UndoProps.thy ===== *)
theory UndoProps
  imports UndoManager
begin

text \<open>
  What each operation of the undo manager does to the history: the two stacks, the bound on the tracked changes and
  the mutation counter, on success and on failure. \<open>UndoSafety\<close> builds the results about files on it and
  \<open>UndoHistory\<close> those about sequences of operations.
\<close>

section \<open>History\<close>

definition um_ok :: "undo_manager \<Rightarrow> bool" where
  "um_ok m \<longleftrightarrow> 0 < tr_maxSize (um_tracker m) \<and> length (tr_changes (um_tracker m)) \<le> tr_maxSize (um_tracker m)"

lemma Record_ok:
  "0 < tr_maxSize t \<Longrightarrow> length (tr_changes t) \<le> tr_maxSize t \<Longrightarrow>
   length (tr_changes (Tracker_Record t c)) \<le> tr_maxSize t \<and> tr_maxSize (Tracker_Record t c) = tr_maxSize t"
  by (auto simp: Tracker_Record_def)

lemma Record_all_ok:
  "0 < tr_maxSize t \<Longrightarrow> length (tr_changes t) \<le> tr_maxSize t \<Longrightarrow>
   length (tr_changes (foldl Tracker_Record t cs)) \<le> tr_maxSize t \<and> tr_maxSize (foldl Tracker_Record t cs) = tr_maxSize t"
proof (induction cs arbitrary: t)
  case (Cons c cs)
  then show ?case using Record_ok [OF Cons.prems, of c] Cons.IH [of "Tracker_Record t c"] by simp
qed simp

lemma Record_all_changes:
  "0 < tr_maxSize t \<Longrightarrow> length (tr_changes t) \<le> tr_maxSize t \<Longrightarrow>
   tr_changes (foldl Tracker_Record t cs) =
     drop (length (tr_changes t) + length cs - tr_maxSize t) (tr_changes t @ cs)"
proof (induction cs arbitrary: t)
  case (Cons c cs)
  let ?t = "Tracker_Record t c" and ?n = "tr_maxSize t"
  have ok: "length (tr_changes ?t) \<le> ?n" "tr_maxSize ?t = ?n" using Record_ok [OF Cons.prems] by auto
  show ?case
  proof (cases "?n \<le> length (tr_changes t)")
    case True
    then have n: "length (tr_changes t) = ?n" using Cons.prems by simp
    then have ch: "tr_changes ?t = drop 1 (tr_changes t) @ [c]" "length (tr_changes ?t) = ?n"
      using Cons.prems(1) by (auto simp: Tracker_Record_def)
    have "tr_changes (foldl Tracker_Record ?t cs) = drop (length cs) (tr_changes ?t @ cs)"
      using Cons.IH [of ?t] Cons.prems(1) ok ch(2) by simp
    also have "\<dots> = drop (length (tr_changes t) + length (c # cs) - ?n) (tr_changes t @ c # cs)"
      using n Cons.prems(1) unfolding ch(1) by (cases "tr_changes t") (auto simp: drop_Suc)
    finally show ?thesis by simp
  next
    case False
    then have "tr_changes ?t = tr_changes t @ [c]" by (simp add: Tracker_Record_def)
    then show ?thesis using Cons.IH [of ?t] Cons.prems(1) ok by simp
  qed
qed simp

lemma observe_fields [simp]:
  "um_tracker (observe m ops) = um_tracker m" "um_undone (observe m ops) = um_undone m"
  "um_recordCount (observe m ops) = um_recordCount m" "um_mutations (observe m ops) = um_mutations m"
  "um_maxRedo (observe m ops) = um_maxRedo m"
  by (simp_all add: observe_def)

lemma observeChanges_fields [simp]:
  "um_tracker (observeChanges m cs u) = um_tracker m" "um_undone (observeChanges m cs u) = um_undone m"
  "um_recordCount (observeChanges m cs u) = um_recordCount m" "um_mutations (observeChanges m cs u) = um_mutations m"
  by (simp_all add: observeChanges_def)

lemma mutated_fields [simp]:
  "um_tracker (mutated m) = um_tracker m" "um_undone (mutated m) = um_undone m"
  "um_recordCount (mutated m) = um_recordCount m" "um_mutations (mutated m) = um_mutations m + 1"
  "um_maxRedo (mutated m) = um_maxRedo m"
  by (simp_all add: mutated_def)

lemma push_fields [simp]:
  "um_tracker (foldl push_undone m cs) = um_tracker m" "um_recordCount (foldl push_undone m cs) = um_recordCount m"
  "um_mutations (foldl push_undone m cs) = um_mutations m" "um_maxRedo (foldl push_undone m cs) = um_maxRedo m"
  by (induction cs arbitrary: m) (simp_all add: push_undone_def)

lemma push_one [simp]:
  "um_tracker (push_undone m c) = um_tracker m" "um_recordCount (push_undone m c) = um_recordCount m"
  "um_mutations (push_undone m c) = um_mutations m" "um_maxRedo (push_undone m c) = um_maxRedo m"
  by (simp_all add: push_undone_def)

lemma push_all_cong:
  "um_undone m = um_undone m' \<Longrightarrow> um_maxRedo m = um_maxRedo m' \<Longrightarrow>
   um_undone (foldl push_undone m cs) = um_undone (foldl push_undone m' cs)"
proof (induction cs arbitrary: m m')
  case (Cons c cs)
  have "um_undone (push_undone m c) = um_undone (push_undone m' c)" using Cons.prems by (simp add: push_undone_def)
  then show ?case using Cons.IH [of "push_undone m c" "push_undone m' c"] Cons.prems by simp
qed simp

lemma pop_record:
  assumes "length (tr_changes t) \<le> tr_maxSize t" "PopLast t = (t', Some c)"
  shows "Tracker_Record t' c = t"
proof -
  have ne: "tr_changes t \<noteq> []" and t': "t' = t\<lparr>tr_changes := butlast (tr_changes t)\<rparr>" "c = last (tr_changes t)"
    using assms(2) by (auto simp: PopLast_def split: if_splits)
  have "\<not> tr_maxSize t \<le> length (butlast (tr_changes t))" using assms(1) ne by (cases "tr_changes t") auto
  then show ?thesis using ne by (simp add: t' Tracker_Record_def)
qed

lemma run_all_done: "run_all act f acc cs = (f', xs, None) \<Longrightarrow> xs = acc @ cs"
  by (induction cs arbitrary: f acc) (fastforce split: prod.splits option.splits)+

text \<open>The history after each operation: unchanged with an error, and otherwise what was moved.\<close>

lemma Undo_error: "um_ok m \<Longrightarrow> Undo os f m = (f', m', Inl e) \<Longrightarrow> m' = m"
  by (auto simp: Undo_def um_ok_def PopLast_def [of "um_tracker m"] split: if_splits prod.splits option.splits
      dest: pop_record [of "um_tracker m"])

lemma Redo_error: "Redo os f m = (f', m', Inl e) \<Longrightarrow> m' = m"
  by (auto simp: Redo_def Let_def split: if_splits prod.splits option.splits)

lemma group_error:
  "undoGroup os f m g = (f', m', Inl e) \<Longrightarrow> m' = m" "redoGroup os f m g = (f', m', Inl e) \<Longrightarrow> m' = m"
  by (auto simp: undoGroup_def redoGroup_def Let_def split: if_splits prod.splits option.splits)

lemma changes_error:
  "UndoChanges os f m is = (f', m', Inl e) \<Longrightarrow> m' = m" "RedoChanges os f m is = (f', m', Inl e) \<Longrightarrow> m' = m"
  by (auto simp: UndoChanges_def RedoChanges_def Let_def split: if_splits prod.splits option.splits)

lemma um_ok_cong: "um_tracker m' = um_tracker m \<Longrightarrow> um_ok m' = um_ok m"
  by (simp add: um_ok_def)

text \<open>What a successful operation does to the history.\<close>

lemma Undo_done:
  assumes "Undo os f m = (f', m', Inr c)"
  shows "tr_changes (um_tracker m) = tr_changes (um_tracker m') @ [c]" "tr_maxSize (um_tracker m') = tr_maxSize (um_tracker m)"
    "um_undone m' = (if um_maxRedo m \<le> length (um_undone m) then drop 1 (um_undone m) else um_undone m) @ [c]"
    "um_maxRedo m' = um_maxRedo m" "um_recordCount m' = um_recordCount m" "um_mutations m' = um_mutations m + 1"
    "revertChange os f c = (f', None)"
  using assms by (auto simp: Undo_def PopLast_def push_undone_def split: if_splits prod.splits option.splits)

lemma Redo_done:
  assumes "Redo os f m = (f', m', Inr c)"
  shows "um_undone m = um_undone m' @ [c]" "um_tracker m' = Tracker_Record (um_tracker m) c"
    "um_maxRedo m' = um_maxRedo m" "um_recordCount m' = um_recordCount m" "um_mutations m' = um_mutations m + 1"
    "applyChange os f c = (f', None)"
  using assms by (auto simp: Redo_def Let_def split: if_splits prod.splits option.splits)

lemma undoGroup_done:
  assumes "undoGroup os f m g = (f', m', Inr cs)"
  shows "cs = rev (filter (\<lambda>c. fc_GroupID c = g) (tr_changes (um_tracker m)))" "cs \<noteq> []"
    "um_tracker m' = (um_tracker m)\<lparr>tr_changes := filter (\<lambda>c. fc_GroupID c \<noteq> g) (tr_changes (um_tracker m))\<rparr>"
    "um_recordCount m' = um_recordCount m" "um_mutations m' = um_mutations m + 1"
    "um_undone m' = um_undone (foldl push_undone m cs)"
proof -
  let ?grouped = "rev (filter (\<lambda>c. fc_GroupID c = g) (tr_changes (um_tracker m)))"
  let ?t = "(um_tracker m)\<lparr>tr_changes := filter (\<lambda>c. fc_GroupID c \<noteq> g) (tr_changes (um_tracker m))\<rparr>"
  have ne: "?grouped \<noteq> []" using assms by (auto simp: undoGroup_def Let_def split: if_splits)
  have r: "run_all (revertChange os) f [] ?grouped = (f', cs, None)"
    and m': "m' = observeChanges (mutated (foldl push_undone (m\<lparr>um_tracker := ?t\<rparr>) cs)) cs True"
    using assms ne by (auto simp: undoGroup_def Let_def split: option.splits prod.splits)
  show cs: "cs = ?grouped" using run_all_done [OF r] by simp
  then show "cs \<noteq> []" using ne by simp
  have "um_undone (foldl push_undone (m\<lparr>um_tracker := ?t\<rparr>) cs) = um_undone (foldl push_undone m cs)"
    by (rule push_all_cong) simp_all
  then show "um_tracker m' = ?t" "um_recordCount m' = um_recordCount m" "um_mutations m' = um_mutations m + 1"
    "um_undone m' = um_undone (foldl push_undone m cs)"
    by (simp_all add: m')
qed

lemma redoGroup_done:
  assumes "redoGroup os f m g = (f', m', Inr cs)"
  shows "cs = rev (filter (\<lambda>c. fc_GroupID c = g) (um_undone m))" "cs \<noteq> []"
    "um_tracker m' = foldl Tracker_Record (um_tracker m) cs"
    "um_undone m' = filter (\<lambda>c. fc_GroupID c \<noteq> g) (um_undone m)"
    "um_recordCount m' = um_recordCount m" "um_mutations m' = um_mutations m + 1"
proof -
  let ?grouped = "rev (filter (\<lambda>c. fc_GroupID c = g) (um_undone m))"
  have ne: "?grouped \<noteq> []" using assms by (auto simp: redoGroup_def Let_def split: if_splits)
  have r: "run_all (applyChange os) f [] ?grouped = (f', cs, None)"
    and m': "m' = observeChanges (mutated (m\<lparr>um_undone := filter (\<lambda>c. fc_GroupID c \<noteq> g) (um_undone m),
        um_tracker := foldl Tracker_Record (um_tracker m) cs\<rparr>)) cs False"
    using assms ne by (auto simp: redoGroup_def Let_def split: option.splits prod.splits)
  show "cs = ?grouped" using run_all_done [OF r] by simp
  then show "cs \<noteq> []" using ne by simp
  show "um_tracker m' = foldl Tracker_Record (um_tracker m) cs" "um_undone m' = filter (\<lambda>c. fc_GroupID c \<noteq> g) (um_undone m)"
    "um_recordCount m' = um_recordCount m" "um_mutations m' = um_mutations m + 1"
    by (simp_all add: m')
qed

lemma UndoChanges_done:
  assumes "UndoChanges os f m is = (f', m', Inr cs)"
  shows "cs = rev (filter (\<lambda>c. fc_ID c \<in> set is) (tr_changes (um_tracker m)))" "set is \<subseteq> fc_ID ` set cs"
    "overlap_from is (concat (map changePaths cs)) (tr_changes (um_tracker m)) = None"
    "um_tracker m' = (um_tracker m)\<lparr>tr_changes := filter (\<lambda>c. fc_ID c \<notin> set is) (tr_changes (um_tracker m))\<rparr>"
    "um_undone m' = drop (length (um_undone m) - (um_maxRedo m - length cs)) (um_undone m) @ cs"
    "um_recordCount m' = um_recordCount m" "um_mutations m' = um_mutations m + 1" "uniqueChangeIDs is = None"
proof -
  let ?cs = "tr_changes (um_tracker m)"
  define sel where "sel = rev (filter (\<lambda>c. fc_ID c \<in> set is) ?cs)"
  have u: "uniqueChangeIDs is = None" and miss: "missingChangeIDs is (map fc_ID sel) = []"
    and ov: "overlap_from is (concat (map changePaths sel)) ?cs = None"
    and pre: "preflightUndoChanges os f sel = None"
    using assms unfolding UndoChanges_def Let_def sel_def [symmetric] by (auto split: option.splits if_splits)
  have r: "run_all (revertChangeUnchecked os) f [] sel = (f', cs, None)"
    and m': "m' = observeChanges (mutated (m\<lparr>um_tracker := (um_tracker m)\<lparr>tr_changes := filter (\<lambda>c. fc_ID c \<notin> set is) ?cs\<rparr>,
        um_undone := drop (length (um_undone m) - (um_maxRedo m - length cs)) (um_undone m) @ cs\<rparr>)) cs True"
    using assms u miss ov pre unfolding UndoChanges_def Let_def sel_def [symmetric] by (auto split: prod.splits option.splits)
  have cs: "cs = sel" using run_all_done [OF r] by simp
  then show "cs = rev (filter (\<lambda>c. fc_ID c \<in> set is) ?cs)" by (simp add: sel_def)
  show "set is \<subseteq> fc_ID ` set cs" using miss by (auto simp: cs missingChangeIDs_def filter_empty_conv)
  show "overlap_from is (concat (map changePaths cs)) ?cs = None" using ov by (simp add: cs)
  show "um_tracker m' = (um_tracker m)\<lparr>tr_changes := filter (\<lambda>c. fc_ID c \<notin> set is) ?cs\<rparr>"
    "um_undone m' = drop (length (um_undone m) - (um_maxRedo m - length cs)) (um_undone m) @ cs"
    "um_recordCount m' = um_recordCount m" "um_mutations m' = um_mutations m + 1"
    by (simp_all add: m')
qed (use assms in \<open>auto simp: UndoChanges_def split: option.splits\<close>)

end
