(* ===== verification/UndoSafety.thy ===== *)
theory UndoSafety
  imports UndoProps
begin

text \<open>
  Undo never writes over a working tree it does not recognise, and undoing and redoing a change is a
  round trip. The first holds of any operating system; the second needs what the file system calls
  document (\<open>os_laws\<close>): a written temporary file can be read back, a rename carries the entry over, a removed
  path is gone, creating directories keeps what exists. \<open>mem_os\<close> is a file system that has these laws.
\<close>

section \<open>The states a change expects\<close>

text \<open>The working tree holds what the change left behind, and what it found.\<close>

definition present :: "'f os \<Rightarrow> 'f \<Rightarrow> string \<Rightarrow> bool" where
  "present os f p = (case readPathState os f p of Inl e \<Rightarrow> False | Inr s \<Rightarrow> s \<noteq> MissingPath)"

definition holds_new :: "'f os \<Rightarrow> 'f \<Rightarrow> file_change \<Rightarrow> bool" where
  "holds_new os f c =
     (if fc_Tool c = ''move''
      then fc_OldContent c \<noteq> [] \<and> readPathState os f (fc_OldContent c) = Inr MissingPath \<and> present os f (fc_FilePath c)
      else readPathState os f (fc_FilePath c) =
        Inr (if is_delete c then MissingPath else if fc_Tool c = ''mkdir'' then DirectoryState else FileState (fc_NewContent c)))"

definition holds_old :: "'f os \<Rightarrow> 'f \<Rightarrow> file_change \<Rightarrow> bool" where
  "holds_old os f c =
     (if fc_Tool c = ''move''
      then fc_OldContent c \<noteq> [] \<and> readPathState os f (fc_FilePath c) = Inr MissingPath \<and> present os f (fc_OldContent c)
      else readPathState os f (fc_FilePath c) =
        Inr (if is_delete c then FileState (fc_OldContent c) else if fc_Tool c = ''mkdir'' \<or> fc_WasNew c then MissingPath
             else FileState (fc_OldContent c)))"

lemma get_new [simp]:
  "view_get os f newPathStateView p =
     (case readPathState os f p of Inl e \<Rightarrow> (newPathStateView, Inl e)
      | Inr s \<Rightarrow> (view_set newPathStateView p s, Inr s))"
  by (auto simp: view_get_def newPathStateView_def split: sum.splits)

lemma get_second:
  "view_get os f (view_set newPathStateView p s) q =
     (if q = p then (view_set newPathStateView p s, Inr s)
      else case readPathState os f q of Inl e \<Rightarrow> (view_set newPathStateView p s, Inl e)
        | Inr s' \<Rightarrow> (view_set (view_set newPathStateView p s) q s', Inr s'))"
  by (auto simp: view_get_def newPathStateView_def view_set_def split: sum.splits)

lemma preflight_one:
  "preflightUndoChanges os f [c] = None \<longleftrightarrow> holds_new os f c" "preflightRedoChanges os f [c] = None \<longleftrightarrow> holds_old os f c"
  by (auto simp: preflightUndoChanges_def preflightRedoChanges_def simulateUndo_def simulateRedo_def holds_new_def
      holds_old_def requirePathState_def requirePresentPath_def checked_def get_second present_def is_delete_def
      split: sum.splits option.splits prod.splits if_splits)

lemma preflight_fails:
  "\<not> holds_new os f c \<Longrightarrow> \<exists>e. preflightUndoChanges os f [c] = Some e"
  "\<not> holds_old os f c \<Longrightarrow> \<exists>e. preflightRedoChanges os f [c] = Some e"
  using preflight_one [of os f c] by auto

lemma revertChange_cases:
  "holds_new os f c \<Longrightarrow> revertChange os f c = revertChangeUnchecked os f c"
  "\<not> holds_new os f c \<Longrightarrow> \<exists>e. revertChange os f c = (f, Some e)"
  using preflight_one(1) [of os f c] preflight_fails(1) [of os f c] by (auto simp: revertChange_def)

lemma applyChange_cases:
  "holds_old os f c \<Longrightarrow> applyChange os f c = applyChangeUnchecked os f c"
  "\<not> holds_old os f c \<Longrightarrow> \<exists>e. applyChange os f c = (f, Some e)"
  using preflight_one(2) [of os f c] preflight_fails(2) [of os f c] by (auto simp: applyChange_def)

section \<open>What the writes leave\<close>

lemma read_gone: "readPathState os f p = Inr MissingPath \<longleftrightarrow> gone os f p"
  by (auto simp: readPathState_def gone_def split: lstat_result.splits sum.splits if_splits)

lemma present_there: "present os f p \<Longrightarrow> there os f p"
  by (auto simp: present_def readPathState_def there_def split: lstat_result.splits sum.splits if_splits)

lemma same_present: "same_entry os f p f' p' \<Longrightarrow> present os f' p' = present os f p"
  by (cases "os_Lstat os f p") (auto simp: same_entry_def present_def readPathState_def split: sum.splits)

lemma same_there: "same_entry os f p f' p' \<Longrightarrow> there os f' p' = there os f p"
  by (simp add: same_entry_def there_def)

lemma remove_gone:
  assumes "os_laws os" "remove_path os f p = (f', None)"
  shows "gone os f' p"
proof -
  have "os_Remove os f p = (f', None) \<or> os_Remove os f p = (f', Some IsNotExist)"
    using assms(2) by (auto simp: remove_path_def split: prod.splits option.splits if_splits)
  then show ?thesis by (rule os_lawsD(7) [OF assms(1)])
qed

lemma prune_gone: "os_laws os \<Longrightarrow> gone os f p \<Longrightarrow> gone os (prune_dirs os leaf f ds) p"
proof (induction ds arbitrary: f)
  case (Cons d ds)
  then show ?case using os_lawsD(8) [OF Cons.prems(1)] by (auto split: prod.splits option.splits)
qed simp

lemma write_reads:
  assumes "os_laws os" "owner_readable (permOrDefault mode)" "write_file os f p c mode = (f', None)"
  shows "readPathState os f' p = Inr (FileState c)"
proof -
  obtain f1 where "AtomicWrite os f1 p c (permOrDefault mode) = (f', None)"
    using assms(3) by (auto simp: write_file_def and_then_def ending_def split: prod.splits option.splits)
  then have "holds_text os f' p c" using AtomicWrite_visible [OF assms(1,2)] by blast
  then show ?thesis by (simp add: holds_text_def readPathState_def)
qed

text \<open>The two halves of a move, once the target's directory exists.\<close>

lemma move_carries:
  assumes laws: "os_laws os" and there: "present os f a" and free: "gone os f b" and plain: "plain_path b"
    and mk: "os_MkdirAll os f (path_Dir b) = (f1, None)" and rn: "os_Rename os f1 a b = (f', None)"
  shows "gone os f' a \<and> present os f' b"
proof -
  have s: "same_entry os f a f1 a" by (rule os_lawsD(10) [OF laws mk present_there [OF there]])
  have "there os f1 a" using same_there [OF s] present_there [OF there] by simp
  moreover have "gone os f1 b" by (rule os_lawsD(11) [OF laws mk plain free])
  ultimately have "gone os f' a \<and> same_entry os f1 a f' b" using os_lawsD(12,13) [OF laws rn] by blast
  then show ?thesis using same_present [of os f1 a f' b] same_present [OF s] there by simp
qed

text \<open>
  What a tool records: a deleted file existed before, the mode of a file lets its owner read it, the paths of a move are
  in normal form.
\<close>

definition recorded_by_tool :: "file_change \<Rightarrow> bool" where
  "recorded_by_tool c \<longleftrightarrow>
     \<not> (is_delete c \<and> fc_WasNew c) \<and> owner_readable (permOrDefault (fc_Mode c)) \<and>
     (fc_Tool c = ''move'' \<longrightarrow> plain_path (fc_OldContent c) \<and> plain_path (fc_FilePath c))"

lemma revert_restores:
  assumes laws: "os_laws os" and new: "holds_new os f c" and tool: "recorded_by_tool c"
    and ok: "revertChangeUnchecked os f c = (f', None)"
  shows "holds_old os f' c"
proof -
  consider (move) "fc_Tool c = ''move''" | (mkdir) "fc_Tool c = ''mkdir''"
    | (created) "fc_Tool c \<noteq> ''move''" "fc_Tool c \<noteq> ''mkdir''" "fc_WasNew c" "\<not> is_delete c"
    | (written) "fc_Tool c \<noteq> ''move''" "fc_Tool c \<noteq> ''mkdir''" "\<not> fc_WasNew c"
    using tool by (auto simp: recorded_by_tool_def)
  then show ?thesis
  proof cases
    case move
    then show ?thesis
      using ok new tool move_carries [OF laws, of f "fc_FilePath c" "fc_OldContent c"]
      by (auto simp: recorded_by_tool_def revertChangeUnchecked_def revertMove_def and_then_def ending_def holds_new_def holds_old_def read_gone
          split: prod.splits option.splits if_splits)
  next
    case mkdir
    then obtain f1 where "remove_path os f (fc_FilePath c) = (f1, None)"
      and f': "f' = prune_dirs os (fc_FilePath c) f1 (fc_CreatedDirs c)"
      using ok by (auto simp: revertChangeUnchecked_def revertMkdir_def split: prod.splits option.splits)
    then have "gone os f' (fc_FilePath c)" unfolding f' by (intro prune_gone [OF laws] remove_gone [OF laws])
    then show ?thesis using mkdir by (simp add: holds_old_def read_gone is_delete_def)
  next
    case created
    then show ?thesis using ok remove_gone [OF laws] by (simp add: revertChangeUnchecked_def holds_old_def read_gone)
  next
    case written
    then show ?thesis using ok write_reads [OF laws] tool by (simp add: recorded_by_tool_def revertChangeUnchecked_def holds_old_def)
  qed
qed

lemma apply_restores:
  assumes laws: "os_laws os" and old: "holds_old os f c" and tool: "recorded_by_tool c" and ok: "applyChangeUnchecked os f c = (f', None)"
  shows "holds_new os f' c"
proof -
  consider (move) "fc_Tool c = ''move''" | (mkdir) "fc_Tool c = ''mkdir''"
    | (deleted) "fc_Tool c \<noteq> ''move''" "fc_Tool c \<noteq> ''mkdir''" "is_delete c"
    | (written) "fc_Tool c \<noteq> ''move''" "fc_Tool c \<noteq> ''mkdir''" "\<not> is_delete c"
    by blast
  then show ?thesis
  proof cases
    case move
    then show ?thesis
      using ok old tool move_carries [OF laws, of f "fc_OldContent c" "fc_FilePath c"]
      by (auto simp: recorded_by_tool_def applyChangeUnchecked_def applyMove_def and_then_def ending_def holds_new_def holds_old_def read_gone
          split: prod.splits option.splits if_splits)
  next
    case mkdir
    then have "os_MkdirAll os f (fc_FilePath c) = (f', None)"
      using ok by (auto simp: applyChangeUnchecked_def and_then_def ending_def split: prod.splits option.splits)
    moreover have "gone os f (fc_FilePath c)" using mkdir old by (simp add: holds_old_def read_gone is_delete_def)
    ultimately show ?thesis using mkdir os_lawsD(9) [OF laws] by (simp add: holds_new_def is_delete_def readPathState_def)
  next
    case deleted
    then show ?thesis using ok remove_gone [OF laws] by (simp add: applyChangeUnchecked_def holds_new_def read_gone)
  next
    case written
    then show ?thesis using ok write_reads [OF laws] tool by (simp add: recorded_by_tool_def applyChangeUnchecked_def holds_new_def)
  qed
qed

lemma apply_error:
  assumes "holds_old os f c" "applyChangeUnchecked os f c = (f', Some e)"
  shows "\<exists>x. e = WriteError x"
  using assms
  by (auto simp: applyChangeUnchecked_def applyMove_def write_file_def and_then_def ending_def remove_path_def holds_old_def
      split: if_splits prod.splits option.splits)

section \<open>A file system with these laws\<close>

datatype mem_entry = MemFile string | MemDir

type_synonym mem = "string \<Rightarrow> mem_entry option"

definition mem_temp :: "string \<Rightarrow> string" where
  "mem_temp dir = dir @ ''/.gokin-1.tmp''"

definition mem_os :: "mem os" where
  "mem_os =
     \<lparr>os_Lstat = (\<lambda>f p. case f p of None \<Rightarrow> LstatError IsNotExist | Some (MemFile c) \<Rightarrow> RegularFile | Some MemDir \<Rightarrow> DirEntry),
      os_ReadFile = (\<lambda>f p. case f p of Some (MemFile c) \<Rightarrow> Inr c | Some MemDir \<Rightarrow> Inl (IOError ''is a directory'') | None \<Rightarrow> Inl IsNotExist),
      os_Remove = (\<lambda>f p. if f p = None then (f, Some IsNotExist) else (f(p := None), None)),
      os_MkdirAll = (\<lambda>f p. case f p of None \<Rightarrow> (f(p \<mapsto> MemDir), None) | Some MemDir \<Rightarrow> (f, None)
               | Some (MemFile c) \<Rightarrow> (f, Some (IOError ''not a directory''))),
      os_Rename = (\<lambda>f a b. if f a = None then (f, Some IsNotExist) else ((f(a := None))(b := f a), None)),
      os_CreateTemp = (\<lambda>f dir pat. if f (mem_temp dir) = None then (f(mem_temp dir \<mapsto> MemFile []), Inr (mem_temp dir))
               else (f, Inl (IOError ''file exists''))),
      os_Write = (\<lambda>f p c. case f p of Some (MemFile d) \<Rightarrow> (f(p \<mapsto> MemFile (d @ c)), None) | _ \<Rightarrow> (f, Some (IOError ''bad file''))),
      os_Chmod = (\<lambda>f p mode. (f, None)), os_SyncFile = (\<lambda>f p. (f, None)), os_CloseFile = (\<lambda>f p. (f, None)), os_Open = (\<lambda>f p. (f, None)),
      os_restore = (\<lambda>f p. None)\<rparr>"

lemma mem_os_laws: "os_laws mem_os"
proof -
  have "temp_laws mem_os"
    unfolding temp_laws_def same_entry_def mem_os_def
    by (intro conjI allI impI) (auto split: if_splits option.splits mem_entry.splits)
  moreover have "quiet_laws mem_os"
    unfolding quiet_laws_def same_entry_def mem_os_def by (intro conjI allI impI) auto
  moreover have "tree_laws mem_os"
    unfolding tree_laws_def gone_def there_def same_entry_def mem_os_def plain_path_def
    by (intro conjI allI impI) (auto split: if_splits option.splits mem_entry.splits)
  ultimately show ?thesis by (simp add: os_laws_def)
qed

lemma mem_write:
  assumes "f (mem_temp (path_Dir p)) = None"
  shows "AtomicWrite mem_os f p c mode = (f(p \<mapsto> MemFile c), None)"
proof -
  have "f(mem_temp (path_Dir p) := None) = f" using assms by (rule fun_upd_idem)
  then show ?thesis
    using assms by (simp add: AtomicWrite_def mem_os_def stage_def replaceAtomic_def syncParentDir_def)
qed

section \<open>Properties\<close>

text \<open>
  C34: undo fails closed. With any operating system, when the working tree does not hold what the newest
  change left behind, \<open>Undo\<close> reports an error and neither the files nor the history change; when it does, \<open>Undo\<close>
  carries out exactly the recorded reversal: an error of the file system leaves the history as it was, and
  success moves the change from the undo stack to the redo stack.
\<close>

theorem undo_fails_closed:
  assumes "um_ok m" "tr_changes (um_tracker m) = cs @ [c]"
  shows "if holds_new os f c
    then (case revertChangeUnchecked os f c of
            (f', Some e) \<Rightarrow> Undo os f m = (f', m, Inl (FailedUndo e))
          | (f', None) \<Rightarrow> (\<exists>m'. Undo os f m = (f', m', Inr c) \<and> tr_changes (um_tracker m') = cs \<and> last (um_undone m') = c))
    else (\<exists>e. Undo os f m = (f, m, Inl (FailedUndo e)))"
proof -
  have pop: "PopLast (um_tracker m) = ((um_tracker m)\<lparr>tr_changes := cs\<rparr>, Some c)" using assms(2) by (simp add: PopLast_def)
  have again: "Tracker_Record ((um_tracker m)\<lparr>tr_changes := cs\<rparr>) c = um_tracker m"
    using pop_record [OF _ pop] assms(1) by (simp add: um_ok_def)
  show ?thesis
  proof (cases "holds_new os f c")
    case True
    obtain f' r where r: "revertChangeUnchecked os f c = (f', r)" by fastforce
    then have "revertChange os f c = (f', r)" using revertChange_cases(1) [OF True] by simp
    then have u: "Undo os f m = (case r of Some e \<Rightarrow> (f', m, Inl (FailedUndo e))
        | None \<Rightarrow> (f', observe (mutated (push_undone (m\<lparr>um_tracker := (um_tracker m)\<lparr>tr_changes := cs\<rparr>\<rparr>) c)) [operation_of True c], Inr c))"
      by (cases r) (simp_all add: Undo_def pop again)
    have l: "last (um_undone (push_undone m1 c)) = c" for m1 by (simp add: push_undone_def)
    show ?thesis using True by (cases r) (simp_all add: r u l)
  next
    case False
    obtain e where "revertChange os f c = (f, Some e)" using revertChange_cases(2) [OF False] by metis
    then show ?thesis using False by (simp add: Undo_def pop again)
  qed
qed

definition demo_change :: file_change where
  "demo_change = NewFileChange ''i'' 1 ''/a'' ''edit'' ''old'' ''new'' False"

definition demo_history :: undo_manager where
  "demo_history = fst (Manager_Record NewUndoManager demo_change)"

lemma demo_history_fields:
  "um_tracker demo_history = \<lparr>tr_changes = [demo_change], tr_maxSize = 100\<rparr>" "um_undone demo_history = []"
  "um_maxRedo demo_history = 50" "um_ok demo_history" "um_observer demo_history = False"
  by (simp_all add: demo_history_def demo_change_def Manager_Record_def NewUndoManager_def NewManagerWithTracker_def
      NewTracker_def Tracker_Record_def DefaultMaxChanges_def SnapshotTooLarge_def MaxSnapshotBytes_def NewFileChange_def
      um_ok_def observe_def mutated_def)

text \<open>The edited file still holds the edit, and somebody else's edit.\<close>

definition demo_tree :: mem where
  "demo_tree = Map.empty(''/a'' \<mapsto> MemFile ''new'')"

definition edited_tree :: mem where
  "edited_tree = Map.empty(''/a'' \<mapsto> MemFile ''mine'')"

lemma demo_ready: "holds_new mem_os demo_tree demo_change" "\<not> holds_new mem_os edited_tree demo_change"
  by (simp_all add: holds_new_def demo_change_def NewFileChange_def is_delete_def readPathState_def mem_os_def demo_tree_def
      edited_tree_def)

lemma demo_dir: "path_Dir ''/a'' = ''/''"
  by code_simp

lemma demo_write:
  "f ''//.gokin-1.tmp'' = None \<Longrightarrow> AtomicWrite mem_os f ''/a'' c mode = (f(''/a'' \<mapsto> MemFile c), None)"
  by (rule mem_write) (simp add: demo_dir mem_temp_def)

lemma demo_mkdir: "f ''/'' = None \<Longrightarrow> os_MkdirAll mem_os f ''/'' = (f(''/'' \<mapsto> MemDir), None)"
  "f ''/'' = Some MemDir \<Longrightarrow> os_MkdirAll mem_os f ''/'' = (f, None)"
  by (simp_all add: mem_os_def)

lemma demo_revert: "revertChangeUnchecked mem_os demo_tree demo_change =
    (demo_tree(''/'' \<mapsto> MemDir, ''/a'' \<mapsto> MemFile ''old''), None)"
  by (simp add: revertChangeUnchecked_def demo_change_def NewFileChange_def write_file_def and_then_def ending_def
      demo_dir demo_mkdir demo_write demo_tree_def fun_upd_twist)

theorem undo_fails_closed_witness:
  "(\<exists>e. Undo mem_os edited_tree demo_history = (edited_tree, demo_history, Inl (FailedUndo e))) \<and>
   (\<exists>m'. Undo mem_os demo_tree demo_history =
      (demo_tree(''/'' \<mapsto> MemDir, ''/a'' \<mapsto> MemFile ''old''), m', Inr demo_change) \<and> tr_changes (um_tracker m') = [])"
  using undo_fails_closed [of demo_history "[]" demo_change mem_os edited_tree]
    undo_fails_closed [of demo_history "[]" demo_change mem_os demo_tree]
  by (auto simp: demo_history_fields demo_ready demo_revert)

text \<open>
  C35: undo and redo are a round trip. After a successful \<open>Undo\<close> of a change as the tools record it, on a file system
  whose calls do what they document (\<open>os_laws\<close>), the paths of the change hold what it had found, and \<open>Redo\<close> never reports a
  conflict: either one of its file system calls fails and the history stays as it is, or the same change is back on the
  undo stack, the undo stack is the one before the undo, the redo stack is too but for its oldest entry when it was
  full, and the paths of the change hold what it had left behind.
\<close>

theorem undo_redo_round_trip:
  assumes "os_laws os" "um_ok m" "Undo os f m = (f1, m1, Inr c)" "recorded_by_tool c"
    and "Redo os f1 m1 = (f2, m2, r)"
  shows "holds_new os f c \<and> holds_old os f1 c \<and>
    (case r of
       Inl e \<Rightarrow> m2 = m1 \<and> (\<exists>x. e = FailedRedo (WriteError x))
     | Inr c' \<Rightarrow> c' = c \<and> um_tracker m2 = um_tracker m \<and> holds_new os f2 c \<and>
         um_undone m2 = (if um_maxRedo m \<le> length (um_undone m) then drop 1 (um_undone m) else um_undone m))"
proof -
  note u = Undo_done [OF assms(3)]
  have new: "holds_new os f c" using u(7) revertChange_cases(2) [of os f c] by fastforce
  then have "revertChangeUnchecked os f c = (f1, None)" using u(7) revertChange_cases(1) by metis
  then have old: "holds_old os f1 c" by (rule revert_restores [OF assms(1) new assms(4)])
  then have ap: "applyChange os f1 c = applyChangeUnchecked os f1 c" by (rule applyChange_cases(1))
  have last: "um_undone m1 \<noteq> []" "last (um_undone m1) = c" using u(3) by auto
  have again: "Tracker_Record (um_tracker m1) c = um_tracker m"
    using assms(2) u(1,2) by (cases "um_tracker m"; cases "um_tracker m1") (auto simp: um_ok_def Tracker_Record_def)
  show ?thesis
  proof (cases r)
    case (Inl e)
    then have "applyChangeUnchecked os f1 c = (f2, Some x) \<Longrightarrow> e = FailedRedo x" "\<exists>x. applyChangeUnchecked os f1 c = (f2, Some x)" for x
      using assms(5) last ap by (auto simp: Redo_def Let_def split: prod.splits option.splits if_splits)
    then show ?thesis using new old apply_error [OF old] Redo_error [of os f1 m1 f2 m2 e] assms(5) Inl by auto
  next
    case (Inr c')
    note d = Redo_done [OF assms(5) [unfolded Inr]]
    have c': "c' = c" using d(1) last by simp
    then have "holds_new os f2 c" using d(6) ap apply_restores [OF assms(1) old assms(4)] by simp
    then show ?thesis using new old Inr c' d(1,2) u(3) again by simp
  qed
qed

theorem undo_redo_round_trip_witness:
  "\<exists>f1 m1 f2 m2. Undo mem_os demo_tree demo_history = (f1, m1, Inr demo_change) \<and>
     Redo mem_os f1 m1 = (f2, m2, Inr demo_change) \<and> holds_old mem_os f1 demo_change \<and>
     um_tracker m2 = um_tracker demo_history \<and> um_undone m2 = []"
proof -
  define f1 :: mem where "f1 = demo_tree(''/'' \<mapsto> MemDir, ''/a'' \<mapsto> MemFile ''old'')"
  have r: "revertChange mem_os demo_tree demo_change = (f1, None)"
    using revertChange_cases(1) [OF demo_ready(1)] demo_revert by (simp add: f1_def)
  define m1 where "m1 = mutated (push_undone (demo_history\<lparr>um_tracker := \<lparr>tr_changes = [], tr_maxSize = 100\<rparr>\<rparr>) demo_change)"
  have u: "Undo mem_os demo_tree demo_history = (f1, m1, Inr demo_change)"
    by (simp add: Undo_def PopLast_def demo_history_fields r m1_def observe_def mutated_def push_undone_def)
  have un: "um_undone m1 = [demo_change]" by (simp add: m1_def push_undone_def demo_history_fields)
  have d: "recorded_by_tool demo_change"
    by (simp add: recorded_by_tool_def is_delete_def demo_change_def NewFileChange_def owner_readable_def permOrDefault_def)
  obtain f2 m2 x where rd: "Redo mem_os f1 m1 = (f2, m2, x)" by (cases "Redo mem_os f1 m1") auto
  note rt = undo_redo_round_trip [OF mem_os_laws demo_history_fields(4) u d rd]
  have "applyChangeUnchecked mem_os f1 demo_change = (f1(''/a'' \<mapsto> MemFile ''new''), None)"
    by (simp add: applyChangeUnchecked_def demo_change_def NewFileChange_def is_delete_def write_file_def and_then_def
        ending_def demo_dir demo_mkdir demo_write demo_tree_def f1_def)
  then have "applyChange mem_os f1 demo_change = (f1(''/a'' \<mapsto> MemFile ''new''), None)" using rt applyChange_cases(1) by metis
  then obtain m3 where "Redo mem_os f1 m1 = (f1(''/a'' \<mapsto> MemFile ''new''), m3, Inr demo_change)" by (simp add: Redo_def un)
  then have "x = Inr demo_change" using rd by simp
  then show ?thesis using rt u rd by (auto simp: demo_history_fields)
qed

end
