(* ===== verification/UndoHistory.thy ===== *)
theory UndoHistory
  imports UndoSafety
begin

text \<open>
  Every method of the undo manager as a call on the file system state and the history, and the
  contract the calls share: the history is changed exactly by an accepted \<open>Record\<close> or by a
  successful rewriting operation, the two move the counters differently, and a failed operation
  leaves the history as it was. On it rests the promise of the plan layer, whose capture of a plan's
  changes reads nothing but two snapshots.
\<close>

section \<open>The contract of the rewriting operations\<close>

lemma Record_all_size [simp]: "tr_maxSize (foldl Tracker_Record t cs) = tr_maxSize t"
  by (induction cs arbitrary: t) (simp_all add: Tracker_Record_def)

lemma RedoChanges_done:
  assumes "RedoChanges os f m is = (f', m', Inr cs)"
  shows "\<exists>sel. um_tracker m' = foldl Tracker_Record (um_tracker m) sel"
    "um_recordCount m' = um_recordCount m" "um_mutations m' = um_mutations m + 1"
    "um_maxRedo m' = um_maxRedo m"
  using assms by (auto simp: RedoChanges_def Let_def observeChanges_def split: option.splits if_splits prod.splits)

lemma um_ok_tracker:
  "um_ok m \<Longrightarrow> um_tracker m' = foldl Tracker_Record (um_tracker m) cs \<Longrightarrow> um_ok m'"
  using Record_all_ok [of "um_tracker m" cs] by (simp add: um_ok_def)

lemma um_ok_filter:
  "um_ok m \<Longrightarrow> um_tracker m' = (um_tracker m)\<lparr>tr_changes := filter P (tr_changes (um_tracker m))\<rparr> \<Longrightarrow> um_ok m'"
  by (auto simp: um_ok_def intro: le_trans [OF length_filter_le])

locale history_operation =
  fixes op :: "'f \<Rightarrow> undo_manager \<Rightarrow> 'f \<times> undo_manager \<times> (undo_error + 'r)"
  assumes failed: "um_ok m \<Longrightarrow> op f m = (f', m', Inl e) \<Longrightarrow> m' = m"
    and kept: "um_ok m \<Longrightarrow> op f m = (f', m', Inr r) \<Longrightarrow> um_ok m' \<and> tr_maxSize (um_tracker m') = tr_maxSize (um_tracker m)"
    and counted: "um_ok m \<Longrightarrow> op f m = (f', m', Inr r) \<Longrightarrow>
      um_recordCount m' = um_recordCount m \<and> um_mutations m' = um_mutations m + 1"
begin

lemma failed_snapshot: "um_ok m \<Longrightarrow> op f m = (f', m', Inl e) \<Longrightarrow> Snapshot m' = Snapshot m \<and> um_ok m'"
  using failed [of m f f' m' e] by simp

lemma succeeded_snapshot:
  "um_ok m \<Longrightarrow> op f m = (f', m', Inr r) \<Longrightarrow>
   hs_Mutations (Snapshot m') = hs_Mutations (Snapshot m) + 1 \<and> hs_RecordCount (Snapshot m') = hs_RecordCount (Snapshot m)"
  using counted [of m f f' m' r] by (simp add: Snapshot_def)

end

interpretation undo: history_operation "Undo os" for os :: "'f os"
proof
  fix m :: undo_manager and f f' m' r
  assume ok: "um_ok m" and u: "Undo os f m = (f', m', Inr r)"
  note d = Undo_done [OF u]
  show "um_ok m' \<and> tr_maxSize (um_tracker m') = tr_maxSize (um_tracker m)" using ok d(1,2) by (simp add: um_ok_def)
  show "um_recordCount m' = um_recordCount m \<and> um_mutations m' = um_mutations m + 1" using d by simp
qed (rule Undo_error)

interpretation redo: history_operation "Redo os" for os :: "'f os"
proof
  fix m :: undo_manager and f f' m' r
  assume ok: "um_ok m" and u: "Redo os f m = (f', m', Inr r)"
  note d = Redo_done [OF u]
  show "um_ok m' \<and> tr_maxSize (um_tracker m') = tr_maxSize (um_tracker m)"
    using um_ok_tracker [OF ok, of m' "[r]"] d(2) Record_all_size [of "um_tracker m" "[r]"] by simp
  show "um_recordCount m' = um_recordCount m \<and> um_mutations m' = um_mutations m + 1" using d by simp
qed (rule Redo_error)

interpretation undo_group: history_operation "\<lambda>f m. undoGroup os f m g" for os :: "'f os" and g
proof
  fix m :: undo_manager and f f' m' r
  assume ok: "um_ok m" and u: "undoGroup os f m g = (f', m', Inr r)"
  note d = undoGroup_done [OF u]
  show "um_ok m' \<and> tr_maxSize (um_tracker m') = tr_maxSize (um_tracker m)" using um_ok_filter [OF ok d(3)] d(3) by simp
  show "um_recordCount m' = um_recordCount m \<and> um_mutations m' = um_mutations m + 1" using d by simp
qed (rule group_error)

interpretation redo_group: history_operation "\<lambda>f m. redoGroup os f m g" for os :: "'f os" and g
proof
  fix m :: undo_manager and f f' m' r
  assume ok: "um_ok m" and u: "redoGroup os f m g = (f', m', Inr r)"
  note d = redoGroup_done [OF u]
  show "um_ok m' \<and> tr_maxSize (um_tracker m') = tr_maxSize (um_tracker m)" using um_ok_tracker [OF ok d(3)] d(3) by simp
  show "um_recordCount m' = um_recordCount m \<and> um_mutations m' = um_mutations m + 1" using d by simp
qed (rule group_error)

interpretation undo_changes: history_operation "\<lambda>f m. UndoChanges os f m is" for os :: "'f os" and "is"
proof
  fix m :: undo_manager and f f' m' r
  assume ok: "um_ok m" and u: "UndoChanges os f m is = (f', m', Inr r)"
  note d = UndoChanges_done [OF u]
  show "um_ok m' \<and> tr_maxSize (um_tracker m') = tr_maxSize (um_tracker m)" using um_ok_filter [OF ok d(4)] d(4) by simp
  show "um_recordCount m' = um_recordCount m \<and> um_mutations m' = um_mutations m + 1" using d by simp
qed (rule changes_error)

interpretation redo_changes: history_operation "\<lambda>f m. RedoChanges os f m is" for os :: "'f os" and "is"
proof
  fix m :: undo_manager and f f' m' r
  assume ok: "um_ok m" and u: "RedoChanges os f m is = (f', m', Inr r)"
  note d = RedoChanges_done [OF u]
  show "um_ok m' \<and> tr_maxSize (um_tracker m') = tr_maxSize (um_tracker m)" using um_ok_tracker [OF ok] d(1) by fastforce
  show "um_recordCount m' = um_recordCount m \<and> um_mutations m' = um_mutations m + 1" using d by simp
qed (rule changes_error)

text \<open>The last group: the single operation for an ungrouped change, the group's otherwise.\<close>

lemma one_results:
  "one x = (f', m', Inl e) \<longleftrightarrow> x = (f', m', Inl e)" "one x = (f', m', Inr cs) \<longleftrightarrow> (\<exists>c. x = (f', m', Inr c) \<and> cs = [c])"
  by (auto simp: one_def split: prod.splits sum.splits)

interpretation undo_last: history_operation "UndoLastGroup os" for os :: "'f os"
proof
  fix m :: undo_manager and f f' m' e r
  assume ok: "um_ok m"
  show "m' = m" if "UndoLastGroup os f m = (f', m', Inl e)"
    using that undo.failed [OF ok] undo_group.failed [OF ok]
    by (auto simp: UndoLastGroup_def one_results split: option.splits if_splits)
  assume u: "UndoLastGroup os f m = (f', m', Inr r)"
  show "um_ok m' \<and> tr_maxSize (um_tracker m') = tr_maxSize (um_tracker m)"
    using u undo.kept [OF ok] undo_group.kept [OF ok]
    by (fastforce simp: UndoLastGroup_def one_results split: option.splits if_splits)
  show "um_recordCount m' = um_recordCount m \<and> um_mutations m' = um_mutations m + 1"
    using u undo.counted [OF ok] undo_group.counted [OF ok]
    by (fastforce simp: UndoLastGroup_def one_results split: option.splits if_splits)
qed

interpretation redo_last: history_operation "RedoLastGroup os" for os :: "'f os"
proof
  fix m :: undo_manager and f f' m' e r
  assume ok: "um_ok m"
  show "m' = m" if "RedoLastGroup os f m = (f', m', Inl e)"
    using that redo.failed [OF ok] redo_group.failed [OF ok]
    by (auto simp: RedoLastGroup_def one_results split: if_splits)
  assume u: "RedoLastGroup os f m = (f', m', Inr r)"
  show "um_ok m' \<and> tr_maxSize (um_tracker m') = tr_maxSize (um_tracker m)"
    using u redo.kept [OF ok] redo_group.kept [OF ok]
    by (fastforce simp: RedoLastGroup_def one_results split: if_splits)
  show "um_recordCount m' = um_recordCount m \<and> um_mutations m' = um_mutations m + 1"
    using u redo.counted [OF ok] redo_group.counted [OF ok]
    by (fastforce simp: RedoLastGroup_def one_results split: if_splits)
qed

section \<open>Calls\<close>

datatype 'f history_call =
    CallRecord file_change
  | CallUndo | CallRedo
  | CallUndoGroup string | CallUndoLastGroup | CallRedoLastGroup
  | CallUndoChanges "string list" | CallRedoChanges "string list"
  | CallClear | CallRestoreChanges "file_change list" | CallExclusiveRestore bool bool
  | CallSetRedoStack "file_change list" | CallSetActiveGroup string | CallMarkUntracked string string
  | FilesChange 'f

datatype history_outcome = Recorded file_change | Rewritten | Unchanged

text \<open>The change as \<open>Record\<close> stores it.\<close>

definition stamped :: "undo_manager \<Rightarrow> file_change \<Rightarrow> file_change" where
  "stamped m c = (if um_activeGroup m \<noteq> [] \<and> fc_GroupID c = [] then c\<lparr>fc_GroupID := um_activeGroup m\<rparr> else c)"

definition outcome_of :: "'f \<times> undo_manager \<times> (undo_error + 'r) \<Rightarrow> 'f \<times> undo_manager \<times> history_outcome" where
  "outcome_of x = (case x of (f, m, Inl e) \<Rightarrow> (f, m, Unchanged) | (f, m, Inr r) \<Rightarrow> (f, m, Rewritten))"

fun history_step :: "'f os \<Rightarrow> 'f \<Rightarrow> undo_manager \<Rightarrow> 'f history_call \<Rightarrow> 'f \<times> undo_manager \<times> history_outcome" where
  "history_step os f m (CallRecord c) =
     (case Manager_Record m c of (m', ok) \<Rightarrow> (f, m', if ok then Recorded (stamped m c) else Unchanged))"
| "history_step os f m CallUndo = outcome_of (Undo os f m)"
| "history_step os f m CallRedo = outcome_of (Redo os f m)"
| "history_step os f m (CallUndoGroup g) = outcome_of (UndoGroup os f m g)"
| "history_step os f m CallUndoLastGroup = outcome_of (UndoLastGroup os f m)"
| "history_step os f m CallRedoLastGroup = outcome_of (RedoLastGroup os f m)"
| "history_step os f m (CallUndoChanges is) = outcome_of (UndoChanges os f m is)"
| "history_step os f m (CallRedoChanges is) = outcome_of (RedoChanges os f m is)"
| "history_step os f m CallClear = (f, Manager_Clear m, Rewritten)"
| "history_step os f m (CallRestoreChanges cs) = (f, RestoreChanges m cs, Rewritten)"
| "history_step os f m (CallExclusiveRestore code fails) =
     (f, fst (ExclusiveRestore m code (if fails then Some () else None)), if code \<and> \<not> fails then Rewritten else Unchanged)"
| "history_step os f m (CallSetRedoStack cs) = (f, SetRedoStack m cs, Unchanged)"
| "history_step os f m (CallSetActiveGroup g) = (f, SetActiveGroup m g, Unchanged)"
| "history_step os f m (CallMarkUntracked p r) = (f, MarkUntracked m p r, Unchanged)"
| "history_step os f m (FilesChange f') = (f', m, Unchanged)"

fun history_run :: "'f os \<Rightarrow> 'f \<Rightarrow> undo_manager \<Rightarrow> 'f history_call list \<Rightarrow> 'f \<times> undo_manager \<times> history_outcome list" where
  "history_run os f m [] = (f, m, [])"
| "history_run os f m (c # cs) =
     (case history_step os f m c of (f, m, r) \<Rightarrow> (case history_run os f m cs of (f, m, rs) \<Rightarrow> (f, m, r # rs)))"

fun recorded :: "history_outcome list \<Rightarrow> file_change list" where
  "recorded [] = []"
| "recorded (Recorded c # rs) = c # recorded rs"
| "recorded (_ # rs) = recorded rs"

text \<open>What one call does to the history, by its outcome.\<close>

definition history_effect :: "undo_manager \<Rightarrow> undo_manager \<Rightarrow> history_outcome \<Rightarrow> bool" where
  "history_effect m m' r \<longleftrightarrow> um_ok m' \<and> tr_maxSize (um_tracker m') = tr_maxSize (um_tracker m) \<and>
     (case r of
        Recorded c \<Rightarrow> um_tracker m' = Tracker_Record (um_tracker m) c \<and>
          um_recordCount m' = um_recordCount m + 1 \<and> um_mutations m' = um_mutations m + 1
      | Rewritten \<Rightarrow> um_recordCount m' = um_recordCount m \<and> um_mutations m' = um_mutations m + 1
      | Unchanged \<Rightarrow> um_tracker m' = um_tracker m \<and> um_recordCount m' = um_recordCount m \<and> um_mutations m' = um_mutations m)"

lemma outcome_effect:
  assumes "um_ok m" "outcome_of x = (f', m', r)"
    and "\<And>f1 m1 e. x = (f1, m1, Inl e) \<Longrightarrow> m1 = m"
    and "\<And>f1 m1 v. x = (f1, m1, Inr v) \<Longrightarrow> um_ok m1 \<and> tr_maxSize (um_tracker m1) = tr_maxSize (um_tracker m)"
    and "\<And>f1 m1 v. x = (f1, m1, Inr v) \<Longrightarrow> um_recordCount m1 = um_recordCount m \<and> um_mutations m1 = um_mutations m + 1"
  shows "history_effect m m' r"
proof (cases x)
  case (fields f1 m1 v)
  show ?thesis
  proof (cases v)
    case (Inl e)
    then show ?thesis
      using assms(1,2) assms(3) [of f1 m1 e] fields by (simp add: outcome_of_def history_effect_def)
  next
    case (Inr y)
    then show ?thesis
      using assms(2) assms(4) [of f1 m1 y] assms(5) [of f1 m1 y] fields by (simp add: outcome_of_def history_effect_def)
  qed
qed

lemma Manager_Record_cases:
  "Manager_Record m c = (m', ok) \<Longrightarrow>
   if ok then um_tracker m' = Tracker_Record (um_tracker m) (stamped m c) \<and>
     um_recordCount m' = um_recordCount m + 1 \<and> um_mutations m' = um_mutations m + 1
   else um_tracker m' = um_tracker m \<and> um_recordCount m' = um_recordCount m \<and> um_mutations m' = um_mutations m"
  by (auto simp: Manager_Record_def stamped_def MarkUntracked_def Let_def split: if_splits)

lemma step_effect:
  assumes ok: "um_ok m" and st: "history_step os f m c = (f', m', r)"
  shows "history_effect m m' r"
proof (cases c)
  case (CallRecord x)
  then show ?thesis
    using st Manager_Record_cases [of m x] Record_all_ok [of "um_tracker m" "[stamped m x]"] ok
    by (auto simp: history_effect_def um_ok_def split: prod.splits if_splits)
next
  case CallUndo
  then show ?thesis
    using st by (auto intro: outcome_effect [OF ok] dest: undo.failed [OF ok] undo.kept [OF ok] undo.counted [OF ok])
next
  case CallRedo
  then show ?thesis
    using st by (auto intro: outcome_effect [OF ok] dest: redo.failed [OF ok] redo.kept [OF ok] redo.counted [OF ok])
next
  case (CallUndoGroup g)
  then show ?thesis
    using st by (auto simp: UndoGroup_def intro: outcome_effect [OF ok]
        dest: undo_group.failed [OF ok] undo_group.kept [OF ok] undo_group.counted [OF ok])
next
  case CallUndoLastGroup
  then show ?thesis
    using st by (auto intro: outcome_effect [OF ok] dest: undo_last.failed [OF ok] undo_last.kept [OF ok] undo_last.counted [OF ok])
next
  case CallRedoLastGroup
  then show ?thesis
    using st by (auto intro: outcome_effect [OF ok] dest: redo_last.failed [OF ok] redo_last.kept [OF ok] redo_last.counted [OF ok])
next
  case (CallUndoChanges js)
  then show ?thesis
    using st by (auto intro: outcome_effect [OF ok] dest: undo_changes.failed [OF ok] undo_changes.kept [OF ok] undo_changes.counted [OF ok])
next
  case (CallRedoChanges js)
  then show ?thesis
    using st by (auto intro: outcome_effect [OF ok] dest: redo_changes.failed [OF ok] redo_changes.kept [OF ok] redo_changes.counted [OF ok])
next
  case (CallRestoreChanges cs)
  then show ?thesis
    using st ok Record_all_ok [of "Tracker_Clear (um_tracker m)" cs]
    by (auto simp: RestoreChanges_def Tracker_Clear_def history_effect_def um_ok_def)
qed (use ok st in \<open>auto simp: history_effect_def um_ok_def Manager_Clear_def Tracker_Clear_def ExclusiveRestore_def
       SetRedoStack_def SetActiveGroup_def MarkUntracked_def split: if_splits\<close>)

lemma run_effect:
  assumes "um_ok m" "history_run os f m cs = (f', m', rs)"
  shows "um_ok m' \<and> tr_maxSize (um_tracker m') = tr_maxSize (um_tracker m) \<and> length rs = length cs \<and>
    um_recordCount m' = um_recordCount m + of_nat (length (recorded rs)) \<and>
    um_mutations m' = um_mutations m + of_nat (length (recorded rs) + count_list rs Rewritten) \<and>
    length (recorded rs) + count_list rs Rewritten \<le> length cs \<and>
    (Rewritten \<notin> set rs \<longrightarrow> um_tracker m' = foldl Tracker_Record (um_tracker m) (recorded rs))"
  using assms
proof (induction cs arbitrary: f m rs)
  case (Cons c cs)
  obtain f1 m1 r rs1 where st: "history_step os f m c = (f1, m1, r)" and ru: "history_run os f1 m1 cs = (f', m', rs1)"
    and rs: "rs = r # rs1"
    using Cons.prems(2) by (auto split: prod.splits)
  have e: "history_effect m m1 r" by (rule step_effect [OF Cons.prems(1) st])
  then have ok1: "um_ok m1" by (simp add: history_effect_def)
  show ?case using Cons.IH [OF ok1 ru] e by (cases r) (auto simp: rs history_effect_def)
qed simp

section \<open>Captured plans\<close>

lemma fresh_ids_append:
  assumes "set xs \<subseteq> set base" "distinct ys" "set ys \<inter> set base = {}"
  shows "fresh_ids base [] (xs @ ys) = ys"
proof -
  have "filter (\<lambda>c. c \<notin> set base) xs = []" "filter (\<lambda>c. c \<notin> set base) ys = ys"
    using assms by (auto simp: filter_empty_conv filter_id_conv)
  then show ?thesis using assms(2) by (simp add: fresh_ids_def remdups_filter [symmetric] rev_filter [symmetric] distinct_remdups_id)
qed

lemma recorded_history:
  assumes "um_ok m" "um_tracker m' = foldl Tracker_Record (um_tracker m) cs"
    and "distinct (map fc_ID cs)" "set (map fc_ID cs) \<inter> set (ChangeIDs m) = {}"
  shows "fresh_ids (ChangeIDs m) [] (ChangeIDs m') = map fc_ID (drop (length cs - tr_maxSize (um_tracker m)) cs)"
proof -
  let ?old = "tr_changes (um_tracker m)" and ?max = "tr_maxSize (um_tracker m)"
  let ?k = "length ?old + length cs - ?max"
  have "tr_changes (um_tracker m') = drop ?k (?old @ cs)"
    using Record_all_changes [of "um_tracker m" cs] assms(1,2) by (simp add: um_ok_def)
  moreover have "?k - length ?old = length cs - ?max" by simp
  ultimately have "ChangeIDs m' = map fc_ID (drop ?k ?old) @ map fc_ID (drop (length cs - ?max) cs)"
    by (simp add: ChangeIDs_def)
  moreover have "set (map fc_ID (drop ?k ?old)) \<subseteq> set (ChangeIDs m)" by (auto simp: ChangeIDs_def dest: in_set_dropD)
  moreover have "distinct (map fc_ID (drop (length cs - ?max) cs))"
    using distinct_drop [OF assms(3), of "length cs - ?max"] by (simp add: drop_map)
  moreover have "set (map fc_ID (drop (length cs - ?max) cs)) \<inter> set (ChangeIDs m) = {}"
    using assms(4) by (auto dest!: in_set_dropD)
  ultimately show ?thesis by (simp add: fresh_ids_append)
qed

lemma counter_window:
  fixes w :: "64 word"
  assumes "unat w + n < 2 ^ 64" "k \<le> n"
  shows "w \<le> w + of_nat k" "w + of_nat k - w = of_nat k" "unat (of_nat k :: 64 word) = k"
proof -
  have k: "k < 2 ^ 64" using assms by simp
  then show u: "unat (of_nat k :: 64 word) = k" by (simp add: unat_of_nat take_bit_nat_eq_self)
  have "unat (w + of_nat k) = unat w + k" using assms u by (simp add: unat_word_ariths)
  then show "w \<le> w + of_nat k" by (simp add: word_le_nat_alt)
qed simp

text \<open>
  C33: plan undo is offered exactly when the plan's own records are all there is to undo. Between the
  two snapshots of a plan execution any methods of the undo manager run, in any order, with any
  outcome, and the files change behind its back; fewer than the 64-bit counters can hold, with fresh
  IDs for the recorded changes. Then the new checkpoint of the plan can be undone exactly when no call
  rewrote the history (an undo, redo, clear or restore that succeeded) and the accepted records fit the
  bounded history; and then the checkpoint names exactly the accepted records, in order.
\<close>

theorem plan_undo_trusts_only_records:
  assumes "um_ok m" and run: "history_run os f m calls = (f', m', rs)"
    and "unat (um_recordCount m) + length calls < 2 ^ 64" "unat (um_mutations m) + length calls < 2 ^ 64"
    and "distinct (map fc_ID (recorded rs))" "set (map fc_ID (recorded rs)) \<inter> set (ChangeIDs m) = {}"
    and "0 < x_maxHistory e" "\<not> capture_reuses e p"
    and e': "e' = FinishCapture (foldl RecordExecutedStep (fst (BeginCapture e (Some p) (Snapshot m) now)) steps) (Snapshot m')"
  shows "(CanUndo e' \<longleftrightarrow> Rewritten \<notin> set rs \<and> length (recorded rs) \<le> tr_maxSize (um_tracker m)) \<and>
    (CanUndo e' \<longrightarrow> map_option u_ChangeIDs (last_checkpoint e') = Some (map fc_ID (recorded rs)))"
proof -
  let ?R = "length (recorded rs)" and ?W = "count_list rs Rewritten" and ?max = "tr_maxSize (um_tracker m)"
  define new where "new = fresh_ids (ChangeIDs m) [] (ChangeIDs m')"
  note eff = run_effect [OF assms(1) run]
  note rc = counter_window [OF assms(3), of ?R] and mc = counter_window [OF assms(4), of "?R + ?W"]
  have st0: "u_ChangeIDs (checkpoint_of p now) = []" "u_CaptureOK (checkpoint_of p now)" by (simp_all add: checkpoint_of_def)
  have "\<exists>st. last_checkpoint e' = Some st \<and> \<not> u_Undone st \<and> u_ChangeIDs st = new \<and>
      (u_CaptureOK st \<longleftrightarrow> of_nat (?R + ?W) = (of_nat ?R :: 64 word) \<and> of_nat (length new) = (of_nat ?R :: 64 word))"
    using capture_result [OF assms(7) _ refl e', of "checkpoint_of p now"] assms(8) eff rc mc st0
    by (simp add: new_def Snapshot_def) blast
  then obtain st where st: "last_checkpoint e' = Some st" "\<not> u_Undone st" "u_ChangeIDs st = new"
    and ok: "u_CaptureOK st \<longleftrightarrow> of_nat (?R + ?W) = (of_nat ?R :: 64 word) \<and> of_nat (length new) = (of_nat ?R :: 64 word)"
    by blast
  have can: "CanUndo e' = u_CaptureOK st" using st by (simp add: CanUndo_def)
  have w: "of_nat (?R + ?W) = (of_nat ?R :: 64 word) \<longleftrightarrow> Rewritten \<notin> set rs"
  proof -
    have "of_nat (?R + ?W) = (of_nat ?R :: 64 word) \<longleftrightarrow> ?R + ?W = ?R" using rc(3) mc(3) eff by (metis add_leD1)
    then show ?thesis by (simp add: count_list_0_iff)
  qed
  have n: "new = map fc_ID (drop (?R - ?max) (recorded rs))" if "Rewritten \<notin> set rs"
    using recorded_history [OF assms(1) _ assms(5,6)] eff that by (simp add: new_def)
  have l: "of_nat (length new) = (of_nat ?R :: 64 word) \<longleftrightarrow> ?R \<le> ?max" if "Rewritten \<notin> set rs"
  proof -
    have pos: "0 < ?max" using assms(1) by (simp add: um_ok_def)
    have len: "length new = ?R - (?R - ?max)" using n [OF that] by simp
    then have "length new \<le> length calls" using eff by linarith
    then have "of_nat (length new) = (of_nat ?R :: 64 word) \<longleftrightarrow> length new = ?R"
      using counter_window(3) [OF assms(3), of "length new"] rc(3) eff by (metis add_leD1)
    then show ?thesis using pos len by auto
  qed
  show ?thesis using can ok w n l st by auto
qed

theorem plan_undo_trusts_only_records_witness:
  "\<exists>m e. CanUndo e \<and> map_option u_ChangeIDs (last_checkpoint e) = Some [''i''] \<and>
     e = FinishCapture (fst (BeginCapture (NewManagerUndoExtension 2) (Some undo_demo_plan) (Snapshot NewUndoManager) 9)) (Snapshot m)"
proof -
  have ok: "um_ok NewUndoManager"
    by (simp add: um_ok_def NewUndoManager_def NewManagerWithTracker_def NewTracker_def DefaultMaxChanges_def)
  have small: "\<not> SnapshotTooLarge (fc_OldContent demo_change) (fc_NewContent demo_change)"
    by (simp add: SnapshotTooLarge_def MaxSnapshotBytes_def demo_change_def NewFileChange_def)
  have run: "history_run mem_os demo_tree NewUndoManager [CallRecord demo_change, FilesChange edited_tree, CallRedo] =
      (edited_tree, demo_history, [Recorded demo_change, Unchanged, Unchanged])"
    using small by (simp add: demo_history_def stamped_def Manager_Record_def Let_def Redo_def outcome_of_def
        NewUndoManager_def NewManagerWithTracker_def observe_def mutated_def)
  note p = plan_undo_trusts_only_records [OF ok run, where e = "NewManagerUndoExtension 2" and p = undo_demo_plan
      and steps = "[]" and now = 9, OF _ _ _ _ _ _ refl]
  show ?thesis
    by (rule exI [of _ demo_history], rule exI, rule conjI [OF _ conjI [OF _ refl]])
      (use p in \<open>auto simp: NewUndoManager_def NewManagerWithTracker_def NewTracker_def DefaultMaxChanges_def ChangeIDs_def
         NewManagerUndoExtension_def capture_reuses_def last_checkpoint_def demo_change_def NewFileChange_def\<close>)
qed

text \<open>
  A failed undo or redo never touches the history. Whatever the operating system does, when \<open>Undo\<close>, \<open>Redo\<close>, the
  group operations or the exact transactions return an error, the history is the one before the call, so the same
  operation can be tried again.
\<close>

theorem failed_undo_keeps_history:
  assumes "um_ok m"
  shows "(Undo os f m = (f', m', Inl e) \<longrightarrow> m' = m) \<and> (Redo os f m = (f', m', Inl e) \<longrightarrow> m' = m) \<and>
    (UndoGroup os f m g = (f', m', Inl e) \<longrightarrow> m' = m) \<and> (UndoLastGroup os f m = (f', m', Inl e) \<longrightarrow> m' = m) \<and>
    (RedoLastGroup os f m = (f', m', Inl e) \<longrightarrow> m' = m) \<and> (UndoChanges os f m ids = (f', m', Inl e) \<longrightarrow> m' = m) \<and>
    (RedoChanges os f m ids = (f', m', Inl e) \<longrightarrow> m' = m)"
  using undo.failed [OF assms] redo.failed [OF assms] undo_group.failed [OF assms] undo_last.failed [OF assms]
    redo_last.failed [OF assms] undo_changes.failed [OF assms] redo_changes.failed [OF assms]
  by (auto simp: UndoGroup_def)

theorem failed_undo_keeps_history_witness:
  "\<exists>e. Undo mem_os edited_tree demo_history = (edited_tree, demo_history, Inl e)"
proof -
  obtain e where r: "revertChange mem_os edited_tree demo_change = (edited_tree, Some e)"
    using revertChange_cases(2) [OF demo_ready(2)] by metis
  then obtain m' where "Undo mem_os edited_tree demo_history = (edited_tree, m', Inl (FailedUndo e))"
    by (simp add: Undo_def PopLast_def demo_history_fields)
  then show ?thesis using failed_undo_keeps_history [OF demo_history_fields(4)] by fastforce
qed

end
