(* ===== verification/GoNet.thy ===== *)
theory GoNet
  imports GoFormat
begin

text \<open>
  IP addresses and networks of Go's \<open>net\<close> package, as far as the validators use them: an address is a
  slice of bytes, empty when nil; \<open>ParseIP\<close> reads IPv4 and IPv6 texts by the rules of
  \<open>netip.ParseAddr\<close>, \<open>ParseCIDR\<close> a prefix, \<open>To4\<close> recognises IPv4-mapped addresses and \<open>Contains\<close>
  compares masked bytes.
\<close>

type_synonym ip = "8 word list"

record ipnet =
  n_IP :: ip
  n_Mask :: "8 word list"

unbundle bit_operations_syntax

definition v4InV6Prefix :: ip where
  "v4InV6Prefix = [0, 0, 0, 0, 0, 0, 0, 0, 0, 0, 0xFF, 0xFF]"

definition To4 :: "ip \<Rightarrow> ip option" where
  "To4 a = (if length a = 4 then Some a
            else if length a = 16 \<and> take 12 a = v4InV6Prefix then Some (drop 12 a)
            else None)"

section \<open>Reading IPv4 texts\<close>

text \<open>
  \<open>parseIPv4Fields\<close>: the fields read so far, the value and the number of digits of the current one,
  and whether the previous character was a dot (or there was none).
\<close>

fun ipv4_fields :: "8 word list \<Rightarrow> nat \<Rightarrow> nat \<Rightarrow> bool \<Rightarrow> string \<Rightarrow> 8 word list option" where
  "ipv4_fields done v digLen dot [] =
     (if length done < 3 then None else Some (done @ [word_of_nat v]))"
| "ipv4_fields done v digLen dot (c # cs) =
     (if is_digit c then
        if digLen = 1 \<and> v = 0 then None
        else let v' = v * 10 + digit_val c
             in if 255 < v' then None else ipv4_fields done v' (digLen + 1) False cs
      else if c = CHR ''.'' then
        if dot \<or> cs = [] then None
        else if length done = 3 then None
        else ipv4_fields (done @ [word_of_nat v]) 0 0 True cs
      else None)"

definition parseIPv4Fields :: "string \<Rightarrow> 8 word list option" where
  "parseIPv4Fields s = ipv4_fields [] 0 0 True s"

section \<open>Reading IPv6 texts\<close>

definition hex_val :: "char \<Rightarrow> nat option" where
  "hex_val c = (let n = of_char c :: nat
     in if 48 \<le> n \<and> n \<le> 57 then Some (n - 48)
        else if 97 \<le> n \<and> n \<le> 102 then Some (n - 87)
        else if 65 \<le> n \<and> n \<le> 70 then Some (n - 55)
        else None)"

text \<open>The hexadecimal number in front: its value, its length and the rest; \<open>None\<close> for more than four digits.\<close>

fun hex_group :: "nat \<Rightarrow> nat \<Rightarrow> string \<Rightarrow> (nat \<times> nat \<times> string) option" where
  "hex_group acc off [] = Some (acc, off, [])"
| "hex_group acc off (c # cs) =
     (case hex_val c of
        None \<Rightarrow> Some (acc, off, c # cs)
      | Some d \<Rightarrow> if off > 3 then None else hex_group (acc * 16 + d) (off + 1) cs)"

lemma hex_group_rest: "hex_group acc off s = Some (acc', off', rest) \<Longrightarrow> length rest + off' = length s + off"
  by (induction acc off s rule: hex_group.induct) (auto split: option.splits if_splits)

text \<open>
  The loop of \<open>parseIPv6\<close> after the leading ellipsis: bytes read, position of the ellipsis, rest of
  the text. The result has the bytes and the ellipsis.
\<close>

function ipv6_loop :: "ip \<Rightarrow> nat option \<Rightarrow> string \<Rightarrow> (ip \<times> nat option) option" where
  "ipv6_loop bytes ell s =
     (if 16 \<le> length bytes then (if s = [] then Some (bytes, ell) else None)
      else case hex_group 0 0 s of
        None \<Rightarrow> None
      | Some (acc, off, rest) \<Rightarrow>
          if off = 0 then None
          else if rest \<noteq> [] \<and> hd rest = CHR ''.'' then
            (if ell = None \<and> length bytes \<noteq> 12 then None
             else if 16 < length bytes + 4 then None
             else map_option (\<lambda>fs. (bytes @ fs, ell)) (parseIPv4Fields s))
          else let bytes = bytes @ [word_of_nat (acc div 256), word_of_nat acc]
               in (case rest of
                     [] \<Rightarrow> Some (bytes, ell)
                   | c # ms \<Rightarrow>
                       if c \<noteq> CHR '':'' then None
                       else if ms = [] then None
                       else if hd ms = CHR '':'' then
                         if ell \<noteq> None then None
                         else if tl ms = [] then Some (bytes, Some (length bytes))
                         else ipv6_loop bytes (Some (length bytes)) (tl ms)
                       else ipv6_loop bytes ell ms))"
  by pat_completeness auto
termination
proof (relation "measure (\<lambda>(bytes, ell, s). length s)", goal_cases)
  case (2 bytes ell s x acc y off rest bytes' c ms)
  then have "length rest \<le> length s" using hex_group_rest [of 0 0 s acc off rest] by simp
  with 2 show ?case by (cases ms) auto
next
  case (3 bytes ell s x acc y off rest bytes' c ms)
  then have "length rest \<le> length s" using hex_group_rest [of 0 0 s acc off rest] by simp
  with 3 show ?case by auto
qed simp

declare ipv6_loop.simps [simp del]

definition expand_ellipsis :: "ip \<times> nat option \<Rightarrow> ip option" where
  "expand_ellipsis x =
     (case x of (bytes, ell) \<Rightarrow>
        if length bytes < 16
        then map_option (\<lambda>e. take e bytes @ replicate (16 - length bytes) 0 @ drop e bytes) ell
        else if ell \<noteq> None then None else Some bytes)"

text \<open>The address and the zone.\<close>

definition parseIPv6 :: "string \<Rightarrow> (ip \<times> string) option" where
  "parseIPv6 text =
     (let s = takeWhile (\<lambda>c. c \<noteq> CHR ''%'') text;
          zone = drop (length s + 1) text
      in if length s < length text \<and> zone = [] then None
         else map_option (\<lambda>a. (a, zone))
           (if has_prefix s ''::'' then
              if drop 2 s = [] then Some (replicate 16 0)
              else Option.bind (ipv6_loop [] (Some 0) (drop 2 s)) expand_ellipsis
            else Option.bind (ipv6_loop [] None s) expand_ellipsis))"

text \<open>\<open>netip.ParseAddr\<close>: the first dot, colon or percent sign decides; the number of bits comes with the bytes.\<close>

fun addr_kind :: "string \<Rightarrow> char option" where
  "addr_kind [] = None"
| "addr_kind (c # cs) = (if c = CHR ''.'' \<or> c = CHR '':'' \<or> c = CHR ''%'' then Some c else addr_kind cs)"

definition ParseAddr :: "string \<Rightarrow> (ip \<times> nat \<times> string) option" where
  "ParseAddr s =
     (case addr_kind s of
        None \<Rightarrow> None
      | Some c \<Rightarrow>
          if c = CHR ''.'' then map_option (\<lambda>fs. (v4InV6Prefix @ fs, 32, [])) (parseIPv4Fields s)
          else if c = CHR '':'' then map_option (\<lambda>(a, zone). (a, 128, zone)) (parseIPv6 s)
          else None)"

definition ParseIP :: "string \<Rightarrow> ip" where
  "ParseIP s = (case ParseAddr s of Some (a, bits, []) \<Rightarrow> a | _ \<Rightarrow> [])"

section \<open>Networks\<close>

definition CIDRMask :: "nat \<Rightarrow> nat \<Rightarrow> 8 word list" where
  "CIDRMask ones bits =
     map (\<lambda>i. if 8 * (i + 1) \<le> ones then 0xFF
              else if 8 * i < ones then NOT (drop_bit (ones - 8 * i) 0xFF) else 0) [0..<bits div 8]"

definition IP_Mask :: "ip \<Rightarrow> 8 word list \<Rightarrow> ip" where
  "IP_Mask a m =
     (let m = (if length m = 16 \<and> length a = 4 \<and> take 12 m = replicate 12 0xFF then drop 12 m else m);
          a = (if length m = 4 \<and> length a = 16 \<and> take 12 a = v4InV6Prefix then drop 12 a else a)
      in if length a \<noteq> length m then [] else map2 (AND) a m)"

text \<open>\<open>dtoi\<close>, which must consume the whole text here; numbers from \<open>0xFFFFFF\<close> on are refused.\<close>

definition dtoi :: "string \<Rightarrow> nat option" where
  "dtoi s = (if s \<noteq> [] \<and> list_all is_digit s \<and> read_nat s < 0xFFFFFF then Some (read_nat s) else None)"

definition ParseCIDR :: "string \<Rightarrow> ipnet option" where
  "ParseCIDR s =
     (case index_of s ''/'' of
        None \<Rightarrow> None
      | Some k \<Rightarrow>
          (case (ParseAddr (take k s), dtoi (drop (k + 1) s)) of
             (Some (a, bits, []), Some n) \<Rightarrow>
               if bits < n then None
               else Some \<lparr>n_IP = IP_Mask a (CIDRMask n bits), n_Mask = CIDRMask n bits\<rparr>
           | _ \<Rightarrow> None))"

text \<open>\<open>networkNumberAndMask\<close>: a pair of empty slices when the lengths do not fit.\<close>

definition networkNumberAndMask :: "ipnet \<Rightarrow> ip \<times> 8 word list" where
  "networkNumberAndMask n =
     (let a = (case To4 (n_IP n) of Some x \<Rightarrow> x | None \<Rightarrow> n_IP n);
          m = n_Mask n
      in if length a \<noteq> 4 \<and> length a \<noteq> 16 then ([], [])
         else if length m = 4 then (if length a \<noteq> 4 then ([], []) else (a, m))
         else if length m = 16 then (a, if length a = 4 then drop 12 m else m)
         else ([], []))"

definition Contains :: "ipnet \<Rightarrow> ip \<Rightarrow> bool" where
  "Contains n a =
     (case networkNumberAndMask n of (nn, m) \<Rightarrow>
        let a = (case To4 a of Some x \<Rightarrow> x | None \<Rightarrow> a)
        in length a = length nn \<and> list_all (\<lambda>i. nn ! i AND m ! i = a ! i AND m ! i) [0..<length a])"

end
