(* ===== verification/IPValidator.thy ===== *)
theory IPValidator
  imports GoNet
begin

text \<open>
  The SSRF guard \<open>internal/security/ip_validator.go\<close>, which every URL fetched by a tool and every
  update download passes. \<open>url.Parse\<close>, the DNS lookup and the printing of an address are arguments: a
  parsed URL is its scheme and host name, a lookup an error text or the addresses.
\<close>

section \<open>The validator\<close>

record ipvalidator =
  blockedNetworks :: "ipnet list"
  allowedSchemes :: "string list"
  blockedSchemes :: "string list"

definition blockedCIDRs :: "string list" where
  "blockedCIDRs =
     [''10.0.0.0/8'', ''172.16.0.0/12'', ''192.168.0.0/16'', ''127.0.0.0/8'', ''169.254.0.0/16'', ''100.64.0.0/10'',
      ''192.0.0.0/24'', ''192.0.2.0/24'', ''198.51.100.0/24'', ''203.0.113.0/24'', ''192.88.99.0/24'', ''198.18.0.0/15'',
      ''224.0.0.0/4'', ''240.0.0.0/4'', ''255.255.255.255/32'',
      ''::1/128'', ''fe80::/10'', ''fc00::/7'', ''ff00::/8'', ''::ffff:0:0/96'', ''64:ff9b::/96'', ''100::/64'',
      ''2001:db8::/32'', ''2001::/32'', ''2002::/16'']"

definition NewIPValidator :: ipvalidator where
  "NewIPValidator =
     \<lparr>blockedNetworks = List.map_filter ParseCIDR blockedCIDRs,
      allowedSchemes = [''http'', ''https''],
      blockedSchemes = [''file'', ''ftp'', ''gopher'', ''data'', ''javascript'', ''vbscript'', ''dict'', ''ldap'', ''ldaps'']\<rparr>"

record url_result =
  Valid :: bool
  Reason :: string
  ResolvedIP :: ip

definition refuse :: "string \<Rightarrow> ip \<Rightarrow> url_result" where
  "refuse reason a = \<lparr>Valid = False, Reason = reason, ResolvedIP = a\<rparr>"

definition permit :: "string \<Rightarrow> ip \<Rightarrow> url_result" where
  "permit reason a = \<lparr>Valid = True, Reason = reason, ResolvedIP = a\<rparr>"

definition isBlockedIP :: "ipvalidator \<Rightarrow> ip \<Rightarrow> bool" where
  "isBlockedIP v a =
     (if a = [] then True
      else if list_ex (\<lambda>n. Contains n a) (blockedNetworks v) then True
      else case To4 a of
        Some a4 \<Rightarrow> list_ex (\<lambda>n. Contains n a4) (blockedNetworks v)
      | None \<Rightarrow> False)"

definition ValidateIP :: "(ip \<Rightarrow> string) \<Rightarrow> ipvalidator \<Rightarrow> ip \<Rightarrow> url_result" where
  "ValidateIP show_ip v a =
     (if a = [] then refuse ''nil IP address'' []
      else if isBlockedIP v a then refuse (''blocked IP address: '' @ show_ip a) a
      else permit ''IP address is allowed'' a)"

definition is_localhost :: "string \<Rightarrow> bool" where
  "is_localhost hostname \<longleftrightarrow>
     to_lower hostname = ''localhost'' \<or> to_lower hostname = ''localhost.localdomain''"

text \<open>The checks on the addresses a name resolves to, which end both validations.\<close>

definition check_lookup :: "(ip \<Rightarrow> string) \<Rightarrow> ipvalidator \<Rightarrow> string \<Rightarrow> string + ip list \<Rightarrow> url_result" where
  "check_lookup show_ip v allowed res =
     (case res of
        Inl err \<Rightarrow> refuse (''DNS resolution failed: '' @ err) []
      | Inr ips \<Rightarrow>
          if ips = [] then refuse ''hostname resolved to no IP addresses'' []
          else case List.find (isBlockedIP v) ips of
            Some a \<Rightarrow> refuse (''hostname resolves to blocked IP: '' @ show_ip a) a
          | None \<Rightarrow> permit allowed (hd ips))"

definition ValidateHostname :: "(ip \<Rightarrow> string) \<Rightarrow> (string \<Rightarrow> string + ip list) \<Rightarrow> ipvalidator \<Rightarrow> string \<Rightarrow> url_result" where
  "ValidateHostname show_ip lookup v hostname =
     (if hostname = [] then refuse ''empty hostname'' []
      else if is_localhost hostname then refuse ''localhost is not allowed'' []
      else if ParseIP hostname \<noteq> [] then ValidateIP show_ip v (ParseIP hostname)
      else check_lookup show_ip v ''hostname is allowed'' (lookup hostname))"

definition ValidateURL ::
    "(ip \<Rightarrow> string) \<Rightarrow> (string \<Rightarrow> string + string \<times> string) \<Rightarrow> (string \<Rightarrow> string + ip list) \<Rightarrow> ipvalidator \<Rightarrow> string \<Rightarrow> url_result" where
  "ValidateURL show_ip parse lookup v rawURL =
     (if rawURL = [] then refuse ''empty URL'' []
      else case parse rawURL of
        Inl err \<Rightarrow> refuse (''invalid URL: '' @ err) []
      | Inr (sch, hostname) \<Rightarrow>
          let scheme = to_lower sch
          in if scheme \<in> set (blockedSchemes v) then refuse (''blocked URL scheme: '' @ scheme) []
             else if scheme \<notin> set (allowedSchemes v) then refuse (''unsupported URL scheme: '' @ scheme) []
             else if hostname = [] then refuse ''missing hostname'' []
             else if is_localhost hostname then refuse ''localhost is not allowed'' []
             else let a = ParseIP hostname
                  in if a \<noteq> [] then
                       if isBlockedIP v a then refuse (''blocked IP address: '' @ show_ip a) a
                       else permit ''IP address is allowed'' a
                     else check_lookup show_ip v ''URL is allowed'' (lookup hostname))"

definition ValidateURLForSSRF ::
    "(ip \<Rightarrow> string) \<Rightarrow> (string \<Rightarrow> string + string \<times> string) \<Rightarrow> (string \<Rightarrow> string + ip list) \<Rightarrow> string \<Rightarrow> url_result" where
  "ValidateURLForSSRF show_ip parse lookup rawURL = ValidateURL show_ip parse lookup NewIPValidator rawURL"

text \<open>\<open>cidr_error\<close> is the text of the error of \<open>ParseCIDR\<close>.\<close>

definition AddBlockedNetwork :: "(string \<Rightarrow> string) \<Rightarrow> ipvalidator \<Rightarrow> string \<Rightarrow> ipvalidator \<times> string option" where
  "AddBlockedNetwork cidr_error v cidr =
     (case ParseCIDR cidr of
        None \<Rightarrow> (v, Some (''invalid CIDR: '' @ cidr_error cidr))
      | Some n \<Rightarrow> (v\<lparr>blockedNetworks := blockedNetworks v @ [n]\<rparr>, None))"

definition AllowScheme :: "ipvalidator \<Rightarrow> string \<Rightarrow> ipvalidator" where
  "AllowScheme v scheme =
     v\<lparr>allowedSchemes := List.insert (to_lower scheme) (allowedSchemes v),
       blockedSchemes := removeAll (to_lower scheme) (blockedSchemes v)\<rparr>"

definition BlockScheme :: "ipvalidator \<Rightarrow> string \<Rightarrow> ipvalidator" where
  "BlockScheme v scheme =
     v\<lparr>blockedSchemes := List.insert (to_lower scheme) (blockedSchemes v),
       allowedSchemes := removeAll (to_lower scheme) (allowedSchemes v)\<rparr>"

section \<open>The default networks\<close>

definition net4 :: "8 word \<Rightarrow> 8 word \<Rightarrow> 8 word \<Rightarrow> 8 word \<Rightarrow> 8 word list \<Rightarrow> ipnet" where
  "net4 a b c d m = \<lparr>n_IP = [a, b, c, d], n_Mask = m\<rparr>"

definition net6 :: "8 word list \<Rightarrow> 8 word list \<Rightarrow> ipnet" where
  "net6 xs m = \<lparr>n_IP = xs @ replicate (16 - length xs) 0, n_Mask = m @ replicate (16 - length m) 0\<rparr>"

lemma default_networks:
  "blockedNetworks NewIPValidator =
     [net4 10 0 0 0 [255, 0, 0, 0], net4 172 16 0 0 [255, 240, 0, 0], net4 192 168 0 0 [255, 255, 0, 0],
      net4 127 0 0 0 [255, 0, 0, 0], net4 169 254 0 0 [255, 255, 0, 0], net4 100 64 0 0 [255, 192, 0, 0],
      net4 192 0 0 0 [255, 255, 255, 0], net4 192 0 2 0 [255, 255, 255, 0], net4 198 51 100 0 [255, 255, 255, 0],
      net4 203 0 113 0 [255, 255, 255, 0], net4 192 88 99 0 [255, 255, 255, 0], net4 198 18 0 0 [255, 254, 0, 0],
      net4 224 0 0 0 [240, 0, 0, 0], net4 240 0 0 0 [240, 0, 0, 0], net4 255 255 255 255 [255, 255, 255, 255],
      net6 (replicate 15 0 @ [1]) (replicate 16 255), net6 [0xFE, 0x80] [255, 192], net6 [0xFC] [254], net6 [0xFF] [255],
      net6 v4InV6Prefix (replicate 12 255), net6 [0, 0x64, 0xFF, 0x9B] (replicate 12 255), net6 [1] (replicate 8 255),
      net6 [0x20, 1, 0x0D, 0xB8] (replicate 4 255), net6 [0x20, 1] (replicate 4 255), net6 [0x20, 2] [255, 255]]"
  by code_simp

text \<open>What is left of a network after masking, as conditions on the leading bytes.\<close>

lemma and_FF [simp]: "(x :: 8 word) AND 255 = x" "255 AND (x :: 8 word) = x"
proof -
  have "(255 :: 8 word) = - 1" by simp
  then show "x AND 255 = x" "255 AND x = x" by (metis and.right_neutral, metis and.left_neutral)
qed

lemma Contains_net4: "length a = 16 \<Longrightarrow> To4 a = None \<Longrightarrow> \<not> Contains (net4 x y z w [m1, m2, m3, m4]) a"
  by (simp add: Contains_def networkNumberAndMask_def net4_def To4_def)

lemma Contains_mapped: "length a = 16 \<Longrightarrow> To4 a = None \<Longrightarrow> \<not> Contains (net6 v4InV6Prefix m) a"
  by (auto simp: Contains_def networkNumberAndMask_def net6_def To4_def v4InV6Prefix_def Let_def split: if_splits)

lemma Contains_net6:
  assumes "length a = 16" "To4 a = None" "length xs \<le> 16" "length m \<le> 16" "take 12 (xs @ replicate 12 0) \<noteq> v4InV6Prefix"
  shows "Contains (net6 xs m) a \<longleftrightarrow>
    map2 (AND) (take (length m) (xs @ replicate (16 - length xs) 0)) m = map2 (AND) (take (length m) a) m"
proof -
  let ?x = "xs @ replicate (16 - length xs) 0" and ?m = "m @ replicate (16 - length m) 0"
  have "take 12 ?x = take 12 (xs @ replicate 12 0)"
    using assms(3) by (simp add: take_append min_def)
  then have "To4 ?x = None" using assms(3,5) by (simp add: To4_def)
  then have "Contains (net6 xs m) a \<longleftrightarrow> (\<forall>i < 16. ?x ! i AND ?m ! i = a ! i AND ?m ! i)"
    using assms by (simp add: Contains_def networkNumberAndMask_def net6_def list_all_iff Let_def Ball_def)
  also have "\<dots> \<longleftrightarrow> (\<forall>i < length m. ?x ! i AND m ! i = a ! i AND m ! i)"
    using assms(4) by (auto simp: nth_append)
  also have "\<dots> \<longleftrightarrow> map2 (AND) (take (length m) ?x) m = map2 (AND) (take (length m) a) m"
  proof -
    define x where "x = ?x"
    have "length x = 16" using assms(3) by (simp add: x_def)
    then show ?thesis using assms(1,4) unfolding x_def [symmetric] by (auto simp: list_eq_iff_nth_eq)
  qed
  finally show ?thesis .
qed

text \<open>The reserved IPv6 ranges: loopback, link-local, unique local, multicast, NAT64, discard, documentation, Teredo, 6to4.\<close>

definition reserved6 :: "ip \<Rightarrow> bool" where
  "reserved6 a \<longleftrightarrow>
     a = replicate 15 0 @ [1] \<or> a ! 0 = 0xFE \<and> a ! 1 AND 0xC0 = 0x80 \<or> a ! 0 AND 0xFE = 0xFC \<or> a ! 0 = 0xFF \<or>
     take 12 a = [0, 0x64, 0xFF, 0x9B, 0, 0, 0, 0, 0, 0, 0, 0] \<or> take 8 a = [1, 0, 0, 0, 0, 0, 0, 0] \<or>
     take 4 a = [0x20, 1, 0x0D, 0xB8] \<or> take 4 a = [0x20, 1, 0, 0] \<or> take 2 a = [0x20, 2]"

lemma default_v6:
  assumes "length a = 16" "To4 a = None"
  shows "list_ex (\<lambda>n. Contains n a) (blockedNetworks NewIPValidator) \<longleftrightarrow> reserved6 a"
proof -
  obtain b0 b1 b2 b3 b4 b5 b6 b7 b8 b9 b10 b11 b12 b13 b14 b15
    where a: "a = [b0, b1, b2, b3, b4, b5, b6, b7, b8, b9, b10, b11, b12, b13, b14, b15]"
    using assms(1) by (auto simp: numeral_eq_Suc length_Suc_conv)
  note c = Contains_net6 [OF assms]
  have r: "replicate 15 (0 :: 8 word) = [0, 0, 0, 0, 0, 0, 0, 0, 0, 0, 0, 0, 0, 0, 0]"
    "replicate 12 (x :: 8 word) = [x, x, x, x, x, x, x, x, x, x, x, x]"
    "replicate 16 (x :: 8 word) = [x, x, x, x, x, x, x, x, x, x, x, x, x, x, x, x]"
    "replicate 8 (x :: 8 word) = [x, x, x, x, x, x, x, x]" "replicate 4 (x :: 8 word) = [x, x, x, x]" for x
    by (simp_all add: numeral_eq_Suc)
  have "Contains (net6 (replicate 15 0 @ [1]) (replicate 16 255)) a \<longleftrightarrow> a = replicate 15 0 @ [1]"
    by (subst c) (auto simp: a r v4InV6Prefix_def)
  moreover have "Contains (net6 [0xFE, 0x80] [255, 192]) a \<longleftrightarrow> a ! 0 = 0xFE \<and> a ! 1 AND 0xC0 = 0x80"
    by (subst c) (auto simp: a r v4InV6Prefix_def)
  moreover have "Contains (net6 [0xFC] [254]) a \<longleftrightarrow> a ! 0 AND 0xFE = 0xFC"
    by (subst c) (auto simp: a r v4InV6Prefix_def)
  moreover have "Contains (net6 [0xFF] [255]) a \<longleftrightarrow> a ! 0 = 0xFF"
    by (subst c) (auto simp: a r v4InV6Prefix_def)
  moreover have "Contains (net6 [0, 0x64, 0xFF, 0x9B] (replicate 12 255)) a \<longleftrightarrow> take 12 a = [0, 0x64, 0xFF, 0x9B, 0, 0, 0, 0, 0, 0, 0, 0]"
    by (subst c) (auto simp: a r v4InV6Prefix_def)
  moreover have "Contains (net6 [1] (replicate 8 255)) a \<longleftrightarrow> take 8 a = [1, 0, 0, 0, 0, 0, 0, 0]"
    by (subst c) (auto simp: a r v4InV6Prefix_def numeral_eq_Suc)
  moreover have "Contains (net6 [0x20, 1, 0x0D, 0xB8] (replicate 4 255)) a \<longleftrightarrow> take 4 a = [0x20, 1, 0x0D, 0xB8]"
    by (subst c) (auto simp: a r v4InV6Prefix_def)
  moreover have "Contains (net6 [0x20, 1] (replicate 4 255)) a \<longleftrightarrow> take 4 a = [0x20, 1, 0, 0]"
    by (subst c) (auto simp: a r v4InV6Prefix_def numeral_eq_Suc)
  moreover have "Contains (net6 [0x20, 2] [255, 255]) a \<longleftrightarrow> take 2 a = [0x20, 2]"
    by (subst c) (auto simp: a r v4InV6Prefix_def)
  ultimately show ?thesis
    unfolding default_networks reserved6_def
    by (simp add: Contains_net4 [OF assms] Contains_mapped [OF assms])
qed

section \<open>Properties\<close>

lemma mapped_all: "length a = 4 \<Longrightarrow> Contains (net6 v4InV6Prefix (replicate 12 255)) a"
  by (auto simp: Contains_def networkNumberAndMask_def net6_def To4_def v4InV6Prefix_def Let_def list_all_iff
      numeral_eq_Suc length_Suc_conv less_Suc_eq)

lemma Contains_To4: "To4 a = Some b \<Longrightarrow> Contains n a = Contains n b"
  by (auto simp: Contains_def To4_def split: if_splits)

lemma To4_length: "To4 a = Some b \<Longrightarrow> length b = 4"
  by (auto simp: To4_def split: if_splits)

text \<open>
  What the default policy blocks. Of the addresses Go knows, the default validator blocks every
  IPv4 address, in either form, and of the other IPv6 addresses exactly loopback, link-local, unique
  local, multicast, NAT64, discard, documentation, Teredo and 6to4. IPv4 is blocked as a whole because
  the prefix \<open>::ffff:0:0/96\<close> becomes the network \<open>0.0.0.0/0\<close> when it is compared with an IPv4 address, so
  that the fifteen IPv4 ranges of the table have no effect.
\<close>

theorem default_policy_exact:
  assumes "length a = 4 \<or> length a = 16"
  shows "isBlockedIP NewIPValidator a \<longleftrightarrow> To4 a \<noteq> None \<or> reserved6 a"
proof (cases "To4 a")
  case None
  then have "length a = 16" using assms by (auto simp: To4_def)
  then show ?thesis using default_v6 [OF _ None] None by (auto simp: isBlockedIP_def)
next
  case (Some b)
  have "Contains (net6 v4InV6Prefix (replicate 12 255)) a"
    unfolding Contains_To4 [OF Some] by (rule mapped_all [OF To4_length [OF Some]])
  then show ?thesis using Some by (simp add: isBlockedIP_def default_networks)
qed

theorem default_policy_exact_witness:
  "isBlockedIP NewIPValidator (ParseIP ''1.1.1.1'') \<and> \<not> isBlockedIP NewIPValidator (ParseIP ''2606:4700:4700::1111'')"
proof -
  have "length (ParseIP ''1.1.1.1'') = 16" "To4 (ParseIP ''1.1.1.1'') = Some [1, 1, 1, 1]"
    "length (ParseIP ''2606:4700:4700::1111'') = 16" "To4 (ParseIP ''2606:4700:4700::1111'') = None"
    "\<not> reserved6 (ParseIP ''2606:4700:4700::1111'')"
    by code_simp+
  then show ?thesis
    using default_policy_exact [of "ParseIP ''1.1.1.1''"] default_policy_exact [of "ParseIP ''2606:4700:4700::1111''"] by simp
qed

definition host_addresses :: "(string \<Rightarrow> string + ip list) \<Rightarrow> string \<Rightarrow> ip list" where
  "host_addresses lookup host =
     (if ParseIP host \<noteq> [] then [ParseIP host] else case lookup host of Inl err \<Rightarrow> [] | Inr ips \<Rightarrow> ips)"

definition outside :: "ipvalidator \<Rightarrow> ip \<Rightarrow> bool" where
  "outside v a \<longleftrightarrow> a \<noteq> [] \<and>
     (\<forall>n \<in> set (blockedNetworks v). \<not> Contains n a \<and> (\<forall>b. To4 a = Some b \<longrightarrow> \<not> Contains n b))"

lemma outside_iff: "outside v a \<longleftrightarrow> \<not> isBlockedIP v a"
  by (auto simp: outside_def isBlockedIP_def list_ex_iff split: option.splits)

lemma check_lookup_valid:
  "Valid (check_lookup show_ip v msg res) \<longleftrightarrow>
     (\<exists>ips. res = Inr ips \<and> ips \<noteq> [] \<and> (\<forall>a \<in> set ips. outside v a))"
  "Valid (check_lookup show_ip v msg res) \<Longrightarrow> ResolvedIP (check_lookup show_ip v msg res) = hd (projr res)"
  by (auto simp: check_lookup_def refuse_def permit_def find_None_iff find_Some_iff outside_iff split: sum.splits option.splits)

text \<open>
  C36: a URL is accepted only if everything about it was checked. For every validator, a valid answer
  means that the URL parsed, its scheme is allowed and not blocked, its host is not a name of the local
  host, and every address of the host, the one it spells or all that DNS returned, is outside every
  blocked network, also read as IPv4; the address reported is one of them. Everything else is refused,
  and the refusal of an address names the blocked one.
\<close>

theorem validated_url_is_safe:
  "Valid (ValidateURL show_ip parse lookup v rawURL) \<longleftrightarrow>
     rawURL \<noteq> [] \<and>
     (\<exists>scheme host. parse rawURL = Inr (scheme, host) \<and>
        to_lower scheme \<in> set (allowedSchemes v) \<and> to_lower scheme \<notin> set (blockedSchemes v) \<and>
        host \<noteq> [] \<and> \<not> is_localhost host \<and> host_addresses lookup host \<noteq> [] \<and>
        (\<forall>a \<in> set (host_addresses lookup host). outside v a) \<and>
        ResolvedIP (ValidateURL show_ip parse lookup v rawURL) = hd (host_addresses lookup host))"
proof (cases "parse rawURL")
  case (Inl err)
  then show ?thesis by (simp add: ValidateURL_def refuse_def)
next
  case (Inr x)
  obtain scheme host where x: "x = (scheme, host)" by (cases x)
  show ?thesis
  proof (cases "ParseIP host = []")
    case True
    then show ?thesis
      using Inr x check_lookup_valid [of show_ip v "''URL is allowed''" "lookup host"]
      by (auto simp: ValidateURL_def refuse_def host_addresses_def Let_def split: sum.splits)
  next
    case False
    then show ?thesis
      using Inr x by (auto simp: ValidateURL_def refuse_def permit_def host_addresses_def outside_iff Let_def)
  qed
qed

theorem validated_url_is_safe_witness:
  "Valid (ValidateURLForSSRF (\<lambda>a. []) (\<lambda>u. Inr (''HTTPS'', ''host'')) (\<lambda>h. Inr [ParseIP ''2606:4700:4700::1111'']) ''https://host/'')"
proof -
  let ?look = "\<lambda>h :: string. Inr [ParseIP ''2606:4700:4700::1111''] :: string + ip list" and ?parse = "\<lambda>u :: string. Inr (''HTTPS'', ''host'')"
  have "\<not> isBlockedIP NewIPValidator (ParseIP ''2606:4700:4700::1111'')" "ParseIP ''host'' = []"
    "ResolvedIP (ValidateURL (\<lambda>a. []) ?parse ?look NewIPValidator ''https://host/'') = ParseIP ''2606:4700:4700::1111''"
    "to_lower ''HTTPS'' = ''https''" "\<not> is_localhost ''host''"
    "''https'' \<in> set (allowedSchemes NewIPValidator)" "''https'' \<notin> set (blockedSchemes NewIPValidator)"
    by code_simp+
  then show ?thesis
    using validated_url_is_safe [of "\<lambda>a. []" ?parse ?look NewIPValidator "''https://host/''"]
    by (simp add: ValidateURLForSSRF_def host_addresses_def outside_iff)
qed

end
