(* ===== verification/ToolRules.thy ===== *)
theory ToolRules
  imports GoPath GoFormat GoRunes
begin

text \<open>
  Permission rules for tools, \<open>internal/permission/tool_grants.go\<close>, \<open>tool_rule_match.go\<close> and \<open>sensitive_read.go\<close>:
  parsing and canonical form of rule lists, which rule covers which tool, which argument pattern covers which call,
  and which calls read files that look like credentials (\<open>internal/security/sensitive_files.go\<close>).

  The record \<open>rule_env\<close> stands for what is outside: Unicode tables for runes beyond ASCII, \<open>strings.ToLower\<close>,
  \<open>strconv.Quote\<close>, URL parsing, the glob library, symbolic links, directories and the home directory. A tool
  argument is a JSON value.
\<close>

section \<open>Outside\<close>

datatype arg = AString string | AArray "arg list" | AObject "(string \<times> arg) list" | AOther string

type_synonym args = "(string \<times> arg) list"

record rule_env =
  re_letter :: "nat \<Rightarrow> bool"
  re_digit :: "nat \<Rightarrow> bool"
  re_upper :: "nat \<Rightarrow> bool"
  re_lower :: "nat \<Rightarrow> bool"
  re_to_lower :: "nat \<Rightarrow> nat"
  re_ToLower :: "string \<Rightarrow> string"
  re_Quote :: "string \<Rightarrow> string"
  re_Parse :: "string \<Rightarrow> (string \<times> string \<times> string \<times> string) option"
  re_Match :: "string \<Rightarrow> string \<Rightarrow> bool option"
  re_ValidatePattern :: "string \<Rightarrow> bool"
  re_EvalSymlinks :: "string \<Rightarrow> string option"
  re_UserHomeDir :: "string option"
  re_IsDir :: "string \<Rightarrow> bool"
  re_mcp :: "string list"

text \<open>A string argument: \<open>args[key].(string)\<close>.\<close>

definition arg_string :: "args \<Rightarrow> string \<Rightarrow> string option" where
  "arg_string args key = (case map_of args key of Some (AString s) \<Rightarrow> Some s | _ \<Rightarrow> None)"

definition arg_text :: "args \<Rightarrow> string \<Rightarrow> string" where
  "arg_text args key = (case arg_string args key of None \<Rightarrow> [] | Some s \<Rightarrow> s)"

section \<open>Canonical names and rules\<close>

definition is_letter :: "rule_env \<Rightarrow> nat \<Rightarrow> bool" where
  "is_letter env r = (if r < 128 then 65 \<le> r \<and> r \<le> 90 \<or> 97 \<le> r \<and> r \<le> 122 else re_letter env r)"

definition is_digit_rune :: "rule_env \<Rightarrow> nat \<Rightarrow> bool" where
  "is_digit_rune env r = (if r < 128 then 48 \<le> r \<and> r \<le> 57 else re_digit env r)"

definition is_upper :: "rule_env \<Rightarrow> nat \<Rightarrow> bool" where
  "is_upper env r = (if r < 128 then 65 \<le> r \<and> r \<le> 90 else re_upper env r)"

definition is_lower :: "rule_env \<Rightarrow> nat \<Rightarrow> bool" where
  "is_lower env r = (if r < 128 then 97 \<le> r \<and> r \<le> 122 else re_lower env r)"

definition lower_rune :: "rule_env \<Rightarrow> nat \<Rightarrow> nat" where
  "lower_rune env r = (if r < 128 then if 65 \<le> r \<and> r \<le> 90 then r + 32 else r else re_to_lower env r)"

text \<open>The loop over the runes: \<open>None\<close> for a rune no tool name has.\<close>

fun canonical_loop :: "rule_env \<Rightarrow> bool \<Rightarrow> nat option \<Rightarrow> nat list \<Rightarrow> string option" where
  "canonical_loop env wild previous [] = Some []"
| "canonical_loop env wild previous (r # rs) =
     (if is_letter env r \<or> is_digit_rune env r then
        let sep = (is_upper env r \<and> (case previous of None \<Rightarrow> False | Some p \<Rightarrow> is_lower env p \<or> is_digit_rune env p))
        in map_option (\<lambda>s. (if sep then ''_'' else []) @ encode_rune (lower_rune env r) @ s) (canonical_loop env wild (Some r) rs)
      else if r = 95 \<or> r = 45 \<or> r = 58 \<or> (wild \<and> r = 42)
      then map_option (\<lambda>s. encode_rune r @ s) (canonical_loop env wild (Some r) rs)
      else None)"

definition canonicalGrantToolNameWithWildcards :: "rule_env \<Rightarrow> string \<Rightarrow> bool \<Rightarrow> string" where
  "canonicalGrantToolNameWithWildcards env val wild =
     (let v = trim_space val
      in if v = [] then []
         else case canonical_loop env wild None (to_runes v) of
           None \<Rightarrow> []
         | Some s \<Rightarrow>
             let name = map (\<lambda>c. if c = CHR ''-'' then CHR ''_'' else c) s
             in if name = ''ask_user_question'' then ''ask_user'' else if name = ''agent'' then ''task'' else name)"

definition canonicalGrantToolName :: "rule_env \<Rightarrow> string \<Rightarrow> string" where
  "canonicalGrantToolName env val = canonicalGrantToolNameWithWildcards env val False"

definition readRuleTools :: "string list" where
  "readRuleTools = [''diff'', ''git_diff'', ''git_blame'', ''go_to_definition'', ''find_references'', ''go_search'',
     ''read'', ''grep'', ''glob'', ''list_dir'', ''tree'', ''lsp'']"

definition editRuleTools :: "string list" where
  "editRuleTools = [''edit'', ''write'', ''batch'', ''refactor'', ''copy'', ''move'', ''delete'', ''mkdir'']"

definition isPathRuleName :: "string \<Rightarrow> bool" where
  "isPathRuleName name \<longleftrightarrow> name \<in> set readRuleTools \<or> name \<in> set editRuleTools"

definition validateScopedToolRule :: "rule_env \<Rightarrow> string \<Rightarrow> string \<Rightarrow> string option" where
  "validateScopedToolRule env name pattern =
     (if name = ''bash'' then None
      else if name = ''web_fetch'' then
        let domain = trim_space (trim_prefix pattern ''domain:'')
        in if \<not> has_prefix pattern ''domain:'' \<or> domain = [] \<or> contains_byte domain (''/?#@* '' @ [CHR 0x09])
           then Some ''WebFetch specifier must be domain:<hostname>''
           else case re_Parse env (''https://'' @ domain) of
             None \<Rightarrow> Some ''WebFetch specifier must contain one hostname without a port''
           | Some (sch, host, hostname, port) \<Rightarrow>
               if hostname = [] \<or> port \<noteq> [] then Some ''WebFetch specifier must contain one hostname without a port'' else None
      else if name = ''task'' then
        if trim_space pattern = [] then Some ''Agent specifier must name an agent type'' else None
      else if isPathRuleName name then
        if trim_space pattern = [] then Some ''path specifier must not be empty''
        else if \<not> re_ValidatePattern env pattern then Some ''path specifier is not a valid glob''
        else None
      else Some (''argument-scoped rules are unsupported for tool '' @ re_Quote env name))"

definition MaxTemporaryToolGrantRules :: nat where "MaxTemporaryToolGrantRules = 64"
definition MaxTemporaryToolGrantBytes :: nat where "MaxTemporaryToolGrantBytes = 8 * 1024"
definition MaxTemporaryToolGrantRule :: nat where "MaxTemporaryToolGrantRule = 512"

text \<open>An error is \<open>Inl\<close> its text.\<close>

definition rule_name :: "rule_env \<Rightarrow> bool \<Rightarrow> string \<Rightarrow> string \<Rightarrow> string \<Rightarrow> string \<Rightarrow> string + string" where
  "rule_name env wild field val name pattern =
     (let name = canonicalGrantToolNameWithWildcards env name wild
      in if name = [] then Inl (''invalid '' @ field @ '' tool name in '' @ re_Quote env val)
         else if pattern \<noteq> [] then
           if CHR ''*'' \<in> set name
           then Inl (''argument-scoped '' @ field @ '' rule '' @ re_Quote env val @ '' cannot wildcard the tool name'')
           else (case validateScopedToolRule env name pattern of
                   Some e \<Rightarrow> Inl (''invalid '' @ field @ '' rule '' @ re_Quote env val @ '': '' @ e)
                 | None \<Rightarrow> if name = ''bash'' \<and> pattern = ''*'' then Inr name else Inr (name @ ''('' @ pattern @ '')''))
         else Inr name)"

definition canonicalTemporaryToolRule :: "rule_env \<Rightarrow> string \<Rightarrow> bool \<Rightarrow> string \<Rightarrow> string + string" where
  "canonicalTemporaryToolRule env val0 allowWildcardName field =
     (let val = trim_space val0
      in if val = [] then Inr []
         else if MaxTemporaryToolGrantRule < length val
         then Inl (field @ '' rule exceeds '' @ show_nat MaxTemporaryToolGrantRule @ '' bytes'')
         else if contains_byte val [CHR 0x00, CHR 0x0D, CHR 0x0A] then Inl (field @ '' rule contains a control character'')
         else case index_of val ''('' of
           None \<Rightarrow> rule_name env allowWildcardName field val val []
         | Some i \<Rightarrow>
             if i = 0 \<or> \<not> has_suffix val '')'' then Inl (''invalid '' @ field @ '' rule '' @ re_Quote env val)
             else let pattern = take (length val - i - 2) (drop (i + 1) val)
                  in if trim_space pattern = []
                     then Inl (field @ '' rule '' @ re_Quote env val @ '' has an empty argument pattern'')
                     else if contains_byte pattern ''()''
                     then Inl (field @ '' rule '' @ re_Quote env val @ '' has nested parentheses'')
                     else rule_name env allowWildcardName field val (trim_space (take i val)) pattern)"

text \<open>The loop of the two list functions: \<open>seen\<close> is the result so far.\<close>

fun canonicalize_loop :: "rule_env \<Rightarrow> string \<Rightarrow> string list \<Rightarrow> nat \<Rightarrow> string list \<Rightarrow> string + string list" where
  "canonicalize_loop env field seen size_sofar [] = Inr seen"
| "canonicalize_loop env field seen size_sofar (val # vals) =
     (case canonicalTemporaryToolRule env val True field of
        Inl e \<Rightarrow> Inl e
      | Inr canonical \<Rightarrow>
          if canonical = [] \<or> canonical \<in> set seen then canonicalize_loop env field seen size_sofar vals
          else let size_sofar = size_sofar + length canonical
               in if MaxTemporaryToolGrantBytes < size_sofar
                  then Inl (field @ '' exceeds '' @ show_nat MaxTemporaryToolGrantBytes @ '' bytes'')
                  else canonicalize_loop env field (seen @ [canonical]) size_sofar vals)"

definition canonicalize_rules :: "rule_env \<Rightarrow> string \<Rightarrow> string list \<Rightarrow> string + string list" where
  "canonicalize_rules env field raw =
     (if MaxTemporaryToolGrantRules < length raw
      then Inl (field @ '' exceeds '' @ show_nat MaxTemporaryToolGrantRules @ '' rules'')
      else canonicalize_loop env field [] 0 raw)"

definition CanonicalizeTemporaryToolGrants :: "rule_env \<Rightarrow> string list \<Rightarrow> string + string list" where
  "CanonicalizeTemporaryToolGrants env raw = canonicalize_rules env ''allowed-tools'' raw"

definition CanonicalizeTemporaryToolDenies :: "rule_env \<Rightarrow> string list \<Rightarrow> string + string list" where
  "CanonicalizeTemporaryToolDenies env raw = canonicalize_rules env ''disallowed-tools'' raw"

text \<open>
  The splitter: \<open>cur\<close> is the rule being read (\<open>None\<close> between rules), \<open>depth\<close> the open parentheses. White space is
  one code point at a time; inside parentheses it belongs to the rule.
\<close>

definition keep_byte :: "string option \<Rightarrow> char \<Rightarrow> string option" where
  "keep_byte cur c = (case cur of None \<Rightarrow> Some [c] | Some w \<Rightarrow> Some (w @ [c]))"

definition finish_rule :: "string option \<Rightarrow> string list" where
  "finish_rule cur = (case cur of None \<Rightarrow> [] | Some w \<Rightarrow> [w])"

function split_rules :: "string \<Rightarrow> nat \<Rightarrow> string option \<Rightarrow> string \<Rightarrow> string + string list" where
  "split_rules field depth cur [] =
     (if depth \<noteq> 0 then Inl (field @ '' contains an unterminated '' @ [CHR 0x27, CHR ''('', CHR 0x27]) else Inr (finish_rule cur))"
| "split_rules field depth cur (c # s) =
     (if c = CHR ''('' then split_rules field (depth + 1) (keep_byte cur c) s
      else if c = CHR '')'' then
        if depth = 0 then Inl (field @ '' contains an unmatched '' @ [CHR 0x27, CHR '')'', CHR 0x27])
        else split_rules field (depth - 1) (keep_byte cur c) s
      else if depth = 0 \<and> (lead_space (c # s) \<noteq> 0 \<or> c = CHR '','')
      then (case split_rules field 0 None (drop (max 1 (lead_space (c # s))) (c # s)) of
              Inl e \<Rightarrow> Inl e | Inr rules \<Rightarrow> Inr (finish_rule cur @ rules))
      else split_rules field depth (keep_byte cur c) s)"
  by pat_completeness auto
termination
  by (relation "measure (\<lambda>(field, depth, cur, s). length s)") auto

declare split_rules.simps(2) [simp del]

definition splitTemporaryToolRules :: "string \<Rightarrow> string \<Rightarrow> string + string list" where
  "splitTemporaryToolRules val field = split_rules field 0 None val"

definition ParseTemporaryToolGrantList :: "rule_env \<Rightarrow> string \<Rightarrow> string + string list" where
  "ParseTemporaryToolGrantList env val =
     (case splitTemporaryToolRules val ''allowed-tools'' of Inl e \<Rightarrow> Inl e | Inr raw \<Rightarrow> CanonicalizeTemporaryToolGrants env raw)"

definition ParseTemporaryToolDenyList :: "rule_env \<Rightarrow> string \<Rightarrow> string + string list" where
  "ParseTemporaryToolDenyList env val =
     (case splitTemporaryToolRules val ''disallowed-tools'' of Inl e \<Rightarrow> Inl e | Inr raw \<Rightarrow> CanonicalizeTemporaryToolDenies env raw)"

section \<open>Which tools a rule names\<close>

definition IsMCPToolName :: "rule_env \<Rightarrow> string \<Rightarrow> bool" where
  "IsMCPToolName env toolName \<longleftrightarrow> toolName \<noteq> [] \<and> toolName \<in> set (re_mcp env)"

text \<open>\<open>None\<close> when the rule is no rule about MCP tools.\<close>

definition claudeMCPRuleMatches :: "rule_env \<Rightarrow> string \<Rightarrow> string \<Rightarrow> bool option" where
  "claudeMCPRuleMatches env ruleName runtimeName =
     (if \<not> has_prefix ruleName ''mcp__'' then None
      else if has_prefix runtimeName ''mcp__'' then Some (wildcardMatch ruleName runtimeName)
      else if \<not> IsMCPToolName env runtimeName then Some False
      else let specifier = trim_prefix ruleName ''mcp__''
           in if specifier = [] \<or> specifier = ''*'' then Some True
              else let cut = index_of specifier ''__'';
                       server = canonicalGrantToolNameWithWildcards env (case cut of None \<Rightarrow> specifier | Some i \<Rightarrow> take i specifier) True;
                       tool = (case cut of None \<Rightarrow> [] | Some i \<Rightarrow> drop (i + 2) specifier)
                   in if server = [] then Some False
                      else if cut = None \<or> tool = [] \<or> tool = ''*'' then Some (wildcardMatch (server @ ''_*'') runtimeName)
                      else let tool = canonicalGrantToolNameWithWildcards env tool True
                           in if tool = [] then Some False else Some (wildcardMatch (server @ ''_'' @ tool) runtimeName))"

definition toolRuleNameMatches :: "rule_env \<Rightarrow> string \<Rightarrow> string \<Rightarrow> bool" where
  "toolRuleNameMatches env ruleName runtimeName0 =
     (let runtimeName = canonicalGrantToolName env runtimeName0
      in case claudeMCPRuleMatches env ruleName runtimeName of
           Some matched \<Rightarrow> matched
         | None \<Rightarrow>
             if CHR ''*'' \<in> set ruleName then wildcardMatch ruleName runtimeName
             else if ruleName = ''read'' then runtimeName \<in> set readRuleTools
             else if ruleName = ''edit'' then runtimeName \<in> set editRuleTools
             else ruleName = runtimeName)"

definition ToolDenyRuleMatchesName :: "rule_env \<Rightarrow> string \<Rightarrow> string \<Rightarrow> bool" where
  "ToolDenyRuleMatchesName env rule toolName =
     (if CHR ''('' \<in> set rule then False else toolRuleNameMatches env rule toolName)"

section \<open>Paths\<close>

definition glob_index :: "string \<Rightarrow> nat option" where
  "glob_index pattern = (let n = length (takeWhile (\<lambda>c. c \<notin> set ''*?[{'') pattern) in if n < length pattern then Some n else None)"

text \<open>The position of the last separator, \<open>/\<close> or a backslash.\<close>

definition last_separator :: "string \<Rightarrow> nat option" where
  "last_separator s =
     (let n = length (takeWhile (\<lambda>c. c \<noteq> slash \<and> c \<noteq> CHR 0x5C) (rev s)) in if n < length s then Some (length s - n - 1) else None)"

definition permissionGlobStaticPrefix :: "string \<Rightarrow> string" where
  "permissionGlobStaticPrefix pattern =
     (case glob_index pattern of
        None \<Rightarrow> path_Clean pattern
      | Some i \<Rightarrow>
          let prefix = take i pattern
          in case last_separator prefix of
               None \<Rightarrow> path_Clean prefix
             | Some 0 \<Rightarrow> ''/''
             | Some n \<Rightarrow> path_Clean (take n prefix))"

definition permissionPathWithin :: "string \<Rightarrow> string \<Rightarrow> bool" where
  "permissionPathWithin path dir =
     (case path_Rel (path_Clean dir) (path_Clean path) of
        None \<Rightarrow> False
      | Some relative \<Rightarrow> relative = ''.'' \<or> (relative \<noteq> ''..'' \<and> \<not> has_prefix relative ''../''))"

definition arg_present :: "args \<Rightarrow> string \<Rightarrow> string \<times> bool" where
  "arg_present args key =
     (case arg_string args key of None \<Rightarrow> ([], False) | Some v \<Rightarrow> (trim_space v, trim_space v \<noteq> []))"

text \<open>The files of a batch; \<open>None\<close> when one of the operations names none.\<close>

fun batch_targets :: "arg list \<Rightarrow> string list option" where
  "batch_targets [] = Some []"
| "batch_targets (raw # raws) =
     (case raw of
        AObject operation \<Rightarrow>
          (case map_of operation ''file_path'' of
             Some (AString v) \<Rightarrow> if trim_space v = [] then None else map_option (Cons (trim_space v)) (batch_targets raws)
           | _ \<Rightarrow> None)
      | _ \<Rightarrow> None)"

definition permissionPathTargets :: "string \<Rightarrow> args \<Rightarrow> string \<Rightarrow> string list \<times> bool" where
  "permissionPathTargets runtimeName args workDir =
     (if runtimeName = ''diff'' then
        let (first, firstOK) = arg_present args ''file1''; (second, secondOK) = arg_present args ''file2''
        in if secondOK then ([first, second], firstOK) else ([first], firstOK)
      else if runtimeName \<in> {''git_diff'', ''git_blame'', ''go_to_definition'', ''find_references'', ''go_search''} then
        let (v, ok) = arg_present args ''file'' in ([v], ok)
      else if runtimeName = ''lsp'' then let (v, ok) = arg_present args ''filePath'' in ([v], ok)
      else if runtimeName \<in> {''read'', ''write'', ''edit''} then let (v, ok) = arg_present args ''file_path'' in ([v], ok)
      else if runtimeName \<in> {''grep'', ''glob'', ''list_dir'', ''tree''} then
        let (v, ok) = arg_present args ''path'';
            (pattern, patternOK) = arg_present args ''pattern'';
            prefix = permissionGlobStaticPrefix pattern
        in if ok then ([v], True)
           else if runtimeName = ''glob'' \<and> patternOK \<and> prefix \<noteq> ''.'' \<and> prefix \<noteq> ''/'' then ([path_Join workDir prefix], True)
           else if trim_space workDir \<noteq> [] then ([workDir], True)
           else ([], False)
      else if runtimeName = ''delete'' \<or> runtimeName = ''mkdir'' then let (v, ok) = arg_present args ''path'' in ([v], ok)
      else if runtimeName = ''copy'' \<or> runtimeName = ''move'' then
        let (source, sourceOK) = arg_present args ''source''; (destination, destinationOK) = arg_present args ''destination''
        in ([source, destination], sourceOK \<and> destinationOK)
      else if runtimeName = ''batch'' then
        (case map_of args ''operations'' of
           Some (AArray raws) \<Rightarrow>
             if raws = [] then ([], False)
             else (case batch_targets raws of None \<Rightarrow> ([], False) | Some targets \<Rightarrow> (targets, True))
         | _ \<Rightarrow> ([], False))
      else ([], False))"

definition absolutePermissionPattern :: "rule_env \<Rightarrow> string \<Rightarrow> string \<Rightarrow> string option" where
  "absolutePermissionPattern env pattern0 workDir =
     (let pattern = trim_space pattern0
      in if has_prefix pattern ''//'' then Some (path_Clean (drop 1 pattern))
         else if has_prefix pattern ''~/'' then
           (case re_UserHomeDir env of
              None \<Rightarrow> None
            | Some home \<Rightarrow> if trim_space home = [] then None else Some (path_Clean (path_Join home (drop 2 pattern))))
         else if has_prefix pattern ''/'' then
           if trim_space workDir = [] then None else Some (path_Clean (path_Join workDir (drop 1 pattern)))
         else if trim_space workDir = [] then None
         else Some (path_Clean (path_Join workDir (trim_prefix pattern ''./''))))"

definition absolutePermissionTarget :: "string \<Rightarrow> string \<Rightarrow> string option" where
  "absolutePermissionTarget target workDir =
     (if path_IsAbs target then Some (path_Clean target)
      else if trim_space workDir = [] then None
      else Some (path_Clean (path_Join workDir target)))"

text \<open>
  Symbolic links are resolved through the deepest existing parent. Every round goes one directory up, so the fuel
  is the number of bytes of the path and one round for each of \<open>.\<close> and \<open>/\<close>.
\<close>

fun symlink_loop :: "rule_env \<Rightarrow> nat \<Rightarrow> string \<Rightarrow> string list \<Rightarrow> string option" where
  "symlink_loop env 0 current suffix = None"
| "symlink_loop env (Suc n) current suffix =
     (case re_EvalSymlinks env current of
        Some resolved \<Rightarrow> Some (path_Clean (foldl path_Join resolved suffix))
      | None \<Rightarrow>
          let parent = path_Dir current
          in if parent = current then None else symlink_loop env n parent (path_Base current # suffix))"

definition resolvePermissionPath :: "rule_env \<Rightarrow> string \<Rightarrow> string option" where
  "resolvePermissionPath env target = (let current = path_Clean target in symlink_loop env (length current + 2) current [])"

definition resolvePermissionGlobPattern :: "rule_env \<Rightarrow> string \<Rightarrow> string option" where
  "resolvePermissionGlobPattern env pattern =
     (case glob_index pattern of
        None \<Rightarrow> resolvePermissionPath env pattern
      | Some i \<Rightarrow>
          (case last_separator (take i pattern) of
             None \<Rightarrow> None
           | Some n \<Rightarrow>
               let base = (if n = 0 then ''/'' else take n pattern)
               in map_option (\<lambda>resolvedBase. path_Join resolvedBase (drop (n + 1) pattern)) (resolvePermissionPath env base)))"

definition lower_byte :: "char \<Rightarrow> string" where
  "lower_byte c = (if (of_char c :: nat) < 128 then [lower_char c] else encode_rune RuneError)"

definition permissionSlashPath :: "string \<Rightarrow> string" where
  "permissionSlashPath val0 =
     (let val = map (\<lambda>c. if c = CHR 0x5C then slash else c) val0
      in case val of
           drive # colon # sep # rest \<Rightarrow>
             if colon = CHR '':'' \<and> sep = slash then ''/'' @ lower_byte drive @ sep # rest else val
         | _ \<Rightarrow> val)"

text \<open>A path and what it resolves to, when that is another path.\<close>

definition with_resolved :: "string \<Rightarrow> string option \<Rightarrow> string list" where
  "with_resolved path resolved = path # (case resolved of None \<Rightarrow> [] | Some r \<Rightarrow> if r \<noteq> path then [r] else [])"

text \<open>Does one of the patterns match? \<open>None\<close> when the glob library reports an error first.\<close>

fun candidate_matched :: "rule_env \<Rightarrow> string list \<Rightarrow> string \<Rightarrow> bool option" where
  "candidate_matched env [] candidate = Some False"
| "candidate_matched env (p # ps) candidate =
     (case re_Match env (permissionSlashPath p) (permissionSlashPath candidate) of
        None \<Rightarrow> None
      | Some True \<Rightarrow> Some True
      | Some False \<Rightarrow> candidate_matched env ps candidate)"

fun candidates_loop :: "rule_env \<Rightarrow> bool \<Rightarrow> string list \<Rightarrow> string list \<Rightarrow> bool" where
  "candidates_loop env deny patterns [] = (\<not> deny)"
| "candidates_loop env deny patterns (c # cs) =
     (case candidate_matched env patterns c of
        None \<Rightarrow> False
      | Some matched \<Rightarrow>
          if deny \<and> matched then True
          else if \<not> deny \<and> \<not> matched then False
          else candidates_loop env deny patterns cs)"

definition permissionPathPatternMatches :: "rule_env \<Rightarrow> string \<Rightarrow> string \<Rightarrow> string \<Rightarrow> bool \<Rightarrow> bool" where
  "permissionPathPatternMatches env pattern target workDir deny =
     (case (absolutePermissionPattern env pattern workDir, absolutePermissionTarget target workDir) of
        (Some absolutePattern, Some absoluteTarget) \<Rightarrow>
          candidates_loop env deny
            (with_resolved absolutePattern (resolvePermissionGlobPattern env absolutePattern))
            (with_resolved absoluteTarget (resolvePermissionPath env absoluteTarget))
      | _ \<Rightarrow> False)"

definition permissionOperationMayReachPattern :: "rule_env \<Rightarrow> string \<Rightarrow> string \<Rightarrow> string \<Rightarrow> string \<Rightarrow> bool" where
  "permissionOperationMayReachPattern env pattern target workDir runtimeName =
     (if runtimeName = ''read'' then False
      else if runtimeName \<notin> set readRuleTools \<and> runtimeName \<notin> set editRuleTools then False
      else case (absolutePermissionPattern env pattern workDir, absolutePermissionTarget target workDir) of
        (Some absolutePattern, Some absoluteTarget) \<Rightarrow>
          let prefix = permissionGlobStaticPrefix absolutePattern
          in list_ex (\<lambda>t. list_ex (\<lambda>p. permissionPathWithin p t) (with_resolved prefix (resolvePermissionPath env prefix)))
               (with_resolved absoluteTarget (resolvePermissionPath env absoluteTarget))
      | _ \<Rightarrow> False)"

fun targets_loop :: "rule_env \<Rightarrow> string \<Rightarrow> string \<Rightarrow> string \<Rightarrow> bool \<Rightarrow> string list \<Rightarrow> bool" where
  "targets_loop env pattern runtimeName workDir deny [] = (\<not> deny)"
| "targets_loop env pattern runtimeName workDir deny (t # ts) =
     (if deny \<and> permissionOperationMayReachPattern env pattern t workDir runtimeName then True
      else let matched = permissionPathPatternMatches env pattern t workDir deny
           in if deny \<and> matched then True
              else if \<not> deny \<and> \<not> matched then False
              else targets_loop env pattern runtimeName workDir deny ts)"

definition pathRuleMatches :: "rule_env \<Rightarrow> string \<Rightarrow> string \<Rightarrow> args \<Rightarrow> string \<Rightarrow> bool \<Rightarrow> bool" where
  "pathRuleMatches env pattern runtimeName args workDir deny =
     (case permissionPathTargets runtimeName args workDir of (targets, known) \<Rightarrow>
        if \<not> known \<or> targets = [] then deny \<and> runtimeName \<in> set editRuleTools
        else targets_loop env pattern runtimeName workDir deny targets)"

section \<open>Which calls a rule covers\<close>

definition webFetchDomainMatches :: "rule_env \<Rightarrow> string \<Rightarrow> args \<Rightarrow> bool" where
  "webFetchDomainMatches env pattern args =
     (let domain = re_ToLower env (trim_space (trim_prefix pattern ''domain:''));
          bracket = (\<lambda>c. c = CHR ''['' \<or> c = CHR '']'');
          domain = rev (dropWhile bracket (rev (dropWhile bracket domain)))
      in case re_Parse env (trim_space (arg_text args ''url'')) of
           None \<Rightarrow> False
         | Some (sch, host, hostname, port) \<Rightarrow>
             if sch = [] \<or> host = [] then False
             else re_ToLower env (trim_suffix hostname ''.'') = trim_suffix domain ''.'')"

definition agentTypeMatches :: "rule_env \<Rightarrow> string \<Rightarrow> args \<Rightarrow> bool \<Rightarrow> bool" where
  "agentTypeMatches env pattern args deny =
     (let agentType = re_ToLower env (trim_space (arg_text args ''subagent_type''))
      in if agentType = [] then deny \<and> trim_space (arg_text args ''resume'') \<noteq> []
         else wildcardMatch (re_ToLower env pattern) agentType)"

definition scopedToolRuleMatches :: "rule_env \<Rightarrow> string \<Rightarrow> string \<Rightarrow> string \<Rightarrow> args \<Rightarrow> string \<Rightarrow> bool \<Rightarrow> bool" where
  "scopedToolRuleMatches env ruleName pattern runtimeName0 args workDir deny =
     (let runtimeName = canonicalGrantToolName env runtimeName0
      in if ruleName = ''bash'' then
           (case arg_string args ''command'' of None \<Rightarrow> False | Some command \<Rightarrow> bashPermissionRuleMatches pattern command deny)
         else if ruleName = ''web_fetch'' then runtimeName = ''web_fetch'' \<and> webFetchDomainMatches env pattern args
         else if ruleName = ''task'' then runtimeName = ''task'' \<and> agentTypeMatches env pattern args deny
         else isPathRuleName ruleName \<and> pathRuleMatches env pattern runtimeName args workDir deny)"

text \<open>A rule without its argument pattern, and the pattern (empty without one).\<close>

definition rule_parts :: "string \<Rightarrow> string \<times> string" where
  "rule_parts rule =
     (case index_of rule ''('' of
        Some i \<Rightarrow> if has_suffix rule '')'' then (take i rule, take (length rule - i - 2) (drop (i + 1) rule)) else (rule, [])
      | None \<Rightarrow> (rule, []))"

definition rule_matches :: "rule_env \<Rightarrow> string \<Rightarrow> string \<Rightarrow> args \<Rightarrow> string \<Rightarrow> bool \<Rightarrow> bool" where
  "rule_matches env rule toolName args workDir deny =
     (case rule_parts rule of (name, pattern) \<Rightarrow>
        if \<not> toolRuleNameMatches env name toolName then False
        else if pattern = [] then True
        else scopedToolRuleMatches env name pattern toolName args workDir deny)"

definition temporaryToolGrantMatches :: "rule_env \<Rightarrow> string \<Rightarrow> string \<Rightarrow> args \<Rightarrow> string \<Rightarrow> bool" where
  "temporaryToolGrantMatches env grant toolName args workDir = rule_matches env grant toolName args workDir False"

definition temporaryToolGrantMatchesAny :: "rule_env \<Rightarrow> string list \<Rightarrow> string \<Rightarrow> args \<Rightarrow> string \<Rightarrow> bool" where
  "temporaryToolGrantMatchesAny env grants toolName args workDir =
     list_ex (\<lambda>grant. temporaryToolGrantMatches env grant toolName args workDir) grants"

definition TemporaryToolRulesDeny :: "rule_env \<Rightarrow> string list \<Rightarrow> string \<Rightarrow> args \<Rightarrow> string \<Rightarrow> bool" where
  "TemporaryToolRulesDeny env denies toolName args workDir =
     list_ex (\<lambda>deny. rule_matches env deny toolName args workDir True) denies"

section \<open>Files that look like credentials\<close>

definition ClassifySensitivePath :: "string \<Rightarrow> bool \<times> string" where
  "ClassifySensitivePath path =
     (let name = to_lower (path_Base path)
      in if name = ''.env'' \<or> has_prefix name ''.env.'' then
           if list_ex (has_suffix name) [''.example'', ''.sample'', ''.template'', ''.dist'', ''.defaults''] then (False, [])
           else (True, ''environment credentials'')
         else if list_ex (has_suffix name) [''.pem'', ''.key'', ''.p12'', ''.pfx'', ''.jks'', ''.keystore'']
         then (True, ''private key or keystore'')
         else if has_prefix name ''id_'' \<and> \<not> contains name ''.'' then (True, ''private SSH key'')
         else if name \<in> {''credentials.json'', ''.netrc'', ''.git-credentials'', ''.pypirc'', ''.htpasswd''}
         then (True, ''credential file'')
         else if has_suffix name ''.tfstate'' \<or> has_suffix name ''.tfstate.backup'' then (True, ''Terraform state credentials'')
         else if has_prefix name ''service-account'' \<and> has_suffix name ''.json'' then (True, ''service account credentials'')
         else (False, []))"

definition sensitive_keys :: "string \<Rightarrow> string list" where
  "sensitive_keys tool =
     (if tool = ''read'' then [''file_path'']
      else if tool = ''diff'' then [''file1'', ''file2'']
      else if tool \<in> {''git_diff'', ''git_blame'', ''go_to_definition'', ''find_references'', ''go_search''} then [''file'']
      else if tool = ''lsp'' then [''filePath'']
      else if tool = ''grep'' then [''path'']
      else [])"

definition sensitive_path :: "rule_env \<Rightarrow> string \<Rightarrow> string \<Rightarrow> string option" where
  "sensitive_path env workDir raw =
     (if raw = [] then None
      else let path = path_Clean (if \<not> path_IsAbs raw \<and> workDir \<noteq> [] then path_Join workDir raw else raw)
           in if re_IsDir env path then None
              else if fst (ClassifySensitivePath path) \<or>
                      (case resolvePermissionPath env path of None \<Rightarrow> False | Some r \<Rightarrow> fst (ClassifySensitivePath r))
              then Some path else None)"

text \<open>\<open>sort.Strings\<close> on byte strings; of equal elements the order does not matter.\<close>

fun byte_le :: "string \<Rightarrow> string \<Rightarrow> bool" where
  "byte_le [] b = True"
| "byte_le (x # a) [] = False"
| "byte_le (x # a) (y # b) = ((of_char x :: nat) < of_char y \<or> (x = y \<and> byte_le a b))"

fun insert_string :: "string \<Rightarrow> string list \<Rightarrow> string list" where
  "insert_string a [] = [a]"
| "insert_string a (b # bs) = (if byte_le a b then a # b # bs else b # insert_string a bs)"

definition sort_strings :: "string list \<Rightarrow> string list" where
  "sort_strings ss = foldr insert_string ss []"

definition sensitiveReadPaths :: "rule_env \<Rightarrow> string \<Rightarrow> args \<Rightarrow> string \<Rightarrow> string list" where
  "sensitiveReadPaths env tool args workDir =
     sort_strings (List.map_filter (\<lambda>key. sensitive_path env workDir (arg_text args key)) (sensitive_keys tool))"

definition sensitiveReadHint :: "string list \<Rightarrow> string \<Rightarrow> string" where
  "sensitiveReadHint paths workDir =
     (case paths of
        [] \<Rightarrow> []
      | path # _ \<Rightarrow>
          let specifier =
                (if path_IsAbs path then
                   (case path_Rel workDir path of
                      Some rel \<Rightarrow> if workDir \<noteq> [] \<and> rel \<noteq> ''..'' \<and> \<not> has_prefix rel ''../'' then ''./'' @ rel else ''/'' @ path
                    | None \<Rightarrow> ''/'' @ path)
                 else ''./'' @ path)
          in ''credential-like file '' @ path_Base path @ '' withheld; pass --allowed-tools '' @ [CHR 0x27] @ ''Read('' @
             specifier @ '')'' @ [CHR 0x27] @ '' to allow'')"

definition sensitive_rule_matches :: "rule_env \<Rightarrow> string \<Rightarrow> string \<Rightarrow> string \<Rightarrow> string \<Rightarrow> bool" where
  "sensitive_rule_matches env tool workDir path rule =
     (case index_of rule ''('' of
        None \<Rightarrow> False
      | Some i \<Rightarrow>
          if i = 0 \<or> \<not> has_suffix rule '')'' then False
          else let name = take i rule; pattern = take (length rule - i - 2) (drop (i + 1) rule)
               in pattern \<noteq> [] \<and> toolRuleNameMatches env name tool \<and> isPathRuleName name \<and>
                  permissionPathPatternMatches env pattern path workDir False)"

definition sensitiveReadRunAllowed :: "rule_env \<Rightarrow> string list \<Rightarrow> string \<Rightarrow> string list \<Rightarrow> string \<Rightarrow> bool" where
  "sensitiveReadRunAllowed env rules tool paths workDir =
     (list_all (\<lambda>path. list_ex (sensitive_rule_matches env tool workDir path) rules) paths \<and> 0 < length paths)"

section \<open>Bounds of a rule list\<close>

lemma canonicalize_loop_bounds:
  assumes "canonicalize_loop env field seen n vals = Inr rules" "distinct seen" "[] \<notin> set seen" "n = length (concat seen)"
    "n \<le> MaxTemporaryToolGrantBytes"
  shows "distinct rules \<and> [] \<notin> set rules \<and> length (concat rules) \<le> MaxTemporaryToolGrantBytes \<and>
         length rules \<le> length seen + length vals"
  using assms
proof (induction vals arbitrary: seen n)
  case (Cons val vals)
  then obtain c where c: "canonicalTemporaryToolRule env val True field = Inr c" by (auto split: sum.splits)
  show ?case
  proof (cases "c = [] \<or> c \<in> set seen")
    case True
    with Cons.IH[of seen n] Cons.prems c show ?thesis by auto
  next
    case False
    with Cons.IH[of "seen @ [c]" "n + length c"] Cons.prems c show ?thesis by (auto simp: Let_def split: if_splits)
  qed
qed simp

text \<open>
  A parsed list of rules, grants or denies, is bounded: at most 64 rules, none empty, none twice, and at most 8192 bytes.
\<close>

lemma rule_list_bounded:
  assumes "ParseTemporaryToolGrantList env val = Inr rules \<or> ParseTemporaryToolDenyList env val = Inr rules"
  shows "length rules \<le> 64 \<and> length (concat rules) \<le> 8192 \<and> distinct rules \<and> [] \<notin> set rules"
proof -
  obtain field raw where "canonicalize_rules env field raw = Inr rules"
    using assms by (auto simp: ParseTemporaryToolGrantList_def ParseTemporaryToolDenyList_def CanonicalizeTemporaryToolGrants_def
        CanonicalizeTemporaryToolDenies_def split: sum.splits)
  then have "length raw \<le> MaxTemporaryToolGrantRules" "canonicalize_loop env field [] 0 raw = Inr rules"
    by (auto simp: canonicalize_rules_def split: if_splits)
  with canonicalize_loop_bounds[of env field "[]" 0 raw rules] show ?thesis
    by (simp add: MaxTemporaryToolGrantRules_def MaxTemporaryToolGrantBytes_def)
qed

end
