(* ===== verification/BashInspect.thy ===== *)
theory BashInspect
  imports BashRules GoRunes
begin

text \<open>
  \<open>internal/permission/bash_side_effect_free.go\<close>: which Bash commands may run without a prompt and without the
  mutation safeguards. A command is accepted only when a small parser of literal shell words understands all of it
  (quotes, escapes, \<open>&&\<close>, \<open>|\<close>, redirections to the null device) and every program with every option is on a list.
  A position of the parser is the rest of the text.
\<close>

section \<open>The parser\<close>

function utf8_valid :: "string \<Rightarrow> bool" where
  "utf8_valid [] = True"
| "utf8_valid (c # s) =
     (case decode_rune (c # s) of (r, w) \<Rightarrow>
        if r = RuneError \<and> w \<le> 1 then False else utf8_valid (drop (max 1 w) (c # s)))"
  by pat_completeness auto
termination
  by (relation "measure length") auto

definition parser_space :: "string \<Rightarrow> string" where
  "parser_space s = dropWhile (\<lambda>c. c = CHR '' '' \<or> c = CHR 0x09) s"

text \<open>The inside of a quotation: the word so far and the text after the closing quote.\<close>

fun quoted :: "char \<Rightarrow> string \<Rightarrow> string \<Rightarrow> (string \<times> string) option" where
  "quoted c w [] = None"
| "quoted c w [q] = (if q = c then Some (w, []) else None)"
| "quoted c w (q # x # s) =
     (if q = c then Some (w, x # s)
      else if c = CHR 0x22 \<and> q = CHR 0x5C \<and> (x = CHR 0x5C \<or> x = CHR 0x22) then quoted c (w @ [x]) s
      else quoted c (w @ [q]) (x # s))"

lemma quoted_shorter: "quoted c w s = Some (w', r) \<Longrightarrow> length r < length s"
  by (induction c w s rule: quoted.induct) (auto split: if_splits)

text \<open>The result of \<open>word\<close>: the word, whether it is free of quotes, whether there is one, and the rest.\<close>

type_synonym parsed_word = "string \<times> bool \<times> bool \<times> string"

definition word_break :: "char \<Rightarrow> bool" where
  "word_break c \<longleftrightarrow> c \<in> set ('' &|><'' @ [CHR 0x09])"

definition word_refused :: "char \<Rightarrow> bool" where
  "word_refused c \<longleftrightarrow> (of_char c :: nat) < 32 \<or> c \<in> set '';(){}*?[]~!#''"

function word_loop :: "string \<Rightarrow> bool \<Rightarrow> bool \<Rightarrow> string \<Rightarrow> parsed_word" where
  "word_loop w started plain [] = (w, plain, started, [])"
| "word_loop w started plain (c # s) =
     (if word_break c then (w, plain, started, c # s)
      else if word_refused c then ([], False, False, c # s)
      else if c = CHR 0x5C then
        (case s of [] \<Rightarrow> ([], False, False, []) | x # t \<Rightarrow> word_loop (w @ [x]) True False t)
      else if c = CHR 0x27 \<or> c = CHR 0x22 then
        (case quoted c w s of None \<Rightarrow> ([], False, False, []) | Some (w', t) \<Rightarrow> word_loop w' True False t)
      else word_loop (w @ [c]) True plain s)"
  by pat_completeness auto
termination
  by (relation "measure (\<lambda>(w, a, b, s). length s)") (auto dest: quoted_shorter)

declare word_loop.simps(2) [simp del]

definition parser_word :: "string \<Rightarrow> parsed_word" where
  "parser_word s = word_loop [] False True s"

text \<open>The text after a redirection that is harmless, which starts at \<open>>\<close>.\<close>

definition parser_redirect :: "string \<Rightarrow> string \<Rightarrow> string option" where
  "parser_redirect fd s =
     (let s = drop 1 s;
          appendMode = has_prefix s ''>'';
          s = (if appendMode then drop 1 s else s)
      in if has_prefix s ''&''
         then (case parser_word (drop 1 s) of (word, plain, ok, rest) \<Rightarrow>
                 if \<not> appendMode \<and> fd = ''2'' \<and> ok \<and> plain \<and> word = ''1'' then Some rest else None)
         else (case parser_word (parser_space s) of (word, _, ok, rest) \<Rightarrow>
                 if ok \<and> word = ''/dev/null'' then Some rest else None))"

definition decimalWord :: "string \<Rightarrow> bool" where
  "decimalWord w \<longleftrightarrow> w \<noteq> [] \<and> list_all (\<lambda>c. 48 \<le> (of_char c :: nat) \<and> (of_char c :: nat) \<le> 57) w"

section \<open>Programs and their options\<close>

definition optionIn :: "string \<Rightarrow> string \<Rightarrow> bool" where
  "optionIn opts opt = contains ('' '' @ opts @ '' '') ('' '' @ opt @ '' '')"

definition inspectionOptionValue :: "string \<Rightarrow> string \<Rightarrow> bool" where
  "inspectionOptionValue opt val =
     (if opt \<in> {''n'', ''U'', ''--max-count'', ''--unified''} then decimalWord val else True)"

text \<open>A bundle of short options \<open>-abc\<close>, with the words behind it: the words left, or \<open>None\<close> when it is refused.\<close>

fun short_options :: "string \<Rightarrow> string \<Rightarrow> string \<Rightarrow> string list \<Rightarrow> string list option" where
  "short_options switches vals [] args = Some args"
| "short_options switches vals (f # fs) args =
     (if optionIn vals [f] then
        (if fs = []
         then (case args of
                 [] \<Rightarrow> None
               | val # rest \<Rightarrow> if has_prefix val ''-'' \<or> \<not> inspectionOptionValue [f] val then None else Some rest)
         else if has_prefix fs ''-'' \<or> \<not> inspectionOptionValue [f] fs then None else Some args)
      else if \<not> optionIn switches [f] then None
      else short_options switches vals fs args)"

text \<open>\<open>strings.Cut\<close> at the first equals sign.\<close>

definition cut_eq :: "string \<Rightarrow> string \<times> string \<times> bool" where
  "cut_eq s = (case index_of s ''='' of None \<Rightarrow> (s, [], False) | Some i \<Rightarrow> (take i s, drop (Suc i) s, True))"

definition long_option :: "string \<Rightarrow> string \<Rightarrow> string \<Rightarrow> string list \<Rightarrow> string list option" where
  "long_option switches vals arg args =
     (case cut_eq arg of (name, val, inline) \<Rightarrow>
        if inline then (if \<not> optionIn vals name \<or> \<not> inspectionOptionValue name val then None else Some args)
        else if optionIn switches name then Some args
        else if \<not> optionIn vals name then None
        else (case args of
                [] \<Rightarrow> None
              | val # rest \<Rightarrow> if has_prefix val ''-'' \<or> \<not> inspectionOptionValue name val then None else Some rest))"

lemma short_options_le: "short_options sw vs fs args = Some rest \<Longrightarrow> length rest \<le> length args"
  by (induction sw vs fs args rule: short_options.induct) (auto split: if_splits list.splits)

lemma long_option_le: "long_option sw vs arg args = Some rest \<Longrightarrow> length rest \<le> length args"
  by (auto simp: long_option_def split: prod.splits if_splits list.splits)

function inspection_loop :: "string \<Rightarrow> string \<Rightarrow> string list \<Rightarrow> string list \<Rightarrow> string list option" where
  "inspection_loop switches vals operands [] = Some operands"
| "inspection_loop switches vals operands (arg # args) =
     (if arg = ''--'' then Some (operands @ args)
      else if arg = ''-'' \<or> \<not> has_prefix arg ''-'' then inspection_loop switches vals (operands @ [arg]) args
      else case (if has_prefix arg ''--'' then long_option switches vals arg args
                 else short_options switches vals (drop 1 arg) args) of
             None \<Rightarrow> None
           | Some rest \<Rightarrow> inspection_loop switches vals operands rest)"
  by pat_completeness auto
termination
  by (relation "measure (\<lambda>(sw, vs, ops, args). length args)")
     (auto dest!: short_options_le long_option_le split: if_splits)

declare inspection_loop.simps(2) [simp del]

definition inspectionOptions :: "string list \<Rightarrow> string \<Rightarrow> string \<Rightarrow> string list option" where
  "inspectionOptions args switches vals = inspection_loop switches vals [] args"

fun containsInspectionOption :: "string list \<Rightarrow> string \<Rightarrow> bool" where
  "containsInspectionOption [] opt = False"
| "containsInspectionOption (arg # args) opt =
     (if arg = ''--'' then False
      else if arg = opt then True
      else if arg = ''--format'' \<or> arg = ''--sort''
      then (case args of [] \<Rightarrow> False | _ # rest \<Rightarrow> containsInspectionOption rest opt)
      else containsInspectionOption args opt)"

definition program_options :: "string \<Rightarrow> (string \<times> string) option" where
  "program_options program =
     (if program = ''ls''
      then Some (''a A b B c C d f F g G h H i k l L m n N o p q Q r R s S t u U v w x 1 --all --almost-all --directory --human-readable --recursive --numeric-uid-gid --color --classify'',
                 '''')
      else if program = ''cat''
      then Some (''A b e E n s t T u v --show-all --number-nonblank --show-ends --number --squeeze-blank --show-tabs --show-nonprinting'',
                 '''')
      else if program = ''head'' \<or> program = ''tail''
      then Some (''q v --quiet --silent --verbose'',
                 ''n c --lines --bytes'')
      else if program = ''wc''
      then Some (''c l m w L --bytes --lines --chars --words --max-line-length'',
                 '''')
      else if program = ''pwd''
      then Some (''L P --logical --physical'',
                 '''')
      else if program = ''stat''
      then Some (''f L n x --file-system --dereference --terse'',
                 ''c t --format --printf'')
      else if program = ''file''
      then Some (''b h i k L N r s --brief --mime --mime-type --mime-encoding --dereference --no-dereference --keep-going --raw --special-files'',
                 '''')
      else if program = ''grep'' \<or> program = ''egrep'' \<or> program = ''fgrep''
      then Some (''a b c E F h H i I l L n o q r R s v w x z --text --byte-offset --count --extended-regexp --fixed-strings --no-filename --with-filename --ignore-case --files-with-matches --files-without-match --line-number --only-matching --quiet --recursive --no-messages --invert-match --word-regexp --line-regexp --null-data'',
                 ''A B C d D e f m --after-context --before-context --context --directories --devices --regexp --file --max-count --include --exclude --exclude-dir --exclude-from --label --binary-files'')
      else if program = ''rg''
      then Some (''a b c F h H i I l L n N o p P q s S u U v w x --text --byte-offset --count --fixed-strings --with-filename --no-filename --ignore-case --files-with-matches --files-without-match --line-number --no-line-number --only-matching --pcre2 --quiet --case-sensitive --smart-case --unrestricted --multiline --invert-match --word-regexp --line-regexp --null-data --files --hidden --no-ignore --no-config --follow --stats --heading --no-heading'',
                 ''A B C e f g j m M r t T --after-context --before-context --context --regexp --file --glob --iglob --threads --max-count --max-columns --type --type-not --color --encoding --sort --sortr --max-depth --ignore-file --replace'')
      else None)"

definition git_options_of :: "string \<Rightarrow> (string \<times> string) option" where
  "git_options_of command =
     (if command = ''status''
      then Some (''s b z --short --branch --porcelain --untracked-files --ignored'',
                 ''u --porcelain --untracked-files --ignored --ignore-submodules'')
      else if command = ''diff'' \<or> command = ''log'' \<or> command = ''show''
      then Some (''p s w b z --patch --no-patch --stat --numstat --shortstat --name-only --name-status --summary --raw --check --no-ext-diff --no-textconv --no-color --oneline --decorate --no-decorate --all --reverse --first-parent --no-merges --merges --no-renames --ignore-space-at-eol --ignore-all-space --exit-code --quiet'',
                 ''n U --max-count --unified --color --decorate --since --until --author --grep --date --diff-filter'')
      else if command = ''blame''
      then Some (''w p c s --porcelain --line-porcelain --no-textconv'',
                 ''L --date'')
      else if command = ''rev-parse''
      then Some (''q --quiet --verify --show-toplevel --show-prefix --is-inside-work-tree --abbrev-ref --short --symbolic-full-name --end-of-options'',
                 ''--short'')
      else if command = ''ls-files''
      then Some (''c d m o s t u v z --cached --deleted --modified --others --stage --unmerged --exclude-standard --eol'',
                 ''x --exclude --exclude-from'')
      else if command = ''branch''
      then Some (''a r v --all --remotes --verbose --list --show-current'',
                 ''--sort'')
      else None)"

definition find_switches :: string where
  "find_switches = ''-H -L -P -print -print0 -ls -empty -readable -writable -executable -true -false -a -and -o -or -not -depth -xdev -mount -prune -quit''"

definition find_values :: string where
  "find_values = ''-name -iname -path -ipath -regex -iregex -type -xtype -maxdepth -mindepth -size -mtime -mmin -atime -amin -ctime -cmin -perm -user -group -uid -gid -links -inum -newer''"

fun find_ok :: "string list \<Rightarrow> bool" where
  "find_ok [] = True"
| "find_ok (arg # args) =
     (if has_prefix arg ''-'' then
        if optionIn find_values arg then (case args of [] \<Rightarrow> False | _ # rest \<Rightarrow> find_ok rest)
        else optionIn find_switches arg \<and> find_ok args
      else find_ok args)"

fun printf_ok :: "string \<Rightarrow> bool" where
  "printf_ok [] = True"
| "printf_ok (c # s) =
     (if c = CHR ''%'' then (case s of [] \<Rightarrow> False | d # t \<Rightarrow> (d = CHR ''%'' \<or> d = CHR ''s'') \<and> printf_ok t)
      else printf_ok s)"

definition numeric_limit :: "string \<Rightarrow> bool" where
  "numeric_limit arg \<longleftrightarrow> 1 < length arg \<and> hd arg = CHR ''-'' \<and> decimalWord (tl arg)"

definition inspectionGit :: "string list \<Rightarrow> bool" where
  "inspectionGit args =
     (let args = (if args \<noteq> [] \<and> hd args = ''--no-pager'' then tl args else args)
      in case args of
           [] \<Rightarrow> False
         | command # rest \<Rightarrow>
             (case git_options_of command of
                None \<Rightarrow> False
              | Some (switches, vals) \<Rightarrow>
                  if command \<in> {''diff'', ''log'', ''show''}
                  then inspectionOptions (filter (\<lambda>arg. \<not> numeric_limit arg) rest) switches vals \<noteq> None
                  else if command = ''branch''
                  then (case inspectionOptions rest switches vals of
                          None \<Rightarrow> False
                        | Some operands \<Rightarrow> operands = [] \<or> containsInspectionOption rest ''--list'')
                  else inspectionOptions rest switches vals \<noteq> None))"

definition inspectionProgram :: "string list \<Rightarrow> bool \<Rightarrow> bool" where
  "inspectionProgram words redirected =
     (case words of
        [] \<Rightarrow> False
      | program # args \<Rightarrow>
          if program = ''echo'' then \<not> redirected
          else if program = ''printf'' then
            if redirected \<or> args = [] \<or> has_prefix (hd args) ''-'' then False else printf_ok (hd args)
          else if program = ''find'' then find_ok args
          else if program = ''git'' then inspectionGit args
          else case program_options program of
            None \<Rightarrow> False
          | Some (switches, vals) \<Rightarrow> inspectionOptions args switches vals \<noteq> None)"

section \<open>The whole command\<close>

text \<open>The four ways a step of the word loop ends or goes on.\<close>

lemma word_loop_cases:
  assumes "word_loop w a b (c # s) = (w', p, ok, r)"
  obtains (stop) "word_break c" "w' = w" "p = b" "ok = a" "r = c # s"
  | (refused) "\<not> ok"
  | (escaped) x t where "\<not> word_break c" "\<not> word_refused c" "c = CHR 0x5C" "s = x # t" "word_loop (w @ [x]) True False t = (w', p, ok, r)"
  | (inside) v t where "\<not> word_break c" "\<not> word_refused c" "c = CHR 0x27 \<or> c = CHR 0x22" "quoted c w s = Some (v, t)"
      "word_loop v True False t = (w', p, ok, r)"
  | (literal) "\<not> word_break c" "\<not> word_refused c" "c \<notin> {CHR 0x5C, CHR 0x27, CHR 0x22}" "word_loop (w @ [c]) True b s = (w', p, ok, r)"
  using assms
  by (simp only: word_loop.simps(2) split: if_splits list.splits option.splits prod.splits) auto

lemma word_loop_le: "word_loop w a b s = (w', p, ok, r) \<Longrightarrow> ok \<Longrightarrow> length r \<le> length s"
proof (induction "length s" arbitrary: w a b s rule: less_induct)
  case less
  show ?case
  proof (cases s)
    case (Cons c t)
    show ?thesis
    proof (rule word_loop_cases [OF less.prems(1) [unfolded Cons]])
      fix v u
      assume "quoted c w t = Some (v, u)" "word_loop v True False u = (w', p, ok, r)"
      then show ?thesis using less.hyps [of u v True False] less.prems(2) quoted_shorter [of c w t v u] Cons by simp
    qed (use less Cons in force)+
  qed (use less.prems in simp)
qed

lemma word_shorter:
  assumes "parser_word s = (w, p, True, r)"
  shows "length r < length s"
proof (cases s)
  case (Cons c t)
  show ?thesis
  proof (rule word_loop_cases [OF assms [unfolded parser_word_def Cons]])
    fix v u
    assume "quoted c [] t = Some (v, u)" "word_loop v True False u = (w, p, True, r)"
    then show ?thesis using word_loop_le [of v True False u w p True r] quoted_shorter [of c "[]" t v u] Cons by simp
  qed (use word_loop_le Cons in fastforce)+
qed (use assms in \<open>simp add: parser_word_def\<close>)

lemma space_le: "length (parser_space s) \<le> length s"
  by (simp add: parser_space_def length_dropWhile_le)

lemma redirect_word:
  assumes "parser_redirect fd s = Some r"
  obtains t w p where "parser_word t = (w, p, True, r)" "t = drop 2 s \<or> t = drop 3 s \<or> t = parser_space (drop 1 s) \<or> t = parser_space (drop 2 s)"
proof -
  have d: "drop (Suc 0) (drop (Suc 0) s) = drop 2 s" "drop (Suc 0) (drop 2 s) = drop 3 s" by (simp_all add: numeral_eq_Suc)
  define u where "u = (if has_prefix (drop 1 s) ''>'' then drop 2 s else drop 1 s)"
  have "(\<exists>w p. parser_word (drop 1 u) = (w, p, True, r)) \<or> (\<exists>w p. parser_word (parser_space u) = (w, p, True, r))"
    using assms d(1) by (auto simp: parser_redirect_def Let_def u_def split: prod.splits if_splits)
  then show ?thesis using that d by (auto simp: u_def split: if_splits)
qed

lemma redirect_shorter: "parser_redirect fd s = Some r \<Longrightarrow> length r < length s"
  by (rule redirect_word, assumption)
     (use space_le [of "drop 1 s"] space_le [of "drop 2 s"] in \<open>auto dest!: word_shorter\<close>)

function inspect_loop :: "string list \<Rightarrow> bool \<Rightarrow> string \<Rightarrow> bool" where
  "inspect_loop words redirected s =
     (case parser_space s of
        [] \<Rightarrow> inspectionProgram words redirected
      | c # t \<Rightarrow>
          if c = CHR ''&'' \<or> c = CHR ''|'' then
            if \<not> inspectionProgram words redirected then False
            else if has_prefix (c # t) ''&&'' then inspect_loop [] False (drop 1 t)
            else if c = CHR ''|'' \<and> \<not> has_prefix (c # t) ''||'' \<and> \<not> has_prefix (c # t) ''|&'' then inspect_loop [] False t
            else False
          else if c = CHR ''>'' then
            (case parser_redirect [] (c # t) of None \<Rightarrow> False | Some r \<Rightarrow> inspect_loop words True r)
          else
            (case parser_word (c # t) of (word, plain, ok, rest) \<Rightarrow>
               if \<not> ok then False
               else if plain \<and> decimalWord word \<and> has_prefix rest ''>''
               then (case parser_redirect word rest of None \<Rightarrow> False | Some r \<Rightarrow> inspect_loop words True r)
               else inspect_loop (words @ [word]) redirected rest))"
  by pat_completeness auto
termination
proof (relation "measure (\<lambda>(words, redirected, s). length s)", goal_cases)
  case 1
  show ?case by simp
next
  case (2 words redirected s c t)
  then show ?case using space_le [of s] by simp
next
  case (3 words redirected s c t)
  then show ?case using space_le [of s] by simp
next
  case (4 words redirected s c t r)
  then show ?case using space_le [of s] redirect_shorter [of "[]" "c # t" r] by simp
next
  case (5 words redirected s c t w x plain y ok rest r)
  then have "parser_word (c # t) = (w, plain, True, rest)" by simp
  from 5 word_shorter [OF this] show ?case using space_le [of s] redirect_shorter [of w rest r] by simp
next
  case (6 words redirected s c t w x plain y ok rest)
  then have "parser_word (c # t) = (w, plain, True, rest)" by simp
  from 6 word_shorter [OF this] show ?case using space_le [of s] by simp
qed

declare inspect_loop.simps [simp del]

definition IsSideEffectFreeBashCommand :: "string \<Rightarrow> bool" where
  "IsSideEffectFreeBashCommand command =
     (if 65536 < length command \<or> \<not> utf8_valid command \<or>
         contains_byte command ([CHR 0x00, CHR 0x0D, CHR 0x0A] @ ''$`'') then False
      else inspect_loop [] False command)"

section \<open>What a command line says\<close>

text \<open>
  The reading of a command line, as the shell has it for the accepted characters. \<open>dq u v\<close>: between double
  quotes the text \<open>u\<close> stands for \<open>v\<close>; \<open>word_text t w\<close>: the text \<open>t\<close> is the word \<open>w\<close>.
\<close>

inductive dq :: "string \<Rightarrow> string \<Rightarrow> bool" where
  dq_Nil: "dq [] []"
| dq_escape: "c = CHR 0x5C \<or> c = CHR 0x22 \<Longrightarrow> dq u v \<Longrightarrow> dq (CHR 0x5C # c # u) (c # v)"
| dq_literal: "c \<noteq> CHR 0x22 \<Longrightarrow> (c = CHR 0x5C \<Longrightarrow> u \<noteq> [] \<and> hd u \<notin> {CHR 0x5C, CHR 0x22}) \<Longrightarrow> dq u v \<Longrightarrow> dq (c # u) (c # v)"

inductive word_text :: "string \<Rightarrow> string \<Rightarrow> bool" where
  literal: "\<not> word_break c \<Longrightarrow> \<not> word_refused c \<Longrightarrow> c \<notin> {CHR 0x5C, CHR 0x27, CHR 0x22} \<Longrightarrow> word_text [c] [c]"
| escape: "word_text [CHR 0x5C, c] [c]"
| single: "CHR 0x27 \<notin> set u \<Longrightarrow> word_text (CHR 0x27 # u @ [CHR 0x27]) u"
| double: "dq u v \<Longrightarrow> word_text (CHR 0x22 # u @ [CHR 0x22]) v"
| adjacent: "word_text s v \<Longrightarrow> word_text t w \<Longrightarrow> word_text (s @ t) (v @ w)"

definition word_ends :: "string \<Rightarrow> bool" where
  "word_ends rest \<longleftrightarrow> rest = [] \<or> word_break (hd rest)"

definition blanks :: "string \<Rightarrow> bool" where
  "blanks b \<longleftrightarrow> set b \<subseteq> {CHR '' '', CHR 0x09}"

text \<open>
  \<open>reads ws r s cs\<close>: after the words \<open>ws\<close> of the current command, redirected to the null device when \<open>r\<close>, the text \<open>s\<close>
  completes the commands \<open>cs\<close>.
\<close>

inductive reads :: "string list \<Rightarrow> bool \<Rightarrow> string \<Rightarrow> (string list \<times> bool) list \<Rightarrow> bool" where
  finish: "reads ws r [] [(ws, r)]"
| blank: "blanks b \<Longrightarrow> reads ws r s cs \<Longrightarrow> reads ws r (b @ s) cs"
| both: "reads [] False s cs \<Longrightarrow> reads ws r (''&&'' @ s) ((ws, r) # cs)"
| pipe: "\<not> has_prefix s ''|'' \<Longrightarrow> \<not> has_prefix s ''&'' \<Longrightarrow> reads [] False s cs \<Longrightarrow> reads ws r (''|'' @ s) ((ws, r) # cs)"
| null: "fd = [] \<or> decimalWord fd \<Longrightarrow> app = [] \<or> app = ''>'' \<Longrightarrow> blanks b \<Longrightarrow> word_text t ''/dev/null'' \<Longrightarrow> word_ends s \<Longrightarrow>
    reads ws True s cs \<Longrightarrow> reads ws r (fd @ ''>'' @ app @ b @ t @ s) cs"
| merge: "word_ends s \<Longrightarrow> reads ws True s cs \<Longrightarrow> reads ws r (''2>&1'' @ s) cs"
| word: "word_text t w \<Longrightarrow> word_ends s \<Longrightarrow> reads (ws @ [w]) r s cs \<Longrightarrow> reads ws r (t @ s) cs"

lemma quoted_single: "quoted (CHR 0x27) w s = Some (w', r) \<Longrightarrow> \<exists>u. s = u @ CHR 0x27 # r \<and> CHR 0x27 \<notin> set u \<and> w' = w @ u"
proof (induction "CHR 0x27" w s rule: quoted.induct)
  case (3 w q x s)
  show ?case
  proof (cases "q = CHR 0x27")
    case True
    then show ?thesis using 3 by auto
  next
    case False
    then obtain u where "x # s = u @ CHR 0x27 # r" "CHR 0x27 \<notin> set u" "w' = (w @ [q]) @ u" using 3 by auto
    then show ?thesis using False by (intro exI [of _ "q # u"]) auto
  qed
qed (auto split: if_splits)

lemma quoted_double: "quoted (CHR 0x22) w s = Some (w', r) \<Longrightarrow> \<exists>u v. s = u @ CHR 0x22 # r \<and> dq u v \<and> w' = w @ v"
proof (induction "CHR 0x22" w s rule: quoted.induct)
  case (2 w q)
  then show ?case by (auto split: if_splits intro: dq_Nil)
next
  case (3 w q x s)
  consider (close) "q = CHR 0x22" | (esc) "q \<noteq> CHR 0x22" "q = CHR 0x5C \<and> (x = CHR 0x5C \<or> x = CHR 0x22)"
    | (lit) "q \<noteq> CHR 0x22" "\<not> (q = CHR 0x5C \<and> (x = CHR 0x5C \<or> x = CHR 0x22))" by blast
  then show ?case
  proof cases
    case close
    then show ?thesis using 3 by (auto intro: dq_Nil)
  next
    case esc
    then obtain u v where "s = u @ CHR 0x22 # r" "dq u v" "w' = (w @ [x]) @ v" using 3 by auto
    then show ?thesis using esc dq_escape [of x u v] by (intro exI [of _ "CHR 0x5C # x # u"] exI [of _ "x # v"]) auto
  next
    case lit
    then obtain u v where u: "x # s = u @ CHR 0x22 # r" "dq u v" "w' = (w @ [q]) @ v" using 3 by auto
    have "q = CHR 0x5C \<Longrightarrow> u \<noteq> [] \<and> hd u \<notin> {CHR 0x5C, CHR 0x22}" using lit u(1) by (cases u) auto
    then have "dq (q # u) (q # v)" using lit(1) u(2) by (intro dq_literal) auto
    then show ?thesis using u by (intro exI [of _ "q # u"] exI [of _ "q # v"]) auto
  qed
qed simp

lemma adjacent_or_empty: "word_text t v \<Longrightarrow> u = [] \<and> x = [] \<or> word_text u x \<Longrightarrow> word_text (t @ u) (v @ x)"
  by (auto intro: adjacent)

lemma word_loop_reads:
  assumes "word_loop w a b s = (w', p, True, r)"
  shows "\<exists>t v. s = t @ r \<and> w' = w @ v \<and> (t = [] \<and> v = [] \<or> word_text t v) \<and> word_ends r \<and> (p \<longrightarrow> b \<and> t = v) \<and> (a \<or> t \<noteq> [])"
  using assms
proof (induction "length s" arbitrary: w a b s rule: less_induct)
  case less
  show ?case
  proof (cases s)
    case Nil
    then show ?thesis using less.prems by (simp add: word_ends_def)
  next
    case (Cons c s')
    have go: ?thesis
      if pre: "c # s' = t0 @ s1" "word_text t0 v0" "t0 \<noteq> []" "b1 \<longrightarrow> b \<and> t0 = v0" and lo: "word_loop (w @ v0) True b1 s1 = (w', p, True, r)"
      for t0 s1 v0 b1
    proof -
      have "length s1 < length s" using pre(1,3) Cons by (metis length_append length_greater_0_conv less_add_same_cancel2)
      then obtain u v where u: "s1 = u @ r" "w' = (w @ v0) @ v" "u = [] \<and> v = [] \<or> word_text u v" "word_ends r" "p \<longrightarrow> b1 \<and> u = v"
        using less.hyps [OF _ lo] by blast
      have "word_text (t0 @ u) (v0 @ v)" by (rule adjacent_or_empty [OF pre(2) u(3)])
      then show ?thesis using u pre Cons by (intro exI [of _ "t0 @ u"] exI [of _ "v0 @ v"]) auto
    qed
    show ?thesis
    proof (rule word_loop_cases [OF less.prems [unfolded Cons]])
      assume "word_break c" "w' = w" "p = b" "True = a" "r = c # s'"
      then show ?thesis by (intro exI [of _ "[]"]) (simp add: word_ends_def Cons)
    next
      fix x t assume "c = CHR 0x5C" "s' = x # t" "word_loop (w @ [x]) True False t = (w', p, True, r)"
      then show ?thesis by (intro go [of "[c, x]" t "[x]" False]) (auto intro: escape)
    next
      fix v t assume h: "c = CHR 0x27 \<or> c = CHR 0x22" "quoted c w s' = Some (v, t)" "word_loop v True False t = (w', p, True, r)"
      show ?thesis
      proof (cases "c = CHR 0x27")
        case True
        then obtain u where u: "s' = u @ CHR 0x27 # t" "CHR 0x27 \<notin> set u" "v = w @ u" using quoted_single h(2) by metis
        then show ?thesis using True h(3) by (intro go [of "CHR 0x27 # u @ [CHR 0x27]" t u False]) (auto intro: single)
      next
        case False
        then obtain u x where u: "s' = u @ CHR 0x22 # t" "dq u x" "v = w @ x" using quoted_double h(1,2) by metis
        then show ?thesis using False h(1,3) by (intro go [of "CHR 0x22 # u @ [CHR 0x22]" t x False]) (auto intro: double)
      qed
    next
      assume "\<not> word_break c" "\<not> word_refused c" "c \<notin> {CHR 0x5C, CHR 0x27, CHR 0x22}" "word_loop (w @ [c]) True b s' = (w', p, True, r)"
      then show ?thesis by (intro go [of "[c]" s' "[c]" b]) (auto intro: literal)
    qed simp
  qed
qed

lemma parser_word_reads:
  assumes "parser_word s = (w, p, True, r)"
  obtains t where "s = t @ r" "word_text t w" "word_ends r" "p \<longrightarrow> t = w"
proof -
  obtain t v where "s = t @ r" "w = v" "t = [] \<and> v = [] \<or> word_text t v" "word_ends r" "p \<longrightarrow> t = v" "t \<noteq> []"
    using word_loop_reads [OF assms [unfolded parser_word_def]] by auto
  then show ?thesis using that by auto
qed

lemma space_blanks: "\<exists>b. s = b @ parser_space s \<and> blanks b"
  by (rule exI [of _ "takeWhile (\<lambda>c. c = CHR '' '' \<or> c = CHR 0x09) s"]) (auto simp: parser_space_def blanks_def dest: set_takeWhileD)

lemma has_prefix_one: "has_prefix s [c] \<longleftrightarrow> (\<exists>t. s = c # t)"
  by (simp add: has_prefix_iff)

lemma redirect_reads:
  assumes "parser_redirect fd (CHR ''>'' # s) = Some rest" "fd = [] \<or> decimalWord fd" "reads ws True rest cs"
  shows "reads ws r (fd @ CHR ''>'' # s) cs"
proof -
  define app where "app = (if has_prefix s ''>'' then ''>'' else [])"
  have "\<exists>u. s = app @ u" by (cases "has_prefix s ''>''") (auto simp: app_def has_prefix_one)
  then obtain u where u: "s = app @ u" "app = [] \<or> app = ''>''" by (auto simp: app_def)
  have step: "parser_redirect fd (CHR ''>'' # s) =
      (if has_prefix u ''&''
       then (case parser_word (drop 1 u) of (word, plain, ok, rest) \<Rightarrow> if app = [] \<and> fd = ''2'' \<and> ok \<and> plain \<and> word = ''1'' then Some rest else None)
       else (case parser_word (parser_space u) of (word, _, ok, rest) \<Rightarrow> if ok \<and> word = ''/dev/null'' then Some rest else None))"
    using u(1) by (auto simp: parser_redirect_def Let_def app_def split: if_splits prod.splits)
  show ?thesis
  proof (cases "has_prefix u ''&''")
    case True
    then obtain v where v: "u = CHR ''&'' # v" by (auto simp: has_prefix_one)
    have w: "parser_word v = (''1'', True, True, rest)" and f: "app = []" "fd = ''2''"
      using assms(1) step True v by (auto split: prod.splits if_splits)
    obtain t where "v = t @ rest" "t = ''1''" "word_ends rest" using parser_word_reads [OF w] by auto
    then show ?thesis using merge [OF _ assms(3), of r] u v f by simp
  next
    case False
    then obtain p where w: "parser_word (parser_space u) = (''/dev/null'', p, True, rest)"
      using assms(1) step by (auto split: prod.splits if_splits)
    obtain t where t: "parser_space u = t @ rest" "word_text t ''/dev/null''" "word_ends rest" using parser_word_reads [OF w] by auto
    obtain b where "u = b @ t @ rest" "blanks b" using space_blanks [of u] t(1) by auto
    then show ?thesis using null [OF assms(2) u(2) _ t(2,3) assms(3), of b r] u(1) by simp
  qed
qed

lemma inspect_reads:
  "inspect_loop ws r s \<Longrightarrow> \<exists>cs. reads ws r s cs \<and> list_all (\<lambda>(ws, r). inspectionProgram ws r) cs"
proof (induction ws r s rule: inspect_loop.induct)
  case (1 ws r s)
  obtain b where b: "s = b @ parser_space s" "blanks b" using space_blanks by blast
  have "\<exists>cs. reads ws r (parser_space s) cs \<and> list_all (\<lambda>(ws, r). inspectionProgram ws r) cs"
  proof (cases "parser_space s")
    case Nil
    then have "inspectionProgram ws r" using "1.prems" by (simp add: inspect_loop.simps [of ws r s])
    then show ?thesis using Nil finish [of ws r] by auto
  next
    case (Cons c t)
    note loop = "1.prems" [unfolded inspect_loop.simps [of ws r s] Cons list.case]
    consider (both) "c = CHR ''&'' \<or> c = CHR ''|''" "has_prefix (c # t) ''&&''" | (pipe) "c = CHR ''|''" "\<not> has_prefix (c # t) ''&&''"
      | (amp) "c = CHR ''&''" "\<not> has_prefix (c # t) ''&&''" | (redirect) "c = CHR ''>''" | (word) "\<not> (c = CHR ''&'' \<or> c = CHR ''|'')" "c \<noteq> CHR ''>''"
      by blast
    then show ?thesis
    proof cases
      case both
      have p: "inspectionProgram ws r" and l: "inspect_loop [] False (drop 1 t)" using loop both by (auto split: if_splits)
      obtain cs where "reads [] False (drop 1 t) cs" "list_all (\<lambda>(ws, r). inspectionProgram ws r) cs"
        using "1.IH"(1) [OF Cons both(1) _ both(2) l] p by blast
      moreover have "c # t = ''&&'' @ drop 1 t" using both(2) by (cases t) (auto simp: has_prefix_def)
      ultimately show ?thesis using p reads.both [of "drop 1 t" cs ws r] by (auto simp: Cons)
    next
      case pipe
      have p: "inspectionProgram ws r" and n: "\<not> has_prefix (c # t) ''||''" "\<not> has_prefix (c # t) ''|&''" and l: "inspect_loop [] False t"
        using loop pipe by (auto split: if_splits)
      obtain cs where "reads [] False t cs" "list_all (\<lambda>(ws, r). inspectionProgram ws r) cs"
        using "1.IH"(2) [OF Cons _ _ pipe(2) _ l] p n pipe(1) by blast
      moreover have "\<not> has_prefix t ''|''" "\<not> has_prefix t ''&''" using n pipe(1) by (auto simp: has_prefix_def)
      ultimately show ?thesis using p reads.pipe [of t cs ws r] pipe(1) by (auto simp: Cons)
    next
      case amp
      then show ?thesis using loop by (auto split: if_splits)
    next
      case redirect
      then obtain rest where rd: "parser_redirect [] (c # t) = Some rest" and l: "inspect_loop ws True rest"
        using loop by (auto split: option.splits)
      obtain cs where "reads ws True rest cs" "list_all (\<lambda>(ws, r). inspectionProgram ws r) cs"
        using "1.IH"(3) [OF Cons _ redirect rd l] redirect by auto
      then show ?thesis using redirect_reads [of "[]" t rest ws cs r] rd redirect by (auto simp: Cons)
    next
      case word
      obtain w p rest where pw: "parser_word (c # t) = (w, p, True, rest)"
        using loop word by (auto split: prod.splits if_splits)
      obtain x where x: "c # t = x @ rest" "word_text x w" "word_ends rest" "p \<longrightarrow> x = w" by (rule parser_word_reads [OF pw])
      show ?thesis
      proof (cases "p \<and> decimalWord w \<and> has_prefix rest ''>''")
        case True
        then obtain rest' where rd: "parser_redirect w rest = Some rest'" and l: "inspect_loop ws True rest'"
          using loop word pw by (auto split: option.splits)
        obtain cs where "reads ws True rest' cs" "list_all (\<lambda>(ws, r). inspectionProgram ws r) cs"
          using "1.IH"(4) [OF Cons word pw [symmetric] refl refl _ True rd l] by auto
        moreover obtain v where "rest = CHR ''>'' # v" using True by (auto simp: has_prefix_one)
        ultimately show ?thesis using redirect_reads [of w v rest' ws cs r] rd True x by (auto simp: Cons)
      next
        case False
        then have l: "inspect_loop (ws @ [w]) r rest" using loop word pw by auto
        obtain cs where "reads (ws @ [w]) r rest cs" "list_all (\<lambda>(ws, r). inspectionProgram ws r) cs"
          using "1.IH"(5) [OF Cons word pw [symmetric] refl refl _ False l] by auto
        then show ?thesis using reads.word [OF x(2,3)] x(1) by (auto simp: Cons)
      qed
    qed
  qed
  then show ?case using blank [OF b(2)] b(1) by metis
qed

section \<open>Property\<close>

definition inspection_programs :: "string list" where
  "inspection_programs =
     [''ls'', ''cat'', ''head'', ''tail'', ''wc'', ''pwd'', ''stat'', ''file'', ''echo'', ''printf'', ''grep'', ''egrep'', ''fgrep'',
      ''rg'', ''find'', ''git'']"

lemma program_listed: "inspectionProgram ws r \<Longrightarrow> ws \<noteq> [] \<and> hd ws \<in> set inspection_programs"
proof (rule ccontr)
  assume p: "inspectionProgram ws r" and n: "\<not> (ws \<noteq> [] \<and> hd ws \<in> set inspection_programs)"
  then show False
    by (cases ws) (simp_all add: inspectionProgram_def program_options_def inspection_programs_def)
qed

lemma reads_nonempty: "reads ws r s cs \<Longrightarrow> cs \<noteq> []"
  by (induction rule: reads.induct) auto

text \<open>
  C12: what runs without a prompt is understood to the last byte. An accepted command has no expansion, substitution
  or control character, and reads as a chain of commands joined by \<open>&&\<close> or \<open>|\<close>, redirected at most to the null
  device, each of them a listed program whose options and operands the checker accepts.
\<close>

theorem side_effect_free_is_understood:
  assumes "IsSideEffectFreeBashCommand command"
  shows "set command \<inter> set ([CHR 0x00, CHR 0x0D, CHR 0x0A] @ ''$`'') = {} \<and>
    (\<exists>cs. cs \<noteq> [] \<and> reads [] False command cs \<and>
       list_all (\<lambda>(ws, r). ws \<noteq> [] \<and> hd ws \<in> set inspection_programs \<and> inspectionProgram ws r) cs)"
proof -
  have c: "\<not> contains_byte command ([CHR 0x00, CHR 0x0D, CHR 0x0A] @ ''$`'')" and l: "inspect_loop [] False command"
    using assms by (auto simp: IsSideEffectFreeBashCommand_def split: if_splits)
  obtain cs where cs: "reads [] False command cs" "list_all (\<lambda>(ws, r). inspectionProgram ws r) cs" using inspect_reads [OF l] by blast
  have "list_all (\<lambda>(ws, r). ws \<noteq> [] \<and> hd ws \<in> set inspection_programs \<and> inspectionProgram ws r) cs"
    using cs(2) program_listed by (force simp: list_all_iff)
  moreover have "set command \<inter> set ([CHR 0x00, CHR 0x0D, CHR 0x0A] @ ''$`'') = {}"
    using c unfolding contains_byte_def list_ex_iff by blast
  ultimately show ?thesis using cs(1) reads_nonempty by blast
qed

theorem side_effect_free_is_understood_witness:
  "IsSideEffectFreeBashCommand ''cd_log=1'' = False \<and>
   (\<exists>cs. cs \<noteq> [] \<and> reads [] False ''git log -3 2>/dev/null | grep \"a b\"'' cs)"
proof -
  have "IsSideEffectFreeBashCommand ''git log -3 2>/dev/null | grep \"a b\"''" by code_simp
  from side_effect_free_is_understood [OF this] have "\<exists>cs. cs \<noteq> [] \<and> reads [] False ''git log -3 2>/dev/null | grep \"a b\"'' cs" by blast
  moreover have "\<not> IsSideEffectFreeBashCommand ''cd_log=1''" by code_simp
  ultimately show ?thesis by blast
qed

end
