(* ===== verification/PermRules.thy ===== *)
theory PermRules
  imports ToolRules BashInspect
begin

text \<open>
  What the permission manager decides on: levels, risks, requests and responses (\<open>internal/permission/permission.go\<close>),
  policies per tool (\<open>rules.go\<close>), the values a call's context carries (\<open>tool_identity.go\<close>, \<open>hook_decision.go\<close>,
  \<open>no_prompt.go\<close>, \<open>rule_context.go\<close>, \<open>bash_readonly.go\<close>) and the policy of one invocation. A context is a
  record with one field per key the package stores in a Go \<open>context.Context\<close>.

  The lemmas: an override never lifts a deny, for the tool's own name and for the name it is registered from
  (\<open>override_keeps_deny\<close>), and the names of MCP tools are those with a risk override (\<open>risk_table_inv\<close>).
\<close>

section \<open>Levels, risks and requests (\<open>permission.go\<close>)\<close>

type_synonym level = string

definition LevelAllow :: level where "LevelAllow = ''allow''"
definition LevelAsk :: level where "LevelAsk = ''ask''"
definition LevelDeny :: level where "LevelDeny = ''deny''"

lemma levels_distinct [simp]:
  "LevelAllow \<noteq> LevelAsk" "LevelAsk \<noteq> LevelAllow" "LevelAllow \<noteq> LevelDeny"
  "LevelDeny \<noteq> LevelAllow" "LevelAsk \<noteq> LevelDeny" "LevelDeny \<noteq> LevelAsk"
  by (simp_all add: LevelAllow_def LevelAsk_def LevelDeny_def)

text \<open>The integers of \<open>RiskLevel\<close> and \<open>Decision\<close>; other values are kept.\<close>

datatype risk = RiskLow | RiskMedium | RiskHigh | RiskOther int

definition risk_String :: "risk \<Rightarrow> string" where
  "risk_String r =
     (case r of RiskLow \<Rightarrow> ''low'' | RiskMedium \<Rightarrow> ''medium'' | RiskHigh \<Rightarrow> ''high'' | RiskOther _ \<Rightarrow> ''unknown'')"

datatype decision =
  DecisionPending | DecisionAllow | DecisionAllowSession | DecisionDeny | DecisionDenySession | DecisionOther int

record request =
  rq_ToolName :: string
  rq_Args :: args
  rq_RiskLevel :: risk
  rq_Reason :: string

record response =
  rs_Allowed :: bool
  rs_Decision :: decision
  rs_Reason :: string

definition respond :: "bool \<Rightarrow> decision \<Rightarrow> string \<Rightarrow> response" where
  "respond allowed d reason = \<lparr>rs_Allowed = allowed, rs_Decision = d, rs_Reason = reason\<rparr>"

lemma respond_simps [simp]:
  "rs_Allowed (respond a d r) = a" "rs_Decision (respond a d r) = d" "rs_Reason (respond a d r) = r"
  by (simp_all add: respond_def)

text \<open>The two tables kept by the registration of MCP tools.\<close>

record risk_table =
  rt_overrides :: "string \<rightharpoonup> risk"
  rt_mcp :: "string list"

definition SetToolRiskOverride :: "risk_table \<Rightarrow> string \<Rightarrow> risk \<Rightarrow> risk_table" where
  "SetToolRiskOverride t toolName r =
     (if toolName = [] then t
      else t\<lparr>rt_overrides := (rt_overrides t)(toolName \<mapsto> r), rt_mcp := List.insert toolName (rt_mcp t)\<rparr>)"

definition ClearToolRiskOverride :: "risk_table \<Rightarrow> string \<Rightarrow> risk_table" where
  "ClearToolRiskOverride t toolName =
     t\<lparr>rt_overrides := (rt_overrides t)(toolName := None), rt_mcp := removeAll toolName (rt_mcp t)\<rparr>"

definition low_risk_tools :: "string list" where
  "low_risk_tools =
     [''read'', ''glob'', ''grep'', ''tree'', ''diff'', ''env'', ''list_dir'', ''tool_search'', ''git_status'', ''git_log'',
      ''git_diff'', ''git_blame'', ''review_changes'', ''go_to_definition'', ''find_references'', ''lsp'', ''history_search'',
      ''skill'', ''web_search'', ''web_fetch'', ''todo'', ''update_scratchpad'', ''task_output'', ''task_stop'']"

definition GetToolRiskLevel :: "risk_table \<Rightarrow> string \<Rightarrow> risk" where
  "GetToolRiskLevel t toolName =
     (case rt_overrides t toolName of
        Some override \<Rightarrow> override
      | None \<Rightarrow>
          if List.member low_risk_tools toolName then RiskLow
          else if toolName = ''mcp_admin'' then RiskMedium
          else if List.member [''write'', ''edit'', ''git_add'', ''copy'', ''move'', ''mkdir'', ''task'', ''batch''] toolName then RiskMedium
          else if List.member [''bash'', ''delete'', ''git_commit'', ''ssh''] toolName then RiskHigh
          else RiskMedium)"

section \<open>Rules (\<open>rules.go\<close>)\<close>

record perm_rules =
  DefaultPolicy :: level
  ToolPolicies :: "string \<rightharpoonup> level"

definition default_allowed :: "string list" where
  "default_allowed =
     [''read'', ''glob'', ''grep'', ''tree'', ''diff'', ''env'', ''list_dir'', ''todo'', ''update_scratchpad'', ''git_status'', ''git_log'',
      ''git_diff'', ''git_blame'', ''review_changes'', ''go_to_definition'', ''find_references'', ''lsp'', ''history_search'',
      ''tool_search'', ''tools_list'', ''skill'', ''web_search'', ''web_fetch'', ''ask_user'', ''memory'', ''task_output'',
      ''task_stop'', ''kill_shell'', ''enter_plan_mode'', ''update_plan_progress'', ''get_plan_status'', ''exit_plan_mode'']"

definition default_asked :: "string list" where
  "default_asked =
     [''use_tool'', ''harness'', ''write'', ''edit'', ''git_add'', ''copy'', ''move'', ''mkdir'', ''bash'', ''delete'', ''git_commit'', ''ssh'']"

definition DefaultRules :: perm_rules where
  "DefaultRules =
     \<lparr>DefaultPolicy = LevelAsk,
      ToolPolicies = map_of (map (\<lambda>t. (t, LevelAllow)) default_allowed @ map (\<lambda>t. (t, LevelAsk)) default_asked)\<rparr>"

definition GetPolicy :: "perm_rules \<Rightarrow> string \<Rightarrow> level" where
  "GetPolicy r toolName = (case ToolPolicies r toolName of Some policy \<Rightarrow> policy | None \<Rightarrow> DefaultPolicy r)"

definition SetPolicy :: "perm_rules \<Rightarrow> string \<Rightarrow> level \<Rightarrow> perm_rules" where
  "SetPolicy r toolName l = r\<lparr>ToolPolicies := (ToolPolicies r)(toolName \<mapsto> l)\<rparr>"

definition parseLevel :: "string \<Rightarrow> level" where
  "parseLevel s = (if s = ''allow'' then LevelAllow else if s = ''deny'' then LevelDeny else LevelAsk)"

definition NewRulesFromConfig :: "string \<Rightarrow> (string \<times> string) list \<Rightarrow> perm_rules" where
  "NewRulesFromConfig defaultPolicy toolPolicies =
     \<lparr>DefaultPolicy = parseLevel defaultPolicy, ToolPolicies = (\<lambda>t. map_option parseLevel (map_of toolPolicies t))\<rparr>"

text \<open>\<open>for tool, level := range overrides\<close>: a tool that is denied keeps its policy.\<close>

definition apply_override :: "string \<times> level \<Rightarrow> perm_rules \<Rightarrow> perm_rules" where
  "apply_override o1 r = (if GetPolicy r (fst o1) = LevelDeny then r else SetPolicy r (fst o1) (snd o1))"

definition apply_overrides :: "(string \<times> level) list \<Rightarrow> perm_rules \<Rightarrow> perm_rules" where
  "apply_overrides os r = fold apply_override os r"

section \<open>The context of a call\<close>

record ctx =
  cx_workDir :: string
  cx_identity :: "(string \<times> string) option"
  cx_hook :: "(string \<times> string \<times> string) option"
  cx_noPrompt :: bool
  cx_preflight :: "bool option"
  cx_wrapper :: "string option"

definition background :: ctx where
  "background = \<lparr>cx_workDir = [], cx_identity = None, cx_hook = None, cx_noPrompt = False, cx_preflight = None, cx_wrapper = None\<rparr>"

definition canonicalInvocationTool :: "ctx \<Rightarrow> string \<Rightarrow> string" where
  "canonicalInvocationTool c runtime =
     (case cx_identity c of
        Some (r, canonical) \<Rightarrow> if r = runtime \<and> canonical \<noteq> [] then canonical else runtime
      | None \<Rightarrow> runtime)"

definition invocationCacheTool :: "ctx \<Rightarrow> string \<Rightarrow> string" where
  "invocationCacheTool c runtime =
     (let canonical = canonicalInvocationTool c runtime
      in if canonical \<noteq> runtime then runtime @ [CHR 0x00] @ canonical else runtime)"

definition invocationToolPolicy :: "ctx \<Rightarrow> perm_rules \<Rightarrow> string \<Rightarrow> level" where
  "invocationToolPolicy c r runtime =
     (let original = ToolPolicies r runtime; source = ToolPolicies r (canonicalInvocationTool c runtime)
      in if original = Some LevelDeny \<or> source = Some LevelDeny then LevelDeny
         else case original of
                Some p \<Rightarrow> p
              | None \<Rightarrow> (case source of Some p \<Rightarrow> p | None \<Rightarrow> DefaultPolicy r))"

definition TemporaryToolRulesDenyWithIdentity :: "rule_env \<Rightarrow> ctx \<Rightarrow> string list \<Rightarrow> string \<Rightarrow> args \<Rightarrow> string \<Rightarrow> bool" where
  "TemporaryToolRulesDenyWithIdentity env c denies runtime args workDir \<longleftrightarrow>
     TemporaryToolRulesDeny env denies runtime args workDir \<or>
     TemporaryToolRulesDeny env denies (canonicalInvocationTool c runtime) args workDir"

definition invocationToolAllowed :: "rule_env \<Rightarrow> ctx \<Rightarrow> string list \<Rightarrow> string \<Rightarrow> args \<Rightarrow> string \<Rightarrow> bool" where
  "invocationToolAllowed env c allows runtime args workDir \<longleftrightarrow>
     temporaryToolGrantMatchesAny env allows runtime args workDir \<or>
     temporaryToolGrantMatchesAny env allows (canonicalInvocationTool c runtime) args workDir"

definition ClassifyBashArgs :: "args \<Rightarrow> bash_danger \<times> string" where
  "ClassifyBashArgs args = ClassifyBashCommand (arg_text args ''command'')"

definition isElevatedBash :: "string \<Rightarrow> args \<Rightarrow> bool" where
  "isElevatedBash toolName args \<longleftrightarrow> toolName = ''bash'' \<and> fst (ClassifyBashArgs args) = BashDangerElevated"

definition isReadOnlyBashInvocation :: "ctx \<Rightarrow> args \<Rightarrow> bool" where
  "isReadOnlyBashInvocation c args \<longleftrightarrow>
     (let command = arg_text args ''command''
      in cx_wrapper c = Some command \<or> IsSideEffectFreeBashCommand command)"

definition ContextWithReadOnlyBashWrapper :: "ctx \<Rightarrow> string \<Rightarrow> string \<Rightarrow> ctx" where
  "ContextWithReadOnlyBashWrapper c wrapped inner =
     (if \<not> IsSideEffectFreeBashCommand inner then c else c\<lparr>cx_wrapper := Some wrapped\<rparr>)"

definition ContextWithoutPermissionPrompt :: "ctx \<Rightarrow> ctx" where
  "ContextWithoutPermissionPrompt c = c\<lparr>cx_noPrompt := True\<rparr>"

definition ContextWithToolIdentity :: "ctx \<Rightarrow> string \<Rightarrow> string \<Rightarrow> ctx" where
  "ContextWithToolIdentity c runtime canonical = c\<lparr>cx_identity := Some (runtime, canonical)\<rparr>"

text \<open>\<open>cwd\<close> is what \<open>filepath.Abs\<close> joins a relative directory to; \<open>None\<close> when the process has none.\<close>

definition ContextWithWorkDir :: "string option \<Rightarrow> ctx \<Rightarrow> string \<Rightarrow> ctx" where
  "ContextWithWorkDir cwd c workDir =
     (let w = trim_space workDir
      in if w = [] then c
         else if path_IsAbs w then c\<lparr>cx_workDir := path_Clean (path_Clean w)\<rparr>
         else case cwd of
                Some d \<Rightarrow> c\<lparr>cx_workDir := path_Clean (path_Join d w)\<rparr>
              | None \<Rightarrow> c\<lparr>cx_workDir := w\<rparr>)"

definition ParseRiskLevel :: "(string \<Rightarrow> string) \<Rightarrow> string \<Rightarrow> risk" where
  "ParseRiskLevel lower s =
     (let t = lower (trim_space s) in if t = ''low'' then RiskLow else if t = ''high'' then RiskHigh else RiskMedium)"

section \<open>The reason shown to the user\<close>

definition warning_sign :: string where
  "warning_sign = [CHR 0xE2, CHR 0x9A, CHR 0xA0]"

text \<open>\<open>if runes := []rune(cmd); len(runes) > 150\<close>.\<close>

definition display_command :: "string \<Rightarrow> string" where
  "display_command cmd =
     (let runes = to_runes cmd in if 150 < length runes then of_runes (take 147 runes) @ ''...'' else cmd)"

definition buildMCPAdminReason :: "(string \<Rightarrow> string) \<Rightarrow> args \<Rightarrow> string" where
  "buildMCPAdminReason quote args =
     (let action = (case arg_string args ''action'' of Some a \<Rightarrow> if a \<noteq> [] then a else ''list'' | None \<Rightarrow> ''list'');
          server = arg_text args ''server''; transport = arg_text args ''transport''
      in if action = ''add'' then
           if transport = ''stdio''
           then ''Add MCP server '' @ quote server @ '' '' @ em_dash @ '' spawns local subprocess: '' @ arg_text args ''command''
           else if transport = ''http''
           then ''Add MCP server '' @ quote server @ '' '' @ em_dash @ '' connects to: '' @ arg_text args ''url''
           else ''Add MCP server '' @ quote server
         else if action = ''remove'' then ''Remove MCP server '' @ quote server
         else ''MCP admin: '' @ action)"

definition reason_with :: "string \<Rightarrow> string \<Rightarrow> string option \<Rightarrow> string" where
  "reason_with with_value without v = (case v of Some x \<Rightarrow> with_value @ x | None \<Rightarrow> without)"

definition buildReason :: "(string \<Rightarrow> string) \<Rightarrow> string \<Rightarrow> args \<Rightarrow> string" where
  "buildReason quote toolName args =
     (if toolName = ''write'' then reason_with ''Write to file: '' ''Write to file'' (arg_string args ''file_path'')
      else if toolName = ''edit'' then reason_with ''Edit file: '' ''Edit file'' (arg_string args ''file_path'')
      else if toolName = ''bash'' then
        (case arg_string args ''command'' of
           Some cmd \<Rightarrow>
             (case ClassifyBashCommand cmd of (danger, reason) \<Rightarrow>
                if danger = BashDangerElevated
                then warning_sign @ '' '' @ reason @ [CHR 0x0A] @ ''Execute command: '' @ display_command cmd
                else ''Execute command: '' @ display_command cmd)
         | None \<Rightarrow> ''Execute shell command'')
      else if toolName = ''read'' then reason_with ''Read file: '' ''Read file'' (arg_string args ''file_path'')
      else if toolName = ''glob'' then reason_with ''Search files matching: '' ''Search files'' (arg_string args ''pattern'')
      else if toolName = ''grep'' then reason_with ''Search content: '' ''Search file contents'' (arg_string args ''pattern'')
      else if toolName = ''mcp_admin'' then buildMCPAdminReason quote args
      else ''Execute tool: '' @ toolName)"

definition NewRequest :: "rule_env \<Rightarrow> risk_table \<Rightarrow> string \<Rightarrow> args \<Rightarrow> request" where
  "NewRequest env t toolName args =
     \<lparr>rq_ToolName = toolName, rq_Args = args, rq_RiskLevel = GetToolRiskLevel t toolName,
      rq_Reason = buildReason (re_Quote env) toolName args\<rparr>"

section \<open>The advisory classifier of read-only commands (\<open>bash_readonly.go\<close>)\<close>

definition readOnlyBashPrograms :: "string list" where
  "readOnlyBashPrograms =
     [''ls'', ''cat'', ''head'', ''tail'', ''wc'', ''grep'', ''rg'', ''ag'', ''find'', ''fd'', ''echo'', ''printf'', ''pwd'', ''which'',
      ''whoami'', ''stat'', ''du'', ''df'', ''ps'', ''date'', ''uname'', ''file'', ''diff'', ''cmp'', ''sort'', ''uniq'', ''cut'', ''tr'',
      ''true'', ''test'', ''['', ''cd'']"

definition readOnlyGitSubcommands :: "string list" where
  "readOnlyGitSubcommands =
     [''status'', ''diff'', ''log'', ''show'', ''blame'', ''ls-files'', ''rev-parse'', ''describe'', ''grep'', ''shortlog'']"

definition mutatingProgramFlags :: "string \<Rightarrow> string list" where
  "mutatingProgramFlags program =
     (if program = ''find'' then [''-delete'', ''-exec'', ''-execdir'', ''-ok'', ''-okdir'', ''-fprint'', ''-fprintf'', ''-fls'']
      else if program = ''fd'' then [''-x'', ''-X'', ''--exec'', ''--exec-batch'']
      else if program = ''sort'' then [''-o'', ''--output'']
      else if program = ''rg'' then [''--pre'', ''--hostname-bin'']
      else [])"

definition flag_name :: "string \<Rightarrow> string" where
  "flag_name arg = (case index_of arg ''='' of Some n \<Rightarrow> if 0 < n then take n arg else arg | None \<Rightarrow> arg)"

definition hasMutatingProgramFlag :: "string \<Rightarrow> string list \<Rightarrow> bool" where
  "hasMutatingProgramFlag program args = list_ex (\<lambda>arg. List.member (mutatingProgramFlags program) (flag_name arg)) args"

fun git_read_only :: "string list \<Rightarrow> bool" where
  "git_read_only [] = False"
| "git_read_only (a # rest) =
     (if a = ''-c'' \<or> a = ''-C'' then (case rest of [] \<Rightarrow> False | _ # rest' \<Rightarrow> git_read_only rest')
      else if has_prefix a ''-'' then git_read_only rest
      else List.member readOnlyGitSubcommands a)"

definition isReadOnlyBashProgram :: "string list \<Rightarrow> bool" where
  "isReadOnlyBashProgram fs =
     (case fs of
        [] \<Rightarrow> False
      | f # args \<Rightarrow>
          let program = path_Base f
          in if hasMutatingProgramFlag program args then False
             else if List.member readOnlyBashPrograms program then True
             else if program = ''git'' then git_read_only args
             else if program = ''gofmt'' then \<not> List.member args ''-w''
             else if program = ''go'' then
               (case args of
                  [] \<Rightarrow> False
                | sub # rest \<Rightarrow>
                    if List.member [''version'', ''list'', ''vet'', ''build'', ''test''] sub then True
                    else if sub = ''env'' then \<not> list_ex (\<lambda>x. has_prefix x ''-'') rest else False)
             else False)"

definition IsReadOnlyBashCommand :: "string \<Rightarrow> bool" where
  "IsReadOnlyBashCommand command0 =
     (let command1 = trim_space command0
      in if command1 = [] then False
         else let command = drop_redirects command1
              in if contains command ''>'' \<or> contains command ''$('' \<or> contains command [CHR 0x60] then False
                 else list_all (\<lambda>segment. BashRules.fields segment \<noteq> [] \<and> isReadOnlyBashProgram (BashRules.fields segment)) (splitBashSegments command))"

definition IsReadOnlyBashArgs :: "args \<Rightarrow> bool" where
  "IsReadOnlyBashArgs args = IsReadOnlyBashCommand (arg_text args ''command'')"

section \<open>Lemmas\<close>

definition risk_table_inv :: "risk_table \<Rightarrow> bool" where
  "risk_table_inv t \<longleftrightarrow> set (rt_mcp t) = dom (rt_overrides t) \<and> [] \<notin> set (rt_mcp t)"

lemma risk_table_inv_empty: "risk_table_inv \<lparr>rt_overrides = Map.empty, rt_mcp = []\<rparr>"
  by (simp add: risk_table_inv_def)

lemma risk_table_inv_Set: "risk_table_inv t \<Longrightarrow> risk_table_inv (SetToolRiskOverride t n r)"
  by (auto simp: risk_table_inv_def SetToolRiskOverride_def)

lemma risk_table_inv_Clear: "risk_table_inv t \<Longrightarrow> risk_table_inv (ClearToolRiskOverride t n)"
  by (auto simp: risk_table_inv_def ClearToolRiskOverride_def dom_def)

lemma apply_override_default [simp]: "DefaultPolicy (apply_override o1 r) = DefaultPolicy r"
  by (simp add: apply_override_def SetPolicy_def)

lemma apply_overrides_default [simp]: "DefaultPolicy (apply_overrides os r) = DefaultPolicy r"
  by (induction os arbitrary: r) (simp_all add: apply_overrides_def)

text \<open>A policy of deny is untouched, and an override adds entries only for its own tools.\<close>

lemma apply_override_deny: "ToolPolicies r t = Some LevelDeny \<Longrightarrow> ToolPolicies (apply_override o1 r) t = Some LevelDeny"
  by (auto simp: apply_override_def SetPolicy_def GetPolicy_def)

lemma apply_override_GetPolicy_deny: "GetPolicy r t = LevelDeny \<Longrightarrow> ToolPolicies (apply_override o1 r) t = ToolPolicies r t"
  by (auto simp: apply_override_def SetPolicy_def)

lemma invocation_deny_cases:
  "invocationToolPolicy c r t = LevelDeny \<longleftrightarrow>
     ToolPolicies r t = Some LevelDeny \<or> ToolPolicies r (canonicalInvocationTool c t) = Some LevelDeny \<or>
     ToolPolicies r t = None \<and> ToolPolicies r (canonicalInvocationTool c t) = None \<and> DefaultPolicy r = LevelDeny"
  by (auto simp: invocationToolPolicy_def Let_def split: option.splits)

lemma override_keeps_deny_step:
  "invocationToolPolicy c r t = LevelDeny \<Longrightarrow> invocationToolPolicy c (apply_override o1 r) t = LevelDeny"
  unfolding invocation_deny_cases
  by (auto simp: apply_override_deny apply_override_GetPolicy_deny GetPolicy_def)

lemma override_keeps_deny:
  "invocationToolPolicy c r t = LevelDeny \<Longrightarrow> invocationToolPolicy c (apply_overrides os r) t = LevelDeny"
  by (induction os arbitrary: r) (simp_all add: apply_overrides_def override_keeps_deny_step)

end
