(* ===== verification/PermManager.thy ===== *)
theory PermManager
  imports PermRules LRUCache "HOL-Library.Word"
begin

text \<open>
  The permission manager, \<open>internal/permission/manager.go\<close>, with \<open>hook_decision.go\<close>, \<open>preflight.go\<close> and the
  check under the rules of a skill (\<open>tool_grants.go\<close>).

  Managers and session caches live in a store, since a scoped manager points at its parent and, on the path of
  skill grants, shares its parent's cache; a manager is an address and so is a cache. An unused address is at
  or above \<open>ps_next\<close>. The prompt handler may change the store in any way: while the user is being asked every other
  part of the program runs. Apart from the prompt a call is one step. A session cache is the cache of
  \<open>internal/cache/lru.go\<close>; revisions are 64-bit words; the readings of the clock a call makes are the record \<open>readings\<close>.
  JSON encoding, Go-syntax formatting and the hash are arguments (\<open>perm_env\<close>), as is the table of MCP risks.
\<close>

section \<open>State\<close>

record cached_decision =
  cd_Decision :: decision
  cd_Revision :: "64 word"

record perm_manager =
  pm_rules :: perm_rules
  pm_enabled :: bool
  pm_dontAsk :: bool
  pm_revision :: "64 word"
  pm_parent :: "nat option"
  pm_overrides :: "(string \<times> level) list"
  pm_parentRevision :: "64 word"
  pm_runAllows :: "string list"
  pm_runDenies :: "string list"
  pm_sessionCache :: nat
  pm_promptHandler :: "nat option"

type_synonym session_cache = "(string, cached_decision) lru"

record perm_store =
  ps_managers :: "nat \<Rightarrow> perm_manager"
  ps_caches :: "nat \<Rightarrow> session_cache"
  ps_next :: nat

record readings =
  rd_new :: time
  rd_parent :: time
  rd_session :: time
  rd_set :: time
  rd_cleanup :: time

record perm_env =
  pe_rules :: rule_env
  pe_risk :: risk_table
  pe_Marshal :: "args \<Rightarrow> string option"
  pe_MarshalStrings :: "string list \<Rightarrow> string"
  pe_GoSyntax :: "args \<Rightarrow> string"
  pe_Hash8 :: "string \<Rightarrow> string"
  pe_prompt :: "nat \<Rightarrow> ctx \<Rightarrow> request \<Rightarrow> perm_store \<Rightarrow> perm_store \<times> (string + decision)"

text \<open>The names of MCP tools the rules see are those of the risk table.\<close>

definition renv :: "perm_env \<Rightarrow> rule_env" where
  "renv e = (pe_rules e)\<lparr>re_mcp := rt_mcp (pe_risk e)\<rparr>"

type_synonym check_result = "perm_store \<times> response \<times> string option"

definition put_manager :: "nat \<Rightarrow> perm_manager \<Rightarrow> perm_store \<Rightarrow> perm_store" where
  "put_manager i m s = s\<lparr>ps_managers := (ps_managers s)(i := m)\<rparr>"

definition put_cache :: "nat \<Rightarrow> session_cache \<Rightarrow> perm_store \<Rightarrow> perm_store" where
  "put_cache a c s = s\<lparr>ps_caches := (ps_caches s)(a := c)\<rparr>"

text \<open>The session cache of a manager: read with the recency it updates, written, and cleared.\<close>

definition session_Get :: "nat \<Rightarrow> string \<Rightarrow> time \<Rightarrow> perm_store \<Rightarrow> perm_store \<times> cached_decision option" where
  "session_Get i key now s =
     (let a = pm_sessionCache (ps_managers s i); (c, v) = lru_Get (ps_caches s a) key now
      in (put_cache a c s, v))"

definition session_Set :: "nat \<Rightarrow> string \<Rightarrow> cached_decision \<Rightarrow> readings \<Rightarrow> perm_store \<Rightarrow> perm_store" where
  "session_Set i key v rd s =
     (let a = pm_sessionCache (ps_managers s i)
      in put_cache a (lru_Set (ps_caches s a) key v (rd_set rd) (rd_cleanup rd)) s)"

definition session_Clear :: "nat \<Rightarrow> perm_store \<Rightarrow> perm_store" where
  "session_Clear i s =
     (let a = pm_sessionCache (ps_managers s i) in put_cache a (lru_Clear (ps_caches s a)) s)"

section \<open>Construction\<close>

definition perm_NewManager :: "perm_rules option \<Rightarrow> bool \<Rightarrow> time \<Rightarrow> perm_store \<Rightarrow> perm_store \<times> nat" where
  "perm_NewManager rules enabled now s =
     (let i = ps_next s
      in (s\<lparr>ps_managers := (ps_managers s)(i :=
              \<lparr>pm_rules = (case rules of None \<Rightarrow> DefaultRules | Some r \<Rightarrow> r), pm_enabled = enabled, pm_dontAsk = False,
               pm_revision = 1, pm_parent = None, pm_overrides = [], pm_parentRevision = 0, pm_runAllows = [],
               pm_runDenies = [], pm_sessionCache = i, pm_promptHandler = None\<rparr>),
            ps_caches := (ps_caches s)(i := NewLRUCache 1000 (24 * (60 * minute)) now),
            ps_next := Suc i\<rparr>, i))"

definition SetPromptHandler :: "nat \<Rightarrow> nat option \<Rightarrow> perm_store \<Rightarrow> perm_store" where
  "SetPromptHandler i h s = put_manager i ((ps_managers s i)\<lparr>pm_promptHandler := h\<rparr>) s"

definition WithPolicyOverrides :: "nat \<Rightarrow> (string \<times> level) list \<Rightarrow> time \<Rightarrow> perm_store \<Rightarrow> perm_store \<times> nat" where
  "WithPolicyOverrides i overrides now s =
     (let m = ps_managers s i;
          (s1, j) = perm_NewManager (Some (apply_overrides overrides (pm_rules m))) (pm_enabled m) now s
      in (put_manager j ((ps_managers s1 j)\<lparr>pm_parent := Some i, pm_overrides := overrides,
            pm_parentRevision := pm_revision m, pm_runAllows := pm_runAllows m, pm_runDenies := pm_runDenies m,
            pm_dontAsk := pm_dontAsk m, pm_promptHandler := pm_promptHandler m\<rparr>) s1, j))"

definition adoptSessionAuthorityFrom :: "nat \<Rightarrow> nat \<Rightarrow> perm_store \<Rightarrow> perm_store" where
  "adoptSessionAuthorityFrom j i s =
     put_manager j ((ps_managers s j)\<lparr>pm_sessionCache := pm_sessionCache (ps_managers s i),
                                      pm_revision := pm_revision (ps_managers s i)\<rparr>) s"

section \<open>Keys of session decisions\<close>

definition cacheKeyWithWorkDir :: "perm_env \<Rightarrow> string \<Rightarrow> args \<Rightarrow> string \<Rightarrow> string" where
  "cacheKeyWithWorkDir e toolName args workDir =
     (let cacheTool = (case index_of toolName [CHR 0x00] of Some n \<Rightarrow> drop (n + 1) toolName | None \<Rightarrow> toolName);
          paths = sensitiveReadPaths (renv e) cacheTool args workDir
      in if paths \<noteq> [] then toolName @ '':credential:'' @ pe_MarshalStrings e paths
         else case (if toolName = ''write'' \<or> toolName = ''edit'' then arg_string args ''file_path'' else None) of
                Some path \<Rightarrow>
                  toolName @ '':'' @
                  path_Clean (if \<not> path_IsAbs path \<and> workDir \<noteq> [] then path_Join workDir path else path)
              | None \<Rightarrow>
                  if args \<noteq> [] then
                    toolName @ '':'' @
                    pe_Hash8 e (case pe_Marshal e args of Some payload \<Rightarrow> payload | None \<Rightarrow> pe_GoSyntax e args)
                  else toolName)"

definition cacheKey :: "perm_env \<Rightarrow> string \<Rightarrow> args \<Rightarrow> string" where
  "cacheKey e toolName args = cacheKeyWithWorkDir e toolName args []"

definition ContextWithHookDecision :: "perm_env \<Rightarrow> ctx \<Rightarrow> string \<Rightarrow> args \<Rightarrow> string \<Rightarrow> ctx" where
  "ContextWithHookDecision e c tool args d =
     (case pe_Marshal e args of None \<Rightarrow> c | Some input \<Rightarrow> c\<lparr>cx_hook := Some (tool, input, d)\<rparr>)"

definition hookDecisionFor :: "perm_env \<Rightarrow> ctx \<Rightarrow> string \<Rightarrow> args \<Rightarrow> string" where
  "hookDecisionFor e c tool args =
     (case cx_hook c of
        None \<Rightarrow> []
      | Some (t, input, d) \<Rightarrow>
          if t \<noteq> tool then []
          else if pe_Marshal e args \<noteq> Some input then [] else d)"

section \<open>The check\<close>

definition scope_changed :: "perm_manager \<Rightarrow> perm_manager \<Rightarrow> bool" where
  "scope_changed m p \<longleftrightarrow>
     pm_parentRevision m \<noteq> pm_revision p \<or> pm_enabled m \<noteq> pm_enabled p \<or> pm_dontAsk m \<noteq> pm_dontAsk p"

definition refreshed :: "perm_manager \<Rightarrow> perm_manager \<Rightarrow> perm_manager" where
  "refreshed m p =
     (if scope_changed m p
      then m\<lparr>pm_rules := apply_overrides (pm_overrides m) (pm_rules p), pm_enabled := pm_enabled p, pm_dontAsk := pm_dontAsk p,
             pm_runAllows := pm_runAllows p, pm_runDenies := pm_runDenies p, pm_parentRevision := pm_revision p,
             pm_revision := pm_revision m + 1, pm_promptHandler := pm_promptHandler p\<rparr>
      else m\<lparr>pm_promptHandler := pm_promptHandler p\<rparr>)"

definition refreshFromParent ::
    "perm_env \<Rightarrow> readings \<Rightarrow> ctx \<Rightarrow> nat \<Rightarrow> string \<Rightarrow> args \<Rightarrow> string \<Rightarrow> perm_store \<Rightarrow> perm_store \<times> response option" where
  "refreshFromParent e rd c i toolName args workDir s =
     (let m = ps_managers s i
      in case pm_parent m of
           None \<Rightarrow> (s, None)
         | Some q \<Rightarrow>
             let p = ps_managers s q;
                 s1 = put_manager i (refreshed m p) s;
                 s2 = (if scope_changed m p then session_Clear i s1 else s1)
             in if \<not> pm_enabled p then (s2, None)
                else if invocationToolPolicy c (pm_rules p) toolName = LevelDeny
                then (s2, Some (respond False DecisionDeny ''Tool is not permitted by parent configuration''))
                else let key = cacheKeyWithWorkDir e (invocationCacheTool c toolName) args workDir;
                         (s3, cached) = session_Get q key (rd_parent rd) s2
                     in (s3, case cached of
                               Some d \<Rightarrow>
                                 if cd_Revision d = pm_revision p \<and> cd_Decision d = DecisionDenySession
                                 then Some (respond False DecisionDenySession ''Denied for parent session'') else None
                             | None \<Rightarrow> None))"

definition rememberKeyIfCurrent :: "nat \<Rightarrow> string \<Rightarrow> decision \<Rightarrow> 64 word \<Rightarrow> readings \<Rightarrow> perm_store \<Rightarrow> perm_store \<times> bool" where
  "rememberKeyIfCurrent i key d revision rd s =
     (if pm_revision (ps_managers s i) \<noteq> revision then (s, False)
      else (session_Set i key \<lparr>cd_Decision = d, cd_Revision = revision\<rparr> rd s, True))"

definition changed_error :: "string \<Rightarrow> string \<Rightarrow> string \<Rightarrow> string" where
  "changed_error what toolName when =
     ''permission policy '' @ what @ '' for '' @ toolName @ '' was '' @ when @ ''; retry the operation under the current policy''"

definition refuse_with :: "perm_store \<Rightarrow> string \<Rightarrow> check_result" where
  "refuse_with s err = (s, respond False DecisionDeny err, Some err)"

definition no_handler_error :: "string \<Rightarrow> string" where
  "no_handler_error toolName =
     ''permission required for '' @ toolName @
     '', but no interactive approval handler is available; configure an explicit allow rule or disable permissions for intentional unattended execution''"

text \<open>What \<open>askUser\<close> does with the answer, after the revision has been compared.\<close>

definition commit_answer ::
    "perm_env \<Rightarrow> readings \<Rightarrow> ctx \<Rightarrow> nat \<Rightarrow> string \<Rightarrow> args \<Rightarrow> string \<Rightarrow> 64 word \<Rightarrow> decision \<Rightarrow> perm_store \<Rightarrow> check_result" where
  "commit_answer e rd c i toolName args workDir revision d s =
     (let key = cacheKeyWithWorkDir e (invocationCacheTool c toolName) args workDir
      in case d of
           DecisionAllow \<Rightarrow> (s, respond True d [], None)
         | DecisionAllowSession \<Rightarrow>
             (case rememberKeyIfCurrent i key d revision rd s of (s', ok) \<Rightarrow>
                if \<not> ok then refuse_with s' (changed_error ''or session authority changed while approval'' toolName ''being committed'')
                else (s', respond True d [], None))
         | DecisionDeny \<Rightarrow> (s, respond False d ''Denied by user'', None)
         | DecisionDenySession \<Rightarrow>
             (case rememberKeyIfCurrent i key d revision rd s of (s', ok) \<Rightarrow>
                if \<not> ok then refuse_with s' (changed_error ''or session authority changed while denial'' toolName ''being committed'')
                else (s', respond False d ''Denied for session'', None))
         | _ \<Rightarrow> (s, respond False DecisionDeny ''Unknown decision'', None))"

definition askUser ::
    "perm_env \<Rightarrow> readings \<Rightarrow> ctx \<Rightarrow> nat \<Rightarrow> string \<Rightarrow> args \<Rightarrow> string \<Rightarrow> 64 word \<Rightarrow> perm_store \<Rightarrow> check_result" where
  "askUser e rd c i toolName args workDir revision s =
     (case cx_preflight c of
        Some canPrompt \<Rightarrow> (s, respond canPrompt DecisionPending ''Tool requires approval'', None)
      | None \<Rightarrow>
          let hint = sensitiveReadHint (sensitiveReadPaths (renv e) (canonicalInvocationTool c toolName) args workDir) workDir
          in case pm_promptHandler (ps_managers s i) of
               None \<Rightarrow> refuse_with s (if hint \<noteq> [] then hint else no_handler_error toolName)
             | Some h \<Rightarrow>
                 let req = NewRequest (renv e) (pe_risk e) toolName args;
                     req' = (if hint \<noteq> [] then req\<lparr>rq_Reason := hint\<rparr> else req)
                 in case pe_prompt e h c req' s of
                      (s', Inl err) \<Rightarrow> refuse_with s' (if hint \<noteq> [] then hint else err)
                    | (s', Inr d) \<Rightarrow>
                        if pm_revision (ps_managers s' i) \<noteq> revision
                        then refuse_with s' (changed_error ''changed while approval'' toolName ''pending'')
                        else commit_answer e rd c i toolName args workDir revision d s')"

text \<open>A reusable decision counts only at the revision it was made under, and an approval not against a hook's \<open>ask\<close>.\<close>

definition session_verdict :: "cached_decision option \<Rightarrow> 64 word \<Rightarrow> bool \<Rightarrow> response option" where
  "session_verdict cached revision forceAsk =
     (case cached of
        Some d \<Rightarrow>
          if cd_Revision d = revision then
            (case cd_Decision d of
               DecisionAllowSession \<Rightarrow> if \<not> forceAsk then Some (respond True (cd_Decision d) []) else None
             | DecisionDenySession \<Rightarrow> Some (respond False (cd_Decision d) ''Denied for session'')
             | _ \<Rightarrow> None)
          else None
      | None \<Rightarrow> None)"

text \<open>The check once the session cache has given no verdict.\<close>

definition check_uncached ::
    "perm_env \<Rightarrow> readings \<Rightarrow> ctx \<Rightarrow> nat \<Rightarrow> string \<Rightarrow> args \<Rightarrow> string \<Rightarrow> perm_manager \<Rightarrow>
     level \<Rightarrow> string list \<Rightarrow> bool \<Rightarrow> bool \<Rightarrow> bool \<Rightarrow> perm_store \<Rightarrow> check_result" where
  "check_uncached e rd c i toolName args workDir m policy sensitivePaths runAllowed forceAsk elevated s =
     (if runAllowed \<and> \<not> forceAsk \<and> \<not> elevated then (s, respond True DecisionAllow [], None)
      else if cx_noPrompt c
      then (s, respond False DecisionDeny
              ''Tool requires approval; permission prompts are disabled for skill context rendering'', None)
      else if pm_dontAsk m then
        if sensitivePaths \<noteq> [] then (s, respond False DecisionDeny (sensitiveReadHint sensitivePaths workDir), None)
        else if \<not> forceAsk \<and> toolName = ''bash'' \<and> \<not> elevated \<and> isReadOnlyBashInvocation c args
        then (s, respond True DecisionAllow [], None)
        else (s, respond False DecisionDeny ''Tool requires approval and was auto-denied by dontAsk mode'', None)
      else if forceAsk \<or> sensitivePaths \<noteq> [] then askUser e rd c i toolName args workDir (pm_revision m) s
      else if policy = LevelAllow then
        if elevated then askUser e rd c i toolName args workDir (pm_revision m) s
        else (s, respond True DecisionAllow [], None)
      else askUser e rd c i toolName args workDir (pm_revision m) s)"

definition check_current ::
    "perm_env \<Rightarrow> readings \<Rightarrow> ctx \<Rightarrow> nat \<Rightarrow> string \<Rightarrow> args \<Rightarrow> string \<Rightarrow> perm_store \<Rightarrow> check_result" where
  "check_current e rd c i toolName args workDir s =
     (let m = ps_managers s i; canonical = canonicalInvocationTool c toolName
      in if TemporaryToolRulesDenyWithIdentity (renv e) c (pm_runDenies m) toolName args workDir
         then (s, respond False DecisionDeny ''Tool is denied by a run-scoped CLI rule'', None)
         else
           let sensitivePaths = sensitiveReadPaths (renv e) canonical args workDir
           in if \<not> pm_enabled m \<and> sensitivePaths = [] then (s, respond True DecisionAllow [], None)
           else
             let policy = (if \<not> pm_enabled m then LevelAllow else invocationToolPolicy c (pm_rules m) toolName)
             in if policy = LevelDeny then (s, respond False DecisionDeny ''Tool is not permitted by configuration'', None)
             else
               let runAllowed = (if sensitivePaths \<noteq> []
                                 then sensitiveReadRunAllowed (renv e) (pm_runAllows m) canonical sensitivePaths workDir
                                 else invocationToolAllowed (renv e) c (pm_runAllows m) toolName args workDir);
                   forceAsk = (hookDecisionFor e c toolName args = ''ask'');
                   elevated = isElevatedBash toolName args
               in if policy = LevelAllow \<and> \<not> forceAsk \<and> \<not> elevated \<and> sensitivePaths = []
                  then (s, respond True DecisionAllow [], None)
               else
                 let key = cacheKeyWithWorkDir e (invocationCacheTool c toolName) args workDir
                 in case session_Get i key (rd_session rd) s of (s1, cached) \<Rightarrow>
                      (case session_verdict cached (pm_revision m) forceAsk of
                         Some r \<Rightarrow> (s1, r, None)
                       | None \<Rightarrow> check_uncached e rd c i toolName args workDir m policy sensitivePaths runAllowed forceAsk elevated s1))"

definition perm_Check :: "perm_env \<Rightarrow> readings \<Rightarrow> ctx \<Rightarrow> nat \<Rightarrow> string \<Rightarrow> args \<Rightarrow> perm_store \<Rightarrow> check_result" where
  "perm_Check e rd c i toolName args s =
     (let workDir = cx_workDir c
      in case refreshFromParent e rd c i toolName args workDir s of
           (s1, Some denied) \<Rightarrow> (s1, denied, None)
         | (s1, None) \<Rightarrow> check_current e rd c i toolName args workDir s1)"

text \<open>The check under the rules of the active skill; a hook's \<open>allow\<close> acts as a grant of the tool.\<close>

definition skill_grants :: "perm_env \<Rightarrow> ctx \<Rightarrow> string \<Rightarrow> args \<Rightarrow> string list \<Rightarrow> string list" where
  "skill_grants e c toolName args grants =
     (if hookDecisionFor e c toolName args = ''allow'' then grants @ [toolName] else grants)"

definition CheckWithTemporaryToolRules ::
    "perm_env \<Rightarrow> readings \<Rightarrow> ctx \<Rightarrow> nat \<Rightarrow> string \<Rightarrow> args \<Rightarrow> string list \<Rightarrow> string list \<Rightarrow> perm_store \<Rightarrow> check_result" where
  "CheckWithTemporaryToolRules e rd c i toolName args grants denies s =
     (let workDir = cx_workDir c
      in if TemporaryToolRulesDenyWithIdentity (renv e) c denies toolName args workDir
         then (s, respond False DecisionDeny ''Tool is denied by the active skill'', None)
         else if list_ex (\<lambda>grant. temporaryToolGrantMatches (renv e) grant toolName args workDir \<or>
                                  temporaryToolGrantMatches (renv e) grant (canonicalInvocationTool c toolName) args workDir)
                   (skill_grants e c toolName args grants)
         then case WithPolicyOverrides i [(toolName, LevelAllow)] (rd_new rd) s of
                (s1, j) \<Rightarrow> perm_Check e rd c j toolName args (adoptSessionAuthorityFrom j i s1)
         else perm_Check e rd c i toolName args s)"

definition CheckWithTemporaryToolGrants ::
    "perm_env \<Rightarrow> readings \<Rightarrow> ctx \<Rightarrow> nat \<Rightarrow> string \<Rightarrow> args \<Rightarrow> string list \<Rightarrow> perm_store \<Rightarrow> check_result" where
  "CheckWithTemporaryToolGrants e rd c i toolName args grants s =
     CheckWithTemporaryToolRules e rd c i toolName args grants [] s"

definition Preflight ::
    "perm_env \<Rightarrow> readings \<Rightarrow> ctx \<Rightarrow> nat \<Rightarrow> string \<Rightarrow> args \<Rightarrow> string list \<Rightarrow> string list \<Rightarrow> bool \<Rightarrow> perm_store \<Rightarrow> check_result" where
  "Preflight e rd c i toolName args grants denies canPrompt s =
     CheckWithTemporaryToolRules e rd (c\<lparr>cx_preflight := Some canPrompt\<rparr>) i toolName args grants denies s"

definition UnconditionallyDenied ::
    "perm_env \<Rightarrow> readings \<Rightarrow> ctx \<Rightarrow> nat \<Rightarrow> string \<Rightarrow> bool \<Rightarrow> perm_store \<Rightarrow> perm_store \<times> bool" where
  "UnconditionallyDenied e rd c i toolName headless s =
     (let s1 = fst (refreshFromParent e rd c i toolName [] (cx_workDir c) s);
          m = ps_managers s1 i; env = renv e; canonical = canonicalInvocationTool c toolName
      in (s1,
          if list_ex (\<lambda>rule. ToolDenyRuleMatchesName env rule toolName \<or> ToolDenyRuleMatchesName env rule canonical) (pm_runDenies m)
          then True
          else if \<not> pm_enabled m then False
          else let policy = invocationToolPolicy c (pm_rules m) toolName
               in if policy = LevelDeny then True
                  else if policy = LevelAllow \<or> \<not> headless then False
                  else if pm_dontAsk m \<and> toolName = ''bash'' \<or> 0 < lru_Len (ps_caches s1 (pm_sessionCache m)) then False
                  else \<not> list_ex (\<lambda>rule. let name = takeWhile (\<lambda>ch. ch \<noteq> CHR 0x28) rule
                                         in toolRuleNameMatches env name toolName \<or> toolRuleNameMatches env name canonical)
                         (pm_runAllows m)))"

section \<open>Changing policy and revoking\<close>

definition bump :: "perm_manager \<Rightarrow> perm_manager" where
  "bump m = m\<lparr>pm_revision := pm_revision m + 1\<rparr>"

definition SetRunToolRules :: "nat \<Rightarrow> string list \<Rightarrow> string list \<Rightarrow> perm_store \<Rightarrow> perm_store" where
  "SetRunToolRules i allows denies s =
     session_Clear i (put_manager i (bump ((ps_managers s i)\<lparr>pm_runAllows := allows, pm_runDenies := denies\<rparr>)) s)"

definition SetDontAsk :: "nat \<Rightarrow> bool \<Rightarrow> perm_store \<Rightarrow> perm_store" where
  "SetDontAsk i enabled s =
     (let m = ps_managers s i
      in if pm_dontAsk m \<noteq> enabled then session_Clear i (put_manager i (bump (m\<lparr>pm_dontAsk := enabled\<rparr>)) s)
         else put_manager i (m\<lparr>pm_dontAsk := enabled\<rparr>) s)"

definition RememberWithArgs :: "perm_env \<Rightarrow> readings \<Rightarrow> nat \<Rightarrow> string \<Rightarrow> args \<Rightarrow> decision \<Rightarrow> perm_store \<Rightarrow> perm_store" where
  "RememberWithArgs e rd i toolName args d s =
     session_Set i (cacheKey e toolName args) \<lparr>cd_Decision = d, cd_Revision = pm_revision (ps_managers s i)\<rparr> rd s"

definition ClearSession :: "nat \<Rightarrow> perm_store \<Rightarrow> perm_store" where
  "ClearSession i s = session_Clear i (put_manager i (bump (ps_managers s i)) s)"

text \<open>\<open>Forget\<close> and \<open>ForgetWithArgs\<close> ignore their arguments.\<close>

definition Forget :: "nat \<Rightarrow> string \<Rightarrow> perm_store \<Rightarrow> perm_store" where
  "Forget i toolName s = session_Clear i (put_manager i (bump (ps_managers s i)) s)"

definition ForgetWithArgs :: "nat \<Rightarrow> string \<Rightarrow> args \<Rightarrow> perm_store \<Rightarrow> perm_store" where
  "ForgetWithArgs i toolName args s = session_Clear i (put_manager i (bump (ps_managers s i)) s)"

definition perm_SetEnabled :: "nat \<Rightarrow> bool \<Rightarrow> perm_store \<Rightarrow> perm_store" where
  "perm_SetEnabled i enabled s =
     (let m = ps_managers s i
      in if pm_enabled m \<noteq> enabled then session_Clear i (put_manager i (bump (m\<lparr>pm_enabled := enabled\<rparr>)) s)
         else put_manager i (m\<lparr>pm_enabled := enabled\<rparr>) s)"

definition SetRules :: "nat \<Rightarrow> perm_rules option \<Rightarrow> perm_store \<Rightarrow> perm_store" where
  "SetRules i rules s =
     session_Clear i (put_manager i
       (bump ((ps_managers s i)\<lparr>pm_rules := (case rules of None \<Rightarrow> DefaultRules | Some r \<Rightarrow> r)\<rparr>)) s)"

end
