(* ===== verification/PermProps.thy ===== *)
theory PermProps
  imports PermManager
begin

text \<open>
  What the check of a permission promises: deny rules are final, nothing runs without an authority, and the calls
  that need confirmation get it. The proofs go through \<open>check_current_open\<close>, the check by cases, and
  \<open>scope_check_cases\<close>, which reduces the call under a skill grant to a check in the store of its fresh scope.
\<close>

section \<open>The store\<close>

lemma put_simps [simp]:
  "ps_managers (put_manager i m s) = (ps_managers s)(i := m)" "ps_caches (put_manager i m s) = ps_caches s"
  "ps_next (put_manager i m s) = ps_next s" "ps_managers (put_cache a c s) = ps_managers s"
  "ps_caches (put_cache a c s) = (ps_caches s)(a := c)" "ps_next (put_cache a c s) = ps_next s"
  by (simp_all add: put_manager_def put_cache_def)

lemma session_managers [simp]:
  "ps_managers (fst (session_Get i k now s)) = ps_managers s" "ps_managers (session_Set i k v rd s) = ps_managers s"
  "ps_managers (session_Clear i s) = ps_managers s"
  "ps_next (fst (session_Get i k now s)) = ps_next s" "ps_next (session_Set i k v rd s) = ps_next s"
  "ps_next (session_Clear i s) = ps_next s"
  by (simp_all add: session_Get_def session_Set_def session_Clear_def Let_def split_def)

section \<open>What a call is judged on\<close>

definition credential_read :: "perm_env \<Rightarrow> ctx \<Rightarrow> string \<Rightarrow> args \<Rightarrow> bool" where
  "credential_read e c t args \<longleftrightarrow> sensitiveReadPaths (renv e) (canonicalInvocationTool c t) args (cx_workDir c) \<noteq> []"

definition run_denied :: "perm_env \<Rightarrow> ctx \<Rightarrow> perm_manager \<Rightarrow> string \<Rightarrow> args \<Rightarrow> bool" where
  "run_denied e c m t args \<longleftrightarrow> TemporaryToolRulesDenyWithIdentity (renv e) c (pm_runDenies m) t args (cx_workDir c)"

definition config_denied :: "ctx \<Rightarrow> perm_manager \<Rightarrow> string \<Rightarrow> bool" where
  "config_denied c m t \<longleftrightarrow> pm_enabled m \<and> invocationToolPolicy c (pm_rules m) t = LevelDeny"

definition run_allowed :: "perm_env \<Rightarrow> ctx \<Rightarrow> perm_manager \<Rightarrow> string \<Rightarrow> args \<Rightarrow> bool" where
  "run_allowed e c m t args \<longleftrightarrow>
     (if credential_read e c t args
      then sensitiveReadRunAllowed (renv e) (pm_runAllows m) (canonicalInvocationTool c t)
             (sensitiveReadPaths (renv e) (canonicalInvocationTool c t) args (cx_workDir c)) (cx_workDir c)
      else invocationToolAllowed (renv e) c (pm_runAllows m) t args (cx_workDir c))"

definition hook_asks :: "perm_env \<Rightarrow> ctx \<Rightarrow> string \<Rightarrow> args \<Rightarrow> bool" where
  "hook_asks e c t args \<longleftrightarrow> hookDecisionFor e c t args = ''ask''"

definition call_key :: "perm_env \<Rightarrow> ctx \<Rightarrow> string \<Rightarrow> args \<Rightarrow> string" where
  "call_key e c t args = cacheKeyWithWorkDir e (invocationCacheTool c t) args (cx_workDir c)"

text \<open>A decision the session cache of manager \<open>i\<close> holds for a key, not expired and made under the current revision.\<close>

definition session_decision :: "nat \<Rightarrow> string \<Rightarrow> time \<Rightarrow> perm_store \<Rightarrow> decision option" where
  "session_decision i key now s =
     (case map_of (lru_entries (ps_caches s (pm_sessionCache (ps_managers s i)))) key of
        Some (d, expiry) \<Rightarrow>
          if \<not> expiry < now \<and> cd_Revision d = pm_revision (ps_managers s i) then Some (cd_Decision d) else None
      | None \<Rightarrow> None)"

text \<open>The handler of manager \<open>i\<close> is asked about this call and answers with an approval.\<close>

definition user_allows :: "perm_env \<Rightarrow> ctx \<Rightarrow> nat \<Rightarrow> string \<Rightarrow> args \<Rightarrow> perm_store \<Rightarrow> bool" where
  "user_allows e c i t args s \<longleftrightarrow>
     (\<exists>h req s0 s' d. pm_promptHandler (ps_managers s i) = Some h \<and> rq_ToolName req = t \<and> rq_Args req = args \<and>
        pe_prompt e h c req s0 = (s', Inr d) \<and> d \<in> {DecisionAllow, DecisionAllowSession})"

lemma session_Get_result:
  "snd (session_Get i k now s) =
     (case map_of (lru_entries (ps_caches s (pm_sessionCache (ps_managers s i)))) k of
        Some (d, expiry) \<Rightarrow> if expiry < now then None else Some d | None \<Rightarrow> None)"
  by (auto simp: session_Get_def lru_Get_def expired_def Let_def split: option.splits)

lemma lru_Get_keeps:
  "map_of (lru_entries (fst (lru_Get c k now))) k = Some x \<Longrightarrow> map_of (lru_entries c) k = Some x"
  by (auto simp: lru_Get_def removeEntry_def AList.delete_conv' split: option.splits if_splits)

lemma session_verdict_allowed:
  "session_verdict (snd (session_Get i k now s)) (pm_revision (ps_managers s i)) f = Some r \<Longrightarrow> rs_Allowed r \<Longrightarrow>
   session_decision i k now s = Some DecisionAllowSession \<and> \<not> f"
  by (auto simp: session_verdict_def session_decision_def session_Get_result split: option.splits if_splits decision.splits)

lemma askUser_allowed:
  assumes "askUser e rd c i t args (cx_workDir c) (pm_revision (ps_managers s i)) s = (s', r, err)"
    "rs_Allowed r" "cx_preflight c = None"
  shows "user_allows e c i t args s \<and> err = None"
proof -
  let ?hint = "sensitiveReadHint (sensitiveReadPaths (renv e) (canonicalInvocationTool c t) args (cx_workDir c)) (cx_workDir c)"
  let ?q = "NewRequest (renv e) (pe_risk e) t args"
  let ?req = "if ?hint \<noteq> [] then ?q\<lparr>rq_Reason := ?hint\<rparr> else ?q"
  have req: "rq_ToolName ?req = t" "rq_Args ?req = args" by (simp_all add: NewRequest_def)
  obtain h where h: "pm_promptHandler (ps_managers s i) = Some h"
    using assms by (cases "pm_promptHandler (ps_managers s i)") (auto simp: askUser_def refuse_with_def Let_def)
  obtain s1 a where p: "pe_prompt e h c ?req s = (s1, a)" by fastforce
  then obtain d where d: "a = Inr d"
    using assms h by (cases a) (auto simp: askUser_def refuse_with_def Let_def)
  have rev: "pm_revision (ps_managers s1 i) = pm_revision (ps_managers s i)"
    using assms h p d by (auto simp: askUser_def refuse_with_def Let_def split: if_splits)
  then have "commit_answer e rd c i t args (cx_workDir c) (pm_revision (ps_managers s i)) d s1 = (s', r, err)"
    using assms h p d by (simp add: askUser_def Let_def)
  then have "d \<in> {DecisionAllow, DecisionAllowSession} \<and> err = None"
    using assms(2) by (auto simp: commit_answer_def refuse_with_def Let_def split: decision.splits prod.splits if_splits)
  with h p d rev req show ?thesis unfolding user_allows_def by blast
qed

definition effective_policy :: "ctx \<Rightarrow> perm_manager \<Rightarrow> string \<Rightarrow> level" where
  "effective_policy c m t = (if \<not> pm_enabled m then LevelAllow else invocationToolPolicy c (pm_rules m) t)"

text \<open>A call that needs confirmation whatever the policy of its tool.\<close>

definition floored :: "perm_env \<Rightarrow> ctx \<Rightarrow> string \<Rightarrow> args \<Rightarrow> bool" where
  "floored e c t args \<longleftrightarrow> hook_asks e c t args \<or> isElevatedBash t args \<or> credential_read e c t args"

definition authorised :: "perm_env \<Rightarrow> readings \<Rightarrow> ctx \<Rightarrow> nat \<Rightarrow> string \<Rightarrow> args \<Rightarrow> bool \<Rightarrow> perm_store \<Rightarrow> bool" where
  "authorised e rd c i t args granted s \<longleftrightarrow>
     (let m = ps_managers s i
      in \<not> pm_enabled m \<and> \<not> credential_read e c t args \<or>
         (granted \<or> effective_policy c m t = LevelAllow) \<and> \<not> floored e c t args \<or>
         session_decision i (call_key e c t args) (rd_session rd) s = Some DecisionAllowSession \<and> \<not> hook_asks e c t args \<or>
         run_allowed e c m t args \<and> \<not> hook_asks e c t args \<and> \<not> isElevatedBash t args \<or>
         pm_dontAsk m \<and> t = ''bash'' \<and> isReadOnlyBashInvocation c args \<and> \<not> floored e c t args \<or>
         \<not> pm_dontAsk m \<and> \<not> cx_noPrompt c \<and> user_allows e c i t args s)"

lemma check_current_denied:
  assumes "run_denied e c (ps_managers s i) t args \<or> config_denied c (ps_managers s i) t"
  shows "\<exists>why. check_current e rd c i t args (cx_workDir c) s = (s, respond False DecisionDeny why, None)"
  using assms by (auto simp: check_current_def run_denied_def config_denied_def Let_def)

text \<open>The check once nothing denies the call: either it returns at once, or it looks the call up.\<close>

lemma check_current_open:
  assumes "\<not> run_denied e c (ps_managers s i) t args" "\<not> config_denied c (ps_managers s i) t"
    "\<not> (\<not> pm_enabled (ps_managers s i) \<and> \<not> credential_read e c t args)"
    "\<not> (effective_policy c (ps_managers s i) t = LevelAllow \<and> \<not> floored e c t args)"
  shows "check_current e rd c i t args (cx_workDir c) s =
     (case session_Get i (call_key e c t args) (rd_session rd) s of (s1, cached) \<Rightarrow>
        (case session_verdict cached (pm_revision (ps_managers s i)) (hook_asks e c t args) of
           Some r \<Rightarrow> (s1, r, None)
         | None \<Rightarrow> check_uncached e rd c i t args (cx_workDir c) (ps_managers s i) (effective_policy c (ps_managers s i) t)
             (sensitiveReadPaths (renv e) (canonicalInvocationTool c t) args (cx_workDir c))
             (run_allowed e c (ps_managers s i) t args) (hook_asks e c t args) (isElevatedBash t args) s1))"
proof -
  let ?m = "ps_managers s i" and ?w = "cx_workDir c"
  have 1: "\<not> TemporaryToolRulesDenyWithIdentity (renv e) c (pm_runDenies ?m) t args ?w"
    using assms(1) by (simp add: run_denied_def)
  have 2: "\<not> (\<not> pm_enabled ?m \<and> sensitiveReadPaths (renv e) (canonicalInvocationTool c t) args ?w = [])"
    using assms(3) by (simp add: credential_read_def)
  have 3: "effective_policy c ?m t \<noteq> LevelDeny"
    using assms(2) by (simp add: effective_policy_def config_denied_def)
  have 4: "\<not> (effective_policy c ?m t = LevelAllow \<and> hookDecisionFor e c t args \<noteq> ''ask'' \<and> \<not> isElevatedBash t args \<and>
             sensitiveReadPaths (renv e) (canonicalInvocationTool c t) args ?w = [])"
    using assms(4) by (simp add: floored_def hook_asks_def credential_read_def)
  show ?thesis
    unfolding check_current_def Let_def effective_policy_def[symmetric] if_not_P[OF 1] if_not_P[OF 2] if_not_P[OF 3] if_not_P[OF 4]
      call_key_def run_allowed_def credential_read_def hook_asks_def ..
qed

lemma check_uncached_allowed:
  assumes "check_uncached e rd c i t args (cx_workDir c) m (effective_policy c m t)
      (sensitiveReadPaths (renv e) (canonicalInvocationTool c t) args (cx_workDir c))
      (run_allowed e c m t args) (hook_asks e c t args) (isElevatedBash t args) s = (s', r, err)"
    "rs_Allowed r" "cx_preflight c = None" "m = ps_managers s i"
  shows "err = None \<and>
    ((effective_policy c m t = LevelAllow \<and> \<not> floored e c t args) \<or>
     (run_allowed e c m t args \<and> \<not> hook_asks e c t args \<and> \<not> isElevatedBash t args) \<or>
     (pm_dontAsk m \<and> t = ''bash'' \<and> isReadOnlyBashInvocation c args \<and> \<not> floored e c t args) \<or>
     (\<not> pm_dontAsk m \<and> \<not> cx_noPrompt c \<and> user_allows e c i t args s))"
proof -
  have ask: "user_allows e c i t args s \<and> err = None"
    if "askUser e rd c i t args (cx_workDir c) (pm_revision m) s = (s', r, err)"
    using askUser_allowed[of e rd c i t args s s' r err] that assms(2,3,4) by simp
  show ?thesis
    using assms(1,2) ask unfolding check_uncached_def floored_def credential_read_def
    by (simp split: if_splits) (metis respond_simps(1) prod.inject)+
qed

lemma check_current_allowed:
  assumes "check_current e rd c i t args (cx_workDir c) s = (s', r, err)" "rs_Allowed r" "cx_preflight c = None"
  shows "\<not> run_denied e c (ps_managers s i) t args \<and> \<not> config_denied c (ps_managers s i) t \<and>
         authorised e rd c i t args False s \<and> err = None"
proof -
  let ?m = "ps_managers s i"
  have nd: "\<not> run_denied e c ?m t args" "\<not> config_denied c ?m t"
    using check_current_denied[of e c s i t args rd] assms(1,2) by auto
  consider (off) "\<not> pm_enabled ?m \<and> \<not> credential_read e c t args"
    | (plain) "effective_policy c ?m t = LevelAllow \<and> \<not> floored e c t args"
    | (looked) "\<not> (\<not> pm_enabled ?m \<and> \<not> credential_read e c t args)" "\<not> (effective_policy c ?m t = LevelAllow \<and> \<not> floored e c t args)"
    by blast
  then have "authorised e rd c i t args False s \<and> err = None"
  proof cases
    case looked
    obtain s1 cached where g: "session_Get i (call_key e c t args) (rd_session rd) s = (s1, cached)" by fastforce
    then have m1: "ps_managers s1 = ps_managers s" using session_managers(1)[of i "call_key e c t args" "rd_session rd" s] by simp
    show ?thesis
    proof (cases "session_verdict cached (pm_revision ?m) (hook_asks e c t args)")
      case None
      with check_current_open[OF nd looked] g assms(1)
      have cu: "check_uncached e rd c i t args (cx_workDir c) ?m (effective_policy c ?m t)
          (sensitiveReadPaths (renv e) (canonicalInvocationTool c t) args (cx_workDir c))
          (run_allowed e c ?m t args) (hook_asks e c t args) (isElevatedBash t args) s1 = (s', r, err)" by simp
      have ua: "user_allows e c i t args s1 = user_allows e c i t args s" by (simp only: user_allows_def m1)
      show ?thesis
        using check_uncached_allowed[OF cu assms(2,3)] unfolding m1 ua authorised_def Let_def by blast
    next
      case (Some v)
      with check_current_open[OF nd looked] g assms(1) have "v = r" "err = None" by auto
      with Some g session_verdict_allowed[of i "call_key e c t args" "rd_session rd" s "hook_asks e c t args" r] assms(2)
      show ?thesis by (simp add: authorised_def Let_def)
    qed
  qed (use nd assms(1) in \<open>auto simp: authorised_def Let_def check_current_def run_denied_def credential_read_def
        floored_def hook_asks_def effective_policy_def split: if_splits\<close>)
  with nd show ?thesis by simp
qed

section \<open>The scope of a skill grant\<close>

text \<open>The scoped manager of one granted call, and the store it is checked in.\<close>

definition scope_of :: "nat \<Rightarrow> perm_manager \<Rightarrow> string \<Rightarrow> perm_manager" where
  "scope_of i m t = m\<lparr>pm_rules := apply_override (t, LevelAllow) (pm_rules m), pm_parent := Some i,
     pm_overrides := [(t, LevelAllow)], pm_parentRevision := pm_revision m\<rparr>"

definition scope_store :: "nat \<Rightarrow> string \<Rightarrow> time \<Rightarrow> perm_store \<Rightarrow> perm_store" where
  "scope_store i t now s =
     s\<lparr>ps_managers := (ps_managers s)(ps_next s := scope_of i (ps_managers s i) t),
       ps_caches := (ps_caches s)(ps_next s := NewLRUCache 1000 (24 * (60 * minute)) now), ps_next := Suc (ps_next s)\<rparr>"

definition skill_granted :: "perm_env \<Rightarrow> ctx \<Rightarrow> string \<Rightarrow> args \<Rightarrow> string list \<Rightarrow> bool" where
  "skill_granted e c t args grants \<longleftrightarrow>
     list_ex (\<lambda>grant. temporaryToolGrantMatches (renv e) grant t args (cx_workDir c) \<or>
                      temporaryToolGrantMatches (renv e) grant (canonicalInvocationTool c t) args (cx_workDir c))
       (skill_grants e c t args grants)"

definition skill_denied :: "perm_env \<Rightarrow> ctx \<Rightarrow> string \<Rightarrow> args \<Rightarrow> string list \<Rightarrow> bool" where
  "skill_denied e c t args denies \<longleftrightarrow> TemporaryToolRulesDenyWithIdentity (renv e) c denies t args (cx_workDir c)"

lemma scope_store_eq:
  assumes "i < ps_next s"
  shows "adoptSessionAuthorityFrom (ps_next s) i (fst (WithPolicyOverrides i [(t, LevelAllow)] now s)) = scope_store i t now s"
  using assms by (cases "ps_managers s i")
    (simp add: adoptSessionAuthorityFrom_def WithPolicyOverrides_def perm_NewManager_def put_manager_def scope_store_def
      scope_of_def apply_overrides_def Let_def fun_upd_def fun_eq_iff)

lemma WithPolicyOverrides_address: "snd (WithPolicyOverrides i os now s) = ps_next s"
  by (simp add: WithPolicyOverrides_def perm_NewManager_def Let_def)

lemma CheckWithTemporaryToolRules_cases:
  assumes "i < ps_next s"
  shows "CheckWithTemporaryToolRules e rd c i t args grants denies s =
     (if skill_denied e c t args denies then (s, respond False DecisionDeny ''Tool is denied by the active skill'', None)
      else if skill_granted e c t args grants then perm_Check e rd c (ps_next s) t args (scope_store i t (rd_new rd) s)
      else perm_Check e rd c i t args s)"
  using scope_store_eq[OF assms, of t "rd_new rd"] WithPolicyOverrides_address[of i "[(t, LevelAllow)]" "rd_new rd" s]
  by (cases "WithPolicyOverrides i [(t, LevelAllow)] (rd_new rd) s")
     (simp add: CheckWithTemporaryToolRules_def skill_denied_def skill_granted_def)

text \<open>Allocated managers point at allocated caches and at older parents.\<close>

definition store_wf :: "perm_store \<Rightarrow> bool" where
  "store_wf s \<longleftrightarrow>
     (\<forall>k < ps_next s. pm_sessionCache (ps_managers s k) < ps_next s \<and>
        (\<forall>q. pm_parent (ps_managers s k) = Some q \<longrightarrow> q < k))"

lemma scope_of_simps [simp]:
  "pm_enabled (scope_of i m t) = pm_enabled m" "pm_dontAsk (scope_of i m t) = pm_dontAsk m"
  "pm_revision (scope_of i m t) = pm_revision m" "pm_runAllows (scope_of i m t) = pm_runAllows m"
  "pm_runDenies (scope_of i m t) = pm_runDenies m" "pm_sessionCache (scope_of i m t) = pm_sessionCache m"
  "pm_promptHandler (scope_of i m t) = pm_promptHandler m" "pm_parent (scope_of i m t) = Some i"
  "pm_rules (scope_of i m t) = apply_override (t, LevelAllow) (pm_rules m)"
  "\<not> scope_changed (scope_of i m t) m" "refreshed (scope_of i m t) m = scope_of i m t"
  by (simp_all add: scope_of_def refreshed_def scope_changed_def)

lemma scope_store_simps [simp]:
  "ps_managers (scope_store i t now s) = (ps_managers s)(ps_next s := scope_of i (ps_managers s i) t)"
  "ps_caches (scope_store i t now s) = (ps_caches s)(ps_next s := NewLRUCache 1000 (24 * (60 * minute)) now)"
  "ps_next (scope_store i t now s) = Suc (ps_next s)"
  by (simp_all add: scope_store_def)

lemma put_same_manager: "put_manager k (ps_managers s k) s = s"
  by (simp add: put_manager_def)

text \<open>A fresh scope is in step with its parent, so the refresh only looks for a denial.\<close>

lemma scope_refresh:
  assumes "i < ps_next s"
  shows "refreshFromParent e rd c (ps_next s) t args (cx_workDir c) (scope_store i t now s) =
     (if \<not> pm_enabled (ps_managers s i) then (scope_store i t now s, None)
      else if config_denied c (ps_managers s i) t
      then (scope_store i t now s, Some (respond False DecisionDeny ''Tool is not permitted by parent configuration''))
      else (fst (session_Get i (call_key e c t args) (rd_parent rd) (scope_store i t now s)),
            case snd (session_Get i (call_key e c t args) (rd_parent rd) (scope_store i t now s)) of
              Some d \<Rightarrow> if cd_Revision d = pm_revision (ps_managers s i) \<and> cd_Decision d = DecisionDenySession
                        then Some (respond False DecisionDenySession ''Denied for parent session'') else None
            | None \<Rightarrow> None))"
proof -
  have put: "put_manager (ps_next s) (scope_of i (ps_managers s i) t) (scope_store i t now s) = scope_store i t now s"
    by (simp add: put_manager_def scope_store_def)
  show ?thesis
    using assms by (simp add: put refreshFromParent_def config_denied_def call_key_def Let_def split_def)
qed

lemma run_denied_scope [simp]: "run_denied e c (scope_of i m t) t args = run_denied e c m t args"
  by (simp add: run_denied_def)

lemma run_allowed_scope [simp]: "run_allowed e c (scope_of i m t) t args = run_allowed e c m t args"
  by (simp add: run_allowed_def)

text \<open>The call under a grant is denied, or checked in a store that differs only in what the cache forgot.\<close>

lemma scope_check_cases:
  assumes "i < ps_next s" "store_wf s"
  obtains (denied) s' why d where
      "perm_Check e rd c (ps_next s) t args (scope_store i t now s) = (s', respond False d why, None)" "d \<in> {DecisionDeny, DecisionDenySession}"
  | (checked) s3 where
      "perm_Check e rd c (ps_next s) t args (scope_store i t now s) = check_current e rd c (ps_next s) t args (cx_workDir c) s3"
      "ps_managers s3 = ps_managers (scope_store i t now s)" "\<not> config_denied c (ps_managers s i) t"
      "\<And>now' d. session_decision (ps_next s) (call_key e c t args) now' s3 = Some d \<Longrightarrow>
          session_decision i (call_key e c t args) now' s = Some d"
proof (cases "refreshFromParent e rd c (ps_next s) t args (cx_workDir c) (scope_store i t now s)")
  case (Pair s1 res)
  show ?thesis
  proof (cases res)
    case (Some r)
    with Pair obtain d why where "r = respond False d why" "d \<in> {DecisionDeny, DecisionDenySession}"
      using scope_refresh[OF assms(1), of e rd c t args now] by (auto split: if_splits option.splits)
    with Pair Some show ?thesis by (intro denied) (auto simp: perm_Check_def)
  next
    case None
    let ?a = "pm_sessionCache (ps_managers s i)" and ?k = "call_key e c t args"
    have a: "?a \<noteq> ps_next s" "i \<noteq> ps_next s" using assms by (auto simp: store_wf_def)
    have s1: "s1 = scope_store i t now s \<or> s1 = fst (session_Get i ?k (rd_parent rd) (scope_store i t now s))"
      and nc: "\<not> config_denied c (ps_managers s i) t"
      using Pair None scope_refresh[OF assms(1), of e rd c t args now] by (auto simp: config_denied_def split: if_splits)
    have keep: "map_of (lru_entries (ps_caches s1 ?a)) ?k = Some x \<Longrightarrow> map_of (lru_entries (ps_caches s ?a)) ?k = Some x" for x
      using s1 a by (auto simp: session_Get_def Let_def split_def dest: lru_Get_keeps)
    have m1: "ps_managers s1 = ps_managers (scope_store i t now s)" using s1 by auto
    show ?thesis
    proof (rule checked[OF _ m1 nc])
      show "perm_Check e rd c (ps_next s) t args (scope_store i t now s) = check_current e rd c (ps_next s) t args (cx_workDir c) s1"
        using Pair None by (simp add: perm_Check_def)
    next
      fix now' d
      assume "session_decision (ps_next s) ?k now' s1 = Some d"
      then show "session_decision i ?k now' s = Some d"
        using keep by (auto simp: session_decision_def m1 split: option.splits if_splits)
    qed
  qed
qed

lemma root_check: "pm_parent (ps_managers s i) = None \<Longrightarrow> perm_Check e rd c i t args s = check_current e rd c i t args (cx_workDir c) s"
  by (simp add: perm_Check_def refreshFromParent_def Let_def)

text \<open>
  C6: A deny rule is final for a check on a root manager. When a skill denies the call, or a rule of the command line
  does, or permissions are on and the policy of the tool, under its own name or the name it is registered from, is deny, then no skill grant,
  no hook, no session decision and no answer of the user lets the call through, and permission mode does not matter
  for the first two.
\<close>

theorem deny_rules_are_final:
  assumes "store_wf s" "i < ps_next s" "pm_parent (ps_managers s i) = None"
    "skill_denied e c t args denies \<or> run_denied e c (ps_managers s i) t args \<or> config_denied c (ps_managers s i) t"
  shows "\<exists>s' d why. CheckWithTemporaryToolRules e rd c i t args grants denies s = (s', respond False d why, None) \<and>
           d \<in> {DecisionDeny, DecisionDenySession}"
proof (cases "skill_denied e c t args denies")
  case False
  with assms(4) have d: "run_denied e c (ps_managers s i) t args \<or> config_denied c (ps_managers s i) t" by simp
  show ?thesis
  proof (cases "skill_granted e c t args grants")
    case True
    show ?thesis
      using assms(2,1)
    proof (cases rule: scope_check_cases[of i s e rd c t args "rd_new rd"])
      case (checked s3)
      with d have "run_denied e c (ps_managers s3 (ps_next s)) t args" by simp
      then obtain why where "check_current e rd c (ps_next s) t args (cx_workDir c) s3 = (s3, respond False DecisionDeny why, None)"
        using check_current_denied[of e c s3 "ps_next s" t args rd] by auto
      with True False checked(1) CheckWithTemporaryToolRules_cases[OF assms(2), of e rd c t args grants denies] show ?thesis by auto
    qed (use True False CheckWithTemporaryToolRules_cases[OF assms(2), of e rd c t args grants denies] in auto)
  qed (use False d check_current_denied[of e c s i t args rd] root_check[OF assms(3), of e rd c t args]
        CheckWithTemporaryToolRules_cases[OF assms(2), of e rd c t args grants denies] in auto)
qed (auto simp: CheckWithTemporaryToolRules_cases[OF assms(2)])

lemma allowed_authority:
  assumes "store_wf s" "i < ps_next s" "pm_parent (ps_managers s i) = None" "cx_preflight c = None"
    "CheckWithTemporaryToolRules e rd c i t args grants denies s = (s', r, err)" "rs_Allowed r"
  shows "err = None \<and> \<not> skill_denied e c t args denies \<and> \<not> run_denied e c (ps_managers s i) t args \<and>
         \<not> config_denied c (ps_managers s i) t \<and> authorised e rd c i t args (skill_granted e c t args grants) s"
proof -
  note rules = CheckWithTemporaryToolRules_cases[OF assms(2), of e rd c t args grants denies]
  have nd: "\<not> skill_denied e c t args denies" using rules assms(5,6) by auto
  show ?thesis
  proof (cases "skill_granted e c t args grants")
    case False
    with nd rules assms(5) root_check[OF assms(3)] have "check_current e rd c i t args (cx_workDir c) s = (s', r, err)" by simp
    from check_current_allowed[OF this assms(6,4)] nd False show ?thesis by simp
  next
    case True
    with nd rules assms(5) have p: "perm_Check e rd c (ps_next s) t args (scope_store i t (rd_new rd) s) = (s', r, err)" by simp
    show ?thesis
      using assms(2,1)
    proof (cases rule: scope_check_cases[of i s e rd c t args "rd_new rd"])
      case (checked s3)
      with p have "check_current e rd c (ps_next s) t args (cx_workDir c) s3 = (s', r, err)" by simp
      from check_current_allowed[OF this assms(6,4)] checked(2)
      have "\<not> run_denied e c (ps_managers s i) t args" "authorised e rd c (ps_next s) t args False s3" "err = None" by simp_all
      moreover from this(2) have "authorised e rd c i t args True s"
        using checked(4)[of "rd_session rd"] checked(2) unfolding authorised_def Let_def user_allows_def by auto
      ultimately show ?thesis using nd True checked(3) by simp
    qed (use p assms(6) in simp)
  qed
qed


text \<open>
  C8: The confirmation floors of a root manager with no preflight hook. With permissions on, an elevated bash command runs only if the user approved this
  very command for the session under the current policy revision or approves it now; a policy of allow, a skill
  grant and a rule of the command line are not enough. A read of credential-like files runs, even with permissions
  off, only on such an approval or when rules of the command line with a path pattern cover every one of the files.
\<close>

theorem floors_need_confirmation:
  assumes "store_wf s" "i < ps_next s" "pm_parent (ps_managers s i) = None" "cx_preflight c = None"
    "CheckWithTemporaryToolRules e rd c i t args grants denies s = (s', r, err)" "rs_Allowed r"
    "pm_enabled (ps_managers s i) \<and> isElevatedBash t args \<or> credential_read e c t args"
  shows "session_decision i (call_key e c t args) (rd_session rd) s = Some DecisionAllowSession \<or>
         user_allows e c i t args s \<or>
         credential_read e c t args \<and>
           (\<forall>path \<in> set (sensitiveReadPaths (renv e) (canonicalInvocationTool c t) args (cx_workDir c)).
              \<exists>rule \<in> set (pm_runAllows (ps_managers s i)).
                sensitive_rule_matches (renv e) (canonicalInvocationTool c t) (cx_workDir c) path rule)"
  using allowed_authority[OF assms(1-6)] assms(7)
  by (auto simp: authorised_def Let_def floored_def run_allowed_def sensitiveReadRunAllowed_def list_all_iff list_ex_iff
      split: if_splits)

section \<open>Witnesses\<close>

definition plain_env :: "perm_env" where
  "plain_env =
     \<lparr>pe_rules = \<lparr>re_letter = (\<lambda>_. False), re_digit = (\<lambda>_. False), re_upper = (\<lambda>_. False), re_lower = (\<lambda>_. False),
         re_to_lower = (\<lambda>r. r), re_ToLower = to_lower, re_Quote = (\<lambda>q. q), re_Parse = (\<lambda>_. None),
         re_Match = (\<lambda>_ _. Some False), re_ValidatePattern = (\<lambda>_. True), re_EvalSymlinks = Some, re_UserHomeDir = None,
         re_IsDir = (\<lambda>_. False), re_mcp = []\<rparr>,
      pe_risk = \<lparr>rt_overrides = Map.empty, rt_mcp = []\<rparr>, pe_Marshal = (\<lambda>args. Some (concat (map fst args))),
      pe_MarshalStrings = concat, pe_GoSyntax = (\<lambda>_. []), pe_Hash8 = (\<lambda>p. p),
      pe_prompt = (\<lambda>h c req s. (s, Inr DecisionAllow))\<rparr>"

definition plain_readings :: readings where
  "plain_readings = \<lparr>rd_new = 0, rd_parent = 0, rd_session = 0, rd_set = 0, rd_cleanup = 0\<rparr>"

text \<open>One manager with the given rules and a handler; all other addresses are free.\<close>

definition one_manager :: "perm_rules \<Rightarrow> bool \<Rightarrow> perm_store" where
  "one_manager r enabled =
     (let m = \<lparr>pm_rules = r, pm_enabled = enabled, pm_dontAsk = False, pm_revision = 1, pm_parent = None, pm_overrides = [],
               pm_parentRevision = 0, pm_runAllows = [], pm_runDenies = [], pm_sessionCache = 0, pm_promptHandler = Some 0\<rparr>
      in \<lparr>ps_managers = (\<lambda>_. m), ps_caches = (\<lambda>_. NewLRUCache 1000 (24 * (60 * minute)) 0), ps_next = 1\<rparr>)"

lemma one_manager_wf: "store_wf (one_manager r b)" "0 < ps_next (one_manager r b)" "pm_parent (ps_managers (one_manager r b) 0) = None"
  by (simp_all add: one_manager_def store_wf_def Let_def)

theorem deny_rules_are_final_witness:
  "\<exists>s' d why. CheckWithTemporaryToolRules plain_env plain_readings background 0 ''bash'' [(''command'', AString ''ls'')] [''bash''] []
       (one_manager (SetPolicy DefaultRules ''bash'' LevelDeny) True) = (s', respond False d why, None) \<and>
     d \<in> {DecisionDeny, DecisionDenySession}"
proof (rule deny_rules_are_final[OF one_manager_wf])
  show "skill_denied plain_env background ''bash'' [(''command'', AString ''ls'')] [] \<or>
    run_denied plain_env background (ps_managers (one_manager (SetPolicy DefaultRules ''bash'' LevelDeny) True) 0) ''bash'' [(''command'', AString ''ls'')] \<or>
    config_denied background (ps_managers (one_manager (SetPolicy DefaultRules ''bash'' LevelDeny) True) 0) ''bash''"
    by (simp add: config_denied_def one_manager_def Let_def SetPolicy_def invocationToolPolicy_def)
qed

lemma plain_check_sudo:
  "rs_Allowed (fst (snd (CheckWithTemporaryToolRules plain_env plain_readings background 0 ''bash''
     [(''command'', AString ''sudo ls'')] [''bash''] [] (one_manager DefaultRules True))))"
  by code_simp

lemma triple_eq: "x = (fst x, fst (snd x), snd (snd x))"
  by simp

lemma sudo_elevated: "isElevatedBash ''bash'' [(''command'', AString ''sudo ls'')]"
  by code_simp


theorem floors_need_confirmation_witness:
  "user_allows plain_env background 0 ''bash'' [(''command'', AString ''sudo ls'')] (one_manager DefaultRules True)"
  using plain_check_sudo sudo_elevated
    floors_need_confirmation[of "one_manager DefaultRules True" 0 background plain_env plain_readings "''bash''" "[(''command'', AString ''sudo ls'')]"
      "[''bash'']" "[]", OF one_manager_wf _ triple_eq]
  by (simp add: background_def session_decision_def one_manager_def Let_def NewLRUCache_def credential_read_def
      sensitiveReadPaths_def sensitive_keys_def canonicalInvocationTool_def sort_strings_def List.map_filter_def)

end
