(* ===== verification/PermRevision.thy ===== *)
theory PermRevision
  imports PermProps
begin

text \<open>
  Policy revisions of the permission manager. Every operation of the package is a step on the store; the locale
  \<open>policy_operation\<close> is what each of them promises to a check that waits for the user: a manager's revision stays
  and with it the policy, or the revision moves by one. It is interpreted for every operation, and it gives that an
  approval counts only for the policy it was asked under and that the scope of a plan step follows its parent.
\<close>

section \<open>What an operation does to a revision\<close>

definition policy_of :: "perm_manager \<Rightarrow> perm_rules \<times> bool \<times> bool \<times> string list \<times> string list" where
  "policy_of m = (pm_rules m, pm_enabled m, pm_dontAsk m, pm_runAllows m, pm_runDenies m)"

definition advances :: "perm_manager \<Rightarrow> perm_manager \<Rightarrow> bool" where
  "advances m m' \<longleftrightarrow>
     pm_revision m' = pm_revision m \<and> policy_of m' = policy_of m \<or> pm_revision m' = pm_revision m + 1"

lemma advances_refl [simp]: "advances m m"
  by (simp add: advances_def)

lemma advances_bump [simp]: "pm_revision m' = pm_revision m \<Longrightarrow> advances m (bump m')"
  by (simp add: advances_def bump_def)

locale policy_operation =
  fixes f :: "perm_store \<Rightarrow> perm_store"
  assumes grows: "ps_next s \<le> ps_next (f s)"
    and moves: "k < ps_next s \<Longrightarrow> advances (ps_managers s k) (ps_managers (f s) k)"
begin

lemma same_revision:
  assumes "k < ps_next s" "pm_revision (ps_managers (f s) k) = pm_revision (ps_managers s k)"
  shows "policy_of (ps_managers (f s) k) = policy_of (ps_managers s k)"
  using moves[OF assms(1)] assms(2) by (auto simp: advances_def)

end

interpretation rules_op: policy_operation "SetRules i r"
  by unfold_locales (simp_all add: SetRules_def)

interpretation run_rules_op: policy_operation "SetRunToolRules i allows denies"
  by unfold_locales (simp_all add: SetRunToolRules_def)

interpretation enabled_op: policy_operation "perm_SetEnabled i b"
  by unfold_locales (auto simp: perm_SetEnabled_def Let_def advances_def policy_of_def bump_def)

interpretation dont_ask_op: policy_operation "SetDontAsk i b"
  by unfold_locales (auto simp: SetDontAsk_def Let_def advances_def policy_of_def bump_def)

interpretation clear_op: policy_operation "ClearSession i"
  by unfold_locales (simp_all add: ClearSession_def)

interpretation forget_op: policy_operation "Forget i n"
  by unfold_locales (simp_all add: Forget_def)

interpretation forget_args_op: policy_operation "ForgetWithArgs i n args"
  by unfold_locales (simp_all add: ForgetWithArgs_def)

interpretation remember_op: policy_operation "RememberWithArgs e rd i n args d"
  by unfold_locales (simp_all add: RememberWithArgs_def)

interpretation remember_key_op: policy_operation "\<lambda>s. fst (rememberKeyIfCurrent i key d revision rd s)"
  by unfold_locales (simp_all add: rememberKeyIfCurrent_def)

interpretation handler_op: policy_operation "SetPromptHandler i h"
  by unfold_locales (simp_all add: SetPromptHandler_def advances_def policy_of_def)

interpretation lookup_op: policy_operation "\<lambda>s. fst (session_Get i key now s)"
  by unfold_locales simp_all

interpretation new_op: policy_operation "\<lambda>s. fst (perm_NewManager r b now s)"
  by unfold_locales (simp_all add: perm_NewManager_def Let_def)

interpretation scope_op: policy_operation "\<lambda>s. fst (WithPolicyOverrides i os now s)"
  by unfold_locales (simp_all add: WithPolicyOverrides_def perm_NewManager_def Let_def)

interpretation grant_op: policy_operation "scope_store i t now"
  by unfold_locales (simp_all add: scope_store_def)

lemma refresh_managers:
  "ps_next (fst (refreshFromParent e rd c j t args w s)) = ps_next s"
  "ps_managers (fst (refreshFromParent e rd c j t args w s)) =
     (case pm_parent (ps_managers s j) of None \<Rightarrow> ps_managers s
      | Some q \<Rightarrow> (ps_managers s)(j := refreshed (ps_managers s j) (ps_managers s q)))"
proof -
  have "ps_next (fst (case session_Get q k now u of (s3, cached) \<Rightarrow> (s3, g cached))) = ps_next u \<and>
      ps_managers (fst (case session_Get q k now u of (s3, cached) \<Rightarrow> (s3, g cached))) = ps_managers u"
    for q k now u and g :: "cached_decision option \<Rightarrow> response option"
    using session_managers(1,4)[of q k now u] by (simp add: split_def)
  then show "ps_next (fst (refreshFromParent e rd c j t args w s)) = ps_next s"
    "ps_managers (fst (refreshFromParent e rd c j t args w s)) =
     (case pm_parent (ps_managers s j) of None \<Rightarrow> ps_managers s
      | Some q \<Rightarrow> (ps_managers s)(j := refreshed (ps_managers s j) (ps_managers s q)))"
    by (simp_all add: refreshFromParent_def Let_def split: option.split)
qed

lemma advances_refreshed: "advances m (refreshed m p)"
  by (auto simp: advances_def refreshed_def policy_of_def)

interpretation refresh_op: policy_operation "\<lambda>s. fst (refreshFromParent e rd c j t args w s)"
  by unfold_locales (auto simp: refresh_managers advances_refreshed split: option.split)

section \<open>Runs of operations\<close>

datatype perm_op =
    OpSetRules nat "perm_rules option"
  | OpSetRunToolRules nat "string list" "string list"
  | OpSetEnabled nat bool
  | OpSetDontAsk nat bool
  | OpClearSession nat
  | OpForget nat string
  | OpForgetWithArgs nat string args
  | OpRemember readings nat string args decision
  | OpRememberIfCurrent nat string decision "64 word" readings
  | OpSetPromptHandler nat "nat option"
  | OpLookup nat string time
  | OpNewManager "perm_rules option" bool time
  | OpScope nat "(string \<times> level) list" time
  | OpGrantScope nat string time
  | OpRefresh readings ctx nat string args string

fun perm_step :: "perm_env \<Rightarrow> perm_op \<Rightarrow> perm_store \<Rightarrow> perm_store" where
  "perm_step e (OpSetRules i r) = SetRules i r"
| "perm_step e (OpSetRunToolRules i allows denies) = SetRunToolRules i allows denies"
| "perm_step e (OpSetEnabled i b) = perm_SetEnabled i b"
| "perm_step e (OpSetDontAsk i b) = SetDontAsk i b"
| "perm_step e (OpClearSession i) = ClearSession i"
| "perm_step e (OpForget i n) = Forget i n"
| "perm_step e (OpForgetWithArgs i n args) = ForgetWithArgs i n args"
| "perm_step e (OpRemember rd i n args d) = RememberWithArgs e rd i n args d"
| "perm_step e (OpRememberIfCurrent i key d revision rd) = (\<lambda>s. fst (rememberKeyIfCurrent i key d revision rd s))"
| "perm_step e (OpSetPromptHandler i h) = SetPromptHandler i h"
| "perm_step e (OpLookup i key now) = (\<lambda>s. fst (session_Get i key now s))"
| "perm_step e (OpNewManager r b now) = (\<lambda>s. fst (perm_NewManager r b now s))"
| "perm_step e (OpScope i os now) = (\<lambda>s. fst (WithPolicyOverrides i os now s))"
| "perm_step e (OpGrantScope i t now) = scope_store i t now"
| "perm_step e (OpRefresh rd c j t args w) = (\<lambda>s. fst (refreshFromParent e rd c j t args w s))"

interpretation step: policy_operation "perm_step e op"
proof (cases op)
qed (simp_all only: perm_step.simps rules_op.policy_operation_axioms run_rules_op.policy_operation_axioms
  enabled_op.policy_operation_axioms dont_ask_op.policy_operation_axioms clear_op.policy_operation_axioms
  forget_op.policy_operation_axioms forget_args_op.policy_operation_axioms remember_op.policy_operation_axioms
  remember_key_op.policy_operation_axioms handler_op.policy_operation_axioms lookup_op.policy_operation_axioms
  new_op.policy_operation_axioms scope_op.policy_operation_axioms grant_op.policy_operation_axioms
  refresh_op.policy_operation_axioms)

definition perm_run :: "perm_env \<Rightarrow> perm_op list \<Rightarrow> perm_store \<Rightarrow> perm_store" where
  "perm_run e ops s = fold (perm_step e) ops s"

lemma perm_run_simps [simp]:
  "perm_run e [] s = s" "perm_run e (op # ops) s = perm_run e ops (perm_step e op s)"
  "perm_run e (ops @ [op]) s = perm_step e op (perm_run e ops s)"
  by (simp_all add: perm_run_def)

lemma run_grows: "ps_next s \<le> ps_next (perm_run e ops s)"
proof (induction ops arbitrary: s)
  case (Cons op ops)
  show ?case using le_trans[OF step.grows[of s e op] Cons.IH] by simp
qed simp

lemma run_revision:
  assumes "k < ps_next s"
  shows "\<exists>n \<le> length ops. pm_revision (ps_managers (perm_run e ops s) k) = pm_revision (ps_managers s k) + of_nat n \<and>
           (n = 0 \<longrightarrow> policy_of (ps_managers (perm_run e ops s) k) = policy_of (ps_managers s k))"
proof (induction ops rule: rev_induct)
  case (snoc op ops)
  then obtain n where n: "n \<le> length ops"
    "pm_revision (ps_managers (perm_run e ops s) k) = pm_revision (ps_managers s k) + of_nat n"
    "n = 0 \<longrightarrow> policy_of (ps_managers (perm_run e ops s) k) = policy_of (ps_managers s k)" by blast
  have "advances (ps_managers (perm_run e ops s) k) (ps_managers (perm_step e op (perm_run e ops s)) k)"
    using step.moves run_grows assms less_le_trans by blast
  then consider "pm_revision (ps_managers (perm_step e op (perm_run e ops s)) k) = pm_revision (ps_managers (perm_run e ops s) k)"
      "policy_of (ps_managers (perm_step e op (perm_run e ops s)) k) = policy_of (ps_managers (perm_run e ops s) k)"
    | "pm_revision (ps_managers (perm_step e op (perm_run e ops s)) k) = pm_revision (ps_managers (perm_run e ops s) k) + 1"
    unfolding advances_def by blast
  then show ?case
  proof cases
    case 1
    with n show ?thesis by (intro exI[of _ n]) simp
  next
    case 2
    with n show ?thesis by (intro exI[of _ "Suc n"]) (simp add: algebra_simps)
  qed
qed simp

lemma of_nat_word_zero: "n < 2 ^ 64 \<Longrightarrow> (of_nat n :: 64 word) = 0 \<Longrightarrow> n = 0"
  by (auto simp: word_of_nat_eq_0_iff dest: dvd_imp_le)

lemma run_same_revision:
  assumes "k < ps_next s" "length ops < 2 ^ 64"
    "pm_revision (ps_managers (perm_run e ops s) k) = pm_revision (ps_managers s k)"
  shows "policy_of (ps_managers (perm_run e ops s) k) = policy_of (ps_managers s k)"
proof -
  obtain n where n: "n \<le> length ops"
    "pm_revision (ps_managers (perm_run e ops s) k) = pm_revision (ps_managers s k) + of_nat n"
    "n = 0 \<longrightarrow> policy_of (ps_managers (perm_run e ops s) k) = policy_of (ps_managers s k)"
    using run_revision[OF assms(1), of ops e] by blast
  with assms(3) have "(of_nat n :: 64 word) = 0" by simp
  with of_nat_word_zero[of n] n assms(2) show ?thesis by simp
qed

section \<open>Approvals and the policy they were asked under\<close>

text \<open>While the handler waits for the user, other operations of the package run, fewer than \<open>2 ^ 64\<close> of them.\<close>

definition prompt_runs :: "perm_env \<Rightarrow> bool" where
  "prompt_runs e \<longleftrightarrow>
     (\<forall>h c req s. \<exists>ops. fst (pe_prompt e h c req s) = perm_run e ops s \<and> length ops < 2 ^ 64)"

lemma commit_answer_managers: "ps_managers (fst (commit_answer e rd c i t args w revision d s)) = ps_managers s"
  by (auto simp: commit_answer_def rememberKeyIfCurrent_def refuse_with_def Let_def split: decision.split)

lemma askUser_cases:
  assumes "cx_preflight c = None"
  obtains (refused) s1 why where "askUser e rd c i t args w revision s = refuse_with s1 why"
  | (answered) h req s1 d where "pm_promptHandler (ps_managers s i) = Some h" "pe_prompt e h c req s = (s1, Inr d)"
      "pm_revision (ps_managers s1 i) = revision"
      "askUser e rd c i t args w revision s = commit_answer e rd c i t args w revision d s1"
proof (cases "pm_promptHandler (ps_managers s i)")
  case None
  with assms show ?thesis by (intro refused) (simp add: askUser_def Let_def)
next
  case (Some h)
  define hint where "hint = sensitiveReadHint (sensitiveReadPaths (renv e) (canonicalInvocationTool c t) args w) w"
  define req where "req = (let q = NewRequest (renv e) (pe_risk e) t args in if hint \<noteq> [] then q\<lparr>rq_Reason := hint\<rparr> else q)"
  obtain s1 a where p: "pe_prompt e h c req s = (s1, a)" by fastforce
  then have ask: "askUser e rd c i t args w revision s =
      (case a of Inl err \<Rightarrow> refuse_with s1 (if hint \<noteq> [] then hint else err)
       | Inr d \<Rightarrow> if pm_revision (ps_managers s1 i) \<noteq> revision
                  then refuse_with s1 (changed_error ''changed while approval'' t ''pending'')
                  else commit_answer e rd c i t args w revision d s1)"
    unfolding askUser_def Let_def assms Some option.case hint_def[symmetric]
    by (simp only: p prod.case req_def[unfolded Let_def, symmetric])
  show ?thesis
  proof (cases a)
    case (Inl err)
    with ask show ?thesis by (intro refused) simp
  next
    case (Inr d)
    with ask p Some refused answered show ?thesis by (cases "pm_revision (ps_managers s1 i) = revision") auto
  qed
qed

text \<open>
  C9: A decision counts only for the policy it was asked under. If other operations change the rules, the mode,
  the run-scoped rules or revoke the session decisions while the user is being asked, the answer is refused with an
  error; so whenever the manager acts on the answer, its own policy is the one the question was asked under, however
  the operations were interleaved with the prompt. This is the policy of the manager that asks: in a derived scope a
  change at the parent is not seen (\<open>late_approval_under_grant\<close>).
\<close>

theorem answers_match_policy:
  assumes "prompt_runs e" "i < ps_next s" "cx_preflight c = None"
    "askUser e rd c i t args w (pm_revision (ps_managers s i)) s = (s', r, err)"
  shows "err \<noteq> None \<and> \<not> rs_Allowed r \<and> rs_Decision r = DecisionDeny \<or>
         policy_of (ps_managers s' i) = policy_of (ps_managers s i)"
  using assms(3)
proof (cases rule: askUser_cases[of c e rd i t args w "pm_revision (ps_managers s i)" s])
  case (answered h req s1 d)
  obtain ops where ops: "s1 = perm_run e ops s" "length ops < 2 ^ 64"
    using assms(1) answered(2) unfolding prompt_runs_def by (metis fst_conv)
  have "policy_of (ps_managers s1 i) = policy_of (ps_managers s i)"
    using run_same_revision[OF assms(2) ops(2), of e] answered(3) ops(1) by simp
  moreover have "ps_managers s' = ps_managers s1"
    using commit_answer_managers[of e rd c i t args w "pm_revision (ps_managers s i)" d s1] answered(4) assms(4)
    by (metis fst_conv)
  ultimately show ?thesis by simp
qed (use assms(4) in \<open>auto simp: refuse_with_def\<close>)

text \<open>A handler during which another part of the program denies \<open>bash\<close>, before the user clicks.\<close>

definition deny_bash :: perm_rules where
  "deny_bash = SetPolicy DefaultRules ''bash'' LevelDeny"

definition busy_env :: perm_env where
  "busy_env = plain_env\<lparr>pe_prompt := (\<lambda>h c req s. (SetRules 0 (Some deny_bash) s, Inr DecisionAllow))\<rparr>"

lemma busy_env_runs: "prompt_runs busy_env"
  unfolding prompt_runs_def
proof (intro allI)
  fix h c req s
  show "\<exists>ops. fst (pe_prompt busy_env h c req s) = perm_run busy_env ops s \<and> length ops < 2 ^ 64"
    by (rule exI[of _ "[OpSetRules 0 (Some deny_bash)]"]) (simp add: busy_env_def)
qed

theorem answers_match_policy_witness:
  "(let (s', r, err) = askUser busy_env plain_readings background 0 ''bash'' [(''command'', AString ''ls'')] [] 1 (one_manager DefaultRules True)
    in err \<noteq> None \<and> \<not> rs_Allowed r \<and> rs_Decision r = DecisionDeny \<or>
       policy_of (ps_managers s' 0) = policy_of (ps_managers (one_manager DefaultRules True) 0))"
  using answers_match_policy[of busy_env 0 "one_manager DefaultRules True" background plain_readings "''bash''"
      "[(''command'', AString ''ls'')]" "[]", OF busy_env_runs one_manager_wf(2) _ triple_eq]
  by (simp add: background_def one_manager_def Let_def split_def)

section \<open>Revocation\<close>

text \<open>The operations after which no session decision of manager \<open>i\<close> may count.\<close>

fun revokes :: "nat \<Rightarrow> perm_op \<Rightarrow> perm_store \<Rightarrow> bool" where
  "revokes i (OpSetRules j _) s = (j = i)"
| "revokes i (OpSetRunToolRules j _ _) s = (j = i)"
| "revokes i (OpSetEnabled j b) s = (j = i \<and> pm_enabled (ps_managers s i) \<noteq> b)"
| "revokes i (OpSetDontAsk j b) s = (j = i \<and> pm_dontAsk (ps_managers s i) \<noteq> b)"
| "revokes i (OpClearSession j) s = (j = i)"
| "revokes i (OpForget j _) s = (j = i)"
| "revokes i (OpForgetWithArgs j _ _) s = (j = i)"
| "revokes i _ s = False"

lemma session_decision_cleared: "session_decision i key now (session_Clear i s) = None"
  by (simp add: session_decision_def session_Clear_def Let_def lru_Clear_def)

lemma revoked: "revokes i op s \<Longrightarrow> session_decision i key now (perm_step e op s) = None"
  by (cases op) (auto simp: SetRules_def SetRunToolRules_def perm_SetEnabled_def SetDontAsk_def ClearSession_def Forget_def
      ForgetWithArgs_def Let_def session_decision_cleared)

lemma prompt_irrelevant:
  "renv (e\<lparr>pe_prompt := f\<rparr>) = renv e" "call_key (e\<lparr>pe_prompt := f\<rparr>) c t args = call_key e c t args"
  "hook_asks (e\<lparr>pe_prompt := f\<rparr>) c t args = hook_asks e c t args"
  "run_denied (e\<lparr>pe_prompt := f\<rparr>) c m t args = run_denied e c m t args"
  "credential_read (e\<lparr>pe_prompt := f\<rparr>) c t args = credential_read e c t args"
proof -
  have fields: "pe_Marshal (e\<lparr>pe_prompt := f\<rparr>) = pe_Marshal e" "pe_MarshalStrings (e\<lparr>pe_prompt := f\<rparr>) = pe_MarshalStrings e"
    "pe_Hash8 (e\<lparr>pe_prompt := f\<rparr>) = pe_Hash8 e" "pe_GoSyntax (e\<lparr>pe_prompt := f\<rparr>) = pe_GoSyntax e"
    "renv (e\<lparr>pe_prompt := f\<rparr>) = renv e"
    by (simp_all add: renv_def)
  show "renv (e\<lparr>pe_prompt := f\<rparr>) = renv e" "call_key (e\<lparr>pe_prompt := f\<rparr>) c t args = call_key e c t args"
    "hook_asks (e\<lparr>pe_prompt := f\<rparr>) c t args = hook_asks e c t args"
    "run_denied (e\<lparr>pe_prompt := f\<rparr>) c m t args = run_denied e c m t args"
    "credential_read (e\<lparr>pe_prompt := f\<rparr>) c t args = credential_read e c t args"
    unfolding call_key_def cacheKeyWithWorkDir_def hook_asks_def hookDecisionFor_def run_denied_def credential_read_def fields
    by (rule refl)+
qed

text \<open>
  C11: A session approval is remembered and can be taken back. When the user approves a call for the session, the
  next check of the same call passes without asking again, whatever the handler would answer, for the time to
  live of the entry (unless a hook asks or a deny rule covers the call); and after any change of the rules or the mode
  and any revocation no session decision is left, for any call.
\<close>

theorem session_approval_round_trip:
  assumes "commit_answer e rd c i t args (cx_workDir c) (pm_revision (ps_managers s i)) DecisionAllowSession s = (s', r, err)"
    "lru_inv (ps_caches s (pm_sessionCache (ps_managers s i)))" "pm_parent (ps_managers s i) = None"
    "rd_cleanup rd \<le> rd_set rd + lru_ttl (ps_caches s (pm_sessionCache (ps_managers s i)))"
    "rd_session rd' \<le> rd_set rd + lru_ttl (ps_caches s (pm_sessionCache (ps_managers s i)))"
    "\<not> run_denied e c (ps_managers s i) t args" "\<not> config_denied c (ps_managers s i) t" "\<not> hook_asks e c t args"
  shows "rs_Allowed r \<and> rs_Allowed (fst (snd (perm_Check (e\<lparr>pe_prompt := f\<rparr>) rd' c i t args s'))) \<and>
         (\<forall>op key now. revokes i op s' \<longrightarrow> session_decision i key now (perm_step e op s') = None)"
proof -
  let ?a = "pm_sessionCache (ps_managers s i)" and ?k = "call_key e c t args" and ?e = "e\<lparr>pe_prompt := f\<rparr>"
  let ?v = "\<lparr>cd_Decision = DecisionAllowSession, cd_Revision = pm_revision (ps_managers s i)\<rparr>"
  have s': "s' = put_cache ?a (lru_Set (ps_caches s ?a) ?k ?v (rd_set rd) (rd_cleanup rd)) s" "rs_Allowed r"
    using assms(1) by (auto simp: commit_answer_def rememberKeyIfCurrent_def session_Set_def call_key_def Let_def)
  have same: "renv ?e = renv e" "call_key ?e c t args = ?k" "hook_asks ?e c t args = hook_asks e c t args"
    "run_denied ?e c m t args = run_denied e c m t args" "credential_read ?e c t args = credential_read e c t args" for m
    by (simp_all only: prompt_irrelevant)
  have m: "ps_managers s' = ps_managers s" by (simp add: s'(1))
  have "snd (session_Get i ?k (rd_session rd') s') = Some ?v"
    using set_then_get[OF assms(2,4,5), of ?k ?v] by (simp add: session_Get_def s'(1) Let_def split_def)
  then have v: "session_verdict (snd (session_Get i ?k (rd_session rd') s')) (pm_revision (ps_managers s i)) False =
      Some (respond True DecisionAllowSession [])"
    by (simp add: session_verdict_def)
  have "rs_Allowed (fst (snd (check_current ?e rd' c i t args (cx_workDir c) s')))"
  proof -
    consider (off) "\<not> pm_enabled (ps_managers s' i) \<and> \<not> credential_read ?e c t args"
      | (plain) "effective_policy c (ps_managers s' i) t = LevelAllow \<and> \<not> floored ?e c t args"
      | (looked) "\<not> (\<not> pm_enabled (ps_managers s' i) \<and> \<not> credential_read ?e c t args)"
          "\<not> (effective_policy c (ps_managers s' i) t = LevelAllow \<and> \<not> floored ?e c t args)"
      by blast
    then show ?thesis
    proof cases
      case looked
      have "\<not> run_denied ?e c (ps_managers s' i) t args" "\<not> config_denied c (ps_managers s' i) t"
        using assms(6,7) by (simp_all add: same m)
      from check_current_open[OF this looked, of rd'] v show ?thesis
        by (simp add: same m assms(8) split_def)
    qed (use assms(6,7) same m in \<open>auto simp: check_current_def run_denied_def config_denied_def effective_policy_def
          credential_read_def floored_def hook_asks_def Let_def\<close>)
  qed
  moreover have "perm_Check ?e rd' c i t args s' = check_current ?e rd' c i t args (cx_workDir c) s'"
    using assms(3) by (intro root_check) (simp add: m)
  ultimately show ?thesis using s'(2) by (simp add: revoked)
qed

theorem session_approval_round_trip_witness:
  "rs_Allowed (fst (snd (perm_Check (plain_env\<lparr>pe_prompt := (\<lambda>h c req s. (s, Inl ''gone''))\<rparr>) plain_readings background 0 ''bash''
     [(''command'', AString ''sudo ls'')]
     (fst (commit_answer plain_env plain_readings background 0 ''bash'' [(''command'', AString ''sudo ls'')] [] 1 DecisionAllowSession
        (one_manager DefaultRules True))))))"
proof -
  have wd: "cx_workDir background = []" "pm_revision (ps_managers (one_manager DefaultRules True) 0) = 1"
    by (simp_all add: background_def one_manager_def Let_def)
  show ?thesis
    using session_approval_round_trip[OF triple_eq, where e = plain_env and rd = plain_readings and c = background and i = 0
        and t = "''bash''" and args = "[(''command'', AString ''sudo ls'')]" and s = "one_manager DefaultRules True"
        and rd' = plain_readings and f = "\<lambda>h c req s. (s, Inl ''gone'')"]
    unfolding wd
    by (simp add: one_manager_def Let_def NewLRUCache_def lru_inv_def lru_rep_def plain_readings_def minute_def run_denied_def
        TemporaryToolRulesDenyWithIdentity_def TemporaryToolRulesDeny_def config_denied_def background_def invocationToolPolicy_def
        canonicalInvocationTool_def DefaultRules_def default_allowed_def default_asked_def hook_asks_def hookDecisionFor_def)
qed

end
