(* ===== verification/PermScope.thy ===== *)
theory PermScope
  imports PermRevision
begin

text \<open>
  Scoped permission managers: the scope of an approved plan step (\<open>approvedPlanStepPermissions\<close> in
  \<open>internal/agent/runner_spawn.go\<close>) lives as long as the step and follows its parent through \<open>refreshFromParent\<close>; the
  scope of a skill grant lives for one call. The first is proved to observe every deny of its parent. Two
  results show where the second does not: a scope made inside a scope looks one level up only, and an answer given in
  a scope is compared with the scope's own revision.
\<close>

section \<open>A scope in step with its parent\<close>

definition approvedPlanStepPermissionOverrides :: "(string \<times> level) list" where
  "approvedPlanStepPermissionOverrides =
     [(''write'', LevelAllow), (''edit'', LevelAllow), (''copy'', LevelAllow), (''move'', LevelAllow), (''mkdir'', LevelAllow),
      (''run_tests'', LevelAllow)]"

definition approvedPlanStepPermissions :: "nat \<Rightarrow> time \<Rightarrow> perm_store \<Rightarrow> perm_store \<times> nat" where
  "approvedPlanStepPermissions i now s = WithPolicyOverrides i approvedPlanStepPermissionOverrides now s"

definition derived :: "perm_manager \<Rightarrow> perm_manager \<Rightarrow> bool" where
  "derived m p \<longleftrightarrow> pm_rules m = apply_overrides (pm_overrides m) (pm_rules p) \<and>
     pm_runAllows m = pm_runAllows p \<and> pm_runDenies m = pm_runDenies p"

text \<open>The parent is at most \<open>N\<close> revisions ahead of what the scope has seen, and with none ahead the scope is derived.\<close>

definition lagging :: "nat \<Rightarrow> nat \<Rightarrow> nat \<Rightarrow> perm_store \<Rightarrow> bool" where
  "lagging i j N s \<longleftrightarrow>
     pm_parent (ps_managers s j) = Some i \<and>
     (\<exists>n \<le> N. pm_revision (ps_managers s i) = pm_parentRevision (ps_managers s j) + of_nat n \<and>
        (n = 0 \<longrightarrow> derived (ps_managers s j) (ps_managers s i)))"

text \<open>The operations that write the rules of manager \<open>j\<close> itself, which nothing does to a scope.\<close>

fun writes_rules :: "nat \<Rightarrow> perm_op \<Rightarrow> bool" where
  "writes_rules j (OpSetRules k _) = (k = j)"
| "writes_rules j (OpSetRunToolRules k _ _) = (k = j)"
| "writes_rules j _ = False"

fun refreshes :: "nat \<Rightarrow> perm_op \<Rightarrow> bool" where
  "refreshes j (OpRefresh _ _ k _ _ _) = (k = j)"
| "refreshes j _ = False"

definition scope_part ::
    "perm_manager \<Rightarrow> nat option \<times> (string \<times> level) list \<times> 64 word \<times> perm_rules \<times> string list \<times> string list" where
  "scope_part m = (pm_parent m, pm_overrides m, pm_parentRevision m, pm_rules m, pm_runAllows m, pm_runDenies m)"

lemma refreshed_scope_part: "\<not> scope_changed m p \<Longrightarrow> scope_part (refreshed m p) = scope_part m"
  by (simp add: refreshed_def scope_part_def)

lemma refreshed_derived:
  assumes "scope_changed m p \<or> derived m p"
  shows "derived (refreshed m p) p" "pm_enabled (refreshed m p) = pm_enabled p"
  using assms by (auto simp: refreshed_def derived_def scope_changed_def)

lemma step_scope_part:
  assumes "j < ps_next s" "\<not> writes_rules j op" "\<not> refreshes j op"
  shows "scope_part (ps_managers (perm_step e op s) j) = scope_part (ps_managers s j)"
  using assms
  by (cases op) (auto simp: scope_part_def SetRules_def SetRunToolRules_def perm_SetEnabled_def SetDontAsk_def ClearSession_def
      Forget_def ForgetWithArgs_def RememberWithArgs_def rememberKeyIfCurrent_def SetPromptHandler_def perm_NewManager_def
      WithPolicyOverrides_def bump_def refresh_managers Let_def split: option.split)

lemma derived_scope_part:
  "scope_part m = scope_part m' \<Longrightarrow> policy_of p = policy_of p' \<Longrightarrow> derived m p = derived m' p'"
  by (simp add: scope_part_def policy_of_def derived_def)

lemma lagging_step:
  assumes "lagging i j N s" "i < ps_next s" "j < ps_next s" "i \<noteq> j" "\<not> writes_rules j op"
  shows "lagging i j (Suc N) (perm_step e op s)"
proof -
  let ?m = "ps_managers s j" and ?p = "ps_managers s i"
  obtain n where n: "pm_parent ?m = Some i" "n \<le> N" "pm_revision ?p = pm_parentRevision ?m + of_nat n" "n = 0 \<longrightarrow> derived ?m ?p"
    using assms(1) unfolding lagging_def by blast
  show ?thesis
  proof (cases "refreshes j op")
    case True
    then have m': "ps_managers (perm_step e op s) = (ps_managers s)(j := refreshed ?m ?p)"
      using n(1) by (cases op) (auto simp: refresh_managers)
    show ?thesis
    proof (cases "scope_changed ?m ?p")
      case True
      then have "derived (refreshed ?m ?p) ?p" "pm_parentRevision (refreshed ?m ?p) = pm_revision ?p" "pm_parent (refreshed ?m ?p) = Some i"
        using refreshed_derived(1)[of ?m ?p] n(1) by (auto simp: refreshed_def)
      then show ?thesis using assms(4) by (auto simp: lagging_def m' intro!: exI[of _ 0])
    next
      case False
      then have part: "scope_part (refreshed ?m ?p) = scope_part ?m" by (rule refreshed_scope_part)
      from derived_scope_part[OF this refl, of ?p] part n assms(4) show ?thesis
        unfolding lagging_def m' by (intro conjI exI[of _ n]) (simp_all add: scope_part_def)
    qed
  next
    case False
    then have part: "scope_part (ps_managers (perm_step e op s) j) = scope_part ?m"
      using step_scope_part[OF assms(3,5)] by simp
    have "advances ?p (ps_managers (perm_step e op s) i)" by (rule step.moves[OF assms(2)])
    then consider "pm_revision (ps_managers (perm_step e op s) i) = pm_revision ?p" "policy_of (ps_managers (perm_step e op s) i) = policy_of ?p"
      | "pm_revision (ps_managers (perm_step e op s) i) = pm_revision ?p + 1"
      unfolding advances_def by blast
    then show ?thesis
    proof cases
      case 1
      with n part derived_scope_part[OF part 1(2)] show ?thesis
        unfolding lagging_def by (intro conjI exI[of _ n]) (simp_all add: scope_part_def)
    next
      case 2
      with n part show ?thesis
        unfolding lagging_def by (intro conjI exI[of _ "Suc n"]) (simp_all add: scope_part_def algebra_simps)
    qed
  qed
qed

lemma lagging_run:
  assumes "lagging i j N s" "i < ps_next s" "j < ps_next s" "i \<noteq> j" "\<not> list_ex (writes_rules j) ops"
  shows "lagging i j (N + length ops) (perm_run e ops s)"
  using assms
proof (induction ops arbitrary: s N)
  case (Cons op ops)
  have "lagging i j (Suc N + length ops) (perm_run e ops (perm_step e op s))"
  proof (rule Cons.IH)
    show "lagging i j (Suc N) (perm_step e op s)" by (rule lagging_step) (use Cons.prems in auto)
    show "i < ps_next (perm_step e op s)" "j < ps_next (perm_step e op s)"
      using Cons.prems(2,3) step.grows[of s e op] by (auto intro: less_le_trans)
  qed (use Cons.prems in auto)
  then show ?case by simp
qed simp

lemma new_scope_lagging:
  assumes "i < ps_next s"
  shows "lagging i (ps_next s) 0 (fst (WithPolicyOverrides i os now s))"
  using assms by (simp add: lagging_def derived_def WithPolicyOverrides_def perm_NewManager_def Let_def)

lemma refresh_not_denied:
  assumes "refreshFromParent e rd c j t args (cx_workDir c) s = (s1, None)" "pm_parent (ps_managers s j) = Some i"
  shows "\<not> config_denied c (ps_managers s i) t"
  using assms by (auto simp: refreshFromParent_def config_denied_def Let_def split: if_splits prod.splits)

text \<open>
  C10: The parent of a plan step's scope stays the authority over it. Whatever operations run after the scope was made
  (changes of the parent's rules, mode and run-scoped rules, other scopes, other checks), a call the scope's check lets
  through is covered neither by a run-scoped deny rule the parent has now nor by a deny policy it has now.
\<close>

theorem scope_follows_parent:
  assumes "i < ps_next s0" "s = perm_run e ops (fst (WithPolicyOverrides i overrides now s0))" "j = ps_next s0"
    "length ops < 2 ^ 64" "\<not> list_ex (writes_rules j) ops" "cx_preflight c = None"
    "perm_Check e rd c j t args s = (s', r, err)" "rs_Allowed r"
  shows "\<not> run_denied e c (ps_managers s i) t args \<and> \<not> config_denied c (ps_managers s i) t"
proof -
  let ?p = "ps_managers s i" and ?m = "ps_managers s j"
  have "i < ps_next (fst (WithPolicyOverrides i overrides now s0))" "j < ps_next (fst (WithPolicyOverrides i overrides now s0))" "i \<noteq> j"
    using assms(1,3) by (simp_all add: WithPolicyOverrides_def perm_NewManager_def Let_def)
  from lagging_run[OF new_scope_lagging[OF assms(1), of overrides now], of ops e] this assms(3,5) assms(2)
  have "lagging i j (length ops) s" by simp
  then obtain n where n: "pm_parent ?m = Some i" "n < 2 ^ 64" "pm_revision ?p = pm_parentRevision ?m + of_nat n" "n = 0 \<longrightarrow> derived ?m ?p"
    using assms(4) unfolding lagging_def by (metis le_less_trans)
  then have dv: "scope_changed ?m ?p \<or> derived ?m ?p"
    using of_nat_word_zero[of n] by (auto simp: scope_changed_def)
  obtain s1 res where ref: "refreshFromParent e rd c j t args (cx_workDir c) s = (s1, res)" by fastforce
  show ?thesis
  proof (cases res)
    case None
    have "check_current e rd c j t args (cx_workDir c) s1 = (s', r, err)" using assms(7) ref None by (simp add: perm_Check_def)
    from check_current_allowed[OF this assms(8,6)] have "\<not> run_denied e c (ps_managers s1 j) t args" by simp
    moreover have "ps_managers s1 j = refreshed ?m ?p"
      using refresh_managers(2)[of e rd c j t args "cx_workDir c" s] ref n(1) by simp
    ultimately show ?thesis
      using refreshed_derived(1)[OF dv] refresh_not_denied[OF _ n(1)] ref None by (simp add: run_denied_def derived_def)
  next
    case (Some d)
    then show ?thesis using assms(7,8) ref n(1)
      by (auto simp: perm_Check_def refreshFromParent_def Let_def split: if_splits prod.splits option.splits)
  qed
qed

text \<open>
  A skill grant inside a plan step's scope misses a deny of the session's manager. The step's scope is made while
  \<open>bash\<close> is asked; then the session's manager denies \<open>bash\<close>. The plain check of the step refuses the call, as it must,
  but with a skill grant the scope of the grant is derived from the step's scope as it was last refreshed, and
  the call runs without a question.
\<close>

theorem nested_grant_misses_deny:
  "(let s1 = fst (approvedPlanStepPermissions 0 0 (one_manager DefaultRules True));
        s2 = SetRules 0 (Some deny_bash) s1;
        args = [(''command'', AString ''make'')]
    in config_denied background (ps_managers s2 0) ''bash'' \<and>
       \<not> rs_Allowed (fst (snd (CheckWithTemporaryToolRules plain_env plain_readings background 1 ''bash'' args [] [] s2))) \<and>
       fst (snd (CheckWithTemporaryToolRules plain_env plain_readings background 1 ''bash'' args [''bash''] [] s2)) =
         respond True DecisionAllow [])"
  by code_simp

text \<open>
  A late approval beats a deny in the scope of a skill grant. While the user is asked about a command under a
  skill grant, \<open>bash\<close> is denied; the answer is compared with the revision of the call's own scope, which did not
  move, and the command runs. Without the grant the same answer is refused.
\<close>

theorem late_approval_under_grant:
  "(let args = [(''command'', AString ''sudo ls'')];
        granted = CheckWithTemporaryToolRules busy_env plain_readings background 0 ''bash'' args [''bash''] [] (one_manager DefaultRules True);
        plain = CheckWithTemporaryToolRules busy_env plain_readings background 0 ''bash'' args [] [] (one_manager DefaultRules True)
    in config_denied background (ps_managers (fst granted) 0) ''bash'' \<and> rs_Allowed (fst (snd granted)) \<and>
       config_denied background (ps_managers (fst plain) 0) ''bash'' \<and> \<not> rs_Allowed (fst (snd plain)) \<and> snd (snd plain) \<noteq> None)"
  by code_simp

theorem scope_follows_parent_witness:
  "\<not> run_denied plain_env background (ps_managers (perm_run plain_env [OpSetDontAsk 0 True]
       (fst (WithPolicyOverrides 0 [] 0 (one_manager DefaultRules True)))) 0) ''read'' [] \<and>
   \<not> config_denied background (ps_managers (perm_run plain_env [OpSetDontAsk 0 True]
       (fst (WithPolicyOverrides 0 [] 0 (one_manager DefaultRules True)))) 0) ''read''"
proof -
  have a: "rs_Allowed (fst (snd (perm_Check plain_env plain_readings background (ps_next (one_manager DefaultRules True)) ''read'' []
      (perm_run plain_env [OpSetDontAsk 0 True] (fst (WithPolicyOverrides 0 [] 0 (one_manager DefaultRules True)))))))"
    by code_simp
  show ?thesis
    by (rule scope_follows_parent[OF one_manager_wf(2) refl refl _ _ _ triple_eq a]) (simp_all add: background_def)
qed

end
