(* ===== verification/JsonText.thy ===== *)
theory JsonText
  imports GoRunes
begin

text \<open>
  A string through \<open>encoding/json\<close>: \<open>Marshal\<close> replaces each byte of an ill-formed UTF-8 sequence by the replacement
  character, and \<open>Unmarshal\<close> gives back what was written, so that a string comes back as \<open>json_text\<close>. Well-formed
  text comes back unchanged.
\<close>

definition json_text :: "string \<Rightarrow> string" where
  "json_text s = of_runes (to_runes s)"

section \<open>Decoded runes\<close>

lemma byte_less: "byte c < 256"
  by (simp add: byte_def)

lemma char_of_byte [simp]: "char_of (byte c) = c"
  by (simp add: byte_def)

lemma digit_of:
  assumes "lo \<le> b" "b < lo + n" "lo mod n = (0::nat)"
  shows "b = lo + b mod n"
proof -
  have "b mod n = (lo + (b - lo)) mod n" using assms(1) by simp
  also have "\<dots> = (b - lo) mod n" using assms(3) by (metis add_0 mod_add_left_eq)
  also have "\<dots> = b - lo" using assms(1,2) by (intro mod_less) linarith
  finally show ?thesis using assms(1) by simp
qed

lemma digit_split: "r = q * 64 + y \<Longrightarrow> y < 64 \<Longrightarrow> r div 64 = q \<and> r mod 64 = (y::nat)"
  by simp

lemma cont_bounds: "cont c \<Longrightarrow> byte c = 128 + byte c mod 64"
  by (rule digit_of) (simp_all add: cont_def)

lemma decode_3_form:
  assumes "0xE0 \<le> b" "b \<le> 0xEF" "second_ok b c1" "cont c2" "c0 = char_of b"
  shows "let r = (b mod 16) * 4096 + (byte c1 mod 64) * 64 + byte c2 mod 64
         in scalar r \<and> encode_rune r = [c0, c1, c2]"
proof -
  define a x y where "a = b mod 16" and "x = byte c1 mod 64" and "y = byte c2 mod 64"
  have b: "b = 224 + a" "a < 16" using assms(1,2) digit_of [of 224 b 16] by (simp_all add: a_def)
  have c2: "byte c2 = 128 + y" "y < 64" using cont_bounds [OF assms(4)] by (simp_all add: y_def)
  have "128 \<le> byte c1" "byte c1 \<le> 191" "a = 0 \<longrightarrow> 160 \<le> byte c1" "a = 13 \<longrightarrow> byte c1 \<le> 159"
    using assms(3) b unfolding second_ok_def second_low_def second_high_def by (auto split: if_splits)
  then have c1: "byte c1 = 128 + x" "x < 64" "a = 0 \<longrightarrow> 32 \<le> x" "a = 13 \<longrightarrow> x < 32"
    using digit_of [of 128 "byte c1" 64] by (auto simp: x_def)
  define r where "r = a * 4096 + x * 64 + y"
  have big: "0x800 \<le> r" "r < 0x10000" using b(2) c1(2,3) c2(2) unfolding r_def by (cases "a = 0"; simp)+
  have sc: "scalar r" using b(2) c1(2,4) c2(2) unfolding r_def scalar_def by (cases "a = 13"; cases "a < 13") auto
  have "r = (a * 64 + x) * 64 + y" by (simp add: r_def)
  then have d: "r div 64 = a * 64 + x" "r mod 64 = y" using digit_split c2(2) by blast+
  have "r div 4096 = r div 64 div 64" by (simp add: div_mult2_eq [symmetric])
  then have d2: "r div 4096 = a" "(r div 64) mod 64 = x" using d c1(2) by auto
  have "encode_rune r = [char_of (224 + a), char_of (128 + x), char_of (128 + y)]"
    using sc big d2 d unfolding encode_rune_def encode_scalar_def by simp
  also have "\<dots> = [c0, c1, c2]" using assms(5) b(1) c1(1) c2(1) by (metis char_of_byte)
  finally show ?thesis using sc by (simp add: Let_def r_def a_def x_def y_def)
qed

lemma decode_2_form:
  assumes "0xC2 \<le> b" "b \<le> 0xDF" "cont c1" "c0 = char_of b"
  shows "let r = (b mod 32) * 64 + byte c1 mod 64 in scalar r \<and> encode_rune r = [c0, c1]"
proof -
  define a x where "a = b mod 32" and "x = byte c1 mod 64"
  have b: "b = 192 + a" "2 \<le> a" "a < 32" using assms(1,2) digit_of [of 192 b 32] by (simp_all add: a_def)
  have c1: "byte c1 = 128 + x" "x < 64" using cont_bounds [OF assms(3)] by (simp_all add: x_def)
  define r where "r = a * 64 + x"
  have "scalar r" "128 \<le> r" "r < 0x800" "r div 64 = a" "r mod 64 = x" using b c1 by (auto simp: r_def scalar_def)
  then have "encode_rune r = [char_of (192 + a), char_of (128 + x)]" unfolding encode_rune_def encode_scalar_def by simp
  also have "\<dots> = [c0, c1]" using assms(4) b(1) c1(1) by (metis char_of_byte)
  finally show ?thesis using \<open>scalar r\<close> by (simp add: Let_def r_def a_def x_def)
qed

lemma decode_4_form:
  assumes "0xF0 \<le> b" "b \<le> 0xF4" "second_ok b c1" "cont c2" "cont c3" "c0 = char_of b"
  shows "let r = (b mod 8) * 262144 + (byte c1 mod 64) * 4096 + (byte c2 mod 64) * 64 + byte c3 mod 64
         in scalar r \<and> encode_rune r = [c0, c1, c2, c3]"
proof -
  define a x y z where "a = b mod 8" and "x = byte c1 mod 64" and "y = byte c2 mod 64" and "z = byte c3 mod 64"
  have b: "b = 240 + a" "a \<le> 4" using assms(1,2) digit_of [of 240 b 8] by (simp_all add: a_def)
  have c2: "byte c2 = 128 + y" "y < 64" "byte c3 = 128 + z" "z < 64"
    using cont_bounds [OF assms(4)] cont_bounds [OF assms(5)] by (simp_all add: y_def z_def)
  have "128 \<le> byte c1" "byte c1 \<le> 191" "a = 0 \<longrightarrow> 144 \<le> byte c1" "a = 4 \<longrightarrow> byte c1 \<le> 143"
    using assms(3) b unfolding second_ok_def second_low_def second_high_def by (auto split: if_splits)
  then have c1: "byte c1 = 128 + x" "x < 64" "a = 0 \<longrightarrow> 16 \<le> x" "a = 4 \<longrightarrow> x < 16"
    using digit_of [of 128 "byte c1" 64] by (auto simp: x_def)
  define r where "r = a * 262144 + x * 4096 + y * 64 + z"
  have big: "0x10000 \<le> r" using c1(3) unfolding r_def by (cases "a = 0") auto
  have "r \<le> 0x10FFFF" using b(2) c1(2,4) c2(2,4) unfolding r_def by (cases "a = 4") auto
  then have sc: "scalar r" using big by (simp add: scalar_def)
  have "r = ((a * 64 + x) * 64 + y) * 64 + z" by (simp add: r_def)
  then have d: "r div 64 = (a * 64 + x) * 64 + y" "r mod 64 = z" using digit_split c2(4) by blast+
  then have d2: "r div 64 div 64 = a * 64 + x" "(r div 64) mod 64 = y" using digit_split c2(2) by blast+
  then have d3: "r div 64 div 64 div 64 = a" "(r div 64 div 64) mod 64 = x" using digit_split c1(2) by blast+
  have "encode_rune r = [char_of (240 + a), char_of (128 + x), char_of (128 + y), char_of (128 + z)]"
    using sc big d d2 d3 unfolding encode_rune_def encode_scalar_def digits_64(1,2) by simp
  also have "\<dots> = [c0, c1, c2, c3]" using assms(6) b(1) c1(1) c2(1,3) by (metis char_of_byte)
  finally show ?thesis using sc by (simp add: Let_def r_def a_def x_def y_def z_def)
qed

text \<open>A decoded rune is a scalar value, and unless it is the replacement character its encoding is what was read.\<close>

lemma decode_form:
  assumes "decode_rune (c0 # cs) = (r, w)"
  shows "scalar r" "r = RuneError \<or> encode_rune r = take w (c0 # cs)"
proof -
  have c0: "c0 = char_of (byte c0)" by simp
  have err: "scalar RuneError" by (simp add: RuneError_def scalar_def)
  have ascii: "scalar (byte c0)" "encode_rune (byte c0) = [c0]" if "byte c0 < 128"
    using that by (auto simp: scalar_def encode_rune_def encode_scalar_def)
  show "scalar r" "r = RuneError \<or> encode_rune r = take w (c0 # cs)"
    using assms err ascii
      decode_2_form [OF _ _ _ c0, unfolded Let_def] decode_3_form [OF _ _ _ _ c0, unfolded Let_def]
      decode_4_form [OF _ _ _ _ _ c0, unfolded Let_def]
    unfolding decode_rune.simps(2) Let_def
    by (auto split: if_splits list.splits)
qed

lemma to_runes_scalar: "list_all scalar (to_runes s)"
proof (induction s rule: to_runes.induct)
  case (2 c cs)
  then show ?case using decode_form(1) [of c cs] by (simp add: prod_eq_iff)
qed simp

lemma of_runes_Cons: "of_runes (r # rs) = encode_rune r @ of_runes rs"
  by (simp add: of_runes_def)

lemma of_to_runes: "RuneError \<notin> set (to_runes s) \<Longrightarrow> of_runes (to_runes s) = s"
proof (induction s rule: to_runes.induct)
  case (2 c cs)
  let ?w = "snd (decode_rune (c # cs))"
  have "encode_rune (fst (decode_rune (c # cs))) = take ?w (c # cs)"
    using decode_form(2) [of c cs "fst (decode_rune (c # cs))" ?w] 2(2) by auto
  then show ?case using 2 by (simp add: of_runes_Cons del: take_Suc_Cons)
qed (simp add: of_runes_def)

section \<open>Text through JSON\<close>

lemma to_runes_json [simp]: "to_runes (json_text s) = to_runes s"
  by (simp add: json_text_def to_runes_of_runes to_runes_scalar)

lemma json_text_idem [simp]: "json_text (json_text s) = json_text s"
  by (simp add: json_text_def [of "json_text s"]) (simp add: json_text_def)

lemma json_text_valid: "RuneError \<notin> set (to_runes s) \<Longrightarrow> json_text s = s"
  by (simp add: json_text_def of_to_runes)

lemma to_runes_ascii: "list_all (\<lambda>c. byte c < 0x80) s \<Longrightarrow> to_runes s = map byte s"
  by (induction s) (simp_all add: decode_rune.simps(2) Let_def)

lemma json_text_ascii: "list_all (\<lambda>c. byte c < 0x80) s \<Longrightarrow> json_text s = s"
  by (rule json_text_valid) (auto simp: to_runes_ascii RuneError_def list_all_iff)

section \<open>Blank text\<close>

definition space_runes :: "nat list" where
  "space_runes = [0x09, 0x0A, 0x0B, 0x0C, 0x0D, 0x20, 0x85, 0xA0, 0x1680, 0x2000, 0x2001, 0x2002, 0x2003, 0x2004, 0x2005, 0x2006,
     0x2007, 0x2008, 0x2009, 0x200A, 0x2028, 0x2029, 0x202F, 0x205F, 0x3000]"

lemma space_encodings_runes: "space_encodings = map encode_rune space_runes"
  by code_simp

lemma space_runes_plain: "list_all (\<lambda>r. scalar r \<and> r \<noteq> RuneError) space_runes"
  by code_simp

lemma blank_iff_trim_left: "trim_space s = [] \<longleftrightarrow> trim_left s = []"
proof
  assume blank: "trim_space s = []"
  have "lead_space u \<noteq> 0" if "trim_right u = []" "u \<noteq> []" for u
    using that
  proof (induction u rule: trim_right.induct)
    case (1 u)
    then have t: "trail_space u \<noteq> 0" using trim_right_fixed [of u] by auto
    then have r: "trim_right (take (length u - trail_space u) u) = []" using 1(2) by (subst (asm) trim_right.simps) simp
    obtain w where w: "w \<in> set space_encodings" "has_suffix u w" "trail_space u = length w"
      using t by (auto simp: trail_space_def split: option.splits dest: find_SomeD)
    show ?case
    proof (cases "take (length u - trail_space u) u = []")
      case True
      then have "has_prefix u w" using w(2,3) 1(3) by (auto simp: has_suffix_iff has_prefix_iff)
      then show ?thesis using w(1) lead_space_eq_0 [of u] by auto
    next
      case False
      then have "lead_space (take (length u - trail_space u) u) \<noteq> 0" using 1(1) t r by blast
      then obtain v where "v \<in> set space_encodings" "has_prefix (take (length u - trail_space u) u) v"
        using lead_space_eq_0 [of "take (length u - trail_space u) u"] by auto
      then show ?thesis using lead_space_eq_0 [of u] by (metis append.assoc append_take_drop_id has_prefix_iff)
    qed
  qed
  from this [of "trim_left s"] blank show "trim_left s = []" by (auto simp: trim_space_def)
qed (simp add: trim_space_def trim_right_fixed)

lemma blank_runes: "trim_space s = [] \<Longrightarrow> set (to_runes s) \<subseteq> set space_runes"
  unfolding blank_iff_trim_left
proof (induction s rule: trim_left.induct)
  case (1 s)
  show ?case
  proof (cases "lead_space s = 0")
    case True
    then show ?thesis using 1(2) by (simp add: trim_left_fixed)
  next
    case False
    then obtain w where w: "w \<in> set space_encodings" "has_prefix s w" "lead_space s = length w"
      by (auto simp: lead_space_def split: option.splits dest: find_SomeD)
    then obtain r where r: "r \<in> set space_runes" "w = encode_rune r" by (auto simp: space_encodings_runes)
    have "scalar r" using r(1) space_runes_plain by (simp add: list_all_iff)
    then have "to_runes s = r # to_runes (drop (lead_space s) s)"
      using w(2,3) r(2) to_runes_append_scalar [of r] by (auto simp: has_prefix_iff encode_rune_def)
    moreover have "trim_left (drop (lead_space s) s) = []" using 1(2) False by (subst (asm) trim_left.simps) simp
    ultimately show ?thesis using 1(1) [OF False] r(1) by simp
  qed
qed

lemma json_blank: "trim_space (json_text s) = [] \<Longrightarrow> trim_space s = []"
proof -
  assume blank: "trim_space (json_text s) = []"
  then have "set (to_runes s) \<subseteq> set space_runes" using blank_runes [of "json_text s"] by simp
  then have "RuneError \<notin> set (to_runes s)" using space_runes_plain by (auto simp: list_all_iff)
  then show ?thesis using blank by (simp add: json_text_valid)
qed

end
