(* ===== verification/LoopTypes.thy ===== *)
theory LoopTypes
  imports GoPath GoFormat JsonText GoInt
begin

text \<open>
  \<open>internal/loops/types.go\<close>: a recurring task ("loop"), what one iteration adds to it, when it runs next, and the
  breakers that pause it. \<open>time.ParseDuration\<close> is modelled as the standard library documents it, with the fraction of a
  unit exact where the library rounds through \<open>float64\<close>. \<open>lower\<close> is \<open>strings.ToLower\<close>, \<open>quote\<close> the verb \<open>%q\<close>.
\<close>

section \<open>Data\<close>

text \<open>Status and mode are Go strings; the last constructor is any other text.\<close>

datatype loop_status = LoopRunning | LoopPaused | LoopStopped | LoopCompleted | LoopStatusOther string

datatype loop_mode = ModeInterval | ModeSelfPaced | ModeOther string

datatype pause_reason =
  NoReason | AutoPauseConsecutiveFailures | AutoPauseProviderUnavailable | AutoPauseTokenBudget | AutoPauseNoProgress

record iteration =
  it_N :: int
  it_StartedAt :: time
  it_Duration :: duration
  it_Summary :: string
  it_OK :: bool
  it_Transient :: bool
  it_TimedOut :: bool
  it_MadeChanges :: bool
  it_TokensIn :: int
  it_TokensOut :: int
  it_NextHint :: string
  it_Handoff :: string
  it_FilesTouched :: "string list"

record loop =
  lp_WorkDir :: string
  lp_ID :: string
  lp_Task :: string
  lp_Mode :: loop_mode
  lp_IntervalSeconds :: int
  lp_MinDelaySeconds :: int
  lp_MaxIterations :: int
  lp_MaxTotalTokens :: int
  lp_UpdateMemory :: bool
  lp_Status :: loop_status
  lp_CreatedAt :: time
  lp_LastRunAt :: time
  lp_NextRunAt :: time
  lp_StoppedAt :: time
  lp_Iterations :: "iteration list"
  lp_IterationCount :: int
  lp_SuccessCount :: int
  lp_FailureCount :: int
  lp_TotalTokensIn :: int
  lp_TotalTokensOut :: int
  lp_ConsecutiveFailures :: int
  lp_ConsecutiveTransientFailures :: int
  lp_ConsecutiveNoProgress :: int
  lp_AutoPaused :: bool
  lp_AutoPauseReason :: pause_reason

definition MaxHandoffRunes :: nat where "MaxHandoffRunes = 1500"
definition MaxFilesTouchedPerIteration :: nat where "MaxFilesTouchedPerIteration = 12"
definition MaxHistorySize :: nat where "MaxHistorySize = 50"
definition DefaultMinDelaySeconds :: int where "DefaultMinDelaySeconds = 300"
definition MaxSelfPacedDelaySeconds :: int where "MaxSelfPacedDelaySeconds = 24 * 60 * 60"
definition ConsecutiveFailureLimit :: int where "ConsecutiveFailureLimit = 5"
definition TransientFailureLimit :: int where "TransientFailureLimit = 30"
definition NoProgressLimit :: int where "NoProgressLimit = 10"

section \<open>Which tasks only watch\<close>

definition monitor_words :: "string list" where
  "monitor_words =
     [''monitor'',
      ''watch'',
      ''poll'',
      ''uptime'',
      ''heartbeat'',
      ''keep an eye'',
      ''keep watching'',
      ''keep checking'',
      ''health check'',
      ''healthcheck'',
      [CHR 0xD1, CHR 0x81, CHR 0xD0, CHR 0xBB, CHR 0xD0, CHR 0xB5, CHR 0xD0, CHR 0xB4, CHR 0xD0, CHR 0xB8],
      [CHR 0xD0, CHR 0xBC, CHR 0xD0, CHR 0xBE, CHR 0xD0, CHR 0xBD, CHR 0xD0, CHR 0xB8, CHR 0xD1, CHR 0x82, CHR 0xD0, CHR 0xBE, CHR 0xD1, CHR 0x80],
      [CHR 0xD0, CHR 0xBD, CHR 0xD0, CHR 0xB0, CHR 0xD0, CHR 0xB1, CHR 0xD0, CHR 0xBB, CHR 0xD1, CHR 0x8E, CHR 0xD0, CHR 0xB4, CHR 0xD0, CHR 0xB0],
      [CHR 0xD0, CHR 0xBE, CHR 0xD1, CHR 0x82, CHR 0xD1, CHR 0x81, CHR 0xD0, CHR 0xBB, CHR 0xD0, CHR 0xB5, CHR 0xD0, CHR 0xB6, CHR 0xD0, CHR 0xB8, CHR 0xD0, CHR 0xB2, CHR 0xD0, CHR 0xB0, CHR 0xD0, CHR 0xB9],
      [CHR 0xD0, CHR 0xBE, CHR 0xD0, CHR 0xBF, CHR 0xD1, CHR 0x80, CHR 0xD0, CHR 0xB0, CHR 0xD1, CHR 0x88, CHR 0xD0, CHR 0xB8, CHR 0xD0, CHR 0xB2, CHR 0xD0, CHR 0xB0, CHR 0xD0, CHR 0xB9]]"

definition action_words :: "string list" where
  "action_words =
     [''fix'',
      ''implement'',
      ''refactor'',
      ''build'',
      ''create'',
      ''add '',
      ''write '',
      ''rename'',
      ''delete'',
      ''migrate'',
      ''cleanup'',
      [CHR 0xD1, CHR 0x80, CHR 0xD0, CHR 0xB5, CHR 0xD0, CHR 0xB0, CHR 0xD0, CHR 0xBB, CHR 0xD0, CHR 0xB8, CHR 0xD0, CHR 0xB7],
      [CHR 0xD1, CHR 0x81, CHR 0xD0, CHR 0xB4, CHR 0xD0, CHR 0xB5, CHR 0xD0, CHR 0xBB, CHR 0xD0, CHR 0xB0, CHR 0xD0, CHR 0xB9],
      [CHR 0xD0, CHR 0xBF, CHR 0xD0, CHR 0xBE, CHR 0xD1, CHR 0x87, CHR 0xD0, CHR 0xB8, CHR 0xD0, CHR 0xBD, CHR 0xD0, CHR 0xB8],
      [CHR 0xD0, CHR 0xB8, CHR 0xD1, CHR 0x81, CHR 0xD0, CHR 0xBF, CHR 0xD1, CHR 0x80, CHR 0xD0, CHR 0xB0, CHR 0xD0, CHR 0xB2, CHR 0xD1, CHR 0x8C],
      [CHR 0xD0, CHR 0xB4, CHR 0xD0, CHR 0xBE, CHR 0xD0, CHR 0xB1, CHR 0xD0, CHR 0xB0, CHR 0xD0, CHR 0xB2, CHR 0xD1, CHR 0x8C],
      [CHR 0xD0, CHR 0xBD, CHR 0xD0, CHR 0xB0, CHR 0xD0, CHR 0xBF, CHR 0xD0, CHR 0xB8, CHR 0xD1, CHR 0x88, CHR 0xD0, CHR 0xB8],
      [CHR 0xD1, CHR 0x80, CHR 0xD0, CHR 0xB5, CHR 0xD1, CHR 0x84, CHR 0xD0, CHR 0xB0, CHR 0xD0, CHR 0xBA, CHR 0xD1, CHR 0x82, CHR 0xD0, CHR 0xBE, CHR 0xD1, CHR 0x80]]"

definition russianPeriodicMarkers :: "string list" where
  "russianPeriodicMarkers =
     [[CHR 0xD0, CHR 0xBA, CHR 0xD0, CHR 0xB0, CHR 0xD0, CHR 0xB6, CHR 0xD0, CHR 0xB4],
      [CHR 0xD1, CHR 0x80, CHR 0xD0, CHR 0xB0, CHR 0xD0, CHR 0xB7, CHR 0x20, CHR 0xD0, CHR 0xB2, CHR 0x20],
      [CHR 0xD0, CHR 0xBF, CHR 0xD0, CHR 0xB5, CHR 0xD1, CHR 0x80, CHR 0xD0, CHR 0xB8, CHR 0xD0, CHR 0xBE, CHR 0xD0, CHR 0xB4, CHR 0xD0, CHR 0xB8, CHR 0xD1, CHR 0x87, CHR 0xD0, CHR 0xB5, CHR 0xD1, CHR 0x81, CHR 0xD0, CHR 0xBA],
      [CHR 0xD1, CHR 0x80, CHR 0xD0, CHR 0xB5, CHR 0xD0, CHR 0xB3, CHR 0xD1, CHR 0x83, CHR 0xD0, CHR 0xBB, CHR 0xD1, CHR 0x8F, CHR 0xD1, CHR 0x80, CHR 0xD0, CHR 0xBD, CHR 0xD0, CHR 0xBE],
      [CHR 0xD0, CHR 0xBF, CHR 0xD0, CHR 0xBE, CHR 0x20, CHR 0xD1, CHR 0x80, CHR 0xD0, CHR 0xB0, CHR 0xD1, CHR 0x81, CHR 0xD0, CHR 0xBF, CHR 0xD0, CHR 0xB8, CHR 0xD1, CHR 0x81, CHR 0xD0, CHR 0xB0, CHR 0xD0, CHR 0xBD]]"

definition russianInspectVerbs :: "string list" where
  "russianInspectVerbs =
     [[CHR 0xD1, CHR 0x81, CHR 0xD0, CHR 0xBC, CHR 0xD0, CHR 0xBE, CHR 0xD1, CHR 0x82, CHR 0xD1, CHR 0x80, CHR 0xD0, CHR 0xB8],
      [CHR 0xD0, CHR 0xB3, CHR 0xD0, CHR 0xBB, CHR 0xD1, CHR 0x8F, CHR 0xD0, CHR 0xB4, CHR 0xD0, CHR 0xB8],
      [CHR 0xD0, CHR 0xB3, CHR 0xD0, CHR 0xBB, CHR 0xD1, CHR 0x8F, CHR 0xD0, CHR 0xBD, CHR 0xD1, CHR 0x8C],
      [CHR 0xD1, CHR 0x81, CHR 0xD0, CHR 0xBC, CHR 0xD0, CHR 0xBE, CHR 0xD1, CHR 0x82, CHR 0xD1, CHR 0x80, CHR 0xD0, CHR 0xB5, CHR 0xD1, CHR 0x82, CHR 0xD1, CHR 0x8C],
      [CHR 0xD0, CHR 0xBF, CHR 0xD1, CHR 0x80, CHR 0xD0, CHR 0xBE, CHR 0xD0, CHR 0xB2, CHR 0xD0, CHR 0xB5, CHR 0xD1, CHR 0x80]]"

definition containsAnyOf :: "string \<Rightarrow> string list \<Rightarrow> bool" where
  "containsAnyOf s subs = list_ex (contains s) subs"

definition IsMonitorTask :: "(string \<Rightarrow> string) \<Rightarrow> string \<Rightarrow> bool" where
  "IsMonitorTask lower task =
     (let t = lower task
      in if containsAnyOf t monitor_words then True
         else if containsAnyOf t action_words then False
         else if contains t [CHR 0xD0, CHR 0xBF, CHR 0xD1, CHR 0x80, CHR 0xD0, CHR 0xBE, CHR 0xD0, CHR 0xB2, CHR 0xD0, CHR 0xB5, CHR 0xD1, CHR 0x80, CHR 0xD1, CHR 0x8F] then True
         else if contains t ''every'' \<and> contains t ''check'' then True
         else containsAnyOf t russianPeriodicMarkers \<and> containsAnyOf t russianInspectVerbs)"

section \<open>Delays\<close>

definition transientBackoffBaseSeconds :: int where "transientBackoffBaseSeconds = 60"
definition transientBackoffCapSeconds :: int where "transientBackoffCapSeconds = 1800"

definition transientBackoffSeconds :: "int \<Rightarrow> int" where
  "transientBackoffSeconds streak0 =
     (let streak = (if streak0 < 1 then 1 else streak0);
          shift = (if 20 < streak - 1 then 20 else streak - 1);
          delay = wrap64 (transientBackoffBaseSeconds * 2 ^ nat shift)
      in if delay \<le> 0 \<or> transientBackoffCapSeconds < delay then transientBackoffCapSeconds else delay)"

text \<open>\<open>time.ParseDuration\<close>: the integer before the point, the fraction as a number and its scale, and the unit.\<close>

definition hour :: duration where "hour = 60 * minute"

definition unit_of :: "string \<Rightarrow> int option" where
  "unit_of u =
     (if u = ''ns'' then Some 1
      else if u = ''us'' \<or> u = [CHR 0xC2, CHR 0xB5, CHR ''s''] \<or> u = [CHR 0xCE, CHR 0xBC, CHR ''s''] then Some 1000
      else if u = ''ms'' then Some 1000000
      else if u = ''s'' then Some second
      else if u = ''m'' then Some minute
      else if u = ''h'' then Some hour
      else None)"

definition unit_char :: "char \<Rightarrow> bool" where
  "unit_char c \<longleftrightarrow> c \<noteq> CHR ''.'' \<and> \<not> is_digit c"

definition duration_part :: "string \<Rightarrow> (int \<times> string) option" where
  "duration_part s =
     (let ds = takeWhile is_digit s; s1 = dropWhile is_digit s;
          point = (s1 \<noteq> [] \<and> hd s1 = CHR ''.'');
          s2 = (if point then tl s1 else s1);
          fs = (if point then takeWhile is_digit s2 else []);
          s3 = (if point then dropWhile is_digit s2 else s2);
          u = takeWhile unit_char s3; s4 = dropWhile unit_char s3;
          v = int (read_nat ds)
      in if 2 ^ 63 < v \<or> ds = [] \<and> fs = [] \<or> u = [] then None
         else case unit_of u of
                None \<Rightarrow> None
              | Some n \<Rightarrow>
                  if 2 ^ 63 div n < v then None
                  else let w = v * n + (if fs = [] then 0 else int (read_nat fs) * n div 10 ^ length fs)
                       in if 2 ^ 63 < w then None else Some (w, s4))"

lemma duration_part_shorter:
  assumes "duration_part s = Some (w, s')"
  shows "length s' < length s"
proof -
  define s1 where "s1 = dropWhile is_digit s"
  define s2 where "s2 = (if s1 \<noteq> [] \<and> hd s1 = CHR ''.'' then tl s1 else s1)"
  define s3 where "s3 = (if s1 \<noteq> [] \<and> hd s1 = CHR ''.'' then dropWhile is_digit s2 else s2)"
  have u: "takeWhile unit_char s3 \<noteq> []" and s': "s' = dropWhile unit_char s3"
    using assms unfolding duration_part_def Let_def s1_def[symmetric] s2_def[symmetric] s3_def[symmetric]
    by (auto split: if_splits option.splits)
  have "length s3 \<le> length s2" unfolding s3_def by (simp add: length_dropWhile_le)
  moreover have "length s2 \<le> length s1" unfolding s2_def by simp
  moreover have "length s1 \<le> length s" unfolding s1_def by (rule length_dropWhile_le)
  moreover have "length s' < length s3"
    using u s' by (metis takeWhile_dropWhile_id length_append length_greater_0_conv less_add_same_cancel2)
  ultimately show ?thesis by simp
qed

function duration_loop :: "int \<Rightarrow> string \<Rightarrow> int option" where
  "duration_loop d s =
     (if s = [] then Some d
      else case duration_part s of
             None \<Rightarrow> None
           | Some (w, s') \<Rightarrow> let d' = (d + w) mod 2 ^ 64 in if 2 ^ 63 < d' then None else duration_loop d' s')"
  by pat_completeness auto
termination
  by (relation "measure (\<lambda>(d, s). length s)") (auto dest: duration_part_shorter)

declare duration_loop.simps [simp del]

definition ParseDuration :: "string \<Rightarrow> duration option" where
  "ParseDuration s =
     (case split_sign s of (neg, s1) \<Rightarrow>
        if s1 = ''0'' then Some 0
        else if s1 = [] then None
        else case duration_loop 0 s1 of
               None \<Rightarrow> None
             | Some d \<Rightarrow> if neg then Some (- d) else if 2 ^ 63 \<le> d then None else Some d)"

definition isApproxWord :: "string \<Rightarrow> bool" where
  "isApproxWord s \<longleftrightarrow> s \<in> {''about'', ''around'', ''approximately'', ''approx'', ''roughly''}"

text \<open>\<open>strings.Trim(s, cutset)\<close> for a cut set of ASCII characters.\<close>

definition trim_set :: "string \<Rightarrow> string \<Rightarrow> string" where
  "trim_set cs s = rev (dropWhile (\<lambda>c. c \<in> set cs) (rev (dropWhile (\<lambda>c. c \<in> set cs) s)))"

definition duration_word :: "string \<Rightarrow> int option" where
  "duration_word w =
     (let u = trim_suffix w ''s''
      in if u = ''sec'' \<or> u = ''second'' then Some 1
         else if u = ''min'' \<or> u = ''minute'' then Some 60
         else if u = ''hr'' \<or> u = ''hour'' then Some (60 * 60)
         else if u = ''day'' then Some (24 * 60 * 60)
         else None)"

definition parseHumanDurationSeconds :: "string \<Rightarrow> int" where
  "parseHumanDurationSeconds hint =
     (case dropWhile isApproxWord (BashRules.fields (trim_set '' .'' hint)) of
        [a, b] \<Rightarrow>
          (case atoi a of
             AtoiOk n \<Rightarrow>
               if n < 0 then 0
               else (case duration_word b of
                       None \<Rightarrow> 0
                     | Some seconds \<Rightarrow> if max_int64 div seconds < n then max_int64 else n * seconds)
           | _ \<Rightarrow> 0)
      | _ \<Rightarrow> 0)"

definition parseNextHintSeconds :: "(string \<Rightarrow> string) \<Rightarrow> string \<Rightarrow> int" where
  "parseNextHintSeconds lower hint0 =
     (let hint = trim_space (lower hint0)
      in if hint = [] then 0
         else let h = trim_space (fold (\<lambda>prefix h. trim_prefix h prefix) [''wait'', ''next'', ''in'', ''after'', ''every''] hint)
              in case ParseDuration h of
                   None \<Rightarrow> parseHumanDurationSeconds h
                 | Some d \<Rightarrow> if d < 0 then 0 else d div second)"

section \<open>One iteration\<close>

definition seconds_duration :: "int \<Rightarrow> duration" where
  "seconds_duration n = wrap64 (n * second)"

text \<open>The counters of an iteration, by outcome.\<close>

definition count_tokens :: "iteration \<Rightarrow> loop \<Rightarrow> loop" where
  "count_tokens it l =
     l\<lparr>lp_IterationCount := lp_IterationCount l + 1,
       lp_TotalTokensIn := lp_TotalTokensIn l + (if 0 < it_TokensIn it then it_TokensIn it else 0),
       lp_TotalTokensOut := lp_TotalTokensOut l + (if 0 < it_TokensOut it then it_TokensOut it else 0)\<rparr>"

definition count_outcome :: "(string \<Rightarrow> string) \<Rightarrow> iteration \<Rightarrow> loop \<Rightarrow> loop" where
  "count_outcome lower it l =
     (if it_OK it then
        let l1 = l\<lparr>lp_SuccessCount := lp_SuccessCount l + 1, lp_ConsecutiveFailures := 0, lp_ConsecutiveTransientFailures := 0\<rparr>
        in if \<not> IsMonitorTask lower (lp_Task l)
           then l1\<lparr>lp_ConsecutiveNoProgress := (if it_MadeChanges it then 0 else lp_ConsecutiveNoProgress l + 1)\<rparr> else l1
      else if it_Transient it
      then l\<lparr>lp_FailureCount := lp_FailureCount l + 1,
             lp_ConsecutiveTransientFailures := lp_ConsecutiveTransientFailures l + 1\<rparr>
      else l\<lparr>lp_FailureCount := lp_FailureCount l + 1, lp_ConsecutiveFailures := lp_ConsecutiveFailures l + 1,
             lp_ConsecutiveTransientFailures := 0\<rparr>)"

definition log_iteration :: "iteration \<Rightarrow> loop \<Rightarrow> loop" where
  "log_iteration it l =
     (let its = lp_Iterations l @ [it]
      in l\<lparr>lp_Iterations := (if MaxHistorySize < length its then drop (length its - MaxHistorySize) its else its),
           lp_LastRunAt := it_StartedAt it + it_Duration it\<rparr>)"

definition self_paced_delay :: "(string \<Rightarrow> string) \<Rightarrow> iteration \<Rightarrow> loop \<Rightarrow> int" where
  "self_paced_delay lower it l =
     (let delay = (if lp_MinDelaySeconds l \<le> 0 then DefaultMinDelaySeconds else lp_MinDelaySeconds l);
          hinted = parseNextHintSeconds lower (it_NextHint it);
          hinted = (if MaxSelfPacedDelaySeconds < hinted then MaxSelfPacedDelaySeconds else hinted)
      in if delay < hinted then hinted else delay)"

definition schedule :: "(string \<Rightarrow> string) \<Rightarrow> iteration \<Rightarrow> loop \<Rightarrow> loop" where
  "schedule lower it l =
     (case lp_Mode l of
        ModeInterval \<Rightarrow>
          if 0 < lp_IntervalSeconds l then l\<lparr>lp_NextRunAt := lp_LastRunAt l + seconds_duration (lp_IntervalSeconds l)\<rparr> else l
      | ModeSelfPaced \<Rightarrow> l\<lparr>lp_NextRunAt := lp_LastRunAt l + seconds_duration (self_paced_delay lower it l)\<rparr>
      | ModeOther _ \<Rightarrow> l)"

definition back_off :: "iteration \<Rightarrow> loop \<Rightarrow> loop" where
  "back_off it l =
     (if it_Transient it \<and> 0 < lp_ConsecutiveTransientFailures l then
        let backoffRun = lp_LastRunAt l + seconds_duration (transientBackoffSeconds (lp_ConsecutiveTransientFailures l))
        in if lp_NextRunAt l < backoffRun then l\<lparr>lp_NextRunAt := backoffRun\<rparr> else l
      else l)"

definition auto_pause :: "bool \<Rightarrow> pause_reason \<Rightarrow> loop \<Rightarrow> loop" where
  "auto_pause tripped why l =
     (if tripped \<and> lp_Status l = LoopRunning
      then l\<lparr>lp_Status := LoopPaused, lp_AutoPaused := True, lp_AutoPauseReason := why\<rparr> else l)"

definition OverTokenBudget :: "loop \<Rightarrow> bool" where
  "OverTokenBudget l \<longleftrightarrow> 0 < lp_MaxTotalTokens l \<and> lp_MaxTotalTokens l \<le> lp_TotalTokensIn l + lp_TotalTokensOut l"

definition breakers :: "loop \<Rightarrow> loop" where
  "breakers l =
     (if 0 < lp_MaxIterations l \<and> lp_MaxIterations l \<le> lp_IterationCount l
      then l\<lparr>lp_Status := LoopCompleted, lp_StoppedAt := lp_LastRunAt l\<rparr>
      else auto_pause (NoProgressLimit \<le> lp_ConsecutiveNoProgress l) AutoPauseNoProgress
            (auto_pause (OverTokenBudget l) AutoPauseTokenBudget
              (auto_pause (TransientFailureLimit \<le> lp_ConsecutiveTransientFailures l) AutoPauseProviderUnavailable
                (auto_pause (ConsecutiveFailureLimit \<le> lp_ConsecutiveFailures l) AutoPauseConsecutiveFailures l))))"

definition AppendIteration :: "(string \<Rightarrow> string) \<Rightarrow> iteration \<Rightarrow> loop \<Rightarrow> loop" where
  "AppendIteration lower it l =
     breakers (back_off it (schedule lower it (log_iteration it (count_outcome lower it (count_tokens it l)))))"

section \<open>Queries and validation\<close>

definition Loop_IsActive :: "loop \<Rightarrow> bool" where
  "Loop_IsActive l \<longleftrightarrow> lp_Status l = LoopRunning"

definition IsDue :: "loop \<Rightarrow> time \<Rightarrow> bool" where
  "IsDue l now \<longleftrightarrow> (if \<not> Loop_IsActive l then False else if IsZero (lp_NextRunAt l) then True else \<not> now < lp_NextRunAt l)"

definition safe_id_char :: "char \<Rightarrow> bool" where
  "safe_id_char c \<longleftrightarrow>
     (let n = of_char c :: nat
      in 97 \<le> n \<and> n \<le> 122 \<or> 65 \<le> n \<and> n \<le> 90 \<or> 48 \<le> n \<and> n \<le> 57 \<or> c = CHR ''-'' \<or> c = CHR ''_'')"

definition isSafeLoopID :: "string \<Rightarrow> bool" where
  "isSafeLoopID i \<longleftrightarrow> i \<noteq> [] \<and> list_all safe_id_char i"

definition Loop_Validate :: "(string \<Rightarrow> string) \<Rightarrow> loop \<Rightarrow> string option" where
  "Loop_Validate quote l =
     (if trim_space (lp_ID l) = [] then Some ''loop: id is empty''
      else if \<not> isSafeLoopID (lp_ID l) then Some (''loop '' @ quote (lp_ID l) @ '': id contains unsafe characters'')
      else if trim_space (lp_Task l) = [] then Some (''loop '' @ lp_ID l @ '': task is empty'')
      else case (case lp_Mode l of
                   ModeInterval \<Rightarrow>
                     if lp_IntervalSeconds l \<le> 0
                     then Some (''loop '' @ lp_ID l @ '': interval mode needs interval_seconds > 0'') else None
                 | ModeSelfPaced \<Rightarrow> None
                 | ModeOther m \<Rightarrow> Some (''loop '' @ lp_ID l @ '': unknown mode '' @ quote m)) of
             Some e \<Rightarrow> Some e
           | None \<Rightarrow>
               (case lp_Status l of
                  LoopStatusOther st \<Rightarrow> Some (''loop '' @ lp_ID l @ '': unknown status '' @ quote st)
                | _ \<Rightarrow> None))"

section \<open>State files\<close>

text \<open>
  \<open>Marshal\<close> and \<open>Unmarshal\<close>: \<open>json_loop l\<close> is the loop that decoding the encoding of \<open>l\<close> gives. Numbers, times
  and flags come back as they are; every text comes back as \<open>json_text\<close> gives it.
\<close>

definition json_iteration :: "iteration \<Rightarrow> iteration" where
  "json_iteration it =
     it\<lparr>it_Summary := json_text (it_Summary it), it_NextHint := json_text (it_NextHint it),
        it_Handoff := json_text (it_Handoff it), it_FilesTouched := map json_text (it_FilesTouched it)\<rparr>"

definition json_mode :: "loop_mode \<Rightarrow> loop_mode" where
  "json_mode mode = (case mode of ModeOther s \<Rightarrow> ModeOther (json_text s) | _ \<Rightarrow> mode)"

definition json_status :: "loop_status \<Rightarrow> loop_status" where
  "json_status st = (case st of LoopStatusOther s \<Rightarrow> LoopStatusOther (json_text s) | _ \<Rightarrow> st)"

definition json_loop :: "loop \<Rightarrow> loop" where
  "json_loop l =
     l\<lparr>lp_WorkDir := json_text (lp_WorkDir l), lp_ID := json_text (lp_ID l), lp_Task := json_text (lp_Task l),
       lp_Mode := json_mode (lp_Mode l), lp_Status := json_status (lp_Status l),
       lp_Iterations := map json_iteration (lp_Iterations l)\<rparr>"

definition Unmarshal :: "(string \<Rightarrow> string) \<Rightarrow> loop \<Rightarrow> string + loop" where
  "Unmarshal quote content =
     (let l = json_loop content in case Loop_Validate quote l of Some e \<Rightarrow> Inl e | None \<Rightarrow> Inr l)"

end
