(* ===== verification/LoopManager.thy ===== *)
theory LoopManager
  imports LoopTypes ToolRules "HOL-Library.AList"
begin

text \<open>
  \<open>internal/loops/manager.go\<close> and \<open>storage.go\<close>: the manager of the loops, which keeps them in memory and on
  disk. A state file is modelled by the loop its JSON text decodes to and the directory by the map from IDs to state
  files. What a write comes to is an argument, with the three outcomes of \<open>AtomicFile.AtomicWrite\<close>: the file is
  replaced, it is left as it was, or it is replaced and an error is returned because its directory could not be
  synced. Every method holds the manager's lock, so it is one step. The order of a Go map is the order of the
  association list. The callback of \<open>SetOnRemove\<close> is recorded by the identifiers it receives. One process owns the
  directory: a second one that rewrites the same files is not modelled.
\<close>

section \<open>State\<close>

type_synonym disk = "string \<rightharpoonup> loop"

record loop_manager =
  lm_loops :: "(string \<times> loop) list"
  lm_workDir :: string
  lm_onRemove :: bool
  lm_removed :: "string list"
  lm_firing :: "(string \<times> time) option"
  lm_disk :: disk

section \<open>Storage (\<open>storage.go\<close>)\<close>

text \<open>
  Securing the directory, encoding the loop and the steps of the atomic write up to the rename may fail
  (\<open>NotWritten\<close>); so may the sync of the directory after it (\<open>WriteUncertain\<close>).
\<close>

datatype write_result = Written | NotWritten string | WriteUncertain string

definition Storage_Save :: "(string \<Rightarrow> string) \<Rightarrow> write_result \<Rightarrow> loop \<Rightarrow> disk \<Rightarrow> disk \<times> string option" where
  "Storage_Save quote result l d =
     (case Loop_Validate quote l of
        Some e \<Rightarrow> (d, Some (''loops: refuse to save invalid loop: '' @ e))
      | None \<Rightarrow>
          (case result of
             NotWritten e \<Rightarrow> (d, Some e)
           | Written \<Rightarrow> (d(lp_ID l \<mapsto> json_loop l), None)
           | WriteUncertain e \<Rightarrow> (d(lp_ID l \<mapsto> json_loop l), Some e)))"

definition Storage_Delete :: "(string \<Rightarrow> string) \<Rightarrow> string option \<Rightarrow> string \<Rightarrow> disk \<Rightarrow> disk \<times> string option" where
  "Storage_Delete quote fault i d =
     (if \<not> isSafeLoopID i then (d, Some (''loops: refuse to delete unsafe loop id '' @ quote i))
      else case fault of Some e \<Rightarrow> (d, Some (''loops: delete '' @ i @ '': '' @ e)) | None \<Rightarrow> (d(i := None), None))"

text \<open>\<open>NewID\<close>: the four random bytes are an argument.\<close>

definition hex_digit :: "nat \<Rightarrow> char" where
  "hex_digit n = ''0123456789abcdef'' ! (n mod 16)"

definition NewID :: "nat list \<Rightarrow> string" where
  "NewID buf = ''loop-'' @ concat (map (\<lambda>b. [hex_digit (b div 16), hex_digit b]) buf)"

text \<open>
  \<open>Load\<close> reads one directory entry: its name, whether it is a directory, and the error of securing or reading it or
  of its JSON syntax, or else the loop the JSON text spells. The result is a loop, an error, or nothing for an entry that is no state file.
\<close>

record dir_entry =
  de_Name :: string
  de_IsDir :: bool
  de_content :: "string + loop"

definition load_entry :: "(string \<Rightarrow> string) \<Rightarrow> dir_entry \<Rightarrow> (string + loop) option" where
  "load_entry quote e =
     (let name = de_Name e; fileID = trim_suffix name ''.json''
      in if de_IsDir e then None
         else if \<not> has_suffix name ''.json'' then None
         else if \<not> isSafeLoopID fileID
         then Some (Inl (''loops: skip '' @ name @ '': unsafe loop filename (allowed: A-Za-z0-9_-)''))
         else case de_content e of
                Inl err \<Rightarrow> Some (Inl err)
              | Inr content \<Rightarrow>
                  (case Unmarshal quote content of
                     Inl err \<Rightarrow> Some (Inl (''loops: parse '' @ name @ '': '' @ err))
                   | Inr l \<Rightarrow>
                       if fileID \<noteq> lp_ID l
                       then Some (Inl (''loops: skip '' @ name @ '': filename id '' @ quote fileID @
                                       '' does not match loop id '' @ quote (lp_ID l)))
                       else Some (Inr l)))"

definition loopLess :: "loop \<Rightarrow> loop \<Rightarrow> bool" where
  "loopLess a b \<longleftrightarrow>
     (if lp_CreatedAt a \<noteq> lp_CreatedAt b then lp_CreatedAt a < lp_CreatedAt b
      else byte_le (lp_ID a) (lp_ID b) \<and> lp_ID a \<noteq> lp_ID b)"

text \<open>The insertion sort of \<open>sortLoopsForDisplay\<close>: the new element moves left past every greater one.\<close>

definition bubble :: "loop \<Rightarrow> loop list \<Rightarrow> loop list" where
  "bubble l xs = rev (dropWhile (loopLess l) (rev xs)) @ l # rev (takeWhile (loopLess l) (rev xs))"

definition sortLoopsForDisplay :: "loop list \<Rightarrow> loop list" where
  "sortLoopsForDisplay ls = foldl (\<lambda>acc l. bubble l acc) [] ls"

definition loaded_loops :: "(string + loop) option list \<Rightarrow> loop list" where
  "loaded_loops rs = concat (map (\<lambda>r. case r of Some (Inr l) \<Rightarrow> [l] | _ \<Rightarrow> []) rs)"

definition load_errors :: "(string + loop) option list \<Rightarrow> string list" where
  "load_errors rs = concat (map (\<lambda>r. case r of Some (Inl e) \<Rightarrow> [e] | _ \<Rightarrow> []) rs)"

definition Storage_Load :: "(string \<Rightarrow> string) \<Rightarrow> dir_entry list \<Rightarrow> loop list \<times> string list" where
  "Storage_Load quote entries =
     (let rs = map (load_entry quote) entries in (sortLoopsForDisplay (loaded_loops rs), load_errors rs))"

section \<open>The manager\<close>

definition DefaultPollPeriod :: duration where "DefaultPollPeriod = 30 * second"
definition staggerDivisor :: int where "staggerDivisor = 3"
definition minStaggerStep :: duration where "minStaggerStep = 5 * second"

definition staggerStep :: duration where
  "staggerStep =
     (let step = DefaultPollPeriod div staggerDivisor in if step < minStaggerStep then minStaggerStep else step)"

definition overdue :: "time \<Rightarrow> loop \<Rightarrow> bool" where
  "overdue now l \<longleftrightarrow> lp_Status l = LoopRunning \<and> \<not> IsZero (lp_NextRunAt l) \<and> lp_NextRunAt l < now"

fun stagger :: "time \<Rightarrow> int \<Rightarrow> loop list \<Rightarrow> loop list" where
  "stagger now n [] = []"
| "stagger now n (l # ls) =
     (if overdue now l then l\<lparr>lp_NextRunAt := now + (n + 1) * staggerStep\<rparr> # stagger now (n + 1) ls
      else l # stagger now n ls)"

definition loops_NewManager :: "(string \<Rightarrow> string) \<Rightarrow> dir_entry list \<Rightarrow> time \<Rightarrow> loop_manager" where
  "loops_NewManager quote entries now =
     (let ls = fst (Storage_Load quote entries)
      in \<lparr>lm_loops = foldl (\<lambda>m l. AList.update (lp_ID l) l m) [] (stagger now 0 ls), lm_workDir = [], lm_onRemove = False,
          lm_removed = [], lm_firing = None, lm_disk = map_of (map (\<lambda>l. (lp_ID l, l)) ls)\<rparr>)"

definition SetFiring :: "string \<Rightarrow> time \<Rightarrow> loop_manager \<Rightarrow> loop_manager" where
  "SetFiring i since m = m\<lparr>lm_firing := (if i = [] then None else Some (i, since))\<rparr>"

definition ClearFiring :: "loop_manager \<Rightarrow> loop_manager" where
  "ClearFiring m = m\<lparr>lm_firing := None\<rparr>"

definition FiringState :: "loop_manager \<Rightarrow> (string \<times> time) option" where
  "FiringState m = lm_firing m"

definition loops_SetOnRemove :: "bool \<Rightarrow> loop_manager \<Rightarrow> loop_manager" where
  "loops_SetOnRemove present m = m\<lparr>lm_onRemove := present\<rparr>"

definition loops_SetWorkDir :: "string \<Rightarrow> loop_manager \<Rightarrow> loop_manager" where
  "loops_SetWorkDir dir m = m\<lparr>lm_workDir := trim_space dir\<rparr>"

datatype add_option =
  WithWorkDir string | WithMaxIterations int | WithMaxTotalTokens int | WithMinDelay int | WithoutMemory

fun apply_option :: "add_option \<Rightarrow> loop \<Rightarrow> loop" where
  "apply_option (WithWorkDir dir) l = l\<lparr>lp_WorkDir := trim_space dir\<rparr>"
| "apply_option (WithMaxIterations n) l = l\<lparr>lp_MaxIterations := n\<rparr>"
| "apply_option (WithMaxTotalTokens n) l = (if 0 < n then l\<lparr>lp_MaxTotalTokens := n\<rparr> else l)"
| "apply_option (WithMinDelay n) l = l\<lparr>lp_MinDelaySeconds := n\<rparr>"
| "apply_option WithoutMemory l = l\<lparr>lp_UpdateMemory := False\<rparr>"

definition new_loop :: "string \<Rightarrow> string \<Rightarrow> loop_mode \<Rightarrow> int \<Rightarrow> time \<Rightarrow> string \<Rightarrow> loop" where
  "new_loop i task mode intervalSeconds now owner =
     \<lparr>lp_WorkDir = owner, lp_ID = i, lp_Task = trim_space task, lp_Mode = mode, lp_IntervalSeconds = intervalSeconds,
      lp_MinDelaySeconds = DefaultMinDelaySeconds, lp_MaxIterations = 0, lp_MaxTotalTokens = 0, lp_UpdateMemory = True,
      lp_Status = LoopRunning, lp_CreatedAt = now, lp_LastRunAt = zero_time, lp_NextRunAt = zero_time,
      lp_StoppedAt = zero_time, lp_Iterations = [], lp_IterationCount = 0, lp_SuccessCount = 0, lp_FailureCount = 0,
      lp_TotalTokensIn = 0, lp_TotalTokensOut = 0, lp_ConsecutiveFailures = 0, lp_ConsecutiveTransientFailures = 0,
      lp_ConsecutiveNoProgress = 0, lp_AutoPaused = False, lp_AutoPauseReason = NoReason\<rparr>"

definition interval_error :: "int \<Rightarrow> string" where
  "interval_error n =
     (let poll = show_int (DefaultPollPeriod div second)
      in ''loop: interval ('' @ show_int n @ ''s) is below the scheduler'' @ [CHR 0x27] @ ''s poll period ('' @ poll @ ''s) '' @
         em_dash @ '' the runner can'' @ [CHR 0x27] @ ''t check more often than that; use '' @ poll @ ''s or higher'')"

text \<open>\<open>buf\<close> are the random bytes of the identifier; the result is the error or the new loop.\<close>

definition loops_Add ::
    "(string \<Rightarrow> string) \<Rightarrow> write_result \<Rightarrow> nat list \<Rightarrow> string \<Rightarrow> loop_mode \<Rightarrow> int \<Rightarrow> add_option list \<Rightarrow> time \<Rightarrow> loop_manager \<Rightarrow>
     loop_manager \<times> (string + loop)" where
  "loops_Add quote fault buf task mode intervalSeconds opts now m =
     (if mode = ModeInterval \<and> intervalSeconds < DefaultPollPeriod div second then (m, Inl (interval_error intervalSeconds))
      else let l0 = fold apply_option opts (new_loop (NewID buf) task mode intervalSeconds now (lm_workDir m));
               l = l0\<lparr>lp_NextRunAt := (if mode = ModeInterval then now + seconds_duration intervalSeconds else now)\<rparr>
           in case Loop_Validate quote l of
                Some e \<Rightarrow> (m, Inl e)
              | None \<Rightarrow>
                  (case Storage_Save quote fault l (lm_disk m) of
                     (d, Some e) \<Rightarrow> (m\<lparr>lm_disk := d\<rparr>, Inl e)
                   | (d, None) \<Rightarrow> (m\<lparr>lm_disk := d, lm_loops := AList.update (lp_ID l) l (lm_loops m)\<rparr>, Inr l)))"

definition not_found :: "string \<Rightarrow> string" where
  "not_found i = ''loop '' @ i @ '': not found''"

definition transition ::
    "(string \<Rightarrow> string) \<Rightarrow> write_result \<Rightarrow> string \<Rightarrow> (loop \<Rightarrow> string + loop) \<Rightarrow> loop_manager \<Rightarrow> loop_manager \<times> string option" where
  "transition quote fault i mutate m =
     (case map_of (lm_loops m) i of
        None \<Rightarrow> (m, Some (not_found i))
      | Some l \<Rightarrow>
          (case mutate l of
             Inl e \<Rightarrow> (m, Some e)
           | Inr l' \<Rightarrow>
               (case Storage_Save quote fault l' (lm_disk m) of
                  (d, Some e) \<Rightarrow> (m\<lparr>lm_disk := d\<rparr>, Some e)
                | (d, None) \<Rightarrow> (m\<lparr>lm_disk := d, lm_loops := AList.update i l' (lm_loops m)\<rparr>, None))))"

definition status_text :: "loop_status \<Rightarrow> string" where
  "status_text st =
     (case st of LoopRunning \<Rightarrow> ''running'' | LoopPaused \<Rightarrow> ''paused'' | LoopStopped \<Rightarrow> ''stopped''
      | LoopCompleted \<Rightarrow> ''completed'' | LoopStatusOther s \<Rightarrow> s)"

definition cannot :: "string \<Rightarrow> string \<Rightarrow> loop \<Rightarrow> string" where
  "cannot what i l = ''loop '' @ i @ '': cannot '' @ what @ '' from status '' @ status_text (lp_Status l)"

definition AdoptWorkspace ::
    "(string \<Rightarrow> string) \<Rightarrow> write_result \<Rightarrow> string \<Rightarrow> string \<Rightarrow> loop_manager \<Rightarrow> loop_manager \<times> string option" where
  "AdoptWorkspace quote fault i workDir0 m =
     (let workDir = trim_space workDir0
      in if workDir = [] then (m, Some (''cannot adopt loop '' @ i @ '' into an empty workspace''))
         else transition quote fault i
                (\<lambda>l. Inr (if trim_space (lp_WorkDir l) \<noteq> [] then l else l\<lparr>lp_WorkDir := workDir\<rparr>)) m)"

definition stop_loop :: "time \<Rightarrow> loop \<Rightarrow> string + loop" where
  "stop_loop now l =
     Inr (if lp_Status l = LoopStopped \<or> lp_Status l = LoopCompleted then l
          else l\<lparr>lp_Status := LoopStopped, lp_StoppedAt := now\<rparr>)"

definition pause_loop :: "string \<Rightarrow> loop \<Rightarrow> string + loop" where
  "pause_loop i l = (if lp_Status l \<noteq> LoopRunning then Inl (cannot ''pause'' i l) else Inr (l\<lparr>lp_Status := LoopPaused\<rparr>))"

definition resume_loop :: "string \<Rightarrow> time \<Rightarrow> loop \<Rightarrow> string + loop" where
  "resume_loop i now l =
     (if lp_Status l \<noteq> LoopPaused then Inl (cannot ''resume'' i l)
      else Inr (l\<lparr>lp_Status := LoopRunning, lp_AutoPaused := False, lp_AutoPauseReason := NoReason,
                  lp_ConsecutiveFailures := 0, lp_ConsecutiveTransientFailures := 0, lp_ConsecutiveNoProgress := 0,
                  lp_NextRunAt := (if lp_Mode l = ModeInterval then now + seconds_duration (lp_IntervalSeconds l) else now)\<rparr>))"

definition fire_loop :: "string \<Rightarrow> time \<Rightarrow> loop \<Rightarrow> string + loop" where
  "fire_loop i now l = (if lp_Status l \<noteq> LoopRunning then Inl (cannot ''fire'' i l) else Inr (l\<lparr>lp_NextRunAt := now\<rparr>))"

definition loops_Stop ::
    "(string \<Rightarrow> string) \<Rightarrow> write_result \<Rightarrow> string \<Rightarrow> time \<Rightarrow> loop_manager \<Rightarrow> loop_manager \<times> string option" where
  "loops_Stop quote fault i now m = transition quote fault i (stop_loop now) m"

definition loops_Pause ::
    "(string \<Rightarrow> string) \<Rightarrow> write_result \<Rightarrow> string \<Rightarrow> loop_manager \<Rightarrow> loop_manager \<times> string option" where
  "loops_Pause quote fault i m = transition quote fault i (pause_loop i) m"

definition loops_Resume ::
    "(string \<Rightarrow> string) \<Rightarrow> write_result \<Rightarrow> string \<Rightarrow> time \<Rightarrow> loop_manager \<Rightarrow> loop_manager \<times> string option" where
  "loops_Resume quote fault i now m = transition quote fault i (resume_loop i now) m"

definition FireNow ::
    "(string \<Rightarrow> string) \<Rightarrow> write_result \<Rightarrow> string \<Rightarrow> time \<Rightarrow> loop_manager \<Rightarrow> loop_manager \<times> string option" where
  "FireNow quote fault i now m = transition quote fault i (fire_loop i now) m"

definition loops_Remove ::
    "(string \<Rightarrow> string) \<Rightarrow> string option \<Rightarrow> string \<Rightarrow> loop_manager \<Rightarrow> loop_manager \<times> string option" where
  "loops_Remove quote fault i m =
     (case map_of (lm_loops m) i of
        None \<Rightarrow> (m, Some (not_found i))
      | Some _ \<Rightarrow>
          (case Storage_Delete quote fault i (lm_disk m) of
             (d, Some e) \<Rightarrow> (m\<lparr>lm_disk := d\<rparr>, Some e)
           | (d, None) \<Rightarrow>
               (m\<lparr>lm_disk := d, lm_loops := AList.delete i (lm_loops m),
                  lm_removed := lm_removed m @ (if lm_onRemove m then [i] else [])\<rparr>, None)))"

text \<open>The errors of \<open>RecordIteration\<close>: \<open>ErrLoopGone\<close>, \<open>ErrLoopNotRunning\<close> and those of the storage.\<close>

datatype record_error = LoopGone | LoopNotRunning loop_status | NotSaved string

definition RecordIteration ::
    "(string \<Rightarrow> string) \<Rightarrow> (string \<Rightarrow> string) \<Rightarrow> write_result \<Rightarrow> string \<Rightarrow> iteration \<Rightarrow> loop_manager \<Rightarrow>
     loop_manager \<times> record_error option" where
  "RecordIteration quote lower fault i it m =
     (case map_of (lm_loops m) i of
        None \<Rightarrow> (m, Some LoopGone)
      | Some l \<Rightarrow>
          if lp_Status l \<noteq> LoopRunning then (m, Some (LoopNotRunning (lp_Status l)))
          else let l' = AppendIteration lower it l
               in case Storage_Save quote fault l' (lm_disk m) of
                    (d, Some e) \<Rightarrow> (m\<lparr>lm_disk := d\<rparr>, Some (NotSaved e))
                  | (d, None) \<Rightarrow> (m\<lparr>lm_disk := d, lm_loops := AList.update i l' (lm_loops m)\<rparr>, None))"

definition loops_Get :: "string \<Rightarrow> loop_manager \<Rightarrow> loop option" where
  "loops_Get i m = map_of (lm_loops m) i"

definition loops_List :: "loop_manager \<Rightarrow> loop list" where
  "loops_List m = sortLoopsForDisplay (map snd (lm_loops m))"

definition loops_Active :: "loop_manager \<Rightarrow> loop list" where
  "loops_Active m = sortLoopsForDisplay (filter Loop_IsActive (map snd (lm_loops m)))"

end
