(* ===== verification/LoopRunner.thy ===== *)
theory LoopRunner
  imports LoopManager
begin

text \<open>
  \<open>internal/loops/runner.go\<close> and \<open>memory.go\<close>: what the scheduler reads out of the text of an iteration, the scheduler
  itself, and the writer of the markdown files. One firing is two steps, \<open>fire_begin\<close> and \<open>fire_end\<close> around the call of
  the spawner, so that everything else may happen between them; what the spawner returns, whether the parent
  context is cancelled, the clock and the answers of the file system are arguments. The text of the prompt
  (\<open>BuildIterationPrompt\<close>) and of the markdown (\<open>RenderLoopMarkdown\<close>) are not modelled.
\<close>

section \<open>Reading the text of an iteration\<close>

definition newline :: char where "newline = CHR 0x0A"

definition ellipsis :: string where
  "ellipsis = [CHR 0xE2, CHR 0x80, CHR 0xA6]"

text \<open>\<open>strings.ToUpper\<close> as an ASCII pattern sees it: two other letters have an ASCII capital.\<close>

definition upper_char :: "char \<Rightarrow> char" where
  "upper_char c = (let n = of_char c :: nat in if 97 \<le> n \<and> n \<le> 122 then char_of (n - 32) else c)"

fun to_upper :: "string \<Rightarrow> string" where
  "to_upper [] = []"
| "to_upper (c # cs) =
     (if has_prefix (c # cs) [CHR 0xC4, CHR 0xB1] then CHR ''I'' # to_upper (drop 1 cs)
      else if has_prefix (c # cs) [CHR 0xC5, CHR 0xBF] then CHR ''S'' # to_upper (drop 1 cs)
      else upper_char c # to_upper cs)"

text \<open>\<open>strings.Split\<close> at the empty line: a pair of line feeds.\<close>

fun split_paragraphs :: "string \<Rightarrow> string list" where
  "split_paragraphs [] = [[]]"
| "split_paragraphs [c] = [[c]]"
| "split_paragraphs (c # d # s) =
     (if c = newline \<and> d = newline then [] # split_paragraphs s
      else case split_paragraphs (d # s) of [] \<Rightarrow> [[c]] | p # ps \<Rightarrow> (c # p) # ps)"

definition truncateForSummary :: "string \<Rightarrow> string" where
  "truncateForSummary s =
     (let r = to_runes (trim_space s) in if length r \<le> 200 then of_runes r else of_runes (take (200 - 3) r) @ ''...'')"

definition looksLikeMetadata :: "string \<Rightarrow> bool" where
  "looksLikeMetadata p \<longleftrightarrow>
     has_prefix p (replicate 3 (CHR 0x60)) \<or> has_prefix (to_upper p) ''HANDOFF:'' \<or>
     has_prefix p ''---'' \<or> has_prefix p ''==='' \<or> has_prefix p ''#'' \<and> newline \<notin> set p"

definition summarizeOutput :: "string \<Rightarrow> string \<Rightarrow> string" where
  "summarizeOutput out0 fallback =
     (let out = trim_space out0
      in if out = [] then fallback
         else case List.find (\<lambda>p. p \<noteq> [] \<and> \<not> looksLikeMetadata p) (map trim_space (rev (split_paragraphs out))) of
                Some p \<Rightarrow> truncateForSummary p
              | None \<Rightarrow> truncateForSummary out)"

text \<open>
  The regular expression \<open>loopMachineErrWrapperRe\<close>, ignoring case (a letter \<open>s\<close> is also the long s, two bytes):
  one of two phrases at a word boundary, an optional parenthesis of at most 40 characters, a colon and white space.
\<close>

definition word_byte :: "char \<Rightarrow> bool" where
  "word_byte c \<longleftrightarrow>
     (let n = of_char c :: nat in 97 \<le> n \<and> n \<le> 122 \<or> 65 \<le> n \<and> n \<le> 90 \<or> 48 \<le> n \<and> n \<le> 57 \<or> c = CHR ''_'')"

definition re_space :: "char \<Rightarrow> bool" where
  "re_space c \<longleftrightarrow> c \<in> {CHR 0x09, CHR 0x0A, CHR 0x0C, CHR 0x0D, CHR '' ''}"

fun match_fold :: "string \<Rightarrow> string \<Rightarrow> string option" where
  "match_fold [] s = Some s"
| "match_fold (p # ps) [] = None"
| "match_fold (p # ps) (c # s) =
     (if lower_char c = p then match_fold ps s
      else if p = CHR ''s'' \<and> has_prefix (c # s) [CHR 0xC5, CHR 0xBF] then match_fold ps (drop 1 s)
      else None)"

definition match_paren :: "string \<Rightarrow> string option" where
  "match_paren s =
     (case dropWhile re_space s of
        [] \<Rightarrow> None
      | c # t \<Rightarrow>
          let inner = takeWhile (\<lambda>d. d \<noteq> CHR '')'') t
          in if c = CHR ''('' \<and> length inner < length t \<and> length (to_runes inner) \<le> 40
             then Some (drop (length inner + 1) t) else None)"

definition match_wrapper :: "string \<Rightarrow> string option" where
  "match_wrapper s =
     (case (case match_fold ''model response error'' s of
              Some t \<Rightarrow> Some t
            | None \<Rightarrow> match_fold ''function response error'' s) of
        None \<Rightarrow> None
      | Some t \<Rightarrow>
          let u = (case match_paren t of Some v \<Rightarrow> v | None \<Rightarrow> t)
          in if has_prefix u '':'' then Some (dropWhile re_space (tl u)) else None)"

text \<open>\<open>prev\<close> is the byte in front, which decides the word boundary; \<open>n\<close> bounds the recursion by the length.\<close>

fun strip_wrappers :: "nat \<Rightarrow> char option \<Rightarrow> string \<Rightarrow> string" where
  "strip_wrappers 0 prev s = []"
| "strip_wrappers (Suc n) prev s =
     (case s of
        [] \<Rightarrow> []
      | c # cs \<Rightarrow>
          (case (if (case prev of None \<Rightarrow> True | Some p \<Rightarrow> \<not> word_byte p) then match_wrapper s else None) of
             Some t \<Rightarrow> strip_wrappers n (Some (last (take (length s - length t) s))) t
           | None \<Rightarrow> c # strip_wrappers n (Some c) cs))"

definition truncateErr :: "string \<Rightarrow> string" where
  "truncateErr s0 =
     (let s = trim_space (strip_wrappers (length s0 + 1) None s0); r = to_runes s; head = 200 * 2 div 3; tail = 200 - head - 1
      in if length r \<le> 200 then s else of_runes (take head r) @ ellipsis @ of_runes (drop (length r - tail) r))"

fun next_hint_lines :: "string list \<Rightarrow> string" where
  "next_hint_lines [] = []"
| "next_hint_lines (raw # rest) =
     (let line = trim_space raw; lower = to_lower line
      in if has_prefix lower ''next:'' then trim_space (drop 5 line)
         else if has_prefix lower ''next check in '' then trim_space (drop (length ''next check in '') line)
         else if has_prefix lower ''wait '' \<and> length line \<le> 20 then trim_space line
         else next_hint_lines rest)"

definition parseNextHint :: "string \<Rightarrow> string" where
  "parseNextHint out = next_hint_lines (split_at newline out)"

definition latestHandoff :: "iteration list \<Rightarrow> string \<times> int" where
  "latestHandoff its =
     (case List.find (\<lambda>it. it_Handoff it \<noteq> []) (rev its) of Some it \<Rightarrow> (it_Handoff it, it_N it) | None \<Rightarrow> ([], 0))"

definition renderFilesTouchedInline :: "string list \<Rightarrow> string" where
  "renderFilesTouchedInline files =
     (if files = [] then []
      else if length files \<le> 4 then join '', '' files
      else join '', '' (take 4 files) @ '' +'' @ show_nat (length files - 4) @ '' more'')"

definition done_marker :: "string \<Rightarrow> bool" where
  "done_marker line \<longleftrightarrow> to_lower line \<in> {''done.'', ''done'', ''loop done.'', ''loop_done'', ''loop: done''}"

fun handoff_body :: "string list \<Rightarrow> string list" where
  "handoff_body [] = []"
| "handoff_body (raw # rest) =
     (let line = rev (dropWhile (\<lambda>c. c = CHR '' '' \<or> c = CHR 0x09) (rev raw)); trimmed = trim_space line
      in if trimmed = [] then []
         else if done_marker trimmed then handoff_body rest
         else line # handoff_body rest)"

definition handoff_line :: "string \<Rightarrow> bool" where
  "handoff_line line \<longleftrightarrow> has_prefix (to_upper (trim_space line)) ''HANDOFF:''"

text \<open>The lines from the last one that opens a block.\<close>

definition from_handoff :: "string list \<Rightarrow> string list" where
  "from_handoff lines =
     (let after = takeWhile (\<lambda>l. \<not> handoff_line l) (rev lines)
      in drop (length lines - length after - 1) lines)"

definition parseHandoff :: "string \<Rightarrow> string" where
  "parseHandoff out =
     (let lines = split_at newline out
      in if \<not> list_ex handoff_line lines then []
         else case from_handoff lines of
                [] \<Rightarrow> []
              | l # rest \<Rightarrow>
                  let first = trim_space (drop (length ''HANDOFF:'') (trim_space l));
                      block = (if first \<noteq> [] then [first] else []) @ handoff_body rest;
                      handoff = trim_space (join [newline] block); runes = to_runes handoff
                  in if MaxHandoffRunes < length runes then of_runes (take MaxHandoffRunes runes) @ ellipsis else handoff)"

definition capFilesTouched :: "string list \<Rightarrow> string list" where
  "capFilesTouched files = take MaxFilesTouchedPerIteration files"

definition parseDoneSignal :: "string \<Rightarrow> bool" where
  "parseDoneSignal out =
     (case List.find (\<lambda>l. l \<noteq> []) (map trim_space (rev (split_at newline (rev (dropWhile (\<lambda>c. c = newline) (rev out)))))) of
        Some line \<Rightarrow> done_marker line
      | None \<Rightarrow> False)"

section \<open>The scheduler\<close>

record spawn_result =
  sr_Output :: string
  sr_OK :: bool
  sr_Transient :: bool
  sr_TokensIn :: int
  sr_TokensOut :: int
  sr_MadeChanges :: bool
  sr_TimedOut :: bool
  sr_FilesTouched :: "string list"

text \<open>What the spawner does: it returns a result and an error, or it panics.\<close>

datatype spawn_outcome = Spawned spawn_result "string option" | SpawnPanics

datatype iteration_event =
  IterationStart string | IterationDone string iteration | IterationPersistFailed string int string

text \<open>
  The hooks log what they receive. \<open>rn_iteration\<close> are the local variables of the running goroutine: the snapshot of
  the loop and, once the spawner is called, when it was and which of the last two hooks there were.
  \<open>rn_inFlight\<close> is the loop of \<open>inFlightCancel\<close>.
\<close>

record runner =
  rn_period :: duration
  rn_timeout :: duration
  rn_workDir :: string
  rn_started :: bool
  rn_stopped :: bool
  rn_iterationRunning :: bool
  rn_inFlight :: "string option"
  rn_userCancelled :: bool
  rn_scanRotation :: nat
  rn_onStart :: bool
  rn_onDone :: bool
  rn_onPersistFailed :: bool
  rn_iteration :: "(loop \<times> (time \<times> bool \<times> bool) option) option"
  rn_events :: "iteration_event list"

definition DefaultIterationTimeout :: duration where "DefaultIterationTimeout = 30 * minute"

definition NewRunner :: runner where
  "NewRunner =
     \<lparr>rn_period = DefaultPollPeriod, rn_timeout = DefaultIterationTimeout, rn_workDir = [], rn_started = False,
      rn_stopped = False, rn_iterationRunning = False, rn_inFlight = None, rn_userCancelled = False, rn_scanRotation = 0,
      rn_onStart = False, rn_onDone = False, rn_onPersistFailed = False, rn_iteration = None, rn_events = []\<rparr>"

definition runner_SetWorkDir :: "string \<Rightarrow> runner \<Rightarrow> runner" where
  "runner_SetWorkDir dir r = r\<lparr>rn_workDir := trim_space dir\<rparr>"

definition SetPeriod :: "duration \<Rightarrow> runner \<Rightarrow> runner" where
  "SetPeriod p r = (if \<not> rn_started r then r\<lparr>rn_period := p\<rparr> else r)"

definition SetIterationTimeout :: "duration \<Rightarrow> runner \<Rightarrow> runner" where
  "SetIterationTimeout t r = (if \<not> rn_started r then r\<lparr>rn_timeout := t\<rparr> else r)"

definition SetIterationPersistFailedHook :: "bool \<Rightarrow> runner \<Rightarrow> runner" where
  "SetIterationPersistFailedHook b r = r\<lparr>rn_onPersistFailed := b\<rparr>"

definition SetIterationStartHook :: "bool \<Rightarrow> runner \<Rightarrow> runner" where
  "SetIterationStartHook b r = r\<lparr>rn_onStart := b\<rparr>"

definition SetIterationDoneHook :: "bool \<Rightarrow> runner \<Rightarrow> runner" where
  "SetIterationDoneHook b r = r\<lparr>rn_onDone := b\<rparr>"

text \<open>\<open>Start\<close> panics (\<open>None\<close>) on a missing spawner or idle checker.\<close>

definition runner_Start :: "bool \<Rightarrow> bool \<Rightarrow> runner \<Rightarrow> runner option" where
  "runner_Start has_spawn has_idle r =
     (if rn_started r then Some r else if \<not> has_spawn then None else if \<not> has_idle then None
      else Some (r\<lparr>rn_started := True\<rparr>))"

definition runner_Stop :: "runner \<Rightarrow> runner" where
  "runner_Stop r = r\<lparr>rn_stopped := True\<rparr>"

text \<open>Whether the scheduler may fire a loop; a loop without an owner is adopted, which may fail.\<close>

definition ownsLoop ::
    "(string \<Rightarrow> string) \<Rightarrow> (string \<Rightarrow> write_result) \<Rightarrow> string \<Rightarrow> loop \<Rightarrow> loop_manager \<Rightarrow> loop_manager \<times> bool" where
  "ownsLoop quote faults workDir l m =
     (if workDir = [] then (m, True)
      else if lp_WorkDir l = [] then
        (case AdoptWorkspace quote (faults (lp_ID l)) (lp_ID l) workDir m of (m', e) \<Rightarrow> (m', e = None))
      else (m, path_Clean (lp_WorkDir l) = path_Clean workDir))"

text \<open>The loop of \<open>tick\<close> over the indices in rotated order: the first loop that is due and owned.\<close>

fun scan_loops ::
    "(string \<Rightarrow> string) \<Rightarrow> (string \<Rightarrow> write_result) \<Rightarrow> string \<Rightarrow> time \<Rightarrow> loop list \<Rightarrow> nat list \<Rightarrow> loop_manager \<Rightarrow>
     loop_manager \<times> nat option" where
  "scan_loops quote faults workDir now active [] m = (m, None)"
| "scan_loops quote faults workDir now active (idx # idxs) m =
     (if \<not> IsDue (active ! idx) now then scan_loops quote faults workDir now active idxs m
      else case ownsLoop quote faults workDir (active ! idx) m of
             (m', owned) \<Rightarrow> if \<not> owned then scan_loops quote faults workDir now active idxs m' else (m', Some idx))"

text \<open>
  \<open>tick\<close>: \<open>idle1\<close> and \<open>idle2\<close> are the two answers of the idle checker. Firing sets the flag and starts the goroutine.
\<close>

definition tick ::
    "(string \<Rightarrow> string) \<Rightarrow> (string \<Rightarrow> write_result) \<Rightarrow> bool \<Rightarrow> bool \<Rightarrow> bool \<Rightarrow> time \<Rightarrow> runner \<times> loop_manager \<Rightarrow> runner \<times> loop_manager" where
  "tick quote faults ctxErr idle1 idle2 now = (\<lambda>(r, m).
     if ctxErr then (r, m)
     else if rn_iterationRunning r \<or> \<not> idle1 then (r, m)
     else let active = loops_Active m; n = length active
          in if n = 0 then (r\<lparr>rn_scanRotation := 0\<rparr>, m)
             else let start = rn_scanRotation r mod n
                  in case scan_loops quote faults (rn_workDir r) now active (map (\<lambda>i. (start + i) mod n) [0..<n]) m of
                       (m', None) \<Rightarrow> (r, m')
                     | (m', Some idx) \<Rightarrow>
                         if \<not> idle2 then (r, m')
                         else (r\<lparr>rn_scanRotation := idx + 1, rn_iterationRunning := True,
                                 rn_iteration := Some (active ! idx, None)\<rparr>, m'))"

text \<open>The end of the goroutine: its deferred functions.\<close>

definition fire_return :: "runner \<times> loop_manager \<Rightarrow> runner \<times> loop_manager" where
  "fire_return = (\<lambda>(r, m).
     (r\<lparr>rn_inFlight := None, rn_iterationRunning := False, rn_iteration := None\<rparr>, ClearFiring m))"

text \<open>\<open>fireOne\<close> up to the call of the spawner; before the call nothing is deferred but the flag.\<close>

definition log_event :: "bool \<Rightarrow> iteration_event \<Rightarrow> runner \<Rightarrow> runner" where
  "log_event hook e r = (if hook then r\<lparr>rn_events := rn_events r @ [e]\<rparr> else r)"

definition fire_begin :: "bool \<Rightarrow> time \<Rightarrow> runner \<times> loop_manager \<Rightarrow> runner \<times> loop_manager" where
  "fire_begin ctxErr started = (\<lambda>(r, m).
     case rn_iteration r of
       Some (l, None) \<Rightarrow>
         (case (if ctxErr then None else loops_Get (lp_ID l) m) of
            None \<Rightarrow> (r\<lparr>rn_iterationRunning := False, rn_iteration := None\<rparr>, m)
          | Some current \<Rightarrow>
              if lp_Status current \<noteq> LoopRunning then (r\<lparr>rn_iterationRunning := False, rn_iteration := None\<rparr>, m)
              else ((log_event (rn_onStart r) (IterationStart (lp_ID l)) r)
                      \<lparr>rn_inFlight := Some (lp_ID l), rn_userCancelled := False, 
                       rn_iteration := Some (l, Some (started, rn_onDone r, rn_onPersistFailed r))\<rparr>,
                    SetFiring (lp_ID l) started m))
     | _ \<Rightarrow> (r, m))"

text \<open>What the iteration is recorded as.\<close>

definition build_iteration :: "loop \<Rightarrow> time \<Rightarrow> duration \<Rightarrow> spawn_result \<Rightarrow> string option \<Rightarrow> iteration" where
  "build_iteration l started dur res err =
     \<lparr>it_N = lp_IterationCount l + 1, it_StartedAt = started, it_Duration = dur,
      it_Summary =
        (case err of
           Some e \<Rightarrow> ''Iteration error: '' @ truncateErr e
         | None \<Rightarrow>
             if \<not> sr_OK res then summarizeOutput (sr_Output res) ''iteration did not complete cleanly''
             else summarizeOutput (sr_Output res) ''iteration completed''),
      it_OK = (sr_OK res \<and> err = None),
      it_Transient = (sr_Transient res \<and> \<not> sr_OK res \<and> err = None),
      it_TimedOut = (sr_TimedOut res \<and> \<not> sr_OK res \<and> err = None),
      it_MadeChanges = sr_MadeChanges res, it_TokensIn = sr_TokensIn res, it_TokensOut = sr_TokensOut res,
      it_NextHint = (if sr_OK res \<and> err = None then parseNextHint (sr_Output res) else []),
      it_Handoff = parseHandoff (sr_Output res), it_FilesTouched = capFilesTouched (sr_FilesTouched res)\<rparr>"

definition agent_done :: "spawn_result \<Rightarrow> string option \<Rightarrow> bool" where
  "agent_done res err \<longleftrightarrow> err = None \<and> sr_OK res \<and> parseDoneSignal (sr_Output res)"

text \<open>\<open>fireOne\<close> from the result on: \<open>fault1\<close> answers the write of the iteration and \<open>fault2\<close> that of the stop.\<close>

definition record_result ::
    "(string \<Rightarrow> string) \<Rightarrow> (string \<Rightarrow> string) \<Rightarrow> write_result \<Rightarrow> write_result \<Rightarrow> time \<Rightarrow> loop \<Rightarrow> iteration \<Rightarrow> bool \<Rightarrow>
     bool \<Rightarrow> bool \<Rightarrow> runner \<times> loop_manager \<Rightarrow> runner \<times> loop_manager" where
  "record_result quote lower fault1 fault2 now l it agentDone doneHook persistFailedHook = (\<lambda>(r, m).
     case RecordIteration quote lower fault1 (lp_ID l) it m of
       (m', Some LoopGone) \<Rightarrow> (r, m')
     | (m', Some (LoopNotRunning _)) \<Rightarrow> (r, m')
     | (m', Some (NotSaved e)) \<Rightarrow>
         (log_event persistFailedHook (IterationPersistFailed (lp_ID l) (it_N it) e) r, m')
     | (m', None) \<Rightarrow>
         (log_event doneHook (IterationDone (lp_ID l) it) r,
          if agentDone then fst (loops_Stop quote fault2 (lp_ID l) now m') else m'))"

definition fire_end ::
    "(string \<Rightarrow> string) \<Rightarrow> (string \<Rightarrow> string) \<Rightarrow> write_result \<Rightarrow> write_result \<Rightarrow> bool \<Rightarrow> time \<Rightarrow> time \<Rightarrow> spawn_outcome \<Rightarrow>
     runner \<times> loop_manager \<Rightarrow> runner \<times> loop_manager" where
  "fire_end quote lower fault1 fault2 ctxErr finished now outcome = (\<lambda>(r, m).
     case rn_iteration r of
       Some (l, Some (started, doneHook, persistFailedHook)) \<Rightarrow>
         fire_return
           (case outcome of
              SpawnPanics \<Rightarrow> (r, m)
            | Spawned res err \<Rightarrow>
                if ctxErr then (r, m)
                else if rn_userCancelled r then (r, m)
                else record_result quote lower fault1 fault2 now l
                       (build_iteration l started (time_sub finished started) res err) (agent_done res err)
                       doneHook persistFailedHook (r, m))
     | _ \<Rightarrow> (r, m))"

definition CancelInFlight :: "string \<Rightarrow> runner \<Rightarrow> runner \<times> bool" where
  "CancelInFlight loopID r =
     (case rn_inFlight r of
        None \<Rightarrow> (r, False)
      | Some i \<Rightarrow> if loopID \<noteq> [] \<and> loopID \<noteq> i then (r, False) else (r\<lparr>rn_userCancelled := True\<rparr>, True))"

section \<open>The markdown files (\<open>memory.go\<close>)\<close>

text \<open>\<open>mw_files\<close> maps the name of a loop to the text of its file; \<open>render\<close> is \<open>RenderLoopMarkdown\<close>.\<close>

record memory_writer =
  mw_workDir :: string
  mw_deleted :: "string set"
  mw_files :: "string \<rightharpoonup> string"

definition NewMemoryWriter :: "string \<Rightarrow> (string \<rightharpoonup> string) \<Rightarrow> memory_writer option" where
  "NewMemoryWriter workDir files =
     (if trim_space workDir = [] then None else Some \<lparr>mw_workDir = workDir, mw_deleted = {}, mw_files = files\<rparr>)"

definition WriteLoop ::
    "(string \<Rightarrow> string) \<Rightarrow> (loop \<Rightarrow> string) \<Rightarrow> write_result \<Rightarrow> loop \<Rightarrow> memory_writer \<Rightarrow> memory_writer \<times> string option" where
  "WriteLoop quote render fault l w =
     (if \<not> isSafeLoopID (lp_ID l) then (w, Some (''loops memory: refuse to write unsafe loop id '' @ quote (lp_ID l)))
      else if lp_ID l \<in> mw_deleted w then (w, None)
      else let w1 = w\<lparr>mw_files := (mw_files w)(lp_ID l \<mapsto> render l)\<rparr>
           in case fault of NotWritten e \<Rightarrow> (w, Some e) | Written \<Rightarrow> (w1, None) | WriteUncertain e \<Rightarrow> (w1, Some e))"

definition DeleteLoop ::
    "(string \<Rightarrow> string) \<Rightarrow> string option \<Rightarrow> string \<Rightarrow> memory_writer \<Rightarrow> memory_writer \<times> string option" where
  "DeleteLoop quote fault i w =
     (if i = [] then (w, None)
      else if \<not> isSafeLoopID i then (w, Some (''loops memory: refuse to delete unsafe loop id '' @ quote i))
      else let w1 = w\<lparr>mw_deleted := insert i (mw_deleted w)\<rparr>
           in case fault of
                Some e \<Rightarrow> (w1, Some (''loops memory: delete '' @ i @ '': '' @ e))
              | None \<Rightarrow> (w1\<lparr>mw_files := (mw_files w1)(i := None)\<rparr>, None))"

end
