(* ===== verification/LoopInv.thy ===== *)
theory LoopInv
  imports LoopManager
begin

text \<open>
  What the loop manager keeps true: every loop, in memory and on disk, is valid and below its limits, its counters add
  up and its history is bounded, and what is finished in memory is so on disk. As long as no write ends with the sync
  of the directory failing, memory and disk also mirror each other. The contract of one operation on the manager is the
  locale \<open>loops_operation\<close> (a failed operation leaves the loops in memory alone, every operation keeps the
  invariant); \<open>quiet_operation\<close> adds that no history changes, which holds of every operation but
  \<open>RecordIteration\<close> and \<open>Add\<close>.
\<close>

section \<open>One loop\<close>

definition below_limit :: "loop \<Rightarrow> bool" where
  "below_limit l \<longleftrightarrow> lp_MaxIterations l \<le> 0 \<or> lp_IterationCount l < lp_MaxIterations l"

text \<open>
  The three breakers that count a streak of iterations. A resumed loop starts its streaks anew; the token budget is
  not reset by \<open>Resume\<close> and is looked at only when an iteration ends.
\<close>

definition below_streaks :: "loop \<Rightarrow> bool" where
  "below_streaks l \<longleftrightarrow>
     lp_ConsecutiveFailures l < ConsecutiveFailureLimit \<and> lp_ConsecutiveTransientFailures l < TransientFailureLimit \<and>
     lp_ConsecutiveNoProgress l < NoProgressLimit"

definition counters_ok :: "loop \<Rightarrow> bool" where
  "counters_ok l \<longleftrightarrow>
     0 \<le> lp_SuccessCount l \<and> 0 \<le> lp_FailureCount l \<and> lp_IterationCount l = lp_SuccessCount l + lp_FailureCount l \<and>
     0 \<le> lp_TotalTokensIn l \<and> 0 \<le> lp_TotalTokensOut l \<and>
     length (lp_Iterations l) = min MaxHistorySize (nat (lp_IterationCount l))"

definition loop_inv :: "(string \<Rightarrow> string) \<Rightarrow> loop \<Rightarrow> bool" where
  "loop_inv quote l \<longleftrightarrow>
     Loop_Validate quote l = None \<and> counters_ok l \<and>
     (lp_Status l = LoopRunning \<longrightarrow> below_limit l \<and> below_streaks l) \<and> (lp_Status l = LoopPaused \<longrightarrow> below_limit l)"

lemmas loop_inv_defs = loop_inv_def counters_ok_def below_limit_def below_streaks_def
lemmas limit_defs = MaxHistorySize_def ConsecutiveFailureLimit_def TransientFailureLimit_def NoProgressLimit_def

lemma Loop_Validate_cong:
  "lp_ID l' = lp_ID l \<Longrightarrow> lp_Task l' = lp_Task l \<Longrightarrow> lp_Mode l' = lp_Mode l \<Longrightarrow>
   lp_IntervalSeconds l' = lp_IntervalSeconds l \<Longrightarrow> (\<exists>x. lp_Status l' = LoopStatusOther x) \<longrightarrow> lp_Status l' = lp_Status l \<Longrightarrow>
   Loop_Validate quote l = None \<Longrightarrow> Loop_Validate quote l' = None"
  unfolding Loop_Validate_def
  by (cases "lp_Status l"; cases "lp_Status l'") (auto split: if_splits option.splits loop_mode.splits)

text \<open>What an iteration leaves alone, stage by stage.\<close>

definition same_setup :: "loop \<Rightarrow> loop \<Rightarrow> bool" where
  "same_setup l l' \<longleftrightarrow>
     lp_ID l' = lp_ID l \<and> lp_Task l' = lp_Task l \<and> lp_Mode l' = lp_Mode l \<and> lp_WorkDir l' = lp_WorkDir l \<and>
     lp_IntervalSeconds l' = lp_IntervalSeconds l \<and> lp_MinDelaySeconds l' = lp_MinDelaySeconds l \<and>
     lp_MaxIterations l' = lp_MaxIterations l \<and> lp_MaxTotalTokens l' = lp_MaxTotalTokens l \<and>
     lp_CreatedAt l' = lp_CreatedAt l"

lemma same_setup_refl [simp]: "same_setup l l"
  by (simp add: same_setup_def)

lemma same_setup_trans: "same_setup l l' \<Longrightarrow> same_setup l' l'' \<Longrightarrow> same_setup l l''"
  by (simp add: same_setup_def)

lemma counted:
  assumes "counters_ok l"
  shows "counters_ok (log_iteration it (count_outcome lower it (count_tokens it l)))"
    (is "counters_ok ?l'")
proof -
  have "lp_IterationCount ?l' = lp_IterationCount l + 1"
    by (simp add: log_iteration_def count_outcome_def count_tokens_def Let_def)
  moreover have "lp_Iterations ?l' = drop (Suc (length (lp_Iterations l)) - MaxHistorySize) (lp_Iterations l @ [it])"
    by (simp add: log_iteration_def count_outcome_def count_tokens_def Let_def)
  moreover have "nat (lp_IterationCount l + 1) = Suc (nat (lp_IterationCount l))"
    using assms by (simp only: counters_ok_def, linarith)
  moreover have "lp_SuccessCount ?l' + lp_FailureCount ?l' = lp_SuccessCount l + lp_FailureCount l + 1"
    "0 \<le> lp_SuccessCount ?l'" "0 \<le> lp_FailureCount ?l'" "0 \<le> lp_TotalTokensIn ?l'" "0 \<le> lp_TotalTokensOut ?l'"
    using assms by (auto simp: log_iteration_def count_outcome_def count_tokens_def Let_def counters_ok_def)
  moreover have "length (lp_Iterations l) = min 50 (nat (lp_IterationCount l))"
    using assms by (simp add: counters_ok_def limit_defs)
  ultimately show ?thesis using assms by (auto simp: counters_ok_def limit_defs min_def)
qed

lemma counters_ok_breakers: "counters_ok (breakers l) = counters_ok l"
  unfolding breakers_def auto_pause_def counters_ok_def by simp

lemma counters_ok_plan: "counters_ok (back_off it (schedule lower it l)) = counters_ok l"
  unfolding back_off_def schedule_def counters_ok_def by (simp add: Let_def split: loop_mode.split)

lemma stage_setup:
  "same_setup l (count_tokens it l)" "same_setup l (count_outcome lower it l)" "same_setup l (log_iteration it l)"
  "same_setup l (schedule lower it l)" "same_setup l (back_off it l)" "same_setup l (auto_pause b why l)"
  unfolding count_tokens_def count_outcome_def log_iteration_def schedule_def back_off_def auto_pause_def same_setup_def
  by (simp_all add: Let_def split: loop_mode.split)

lemma breakers_setup: "same_setup l (breakers l)"
proof (cases "0 < lp_MaxIterations l \<and> lp_MaxIterations l \<le> lp_IterationCount l")
  case True
  then show ?thesis unfolding breakers_def by (simp add: same_setup_def)
next
  case False
  then show ?thesis unfolding breakers_def by (simp only: if_False) (intro same_setup_trans [OF _ stage_setup(6)] same_setup_refl)
qed

lemma AppendIteration_setup: "same_setup l (AppendIteration lower it l)"
  unfolding AppendIteration_def
  by (intro same_setup_trans [OF _ breakers_setup] same_setup_trans [OF _ stage_setup(5)] same_setup_trans [OF _ stage_setup(4)]
      same_setup_trans [OF _ stage_setup(3)] same_setup_trans [OF _ stage_setup(2)] stage_setup(1))

lemma stage_status [simp]:
  "lp_Status (count_tokens it l) = lp_Status l" "lp_Status (count_outcome lower it l) = lp_Status l"
  "lp_Status (log_iteration it l) = lp_Status l" "lp_Status (schedule lower it l) = lp_Status l"
  "lp_Status (back_off it l) = lp_Status l"
  unfolding count_tokens_def count_outcome_def log_iteration_def schedule_def back_off_def
  by (simp_all add: Let_def split: loop_mode.split)

lemma breakers_trip:
  "lp_Status l = LoopRunning \<Longrightarrow>
   lp_Status (breakers l) \<in> {LoopRunning, LoopPaused, LoopCompleted} \<and>
   (lp_Status (breakers l) = LoopRunning \<longrightarrow> below_limit (breakers l) \<and> below_streaks (breakers l)) \<and>
   (lp_Status (breakers l) = LoopPaused \<longrightarrow> below_limit (breakers l))"
  unfolding breakers_def auto_pause_def below_limit_def below_streaks_def by (simp, linarith)

lemma AppendIteration_inv:
  assumes "loop_inv quote l" "lp_Status l = LoopRunning"
  shows "loop_inv quote (AppendIteration lower it l)"
proof -
  define l1 where "l1 = back_off it (schedule lower it (log_iteration it (count_outcome lower it (count_tokens it l))))"
  have "lp_Status l1 = LoopRunning" using assms(2) by (simp add: l1_def)
  note t = breakers_trip [OF this]
  moreover have "counters_ok (breakers l1)"
    using assms(1) by (simp add: l1_def counters_ok_breakers counters_ok_plan counted loop_inv_def)
  moreover have "Loop_Validate quote (breakers l1) = None"
    by (rule Loop_Validate_cong [of _ l])
      (use assms(1) t AppendIteration_setup [of l lower it] in
        \<open>auto simp: loop_inv_def same_setup_def AppendIteration_def l1_def\<close>)
  ultimately show ?thesis by (simp add: loop_inv_def AppendIteration_def l1_def)
qed

text \<open>What the commands of the user do to one loop.\<close>

definition same_log :: "loop \<Rightarrow> loop \<Rightarrow> bool" where
  "same_log l l' \<longleftrightarrow>
     lp_ID l' = lp_ID l \<and> lp_Iterations l' = lp_Iterations l \<and> lp_IterationCount l' = lp_IterationCount l \<and>
     lp_MaxIterations l' = lp_MaxIterations l \<and> lp_CreatedAt l' = lp_CreatedAt l"

definition adopt_loop :: "string \<Rightarrow> loop \<Rightarrow> string + loop" where
  "adopt_loop workDir l = Inr (if trim_space (lp_WorkDir l) \<noteq> [] then l else l\<lparr>lp_WorkDir := workDir\<rparr>)"

lemmas command_defs = adopt_loop_def stop_loop_def pause_loop_def resume_loop_def fire_loop_def

lemma command_log:
  "adopt_loop w l = Inr l' \<Longrightarrow> same_log l l'" "stop_loop now l = Inr l' \<Longrightarrow> same_log l l'"
  "pause_loop i l = Inr l' \<Longrightarrow> same_log l l'" "resume_loop i now l = Inr l' \<Longrightarrow> same_log l l'"
  "fire_loop i now l = Inr l' \<Longrightarrow> same_log l l'"
  by (auto simp: same_log_def command_defs split: if_splits)

lemma command_validate:
  "adopt_loop w l = Inr l' \<Longrightarrow> Loop_Validate quote l = None \<Longrightarrow> Loop_Validate quote l' = None"
  "stop_loop now l = Inr l' \<Longrightarrow> Loop_Validate quote l = None \<Longrightarrow> Loop_Validate quote l' = None"
  "pause_loop i l = Inr l' \<Longrightarrow> Loop_Validate quote l = None \<Longrightarrow> Loop_Validate quote l' = None"
  "resume_loop i now l = Inr l' \<Longrightarrow> Loop_Validate quote l = None \<Longrightarrow> Loop_Validate quote l' = None"
  "fire_loop i now l = Inr l' \<Longrightarrow> Loop_Validate quote l = None \<Longrightarrow> Loop_Validate quote l' = None"
  by (rule Loop_Validate_cong [of _ l]; auto simp: command_defs split: if_splits)+

lemma command_inv:
  "adopt_loop w l = Inr l' \<Longrightarrow> loop_inv quote l \<Longrightarrow> loop_inv quote l'"
  "stop_loop now l = Inr l' \<Longrightarrow> loop_inv quote l \<Longrightarrow> loop_inv quote l'"
  "pause_loop i l = Inr l' \<Longrightarrow> loop_inv quote l \<Longrightarrow> loop_inv quote l'"
  "resume_loop i now l = Inr l' \<Longrightarrow> loop_inv quote l \<Longrightarrow> loop_inv quote l'"
  "fire_loop i now l = Inr l' \<Longrightarrow> loop_inv quote l \<Longrightarrow> loop_inv quote l'"
  subgoal using command_validate(1) [of w l l' quote] by (auto simp: adopt_loop_def loop_inv_defs split: if_splits)
  subgoal using command_validate(2) [of now l l' quote] by (auto simp: stop_loop_def loop_inv_defs split: if_splits)
  subgoal using command_validate(3) [of i l l' quote] by (auto simp: pause_loop_def loop_inv_defs split: if_splits)
  subgoal using command_validate(4) [of i now l l' quote]
    by (auto simp: resume_loop_def loop_inv_defs limit_defs split: if_splits)
  subgoal using command_validate(5) [of i now l l' quote] by (auto simp: fire_loop_def loop_inv_defs split: if_splits)
  done

section \<open>A finished loop\<close>

definition finished :: "loop \<Rightarrow> bool" where
  "finished l \<longleftrightarrow> lp_Status l = LoopStopped \<or> lp_Status l = LoopCompleted"

text \<open>The same loop, but perhaps adopted by a workspace.\<close>

definition kept :: "loop \<Rightarrow> loop \<Rightarrow> bool" where
  "kept l l' \<longleftrightarrow> l'\<lparr>lp_WorkDir := []\<rparr> = l\<lparr>lp_WorkDir := []\<rparr>"

lemma kept_refl [simp]: "kept l l"
  by (simp add: kept_def)

lemma kept_finished: "kept l l' \<Longrightarrow> finished l' = finished l"
  unfolding kept_def by (drule arg_cong [where f = lp_Status]) (simp add: finished_def)

lemma kept_trans: "kept l l' \<Longrightarrow> kept l' l'' \<Longrightarrow> kept l l''"
  by (simp add: kept_def)

lemma finished_command:
  "finished l \<Longrightarrow> adopt_loop w l = Inr l' \<Longrightarrow> kept l l'" "finished l \<Longrightarrow> stop_loop now l = Inr l' \<Longrightarrow> kept l l'"
  "finished l \<Longrightarrow> pause_loop i l = Inr l' \<Longrightarrow> kept l l'" "finished l \<Longrightarrow> resume_loop i now l = Inr l' \<Longrightarrow> kept l l'"
  "finished l \<Longrightarrow> fire_loop i now l = Inr l' \<Longrightarrow> kept l l'"
  by (auto simp: kept_def finished_def command_defs split: if_splits)

section \<open>A loop through its state file\<close>

lemma json_iteration_idem [simp]: "json_iteration (json_iteration it) = json_iteration it"
  by (simp add: json_iteration_def)

lemma json_mode_simps [simp]:
  "json_mode (json_mode mode) = json_mode mode" "(json_mode mode = ModeInterval) = (mode = ModeInterval)"
  "(json_mode mode = ModeSelfPaced) = (mode = ModeSelfPaced)"
  by (cases mode; simp add: json_mode_def)+

lemma json_status_simps [simp]:
  "json_status (json_status st) = json_status st" "(json_status st = LoopRunning) = (st = LoopRunning)"
  "(json_status st = LoopPaused) = (st = LoopPaused)" "(json_status st = LoopStopped) = (st = LoopStopped)"
  "(json_status st = LoopCompleted) = (st = LoopCompleted)"
  by (cases st; simp add: json_status_def)+

lemma json_loop_idem [simp]: "json_loop (json_loop l) = json_loop l"
  by (simp add: json_loop_def)

lemma json_loop_next_run [simp]: "json_loop (l\<lparr>lp_NextRunAt := t\<rparr>) = (json_loop l)\<lparr>lp_NextRunAt := t\<rparr>"
  by (simp add: json_loop_def)

lemma json_loop_status [simp]: "lp_Status (json_loop l) = json_status (lp_Status l)"
  by (simp add: json_loop_def)

lemma json_finished [simp]: "finished (json_loop l) = finished l"
  by (simp add: finished_def)

lemma json_text_Nil [simp]: "json_text [] = []"
  by (simp add: json_text_ascii)

lemma json_kept: "kept l l' \<Longrightarrow> kept (json_loop l) (json_loop l')"
proof -
  have "(json_loop l)\<lparr>lp_WorkDir := []\<rparr> = json_loop (l\<lparr>lp_WorkDir := []\<rparr>)" for l by (simp add: json_loop_def)
  then show "kept l l' \<Longrightarrow> kept (json_loop l) (json_loop l')" by (simp add: kept_def)
qed

lemma safe_id_json: "isSafeLoopID i \<Longrightarrow> json_text i = i"
proof (rule json_text_ascii)
  have "byte c < 0x80" if "safe_id_char c" for c using that by (auto simp: safe_id_char_def byte_def Let_def)
  then show "isSafeLoopID i \<Longrightarrow> list_all (\<lambda>c. byte c < 0x80) i" by (auto simp: isSafeLoopID_def list_all_iff)
qed

lemma Validate_safe: "Loop_Validate quote l = None \<Longrightarrow> isSafeLoopID (lp_ID l)"
  by (auto simp: Loop_Validate_def split: if_splits)

lemma Validate_json: "Loop_Validate quote l = None \<Longrightarrow> Loop_Validate quote (json_loop l) = None"
proof -
  assume v: "Loop_Validate quote l = None"
  have "lp_ID (json_loop l) = lp_ID l" using safe_id_json [OF Validate_safe [OF v]] by (simp add: json_loop_def)
  moreover have "trim_space (lp_Task (json_loop l)) \<noteq> []"
    using v json_blank [of "lp_Task l"] by (auto simp: Loop_Validate_def json_loop_def split: if_splits)
  moreover have "lp_Mode l \<in> {ModeInterval, ModeSelfPaced}" "\<nexists>st. lp_Status l = LoopStatusOther st"
    using v by (auto simp: Loop_Validate_def split: if_splits option.splits loop_mode.splits loop_status.splits)
  then have "lp_Mode (json_loop l) = lp_Mode l" "lp_Status (json_loop l) = lp_Status l"
    by (auto simp: json_loop_def json_mode_def json_status_def split: loop_status.split)
  ultimately show ?thesis
    using v
    by (auto simp: Loop_Validate_def json_loop_def split: if_splits option.splits loop_mode.splits loop_status.splits)
qed

lemma loop_inv_json:
  assumes "loop_inv quote l"
  shows "loop_inv quote (json_loop l)" "lp_ID (json_loop l) = lp_ID l"
proof -
  have v: "Loop_Validate quote l = None" using assms by (simp add: loop_inv_def)
  show "lp_ID (json_loop l) = lp_ID l" using safe_id_json [OF Validate_safe [OF v]] by (simp add: json_loop_def)
  show "loop_inv quote (json_loop l)"
  proof -
    have "counters_ok (json_loop l) = counters_ok l" "below_limit (json_loop l) = below_limit l"
      "below_streaks (json_loop l) = below_streaks l"
      by (simp_all add: counters_ok_def below_limit_def below_streaks_def json_loop_def)
    then show ?thesis using assms Validate_json [OF v] by (simp add: loop_inv_def)
  qed
qed

section \<open>Memory and disk\<close>

text \<open>
  Memory holds what the disk holds, read through JSON, but for the next run of a running loop, which a restart staggers
  in memory only.
\<close>

definition in_step :: "loop \<Rightarrow> loop \<Rightarrow> bool" where
  "in_step onDisk l \<longleftrightarrow>
     json_loop l = onDisk \<or> lp_Status l = LoopRunning \<and> json_loop l = onDisk\<lparr>lp_NextRunAt := lp_NextRunAt l\<rparr>"

definition mirrored :: "loop_manager \<Rightarrow> bool" where
  "mirrored m \<longleftrightarrow> (\<forall>i. rel_option in_step (lm_disk m i) (map_of (lm_loops m) i))"

definition memory_inv :: "(string \<Rightarrow> string) \<Rightarrow> loop_manager \<Rightarrow> bool" where
  "memory_inv quote m \<longleftrightarrow>
     distinct (map fst (lm_loops m)) \<and>
     (\<forall>i l. map_of (lm_loops m) i = Some l \<longrightarrow> lp_ID l = i \<and> loop_inv quote l)"

definition disk_inv :: "(string \<Rightarrow> string) \<Rightarrow> loop_manager \<Rightarrow> bool" where
  "disk_inv quote m \<longleftrightarrow> (\<forall>i d. lm_disk m i = Some d \<longrightarrow> lp_ID d = i \<and> loop_inv quote d \<and> json_loop d = d)"

text \<open>A loop that is finished in memory is the same on disk, even after writes whose outcome is uncertain.\<close>

definition finals_safe :: "loop_manager \<Rightarrow> bool" where
  "finals_safe m \<longleftrightarrow>
     (\<forall>i l. map_of (lm_loops m) i = Some l \<longrightarrow> finished l \<longrightarrow> (\<exists>d. lm_disk m i = Some d \<and> kept (json_loop l) d))"

definition manager_inv :: "(string \<Rightarrow> string) \<Rightarrow> loop_manager \<Rightarrow> bool" where
  "manager_inv quote m \<longleftrightarrow> memory_inv quote m \<and> disk_inv quote m \<and> finals_safe m"

lemmas manager_inv_defs = manager_inv_def memory_inv_def disk_inv_def finals_safe_def

lemma manager_invD:
  assumes "manager_inv quote m" "map_of (lm_loops m) i = Some l"
  shows "lp_ID l = i" "loop_inv quote l"
  using assms by (auto simp: manager_inv_def memory_inv_def)

lemma Loop_Validate_next_run [simp]: "Loop_Validate quote (l\<lparr>lp_NextRunAt := t\<rparr>) = Loop_Validate quote l"
  by (cases "lp_Mode l"; cases "lp_Status l"; simp add: Loop_Validate_def)

lemma loop_inv_next_run [simp]: "loop_inv quote (l\<lparr>lp_NextRunAt := t\<rparr>) = loop_inv quote l"
  by (simp add: loop_inv_defs)

text \<open>A write that reaches the disk, with the loops in memory following it or not.\<close>

lemma write_disk:
  assumes "manager_inv quote m" "lp_ID l' = i" "loop_inv quote l'"
    and "\<And>l. map_of (lm_loops m) i = Some l \<Longrightarrow> finished l \<Longrightarrow> kept l l'"
  shows "manager_inv quote (m\<lparr>lm_disk := (lm_disk m)(i \<mapsto> json_loop l')\<rparr>)"
  using assms loop_inv_json [OF assms(3)] by (auto simp: manager_inv_defs intro: json_kept)

lemma write_through:
  assumes "manager_inv quote m" "lp_ID l = i" "loop_inv quote l"
  shows "manager_inv quote (m\<lparr>lm_disk := (lm_disk m)(i \<mapsto> json_loop l), lm_loops := AList.update i l (lm_loops m)\<rparr>)"
  using assms loop_inv_json [OF assms(3)] by (auto simp: manager_inv_defs update_conv' distinct_update)

lemma mirrored_write:
  "mirrored m \<Longrightarrow> lp_ID l = i \<Longrightarrow>
   mirrored (m\<lparr>lm_disk := (lm_disk m)(lp_ID l \<mapsto> json_loop l), lm_loops := AList.update i l (lm_loops m)\<rparr>)"
  by (auto simp: mirrored_def update_conv' in_step_def)

text \<open>The three ways a save ends.\<close>

definition certain_write :: "write_result \<Rightarrow> bool" where
  "certain_write result \<longleftrightarrow> (\<forall>e. result \<noteq> WriteUncertain e)"

lemma certain_write_simps [simp]:
  "certain_write Written" "certain_write (NotWritten e)" "\<not> certain_write (WriteUncertain e)"
  by (simp_all add: certain_write_def)

lemma save_cases:
  "Storage_Save quote result l d = (d', e) \<Longrightarrow>
   (e \<noteq> None \<and> d' = d) \<or>
   (e \<noteq> None \<and> d' = d(lp_ID l \<mapsto> json_loop l) \<and> \<not> certain_write result) \<or>
   (e = None \<and> d' = d(lp_ID l \<mapsto> json_loop l) \<and> result = Written)"
  by (auto simp: Storage_Save_def split: option.splits write_result.splits)

section \<open>The contract of an operation\<close>

text \<open>
  \<open>certain\<close> excludes a write whose outcome is uncertain; \<open>ready\<close> is what the operation asks of the state.
\<close>

locale loops_operation =
  fixes quote :: "string \<Rightarrow> string" and certain :: bool and ready :: "loop_manager \<Rightarrow> bool"
    and op :: "loop_manager \<Rightarrow> loop_manager \<times> 'e option"
  assumes failed: "snd (op m) \<noteq> None \<Longrightarrow> \<exists>d. fst (op m) = m\<lparr>lm_disk := d\<rparr> \<and> (certain \<longrightarrow> d = lm_disk m)"
    and keeps: "ready m \<Longrightarrow> manager_inv quote m \<Longrightarrow> manager_inv quote (fst (op m))"
    and mirrors: "certain \<Longrightarrow> manager_inv quote m \<Longrightarrow> mirrored m \<Longrightarrow> mirrored (fst (op m))"
begin

lemma memory_rolled_back: "snd (op m) \<noteq> None \<Longrightarrow> lm_loops (fst (op m)) = lm_loops m"
  using failed [of m] by auto

lemma nothing_changed: "snd (op m) \<noteq> None \<Longrightarrow> certain \<Longrightarrow> fst (op m) = m"
  using failed [of m] by auto

lemma running_within_limits:
  "ready m \<Longrightarrow> manager_inv quote m \<Longrightarrow> loops_Get i (fst (op m)) = Some l \<Longrightarrow> lp_Status l = LoopRunning \<Longrightarrow>
   below_limit l \<and> below_streaks l"
  using keeps [of m] by (auto simp: manager_inv_defs loops_Get_def loop_inv_def)

end

locale quiet_operation = loops_operation quote certain "\<lambda>_. True" op
  for quote certain and op :: "loop_manager \<Rightarrow> loop_manager \<times> 'e option" +
  assumes quiet: "map_of (lm_loops (fst (op m))) i = Some l' \<Longrightarrow>
      \<exists>l. map_of (lm_loops m) i = Some l \<and> (l' = l \<or> same_log l l')"
    and quiet_disk: "lm_disk (fst (op m)) i = Some d \<Longrightarrow>
      lm_disk m i = Some d \<or> (\<exists>j l l'. map_of (lm_loops m) j = Some l \<and> same_log l l' \<and> d = json_loop l')"
begin

lemma history_kept: "loops_Get i (fst (op m)) = Some l' \<Longrightarrow>
    \<exists>l. loops_Get i m = Some l \<and> lp_Iterations l' = lp_Iterations l \<and> lp_IterationCount l' = lp_IterationCount l"
  using quiet [of m i l'] by (auto simp: loops_Get_def same_log_def)

end

text \<open>What a transition that is not refused by the command does.\<close>

lemma loop_transition_cases:
  assumes "transition quote fault i f m = (m', e)"
  shows "(m' = m \<and> e \<noteq> None) \<or>
    (\<exists>l l'. map_of (lm_loops m) i = Some l \<and> f l = Inr l' \<and>
       (e \<noteq> None \<and> m' = m\<lparr>lm_disk := (lm_disk m)(lp_ID l' \<mapsto> json_loop l')\<rparr> \<and> \<not> certain_write fault \<or>
        e = None \<and> fault = Written \<and>
        m' = m\<lparr>lm_disk := (lm_disk m)(lp_ID l' \<mapsto> json_loop l'), lm_loops := AList.update i l' (lm_loops m)\<rparr>))"
  using assms
  by (auto simp: transition_def split: option.splits sum.splits prod.splits dest!: save_cases)

lemma transition_quiet:
  assumes log: "\<And>l l'. f l = Inr l' \<Longrightarrow> same_log l l'"
    and inv: "\<And>l l'. f l = Inr l' \<Longrightarrow> loop_inv quote l \<Longrightarrow> loop_inv quote l'"
    and fin: "\<And>l l'. finished l \<Longrightarrow> f l = Inr l' \<Longrightarrow> kept l l'"
  shows "quiet_operation quote (certain_write fault) (transition quote fault i f)"
proof
  fix m
  obtain m' e where t: "transition quote fault i f m = (m', e)" by fastforce
  note cases = loop_transition_cases [OF t]
  show "snd (transition quote fault i f m) \<noteq> None \<Longrightarrow>
      \<exists>d. fst (transition quote fault i f m) = m\<lparr>lm_disk := d\<rparr> \<and> (certain_write fault \<longrightarrow> d = lm_disk m)"
    using cases by (auto simp: t intro: exI [of _ "lm_disk m"])
  have ids: "lp_ID l' = i" "loop_inv quote l'"
    if "manager_inv quote m" "map_of (lm_loops m) i = Some l" "f l = Inr l'" for l l'
    using manager_invD [OF that(1,2)] log [OF that(3)] inv [OF that(3)] by (simp_all add: same_log_def)
  show "manager_inv quote (fst (transition quote fault i f m))" if m: "manager_inv quote m"
    using cases
  proof (elim disjE exE conjE)
    fix l l' assume l: "map_of (lm_loops m) i = Some l" "f l = Inr l'"
    note i = ids [OF m l]
    have k: "kept l0 l'" if "map_of (lm_loops m) i = Some l0" "finished l0" for l0 using that l fin by simp
    show ?thesis if "m' = m\<lparr>lm_disk := (lm_disk m)(lp_ID l' \<mapsto> json_loop l')\<rparr>"
      using that write_disk [OF m i k] i(1) by (simp add: t)
    show ?thesis
      if "m' = m\<lparr>lm_disk := (lm_disk m)(lp_ID l' \<mapsto> json_loop l'), lm_loops := AList.update i l' (lm_loops m)\<rparr>"
      using that write_through [OF m i] i(1) by (simp add: t)
  qed (simp add: t m)
  show "mirrored (fst (transition quote fault i f m))" if "certain_write fault" "manager_inv quote m" "mirrored m"
    unfolding t fst_conv using cases that(1)
    by (elim disjE exE conjE) (simp_all add: that(3) mirrored_write [OF that(3) ids(1) [OF that(2)]])
  fix j l'
  show "\<exists>l. map_of (lm_loops m) j = Some l \<and> (l' = l \<or> same_log l l')"
    if "map_of (lm_loops (fst (transition quote fault i f m))) j = Some l'"
    using cases that log by (auto simp: t update_conv' split: if_splits)
  show "lm_disk m j = Some d \<or> (\<exists>j l l'. map_of (lm_loops m) j = Some l \<and> same_log l l' \<and> d = json_loop l')"
    if "lm_disk (fst (transition quote fault i f m)) j = Some d" for d
    using cases that by (auto simp: t split: if_splits) (use log in blast)+
qed

interpretation stop: quiet_operation quote "certain_write fault" "loops_Stop quote fault i now" for quote fault i now
  unfolding loops_Stop_def by (rule transition_quiet) (auto dest: command_log command_inv finished_command)

interpretation pause: quiet_operation quote "certain_write fault" "loops_Pause quote fault i" for quote fault i
  unfolding loops_Pause_def by (rule transition_quiet) (auto dest: command_log command_inv finished_command)

interpretation resume: quiet_operation quote "certain_write fault" "loops_Resume quote fault i now" for quote fault i now
  unfolding loops_Resume_def by (rule transition_quiet) (auto dest: command_log command_inv finished_command)

interpretation fire_now: quiet_operation quote "certain_write fault" "FireNow quote fault i now" for quote fault i now
  unfolding FireNow_def by (rule transition_quiet) (auto dest: command_log command_inv finished_command)

lemma adopt_unfold:
  "AdoptWorkspace quote fault i dir m =
     (if trim_space dir = [] then (m, Some (''cannot adopt loop '' @ i @ '' into an empty workspace''))
      else transition quote fault i (adopt_loop (trim_space dir)) m)"
  unfolding AdoptWorkspace_def adopt_loop_def [abs_def] Let_def by (rule refl)

lemma same_disk [simp]: "\<exists>d. m = m\<lparr>lm_disk := d\<rparr>" "\<exists>d. m = m\<lparr>lm_disk := d\<rparr> \<and> (certain \<longrightarrow> d = lm_disk m)"
  by (rule exI [of _ "lm_disk m"], simp)+

lemma guarded_quiet:
  assumes "quiet_operation quote certain op"
  shows "quiet_operation quote certain (\<lambda>m. if b then (m, Some e) else op m)"
  using assms
  by (cases b) (auto simp: quiet_operation_def quiet_operation_axioms_def loops_operation_def)

interpretation adopt: quiet_operation quote "certain_write fault" "AdoptWorkspace quote fault i dir" for quote fault i dir
  unfolding adopt_unfold [abs_def]
  by (intro guarded_quiet transition_quiet) (auto dest: command_log command_inv finished_command)

interpretation remove: quiet_operation quote True "loops_Remove quote fault i" for quote fault i
proof
  fix m :: loop_manager
  show "snd (loops_Remove quote fault i m) \<noteq> None \<Longrightarrow>
      \<exists>d. fst (loops_Remove quote fault i m) = m\<lparr>lm_disk := d\<rparr> \<and> (True \<longrightarrow> d = lm_disk m)"
    by (auto simp: loops_Remove_def Storage_Delete_def split: option.splits intro: exI [of _ "lm_disk m"])
  show "manager_inv quote m \<Longrightarrow> manager_inv quote (fst (loops_Remove quote fault i m))"
    by (auto simp: loops_Remove_def Storage_Delete_def manager_inv_defs delete_conv' distinct_delete
        simp del: map_of_eq_Some_iff split: option.splits if_splits)
  show "mirrored m \<Longrightarrow> mirrored (fst (loops_Remove quote fault i m))"
    by (auto simp: loops_Remove_def Storage_Delete_def mirrored_def delete_conv' split: option.splits if_splits)
  fix j
  show "map_of (lm_loops (fst (loops_Remove quote fault i m))) j = Some l' \<Longrightarrow>
    \<exists>l. map_of (lm_loops m) j = Some l \<and> (l' = l \<or> same_log l l')" for l'
    by (auto simp: loops_Remove_def Storage_Delete_def delete_conv' split: option.splits if_splits)
  show "lm_disk (fst (loops_Remove quote fault i m)) j = Some d \<Longrightarrow>
    lm_disk m j = Some d \<or> (\<exists>j l l'. map_of (lm_loops m) j = Some l \<and> same_log l l' \<and> d = json_loop l')" for d
    by (auto simp: loops_Remove_def Storage_Delete_def split: option.splits if_splits)
qed

text \<open>The record of an iteration: refused, lost, written but not believed, or kept.\<close>

lemma record_cases:
  assumes "RecordIteration quote lower fault i it m = (m', e)"
  shows "(m' = m \<and> e \<noteq> None) \<or>
    (\<exists>l l'. map_of (lm_loops m) i = Some l \<and> lp_Status l = LoopRunning \<and> l' = AppendIteration lower it l \<and>
       ((\<exists>w. e = Some (NotSaved w)) \<and> m' = m\<lparr>lm_disk := (lm_disk m)(lp_ID l' \<mapsto> json_loop l')\<rparr> \<and> \<not> certain_write fault \<or>
        e = None \<and> fault = Written \<and>
        m' = m\<lparr>lm_disk := (lm_disk m)(lp_ID l' \<mapsto> json_loop l'), lm_loops := AList.update i l' (lm_loops m)\<rparr>))"
  using assms
  by (auto simp: RecordIteration_def Let_def split: option.splits prod.splits if_splits dest!: save_cases)

lemma recorded_loop:
  assumes "manager_inv quote m" "map_of (lm_loops m) i = Some l" "lp_Status l = LoopRunning"
  shows "lp_ID (AppendIteration lower it l) = i" "loop_inv quote (AppendIteration lower it l)"
  using manager_invD [OF assms(1,2)] assms(3) AppendIteration_setup [of l lower it]
  by (auto simp: same_setup_def intro: AppendIteration_inv)

interpretation recorded: loops_operation quote "certain_write fault" "\<lambda>_. True" "RecordIteration quote lower fault i it"
  for quote lower fault i it
proof
  fix m :: loop_manager
  obtain m' e where r: "RecordIteration quote lower fault i it m = (m', e)" by fastforce
  note cases = record_cases [OF r]
  show "snd (RecordIteration quote lower fault i it m) \<noteq> None \<Longrightarrow>
      \<exists>d. fst (RecordIteration quote lower fault i it m) = m\<lparr>lm_disk := d\<rparr> \<and> (certain_write fault \<longrightarrow> d = lm_disk m)"
    using cases by (auto simp: r intro: exI [of _ "lm_disk m"])
  show "manager_inv quote (fst (RecordIteration quote lower fault i it m))" if m: "manager_inv quote m"
    using cases
  proof (elim disjE exE conjE)
    fix l l' assume l: "map_of (lm_loops m) i = Some l" "lp_Status l = LoopRunning" "l' = AppendIteration lower it l"
    note i = recorded_loop [OF m l(1,2), of lower it, folded l(3)]
    have k: "kept l0 l'" if "map_of (lm_loops m) i = Some l0" "finished l0" for l0 using that l by (simp add: finished_def)
    show ?thesis if "m' = m\<lparr>lm_disk := (lm_disk m)(lp_ID l' \<mapsto> json_loop l')\<rparr>"
      using that write_disk [OF m i k] i(1) by (simp add: r)
    show ?thesis
      if "m' = m\<lparr>lm_disk := (lm_disk m)(lp_ID l' \<mapsto> json_loop l'), lm_loops := AList.update i l' (lm_loops m)\<rparr>"
      using that write_through [OF m i] i(1) by (simp add: r)
  qed (simp add: r m)
  show "mirrored (fst (RecordIteration quote lower fault i it m))"
    if "certain_write fault" "manager_inv quote m" "mirrored m"
    unfolding r fst_conv using cases that(1)
    by (elim disjE exE conjE) (simp_all add: that(3) mirrored_write [OF that(3) recorded_loop(1) [OF that(2)]])
qed

text \<open>A new loop: valid, running, and with nothing recorded.\<close>

definition fresh_loop :: "loop \<Rightarrow> bool" where
  "fresh_loop l \<longleftrightarrow>
     lp_Status l = LoopRunning \<and> lp_Iterations l = [] \<and> lp_IterationCount l = 0 \<and> lp_SuccessCount l = 0 \<and>
     lp_FailureCount l = 0 \<and> lp_TotalTokensIn l = 0 \<and> lp_TotalTokensOut l = 0 \<and> lp_ConsecutiveFailures l = 0 \<and>
     lp_ConsecutiveTransientFailures l = 0 \<and> lp_ConsecutiveNoProgress l = 0"

lemma option_fresh: "fresh_loop (apply_option opt l) = fresh_loop l" "lp_ID (apply_option opt l) = lp_ID l"
  by (cases opt; simp add: fresh_loop_def)+

lemma options_fresh: "fresh_loop (fold apply_option opts l) = fresh_loop l" "lp_ID (fold apply_option opts l) = lp_ID l"
  by (induction opts arbitrary: l) (simp_all add: option_fresh)

lemma fresh_inv: "fresh_loop l \<Longrightarrow> Loop_Validate quote l = None \<Longrightarrow> loop_inv quote l"
  by (auto simp: fresh_loop_def loop_inv_defs limit_defs)

lemma add_result:
  assumes "loops_Add quote fault buf task mode n opts now m = (m', res)"
  shows "(\<exists>e. res = Inl e \<and> m' = m) \<or>
    (\<exists>l. lp_ID l = NewID buf \<and> fresh_loop l \<and> loop_inv quote l \<and>
       ((\<exists>e. res = Inl e) \<and> \<not> certain_write fault \<and> m' = m\<lparr>lm_disk := (lm_disk m)(lp_ID l \<mapsto> json_loop l)\<rparr> \<or>
        res = Inr l \<and>
        m' = m\<lparr>lm_disk := (lm_disk m)(lp_ID l \<mapsto> json_loop l), lm_loops := AList.update (lp_ID l) l (lm_loops m)\<rparr>))"
proof -
  define l where "l = (fold apply_option opts (new_loop (NewID buf) task mode n now (lm_workDir m)))
    \<lparr>lp_NextRunAt := (if mode = ModeInterval then now + seconds_duration n else now)\<rparr>"
  have "fresh_loop (new_loop (NewID buf) task mode n now (lm_workDir m))" by (simp add: fresh_loop_def new_loop_def)
  then have "fresh_loop l"
    using options_fresh(1) [of opts] by (simp add: l_def fresh_loop_def)
  moreover have "lp_ID l = NewID buf" by (simp add: l_def options_fresh new_loop_def)
  ultimately show ?thesis
    using assms fresh_inv [of l quote]
    unfolding loops_Add_def Let_def l_def [symmetric]
    by (auto split: if_splits option.splits prod.splits dest!: save_cases)
qed

definition fresh_id :: "nat list \<Rightarrow> loop_manager \<Rightarrow> bool" where
  "fresh_id buf m \<longleftrightarrow> map_of (lm_loops m) (NewID buf) = None"

interpretation add: loops_operation quote "certain_write fault" "fresh_id buf"
  "\<lambda>m. case loops_Add quote fault buf task mode n opts now m of (m', res) \<Rightarrow>
     (m', case res of Inl e \<Rightarrow> Some e | Inr l \<Rightarrow> None)" for quote fault buf task mode n opts now
proof
  fix m :: loop_manager
  let ?op = "case loops_Add quote fault buf task mode n opts now m of (m', res) \<Rightarrow>
      (m', case res of Inl e \<Rightarrow> Some e | Inr l \<Rightarrow> None)"
  obtain m' res where r: "loops_Add quote fault buf task mode n opts now m = (m', res)" by fastforce
  note cases = add_result [OF r]
  show "snd ?op \<noteq> None \<Longrightarrow> \<exists>d. fst ?op = m\<lparr>lm_disk := d\<rparr> \<and> (certain_write fault \<longrightarrow> d = lm_disk m)"
    using cases by (auto simp: r intro: exI [of _ "lm_disk m"] split: sum.splits)
  show "manager_inv quote (fst ?op)" if "fresh_id buf m" "manager_inv quote m"
  proof -
    have "manager_inv quote (m\<lparr>lm_disk := (lm_disk m)(lp_ID l \<mapsto> json_loop l)\<rparr>)"
      if l: "lp_ID l = NewID buf" "loop_inv quote l" for l
      by (rule write_disk) (use \<open>fresh_id buf m\<close> \<open>manager_inv quote m\<close> l in \<open>simp_all add: fresh_id_def\<close>)
    then show ?thesis using cases that(2) write_through [OF that(2) refl] by (auto simp: r)
  qed
  show "mirrored (fst ?op)" if "certain_write fault" "mirrored m"
    using cases that(1) mirrored_write [OF that(2) refl] by (elim disjE exE conjE) (simp_all add: r that(2), metis)
qed

end
