(* ===== verification/LoopText.thy ===== *)
theory LoopText
  imports LoopRunner LoopInv
begin

text \<open>
  The text of an iteration is bounded, whatever the agent writes, and the numbers in the history of a loop are
  consecutive: the invariants of one record and of one history that the scheduler keeps.
\<close>

section \<open>How many characters\<close>

definition runes :: "string \<Rightarrow> nat" where
  "runes s = length (to_runes s)"

lemma runes_of_runes_append: "runes (of_runes rs @ s) = length rs + runes s"
proof -
  define fixed where "fixed = map (\<lambda>r. if scalar r then r else RuneError) rs"
  have f: "list_all scalar fixed" by (auto simp: fixed_def list_all_iff scalar_def RuneError_def)
  have "of_runes fixed = of_runes rs"
    unfolding of_runes_def fixed_def
    by (auto simp: encode_rune_def scalar_def RuneError_def intro!: arg_cong [where f = concat])
  with to_runes_of_runes_append [OF f, of s] show ?thesis by (simp add: runes_def fixed_def)
qed

lemma runes_Nil [simp]: "runes [] = 0"
  by (simp add: runes_def)

lemma runes_of_runes [simp]: "runes (of_runes rs) = length rs"
  using runes_of_runes_append [of rs "[]"] by simp

lemma runes_ascii: "list_all (\<lambda>c. byte c < 0x80) a \<Longrightarrow> runes (a @ s) = length a + runes s"
  by (induction a) (simp_all add: runes_def decode_rune.simps(2) Let_def)

lemma runes_ellipsis: "runes (ellipsis @ s) = Suc (runes s)"
proof -
  have "ellipsis = of_runes [0x2026]"
    by code_simp
  then show ?thesis using runes_of_runes_append [of "[0x2026]" s] by simp
qed

lemma runes_summary: "runes (truncateForSummary s) \<le> 200"
  using runes_ascii [of "''...''" "[]"]
  by (simp add: truncateForSummary_def Let_def runes_of_runes_append byte_def)

lemma runes_error: "runes (truncateErr s) \<le> 200"
  by (simp add: truncateErr_def Let_def runes_of_runes_append runes_ellipsis runes_def [symmetric])

lemma runes_summarize:
  assumes "runes fallback \<le> 200"
  shows "runes (summarizeOutput out fallback) \<le> 200"
  unfolding summarizeOutput_def Let_def using assms by (simp add: runes_summary split: option.split)

lemma runes_handoff: "runes (parseHandoff out) \<le> MaxHandoffRunes + 1"
  unfolding parseHandoff_def Let_def using runes_ellipsis [of "[]"]
  by (simp add: runes_of_runes_append runes_def [symmetric] split: list.split)

section \<open>Bounded records\<close>

definition bounded_iteration :: "iteration \<Rightarrow> bool" where
  "bounded_iteration it \<longleftrightarrow>
     runes (it_Summary it) \<le> 217 \<and> runes (it_Handoff it) \<le> MaxHandoffRunes + 1 \<and>
     length (it_FilesTouched it) \<le> MaxFilesTouchedPerIteration"

lemma build_iteration_bounded: "bounded_iteration (build_iteration l started dur res err)"
proof -
  have "runes (''Iteration error: '' @ truncateErr e) \<le> 217" for e
    using runes_error [of e] by (subst runes_ascii) (simp_all add: byte_def)
  moreover have "runes ''iteration did not complete cleanly'' \<le> 200" "runes ''iteration completed'' \<le> 200"
    using runes_ascii [of "''iteration did not complete cleanly''" "[]"] runes_ascii [of "''iteration completed''" "[]"]
    by (simp_all add: byte_def)
  then have "runes (summarizeOutput out ''iteration did not complete cleanly'') \<le> 217"
    "runes (summarizeOutput out ''iteration completed'') \<le> 217" for out
    using runes_summarize [of "''iteration did not complete cleanly''" out] runes_summarize [of "''iteration completed''" out]
    by linarith+
  ultimately show ?thesis
    by (simp add: bounded_iteration_def build_iteration_def runes_handoff [simplified] capFilesTouched_def split: option.split)
qed

section \<open>Numbered histories\<close>

definition log_ok :: "loop \<Rightarrow> bool" where
  "log_ok l \<longleftrightarrow>
     map it_N (lp_Iterations l) = [lp_IterationCount l - int (length (lp_Iterations l)) + 1 .. lp_IterationCount l] \<and>
     list_all bounded_iteration (lp_Iterations l)"

lemma log_ok_same: "same_log l l' \<Longrightarrow> log_ok l' = log_ok l"
  by (simp add: same_log_def log_ok_def)

lemma log_ok_json [simp]: "log_ok (json_loop l) = log_ok l"
proof -
  have "bounded_iteration (json_iteration it) = bounded_iteration it" "it_N (json_iteration it) = it_N it" for it
    by (simp_all add: bounded_iteration_def json_iteration_def runes_def)
  then show ?thesis by (simp add: log_ok_def json_loop_def list_all_iff o_def)
qed

lemma stage_log:
  "lp_Iterations (AppendIteration lower it l) =
     drop (Suc (length (lp_Iterations l)) - MaxHistorySize) (lp_Iterations l @ [it])"
  "lp_IterationCount (AppendIteration lower it l) = lp_IterationCount l + 1"
proof -
  have b: "lp_Iterations (breakers l) = lp_Iterations l" "lp_IterationCount (breakers l) = lp_IterationCount l" for l
    unfolding breakers_def auto_pause_def by simp_all
  have p: "lp_Iterations (back_off it l) = lp_Iterations l" "lp_IterationCount (back_off it l) = lp_IterationCount l"
    "lp_Iterations (schedule lower it l) = lp_Iterations l" "lp_IterationCount (schedule lower it l) = lp_IterationCount l" for l
    unfolding back_off_def schedule_def by (simp_all add: Let_def split: loop_mode.split)
  have c: "lp_Iterations (count_outcome lower it l) = lp_Iterations l"
    "lp_IterationCount (count_outcome lower it l) = lp_IterationCount l" for l
    unfolding count_outcome_def by (simp_all add: Let_def)
  show "lp_Iterations (AppendIteration lower it l) =
      drop (Suc (length (lp_Iterations l)) - MaxHistorySize) (lp_Iterations l @ [it])"
    by (simp add: AppendIteration_def b p log_iteration_def Let_def c count_tokens_def)
  show "lp_IterationCount (AppendIteration lower it l) = lp_IterationCount l + 1"
    by (simp add: AppendIteration_def b p log_iteration_def Let_def c count_tokens_def)
qed

lemma drop_upto: "drop k [i..j] = [i + int k..j]"
proof (induction k arbitrary: i)
  case (Suc k)
  then show ?case
    by (cases "i \<le> j") (simp_all add: upto_rec1 algebra_simps)
qed simp

lemma AppendIteration_log:
  assumes "log_ok l" "counters_ok l" "it_N it = lp_IterationCount l + 1" "bounded_iteration it"
  shows "log_ok (AppendIteration lower it l)"
proof -
  define k where "k = Suc (length (lp_Iterations l)) - MaxHistorySize"
  have len: "int (length (lp_Iterations l)) \<le> lp_IterationCount l" "k \<le> length (lp_Iterations l)"
    using assms(2) by (auto simp: counters_ok_def k_def limit_defs)
  then have "map it_N (lp_Iterations l @ [it]) =
      [lp_IterationCount l - int (length (lp_Iterations l)) + 1 .. lp_IterationCount l + 1]"
    using assms(1,3) by (simp add: log_ok_def upto_rec2 [of _ "lp_IterationCount l + 1"])
  then have "map it_N (drop k (lp_Iterations l @ [it])) =
      [lp_IterationCount l - int (length (lp_Iterations l)) + 1 + int k .. lp_IterationCount l + 1]"
    by (simp only: drop_map [symmetric] drop_upto)
  moreover have "list_all bounded_iteration (drop k (lp_Iterations l @ [it]))"
    using assms(1,4) by (auto simp: log_ok_def list_all_iff dest: in_set_dropD)
  moreover have "lp_IterationCount l + 1 - int (length (drop k (lp_Iterations l @ [it]))) + 1 =
      lp_IterationCount l - int (length (lp_Iterations l)) + 1 + int k"
    using len(2) by (simp add: of_nat_diff)
  ultimately show ?thesis unfolding log_ok_def stage_log k_def [symmetric] by (simp only: simp_thms)
qed

end
