(* ===== verification/LoopSystem.thy ===== *)
theory LoopSystem
  imports LoopText "HOL-Library.Multiset"
begin

text \<open>
  The scheduler, the manager and the state files together, as a state machine: one operation of the user, of the
  scheduler's goroutine or of the iteration's goroutine per step, and restarts of the process in between. The answers
  of the clock, the file system, the idle checker and the spawner are part of the operation. A new identifier is
  assumed not to be in use (\<open>allowed\<close>): four random bytes. \<open>certain_op\<close> are the operations none of whose writes ends
  with the sync of the directory failing; they keep memory and disk mirrored.
\<close>

section \<open>Operations\<close>

datatype loops_op =
  LAdd write_result "nat list" string loop_mode int "add_option list" time
| LAdopt write_result string string
| LStop write_result string time
| LPause write_result string
| LResume write_result string time
| LFireNow write_result string time
| LRemove "string option" string
| LOnRemove bool
| LManagerDir string
| LTick "string \<Rightarrow> write_result" bool bool bool time
| LFireBegin bool time
| LFireEnd write_result write_result bool time time spawn_outcome
| LCancel string
| LRunnerDir string
| LHooks bool bool bool
| LRestart "string list" time

type_synonym loops_state = "runner \<times> loop_manager"

definition state_file :: "loop_manager \<Rightarrow> string \<Rightarrow> dir_entry" where
  "state_file m i = \<lparr>de_Name = i @ ''.json'', de_IsDir = False, de_content = Inr (the (lm_disk m i))\<rparr>"

fun loops_exec :: "(string \<Rightarrow> string) \<Rightarrow> (string \<Rightarrow> string) \<Rightarrow> loops_op \<Rightarrow> loops_state \<Rightarrow> loops_state" where
  "loops_exec quote lower (LAdd fault buf task mode n opts now) (r, m) = (r, fst (loops_Add quote fault buf task mode n opts now m))"
| "loops_exec quote lower (LAdopt fault i dir) (r, m) = (r, fst (AdoptWorkspace quote fault i dir m))"
| "loops_exec quote lower (LStop fault i now) (r, m) = (r, fst (loops_Stop quote fault i now m))"
| "loops_exec quote lower (LPause fault i) (r, m) = (r, fst (loops_Pause quote fault i m))"
| "loops_exec quote lower (LResume fault i now) (r, m) = (r, fst (loops_Resume quote fault i now m))"
| "loops_exec quote lower (LFireNow fault i now) (r, m) = (r, fst (FireNow quote fault i now m))"
| "loops_exec quote lower (LRemove fault i) (r, m) = (r, fst (loops_Remove quote fault i m))"
| "loops_exec quote lower (LOnRemove b) (r, m) = (r, loops_SetOnRemove b m)"
| "loops_exec quote lower (LManagerDir dir) (r, m) = (r, loops_SetWorkDir dir m)"
| "loops_exec quote lower (LTick faults ctxErr idle1 idle2 now) s = tick quote faults ctxErr idle1 idle2 now s"
| "loops_exec quote lower (LFireBegin ctxErr started) s = fire_begin ctxErr started s"
| "loops_exec quote lower (LFireEnd fault1 fault2 ctxErr ended now outcome) s =
     fire_end quote lower fault1 fault2 ctxErr ended now outcome s"
| "loops_exec quote lower (LCancel i) (r, m) = (fst (CancelInFlight i r), m)"
| "loops_exec quote lower (LRunnerDir dir) (r, m) = (runner_SetWorkDir dir r, m)"
| "loops_exec quote lower (LHooks a b c) (r, m) =
     (SetIterationStartHook a (SetIterationDoneHook b (SetIterationPersistFailedHook c r)), m)"
| "loops_exec quote lower (LRestart ids now) (r, m) = (NewRunner, loops_NewManager quote (map (state_file m) ids) now)"

text \<open>A new identifier is fresh; a restart finds every state file once, in some order.\<close>

definition in_flight_id :: "runner \<Rightarrow> string option" where
  "in_flight_id r = map_option (\<lambda>(l, _). lp_ID l) (rn_iteration r)"

fun allowed :: "loops_op \<Rightarrow> loops_state \<Rightarrow> bool" where
  "allowed (LAdd fault buf task mode n opts now) (r, m) \<longleftrightarrow>
     fresh_id buf m \<and> in_flight_id r \<noteq> Some (NewID buf)"
| "allowed (LRestart ids now) (r, m) \<longleftrightarrow> distinct ids \<and> set ids = dom (lm_disk m)"
| "allowed _ s \<longleftrightarrow> True"

fun certain_op :: "loops_op \<Rightarrow> bool" where
  "certain_op (LAdd fault buf task mode n opts now) \<longleftrightarrow> certain_write fault"
| "certain_op (LAdopt fault i dir) \<longleftrightarrow> certain_write fault"
| "certain_op (LStop fault i now) \<longleftrightarrow> certain_write fault"
| "certain_op (LPause fault i) \<longleftrightarrow> certain_write fault"
| "certain_op (LResume fault i now) \<longleftrightarrow> certain_write fault"
| "certain_op (LFireNow fault i now) \<longleftrightarrow> certain_write fault"
| "certain_op (LTick faults ctxErr idle1 idle2 now) \<longleftrightarrow> (\<forall>i. certain_write (faults i))"
| "certain_op (LFireEnd fault1 fault2 ctxErr ended now outcome) \<longleftrightarrow> certain_write fault1 \<and> certain_write fault2"
| "certain_op _ \<longleftrightarrow> True"

inductive loops_reach :: "(string \<Rightarrow> string) \<Rightarrow> (string \<Rightarrow> string) \<Rightarrow> loops_state \<Rightarrow> bool" for quote lower where
  reach_start: "loops_reach quote lower (NewRunner, loops_NewManager quote [] now)"
| reach_step: "loops_reach quote lower s \<Longrightarrow> allowed op s \<Longrightarrow> loops_reach quote lower (loops_exec quote lower op s)"

section \<open>The invariant\<close>

definition firing_ok :: "runner \<Rightarrow> loop_manager \<Rightarrow> bool" where
  "firing_ok r m \<longleftrightarrow>
     trim_space (rn_workDir r) = rn_workDir r \<and>
     (case rn_iteration r of
        None \<Rightarrow> \<not> rn_iterationRunning r \<and> rn_inFlight r = None
      | Some (l, called) \<Rightarrow>
          rn_iterationRunning r \<and> rn_inFlight r = (if called = None then None else Some (lp_ID l)) \<and>
          (\<forall>l'. map_of (lm_loops m) (lp_ID l) = Some l' \<longrightarrow> lp_IterationCount l' = lp_IterationCount l))"

definition logs_ok :: "loop_manager \<Rightarrow> bool" where
  "logs_ok m \<longleftrightarrow>
     (\<forall>i l. map_of (lm_loops m) i = Some l \<longrightarrow> log_ok l) \<and> (\<forall>i d. lm_disk m i = Some d \<longrightarrow> log_ok d)"

text \<open>\<open>certain\<close>: no write has had an uncertain outcome since the process started.\<close>

fun sys_inv :: "(string \<Rightarrow> string) \<Rightarrow> bool \<Rightarrow> loops_state \<Rightarrow> bool" where
  "sys_inv quote certain (r, m) \<longleftrightarrow> manager_inv quote m \<and> logs_ok m \<and> firing_ok r m \<and> (certain \<longrightarrow> mirrored m)"

lemma firing_ok_cong:
  "firing_ok r m \<Longrightarrow> rn_iteration r' = rn_iteration r \<Longrightarrow> rn_iterationRunning r' = rn_iterationRunning r \<Longrightarrow>
   rn_inFlight r' = rn_inFlight r \<Longrightarrow> trim_space (rn_workDir r') = rn_workDir r' \<Longrightarrow> lm_loops m' = lm_loops m \<Longrightarrow> firing_ok r' m'"
  unfolding firing_ok_def by (cases "rn_iteration r") auto

lemma flight_dir: "firing_ok r m \<Longrightarrow> trim_space (rn_workDir r) = rn_workDir r"
  by (simp add: firing_ok_def)

text \<open>Two managers with the same histories.\<close>

definition same_logs :: "loop_manager \<Rightarrow> loop_manager \<Rightarrow> bool" where
  "same_logs m m' \<longleftrightarrow>
     (\<forall>i l'. map_of (lm_loops m') i = Some l' \<longrightarrow> (\<exists>l. map_of (lm_loops m) i = Some l \<and> same_log l l')) \<and>
     (\<forall>i d. lm_disk m' i = Some d \<longrightarrow>
        lm_disk m i = Some d \<or> (\<exists>j l l'. map_of (lm_loops m) j = Some l \<and> same_log l l' \<and> d = json_loop l'))"

lemma same_log_refl [simp]: "same_log l l"
  by (simp add: same_log_def)

lemma same_logs_refl [simp]: "same_logs m m"
  by (simp add: same_logs_def)

lemma same_log_trans: "same_log l l' \<Longrightarrow> same_log l' l'' \<Longrightarrow> same_log l l''"
  by (simp add: same_log_def)

lemma same_logs_trans:
  assumes "same_logs m m'" "same_logs m' m''"
  shows "same_logs m m''"
proof -
  have mem: "\<exists>l. map_of (lm_loops m) i = Some l \<and> same_log l l''" if "map_of (lm_loops m') i = Some l'" "same_log l' l''" for i l' l''
    using that assms(1) same_log_trans unfolding same_logs_def by blast
  show ?thesis
    unfolding same_logs_def
  proof (intro conjI allI impI)
    fix i l' assume "map_of (lm_loops m'') i = Some l'"
    then show "\<exists>l. map_of (lm_loops m) i = Some l \<and> same_log l l'" using assms(2) mem unfolding same_logs_def by blast
  next
    fix i d assume "lm_disk m'' i = Some d"
    then consider "lm_disk m' i = Some d" | j l l' where "map_of (lm_loops m') j = Some l" "same_log l l'" "d = json_loop l'"
      using assms(2) unfolding same_logs_def by blast
    then show "lm_disk m i = Some d \<or> (\<exists>j l l'. map_of (lm_loops m) j = Some l \<and> same_log l l' \<and> d = json_loop l')"
      by cases (use assms(1) mem in \<open>unfold same_logs_def, blast+\<close>)
  qed
qed

lemma same_logs_keep:
  assumes "same_logs m m'"
  shows "logs_ok m \<Longrightarrow> logs_ok m'" "firing_ok r m \<Longrightarrow> firing_ok r m'"
proof -
  show "logs_ok m \<Longrightarrow> logs_ok m'"
    using assms log_ok_same log_ok_json unfolding logs_ok_def same_logs_def by metis
  have "lp_IterationCount l' = c" if "map_of (lm_loops m') i = Some l'" "\<forall>l. map_of (lm_loops m) i = Some l \<longrightarrow> lp_IterationCount l = c"
    for i l' c
    using assms that unfolding same_logs_def same_log_def by metis
  then show "firing_ok r m \<Longrightarrow> firing_ok r m'"
    unfolding firing_ok_def by (auto split: option.splits)
qed

lemma quiet_step:
  assumes "quiet_operation quote surely op" "sys_inv quote certain (r, m)" "certain \<Longrightarrow> surely"
  shows "sys_inv quote certain (r, fst (op m))" "same_logs m (fst (op m))"
proof -
  note op = quiet_operation.axioms(1) [OF assms(1)]
  show l: "same_logs m (fst (op m))"
    unfolding same_logs_def using quiet_operation.quiet [OF assms(1), of m] quiet_operation.quiet_disk [OF assms(1), of m]
    by (intro conjI allI impI) (use same_log_refl in blast)+
  show "sys_inv quote certain (r, fst (op m))"
    using assms(2,3) loops_operation.keeps [OF op] loops_operation.mirrors [OF op] same_logs_keep [OF l] by simp
qed

section \<open>The scheduler keeps it\<close>

lemma owns_step:
  assumes "sys_inv quote certain (r, m)" "ownsLoop quote faults dir l m = (m', owned)"
    and "certain \<Longrightarrow> certain_write (faults (lp_ID l))"
  shows "sys_inv quote certain (r, m')" "same_logs m m'"
  using quiet_step [OF adopt.quiet_operation_axioms assms(1,3), of "lp_ID l" dir] assms
  by (auto simp: ownsLoop_def split: if_splits prod.splits)

lemma scan_step:
  "sys_inv quote certain (r, m) \<Longrightarrow> scan_loops quote faults dir now active idxs m = (m', found) \<Longrightarrow>
   (\<And>i. certain \<Longrightarrow> certain_write (faults i)) \<Longrightarrow>
   sys_inv quote certain (r, m') \<and> same_logs m m' \<and>
   (\<forall>idx. found = Some idx \<longrightarrow> idx \<in> set idxs \<and> IsDue (active ! idx) now)"
proof (induction quote faults dir now active idxs m rule: scan_loops.induct)
  case (2 quote faults dir now active idx idxs m)
  obtain m1 owned where o: "ownsLoop quote faults dir (active ! idx) m = (m1, owned)" by fastforce
  note s = owns_step [OF 2(3) o "2.prems"(3)]
  consider "\<not> IsDue (active ! idx) now" | "IsDue (active ! idx) now" "\<not> owned" | "IsDue (active ! idx) now" owned by blast
  then show ?case
  proof cases
    case 1
    with "2.IH"(1) "2.prems" show ?thesis by auto
  next
    case 2
    then show ?thesis using "2.IH"(2) [OF _ o [symmetric]] "2.prems" o s same_logs_trans by fastforce
  next
    case 3
    then show ?thesis using "2.prems"(2) o s by auto
  qed
qed simp

lemma mset_bubble: "mset (bubble l xs) = add_mset l (mset xs)"
proof -
  have "mset (takeWhile (loopLess l) (rev xs)) + mset (dropWhile (loopLess l) (rev xs)) = mset xs"
    by (metis mset_append mset_rev takeWhile_dropWhile_id)
  then show ?thesis by (simp add: bubble_def ac_simps)
qed

lemma mset_sortLoops [simp]: "mset (sortLoopsForDisplay ls) = mset ls"
proof -
  have "mset (foldl (\<lambda>acc l. bubble l acc) a ls) = mset a + mset ls" for a
    by (induction ls arbitrary: a) (simp_all add: mset_bubble)
  then show ?thesis by (simp add: sortLoopsForDisplay_def)
qed

lemma set_sortLoops [simp]: "set (sortLoopsForDisplay ls) = set ls"
  by (rule mset_eq_setD) simp

lemma active_loop:
  assumes "manager_inv quote m" "l \<in> set (loops_Active m)"
  shows "map_of (lm_loops m) (lp_ID l) = Some l" "lp_Status l = LoopRunning"
proof -
  obtain i where i: "(i, l) \<in> set (lm_loops m)" and run: "lp_Status l = LoopRunning"
    using assms(2) by (auto simp: loops_Active_def Loop_IsActive_def)
  have "map_of (lm_loops m) i = Some l" using assms(1) i by (simp add: manager_inv_defs)
  moreover from this have "lp_ID l = i" using assms(1) manager_invD(1) by blast
  ultimately show "map_of (lm_loops m) (lp_ID l) = Some l" "lp_Status l = LoopRunning" using run by simp_all
qed

lemma tick_inv:
  assumes "sys_inv quote certain s" "\<And>i. certain \<Longrightarrow> certain_write (faults i)"
  shows "sys_inv quote certain (tick quote faults ctxErr idle1 idle2 now s)"
proof -
  obtain r m where s: "s = (r, m)" by fastforce
  define active n where "active = loops_Active m" and "n = length active"
  define idxs where "idxs = map (\<lambda>i. (rn_scanRotation r mod n + i) mod n) [0..<n]"
  obtain m' found where scan: "scan_loops quote faults (rn_workDir r) now active idxs m = (m', found)" by fastforce
  have inv: "sys_inv quote certain (r, m)" using assms(1) s by simp
  note st = scan_step [OF inv scan assms(2)]
  have "sys_inv quote certain (r\<lparr>rn_scanRotation := k\<rparr>, m)" for k
    using inv firing_ok_cong [of r m "r\<lparr>rn_scanRotation := k\<rparr>" m] flight_dir [of r m] by simp
  moreover have "sys_inv quote certain (r\<lparr>rn_scanRotation := idx + 1, rn_iterationRunning := True, rn_iteration := Some (active ! idx, None)\<rparr>, m')"
    if "found = Some idx" "\<not> rn_iterationRunning r" "active \<noteq> []" for idx
  proof -
    have "idx \<in> set idxs" using st that(1) by simp
    then have "idx < n" using that(3) by (auto simp: idxs_def n_def)
    then have "active ! idx \<in> set (loops_Active m)" by (simp add: active_def n_def)
    then have l: "map_of (lm_loops m) (lp_ID (active ! idx)) = Some (active ! idx)" using inv active_loop(1) [of quote m] by simp
    have "rn_iteration r = None \<and> rn_inFlight r = None" using inv that(2) by (auto simp: firing_ok_def split: option.splits)
    moreover have "lp_IterationCount l' = lp_IterationCount (active ! idx)"
      if "map_of (lm_loops m') (lp_ID (active ! idx)) = Some l'" for l'
      using st l that unfolding same_logs_def same_log_def by fastforce
    ultimately show ?thesis using st by (simp add: firing_ok_def)
  qed
  ultimately show ?thesis
    unfolding s tick_def using inv st scan
    by (auto simp: Let_def active_def [symmetric] n_def [symmetric] idxs_def [symmetric] split: option.splits)
qed

lemma firing_irrelevant [simp]:
  "manager_inv quote (m\<lparr>lm_firing := f\<rparr>) = manager_inv quote m" "logs_ok (m\<lparr>lm_firing := f\<rparr>) = logs_ok m"
  "mirrored (m\<lparr>lm_firing := f\<rparr>) = mirrored m" "firing_ok r (m\<lparr>lm_firing := f\<rparr>) = firing_ok r m"
  by (simp_all add: manager_inv_defs mirrored_def logs_ok_def firing_ok_def split: option.split)

lemma fire_begin_inv:
  assumes "sys_inv quote certain s"
  shows "sys_inv quote certain (fire_begin ctxErr started s)"
proof -
  obtain r m where s: "s = (r, m)" by fastforce
  show ?thesis
    using assms unfolding s fire_begin_def SetFiring_def
    by (auto simp: firing_ok_def log_event_def split: option.splits prod.splits)
qed

lemma record_step:
  assumes "sys_inv quote certain (r, m)" "rn_iteration r = Some (l, called)" "it_N it = lp_IterationCount l + 1" "bounded_iteration it"
    and "certain \<Longrightarrow> certain_write fault" "RecordIteration quote lower fault (lp_ID l) it m = (m', e)"
  shows "manager_inv quote m'" "logs_ok m'" "certain \<Longrightarrow> mirrored m'"
proof -
  have inv: "manager_inv quote m" "logs_ok m" using assms(1) by simp_all
  show "manager_inv quote m'" using recorded.keeps [OF TrueI inv(1), of lower fault "lp_ID l" it] assms(6) by simp
  show "mirrored m'" if certain
    using recorded.mirrors [OF assms(5) inv(1), of lower "lp_ID l" it] assms(1,6) that by simp
  have log: "log_ok (AppendIteration lower it l')" if "map_of (lm_loops m) (lp_ID l) = Some l'" for l'
  proof (rule AppendIteration_log)
    show "log_ok l'" "counters_ok l'" using inv that manager_invD(2) by (auto simp: logs_ok_def loop_inv_def)
    show "it_N it = lp_IterationCount l' + 1" using assms(1-3) that by (simp add: firing_ok_def)
  qed (rule assms)
  show "logs_ok m'"
    using record_cases [OF assms(6)]
    by (elim disjE exE conjE) (use inv(2) log in \<open>auto simp: logs_ok_def update_conv' split: if_splits\<close>)
qed

lemma fire_return_inv:
  "manager_inv quote m \<Longrightarrow> logs_ok m \<Longrightarrow> (certain \<Longrightarrow> mirrored m) \<Longrightarrow> trim_space (rn_workDir r) = rn_workDir r \<Longrightarrow>
   sys_inv quote certain (fire_return (r, m))"
  by (simp add: fire_return_def ClearFiring_def) (simp add: firing_ok_def)

lemma fire_end_inv:
  assumes "sys_inv quote certain s" "certain \<Longrightarrow> certain_write fault1" "certain \<Longrightarrow> certain_write fault2"
  shows "sys_inv quote certain (fire_end quote lower fault1 fault2 ctxErr ended now outcome s)"
proof -
  obtain r m where s: "s = (r, m)" by fastforce
  have inv: "sys_inv quote certain (r, m)" using assms(1) s by simp
  then have dir: "trim_space (rn_workDir r) = rn_workDir r" by (simp add: firing_ok_def)
  have rec: "sys_inv quote certain (fire_return (record_result quote lower fault1 fault2 now l it d h1 h2 (r, m)))"
    if "rn_iteration r = Some (l, called)" "it_N it = lp_IterationCount l + 1" "bounded_iteration it" for l called it d h1 h2
  proof -
    obtain m1 e where e: "RecordIteration quote lower fault1 (lp_ID l) it m = (m1, e)" by fastforce
    note m1 = record_step [OF inv that assms(2) e]
    define r1 where "r1 = r\<lparr>rn_iteration := None, rn_iterationRunning := False, rn_inFlight := None\<rparr>"
    have "sys_inv quote certain (r1, m1)" using m1 dir by (simp add: firing_ok_def r1_def)
    note stop = quiet_step(1) [OF stop.quiet_operation_axioms this assms(3), of "lp_ID l" now]
    show ?thesis
      unfolding record_result_def using e m1 stop dir
      by (auto simp: log_event_def split: option.splits record_error.splits intro!: fire_return_inv)
  qed
  show ?thesis
    unfolding s fire_end_def using inv dir rec build_iteration_bounded
    by (auto simp: build_iteration_def split: option.splits spawn_outcome.splits intro!: fire_return_inv rec)
qed

section \<open>New loops and restarts\<close>

lemma add_loop_inv:
  assumes "sys_inv quote certain (r, m)" "fresh_id buf m" "in_flight_id r \<noteq> Some (NewID buf)" "certain \<Longrightarrow> certain_write fault"
  shows "sys_inv quote certain (r, fst (loops_Add quote fault buf task mode n opts now m))"
proof -
  obtain m' res where a: "loops_Add quote fault buf task mode n opts now m = (m', res)" by fastforce
  have inv: "manager_inv quote m" "logs_ok m" "firing_ok r m" using assms(1) by simp_all
  have fresh: "log_ok l" if "fresh_loop l" for l using that by (simp add: fresh_loop_def log_ok_def)
  have "logs_ok m'"
    using add_result [OF a] inv(2)
    by (elim disjE exE conjE) (use fresh in \<open>auto simp: logs_ok_def update_conv' split: if_splits\<close>)
  moreover have "firing_ok r m'"
    using add_result [OF a] inv(3) assms(3)
    by (elim disjE exE conjE) (auto simp: firing_ok_def update_conv' in_flight_id_def split: option.splits if_splits)
  moreover have "manager_inv quote m'" using add.keeps [OF assms(2) inv(1), of fault task mode n opts now] by (simp add: a)
  moreover have "certain \<Longrightarrow> mirrored m'"
    using add.mirrors [OF assms(4) inv(1), of buf task mode n opts now] assms(1) by (simp add: a)
  ultimately show ?thesis by (simp add: a)
qed

definition by_id :: "loop list \<Rightarrow> (string \<times> loop) list" where
  "by_id ls = map (\<lambda>l. (lp_ID l, l)) ls"

text \<open>A restart changes nothing but the next run of the running loops.\<close>

definition restarted :: "loop \<Rightarrow> loop \<Rightarrow> bool" where
  "restarted d l \<longleftrightarrow> l = d \<or> lp_Status d = LoopRunning \<and> l = d\<lparr>lp_NextRunAt := lp_NextRunAt l\<rparr>"

lemma restarted_inv:
  assumes "restarted d l"
  shows "lp_ID l = lp_ID d" "lp_Status l = lp_Status d" "loop_inv quote l = loop_inv quote d" "log_ok l = log_ok d"
    and "json_loop d = d \<Longrightarrow> in_step d l"
proof -
  obtain t where t: "l = d \<or> l = d\<lparr>lp_NextRunAt := t\<rparr>" using assms unfolding restarted_def by blast
  then show "lp_ID l = lp_ID d" "lp_Status l = lp_Status d" "loop_inv quote l = loop_inv quote d" by auto
  show "log_ok l = log_ok d" using t by (auto simp: log_ok_def)
  show "in_step d l" if "json_loop d = d"
    using assms that json_loop_next_run [of "lp_NextRunAt l" d] \<open>lp_Status l = lp_Status d\<close>
    unfolding restarted_def in_step_def by metis
qed

lemma stagger_restarted: "list_all2 restarted ls (stagger now n ls)"
  by (induction now n ls rule: stagger.induct) (simp_all add: restarted_def overdue_def)

lemma by_id_related:
  "list_all2 restarted ls ls' \<Longrightarrow> rel_option restarted (map_of (by_id ls) i) (map_of (by_id ls') i)"
  by (induction ls ls' rule: list_all2_induct) (auto simp: by_id_def restarted_inv)

lemma related_ids: "list_all2 restarted ls ls' \<Longrightarrow> map lp_ID ls' = map lp_ID ls"
  by (induction ls ls' rule: list_all2_induct) (auto simp: restarted_inv)

lemma insert_all:
  "map_of (foldl (\<lambda>m l. AList.update (lp_ID l) l m) m0 ls) = map_of m0 ++ map_of (rev (by_id ls))"
  "distinct (map fst m0) \<Longrightarrow> distinct (map fst (foldl (\<lambda>m l. AList.update (lp_ID l) l m) m0 ls))"
  by (induction ls arbitrary: m0) (simp_all add: by_id_def update_conv' distinct_update map_add_upd_left fun_eq_iff map_add_def split: option.split)

lemma by_id_rev: "distinct (map lp_ID ls) \<Longrightarrow> map_of (rev (by_id ls)) = map_of (by_id ls)"
  by (intro map_of_inject_set [THEN iffD2]) (simp_all add: by_id_def o_def rev_map [symmetric])

text \<open>The state files load: every one is found, valid and in its place.\<close>

lemma load_state_file:
  assumes "manager_inv quote m" "lm_disk m i = Some d"
  shows "load_entry quote (state_file m i) = Some (Inr d)" "lp_ID d = i" "loop_inv quote d"
proof -
  show id: "lp_ID d = i" "loop_inv quote d" using assms by (auto simp: manager_inv_defs)
  have json: "json_loop d = d" using assms by (auto simp: manager_inv_defs)
  from id have "Loop_Validate quote d = None" by (simp add: loop_inv_def)
  moreover from this id(1) have "isSafeLoopID i" by (auto simp: Loop_Validate_def split: if_splits)
  moreover have "trim_suffix (i @ ''.json'') ''.json'' = i" "has_suffix (i @ ''.json'') ''.json''"
    by (simp_all add: trim_suffix_def has_suffix_iff)
  ultimately show "load_entry quote (state_file m i) = Some (Inr d)"
    using assms(2) id(1) json by (simp add: load_entry_def state_file_def Unmarshal_def Let_def)
qed

lemma load_all:
  assumes "manager_inv quote m" "set ids \<subseteq> dom (lm_disk m)"
  shows "fst (Storage_Load quote (map (state_file m) ids)) = sortLoopsForDisplay (map (\<lambda>i. the (lm_disk m i)) ids)"
proof -
  have "load_entry quote (state_file m i) = Some (Inr (the (lm_disk m i)))" if "i \<in> set ids" for i
    using assms that load_state_file(1) by force
  then show ?thesis
    by (simp add: Storage_Load_def Let_def loaded_loops_def o_def cong: map_cong)
qed

lemma restart_loops:
  fixes now :: time
  assumes "manager_inv quote m" "distinct ids" "set ids = dom (lm_disk m)"
  defines "m' \<equiv> loops_NewManager quote (map (state_file m) ids) now"
  shows "lm_disk m' = lm_disk m" "rel_option restarted (lm_disk m i) (map_of (lm_loops m') i)" "distinct (map fst (lm_loops m'))"
proof -
  define ls where "ls = sortLoopsForDisplay (map (\<lambda>i. the (lm_disk m i)) ids)"
  have "map lp_ID (map (\<lambda>i. the (lm_disk m i)) ids) = ids"
    using assms(3) load_state_file(2) [OF assms(1)] by (force intro: map_idI)
  moreover have "mset (map lp_ID ls) = mset (map lp_ID (map (\<lambda>i. the (lm_disk m i)) ids))"
    by (simp add: ls_def image_mset.compositionality)
  ultimately have ids: "mset (map lp_ID ls) = mset ids" by simp
  then have d: "distinct (map lp_ID ls)" using assms(2) by (metis mset_eq_imp_distinct_iff)
  have load: "fst (Storage_Load quote (map (state_file m) ids)) = ls"
    using load_all [OF assms(1)] assms(3) by (simp add: ls_def)
  have "map_of (by_id ls) = lm_disk m"
  proof
    fix i
    show "map_of (by_id ls) i = lm_disk m i"
    proof (cases "lm_disk m i")
      case None
      then have "i \<notin> set ids" using assms(3) by blast
      then have "i \<notin> lp_ID ` set ls" using ids by (metis mset_eq_setD list.set_map)
      then show ?thesis using None by (simp add: by_id_def map_of_eq_None_iff o_def image_image)
    next
      case (Some d)
      then have "d \<in> set ls" using assms(3) by (force simp: ls_def)
      then have "(i, d) \<in> set (by_id ls)" using load_state_file(2) [OF assms(1) Some] by (auto simp: by_id_def)
      then show ?thesis using d Some by (simp add: by_id_def o_def)
    qed
  qed
  then show disk: "lm_disk m' = lm_disk m" by (simp add: m'_def loops_NewManager_def Let_def load by_id_def)
  have st: "list_all2 restarted ls (stagger now 0 ls)" by (rule stagger_restarted)
  then have "distinct (map lp_ID (stagger now 0 ls))" using d related_ids by simp
  then have "map_of (lm_loops m') = map_of (by_id (stagger now 0 ls))"
    by (simp add: m'_def loops_NewManager_def Let_def load insert_all by_id_rev)
  then show "rel_option restarted (lm_disk m i) (map_of (lm_loops m') i)"
    using by_id_related [OF st, of i] \<open>map_of (by_id ls) = lm_disk m\<close> by simp
  show "distinct (map fst (lm_loops m'))" by (simp add: m'_def loops_NewManager_def Let_def insert_all)
qed

lemma NewRunner_flight: "firing_ok NewRunner m"
  by (simp add: firing_ok_def NewRunner_def)

lemma restart_inv:
  assumes "manager_inv quote m" "logs_ok m" "distinct ids" "set ids = dom (lm_disk m)"
  shows "sys_inv quote certain (NewRunner, loops_NewManager quote (map (state_file m) ids) now)"
proof -
  define m' where "m' = loops_NewManager quote (map (state_file m) ids) now"
  note r = restart_loops [OF assms(1,3,4), where now = now, folded m'_def]
  have disk: "disk_inv quote m'" using assms(1) r(1) by (simp add: manager_inv_defs)
  have from_disk: "\<exists>d. lm_disk m' i = Some d \<and> restarted d l" if "map_of (lm_loops m') i = Some l" for i l
    using r(1) r(2) [of i] that by (auto simp: option_rel_Some2)
  have "lp_ID l = i \<and> loop_inv quote l \<and> log_ok l \<and> (finished l \<longrightarrow> (\<exists>d. lm_disk m' i = Some d \<and> kept (json_loop l) d))"
    if l: "map_of (lm_loops m') i = Some l" for i l
  proof -
    obtain d where d: "lm_disk m' i = Some d" "restarted d l" using from_disk [OF l] by blast
    have i: "lp_ID d = i" "loop_inv quote d" "json_loop d = d" "log_ok d"
      using disk d(1) assms(2) r(1) by (auto simp: disk_inv_def logs_ok_def)
    have "l = d" if "finished l" using that d(2) restarted_inv(2) [OF d(2)] by (auto simp: restarted_def finished_def)
    then show ?thesis using d i restarted_inv [OF d(2)] by auto
  qed
  then have "manager_inv quote m'" "logs_ok m'"
    using r(1,3) disk assms(2) unfolding manager_inv_def memory_inv_def finals_safe_def logs_ok_def by auto
  moreover have "mirrored m'"
    unfolding mirrored_def
  proof
    fix i
    from r(2) [of i] show "rel_option in_step (lm_disk m' i) (map_of (lm_loops m') i)"
      using disk unfolding r(1) [symmetric]
      by (cases "lm_disk m' i"; cases "map_of (lm_loops m') i") (auto simp: disk_inv_def intro: restarted_inv(5))
  qed
  ultimately show ?thesis by (simp add: NewRunner_flight m'_def)
qed

section \<open>Every reachable state\<close>

lemma sys_inv_exec:
  assumes "sys_inv quote certain s" "allowed op s" "certain \<Longrightarrow> certain_op op"
  shows "sys_inv quote certain (loops_exec quote lower op s)"
proof -
  obtain r m where s: "s = (r, m)" by fastforce
  have inv: "sys_inv quote certain (r, m)" using assms(1) s by simp
  note quiet = quiet_step(1) [OF _ inv]
  show ?thesis
  proof (cases op)
    case (LAdd fault buf task mode n opts now)
    then show ?thesis using assms(2,3) s add_loop_inv [OF inv] by simp
  next
    case (LRestart ids now)
    then show ?thesis using assms(2) inv s restart_inv [of quote m ids certain now] by simp
  next
    case (LCancel i)
    have "firing_ok (fst (CancelInFlight i r)) m"
      by (rule firing_ok_cong [of r m]) (use inv in \<open>auto simp: CancelInFlight_def firing_ok_def split: option.split\<close>)
    then show ?thesis using inv s LCancel by simp
  next
    case (LRunnerDir dir)
    have "firing_ok (runner_SetWorkDir dir r) m"
      by (rule firing_ok_cong [of r m]) (use inv in \<open>simp_all add: runner_SetWorkDir_def\<close>)
    then show ?thesis using inv s LRunnerDir by simp
  next
    case (LHooks a b c)
    have "firing_ok (SetIterationStartHook a (SetIterationDoneHook b (SetIterationPersistFailedHook c r))) m"
      by (rule firing_ok_cong [of r m])
        (use inv in \<open>simp_all add: SetIterationStartHook_def SetIterationDoneHook_def SetIterationPersistFailedHook_def firing_ok_def\<close>)
    then show ?thesis using inv s LHooks by simp
  next
    case (LOnRemove b)
    have "firing_ok r (loops_SetOnRemove b m)"
      by (rule firing_ok_cong [of r m]) (use inv in \<open>simp_all add: loops_SetOnRemove_def firing_ok_def\<close>)
    then show ?thesis using inv s LOnRemove by (simp add: loops_SetOnRemove_def manager_inv_defs mirrored_def logs_ok_def)
  next
    case (LManagerDir dir)
    have "firing_ok r (loops_SetWorkDir dir m)"
      by (rule firing_ok_cong [of r m]) (use inv in \<open>simp_all add: loops_SetWorkDir_def firing_ok_def\<close>)
    then show ?thesis using inv s LManagerDir by (simp add: loops_SetWorkDir_def manager_inv_defs mirrored_def logs_ok_def)
  next
    case (LTick faults ctxErr idle1 idle2 now)
    then show ?thesis using assms(3) tick_inv [OF assms(1), of faults] by simp
  next
    case (LFireEnd fault1 fault2 ctxErr ended now outcome)
    then show ?thesis using assms(3) fire_end_inv [OF assms(1), of fault1 fault2] by simp
  next
    case (LRemove fault i)
    then show ?thesis using s quiet [OF remove.quiet_operation_axioms] by simp
  qed (use s assms(1,3) in \<open>simp_all only: loops_exec.simps certain_op.simps fire_begin_inv
    quiet [OF adopt.quiet_operation_axioms] quiet [OF stop.quiet_operation_axioms] quiet [OF pause.quiet_operation_axioms]
    quiet [OF resume.quiet_operation_axioms] quiet [OF fire_now.quiet_operation_axioms]\<close>)
qed

lemma reach_inv: "loops_reach quote lower s \<Longrightarrow> sys_inv quote False s"
proof (induction rule: loops_reach.induct)
  case (reach_start now)
  show ?case
    by (simp add: NewRunner_flight loops_NewManager_def Storage_Load_def Let_def loaded_loops_def sortLoopsForDisplay_def
        manager_inv_defs logs_ok_def)
qed (simp add: sys_inv_exec)

lemma reach_manager: "loops_reach quote lower (r, m) \<Longrightarrow> manager_inv quote m"
  using reach_inv by fastforce

end
