(* ===== verification/LoopProps.thy ===== *)
theory LoopProps
  imports LoopSystem
begin

text \<open>
  The properties of the loops themselves: what holds of every loop in every reachable state, that a restart loses
  nothing, that a finished loop stays finished, and when a loop runs next.
\<close>

section \<open>A run\<close>

fun allowed_run :: "(string \<Rightarrow> string) \<Rightarrow> (string \<Rightarrow> string) \<Rightarrow> loops_op list \<Rightarrow> loops_state \<Rightarrow> bool" where
  "allowed_run quote lower [] s \<longleftrightarrow> True"
| "allowed_run quote lower (op # ops) s \<longleftrightarrow> allowed op s \<and> allowed_run quote lower ops (loops_exec quote lower op s)"

lemma reach_run:
  "loops_reach quote lower s \<Longrightarrow> allowed_run quote lower ops s \<Longrightarrow>
   loops_reach quote lower (fold (loops_exec quote lower) ops s)"
  by (induction ops arbitrary: s) (simp_all add: reach_step)

text \<open>One self-paced loop of at most \<open>n\<close> iterations is created, fired, and its first iteration succeeds.\<close>

definition demo_result :: spawn_result where
  "demo_result = \<lparr>sr_Output = ''ok'', sr_OK = True, sr_Transient = False, sr_TokensIn = 1, sr_TokensOut = 1,
     sr_MadeChanges = True, sr_TimedOut = False, sr_FilesTouched = []\<rparr>"

definition demo_ops :: "int \<Rightarrow> loops_op list" where
  "demo_ops n =
     [LAdd Written [0, 0, 0, 1] ''fix'' ModeSelfPaced 0 [WithMaxIterations n] 1000,
      LTick (\<lambda>_. Written) False True True 2000, LHooks True True True, LFireBegin False 2000]"

definition demo_begun :: "int \<Rightarrow> loops_state" where
  "demo_begun n = fold (loops_exec id id) (demo_ops n) (NewRunner, loops_NewManager id [] 0)"

definition demo_ended :: "int \<Rightarrow> loops_state" where
  "demo_ended n = loops_exec id id (LFireEnd Written Written False 3000 3000 (Spawned demo_result None)) (demo_begun n)"

definition demo_id :: string where "demo_id = ''loop-00000001''"

lemma demo_allowed: "allowed_run id id (demo_ops n) (NewRunner, loops_NewManager id [] 0)"
  unfolding demo_ops_def
  by (simp add: fresh_id_def loops_NewManager_def Storage_Load_def Let_def loaded_loops_def sortLoopsForDisplay_def
      in_flight_id_def NewRunner_def)

lemma demo_begun_reach: "loops_reach id id (demo_begun n)"
  unfolding demo_begun_def by (rule reach_run [OF reach_start demo_allowed])

lemma demo_ended_reach: "loops_reach id id (demo_ended n)"
  unfolding demo_ended_def by (rule reach_step [OF demo_begun_reach]) simp

section \<open>The mirror\<close>

text \<open>While no write of a process has an uncertain outcome, what is in memory is what is on disk.\<close>

lemma certain_run_inv:
  "sys_inv quote True s \<Longrightarrow> allowed_run quote lower ops s \<Longrightarrow> list_all certain_op ops \<Longrightarrow>
   sys_inv quote True (fold (loops_exec quote lower) ops s)"
  by (induction ops arbitrary: s) (simp_all add: sys_inv_exec)

lemma started_inv:
  assumes "loops_reach quote lower s" "allowed (LRestart ids now) s"
  shows "sys_inv quote True (loops_exec quote lower (LRestart ids now) s)"
proof -
  obtain r m where s: "s = (r, m)" by fastforce
  then show ?thesis using reach_inv [OF assms(1)] assms(2) restart_inv [of quote m ids True now] by simp
qed

lemma disk_dom:
  assumes "mirrored m"
  shows "dom (lm_disk m) = set (map fst (lm_loops m))"
proof -
  have "(lm_disk m i = None) = (map_of (lm_loops m) i = None)" for i
  proof -
    have "rel_option in_step (lm_disk m i) (map_of (lm_loops m) i)" using assms by (simp add: mirrored_def)
    then show ?thesis by (cases "lm_disk m i"; cases "map_of (lm_loops m) i") simp_all
  qed
  then show ?thesis by (auto simp: dom_def map_of_eq_None_iff)
qed

section \<open>Invariants\<close>

text \<open>An iteration that leaves a loop running leaves it below its token budget.\<close>

lemma budget_checked:
  assumes "lp_Status l = LoopRunning" "lp_Status (AppendIteration lower it l) = LoopRunning"
  shows "\<not> OverTokenBudget (AppendIteration lower it l)"
proof -
  define l1 where "l1 = back_off it (schedule lower it (log_iteration it (count_outcome lower it (count_tokens it l))))"
  have "lp_Status l1 = LoopRunning" using assms(1) by (simp add: l1_def)
  moreover have "lp_Status (breakers l1) = LoopRunning" using assms(2) by (simp add: AppendIteration_def l1_def)
  ultimately have "\<not> OverTokenBudget (breakers l1)"
    unfolding breakers_def auto_pause_def by (auto simp: OverTokenBudget_def split: if_splits)
  then show ?thesis by (simp add: AppendIteration_def l1_def)
qed

text \<open>
  C15: in every reachable state (any operations, any write failures, restarts in between) a loop the manager
  knows is valid, its counters add up, its history holds the last iterations, at most 50, numbered
  consecutively and with bounded texts. While it runs it is below its limit of iterations and below the three
  breakers that count failures, transient failures and iterations without progress in a row; and an iteration that
  leaves it running leaves it below its token budget (a loop resumed over its budget runs one iteration more).
\<close>

theorem loops_stay_sound:
  assumes "loops_reach quote lower s" "loops_Get i (snd s) = Some l"
  shows "lp_ID l = i \<and> Loop_Validate quote l = None \<and>
    lp_IterationCount l = lp_SuccessCount l + lp_FailureCount l \<and>
    length (lp_Iterations l) = min MaxHistorySize (nat (lp_IterationCount l)) \<and>
    map it_N (lp_Iterations l) = [lp_IterationCount l - int (length (lp_Iterations l)) + 1 .. lp_IterationCount l] \<and>
    list_all bounded_iteration (lp_Iterations l) \<and>
    (lp_Status l = LoopRunning \<longrightarrow> below_limit l \<and> below_streaks l \<and>
       (\<forall>it. lp_Status (AppendIteration lower it l) = LoopRunning \<longrightarrow> \<not> OverTokenBudget (AppendIteration lower it l)))"
proof -
  obtain r m where s: "s = (r, m)" by fastforce
  have "sys_inv quote False (r, m)" using reach_inv [OF assms(1)] s by simp
  then have "manager_inv quote m" "logs_ok m" by simp_all
  moreover have "map_of (lm_loops m) i = Some l" using assms(2) s by (simp add: loops_Get_def)
  ultimately have "lp_ID l = i" "loop_inv quote l" "log_ok l" using manager_invD by (auto simp: logs_ok_def)
  then show ?thesis using budget_checked [of l] by (simp add: loop_inv_def counters_ok_def log_ok_def)
qed

theorem loops_stay_sound_witness:
  "map_option lp_Status (loops_Get demo_id (snd (demo_ended 5))) = Some LoopRunning \<and>
   map_option (\<lambda>l. map it_N (lp_Iterations l)) (loops_Get demo_id (snd (demo_ended 5))) = Some [1] \<and>
   map_option below_streaks (loops_Get demo_id (snd (demo_ended 5))) = Some True"
proof -
  have "map_option (\<lambda>l. (lp_Status l, lp_IterationCount l, length (lp_Iterations l))) (loops_Get demo_id (snd (demo_ended 5))) =
      Some (LoopRunning, 1, 1)" by code_simp
  then obtain l where l: "loops_Get demo_id (snd (demo_ended 5)) = Some l"
    "lp_Status l = LoopRunning" "lp_IterationCount l = 1" "length (lp_Iterations l) = 1" by auto
  from loops_stay_sound [OF demo_ended_reach l(1)] l show ?thesis by simp
qed

section \<open>A restart\<close>

lemma restart_same:
  fixes now :: time
  assumes "manager_inv quote m" "distinct ids" "set ids = dom (lm_disk m)" "mirrored m"
  defines "m' \<equiv> loops_NewManager quote (map (state_file m) ids) now"
  shows "rel_option (\<lambda>l l'. l'\<lparr>lp_NextRunAt := t\<rparr> = (json_loop l)\<lparr>lp_NextRunAt := t\<rparr> \<and>
      (lp_Status l \<noteq> LoopRunning \<longrightarrow> l' = json_loop l)) (map_of (lm_loops m) i) (map_of (lm_loops m') i)"
proof -
  have new: "rel_option restarted (lm_disk m i) (map_of (lm_loops m') i)"
    unfolding m'_def using restart_loops(2) [OF assms(1-3)] by simp
  have old: "rel_option in_step (lm_disk m i) (map_of (lm_loops m) i)" using assms(4) by (simp add: mirrored_def)
  show ?thesis
  proof (cases "lm_disk m i")
    case None
    then show ?thesis using new old by simp
  next
    case (Some d)
    with new old obtain l l' where l: "map_of (lm_loops m') i = Some l'" "map_of (lm_loops m) i = Some l" "restarted d l'" "in_step d l"
      by (auto simp: option_rel_Some1)
    have "l'\<lparr>lp_NextRunAt := t\<rparr> = d\<lparr>lp_NextRunAt := t\<rparr>"
      using l(3) unfolding restarted_def by (metis (no_types, lifting) loop.surjective loop.update_convs(13))
    moreover have "(json_loop l)\<lparr>lp_NextRunAt := t\<rparr> = d\<lparr>lp_NextRunAt := t\<rparr>"
      using l(4) unfolding in_step_def by (metis (no_types, lifting) loop.surjective loop.update_convs(13))
    moreover have "l' = json_loop l" if "lp_Status l \<noteq> LoopRunning"
    proof -
      have "json_loop l = d" using that l(4) by (simp add: in_step_def)
      moreover from this have "lp_Status d \<noteq> LoopRunning" using that json_loop_status [of l] by auto
      ultimately show ?thesis using l(3) by (simp add: restarted_def)
    qed
    ultimately show ?thesis using l(1,2) by simp
  qed
qed

definition loop_texts :: "loop \<Rightarrow> string list" where
  "loop_texts l = lp_WorkDir l # lp_Task l #
     concat (map (\<lambda>it. it_Summary it # it_NextHint it # it_Handoff it # it_FilesTouched it) (lp_Iterations l))"

text \<open>A valid loop all of whose texts decode without the replacement character comes back as it is.\<close>

definition well_encoded :: "loop \<Rightarrow> bool" where
  "well_encoded l \<longleftrightarrow> list_all (\<lambda>s. RuneError \<notin> set (to_runes s)) (loop_texts l)"

lemma json_loop_same:
  assumes "Loop_Validate quote l = None" "well_encoded l"
  shows "json_loop l = l"
proof -
  have t: "json_text s = s" if "s \<in> set (loop_texts l)" for s
    using that assms(2) by (auto simp: well_encoded_def list_all_iff intro: json_text_valid)
  have "json_iteration it = it" if it: "it \<in> set (lp_Iterations l)" for it
  proof -
    have "json_text s = s" if "s \<in> set (it_Summary it # it_NextHint it # it_Handoff it # it_FilesTouched it)" for s
      using it that by (intro t) (auto simp: loop_texts_def)
    then have "map json_text (it_FilesTouched it) = it_FilesTouched it" "json_text (it_Summary it) = it_Summary it"
      "json_text (it_NextHint it) = it_NextHint it" "json_text (it_Handoff it) = it_Handoff it"
      by (auto intro!: map_idI)
    then show ?thesis by (simp add: json_iteration_def)
  qed
  then have "map json_iteration (lp_Iterations l) = lp_Iterations l" by (intro map_idI)
  moreover have "lp_Mode l \<in> {ModeInterval, ModeSelfPaced}" "\<nexists>st. lp_Status l = LoopStatusOther st"
    using assms(1) by (auto simp: Loop_Validate_def split: if_splits option.splits loop_mode.splits loop_status.splits)
  moreover have "json_text (lp_ID l) = lp_ID l" by (rule safe_id_json [OF Validate_safe [OF assms(1)]])
  moreover have "json_text (lp_WorkDir l) = lp_WorkDir l" "json_text (lp_Task l) = lp_Task l"
    by (simp_all add: t loop_texts_def)
  ultimately show ?thesis
    by (auto simp: json_loop_def json_mode_def json_status_def split: loop_status.split)
qed

text \<open>
  C16: a process that has had no write of uncertain outcome since it started (after whatever earlier processes
  did) may be restarted at any time: no loop is lost, and every loop comes back as its state file encodes it, but for
  the next run of the running loops. Encoding replaces ill-formed UTF-8; a loop whose texts are well formed comes back
  unchanged.
\<close>

theorem restart_loses_nothing:
  assumes "loops_reach quote lower s0" "allowed (LRestart ids0 now0) s0"
    and "s = fold (loops_exec quote lower) ops (loops_exec quote lower (LRestart ids0 now0) s0)"
    and "allowed_run quote lower ops (loops_exec quote lower (LRestart ids0 now0) s0)" "list_all certain_op ops"
    and "allowed (LRestart ids now) s"
  shows "map_option (\<lambda>l. l\<lparr>lp_NextRunAt := t\<rparr>) (loops_Get i (snd (loops_exec quote lower (LRestart ids now) s))) =
      map_option (\<lambda>l. (json_loop l)\<lparr>lp_NextRunAt := t\<rparr>) (loops_Get i (snd s)) \<and>
    (\<forall>l. loops_Get i (snd s) = Some l \<longrightarrow>
       (lp_Status l \<noteq> LoopRunning \<longrightarrow> loops_Get i (snd (loops_exec quote lower (LRestart ids now) s)) = Some (json_loop l)) \<and>
       (well_encoded l \<longrightarrow> json_loop l = l))"
proof -
  obtain r m where s: "s = (r, m)" by fastforce
  have inv: "sys_inv quote True (r, m)"
    using certain_run_inv [OF started_inv [OF assms(1,2)] assms(4,5)] assms(3) s by simp
  then have m: "manager_inv quote m" "mirrored m" by simp_all
  have ids: "distinct ids" "set ids = dom (lm_disk m)" using assms(6) s by simp_all
  have "json_loop l = l" if "map_of (lm_loops m) i = Some l" "well_encoded l" for l
    using manager_invD(2) [OF m(1) that(1)] that(2) by (auto simp: loop_inv_def intro: json_loop_same)
  with restart_same [OF m(1) ids m(2), of t i now] s show ?thesis
    by (cases "map_of (lm_loops m) i") (auto simp: loops_Get_def option_rel_Some1)
qed

theorem restart_loses_nothing_witness:
  "loops_Get demo_id (snd (demo_ended 1)) \<noteq> None \<and>
   loops_Get demo_id (snd (loops_exec id id (LRestart [demo_id] 4000) (demo_ended 1))) = loops_Get demo_id (snd (demo_ended 1))"
proof -
  let ?s0 = "(NewRunner, loops_NewManager id [] 0)"
  let ?ops = "demo_ops 1 @ [LFireEnd Written Written False 3000 3000 (Spawned demo_result None)]"
  have start: "loops_exec id id (LRestart [] 0) ?s0 = ?s0" by simp
  have run: "demo_ended 1 = fold (loops_exec id id) ?ops ?s0" by (simp add: demo_ended_def demo_begun_def)
  have ops: "allowed_run id id ?ops ?s0" "list_all certain_op ?ops"
    using demo_allowed [of 1] by (simp_all add: demo_ops_def)
  have a0: "allowed (LRestart [] 0) ?s0"
    by (simp add: loops_NewManager_def Storage_Load_def Let_def loaded_loops_def sortLoopsForDisplay_def)
  obtain r m where s: "demo_ended 1 = (r, m)" by fastforce
  have "sys_inv id True (fold (loops_exec id id) ?ops ?s0)"
    using certain_run_inv [OF started_inv [OF reach_start a0, of id] _ ops(2), of id] ops(1) start by metis
  then have "sys_inv id True (r, m)" by (simp only: run [symmetric] s)
  then have "mirrored m" by simp
  moreover have "map fst (lm_loops (snd (demo_ended 1))) = [demo_id]" by code_simp
  ultimately have d: "allowed (LRestart [demo_id] 4000) (demo_ended 1)" using disk_dom [of m] s by simp
  have "map_option lp_Status (loops_Get demo_id (snd (demo_ended 1))) = Some LoopCompleted \<and>
      map_option well_encoded (loops_Get demo_id (snd (demo_ended 1))) = Some True" by code_simp
  then show ?thesis
    using restart_loses_nothing [OF reach_start a0 _ _ ops(2) d, where lower = id and i = demo_id] run ops(1) start by auto
qed

text \<open>
  A write of uncertain outcome breaks the mirror: the manager reports the failure and rolls its memory back, but the
  new state file is there. A loop the user could not stop, for the error said so, is stopped after a restart.
\<close>

theorem uncertain_stop_diverges:
  assumes "manager_inv quote m" "loops_Get i m = Some l" "lp_Status l = LoopRunning"
    and "loops_Stop quote (WriteUncertain e) i now m = (m', err)"
  shows "err = Some e \<and> loops_Get i m' = Some l \<and>
    lm_disk m' i = Some (json_loop (l\<lparr>lp_Status := LoopStopped, lp_StoppedAt := now\<rparr>))"
proof -
  have l: "map_of (lm_loops m) i = Some l" using assms(2) by (simp add: loops_Get_def)
  note inv = manager_invD [OF assms(1) l]
  have "Loop_Validate quote (l\<lparr>lp_Status := LoopStopped, lp_StoppedAt := now\<rparr>) = None"
    by (rule Loop_Validate_cong [of _ l]) (use inv in \<open>simp_all add: loop_inv_def\<close>)
  then show ?thesis
    using assms(3,4) l inv(1)
    by (auto simp: loops_Stop_def transition_def stop_loop_def Storage_Save_def loops_Get_def)
qed

section \<open>A finished loop\<close>

definition finals_kept :: "loop_manager \<Rightarrow> loop_manager \<Rightarrow> bool" where
  "finals_kept m m' \<longleftrightarrow>
     (\<forall>i l. map_of (lm_loops m) i = Some l \<longrightarrow> finished l \<longrightarrow> (\<exists>l'. map_of (lm_loops m') i = Some l' \<and> kept l l'))"

lemma finals_refl [simp]: "finals_kept m m"
  by (auto simp: finals_kept_def)

lemma finals_same [simp]: "lm_loops m' = lm_loops m \<Longrightarrow> finals_kept m m'"
  by (auto simp: finals_kept_def)

lemma finals_trans: "finals_kept m m' \<Longrightarrow> finals_kept m' m'' \<Longrightarrow> finals_kept m m''"
  unfolding finals_kept_def by (blast intro: kept_trans kept_finished [THEN iffD2])

lemma transition_finals:
  assumes "\<And>l l'. finished l \<Longrightarrow> f l = Inr l' \<Longrightarrow> kept l l'"
  shows "finals_kept m (fst (transition quote fault i f m))"
  using assms
  by (auto simp: finals_kept_def transition_def update_conv' split: option.splits sum.splits prod.splits if_splits)

lemma command_finals:
  "finals_kept m (fst (loops_Stop quote fault i now m))" "finals_kept m (fst (loops_Pause quote fault i m))"
  "finals_kept m (fst (loops_Resume quote fault i now m))" "finals_kept m (fst (FireNow quote fault i now m))"
  "finals_kept m (fst (AdoptWorkspace quote fault i dir m))"
  unfolding loops_Stop_def loops_Pause_def loops_Resume_def FireNow_def adopt_unfold
  by (auto intro!: transition_finals dest: finished_command)

lemma scan_finals:
  "finals_kept m (fst (scan_loops quote faults dir now active idxs m))"
proof (induction quote faults dir now active idxs m rule: scan_loops.induct)
  case (2 quote faults dir now active idx idxs m)
  obtain m1 owned where o: "ownsLoop quote faults dir (active ! idx) m = (m1, owned)" by fastforce
  have "finals_kept m m1"
    using o command_finals(5) [of m quote "faults (lp_ID (active ! idx))" "lp_ID (active ! idx)" dir]
    by (auto simp: ownsLoop_def split: if_splits prod.splits)
  then show ?case using 2 o by (auto intro: finals_trans)
qed simp

lemma tick_finals: "finals_kept m (snd (tick quote faults ctxErr idle1 idle2 now (r, m)))"
  unfolding tick_def Let_def
  using scan_finals [of m quote faults "rn_workDir r" now "loops_Active m"
      "map (\<lambda>i. (rn_scanRotation r mod length (loops_Active m) + i) mod length (loops_Active m)) [0..<length (loops_Active m)]"]
  by (auto split: prod.split option.split)

lemma record_finals: "finals_kept m (fst (RecordIteration quote lower fault i it m))"
  by (auto simp: finals_kept_def RecordIteration_def Let_def update_conv' finished_def split: option.splits prod.splits if_splits)

lemma fire_finals:
  "finals_kept m (snd (fire_begin ctxErr started (r, m)))"
  "finals_kept m (snd (fire_end quote lower fault1 fault2 ctxErr finished_at now outcome (r, m)))"
proof -
  show "finals_kept m (snd (fire_begin ctxErr started (r, m)))"
    by (auto simp: fire_begin_def SetFiring_def split: option.split)
  have rec: "finals_kept m (snd (record_result quote lower fault1 fault2 now l it d h1 h2 (r, m)))" for l it d h1 h2
  proof -
    obtain m1 e where e: "RecordIteration quote lower fault1 (lp_ID l) it m = (m1, e)" by fastforce
    have m1: "finals_kept m m1" using record_finals [of m quote lower fault1 "lp_ID l" it] by (simp add: e)
    moreover have "finals_kept m (fst (loops_Stop quote fault2 (lp_ID l) now m1))"
      by (rule finals_trans [OF m1 command_finals(1)])
    ultimately show ?thesis by (auto simp: record_result_def e split: option.split record_error.split)
  qed
  have ret: "finals_kept m (snd (fire_return (r', m')))" if "finals_kept m m'" for r' m'
    using that finals_trans [OF that finals_same] by (simp add: fire_return_def ClearFiring_def)
  show "finals_kept m (snd (fire_end quote lower fault1 fault2 ctxErr finished_at now outcome (r, m)))"
    unfolding fire_end_def using rec ret finals_refl
    by (auto split: option.split spawn_outcome.split) (metis prod.collapse)+
qed

text \<open>
  C19: a stopped or completed loop never runs or changes again: whatever is done, by the user, by the scheduler or by an
  iteration still in flight, it keeps its status, counters and history until it is removed. Only the owner of a loop
  without one may be filled in; a restart gives its texts as the state file encodes them.
\<close>

theorem finished_is_final:
  assumes "loops_reach quote lower s" "allowed op s" "loops_Get i (snd s) = Some l" "finished l"
  shows "case loops_Get i (snd (loops_exec quote lower op s)) of
      None \<Rightarrow> (\<exists>fault. op = LRemove fault i)
    | Some l' \<Rightarrow> l'\<lparr>lp_WorkDir := []\<rparr> = (case op of LRestart _ _ \<Rightarrow> json_loop l | _ \<Rightarrow> l)\<lparr>lp_WorkDir := []\<rparr>"
proof -
  obtain r m where s: "s = (r, m)" by fastforce
  have inv: "manager_inv quote m" using assms(1) s reach_manager by simp
  have l: "map_of (lm_loops m) i = Some l" using assms(3) s by (simp add: loops_Get_def)
  have fin: ?thesis if kept: "finals_kept m (snd (loops_exec quote lower op (r, m)))" and no: "\<nexists>ids now. op = LRestart ids now"
  proof -
    obtain l' where l': "map_of (lm_loops (snd (loops_exec quote lower op (r, m)))) i = Some l'" "kept l l'"
      using kept l assms(4) unfolding finals_kept_def by blast
    have "(case op of LRestart _ _ \<Rightarrow> json_loop l | _ \<Rightarrow> l) = l" using no by (cases op) simp_all
    then show ?thesis using l' by (simp add: loops_Get_def s kept_def)
  qed
  show ?thesis
  proof (cases op)
    case (LAdd fault buf task mode n opts now)
    obtain m' res where a: "loops_Add quote fault buf task mode n opts now m = (m', res)" by fastforce
    have "NewID buf \<noteq> i" using assms(2) l s LAdd by (auto simp: fresh_id_def)
    with add_result [OF a] have "map_of (lm_loops m') i = Some l"
      by (elim disjE exE conjE) (use l in \<open>auto simp: update_conv'\<close>)
    then show ?thesis using LAdd a s by (simp add: loops_Get_def)
  next
    case (LRemove fault j)
    then show ?thesis
      using l s by (auto simp: loops_Get_def loops_Remove_def Storage_Delete_def delete_conv' split: option.split)
  next
    case (LRestart ids now)
    have ids: "distinct ids" "set ids = dom (lm_disk m)" using assms(2) LRestart s by simp_all
    obtain d where d: "lm_disk m i = Some d" "kept (json_loop l) d"
      using inv l assms(4) unfolding manager_inv_def finals_safe_def by blast
    then obtain l' where l': "map_of (lm_loops (loops_NewManager quote (map (state_file m) ids) now)) i = Some l'" "restarted d l'"
      using restart_loops(2) [OF inv ids, of i now] by (auto simp: option_rel_Some1)
    have "finished d" using kept_finished [OF d(2)] assms(4) by simp
    then have "l' = d" using l'(2) by (auto simp: restarted_def finished_def)
    then show ?thesis using LRestart s l'(1) d(2) by (simp add: loops_Get_def kept_def)
  qed (rule fin; simp add: command_finals tick_finals fire_finals loops_SetOnRemove_def loops_SetWorkDir_def)+
qed

theorem finished_is_final_witness:
  "\<exists>l l'. loops_Get demo_id (snd (demo_ended 1)) = Some l \<and> lp_Status l = LoopCompleted \<and>
     loops_Get demo_id (snd (loops_exec id id (LResume Written demo_id 4000) (demo_ended 1))) = Some l' \<and>
     l'\<lparr>lp_WorkDir := []\<rparr> = l\<lparr>lp_WorkDir := []\<rparr>"
proof -
  have "map_option lp_Status (loops_Get demo_id (snd (demo_ended 1))) = Some LoopCompleted" by code_simp
  then obtain l where l: "loops_Get demo_id (snd (demo_ended 1)) = Some l" "lp_Status l = LoopCompleted" by auto
  from finished_is_final [OF demo_ended_reach _ l(1), of "LResume Written demo_id 4000"] l show ?thesis
    by (auto simp: finished_def split: option.splits)
qed

section \<open>When a loop runs next\<close>

text \<open>The delay after transient failures doubles from one minute up to half an hour.\<close>

lemma transientBackoff_closed:
  assumes "1 \<le> n"
  shows "transientBackoffSeconds n = min 1800 (60 * 2 ^ nat (n - 1))"
proof (cases "n - 1 \<le> 20")
  case True
  have "(2::int) ^ nat (n - 1) \<le> 2 ^ 20" by (rule power_increasing) (use True in auto)
  moreover have "0 < (2::int) ^ nat (n - 1)" by simp
  moreover have "wrap64 (60 * x) = 60 * x" if "0 < x" "x \<le> 2 ^ 20" for x using that by (intro wrap64_id) simp_all
  ultimately have "wrap64 (60 * 2 ^ nat (n - 1)) = 60 * 2 ^ nat (n - 1)" by blast
  moreover have "wrap64 1800 = 1800" by (rule wrap64_id) simp_all
  ultimately show ?thesis
    using True assms
    by (simp add: transientBackoffSeconds_def transientBackoffBaseSeconds_def transientBackoffCapSeconds_def Let_def min_def)
next
  case False
  have "(2::int) ^ 20 \<le> 2 ^ nat (n - 1)" by (rule power_increasing) (use False in auto)
  moreover have "wrap64 (60 * 2 ^ 20) = 60 * 2 ^ 20" by (intro wrap64_id) auto
  ultimately show ?thesis
    using False assms
    by (simp add: transientBackoffSeconds_def transientBackoffBaseSeconds_def transientBackoffCapSeconds_def Let_def min_def)
qed

definition pace :: "loop \<Rightarrow> int" where
  "pace l = (case lp_Mode l of
     ModeInterval \<Rightarrow> lp_IntervalSeconds l
   | _ \<Rightarrow> if lp_MinDelaySeconds l \<le> 0 then DefaultMinDelaySeconds else lp_MinDelaySeconds l)"

lemma seconds_exact: "0 \<le> n \<Longrightarrow> n \<le> 9223372036 \<Longrightarrow> seconds_duration n = n * second"
  unfolding seconds_duration_def by (rule wrap64_id) (auto simp: second_def)

lemma breakers_times: "lp_NextRunAt (breakers l) = lp_NextRunAt l" "lp_LastRunAt (breakers l) = lp_LastRunAt l"
  unfolding breakers_def auto_pause_def by simp_all

lemma pace_setup: "same_setup l l' \<Longrightarrow> pace l' = pace l \<and> lp_Mode l' = lp_Mode l"
  by (simp add: same_setup_def pace_def split: loop_mode.split)

lemma stage_pace:
  "pace (log_iteration it (count_outcome lower it (count_tokens it l))) = pace l"
  "lp_Mode (log_iteration it (count_outcome lower it (count_tokens it l))) = lp_Mode l"
  by (simp_all add: pace_setup [OF stage_setup(1)] pace_setup [OF stage_setup(2)] pace_setup [OF stage_setup(3)])

lemma schedule_bounds:
  assumes "lp_Mode l = ModeInterval \<or> lp_Mode l = ModeSelfPaced" "0 < pace l" "pace l \<le> 9223372036"
  shows "lp_LastRunAt l + pace l * second \<le> lp_NextRunAt (schedule lower it l) \<and>
    lp_NextRunAt (schedule lower it l) \<le> lp_LastRunAt l + max (pace l) MaxSelfPacedDelaySeconds * second \<and>
    lp_LastRunAt (schedule lower it l) = lp_LastRunAt l"
proof (cases "lp_Mode l")
  case ModeInterval
  then show ?thesis using assms by (simp add: schedule_def pace_def seconds_exact second_def max_def)
next
  case ModeSelfPaced
  define d where "d = self_paced_delay lower it l"
  have d: "pace l \<le> d" "d \<le> max (pace l) MaxSelfPacedDelaySeconds"
    using ModeSelfPaced by (auto simp: d_def self_paced_delay_def pace_def Let_def max_def)
  then have "seconds_duration d = d * second" using assms(2,3) by (intro seconds_exact) (auto simp: MaxSelfPacedDelaySeconds_def)
  then show ?thesis using ModeSelfPaced d by (simp add: schedule_def d_def [symmetric] second_def)
qed (use assms(1) in simp)

lemma back_off_bounds:
  "lp_NextRunAt l \<le> lp_NextRunAt (back_off it l) \<and>
   lp_NextRunAt (back_off it l) \<le> max (lp_NextRunAt l) (lp_LastRunAt l + transientBackoffCapSeconds * second) \<and>
   lp_LastRunAt (back_off it l) = lp_LastRunAt l"
proof -
  define b where "b = transientBackoffSeconds (lp_ConsecutiveTransientFailures l)"
  have "0 < b" "b \<le> 1800"
    by (simp_all add: b_def transientBackoffSeconds_def transientBackoffCapSeconds_def Let_def)
  then have "seconds_duration b = b * second" by (intro seconds_exact) auto
  with \<open>b \<le> 1800\<close> show ?thesis
    unfolding back_off_def b_def [symmetric] by (simp add: Let_def transientBackoffCapSeconds_def second_def)
qed

text \<open>
  C21: after an iteration the next run is never earlier than the pace of the loop allows (its interval, or the
  floor of a self-paced loop) and never later than a day, or that pace if it is longer, whatever the agent's hint
  asks for and however often the provider failed. The bound on the pace is what a nanosecond counter of 64 bits holds.
\<close>

theorem next_run_bounded:
  assumes "lp_Mode l = ModeInterval \<or> lp_Mode l = ModeSelfPaced" "0 < pace l" "pace l \<le> 9223372036"
  shows "lp_LastRunAt (AppendIteration lower it l) = it_StartedAt it + it_Duration it \<and>
    it_StartedAt it + it_Duration it + pace l * second \<le> lp_NextRunAt (AppendIteration lower it l) \<and>
    lp_NextRunAt (AppendIteration lower it l) \<le>
      it_StartedAt it + it_Duration it + max (pace l) MaxSelfPacedDelaySeconds * second"
proof -
  define l1 where "l1 = log_iteration it (count_outcome lower it (count_tokens it l))"
  have last: "lp_LastRunAt l1 = it_StartedAt it + it_Duration it" by (simp add: l1_def log_iteration_def Let_def)
  have "lp_Mode l1 = ModeInterval \<or> lp_Mode l1 = ModeSelfPaced" "0 < pace l1" "pace l1 \<le> 9223372036"
    using assms stage_pace [of it lower l] by (simp_all add: l1_def)
  note sch = schedule_bounds [OF this, of lower it]
  note bk = back_off_bounds [of "schedule lower it l1" it]
  have "transientBackoffCapSeconds * second \<le> max (pace l) MaxSelfPacedDelaySeconds * second"
    by (simp add: transientBackoffCapSeconds_def MaxSelfPacedDelaySeconds_def second_def)
  then show ?thesis
    using sch bk last stage_pace(1) [of it lower l]
    by (simp add: AppendIteration_def l1_def [symmetric] breakers_times) linarith
qed

theorem next_run_bounded_witness:
  "let l = new_loop demo_id ''fix'' ModeSelfPaced 0 1000 [];
       it = build_iteration l 2000 1000 (demo_result\<lparr>sr_Output := ''next: 9999h''\<rparr>) None
   in lp_NextRunAt (AppendIteration id it l) \<le> 3000 + 86400 * second \<and> 3000 + 300 * second \<le> lp_NextRunAt (AppendIteration id it l)"
  using next_run_bounded [of "new_loop demo_id ''fix'' ModeSelfPaced 0 1000 []" id
      "build_iteration (new_loop demo_id ''fix'' ModeSelfPaced 0 1000 []) 2000 1000 (demo_result\<lparr>sr_Output := ''next: 9999h''\<rparr>) None"]
  by (simp add: Let_def new_loop_def pace_def DefaultMinDelaySeconds_def MaxSelfPacedDelaySeconds_def build_iteration_def)

end
