(* ===== verification/LoopSched.thy ===== *)
theory LoopSched
  imports LoopProps
begin

text \<open>
  The properties of the scheduler: it fires only what it may, no loop starves, only recorded work is reported, and the
  file of a removed loop stays removed.
\<close>

section \<open>What the scheduler fires\<close>

lemma adopt_owner:
  assumes "AdoptWorkspace quote fault i dir m = (m', None)" "map_of (lm_loops m) i = Some l"
  shows "\<exists>l'. map_of (lm_loops m') i = Some l' \<and> lp_Status l' = lp_Status l \<and>
    (lp_WorkDir l = [] \<longrightarrow> lp_WorkDir l' = trim_space dir)"
  using assms
  by (auto simp: adopt_unfold transition_def adopt_loop_def update_conv' split: if_splits prod.splits option.splits)

lemma adopt_other: "j \<noteq> i \<Longrightarrow> map_of (lm_loops (fst (AdoptWorkspace quote fault i dir m))) j = map_of (lm_loops m) j"
  by (auto simp: adopt_unfold transition_def adopt_loop_def update_conv' split: prod.split option.split)

lemma owns_other: "j \<noteq> lp_ID l \<Longrightarrow> map_of (lm_loops (fst (ownsLoop quote faults dir l m))) j = map_of (lm_loops m) j"
  using adopt_other [of j "lp_ID l" quote "faults (lp_ID l)" dir m] by (auto simp: ownsLoop_def split: prod.split)

text \<open>What the scan finds: the first index whose loop is due and owned; the live loop then has the owner.\<close>

definition fired_ok :: "string \<Rightarrow> loop \<Rightarrow> loop_manager \<Rightarrow> bool" where
  "fired_ok dir l m \<longleftrightarrow>
     (\<exists>l'. map_of (lm_loops m) (lp_ID l) = Some l' \<and> lp_Status l' = LoopRunning \<and>
        (dir = [] \<or> path_Clean (lp_WorkDir l') = path_Clean dir))"

lemma scan_fires:
  "scan_loops quote faults dir now active idxs m = (m', Some idx) \<Longrightarrow> distinct idxs \<Longrightarrow> distinct (map lp_ID active) \<Longrightarrow>
   \<forall>i \<in> set idxs. i < length active \<and> map_of (lm_loops m) (lp_ID (active ! i)) = Some (active ! i) \<Longrightarrow>
   \<forall>i \<in> set idxs. lp_Status (active ! i) = LoopRunning \<Longrightarrow> trim_space dir = dir \<Longrightarrow>
   idx \<in> set idxs \<and> IsDue (active ! idx) now \<and> fired_ok dir (active ! idx) m'"
proof (induction quote faults dir now active idxs m rule: scan_loops.induct)
  case (2 quote faults dir now active i idxs m)
  obtain m1 owned where o: "ownsLoop quote faults dir (active ! i) m = (m1, owned)" by fastforce
  have others: "map_of (lm_loops m1) (lp_ID (active ! j)) = map_of (lm_loops m) (lp_ID (active ! j))" if "j \<in> set idxs" for j
  proof -
    have "j \<noteq> i" "j < length active" "i < length active" using that "2.prems"(2,4) by auto
    then have "lp_ID (active ! j) \<noteq> lp_ID (active ! i)" using "2.prems"(3) by (metis length_map nth_eq_iff_index_eq nth_map)
    then show ?thesis using owns_other [of "lp_ID (active ! j)" "active ! i" quote faults dir m] o by simp
  qed
  consider "\<not> IsDue (active ! i) now" | "IsDue (active ! i) now" "\<not> owned" | "IsDue (active ! i) now" owned by blast
  then show ?case
  proof cases
    case 1
    then show ?thesis using "2.IH"(1) "2.prems" by auto
  next
    case 2
    then show ?thesis using "2.IH"(2) [OF _ o [symmetric]] "2.prems" o others by auto
  next
    case 3
    then have i: "m1 = m'" "i = idx" using "2.prems"(1) o by auto
    have l: "map_of (lm_loops m) (lp_ID (active ! i)) = Some (active ! i)" "lp_Status (active ! i) = LoopRunning"
      using "2.prems"(4,5) by auto
    have "fired_ok dir (active ! i) m1"
    proof (cases "dir = [] \<or> lp_WorkDir (active ! i) \<noteq> []")
      case True
      then show ?thesis using o 3 l by (auto simp: ownsLoop_def fired_ok_def split: if_splits)
    next
      case False
      then have "AdoptWorkspace quote (faults (lp_ID (active ! i))) (lp_ID (active ! i)) dir m = (m1, None)"
        using o 3 by (auto simp: ownsLoop_def split: prod.splits)
      from adopt_owner [OF this l(1)] show ?thesis using False l(2) "2.prems"(6) by (auto simp: fired_ok_def)
    qed
    then show ?thesis using 3 i by simp
  qed
qed simp

lemma rotation: "map (\<lambda>i. (start + i) mod n) [0..<n] = rotate start [0..<n]"
  by (rule nth_equalityI) (simp_all add: nth_rotate)

lemma active_distinct:
  assumes "manager_inv quote m"
  shows "distinct (map lp_ID (loops_Active m))"
proof -
  have ids: "map (\<lambda>p. lp_ID (snd p)) xs = map fst xs" if "set xs \<subseteq> set (lm_loops m)" for xs
    using that assms by (auto simp: manager_inv_defs dest: map_of_is_SomeI)
  have "distinct (map fst (filter (\<lambda>p. Loop_IsActive (snd p)) (lm_loops m)))"
    using assms by (simp add: manager_inv_defs distinct_map_filter)
  moreover have "map lp_ID (filter Loop_IsActive (map snd (lm_loops m))) =
      map (\<lambda>p. lp_ID (snd p)) (filter (\<lambda>p. Loop_IsActive (snd p)) (lm_loops m))"
    by (simp add: filter_map o_def)
  ultimately have "distinct (map lp_ID (filter Loop_IsActive (map snd (lm_loops m))))" by (simp only: ids filter_is_subset)
  moreover have "mset (map lp_ID (loops_Active m)) = mset (map lp_ID (filter Loop_IsActive (map snd (lm_loops m))))"
    by (simp add: loops_Active_def)
  ultimately show ?thesis by (metis mset_eq_imp_distinct_iff)
qed

text \<open>
  C20: the scheduler starts an iteration only of a loop that is running and due, and only in the workspace that owns
  it: when it is bound to a workspace, the loop it fires belongs to that workspace by the time it fires.
\<close>

theorem tick_fires_own_due_loop:
  assumes "loops_reach quote lower (r, m)" "rn_iteration r = None"
    and "tick quote faults ctxErr idle1 idle2 now (r, m) = (r', m')" "rn_iteration r' = Some (l, called)"
  shows "called = None \<and> IsDue l now \<and> rn_iterationRunning r' \<and>
    (\<exists>l'. loops_Get (lp_ID l) m' = Some l' \<and> lp_Status l' = LoopRunning \<and>
       (rn_workDir r = [] \<or> path_Clean (lp_WorkDir l') = path_Clean (rn_workDir r)))"
proof -
  define active n where "active = loops_Active m" and "n = length active"
  define idxs where "idxs = map (\<lambda>i. (rn_scanRotation r mod n + i) mod n) [0..<n]"
  have inv: "sys_inv quote False (r, m)" using reach_inv [OF assms(1)] .
  obtain m1 found where f: "scan_loops quote faults (rn_workDir r) now active idxs m = (m1, found)" by fastforce
  have "rn_iteration r' \<noteq> rn_iteration r" using assms(2,4) by simp
  then obtain idx where idx: "found = Some idx" "m' = m1"
    and r': "r' = r\<lparr>rn_scanRotation := idx + 1, rn_iterationRunning := True, rn_iteration := Some (active ! idx, None)\<rparr>"
    using assms(3)
    unfolding tick_def Let_def active_def [symmetric] n_def [symmetric] idxs_def [symmetric] split_conv f
    by (cases found) (auto split: if_splits)
  note scan = f [unfolded idx, folded idx(2)]
  have "distinct idxs" "set idxs = {0..<n}" by (simp_all add: idxs_def rotation)
  moreover have "map_of (lm_loops m) (lp_ID (active ! i)) = Some (active ! i) \<and> lp_Status (active ! i) = LoopRunning"
    if "i < n" for i
    using that inv active_loop [of quote m "active ! i"] by (simp add: active_def n_def)
  ultimately have "IsDue (active ! idx) now \<and> fired_ok (rn_workDir r) (active ! idx) m'"
    using scan_fires [OF scan] active_distinct [of quote m] inv flight_dir [of r m] by (auto simp: active_def [symmetric] n_def)
  then show ?thesis using assms(4) r' by (auto simp: fired_ok_def loops_Get_def)
qed

text \<open>Two loops without an owner, and the workspace of the scheduler.\<close>

definition demo_added :: "string \<Rightarrow> loops_state" where
  "demo_added dir = fold (loops_exec id id)
     [LAdd Written [0, 0, 0, 1] ''fix'' ModeSelfPaced 0 [] 1000, LAdd Written [0, 0, 0, 2] ''build'' ModeSelfPaced 0 [] 1001,
      LRunnerDir dir] (NewRunner, loops_NewManager id [] 0)"

lemma demo_added_reach: "loops_reach id id (demo_added dir)"
proof -
  have "allowed_run id id
      [LAdd Written [0, 0, 0, 1] ''fix'' ModeSelfPaced 0 [] 1000, LAdd Written [0, 0, 0, 2] ''build'' ModeSelfPaced 0 [] 1001,
       LRunnerDir dir] (NewRunner, loops_NewManager id [] 0)"
    unfolding allowed_run.simps allowed.simps loops_exec.simps by (intro conjI TrueI; code_simp)
  then show ?thesis unfolding demo_added_def by (rule reach_run [OF reach_start])
qed

theorem tick_fires_own_due_loop_witness:
  "\<exists>l l'. rn_iteration (fst (tick id (\<lambda>_. Written) False True True 2000 (demo_added ''/work''))) = Some (l, None) \<and>
     loops_Get (lp_ID l) (snd (tick id (\<lambda>_. Written) False True True 2000 (demo_added ''/work''))) = Some l' \<and>
     path_Clean (lp_WorkDir l') = path_Clean ''/work''"
proof -
  obtain r m where s: "demo_added ''/work'' = (r, m)" by fastforce
  obtain r' m' where t: "tick id (\<lambda>_. Written) False True True 2000 (r, m) = (r', m')" by fastforce
  have "Option.is_none (rn_iteration (fst (demo_added ''/work''))) \<and> rn_workDir (fst (demo_added ''/work'')) = ''/work''"
    by code_simp
  then have r: "rn_iteration r = None" "rn_workDir r = ''/work''" using s by (auto simp: Option.is_none_def)
  have "Option.is_none (rn_iteration (fst (tick id (\<lambda>_. Written) False True True 2000 (demo_added ''/work'')))) = False" by code_simp
  then obtain l c where l: "rn_iteration r' = Some (l, c)" using s t by (auto simp: Option.is_none_def)
  from tick_fires_own_due_loop [OF demo_added_reach [of "''/work''", unfolded s] r(1) t l] r(2) s t l show ?thesis by auto
qed

section \<open>Fairness\<close>

text \<open>How far the scan is from position \<open>j\<close>.\<close>

definition scan_distance :: "nat \<Rightarrow> nat \<Rightarrow> nat \<Rightarrow> nat" where
  "scan_distance n rot j = (j + n - rot mod n) mod n"

text \<open>A loop that the scheduler may fire without adopting it.\<close>

definition runs_here :: "string \<Rightarrow> loop \<Rightarrow> bool" where
  "runs_here dir l \<longleftrightarrow> dir = [] \<or> lp_WorkDir l \<noteq> [] \<and> path_Clean (lp_WorkDir l) = path_Clean dir"

lemma scan_stops:
  "j \<in> set idxs \<Longrightarrow> IsDue (active ! j) now \<Longrightarrow> runs_here dir (active ! j) \<Longrightarrow>
   \<exists>m' k. scan_loops quote faults dir now active idxs m = (m', Some (idxs ! k)) \<and> k < length idxs \<and> (\<forall>k' < k. idxs ! k' \<noteq> j)"
proof (induction quote faults dir now active idxs m rule: scan_loops.induct)
  case (2 quote faults dir now active i idxs m)
  obtain m1 owned where o: "ownsLoop quote faults dir (active ! i) m = (m1, owned)" by fastforce
  show ?case
  proof (cases "IsDue (active ! i) now \<and> owned")
    case True
    then show ?thesis using o by (auto intro: exI [of _ 0])
  next
    case False
    have "owned" if "i = j" using that o "2.prems"(3) by (auto simp: ownsLoop_def runs_here_def split: if_splits)
    then have j: "j \<in> set idxs" "i \<noteq> j" using "2.prems" False by auto
    define m2 where "m2 = (if IsDue (active ! i) now then m1 else m)"
    have "\<exists>m' k. scan_loops quote faults dir now active idxs m2 = (m', Some (idxs ! k)) \<and> k < length idxs \<and> (\<forall>k' < k. idxs ! k' \<noteq> j)"
      using "2.IH"(1) [OF _ j(1)] "2.IH"(2) [OF _ o [symmetric] _ j(1)] "2.prems"(2,3) False
      by (cases "IsDue (active ! i) now") (auto simp: m2_def)
    then obtain m' k where k: "scan_loops quote faults dir now active idxs m2 = (m', Some (idxs ! k))" "k < length idxs"
      "\<forall>k' < k. idxs ! k' \<noteq> j" by blast
    then have "scan_loops quote faults dir now active (i # idxs) m = (m', Some ((i # idxs) ! Suc k))"
      using False o by (auto simp: m2_def)
    moreover have "\<forall>k' < Suc k. (i # idxs) ! k' \<noteq> j" using k(3) j(2) by (auto simp: nth_Cons split: nat.split)
    ultimately show ?thesis using k(2) by (metis Suc_less_eq length_Cons)
  qed
qed simp

lemma scan_distance_reaches:
  "j < n \<Longrightarrow> (rot mod n + scan_distance n rot j) mod n = j" "j < n \<Longrightarrow> scan_distance n rot j < n"
proof -
  assume j: "j < n"
  then have "rot mod n < n" by simp
  then have "rot mod n + (j + n - rot mod n) = j + n" by simp
  then show "(rot mod n + scan_distance n rot j) mod n = j" using j by (simp add: scan_distance_def mod_add_right_eq)
  show "scan_distance n rot j < n" using j by (simp add: scan_distance_def)
qed

lemma scan_distance_unique:
  assumes "j < n" "d < n" "(rot mod n + d) mod n = j"
  shows "scan_distance n rot j = d"
proof -
  have "rotate (rot mod n) [0..<n] ! scan_distance n rot j = rotate (rot mod n) [0..<n] ! d"
    using scan_distance_reaches [OF assms(1)] assms by (simp add: nth_rotate)
  moreover have "distinct (rotate (rot mod n) [0..<n])" by simp
  ultimately show ?thesis using scan_distance_reaches(2) [OF assms(1)] assms(2) by (simp add: nth_eq_iff_index_eq)
qed

text \<open>One idle tick with a due loop at position \<open>j\<close>: it fires that loop, or comes closer to it.\<close>

lemma tick_progress:
  fixes quote :: "string \<Rightarrow> string" and faults :: "string \<Rightarrow> write_result"
  assumes "\<not> rn_iterationRunning r" "active = loops_Active m" "n = length active" "j < n"
    and "IsDue (active ! j) now" "runs_here (rn_workDir r) (active ! j)"
  defines "r' \<equiv> fst (tick quote faults False True True now (r, m))"
  shows "rn_iteration r' = Some (active ! j, None) \<or>
    scan_distance n (rn_scanRotation r') j < scan_distance n (rn_scanRotation r) j"
proof -
  define start where "start = rn_scanRotation r mod n"
  define d where "d = scan_distance n (rn_scanRotation r) j"
  have d: "(start + d) mod n = j" "d < n" using scan_distance_reaches [OF assms(4)] by (simp_all add: start_def d_def)
  define idxs where "idxs = map (\<lambda>i. (start + i) mod n) [0..<n]"
  have "j \<in> set idxs" using assms(4) by (simp add: idxs_def rotation)
  from scan_stops [OF this assms(5,6), of quote faults m]
  obtain m' k where scan: "scan_loops quote faults (rn_workDir r) now active idxs m = (m', Some (idxs ! k))"
    and k: "k < n" "\<forall>k' < k. idxs ! k' \<noteq> j" by (auto simp: idxs_def)
  have "k \<le> d" using k d by (metis add.left_neutral diff_zero idxs_def length_upt linorder_not_less nth_map_upt)
  have r': "rn_scanRotation r' = (start + k) mod n + 1" "rn_iteration r' = Some (active ! ((start + k) mod n), None)"
  proof -
    have "r' = r\<lparr>rn_scanRotation := idxs ! k + 1, rn_iterationRunning := True, rn_iteration := Some (active ! (idxs ! k), None)\<rparr>"
      using assms(1,4) scan
      unfolding r'_def tick_def Let_def split_conv assms(2) [symmetric] assms(3) [symmetric] start_def [symmetric] idxs_def [symmetric]
      by simp
    moreover have "idxs ! k = (start + k) mod n" using k(1) by (simp add: idxs_def)
    ultimately show "rn_scanRotation r' = (start + k) mod n + 1" "rn_iteration r' = Some (active ! ((start + k) mod n), None)"
      by simp_all
  qed
  show ?thesis
  proof (cases "k = d")
    case True
    then show ?thesis using r'(2) d(1) by simp
  next
    case False
    have "(rn_scanRotation r' mod n + (d - k - 1)) mod n = (start + k + 1 + (d - k - 1)) mod n"
      by (simp add: r'(1) mod_simps)
    also have "start + k + 1 + (d - k - 1) = start + d" using False \<open>k \<le> d\<close> by simp
    finally have "scan_distance n (rn_scanRotation r') j = d - k - 1"
      using d by (intro scan_distance_unique [OF assms(4)]) auto
    then show ?thesis using False \<open>k \<le> d\<close> by (simp add: d_def)
  qed
qed

text \<open>
  C17: no loop of the scheduler's workspace starves. While the set of active loops stays the same, a loop that stays
  due and belongs to the workspace (or any due loop, when the scheduler is bound to none) is fired within as many
  idle ticks as there are active loops, whichever other loops are due, fire or are skipped in between.
\<close>

theorem due_loop_is_fired:
  fixes ticks :: "nat \<Rightarrow> loops_state"
  assumes "distinct ids" "i \<in> set ids"
    and "\<forall>k < length ids. \<not> rn_iterationRunning (fst (ticks k)) \<and> map lp_ID (loops_Active (snd (ticks k))) = ids \<and>
      (\<exists>l \<in> set (loops_Active (snd (ticks k))). lp_ID l = i \<and> IsDue l (now k) \<and> runs_here (rn_workDir (fst (ticks k))) l)"
    and "\<forall>k. Suc k < length ids \<longrightarrow> rn_scanRotation (fst (ticks (Suc k))) =
      rn_scanRotation (fst (tick quote (faults k) False True True (now k) (ticks k)))"
  shows "\<exists>k < length ids. \<exists>l. lp_ID l = i \<and>
    rn_iteration (fst (tick quote (faults k) False True True (now k) (ticks k))) = Some (l, None)"
proof (rule ccontr)
  assume never: "\<not> ?thesis"
  define n where "n = length ids"
  obtain j where j: "j < n" "ids ! j = i" using assms(2) by (auto simp: in_set_conv_nth n_def)
  define dist where "dist k = scan_distance n (rn_scanRotation (fst (ticks k))) j" for k
  define dist' where "dist' k = scan_distance n (rn_scanRotation (fst (tick quote (faults k) False True True (now k) (ticks k)))) j" for k
  have step: "dist' k < dist k" if k: "k < n" for k
  proof -
    obtain r m where s: "ticks k = (r, m)" by fastforce
    define active where "active = loops_Active m"
    have a: "map lp_ID active = ids" "\<not> rn_iterationRunning r" using assms(3) k s by (auto simp: n_def active_def)
    then have len: "length active = n" by (metis length_map n_def)
    obtain l where l: "l \<in> set active" "lp_ID l = i" "IsDue l (now k)" "runs_here (rn_workDir r) l"
      using assms(3) k s by (auto simp: n_def active_def)
    then obtain j' where j': "j' < n" "active ! j' = l" by (auto simp: in_set_conv_nth len)
    then have "ids ! j' = i" using a(1) l(2) len by (metis nth_map)
    then have "j' = j" using assms(1) j j'(1) by (metis n_def nth_eq_iff_index_eq)
    then have "rn_iteration (fst (tick quote (faults k) False True True (now k) (r, m))) \<noteq> Some (active ! j, None)"
      using never k l(2) j'(2) s unfolding n_def by metis
    with tick_progress [OF a(2) active_def len [symmetric] j(1), of "now k" quote "faults k"] l(3,4) j'(2) \<open>j' = j\<close>
    show ?thesis using s by (simp add: dist_def dist'_def)
  qed
  have "dist k + k < n" if "k < n" for k
    using that
  proof (induction k)
    case 0
    then show ?case using scan_distance_reaches(2) [OF j(1)] by (simp add: dist_def)
  next
    case (Suc k)
    then have "dist (Suc k) = dist' k" using assms(4) by (simp add: dist_def dist'_def n_def)
    then show ?case using Suc step [of k] by simp
  qed
  from this [of "n - 1"] step [of "n - 1"] j(1) show False by simp
qed

theorem due_loop_is_fired_witness:
  "\<exists>k < (2::nat). \<exists>l. lp_ID l = ''loop-00000002'' \<and>
     rn_iteration (fst (tick id (\<lambda>_. Written) False True True 2000
       (if k = 0 then demo_added [] else ((fst (demo_added []))\<lparr>rn_scanRotation := 1\<rparr>, snd (demo_added []))))) = Some (l, None)"
proof -
  define ticks :: "nat \<Rightarrow> loops_state" where
    "ticks k = (if k = 0 then demo_added [] else ((fst (demo_added []))\<lparr>rn_scanRotation := 1\<rparr>, snd (demo_added [])))" for k
  have ids: "map lp_ID (loops_Active (snd (demo_added []))) = [''loop-00000001'', ''loop-00000002'']" by code_simp
  have "list_ex (\<lambda>l. lp_ID l = ''loop-00000002'' \<and> IsDue l 2000 \<and> runs_here [] l) (loops_Active (snd (demo_added [])))" by code_simp
  then have due: "\<exists>l \<in> set (loops_Active (snd (demo_added []))). lp_ID l = ''loop-00000002'' \<and> IsDue l 2000 \<and> runs_here [] l"
    by (auto simp: list_ex_iff)
  have r: "rn_iterationRunning (fst (demo_added [])) = False \<and> rn_workDir (fst (demo_added [])) = []" by code_simp
  have rot: "rn_scanRotation (fst (tick id (\<lambda>_. Written) False True True 2000 (demo_added []))) = 1" by code_simp
  have "\<forall>k < length [''loop-00000001'', ''loop-00000002'']. \<not> rn_iterationRunning (fst (ticks k)) \<and>
      map lp_ID (loops_Active (snd (ticks k))) = [''loop-00000001'', ''loop-00000002''] \<and>
      (\<exists>l \<in> set (loops_Active (snd (ticks k))). lp_ID l = ''loop-00000002'' \<and> IsDue l 2000 \<and> runs_here (rn_workDir (fst (ticks k))) l)"
    using ids due r by (simp add: ticks_def)
  moreover have "\<forall>k. Suc k < length [''loop-00000001'', ''loop-00000002''] \<longrightarrow> rn_scanRotation (fst (ticks (Suc k))) =
      rn_scanRotation (fst (tick id (\<lambda>_. Written) False True True 2000 (ticks k)))"
    using rot by (simp add: ticks_def)
  ultimately have "\<exists>k < length [''loop-00000001'', ''loop-00000002'']. \<exists>l. lp_ID l = ''loop-00000002'' \<and>
      rn_iteration (fst (tick id (\<lambda>_. Written) False True True 2000 (ticks k))) = Some (l, None)"
    using due_loop_is_fired [of "[''loop-00000001'', ''loop-00000002'']" "''loop-00000002''" ticks "\<lambda>_. 2000" id "\<lambda>_ _. Written"]
    by simp
  moreover have "length [''loop-00000001'', ''loop-00000002''] = 2" by simp
  ultimately show ?thesis unfolding ticks_def by (simp only:)
qed

section \<open>What is reported\<close>

text \<open>Whether the result of an iteration is thrown away before it reaches the manager.\<close>

definition discarded :: "bool \<Rightarrow> spawn_outcome \<Rightarrow> runner \<Rightarrow> bool" where
  "discarded ctxErr outcome r \<longleftrightarrow> outcome = SpawnPanics \<or> ctxErr \<or> rn_userCancelled r"

definition dropped :: "loops_state \<Rightarrow> loops_state \<Rightarrow> bool" where
  "dropped s s' \<longleftrightarrow>
     lm_loops (snd s') = lm_loops (snd s) \<and> lm_disk (snd s') = lm_disk (snd s) \<and> rn_events (fst s') = rn_events (fst s)"

definition stopped :: "time \<Rightarrow> loop \<Rightarrow> loop" where
  "stopped now l = (if finished l then l else l\<lparr>lp_Status := LoopStopped, lp_StoppedAt := now\<rparr>)"

lemma stop_is_stopped: "stop_loop now l = Inr (stopped now l)"
  by (simp add: stop_loop_def stopped_def finished_def)

text \<open>A valid loop is saved, unless the file system says otherwise.\<close>

lemma save_valid:
  "loop_inv quote l \<Longrightarrow> Storage_Save quote fault l d =
     (case fault of NotWritten e \<Rightarrow> (d, Some e) | Written \<Rightarrow> (d(lp_ID l \<mapsto> json_loop l), None)
      | WriteUncertain e \<Rightarrow> (d(lp_ID l \<mapsto> json_loop l), Some e))"
  by (simp add: Storage_Save_def loop_inv_def)

lemma stop_exact:
  assumes "map_of (lm_loops m) i = Some l" "lm_disk m i = Some (json_loop l)" "lp_ID l = i" "loop_inv quote l"
    and "m' = fst (loops_Stop quote fault i now m)"
  shows "map_of (lm_loops m') = (map_of (lm_loops m))(i \<mapsto> if fault = Written then stopped now l else l) \<and>
    lm_disk m' = (lm_disk m)(i \<mapsto> json_loop (if \<exists>e. fault = NotWritten e then l else stopped now l))"
proof -
  have "lp_ID (stopped now l) = i" "loop_inv quote (stopped now l)"
    using command_log(2) [OF stop_is_stopped] command_inv(2) [OF stop_is_stopped assms(4)] assms(3) by (simp_all add: same_log_def)
  then show ?thesis
    using assms(1,2,5)
    by (cases fault) (auto simp: loops_Stop_def transition_def stop_is_stopped save_valid update_conv' fun_upd_idem)
qed

lemma record_exact:
  assumes "manager_inv quote m" "map_of (lm_loops m) i = Some l" "lp_Status l = LoopRunning"
    and "new = AppendIteration lower it l"
  shows "RecordIteration quote lower fault i it m =
    (case fault of
       NotWritten e \<Rightarrow> (m, Some (NotSaved e))
     | WriteUncertain e \<Rightarrow> (m\<lparr>lm_disk := (lm_disk m)(i \<mapsto> json_loop new)\<rparr>, Some (NotSaved e))
     | Written \<Rightarrow> (m\<lparr>lm_disk := (lm_disk m)(i \<mapsto> json_loop new), lm_loops := AList.update i new (lm_loops m)\<rparr>, None))"
  using recorded_loop [OF assms(1-3), of lower it] assms(2-4)
  by (cases fault) (simp_all add: RecordIteration_def Let_def save_valid)

lemma last_record:
  "\<exists>its. lp_Iterations (AppendIteration lower it l) = its @ [it]"
proof -
  have "Suc (length (lp_Iterations l)) - MaxHistorySize \<le> length (lp_Iterations l)" by (simp add: limit_defs)
  then show ?thesis by (simp add: stage_log)
qed

text \<open>What is recorded of a loop that still runs.\<close>

lemma record_result_exact:
  assumes "manager_inv quote m" "map_of (lm_loops m) i = Some l0" "lp_Status l0 = LoopRunning" "i = lp_ID l"
    and "new = AppendIteration lower it l0"
    and "record_result quote lower fault1 fault2 now l it agentDone h1 h2 (r, m) = (r', m')"
  shows "fault1 = Written \<Longrightarrow>
      map_of (lm_loops m') = (map_of (lm_loops m))(i \<mapsto> if agentDone \<and> fault2 = Written then stopped now new else new) \<and>
      lm_disk m' = (lm_disk m)(i \<mapsto> json_loop (if agentDone \<and> (\<forall>e. fault2 \<noteq> NotWritten e) then stopped now new else new)) \<and>
      rn_events r' = rn_events r @ (if h1 then [IterationDone i it] else [])"
    and "fault1 = NotWritten e \<Longrightarrow> lm_loops m' = lm_loops m \<and> lm_disk m' = lm_disk m \<and>
      rn_events r' = rn_events r @ (if h2 then [IterationPersistFailed i (it_N it) e] else [])"
    and "fault1 = WriteUncertain e \<Longrightarrow> lm_loops m' = lm_loops m \<and> lm_disk m' = (lm_disk m)(i \<mapsto> json_loop new) \<and>
      rn_events r' = rn_events r @ (if h2 then [IterationPersistFailed i (it_N it) e] else [])"
proof -
  note rec = record_exact [OF assms(1-3,5)]
  show "fault1 = NotWritten e \<Longrightarrow> lm_loops m' = lm_loops m \<and> lm_disk m' = lm_disk m \<and>
      rn_events r' = rn_events r @ (if h2 then [IterationPersistFailed i (it_N it) e] else [])"
    and "fault1 = WriteUncertain e \<Longrightarrow> lm_loops m' = lm_loops m \<and> lm_disk m' = (lm_disk m)(i \<mapsto> json_loop new) \<and>
      rn_events r' = rn_events r @ (if h2 then [IterationPersistFailed i (it_N it) e] else [])"
    using assms(6) unfolding assms(4) [symmetric] record_result_def by (auto simp: rec log_event_def assms(4) [symmetric])
  assume w: "fault1 = Written"
  define m1 where "m1 = m\<lparr>lm_disk := (lm_disk m)(i \<mapsto> json_loop new), lm_loops := AList.update i new (lm_loops m)\<rparr>"
  have m1: "map_of (lm_loops m1) = (map_of (lm_loops m))(i \<mapsto> new)" "lm_disk m1 = (lm_disk m)(i \<mapsto> json_loop new)"
    by (simp_all add: m1_def update_conv')
  have new: "lp_ID new = i" "loop_inv quote new" using recorded_loop [OF assms(1-3)] assms(5) by simp_all
  have "map_of (lm_loops m1) i = Some new" "lm_disk m1 i = Some (json_loop new)" by (simp_all add: m1)
  note stop = stop_exact [OF this new refl, of fault2 now]
  have m': "m' = (if agentDone then fst (loops_Stop quote fault2 i now m1) else m1)"
    and r': "rn_events r' = rn_events r @ (if h1 then [IterationDone i it] else [])"
    using assms(6) w unfolding assms(4) [symmetric] record_result_def
    by (auto simp: rec log_event_def m1_def assms(4) [symmetric])
  from stop m' r' m1 show "map_of (lm_loops m') = (map_of (lm_loops m))(i \<mapsto> if agentDone \<and> fault2 = Written then stopped now new else new) \<and>
      lm_disk m' = (lm_disk m)(i \<mapsto> json_loop (if agentDone \<and> (\<forall>e. fault2 \<noteq> NotWritten e) then stopped now new else new)) \<and>
      rn_events r' = rn_events r @ (if h1 then [IterationDone i it] else [])"
    by auto
qed

text \<open>
  C18: what becomes of an iteration. One that panicked, was interrupted by the shutdown or was cancelled by the user,
  and one whose loop was removed, paused or stopped meanwhile, changes no loop and no state file and is not
  reported. Any other is appended to its loop: when the write succeeds its record is the last one of the loop, in memory
  and on disk, and that record is what is reported as finished (and a loop whose agent said it is done is then stopped);
  when nothing could be written no loop and no state file changes and the failure is reported instead; when the outcome
  of the write is uncertain the failure is reported and memory is left alone, but the state file holds the record. No
  other loop is touched, and in every case the scheduler is free for the next iteration.
\<close>

theorem only_recorded_work_is_reported:
  assumes "loops_reach quote lower (r, m)" "rn_iteration r = Some (l, Some (started, h1, h2))"
    and "fire_end quote lower fault1 fault2 ctxErr finished_at now outcome (r, m) = (r', m')"
  shows "\<not> rn_iterationRunning r' \<and> rn_inFlight r' = None \<and>
    (discarded ctxErr outcome r \<longrightarrow> dropped (r, m) (r', m')) \<and>
    (\<forall>res err. outcome = Spawned res err \<longrightarrow> \<not> discarded ctxErr outcome r \<longrightarrow>
      (let it = build_iteration l started (time_sub finished_at started) res err; i = lp_ID l
       in case loops_Get i m of
            None \<Rightarrow> dropped (r, m) (r', m')
          | Some l0 \<Rightarrow>
              if lp_Status l0 \<noteq> LoopRunning then dropped (r, m) (r', m')
              else let new = AppendIteration lower it l0
                   in case fault1 of
                        Written \<Rightarrow>
                          (\<exists>its. lp_Iterations new = its @ [it]) \<and>
                          map_of (lm_loops m') = (map_of (lm_loops m))
                            (i \<mapsto> if agent_done res err \<and> fault2 = Written then stopped now new else new) \<and>
                          lm_disk m' = (lm_disk m)
                            (i \<mapsto> json_loop (if agent_done res err \<and> (\<forall>e. fault2 \<noteq> NotWritten e) then stopped now new else new)) \<and>
                          rn_events r' = rn_events r @ (if h1 then [IterationDone i it] else [])
                      | NotWritten e \<Rightarrow>
                          lm_loops m' = lm_loops m \<and> lm_disk m' = lm_disk m \<and>
                          rn_events r' = rn_events r @ (if h2 then [IterationPersistFailed i (it_N it) e] else [])
                      | WriteUncertain e \<Rightarrow>
                          lm_loops m' = lm_loops m \<and> lm_disk m' = (lm_disk m)(i \<mapsto> json_loop new) \<and>
                          rn_events r' = rn_events r @ (if h2 then [IterationPersistFailed i (it_N it) e] else [])))"
proof (intro conjI allI impI, goal_cases)
  case 1
  then show ?case using assms(2,3) by (auto simp: fire_end_def fire_return_def split: prod.splits)
next
  case 2
  then show ?case using assms(2,3) by (auto simp: fire_end_def fire_return_def split: prod.splits)
next
  case 3
  then show ?case
    using assms(2,3)
    by (cases outcome) (auto simp: fire_end_def discarded_def dropped_def fire_return_def ClearFiring_def split: if_splits)
next
  case (4 res err)
  have inv: "manager_inv quote m" by (rule reach_manager [OF assms(1)])
  define it where "it = build_iteration l started (time_sub finished_at started) res err"
  obtain r1 m1 where rec: "record_result quote lower fault1 fault2 now l it (agent_done res err) h1 h2 (r, m) = (r1, m1)"
    by fastforce
  have fin: "lm_loops m' = lm_loops m1" "lm_disk m' = lm_disk m1" "rn_events r' = rn_events r1"
    using assms(2,3) 4 rec by (auto simp: fire_end_def discarded_def it_def fire_return_def ClearFiring_def)
  show ?case
  proof (cases "\<exists>l0. loops_Get (lp_ID l) m = Some l0 \<and> lp_Status l0 = LoopRunning")
    case False
    then have "dropped (r, m) (r', m')"
      using rec fin by (auto simp: record_result_def RecordIteration_def dropped_def loops_Get_def split: option.splits)
    then show ?thesis using False by (simp add: Let_def split: option.split)
  next
    case True
    then obtain l0 where l0: "loops_Get (lp_ID l) m = Some l0" "lp_Status l0 = LoopRunning" by blast
    then have "map_of (lm_loops m) (lp_ID l) = Some l0" by (simp add: loops_Get_def)
    note exact = record_result_exact [OF inv this l0(2) refl refl rec, folded fin]
    show ?thesis
      unfolding it_def [symmetric] Let_def using l0 exact last_record [of lower it l0] by (cases fault1) simp_all
  qed
qed

theorem only_recorded_work_is_reported_witness:
  "\<exists>l' its it. loops_Get demo_id (snd (demo_ended 5)) = Some l' \<and> lm_disk (snd (demo_ended 5)) demo_id = Some (json_loop l') \<and>
     lp_Iterations l' = its @ [it] \<and> it_Summary it = ''ok'' \<and>
     rn_events (fst (demo_ended 5)) = rn_events (fst (demo_begun 5)) @ [IterationDone demo_id it]"
proof -
  obtain r m where s: "demo_begun 5 = (r, m)" by fastforce
  obtain r' m' where e: "demo_ended 5 = (r', m')" by fastforce
  have "map_option (\<lambda>(l, c). (lp_ID l, c)) (rn_iteration (fst (demo_begun 5))) = Some (demo_id, Some (2000, True, True)) \<and>
      rn_userCancelled (fst (demo_begun 5)) = False" by code_simp
  then obtain l where l: "rn_iteration r = Some (l, Some (2000, True, True))" "lp_ID l = demo_id" and "\<not> rn_userCancelled r"
    using s by auto
  then have d: "\<not> discarded False (Spawned demo_result None) r" by (simp add: discarded_def)
  have "map_option lp_Status (loops_Get demo_id (snd (demo_begun 5))) = Some LoopRunning" by code_simp
  then obtain l0 where l0: "loops_Get demo_id m = Some l0" "lp_Status l0 = LoopRunning" using s by auto
  have not_done: "agent_done demo_result None = False" by code_simp
  have sum: "summarizeOutput (sr_Output demo_result) ''iteration completed'' = ''ok''" by code_simp
  have "fire_end id id Written Written False 3000 3000 (Spawned demo_result None) (r, m) = (r', m')"
    using s e by (simp add: demo_ended_def)
  from only_recorded_work_is_reported [OF demo_begun_reach [of 5, unfolded s] l(1) this] d l(2) l0 not_done
  show ?thesis
    by (auto simp: Let_def loops_Get_def e s build_iteration_def sum demo_result_def [THEN arg_cong [where f = sr_OK]])
qed

section \<open>The markdown files\<close>

datatype writer_op = WWrite write_result loop | WDelete "string option" string

fun writer_exec :: "(string \<Rightarrow> string) \<Rightarrow> (loop \<Rightarrow> string) \<Rightarrow> memory_writer \<Rightarrow> writer_op \<Rightarrow> memory_writer" where
  "writer_exec quote render w (WWrite fault l) = fst (WriteLoop quote render fault l w)"
| "writer_exec quote render w (WDelete fault i) = fst (DeleteLoop quote fault i w)"

lemma writer_tombstone:
  assumes "i \<in> mw_deleted w" "mw_files w i = None"
  shows "i \<in> mw_deleted (writer_exec quote render w op) \<and> mw_files (writer_exec quote render w op) i = None"
  using assms by (cases op) (auto simp: WriteLoop_def DeleteLoop_def Let_def split: option.split write_result.split)

text \<open>
  Once the file of a removed loop is deleted, no write that was still under way brings it back, in whatever order
  the writes and deletions arrive.
\<close>

theorem deleted_markdown_stays_deleted:
  assumes "i \<noteq> []" "DeleteLoop quote fault i w = (w', None)"
  shows "mw_files (foldl (writer_exec quote render) w' ops) i = None"
proof -
  have "i \<in> mw_deleted w' \<and> mw_files w' i = None"
    using assms by (auto simp: DeleteLoop_def Let_def split: if_splits option.splits)
  then have "i \<in> mw_deleted (foldl (writer_exec quote render) w' ops) \<and> mw_files (foldl (writer_exec quote render) w' ops) i = None"
    by (induction ops arbitrary: w') (simp_all add: writer_tombstone)
  then show ?thesis ..
qed

theorem deleted_markdown_stays_deleted_witness:
  "let w = fst (DeleteLoop id None demo_id \<lparr>mw_workDir = ''/work'', mw_deleted = {}, mw_files = [demo_id \<mapsto> ''old'']\<rparr>)
   in mw_files (foldl (writer_exec id (\<lambda>_. ''new'')) w [WWrite Written (new_loop demo_id ''fix'' ModeSelfPaced 0 0 [])]) demo_id = None"
proof -
  let ?w = "\<lparr>mw_workDir = ''/work'', mw_deleted = {}, mw_files = [demo_id \<mapsto> ''old'']\<rparr>"
  have "isSafeLoopID demo_id" by code_simp
  then have "DeleteLoop id None demo_id ?w = (fst (DeleteLoop id None demo_id ?w), None)"
    by (simp add: DeleteLoop_def demo_id_def Let_def)
  then show ?thesis unfolding Let_def by (rule deleted_markdown_stays_deleted [rotated]) (simp add: demo_id_def)
qed

end
