(* ===== verification/RateBucket.thy ===== *)
theory RateBucket
  imports Complex_Main GoInt Prelude
begin

text \<open>
  \<open>internal/ratelimit/bucket.go\<close>: the token bucket. Amounts, rates and seconds are rational numbers where the code has
  \<open>float64\<close>, so the model has no rounding; a wait that does not fit 64 bits is not modelled. Every method holds the lock
  of the bucket, the blocking ones once per attempt; what happens between two attempts is the list of wake-ups:
  the timer fired and the clock reads a time, or the deadline or the context ended the wait.
\<close>

section \<open>The bucket\<close>

record token_bucket =
  tb_tokens :: rat
  tb_maxTokens :: rat
  tb_refillRate :: rat
  tb_lastRefill :: time

definition NewTokenBucket :: "rat \<Rightarrow> rat \<Rightarrow> time \<Rightarrow> token_bucket" where
  "NewTokenBucket maxTokens refillRate now =
     \<lparr>tb_tokens = maxTokens, tb_maxTokens = maxTokens, tb_refillRate = refillRate, tb_lastRefill = now\<rparr>"

definition maxRefillSeconds :: rat where "maxRefillSeconds = 120"

definition Seconds :: "duration \<Rightarrow> rat" where
  "Seconds d = of_int d / of_int second"

definition cap_tokens :: "token_bucket \<Rightarrow> token_bucket" where
  "cap_tokens b = (if tb_maxTokens b < tb_tokens b then b\<lparr>tb_tokens := tb_maxTokens b\<rparr> else b)"

definition refill :: "time \<Rightarrow> token_bucket \<Rightarrow> token_bucket" where
  "refill now b =
     (let elapsed = Seconds (time_sub now (tb_lastRefill b));
          elapsed = (if maxRefillSeconds < elapsed then maxRefillSeconds else elapsed)
      in (cap_tokens (b\<lparr>tb_tokens := tb_tokens b + elapsed * tb_refillRate b\<rparr>))\<lparr>tb_lastRefill := now\<rparr>)"

definition UpdateParameters :: "rat \<Rightarrow> rat \<Rightarrow> time \<Rightarrow> token_bucket \<Rightarrow> token_bucket" where
  "UpdateParameters mx rate now b = cap_tokens ((refill now b)\<lparr>tb_maxTokens := mx, tb_refillRate := rate\<rparr>)"

definition bucket_Sync :: "rat \<Rightarrow> time \<Rightarrow> token_bucket \<Rightarrow> token_bucket" where
  "bucket_Sync tokens now b = (cap_tokens (b\<lparr>tb_tokens := tokens\<rparr>))\<lparr>tb_lastRefill := now\<rparr>"

definition consumeAmount :: "rat \<Rightarrow> token_bucket \<Rightarrow> rat" where
  "consumeAmount tokens b = (if tb_maxTokens b < tokens then tb_maxTokens b else tokens)"

definition TryConsume :: "rat \<Rightarrow> time \<Rightarrow> token_bucket \<Rightarrow> token_bucket \<times> bool" where
  "TryConsume tokens now b =
     (let b1 = refill now b; amount = consumeAmount tokens b1
      in if amount \<le> tb_tokens b1 then (b1\<lparr>tb_tokens := tb_tokens b1 - amount\<rparr>, True) else (b1, False))"

text \<open>The time the missing tokens take, in whole milliseconds (the conversion truncates).\<close>

definition wait_for :: "rat \<Rightarrow> token_bucket \<Rightarrow> duration" where
  "wait_for amount b = \<lfloor>(amount - tb_tokens b) / tb_refillRate b * 1000\<rfloor> * 1000000"

definition bucket_EstimateWaitTime :: "rat \<Rightarrow> time \<Rightarrow> token_bucket \<Rightarrow> token_bucket \<times> duration" where
  "bucket_EstimateWaitTime tokens now b =
     (let b1 = refill now b; amount = consumeAmount tokens b1
      in (b1, if amount \<le> tb_tokens b1 then 0 else if tb_refillRate b1 \<le> 0 then 0 else wait_for amount b1))"

text \<open>One attempt of the blocking calls: granted, or the time to wait.\<close>

datatype attempt = Granted | Wait duration

definition consume_once :: "rat \<Rightarrow> time \<Rightarrow> token_bucket \<Rightarrow> token_bucket \<times> attempt" where
  "consume_once tokens now b =
     (let b1 = refill now b; amount = consumeAmount tokens b1
      in if amount \<le> tb_tokens b1 then (b1\<lparr>tb_tokens := tb_tokens b1 - amount\<rparr>, Granted)
         else if tb_refillRate b1 \<le> 0 then (b1\<lparr>tb_tokens := 0\<rparr>, Granted)
         else (b1, Wait (max (10 * 1000000) (wait_for amount b1))))"

text \<open>A wake-up: the timer of the wait fired at a time, or the deadline or the context came first.\<close>

datatype wake = Fired time | Ended

text \<open>The loop of the blocking calls; \<open>None\<close> is a call that still waits when the wake-ups are used up.\<close>

fun consume_loop :: "rat \<Rightarrow> time \<Rightarrow> wake list \<Rightarrow> token_bucket \<Rightarrow> (token_bucket \<times> bool) option" where
  "consume_loop tokens now ws b =
     (case consume_once tokens now b of
        (b', Granted) \<Rightarrow> Some (b', True)
      | (b', Wait _) \<Rightarrow>
          (case ws of
             [] \<Rightarrow> None
           | Ended # _ \<Rightarrow> Some (b', False)
           | Fired t # ws' \<Rightarrow> consume_loop tokens t ws' b'))"

declare consume_loop.simps [simp del]

definition Consume :: "rat \<Rightarrow> time \<Rightarrow> time list \<Rightarrow> token_bucket \<Rightarrow> token_bucket option" where
  "Consume tokens now ts b = map_option fst (consume_loop tokens now (map Fired ts) b)"

definition ConsumeWithTimeout :: "rat \<Rightarrow> time \<Rightarrow> wake list \<Rightarrow> token_bucket \<Rightarrow> (token_bucket \<times> bool) option" where
  "ConsumeWithTimeout tokens now ws b = consume_loop tokens now ws b"

definition ConsumeWithContext :: "rat \<Rightarrow> time \<Rightarrow> wake list \<Rightarrow> token_bucket \<Rightarrow> (token_bucket \<times> bool) option" where
  "ConsumeWithContext tokens now ws b = consume_loop tokens now ws b"

definition Available :: "time \<Rightarrow> token_bucket \<Rightarrow> token_bucket \<times> rat" where
  "Available now b = (let b1 = refill now b in (b1, tb_tokens b1))"

definition Capacity :: "token_bucket \<Rightarrow> rat" where
  "Capacity b = tb_maxTokens b"

definition bucket_Reset :: "time \<Rightarrow> token_bucket \<Rightarrow> token_bucket" where
  "bucket_Reset now b = b\<lparr>tb_tokens := tb_maxTokens b, tb_lastRefill := now\<rparr>"

definition bucket_Return :: "rat \<Rightarrow> token_bucket \<Rightarrow> token_bucket" where
  "bucket_Return tokens b = cap_tokens (b\<lparr>tb_tokens := tb_tokens b + tokens\<rparr>)"

section \<open>Refilling\<close>

lemma refill_simps [simp]:
  "tb_maxTokens (refill now b) = tb_maxTokens b" "tb_refillRate (refill now b) = tb_refillRate b"
  "tb_lastRefill (refill now b) = now"
  by (simp_all add: refill_def cap_tokens_def Let_def)

definition gained :: "time \<Rightarrow> token_bucket \<Rightarrow> rat" where
  "gained now b = min maxRefillSeconds (Seconds (time_sub now (tb_lastRefill b))) * tb_refillRate b"

lemma refill_tokens: "tb_tokens (refill now b) = min (tb_maxTokens b) (tb_tokens b + gained now b)"
  by (auto simp: refill_def cap_tokens_def Let_def gained_def min_def)

lemma time_sub_forward:
  assumes "a \<le> (b :: time)"
  shows "0 \<le> time_sub b a" "time_sub b a \<le> b - a"
  using assms by (auto simp: time_sub_def max_int64_def min_int64_def)

lemma Seconds_mono: "a \<le> b \<Longrightarrow> Seconds a \<le> Seconds b"
  by (simp add: Seconds_def divide_right_mono second_def)

lemma gained_bounds:
  assumes "0 \<le> tb_refillRate b" "tb_lastRefill b \<le> now"
  shows "0 \<le> gained now b" "gained now b \<le> tb_refillRate b * Seconds (now - tb_lastRefill b)"
proof -
  define e where "e = Seconds (time_sub now (tb_lastRefill b))"
  have "0 \<le> e" using Seconds_mono [OF time_sub_forward(1) [OF assms(2)]] by (simp add: e_def Seconds_def)
  moreover have "e \<le> Seconds (now - tb_lastRefill b)" unfolding e_def by (intro Seconds_mono time_sub_forward assms)
  ultimately have "0 \<le> min maxRefillSeconds e" "min maxRefillSeconds e \<le> Seconds (now - tb_lastRefill b)"
    by (auto simp: maxRefillSeconds_def)
  then show "0 \<le> gained now b" "gained now b \<le> tb_refillRate b * Seconds (now - tb_lastRefill b)"
    using assms(1) mult_right_mono [of "min maxRefillSeconds e" "Seconds (now - tb_lastRefill b)" "tb_refillRate b"]
    unfolding gained_def e_def [symmetric] by (simp_all add: mult.commute)
qed

section \<open>No more than the rate\<close>

text \<open>
  The contract of a metered operation: the tokens it grants are paid for by what the bucket held and by the time that
  passed, and it keeps the bucket within its bounds.
\<close>

definition bucket_ok :: "token_bucket \<Rightarrow> bool" where
  "bucket_ok b \<longleftrightarrow> 0 \<le> tb_tokens b \<and> tb_tokens b \<le> tb_maxTokens b \<and> 0 < tb_refillRate b"

definition same_limits :: "token_bucket \<Rightarrow> token_bucket \<Rightarrow> bool" where
  "same_limits b b' \<longleftrightarrow> tb_maxTokens b' = tb_maxTokens b \<and> tb_refillRate b' = tb_refillRate b"

locale metered =
  fixes op :: "time \<Rightarrow> token_bucket \<Rightarrow> token_bucket \<times> rat"
  assumes keeps: "bucket_ok b \<Longrightarrow> tb_lastRefill b \<le> now \<Longrightarrow> bucket_ok (fst (op now b)) \<and> same_limits b (fst (op now b))"
    and clock: "tb_lastRefill (fst (op now b)) = now"
    and granted: "bucket_ok b \<Longrightarrow> tb_lastRefill b \<le> now \<Longrightarrow> 0 \<le> snd (op now b)"
    and pays: "bucket_ok b \<Longrightarrow> tb_lastRefill b \<le> now \<Longrightarrow>
      tb_tokens (fst (op now b)) + snd (op now b) \<le> tb_tokens b + tb_refillRate b * Seconds (now - tb_lastRefill b)"
begin

lemma granted_at_most: "bucket_ok b \<Longrightarrow> tb_lastRefill b \<le> now \<Longrightarrow> snd (op now b) \<le> tb_maxTokens b + tb_refillRate b * Seconds (now - tb_lastRefill b)"
  using pays [of b now] keeps [of b now] by (simp add: bucket_ok_def)

end

lemma refill_pays:
  assumes "bucket_ok b" "tb_lastRefill b \<le> now"
  shows "bucket_ok (refill now b)" "same_limits b (refill now b)"
    "tb_tokens (refill now b) \<le> tb_tokens b + tb_refillRate b * Seconds (now - tb_lastRefill b)"
  using assms gained_bounds [of b now] by (auto simp: bucket_ok_def same_limits_def refill_tokens)

text \<open>The operations with the amounts they grant.\<close>

definition try_metered :: "rat \<Rightarrow> time \<Rightarrow> token_bucket \<Rightarrow> token_bucket \<times> rat" where
  "try_metered tokens now b =
     (case TryConsume tokens now b of (b', ok) \<Rightarrow> (b', if ok then consumeAmount tokens b else 0))"

definition attempt_metered :: "rat \<Rightarrow> time \<Rightarrow> token_bucket \<Rightarrow> token_bucket \<times> rat" where
  "attempt_metered tokens now b =
     (case consume_once tokens now b of (b', a) \<Rightarrow> (b', if a = Granted then consumeAmount tokens b else 0))"

lemma consumeAmount_limits: "same_limits b b' \<Longrightarrow> consumeAmount tokens b' = consumeAmount tokens b"
  by (simp add: consumeAmount_def same_limits_def)

lemma consumeAmount_refill [simp]: "consumeAmount tokens (refill now b) = consumeAmount tokens b"
  by (simp add: consumeAmount_def)

lemma try_metered_law: "0 \<le> tokens \<Longrightarrow> metered (try_metered tokens)"
proof
  fix b :: token_bucket and now
  assume t: "0 \<le> tokens"
  show "tb_lastRefill (fst (try_metered tokens now b)) = now" by (simp add: try_metered_def TryConsume_def Let_def)
  assume b: "bucket_ok b" "tb_lastRefill b \<le> now"
  note r = refill_pays [OF b]
  have "0 \<le> consumeAmount tokens b" using t b(1) by (auto simp: consumeAmount_def bucket_ok_def)
  then show "bucket_ok (fst (try_metered tokens now b)) \<and> same_limits b (fst (try_metered tokens now b))"
    "0 \<le> snd (try_metered tokens now b)"
    "tb_tokens (fst (try_metered tokens now b)) + snd (try_metered tokens now b) \<le>
      tb_tokens b + tb_refillRate b * Seconds (now - tb_lastRefill b)"
    using r by (auto simp: try_metered_def TryConsume_def Let_def bucket_ok_def same_limits_def)
qed

lemma attempt_is_try:
  assumes "0 < tb_refillRate b"
  shows "attempt_metered tokens now b = try_metered tokens now b"
  using assms by (auto simp: attempt_metered_def try_metered_def consume_once_def TryConsume_def Let_def)

lemma attempt_metered_law: "0 \<le> tokens \<Longrightarrow> metered (attempt_metered tokens)"
proof -
  assume "0 \<le> tokens"
  from try_metered_law [OF this] have m: "metered (try_metered tokens)" .
  show ?thesis
  proof
    fix b :: token_bucket and now
    show "tb_lastRefill (fst (attempt_metered tokens now b)) = now"
      by (simp add: attempt_metered_def consume_once_def Let_def)
    assume b: "bucket_ok b" "tb_lastRefill b \<le> now"
    then have "attempt_metered tokens now b = try_metered tokens now b" by (simp add: attempt_is_try bucket_ok_def)
    then show "bucket_ok (fst (attempt_metered tokens now b)) \<and> same_limits b (fst (attempt_metered tokens now b))"
      "0 \<le> snd (attempt_metered tokens now b)"
      "tb_tokens (fst (attempt_metered tokens now b)) + snd (attempt_metered tokens now b) \<le>
        tb_tokens b + tb_refillRate b * Seconds (now - tb_lastRefill b)"
      using metered.keeps [OF m b] metered.granted [OF m b] metered.pays [OF m b] by simp_all
  qed
qed

interpretation available: metered "\<lambda>now b. (fst (Available now b), 0)"
  by unfold_locales (use refill_pays in \<open>auto simp: Available_def Let_def\<close>)

interpretation estimated: metered "\<lambda>now b. (fst (bucket_EstimateWaitTime tokens now b), 0)" for tokens
  by unfold_locales (use refill_pays in \<open>auto simp: bucket_EstimateWaitTime_def Let_def\<close>)

interpretation tried: metered "try_metered \<bar>tokens\<bar>" for tokens
  by (rule try_metered_law) simp

interpretation attempted: metered "attempt_metered \<bar>tokens\<bar>" for tokens
  by (rule attempt_metered_law) simp

text \<open>
  The other operations put tokens into the bucket, or take some out, that no time has paid for: they are booked with a
  credit. A metered operation is one that needs none.
\<close>

locale booked =
  fixes op :: "time \<Rightarrow> token_bucket \<Rightarrow> token_bucket \<times> rat" and credit :: "token_bucket \<Rightarrow> rat"
  assumes sound: "bucket_ok b \<Longrightarrow> tb_lastRefill b \<le> now \<Longrightarrow> bucket_ok (fst (op now b))"
    and forward: "bucket_ok b \<Longrightarrow> tb_lastRefill b \<le> now \<Longrightarrow>
      tb_lastRefill b \<le> tb_lastRefill (fst (op now b)) \<and> tb_lastRefill (fst (op now b)) \<le> now"
    and balance: "bucket_ok b \<Longrightarrow> tb_lastRefill b \<le> now \<Longrightarrow> tb_tokens (fst (op now b)) + snd (op now b) \<le>
      tb_tokens b + tb_refillRate b * Seconds (tb_lastRefill (fst (op now b)) - tb_lastRefill b) + credit b"
begin

lemma kept_at_most: "bucket_ok b \<Longrightarrow> tb_lastRefill b \<le> now \<Longrightarrow> tb_tokens (fst (op now b)) \<le> tb_maxTokens (fst (op now b))"
  using sound [of b now] by (simp add: bucket_ok_def)

end

sublocale metered \<subseteq> free: booked op "\<lambda>b. 0"
  by unfold_locales (use keeps clock pays in auto)

lemma cap_tokens_simps [simp]:
  "tb_tokens (cap_tokens b) = min (tb_maxTokens b) (tb_tokens b)" "tb_maxTokens (cap_tokens b) = tb_maxTokens b"
  "tb_refillRate (cap_tokens b) = tb_refillRate b" "tb_lastRefill (cap_tokens b) = tb_lastRefill b"
  by (auto simp: cap_tokens_def)

lemma Seconds_0 [simp]: "Seconds 0 = 0"
  by (simp add: Seconds_def)

lemma rate_pays: "bucket_ok b \<Longrightarrow> tb_lastRefill b \<le> now \<Longrightarrow> 0 \<le> tb_refillRate b * Seconds (now - tb_lastRefill b)"
  using Seconds_mono [of 0 "now - tb_lastRefill b"] by (simp add: bucket_ok_def)

interpretation reset: booked "\<lambda>now b. (bucket_Reset now b, 0)" "\<lambda>b. tb_maxTokens b - tb_tokens b"
  by unfold_locales (use rate_pays in \<open>auto simp: bucket_Reset_def bucket_ok_def\<close>)

interpretation synced: booked "\<lambda>now b. (bucket_Sync \<bar>tokens\<bar> now b, 0)" "\<lambda>b. max 0 (\<bar>tokens\<bar> - tb_tokens b)" for tokens
  by unfold_locales (use rate_pays in \<open>fastforce simp: bucket_Sync_def bucket_ok_def\<close>)+

interpretation returned: booked "\<lambda>now b. (bucket_Return \<bar>tokens\<bar> b, 0)" "\<lambda>b. \<bar>tokens\<bar>" for tokens
  by unfold_locales (auto simp: bucket_Return_def bucket_ok_def)

lemma updated_booked:
  assumes "0 \<le> mx" "0 < rate"
  shows "booked (\<lambda>now b. (UpdateParameters mx rate now b, 0)) (\<lambda>b. 0)"
proof
  fix b now
  assume b: "bucket_ok b" "tb_lastRefill b \<le> now"
  note r = refill_pays [OF b]
  show "bucket_ok (fst (UpdateParameters mx rate now b, 0))"
    "tb_lastRefill b \<le> tb_lastRefill (fst (UpdateParameters mx rate now b, 0)) \<and> tb_lastRefill (fst (UpdateParameters mx rate now b, 0)) \<le> now"
    "tb_tokens (fst (UpdateParameters mx rate now b, 0)) + snd (UpdateParameters mx rate now b, 0) \<le>
      tb_tokens b + tb_refillRate b * Seconds (tb_lastRefill (fst (UpdateParameters mx rate now b, 0)) - tb_lastRefill b) + 0"
    using assms r b(2) min.cobounded2 [of mx "tb_tokens (refill now b)"] by (auto simp: UpdateParameters_def bucket_ok_def simp del: min.cobounded2)
qed

text \<open>Every operation of the bucket, each call at its time, with what it is granted and its credit.\<close>

datatype bucket_op =
    BTry rat | BAttempt rat | BAvailable | BEstimate rat | BReset | BSync rat | BReturn rat | BUpdate rat rat

fun meter :: "bucket_op \<Rightarrow> time \<Rightarrow> token_bucket \<Rightarrow> token_bucket \<times> rat" where
  "meter (BTry tokens) now b = try_metered tokens now b"
| "meter (BAttempt tokens) now b = attempt_metered tokens now b"
| "meter BAvailable now b = (fst (Available now b), 0)"
| "meter (BEstimate tokens) now b = (fst (bucket_EstimateWaitTime tokens now b), 0)"
| "meter BReset now b = (bucket_Reset now b, 0)"
| "meter (BSync tokens) now b = (bucket_Sync tokens now b, 0)"
| "meter (BReturn tokens) now b = (bucket_Return tokens b, 0)"
| "meter (BUpdate mx rate) now b = (UpdateParameters mx rate now b, 0)"

fun op_credit :: "bucket_op \<Rightarrow> token_bucket \<Rightarrow> rat" where
  "op_credit BReset b = tb_maxTokens b - tb_tokens b"
| "op_credit (BSync tokens) b = max 0 (tokens - tb_tokens b)"
| "op_credit (BReturn tokens) b = tokens"
| "op_credit _ b = 0"

fun nonneg_op :: "bucket_op \<Rightarrow> bool" where
  "nonneg_op (BTry tokens) \<longleftrightarrow> 0 \<le> tokens"
| "nonneg_op (BAttempt tokens) \<longleftrightarrow> 0 \<le> tokens"
| "nonneg_op (BSync tokens) \<longleftrightarrow> 0 \<le> tokens"
| "nonneg_op (BReturn tokens) \<longleftrightarrow> 0 \<le> tokens"
| "nonneg_op (BUpdate mx rate) \<longleftrightarrow> 0 \<le> mx \<and> 0 < rate"
| "nonneg_op _ \<longleftrightarrow> True"

text \<open>A run: the bucket, the tokens granted, and what they are paid with: the rate in force for the time, and the credits.\<close>

fun metered_run :: "(time \<times> bucket_op) list \<Rightarrow> token_bucket \<Rightarrow> token_bucket \<times> rat \<times> rat" where
  "metered_run [] b = (b, 0, 0)"
| "metered_run ((now, op) # ops) b =
     (case meter op now b of (b1, g) \<Rightarrow>
      case metered_run ops b1 of (b2, h, a) \<Rightarrow>
        (b2, g + h, tb_refillRate b * Seconds (tb_lastRefill b1 - tb_lastRefill b) + op_credit op b + a))"

lemma booked_cong: "booked op credit \<Longrightarrow> op' = op \<Longrightarrow> credit' = credit \<Longrightarrow> booked op' credit'"
  by simp

lemma meter_law:
  assumes "nonneg_op op"
  shows "booked (meter op) (op_credit op)"
proof (cases op)
  case (BTry tokens)
  show ?thesis by (rule booked_cong [OF tried.free.booked_axioms [of tokens]]) (use assms BTry in \<open>auto simp: fun_eq_iff\<close>)
next
  case (BAttempt tokens)
  show ?thesis by (rule booked_cong [OF attempted.free.booked_axioms [of tokens]]) (use assms BAttempt in \<open>auto simp: fun_eq_iff\<close>)
next
  case BAvailable
  show ?thesis by (rule booked_cong [OF available.free.booked_axioms]) (use BAvailable in \<open>auto simp: fun_eq_iff\<close>)
next
  case (BEstimate tokens)
  show ?thesis by (rule booked_cong [OF estimated.free.booked_axioms [of tokens]]) (use BEstimate in \<open>auto simp: fun_eq_iff\<close>)
next
  case BReset
  show ?thesis by (rule booked_cong [OF reset.booked_axioms]) (use BReset in \<open>auto simp: fun_eq_iff\<close>)
next
  case (BSync tokens)
  show ?thesis by (rule booked_cong [OF synced.booked_axioms [of tokens]]) (use assms BSync in \<open>auto simp: fun_eq_iff\<close>)
next
  case (BReturn tokens)
  show ?thesis by (rule booked_cong [OF returned.booked_axioms [of tokens]]) (use assms BReturn in \<open>auto simp: fun_eq_iff\<close>)
next
  case (BUpdate mx rate)
  show ?thesis by (rule booked_cong [OF updated_booked [of mx rate]]) (use assms BUpdate in \<open>auto simp: fun_eq_iff\<close>)
qed

lemma Seconds_add: "Seconds (a - b) + Seconds (c - a) = Seconds (c - b)"
  by (simp add: Seconds_def add_divide_distrib [symmetric])

text \<open>The operations that only ask or take.\<close>

fun taking_op :: "bucket_op \<Rightarrow> bool" where
  "taking_op (BTry tokens) \<longleftrightarrow> True"
| "taking_op (BAttempt tokens) \<longleftrightarrow> True"
| "taking_op BAvailable \<longleftrightarrow> True"
| "taking_op (BEstimate tokens) \<longleftrightarrow> True"
| "taking_op _ \<longleftrightarrow> False"

lemma taking_step:
  "taking_op op \<Longrightarrow> tb_lastRefill (fst (meter op now b)) = now \<and> tb_refillRate (fst (meter op now b)) = tb_refillRate b \<and> op_credit op b = 0"
  by (cases op)
    (auto simp: try_metered_def attempt_metered_def TryConsume_def consume_once_def Available_def bucket_EstimateWaitTime_def Let_def)

lemma taking_allowance:
  "list_all (\<lambda>(now, op). taking_op op) ops \<Longrightarrow>
   snd (snd (metered_run ops b)) = tb_refillRate b * Seconds (last (tb_lastRefill b # map fst ops) - tb_lastRefill b)"
proof (induction ops arbitrary: b)
  case (Cons o1 ops)
  obtain now op where o1: "o1 = (now, op)" by fastforce
  obtain b1 g where g: "meter op now b = (b1, g)" by fastforce
  have b1: "tb_lastRefill b1 = now" "tb_refillRate b1 = tb_refillRate b" "op_credit op b = 0"
    using taking_step [of op now b] Cons.prems g o1 by simp_all
  define t where "t = last (now # map fst ops)"
  have "tb_refillRate b * Seconds (now - tb_lastRefill b) + tb_refillRate b * Seconds (t - now) =
      tb_refillRate b * Seconds (t - tb_lastRefill b)"
    unfolding distrib_left [symmetric] by (simp add: Seconds_add)
  moreover have "snd (snd (metered_run ops b1)) = tb_refillRate b * Seconds (t - now)"
    using Cons.IH [of b1] Cons.prems b1 by (simp add: t_def)
  moreover have "snd (snd (metered_run (o1 # ops) b)) = tb_refillRate b * Seconds (now - tb_lastRefill b) + snd (snd (metered_run ops b1))"
    using b1 g by (simp add: o1 split: prod.split)
  ultimately show ?case
    by (simp add: t_def o1 del: metered_run.simps)
qed simp

text \<open>
  C28: whatever is called on a token bucket, in whatever order (attempts to take tokens, blocking calls attempt by
  attempt, queries, returns, synchronisation, resets and new limits), with amounts that are not negative and positive
  rates, the bucket stays between empty and full, and the tokens granted are at most what it held at first plus the
  rate in force times the time that passed plus what was put in explicitly: returned, or added by a reset or a
  synchronisation. When calls only ask and take, that is the rate times the elapsed time and nothing else.
\<close>

theorem grants_within_rate:
  assumes "bucket_ok b" "sorted (tb_lastRefill b # map fst ops)" "list_all (\<lambda>(now, op). nonneg_op op) ops"
    and "metered_run ops b = (b', granted, allowance)"
  shows "bucket_ok b' \<and> tb_tokens b' + granted \<le> tb_tokens b + allowance \<and>
    (list_all (\<lambda>(now, op). taking_op op) ops \<longrightarrow>
       allowance = tb_refillRate b * Seconds (last (tb_lastRefill b # map fst ops) - tb_lastRefill b))"
proof -
  have "bucket_ok b' \<and> tb_tokens b' + granted \<le> tb_tokens b + allowance"
    using assms
  proof (induction ops arbitrary: b granted allowance)
    case (Cons o1 ops)
    obtain now op where o1: "o1 = (now, op)" by fastforce
    obtain b1 g where g: "meter op now b = (b1, g)" by fastforce
    have m: "booked (meter op) (op_credit op)" using Cons.prems(3) o1 by (simp add: meter_law)
    have now: "tb_lastRefill b \<le> now" using Cons.prems(2) o1 by simp
    have b1: "bucket_ok b1" "tb_lastRefill b1 \<le> now"
      "tb_tokens b1 + g \<le> tb_tokens b + tb_refillRate b * Seconds (tb_lastRefill b1 - tb_lastRefill b) + op_credit op b"
      using booked.sound [OF m Cons.prems(1) now] booked.forward [OF m Cons.prems(1) now] booked.balance [OF m Cons.prems(1) now] g
      by simp_all
    obtain h a where run: "metered_run ops b1 = (b', h, a)"
      "granted = g + h" "allowance = tb_refillRate b * Seconds (tb_lastRefill b1 - tb_lastRefill b) + op_credit op b + a"
      using Cons.prems(4) g o1 by (auto split: prod.splits)
    have "sorted (tb_lastRefill b1 # map fst ops)" using Cons.prems(2) o1 b1(2) by auto
    from Cons.IH [OF b1(1) this _ run(1)] Cons.prems(3) b1(3) run(2,3) show ?case by simp
  qed simp
  then show ?thesis
    using taking_allowance [of ops b] assms(4) by simp
qed

theorem grants_within_rate_witness:
  "fst (snd (metered_run [(0, BTry 1), (500000000, BTry 1), (2000000000, BAttempt 2)] (NewTokenBucket 2 1 0))) \<le> 4 \<and>
   fst (snd (metered_run [(0, BTry 2), (0, BReset), (0, BTry 2), (0, BReturn 1), (0, BTry 1)] (NewTokenBucket 2 1 0))) \<le> 5"
proof -
  let ?b = "NewTokenBucket 2 1 0"
  let ?takes = "[(0, BTry 1), (500000000, BTry 1), (2000000000, BAttempt 2)]"
  let ?mixed = "[(0, BTry 2), (0, BReset), (0, BTry 2), (0, BReturn 1), (0, BTry 1)]"
  obtain b1 g1 a1 where 1: "metered_run ?takes ?b = (b1, g1, a1)" by (metis prod_cases3)
  obtain b2 g2 a2 where 2: "metered_run ?mixed ?b = (b2, g2, a2)" by (metis prod_cases3)
  have "snd (snd (metered_run ?mixed ?b)) = 3"
    by (simp add: try_metered_def TryConsume_def refill_def cap_tokens_def consumeAmount_def bucket_Reset_def bucket_Return_def
        NewTokenBucket_def Let_def time_sub_def max_int64_def min_int64_def maxRefillSeconds_def)
  then have "a2 = 3" by (simp only: 2 snd_conv)
  with grants_within_rate [OF _ _ _ 1] grants_within_rate [OF _ _ _ 2] show ?thesis
    unfolding 1 2 by (simp add: NewTokenBucket_def bucket_ok_def Seconds_def second_def)
qed

section \<open>Waiting\<close>

lemma gained_at_least:
  assumes "0 \<le> tb_refillRate b" "0 \<le> d" "d \<le> now - tb_lastRefill b"
  shows "min maxRefillSeconds (Seconds d) * tb_refillRate b \<le> gained now b"
proof -
  have "min maxRefillSeconds (Seconds d) \<le> min maxRefillSeconds (Seconds (time_sub now (tb_lastRefill b)))"
  proof (cases "now - tb_lastRefill b \<le> max_int64")
    case True
    then have "time_sub now (tb_lastRefill b) = now - tb_lastRefill b"
      using assms(2,3) by (intro time_sub_exact) simp
    then show ?thesis using Seconds_mono [OF assms(3)] by simp
  next
    case False
    then have "time_sub now (tb_lastRefill b) = max_int64" by (simp add: time_sub_def max_int64_def min_int64_def)
    moreover have "maxRefillSeconds \<le> Seconds max_int64"
      by (simp add: maxRefillSeconds_def Seconds_def second_def max_int64_def)
    ultimately show ?thesis by simp
  qed
  then show ?thesis unfolding gained_def using assms(1) by (rule mult_right_mono)
qed

lemma once_refused:
  assumes "consume_once tokens now b = (b', Wait d)"
  shows "b' = refill now b" "0 < tb_refillRate b" "tb_tokens b' < consumeAmount tokens b"
    "d = max 10000000 (wait_for (consumeAmount tokens b) b')"
  using assms by (auto simp: consume_once_def Let_def split: if_splits)

lemma once_granted: "consumeAmount tokens b \<le> tb_tokens b + gained now b \<Longrightarrow> \<exists>b'. consume_once tokens now b = (b', Granted)"
  by (auto simp: consume_once_def Let_def refill_tokens consumeAmount_def min_def split: if_splits)

lemma Seconds_wait: "0 < r \<Longrightarrow> x / r - 1 / 1000 < Seconds (max 10000000 (\<lfloor>x / r * 1000\<rfloor> * 1000000))"
proof -
  have "x / r * 1000 < of_int \<lfloor>x / r * 1000\<rfloor> + 1" by linarith
  then have "x / r - 1 / 1000 < Seconds (\<lfloor>x / r * 1000\<rfloor> * 1000000)" by (simp add: Seconds_def second_def)
  also have "\<dots> \<le> Seconds (max 10000000 (\<lfloor>x / r * 1000\<rfloor> * 1000000))" by (rule Seconds_mono) simp
  finally show ?thesis .
qed

text \<open>
  C29: a blocking call ends. When nobody else uses the bucket, what is missing comes in within two minutes at the
  bucket's rate and the timers do not fire early, the call is served at the third attempt at the latest.
\<close>

theorem waiting_ends:
  assumes "0 < tb_refillRate b" "consumeAmount tokens b - tb_tokens (refill now b) \<le> maxRefillSeconds * tb_refillRate b"
    and "now + snd (bucket_EstimateWaitTime tokens now b) \<le> t1" "now + 10000000 \<le> t1" "t1 + 10000000 \<le> t2"
  shows "\<exists>b'. Consume tokens now [t1, t2] b = Some b'"
proof (cases "consume_once tokens now b")
  case (Pair b1 a)
  show ?thesis
  proof (cases a)
    case Granted
    then show ?thesis by (simp add: Consume_def consume_loop.simps [of tokens now] Pair)
  next
    case (Wait d)
    define x where "x = consumeAmount tokens b - tb_tokens b1"
    define r where "r = tb_refillRate b"
    note ref = once_refused [OF Pair [unfolded Wait]]
    have same: "consumeAmount tokens b1 = consumeAmount tokens b" "tb_refillRate b1 = r" "tb_lastRefill b1 = now"
      using ref(1) by (simp_all add: r_def)
    have d: "d = max 10000000 (\<lfloor>x / r * 1000\<rfloor> * 1000000)" using ref(4) same(2) by (simp add: wait_for_def x_def)
    have "snd (bucket_EstimateWaitTime tokens now b) = wait_for (consumeAmount tokens b) b1"
      using ref(1-3) by (simp add: bucket_EstimateWaitTime_def Let_def)
    then have dt: "d \<le> t1 - now" using assms(3,4) ref(4) by simp
    have r: "0 < r" "x \<le> maxRefillSeconds * r" "0 < x" using assms(1,2) ref by (simp_all add: r_def x_def)
    have "x / r - 1 / 1000 < min maxRefillSeconds (Seconds d)"
      using Seconds_wait [OF r(1), of x] r(1,2) by (simp add: d field_simps)
    then have "(x / r - 1 / 1000) * r < min maxRefillSeconds (Seconds d) * r" using r(1) by (rule mult_strict_right_mono)
    moreover have "(x / r - 1 / 1000) * r = x - r / 1000" using r(1) by (simp add: field_simps)
    moreover have "min maxRefillSeconds (Seconds d) * r \<le> gained t1 b1"
      using gained_at_least [of b1 d t1] dt d r(1) by (simp add: same)
    ultimately have gain: "consumeAmount tokens b - r / 1000 < tb_tokens b1 + gained t1 b1" by (simp add: x_def)
    show ?thesis
    proof (cases "consume_once tokens t1 b1")
      case P2: (Pair b2 a2)
      show ?thesis
      proof (cases a2)
        case Granted
        then show ?thesis
          by (simp add: Consume_def consume_loop.simps [of tokens now] consume_loop.simps [of tokens t1] Pair Wait P2)
      next
        case W2: (Wait d2)
        note ref2 = once_refused [OF P2 [unfolded W2]]
        have b2: "tb_refillRate b2 = r" "consumeAmount tokens b2 = consumeAmount tokens b" "tb_lastRefill b2 = t1"
          using ref2(1) same by simp_all
        have "tb_tokens b2 = min (tb_maxTokens b1) (tb_tokens b1 + gained t1 b1)" using ref2(1) by (simp add: refill_tokens)
        then have "consumeAmount tokens b - r / 1000 < tb_tokens b2"
          using gain ref2(3) same(1) by (auto simp: consumeAmount_def min_def split: if_splits)
        moreover have "r / 100 \<le> gained t2 b2"
          using gained_at_least [of b2 10000000 t2] assms(5) r(1) b2
          by (simp add: Seconds_def second_def maxRefillSeconds_def)
        ultimately have "consumeAmount tokens b2 \<le> tb_tokens b2 + gained t2 b2" using b2(2) r(1) by simp
        from once_granted [OF this] obtain b3 where "consume_once tokens t2 b2 = (b3, Granted)" by blast
        then show ?thesis
          by (simp add: Consume_def consume_loop.simps [of tokens now] consume_loop.simps [of tokens t1]
              consume_loop.simps [of tokens t2] Pair Wait P2 W2)
      qed
    qed
  qed
qed

theorem waiting_ends_witness:
  "\<exists>b'. Consume 5 0 [1500000000, 1510000000] \<lparr>tb_tokens = 2, tb_maxTokens = 10, tb_refillRate = 2, tb_lastRefill = 0\<rparr> = Some b'"
  by (rule waiting_ends)
    (simp_all add: consumeAmount_def refill_tokens gained_def maxRefillSeconds_def time_sub_def Seconds_def
      bucket_EstimateWaitTime_def wait_for_def Let_def min_int64_def max_int64_def)

text \<open>
  The waits of a call nobody disturbs, when every timer fires on time; at most \<open>n\<close> of them.
\<close>

fun lone_waits :: "nat \<Rightarrow> rat \<Rightarrow> time \<Rightarrow> token_bucket \<Rightarrow> duration list" where
  "lone_waits 0 tokens now b = []"
| "lone_waits (Suc n) tokens now b =
     (case consume_once tokens now b of
        (b', Granted) \<Rightarrow> []
      | (b', Wait d) \<Rightarrow> d # lone_waits n tokens (now + d) b')"

text \<open>
  The cap on refilling also cuts the waits of the blocking calls themselves. With ten requests per ten minutes and an
  empty bucket, a call for ten is estimated at ten minutes and waits for half an hour: each time it wakes up, only
  two minutes of the wait are credited.
\<close>

theorem long_waits_are_credited_short:
  "let b = \<lparr>tb_tokens = 0, tb_maxTokens = 10, tb_refillRate = 1 / 60, tb_lastRefill = 0\<rparr>
   in snd (bucket_EstimateWaitTime 10 0 b) = 600 * second \<and>
      lone_waits 6 10 0 b = [600 * second, 480 * second, 360 * second, 240 * second, 120 * second]"
  by (simp add: Let_def eval_nat_numeral consume_once_def refill_def cap_tokens_def consumeAmount_def wait_for_def
      bucket_EstimateWaitTime_def Seconds_def time_sub_def maxRefillSeconds_def second_def min_int64_def max_int64_def)

end
