(* ===== verification/RateLimiter.thy ===== *)
theory RateLimiter
  imports RateBucket
begin

text \<open>
  \<open>internal/ratelimit/limiter.go\<close>: the limiter of requests and tokens, on two buckets. Every call of \<open>time.Now\<close> is an
  argument, and so are the wake-ups of the blocking calls (\<open>None\<close> is a call that still waits). An attempt to acquire
  charges both buckets or, when it is refused, neither.
\<close>

section \<open>The limiter\<close>

record limiter =
  rl_requestBucket :: token_bucket
  rl_tokenBucket :: token_bucket
  rl_enabled :: bool
  rl_totalRequests :: int
  rl_blockedRequests :: int
  rl_totalTokens :: int

record limiter_config =
  rc_Enabled :: bool
  rc_RequestsPerMinute :: int
  rc_TokensPerMinute :: int
  rc_BurstSize :: int

definition DefaultConfig :: limiter_config where
  "DefaultConfig = \<lparr>rc_Enabled = True, rc_RequestsPerMinute = 60, rc_TokensPerMinute = 1000000, rc_BurstSize = 10\<rparr>"

definition NewLimiter :: "limiter_config \<Rightarrow> time \<Rightarrow> time \<Rightarrow> limiter" where
  "NewLimiter cfg now1 now2 =
     (let requestRefillRate = of_int (rc_RequestsPerMinute cfg) / 60;
          tokenRefillRate = of_int (rc_TokensPerMinute cfg) / 60;
          requestBurst = of_int (rc_BurstSize cfg);
          requestBurst = (if requestBurst < 1 then 1 else requestBurst);
          tokenBurst = of_int (rc_TokensPerMinute cfg) / 10
      in \<lparr>rl_requestBucket = NewTokenBucket requestBurst requestRefillRate now1,
          rl_tokenBucket = NewTokenBucket tokenBurst tokenRefillRate now2, rl_enabled = rc_Enabled cfg,
          rl_totalRequests = 0, rl_blockedRequests = 0, rl_totalTokens = 0\<rparr>)"

definition count_request :: "limiter \<Rightarrow> limiter" where
  "count_request l = l\<lparr>rl_totalRequests := rl_totalRequests l + 1\<rparr>"

definition count_blocked :: "limiter \<Rightarrow> limiter" where
  "count_blocked l = l\<lparr>rl_blockedRequests := rl_blockedRequests l + 1\<rparr>"

definition Acquire :: "int \<Rightarrow> time \<Rightarrow> time list \<Rightarrow> time \<Rightarrow> time list \<Rightarrow> limiter \<Rightarrow> limiter option" where
  "Acquire estimatedTokens now1 ts1 now2 ts2 l =
     (if \<not> rl_enabled l then Some l
      else let l1 = count_request l
           in case Consume 1 now1 ts1 (rl_requestBucket l1) of
                None \<Rightarrow> None
              | Some b1 \<Rightarrow>
                  let l2 = l1\<lparr>rl_requestBucket := b1\<rparr>
                  in if 0 < estimatedTokens
                     then map_option (\<lambda>b2. l2\<lparr>rl_tokenBucket := b2\<rparr>)
                            (Consume (of_int estimatedTokens) now2 ts2 (rl_tokenBucket l2))
                     else Some l2)"

definition TryAcquire :: "int \<Rightarrow> time \<Rightarrow> time \<Rightarrow> limiter \<Rightarrow> limiter \<times> bool" where
  "TryAcquire estimatedTokens now1 now2 l =
     (if \<not> rl_enabled l then (l, True)
      else let l1 = count_request l
           in case TryConsume 1 now1 (rl_requestBucket l1) of
                (b1, False) \<Rightarrow> (count_blocked (l1\<lparr>rl_requestBucket := b1\<rparr>), False)
              | (b1, True) \<Rightarrow>
                  let l2 = l1\<lparr>rl_requestBucket := b1\<rparr>
                  in if 0 < estimatedTokens then
                       (case TryConsume (of_int estimatedTokens) now2 (rl_tokenBucket l2) of
                          (b2, False) \<Rightarrow>
                            (count_blocked (l2\<lparr>rl_tokenBucket := b2, rl_requestBucket := bucket_Return 1 b1\<rparr>), False)
                        | (b2, True) \<Rightarrow> (l2\<lparr>rl_tokenBucket := b2\<rparr>, True))
                     else (l2, True))"

definition EstimateWaitTime :: "int \<Rightarrow> time \<Rightarrow> time \<Rightarrow> limiter \<Rightarrow> limiter \<times> duration" where
  "EstimateWaitTime estimatedTokens now1 now2 l =
     (if \<not> rl_enabled l then (l, 0)
      else case bucket_EstimateWaitTime 1 now1 (rl_requestBucket l) of
             (b1, reqWait) \<Rightarrow>
               let maxWait = (if 0 < reqWait then reqWait else 0); l1 = l\<lparr>rl_requestBucket := b1\<rparr>
               in if 0 < estimatedTokens then
                    (case bucket_EstimateWaitTime (of_int estimatedTokens) now2 (rl_tokenBucket l1) of
                       (b2, tokWait) \<Rightarrow>
                         (l1\<lparr>rl_tokenBucket := b2\<rparr>, if maxWait < tokWait then tokWait else maxWait))
                  else (l1, maxWait))"

text \<open>The error of \<open>AcquireWithTimeout\<close>, if any.\<close>

definition AcquireWithTimeout ::
    "int \<Rightarrow> time \<Rightarrow> wake list \<Rightarrow> time \<Rightarrow> wake list \<Rightarrow> limiter \<Rightarrow> (limiter \<times> string option) option" where
  "AcquireWithTimeout estimatedTokens now1 ws1 now2 ws2 l =
     (if \<not> rl_enabled l then Some (l, None)
      else let l1 = count_request l
           in case ConsumeWithTimeout 1 now1 ws1 (rl_requestBucket l1) of
                None \<Rightarrow> None
              | Some (b1, False) \<Rightarrow>
                  Some (count_blocked (l1\<lparr>rl_requestBucket := b1\<rparr>), Some ''rate limit exceeded: request limit'')
              | Some (b1, True) \<Rightarrow>
                  let l2 = l1\<lparr>rl_requestBucket := b1\<rparr>
                  in if 0 < estimatedTokens then
                       (case ConsumeWithTimeout (of_int estimatedTokens) now2 ws2 (rl_tokenBucket l2) of
                          None \<Rightarrow> None
                        | Some (b2, False) \<Rightarrow>
                            Some (count_blocked (l2\<lparr>rl_tokenBucket := b2, rl_requestBucket := bucket_Return 1 b1\<rparr>),
                                  Some ''rate limit exceeded: token limit'')
                        | Some (b2, True) \<Rightarrow> Some (l2\<lparr>rl_tokenBucket := b2\<rparr>, None))
                     else Some (l2, None))"

definition in_danger :: "token_bucket \<Rightarrow> bool" where
  "in_danger b \<longleftrightarrow> 0 < Capacity b \<and> tb_tokens b / Capacity b < 5 / 100"

text \<open>
  \<open>AcquireWithContext\<close>: whether it succeeded; \<open>ended\<close> says that the context ends during the safety delay.
\<close>

definition AcquireWithContext ::
    "int \<Rightarrow> time \<Rightarrow> wake list \<Rightarrow> time \<Rightarrow> wake list \<Rightarrow> time \<Rightarrow> time \<Rightarrow> bool \<Rightarrow> limiter \<Rightarrow> (limiter \<times> bool) option" where
  "AcquireWithContext estimatedTokens now1 ws1 now2 ws2 now3 now4 ended l =
     (if \<not> rl_enabled l then Some (l, True)
      else let l1 = count_request l
           in case ConsumeWithContext 1 now1 ws1 (rl_requestBucket l1) of
                None \<Rightarrow> None
              | Some (b1, False) \<Rightarrow> Some (l1\<lparr>rl_requestBucket := b1\<rparr>, False)
              | Some (b1, True) \<Rightarrow>
                  let l2 = l1\<lparr>rl_requestBucket := b1\<rparr>
                  in case (if 0 < estimatedTokens
                           then ConsumeWithContext (of_int estimatedTokens) now2 ws2 (rl_tokenBucket l2)
                           else Some (rl_tokenBucket l2, True)) of
                       None \<Rightarrow> None
                     | Some (b2, False) \<Rightarrow> Some (l2\<lparr>rl_tokenBucket := b2, rl_requestBucket := bucket_Return 1 b1\<rparr>, False)
                     | Some (b2, True) \<Rightarrow>
                         let r = fst (Available now3 b1); t = fst (Available now4 b2);
                             l3 = l2\<lparr>rl_requestBucket := r, rl_tokenBucket := t\<rparr>
                         in Some (l3, \<not> ((in_danger r \<or> in_danger t) \<and> ended)))"

definition RecordUsage :: "int \<Rightarrow> limiter \<Rightarrow> limiter" where
  "RecordUsage actualTokens l = l\<lparr>rl_totalTokens := rl_totalTokens l + actualTokens\<rparr>"

text \<open>What the headers of the provider say of one bucket.\<close>

definition update_bucket :: "int \<Rightarrow> int \<Rightarrow> duration \<Rightarrow> time \<Rightarrow> time \<Rightarrow> token_bucket \<Rightarrow> token_bucket" where
  "update_bucket limit remaining reset now1 now2 b =
     (let b1 = (if 0 < limit then
                  let resetSec = Seconds reset; resetSec = (if resetSec \<le> 0 then 60 else resetSec)
                  in UpdateParameters (of_int limit) (of_int limit / resetSec) now1 b
                else b)
      in if 0 \<le> remaining then bucket_Sync (of_int remaining) now2 b1 else b1)"

definition UpdateLimits ::
    "int \<Rightarrow> int \<Rightarrow> duration \<Rightarrow> int \<Rightarrow> int \<Rightarrow> duration \<Rightarrow> time \<Rightarrow> time \<Rightarrow> time \<Rightarrow> time \<Rightarrow> limiter \<Rightarrow> limiter" where
  "UpdateLimits reqLimit reqRemaining reqReset tokLimit tokRemaining tokReset now1 now2 now3 now4 l =
     (if \<not> rl_enabled l then l
      else l\<lparr>rl_requestBucket := update_bucket reqLimit reqRemaining reqReset now1 now2 (rl_requestBucket l),
             rl_tokenBucket := update_bucket tokLimit tokRemaining tokReset now3 now4 (rl_tokenBucket l)\<rparr>)"

definition ReturnTokens :: "int \<Rightarrow> int \<Rightarrow> limiter \<Rightarrow> limiter" where
  "ReturnTokens requestTokens estimatedTokens l =
     (if \<not> rl_enabled l then l
      else let l1 = (if 0 < requestTokens
                     then l\<lparr>rl_requestBucket := bucket_Return (of_int requestTokens) (rl_requestBucket l)\<rparr> else l)
           in if 0 < estimatedTokens
              then l1\<lparr>rl_tokenBucket := bucket_Return (of_int estimatedTokens) (rl_tokenBucket l1)\<rparr> else l1)"

record limiter_stats =
  st_Enabled :: bool
  st_TotalRequests :: int
  st_BlockedRequests :: int
  st_TotalTokens :: int
  st_AvailableRequests :: rat
  st_AvailableTokens :: rat

definition limiter_Stats :: "time \<Rightarrow> time \<Rightarrow> limiter \<Rightarrow> limiter \<times> limiter_stats" where
  "limiter_Stats now1 now2 l =
     (let r = fst (Available now1 (rl_requestBucket l)); t = fst (Available now2 (rl_tokenBucket l))
      in (l\<lparr>rl_requestBucket := r, rl_tokenBucket := t\<rparr>,
          \<lparr>st_Enabled = rl_enabled l, st_TotalRequests = rl_totalRequests l, st_BlockedRequests = rl_blockedRequests l,
           st_TotalTokens = rl_totalTokens l, st_AvailableRequests = tb_tokens r, st_AvailableTokens = tb_tokens t\<rparr>))"

definition limiter_SetEnabled :: "bool \<Rightarrow> limiter \<Rightarrow> limiter" where
  "limiter_SetEnabled b l = l\<lparr>rl_enabled := b\<rparr>"

definition limiter_Reset :: "time \<Rightarrow> time \<Rightarrow> limiter \<Rightarrow> limiter" where
  "limiter_Reset now1 now2 l =
     l\<lparr>rl_requestBucket := bucket_Reset now1 (rl_requestBucket l), rl_tokenBucket := bucket_Reset now2 (rl_tokenBucket l),
       rl_totalRequests := 0, rl_blockedRequests := 0, rl_totalTokens := 0\<rparr>"

definition EstimateTokens :: "string \<Rightarrow> int" where
  "EstimateTokens message = int (length message div 4)"

section \<open>All or nothing\<close>

lemma return_one:
  assumes "bucket_ok b" "tb_lastRefill b \<le> now" "1 \<le> tb_maxTokens b" "TryConsume 1 now b = (b', True)"
  shows "bucket_Return 1 b' = refill now b"
  using assms refill_pays(1) [OF assms(1,2)]
  by (auto simp: TryConsume_def Let_def consumeAmount_def bucket_Return_def cap_tokens_def bucket_ok_def split: if_splits)

text \<open>
  C30: \<open>TryAcquire\<close> with a positive estimate, on a limiter that is on, is all or nothing. If it succeeds, exactly one
  request and the estimated tokens (or a whole bucket of them, when the estimate is larger) are taken; if it is refused, both buckets are as if only time had passed, and the refusal
  is counted.
\<close>

theorem acquire_all_or_nothing:
  assumes "rl_enabled l" "0 < estimated" "bucket_ok (rl_requestBucket l)" "bucket_ok (rl_tokenBucket l)"
    and "1 \<le> tb_maxTokens (rl_requestBucket l)" "tb_lastRefill (rl_requestBucket l) \<le> now1"
    and "TryAcquire estimated now1 now2 l = (l', ok)"
  shows "rl_totalRequests l' = rl_totalRequests l + 1 \<and>
    (if ok
     then rl_requestBucket l' = (refill now1 (rl_requestBucket l))\<lparr>tb_tokens := tb_tokens (refill now1 (rl_requestBucket l)) - 1\<rparr> \<and>
          rl_tokenBucket l' = (refill now2 (rl_tokenBucket l))\<lparr>tb_tokens := tb_tokens (refill now2 (rl_tokenBucket l)) -
            min (of_int estimated) (tb_maxTokens (rl_tokenBucket l))\<rparr> \<and>
          0 \<le> tb_tokens (rl_requestBucket l') \<and> 0 \<le> tb_tokens (rl_tokenBucket l') \<and>
          rl_blockedRequests l' = rl_blockedRequests l
     else rl_requestBucket l' = refill now1 (rl_requestBucket l) \<and>
          (rl_tokenBucket l' = rl_tokenBucket l \<or> rl_tokenBucket l' = refill now2 (rl_tokenBucket l)) \<and>
          rl_blockedRequests l' = rl_blockedRequests l + 1)"
proof -
  obtain b1 ok1 where t1: "TryConsume 1 now1 (rl_requestBucket l) = (b1, ok1)" by fastforce
  obtain b2 ok2 where t2: "TryConsume (of_int estimated) now2 (rl_tokenBucket l) = (b2, ok2)" by fastforce
  have b1: "b1 = (if ok1 then (refill now1 (rl_requestBucket l))\<lparr>tb_tokens := tb_tokens (refill now1 (rl_requestBucket l)) - 1\<rparr>
      else refill now1 (rl_requestBucket l))" "ok1 \<longrightarrow> 0 \<le> tb_tokens b1"
    using t1 assms(5) by (auto simp: TryConsume_def Let_def consumeAmount_def split: if_splits)
  have b2: "b2 = (if ok2 then (refill now2 (rl_tokenBucket l))\<lparr>tb_tokens := tb_tokens (refill now2 (rl_tokenBucket l)) -
      min (of_int estimated) (tb_maxTokens (rl_tokenBucket l))\<rparr> else refill now2 (rl_tokenBucket l))" "ok2 \<longrightarrow> 0 \<le> tb_tokens b2"
    using t2 by (auto simp: TryConsume_def Let_def consumeAmount_def min_def split: if_splits)
  have r: "bucket_Return 1 b1 = refill now1 (rl_requestBucket l)" if ok1
    using return_one [OF assms(3,6,5)] t1 that by simp
  show ?thesis
  proof (cases ok1)
    case False
    then show ?thesis using assms(1,7) t1 b1 by (auto simp: TryAcquire_def Let_def count_request_def count_blocked_def)
  next
    case True
    then show ?thesis
      using assms(1,2,7) t1 t2 b1 b2 r
      by (cases ok2) (auto simp: TryAcquire_def Let_def count_request_def count_blocked_def)
  qed
qed

theorem acquire_all_or_nothing_witness:
  "let l = NewLimiter \<lparr>rc_Enabled = True, rc_RequestsPerMinute = 60, rc_TokensPerMinute = 600, rc_BurstSize = 2\<rparr> 0 0;
       l1 = fst (TryAcquire 50 0 0 l); l2 = fst (TryAcquire 50 0 0 l1)
   in tb_tokens (rl_requestBucket l1) = 1 \<and> tb_tokens (rl_tokenBucket l1) = 10 \<and>
      rl_requestBucket l2 = refill 0 (rl_requestBucket l1) \<and> rl_blockedRequests l2 = 1"
proof -
  define l where "l = NewLimiter \<lparr>rc_Enabled = True, rc_RequestsPerMinute = 60, rc_TokensPerMinute = 600, rc_BurstSize = 2\<rparr> 0 0"
  define l1 where "l1 = fst (TryAcquire 50 0 0 l)"
  note defs = NewLimiter_def NewTokenBucket_def TryAcquire_def TryConsume_def refill_def cap_tokens_def consumeAmount_def
    Let_def count_request_def count_blocked_def Seconds_def second_def time_sub_def min_int64_def max_int64_def maxRefillSeconds_def
  have l1: "l1 = \<lparr>rl_requestBucket = \<lparr>tb_tokens = 1, tb_maxTokens = 2, tb_refillRate = 1, tb_lastRefill = 0\<rparr>,
      rl_tokenBucket = \<lparr>tb_tokens = 10, tb_maxTokens = 60, tb_refillRate = 10, tb_lastRefill = 0\<rparr>, rl_enabled = True,
      rl_totalRequests = 1, rl_blockedRequests = 0, rl_totalTokens = 0\<rparr>"
    by (simp add: l1_def l_def defs)
  obtain l2 ok where l2: "TryAcquire 50 0 0 l1 = (l2, ok)" by fastforce
  have "ok = False" using l2 by (simp add: l1 defs)
  with acquire_all_or_nothing [of l1 50 0 0 l2 ok] l2 show ?thesis
    unfolding Let_def l_def [symmetric] l1_def [symmetric] by (simp add: l1 bucket_ok_def)
qed

text \<open>
  A call that is cancelled during the safety delay fails but keeps what it took: nothing is returned to the buckets,
  unlike when it is cancelled while it waits for the tokens.
\<close>

theorem cancelled_delay_keeps_charge:
  assumes "rl_enabled l" "0 < estimated" "consume_once 1 now1 (rl_requestBucket l) = (b1, Granted)"
    and "consume_once (of_int estimated) now2 (rl_tokenBucket l) = (b2, Granted)" "in_danger (refill now4 b2)"
  shows "\<exists>l'. AcquireWithContext estimated now1 ws1 now2 ws2 now3 now4 True l = Some (l', False) \<and>
    rl_requestBucket l' = refill now3 b1 \<and> rl_tokenBucket l' = refill now4 b2"
  using assms
  by (simp add: AcquireWithContext_def Let_def count_request_def ConsumeWithContext_def consume_loop.simps [of 1]
      consume_loop.simps [of "of_int estimated"] Available_def)

end
