(* ===== verification/ClientPool.thy ===== *)
theory ClientPool
  imports GoFormat GoStrings "HOL-Library.AList" "HOL-Library.Multiset"
begin

text \<open>
  \<open>internal/client/pool.go\<close>: the pool of provider clients. A client is the address of the object (\<open>None\<close> is nil), and
  \<open>cp_closeCalls\<close> lists the calls of \<open>Close\<close>. Every method holds the lock; \<open>GetOrCreate\<close> is two steps around the
  factory, so that other calls may come in between. A creation in flight is an address too, and \<open>cp_results\<close> has what
  its waiters receive once it is finished. A map is an association list; the order in which the range over \<open>lastUsed\<close>
  yields its entries when a client is evicted is the argument \<open>used\<close>.
\<close>

section \<open>Keys\<close>

definition key_colon :: char where "key_colon = CHR '':''"

definition poolKey :: "string \<Rightarrow> string \<Rightarrow> string" where
  "poolKey provider model = provider @ [key_colon] @ model"

definition poolFingerprintSeparator :: string where
  "poolFingerprintSeparator = CHR 0x00 # ''cfg:''"

definition scopedPoolKey :: "string \<Rightarrow> string \<Rightarrow> string \<Rightarrow> string" where
  "scopedPoolKey provider model fingerprint =
     (let key = poolKey provider model in if fingerprint \<noteq> [] then key @ poolFingerprintSeparator @ fingerprint else key)"

fun parsePoolKey :: "string \<Rightarrow> (string \<times> string) option" where
  "parsePoolKey [] = None"
| "parsePoolKey (c # cs) =
     (if c = key_colon then Some ([], cs) else map_option (\<lambda>(p, m). (c # p, m)) (parsePoolKey cs))"

section \<open>The pool\<close>

type_synonym client_ref = nat

type_synonym creation = nat

type_synonym pool_result = "string + client_ref"

record client_pool =
  cp_clients :: "(string \<times> client_ref) list"
  cp_maxSize :: int
  cp_lastUsed :: "(string \<times> time) list"
  cp_creating :: "(string \<times> creation) list"
  cp_closed :: bool
  cp_closeCalls :: "client_ref list"
  cp_results :: "creation \<rightharpoonup> pool_result"
  cp_next :: creation

definition DefaultMaxPoolSize :: int where "DefaultMaxPoolSize = 5"
definition DefaultIdleTimeout :: duration where "DefaultIdleTimeout = 5 * minute"
definition ErrClientPoolClosed :: string where "ErrClientPoolClosed = ''client pool is closed''"

definition NewClientPool :: "int \<Rightarrow> client_pool" where
  "NewClientPool maxSize =
     \<lparr>cp_clients = [], cp_maxSize = (if maxSize \<le> 0 then DefaultMaxPoolSize else maxSize), cp_lastUsed = [], cp_creating = [],
      cp_closed = False, cp_closeCalls = [], cp_results = Map.empty, cp_next = 0\<rparr>"

definition close_client :: "client_ref \<Rightarrow> client_pool \<Rightarrow> client_pool" where
  "close_client c p = p\<lparr>cp_closeCalls := cp_closeCalls p @ [c]\<rparr>"

text \<open>Closing and removing the clients under the keys that satisfy a condition.\<close>

definition drop_keys :: "(string \<Rightarrow> bool) \<Rightarrow> client_pool \<Rightarrow> client_pool" where
  "drop_keys P p =
     p\<lparr>cp_clients := filter (\<lambda>(k, c). \<not> P k) (cp_clients p), cp_lastUsed := filter (\<lambda>(k, t). \<not> P k) (cp_lastUsed p),
       cp_closeCalls := cp_closeCalls p @ map snd (filter (\<lambda>(k, c). P k) (cp_clients p))\<rparr>"

definition pool_touch :: "string \<Rightarrow> time \<Rightarrow> client_pool \<Rightarrow> client_pool" where
  "pool_touch key now p = p\<lparr>cp_lastUsed := AList.update key now (cp_lastUsed p)\<rparr>"

definition pool_store :: "string \<Rightarrow> client_ref \<Rightarrow> time \<Rightarrow> client_pool \<Rightarrow> client_pool" where
  "pool_store key c now p = pool_touch key now (p\<lparr>cp_clients := AList.update key c (cp_clients p)\<rparr>)"

definition pool_Get :: "string \<Rightarrow> string \<Rightarrow> string \<Rightarrow> time \<Rightarrow> client_pool \<Rightarrow> client_pool \<times> client_ref option" where
  "pool_Get provider model fingerprint now p =
     (if cp_closed p then (p, None)
      else let key = scopedPoolKey provider model fingerprint
           in case map_of (cp_clients p) key of None \<Rightarrow> (p, None) | Some c \<Rightarrow> (pool_touch key now p, Some c))"

text \<open>\<open>evictOldest\<close>: the key with the oldest use, the first one of several.\<close>

definition older :: "string \<times> time \<Rightarrow> string \<times> time \<Rightarrow> string \<times> time" where
  "older e f = (if fst e = [] \<or> snd f < snd e then f else e)"

definition pool_oldest :: "(string \<times> time) list \<Rightarrow> string \<times> time" where
  "pool_oldest used = foldl older ([], zero_time) used"

definition pool_evictOldest :: "(string \<times> time) list \<Rightarrow> client_pool \<Rightarrow> client_pool" where
  "pool_evictOldest used p =
     (let oldestKey = fst (pool_oldest used)
      in if oldestKey \<noteq> [] then drop_keys (\<lambda>k. k = oldestKey) p else p)"

definition pool_make_room :: "(string \<times> time) list \<Rightarrow> client_pool \<Rightarrow> client_pool" where
  "pool_make_room used p = (if cp_maxSize p \<le> int (length (cp_clients p)) then pool_evictOldest used p else p)"

text \<open>\<open>GetOrCreate\<close> up to the factory: an answer, a creation to wait for, or a creation to carry out.\<close>

datatype begun = Answer pool_result | WaitFor creation | CreateAs creation

definition GetOrCreate_begin :: "string \<Rightarrow> time \<Rightarrow> client_pool \<Rightarrow> client_pool \<times> begun" where
  "GetOrCreate_begin key now p =
     (if cp_closed p then (p, Answer (Inl ErrClientPoolClosed))
      else case map_of (cp_clients p) key of
             Some c \<Rightarrow> (pool_touch key now p, Answer (Inr c))
           | None \<Rightarrow>
               (case map_of (cp_creating p) key of
                  Some pending \<Rightarrow> (p, WaitFor pending)
                | None \<Rightarrow>
                    (p\<lparr>cp_creating := AList.update key (cp_next p) (cp_creating p), cp_next := cp_next p + 1\<rparr>, CreateAs (cp_next p))))"

text \<open>
  \<open>GetOrCreate\<close> after the factory has returned a client, perhaps nil, and an error. The branch with neither
  a client nor an error is not reached: a nil client is an error by then.
\<close>

definition settle_creation ::
    "(string \<times> time) list \<Rightarrow> string \<Rightarrow> client_ref option \<Rightarrow> string option \<Rightarrow> time \<Rightarrow> client_pool \<Rightarrow> client_pool \<times> pool_result" where
  "settle_creation used key created createErr now p =
     (case (createErr, created) of
        (Some e, None) \<Rightarrow> (p, Inl e)
      | (Some e, Some c) \<Rightarrow> (close_client c p, Inl e)
      | (None, None) \<Rightarrow> (p, Inl [])
      | (None, Some c) \<Rightarrow>
          if cp_closed p then (close_client c p, Inl ErrClientPoolClosed)
          else case map_of (cp_clients p) key of
                 Some existing \<Rightarrow> (close_client c (pool_touch key now p), Inr existing)
               | None \<Rightarrow> (pool_store key c now (pool_make_room used p), Inr c))"

definition GetOrCreate_end ::
    "(string \<times> time) list \<Rightarrow> string \<Rightarrow> creation \<Rightarrow> client_ref option \<Rightarrow> string option \<Rightarrow> time \<Rightarrow> client_pool \<Rightarrow> client_pool \<times> pool_result" where
  "GetOrCreate_end used key pending created err now p0 =
     (let createErr = (if err = None \<and> created = None then Some ''client factory returned nil client'' else err);
          (p, result) = settle_creation used key created createErr now (p0\<lparr>cp_creating := AList.delete key (cp_creating p0)\<rparr>)
      in (p\<lparr>cp_results := (cp_results p)(pending \<mapsto> result)\<rparr>, result))"

definition Invalidate :: "string \<Rightarrow> string \<Rightarrow> client_pool \<Rightarrow> client_pool" where
  "Invalidate provider model p =
     (if cp_closed p then p
      else let baseKey = poolKey provider model
           in drop_keys (\<lambda>key. key = baseKey \<or> has_prefix key (baseKey @ poolFingerprintSeparator)) p)"

definition key_provider_is :: "string \<Rightarrow> string \<Rightarrow> bool" where
  "key_provider_is provider key \<longleftrightarrow> (case parsePoolKey key of Some (q, _) \<Rightarrow> q = provider | None \<Rightarrow> False)"

definition FlushProvider :: "string \<Rightarrow> client_pool \<Rightarrow> client_pool" where
  "FlushProvider provider p = (if cp_closed p then p else drop_keys (key_provider_is provider) p)"

definition pool_Put ::
    "(string \<times> time) list \<Rightarrow> string \<Rightarrow> string \<Rightarrow> client_ref option \<Rightarrow> string \<Rightarrow> time \<Rightarrow> client_pool \<Rightarrow> client_pool" where
  "pool_Put used provider model client fingerprint now p =
     (case client of
        None \<Rightarrow> p
      | Some c \<Rightarrow>
          if cp_closed p then close_client c p
          else let key = scopedPoolKey provider model fingerprint
               in case map_of (cp_clients p) key of
                    Some existing \<Rightarrow>
                      if existing = c then pool_touch key now p else close_client existing (pool_store key c now p)
                  | None \<Rightarrow> pool_store key c now (pool_make_room used p))"

definition pool_Cleanup :: "time \<Rightarrow> client_pool \<Rightarrow> client_pool" where
  "pool_Cleanup now p =
     (if cp_closed p then p
      else drop_keys (\<lambda>key. case map_of (cp_lastUsed p) key of
                              None \<Rightarrow> False
                            | Some t \<Rightarrow> DefaultIdleTimeout < time_sub now t) p)"

definition pool_Size :: "client_pool \<Rightarrow> nat" where
  "pool_Size p = length (cp_clients p)"

definition pool_Close :: "client_pool \<Rightarrow> client_pool" where
  "pool_Close p = (if cp_closed p then p else drop_keys (\<lambda>_. True) (p\<lparr>cp_closed := True\<rparr>))"

section \<open>Keys tell providers, models and configurations apart\<close>

lemma parsePoolKey_poolKey: "key_colon \<notin> set provider \<Longrightarrow> parsePoolKey (provider @ key_colon # rest) = Some (provider, rest)"
  by (induction provider) auto

lemma scopedPoolKey_simps:
  "scopedPoolKey provider model fingerprint =
     provider @ key_colon # model @ (if fingerprint = [] then [] else CHR 0x00 # ''cfg:'' @ fingerprint)"
  by (simp add: scopedPoolKey_def poolKey_def poolFingerprintSeparator_def)

lemma scopedPoolKey_nonempty [simp]: "scopedPoolKey provider model fingerprint \<noteq> []"
  by (simp add: scopedPoolKey_simps)

lemma split_at_first: "x \<notin> set a \<Longrightarrow> x \<notin> set b \<Longrightarrow> a @ x # c = b @ x # d \<longleftrightarrow> a = b \<and> c = d"
  by (auto simp: append_eq_append_conv2 Cons_eq_append_conv append_eq_Cons_conv)

lemma split_before: "x \<notin> set a \<Longrightarrow> x \<notin> set b \<Longrightarrow> a \<noteq> b @ x # d"
  by auto

definition plain_name :: "string \<Rightarrow> string \<Rightarrow> bool" where
  "plain_name provider model \<longleftrightarrow> key_colon \<notin> set provider \<and> CHR 0x00 \<notin> set model"

lemma scopedPoolKey_inj:
  assumes "plain_name p m" "plain_name p' m'"
  shows "scopedPoolKey p m f = scopedPoolKey p' m' f' \<longleftrightarrow> p = p' \<and> m = m' \<and> f = f'"
proof -
  have "m @ (if f = [] then [] else CHR 0x00 # ''cfg:'' @ f) = m' @ (if f' = [] then [] else CHR 0x00 # ''cfg:'' @ f') \<longleftrightarrow> m = m' \<and> f = f'"
    using assms split_at_first [of "CHR 0x00" m m'] split_before [of "CHR 0x00" m m'] split_before [of "CHR 0x00" m' m]
    by (auto simp: plain_name_def)
  then show ?thesis
    using assms split_at_first [of key_colon p p'] unfolding scopedPoolKey_simps plain_name_def by blast
qed

lemma key_provider_is_scoped: "key_colon \<notin> set p \<Longrightarrow> key_provider_is q (scopedPoolKey p m f) \<longleftrightarrow> p = q"
  by (simp add: key_provider_is_def scopedPoolKey_simps parsePoolKey_poolKey)

section \<open>The oldest entry\<close>

lemma pool_oldest_acc:
  "\<forall>e \<in> set (a # used). fst e \<noteq> [] \<Longrightarrow> foldl older a used \<in> set (a # used) \<and> (\<forall>e \<in> set (a # used). snd (foldl older a used) \<le> snd e)"
proof (induction used arbitrary: a)
  case (Cons b used)
  have "older a b = a \<or> older a b = b" "snd (older a b) \<le> snd a" "snd (older a b) \<le> snd b"
    using Cons.prems by (auto simp: older_def)
  moreover from this have "\<forall>e \<in> set (older a b # used). fst e \<noteq> []"
    using Cons.prems by auto
  ultimately show ?case
    using Cons.IH [of "older a b"] by fastforce
qed simp

lemma pool_oldest_in:
  assumes "used \<noteq> []" "\<forall>e \<in> set used. fst e \<noteq> []"
  shows "pool_oldest used \<in> set used \<and> (\<forall>e \<in> set used. snd (pool_oldest used) \<le> snd e)"
proof -
  obtain a rest where "used = a # rest"
    using assms(1) by (cases used) auto
  moreover have "older ([], zero_time) a = a"
    by (simp add: older_def)
  ultimately show ?thesis
    using pool_oldest_acc [of a rest] assms(2) by (simp add: pool_oldest_def)
qed

section \<open>The invariant\<close>

definition pool_ok :: "client_pool \<Rightarrow> bool" where
  "pool_ok p \<longleftrightarrow> distinct (map fst (cp_clients p)) \<and> distinct (map fst (cp_lastUsed p)) \<and>
     fst ` set (cp_lastUsed p) = fst ` set (cp_clients p) \<and> [] \<notin> fst ` set (cp_clients p) \<and>
     int (length (cp_clients p)) \<le> cp_maxSize p \<and> 1 \<le> cp_maxSize p \<and> (cp_closed p \<longrightarrow> cp_clients p = [])"

definition pool_owned :: "client_pool \<Rightarrow> client_ref multiset" where
  "pool_owned p = mset (cp_closeCalls p) + mset (map snd (cp_clients p))"

lemma NewClientPool_ok: "pool_ok (NewClientPool n)" "pool_owned (NewClientPool n) = {#}"
  by (simp_all add: pool_ok_def pool_owned_def NewClientPool_def DefaultMaxPoolSize_def)

lemma mset_filter_split: "mset (map f (filter P xs)) + mset (map f (filter (\<lambda>x. \<not> P x) xs)) = mset (map f xs)"
  by (induction xs) auto

lemma drop_keys_owned [simp]: "pool_owned (drop_keys P p) = pool_owned p"
  using mset_filter_split [of snd "\<lambda>(k, c). P k" "cp_clients p"]
  by (simp add: pool_owned_def drop_keys_def case_prod_unfold)

lemma keys_filter: "fst ` set (filter (\<lambda>(k, c). Q k) xs) = {k \<in> fst ` set xs. Q k}"
  by force

lemma distinct_filter_keys: "distinct (map fst xs) \<Longrightarrow> distinct (map fst (filter Q xs))"
  by (induction xs) auto

lemma drop_keys_ok: "pool_ok p \<Longrightarrow> pool_ok (drop_keys P p)"
  by (auto simp: pool_ok_def drop_keys_def keys_filter distinct_filter_keys simp del: set_filter
      intro!: order_trans [OF of_nat_mono [OF length_filter_le]])

lemma drop_keys_simps [simp]:
  "cp_closed (drop_keys P p) = cp_closed p" "cp_maxSize (drop_keys P p) = cp_maxSize p"
  "cp_creating (drop_keys P p) = cp_creating p" "cp_results (drop_keys P p) = cp_results p" "cp_next (drop_keys P p) = cp_next p"
  by (simp_all add: drop_keys_def)

lemma map_of_drop_keys: "map_of (cp_clients (drop_keys P p)) k = (if P k then None else map_of (cp_clients p) k)"
proof -
  have "map_of (filter (\<lambda>(k, c). \<not> P k) xs) k = (if P k then None else map_of xs k)" for xs :: "(string \<times> client_ref) list"
    by (induction xs) auto
  then show ?thesis
    by (simp add: drop_keys_def)
qed

lemma touch_owned [simp]: "pool_owned (pool_touch key now p) = pool_owned p"
  by (simp add: pool_owned_def pool_touch_def)

lemma touch_ok: "pool_ok p \<Longrightarrow> key \<in> fst ` set (cp_clients p) \<Longrightarrow> pool_ok (pool_touch key now p)"
  by (auto simp: pool_ok_def pool_touch_def dom_update distinct_update)

lemma mset_update_new: "map_of xs k = None \<Longrightarrow> mset (map snd (AList.update k v xs)) = add_mset v (mset (map snd xs))"
  by (induction xs) (auto split: if_splits)

lemma mset_update_old:
  "map_of xs k = Some e \<Longrightarrow> add_mset e (mset (map snd (AList.update k v xs))) = add_mset v (mset (map snd xs))"
  by (induction xs) (auto split: if_splits simp: add_mset_commute)

lemma length_update: "length (AList.update k v xs) = (if k \<in> fst ` set xs then length xs else Suc (length xs))"
  by (induction xs) auto

lemma store_ok:
  assumes "pool_ok p" "\<not> cp_closed p" "key \<noteq> []" "key \<notin> fst ` set (cp_clients p) \<Longrightarrow> int (length (cp_clients p)) < cp_maxSize p"
  shows "pool_ok (pool_store key c now p)"
  using assms by (auto simp: pool_ok_def pool_store_def pool_touch_def dom_update distinct_update length_update)

lemma store_new_owned: "map_of (cp_clients p) key = None \<Longrightarrow> pool_owned (pool_store key c now p) = add_mset c (pool_owned p)"
  using mset_update_new [of "cp_clients p" key c] by (simp add: pool_owned_def pool_store_def pool_touch_def)

lemma store_old_owned:
  "map_of (cp_clients p) key = Some e \<Longrightarrow> add_mset e (pool_owned (pool_store key c now p)) = add_mset c (pool_owned p)"
  using mset_update_old [of "cp_clients p" key e c]
  by (simp add: pool_owned_def pool_store_def pool_touch_def)

lemma close_client_owned [simp]: "pool_owned (close_client c p) = add_mset c (pool_owned p)"
  by (simp add: pool_owned_def close_client_def)

lemma close_client_ok [simp]: "pool_ok (close_client c p) = pool_ok p"
  by (simp add: pool_ok_def close_client_def)

lemma make_room_evicts:
  assumes "pool_ok p" "mset used = mset (cp_lastUsed p)" "cp_maxSize p \<le> int (length (cp_clients p))"
  obtains key t where "(key, t) \<in> set (cp_lastUsed p)" "key \<in> fst ` set (cp_clients p)" "\<forall>e \<in> set (cp_lastUsed p). t \<le> snd e"
    "pool_make_room used p = drop_keys (\<lambda>k. k = key) p"
proof -
  have keys: "set used = set (cp_lastUsed p)" "used \<noteq> []"
    using assms by (auto dest: mset_eq_setD simp: pool_ok_def)
  then have "pool_oldest used \<in> set used \<and> (\<forall>e \<in> set used. snd (pool_oldest used) \<le> snd e)"
    using assms(1) by (intro pool_oldest_in) (force simp: pool_ok_def)+
  moreover from this have "fst (pool_oldest used) \<in> fst ` set (cp_clients p)" "fst (pool_oldest used) \<noteq> []"
    using assms(1) keys by (force simp: pool_ok_def)+
  ultimately show thesis
    using that [of "fst (pool_oldest used)" "snd (pool_oldest used)"] assms(3) keys
    by (simp add: pool_make_room_def pool_evictOldest_def Let_def)
qed

lemma drop_key_shorter:
  "key \<in> fst ` set (cp_clients p) \<Longrightarrow> length (cp_clients (drop_keys (\<lambda>k. k = key) p)) < length (cp_clients p)"
  by (auto simp: drop_keys_def intro!: length_filter_less)

lemma make_room_ok:
  assumes "pool_ok p" "mset used = mset (cp_lastUsed p)"
  shows "pool_ok (pool_make_room used p) \<and> pool_owned (pool_make_room used p) = pool_owned p \<and>
    int (length (cp_clients (pool_make_room used p))) < cp_maxSize p \<and>
    (map_of (cp_clients p) key = None \<longrightarrow> map_of (cp_clients (pool_make_room used p)) key = None)"
proof (cases "cp_maxSize p \<le> int (length (cp_clients p))")
  case True
  then obtain k where k: "k \<in> fst ` set (cp_clients p)" "pool_make_room used p = drop_keys (\<lambda>k'. k' = k) p"
    using make_room_evicts [OF assms] by metis
  moreover have "int (length (cp_clients p)) \<le> cp_maxSize p"
    using assms(1) by (simp add: pool_ok_def)
  ultimately show ?thesis
    using assms(1) drop_key_shorter [OF k(1)] by (simp add: drop_keys_ok map_of_drop_keys)
next
  case False
  then show ?thesis
    using assms(1) by (simp add: pool_make_room_def)
qed

lemma make_room_simps [simp]:
  "cp_closed (pool_make_room used p) = cp_closed p" "cp_maxSize (pool_make_room used p) = cp_maxSize p"
  "cp_creating (pool_make_room used p) = cp_creating p" "cp_results (pool_make_room used p) = cp_results p"
  "cp_next (pool_make_room used p) = cp_next p"
  by (simp_all add: pool_make_room_def pool_evictOldest_def Let_def)

section \<open>Runs of the pool\<close>

datatype pool_event =
    PoolGet string string string time
  | PoolBegin string string string time
  | PoolEnd "(string \<times> time) list" string creation "client_ref option" "string option" time
  | PoolInvalidate string string
  | PoolFlush string
  | PoolPut "(string \<times> time) list" string string "client_ref option" string time
  | PoolCleanup time
  | PoolClose

fun pool_exec :: "pool_event \<Rightarrow> client_pool \<Rightarrow> client_pool" where
  "pool_exec (PoolGet provider model fingerprint now) p = fst (pool_Get provider model fingerprint now p)"
| "pool_exec (PoolBegin provider model fingerprint now) p = fst (GetOrCreate_begin (scopedPoolKey provider model fingerprint) now p)"
| "pool_exec (PoolEnd used key pending created err now) p = fst (GetOrCreate_end used key pending created err now p)"
| "pool_exec (PoolInvalidate provider model) p = Invalidate provider model p"
| "pool_exec (PoolFlush provider) p = FlushProvider provider p"
| "pool_exec (PoolPut used provider model client fingerprint now) p = pool_Put used provider model client fingerprint now p"
| "pool_exec (PoolCleanup now) p = pool_Cleanup now p"
| "pool_exec PoolClose p = pool_Close p"

text \<open>A creation ends once, under its key; a range yields the entries of the map in some order.\<close>

fun pool_allowed :: "pool_event \<Rightarrow> client_pool \<Rightarrow> bool" where
  "pool_allowed (PoolEnd used key pending created err now) p \<longleftrightarrow>
     map_of (cp_creating p) key = Some pending \<and> mset used = mset (cp_lastUsed p)"
| "pool_allowed (PoolPut used provider model client fingerprint now) p \<longleftrightarrow> mset used = mset (cp_lastUsed p)"
| "pool_allowed _ p \<longleftrightarrow> True"

text \<open>The client an event hands over to the pool, unless it is pooled under that key already.\<close>

fun pool_taken :: "pool_event \<Rightarrow> client_pool \<Rightarrow> client_ref multiset" where
  "pool_taken (PoolEnd used key pending created err now) p = (case created of None \<Rightarrow> {#} | Some c \<Rightarrow> {#c#})"
| "pool_taken (PoolPut used provider model client fingerprint now) p =
     (case client of
        None \<Rightarrow> {#}
      | Some c \<Rightarrow>
          if \<not> cp_closed p \<and> map_of (cp_clients p) (scopedPoolKey provider model fingerprint) = Some c then {#} else {#c#})"
| "pool_taken _ p = {#}"

fun pool_runs :: "client_pool \<Rightarrow> pool_event list \<Rightarrow> bool" where
  "pool_runs p [] \<longleftrightarrow> True"
| "pool_runs p (ev # evs) \<longleftrightarrow> pool_allowed ev p \<and> pool_runs (pool_exec ev p) evs"

fun handed_over :: "client_pool \<Rightarrow> pool_event list \<Rightarrow> client_ref multiset" where
  "handed_over p [] = {#}"
| "handed_over p (ev # evs) = pool_taken ev p + handed_over (pool_exec ev p) evs"

text \<open>Every creation is in flight under one key, or its waiters have an answer.\<close>

definition flights_ok :: "client_pool \<Rightarrow> bool" where
  "flights_ok p \<longleftrightarrow> distinct (map fst (cp_creating p)) \<and> distinct (map snd (cp_creating p)) \<and> [] \<notin> fst ` set (cp_creating p) \<and>
     snd ` set (cp_creating p) \<inter> dom (cp_results p) = {} \<and> snd ` set (cp_creating p) \<union> dom (cp_results p) = {..<cp_next p}"

definition pool_inv :: "client_pool \<Rightarrow> bool" where
  "pool_inv p \<longleftrightarrow> pool_ok p \<and> flights_ok p"

text \<open>The contract of an operation: the invariant is kept, and the pool answers for the clients it took over.\<close>

locale pool_operation =
  fixes op :: "client_pool \<Rightarrow> client_pool" and guard :: "client_pool \<Rightarrow> bool" and taken :: "client_pool \<Rightarrow> client_ref multiset"
  assumes keeps: "pool_inv p \<Longrightarrow> guard p \<Longrightarrow> pool_inv (op p) \<and> cp_maxSize (op p) = cp_maxSize p"
    and accounts: "pool_inv p \<Longrightarrow> guard p \<Longrightarrow> pool_owned (op p) = pool_owned p + taken p"
begin

lemma pooled_or_closed:
  assumes "pool_inv p" "guard p" "c \<in># taken p + pool_owned p"
  shows "c \<in> set (cp_closeCalls (op p)) \<or> c \<in> snd ` set (cp_clients (op p))"
proof -
  have "c \<in># pool_owned (op p)"
    using accounts [OF assms(1,2)] assms(3) by (auto simp: union_iff)
  then show ?thesis
    by (auto simp: pool_owned_def)
qed

end

lemma touch_simps [simp]:
  "cp_clients (pool_touch k now p) = cp_clients p" "cp_closed (pool_touch k now p) = cp_closed p" "cp_maxSize (pool_touch k now p) = cp_maxSize p"
  "cp_creating (pool_touch k now p) = cp_creating p" "cp_results (pool_touch k now p) = cp_results p" "cp_next (pool_touch k now p) = cp_next p"
  by (simp_all add: pool_touch_def)

lemma store_simps [simp]:
  "cp_clients (pool_store k c now p) = AList.update k c (cp_clients p)" "cp_closed (pool_store k c now p) = cp_closed p"
  "cp_maxSize (pool_store k c now p) = cp_maxSize p" "cp_creating (pool_store k c now p) = cp_creating p"
  "cp_results (pool_store k c now p) = cp_results p" "cp_next (pool_store k c now p) = cp_next p"
  by (simp_all add: pool_store_def)

lemma close_client_simps [simp]:
  "cp_clients (close_client c p) = cp_clients p" "cp_closed (close_client c p) = cp_closed p" "cp_maxSize (close_client c p) = cp_maxSize p"
  "cp_creating (close_client c p) = cp_creating p" "cp_results (close_client c p) = cp_results p" "cp_next (close_client c p) = cp_next p"
  by (simp_all add: close_client_def)

lemma flights_ok_cong:
  "cp_creating q = cp_creating p \<Longrightarrow> cp_results q = cp_results p \<Longrightarrow> cp_next q = cp_next p \<Longrightarrow> flights_ok q = flights_ok p"
  by (simp add: flights_ok_def)

lemma pooled_key: "map_of (cp_clients p) key = Some c \<Longrightarrow> key \<in> fst ` set (cp_clients p)"
  by (force dest: map_of_SomeD)

definition pool_step_ok :: "client_pool \<Rightarrow> client_pool \<Rightarrow> client_ref multiset \<Rightarrow> bool" where
  "pool_step_ok p q taken \<longleftrightarrow> pool_ok q \<and> cp_maxSize q = cp_maxSize p \<and> pool_owned q = pool_owned p + taken"

lemma drop_keys_step: "pool_ok p \<Longrightarrow> pool_step_ok p (drop_keys P p) {#}"
  by (simp add: pool_step_ok_def drop_keys_ok)

lemma unchanged_step: "pool_ok p \<Longrightarrow> pool_step_ok p p {#}"
  by (simp add: pool_step_ok_def)

lemma touch_step: "pool_ok p \<Longrightarrow> map_of (cp_clients p) key = Some c \<Longrightarrow> pool_step_ok p (pool_touch key now p) {#}"
  by (simp add: pool_step_ok_def touch_ok pooled_key)

lemma close_step: "pool_step_ok p q {#} \<Longrightarrow> pool_step_ok p (close_client c q) {#c#}"
  by (simp add: pool_step_ok_def)

lemma store_step:
  assumes "pool_ok p" "\<not> cp_closed p" "key \<noteq> []" "map_of (cp_clients p) key = None" "mset used = mset (cp_lastUsed p)"
  shows "pool_step_ok p (pool_store key c now (pool_make_room used p)) {#c#}"
  using make_room_ok [OF assms(1,5), of key] assms(2-4) by (simp add: pool_step_ok_def store_ok store_new_owned)

lemma replace_step:
  assumes "pool_ok p" "\<not> cp_closed p" "key \<noteq> []" "map_of (cp_clients p) key = Some e"
  shows "pool_step_ok p (close_client e (pool_store key c now p)) {#c#}"
  using assms store_ok [of p key c now] store_old_owned [of p key e c now] pooled_key [of p key e] by (simp add: pool_step_ok_def)

lemma pool_Close_step: "pool_ok p \<Longrightarrow> pool_step_ok p (pool_Close p) {#}"
  by (auto simp: pool_step_ok_def pool_Close_def pool_ok_def drop_keys_def pool_owned_def)

lemma pool_Put_step [simplified]:
  "pool_ok p \<Longrightarrow> mset used = mset (cp_lastUsed p) \<Longrightarrow>
   pool_step_ok p (pool_Put used provider model client fingerprint now p) (pool_taken (PoolPut used provider model client fingerprint now) p)"
  by (auto simp: pool_Put_def Let_def split: option.splits
      intro: unchanged_step touch_step replace_step store_step close_step)

lemma with_results_step [simp]: "pool_step_ok p (q\<lparr>cp_results := r\<rparr>) t = pool_step_ok p q t"
  by (simp add: pool_step_ok_def pool_ok_def pool_owned_def)

lemma with_creating_step [simp]: "pool_step_ok (p\<lparr>cp_creating := c\<rparr>) q t = pool_step_ok p q t" "pool_ok (p\<lparr>cp_creating := c\<rparr>) = pool_ok p"
  by (simp_all add: pool_step_ok_def pool_ok_def pool_owned_def)

lemma settle_creation_step:
  assumes "pool_ok p" "key \<noteq> []" "mset used = mset (cp_lastUsed p)"
  shows "pool_step_ok p (fst (settle_creation used key created createErr now p)) (case created of None \<Rightarrow> {#} | Some c \<Rightarrow> {#c#})"
  using assms
  by (auto simp: settle_creation_def split: option.splits intro: unchanged_step touch_step store_step close_step)

lemma settle_creation_flights [simp]:
  "cp_creating (fst (settle_creation used key created e now p)) = cp_creating p"
  "cp_results (fst (settle_creation used key created e now p)) = cp_results p"
  "cp_next (fst (settle_creation used key created e now p)) = cp_next p"
  by (simp_all add: settle_creation_def split: option.splits)

lemma distinct_snd_delete: "distinct (map snd xs) \<Longrightarrow> distinct (map snd (AList.delete k xs))"
  by (induction xs) (auto simp: AList.delete_eq)

lemma snd_delete:
  assumes "distinct (map fst xs)" "distinct (map snd xs)" "map_of xs k = Some v"
  shows "snd ` set (AList.delete k xs) = snd ` set xs - {v}"
proof -
  have "(k, v) \<in> set xs" "inj_on snd (set xs)" "inj_on fst (set xs)"
    using assms map_of_SomeD [OF assms(3)] by (simp_all add: distinct_map)
  then have "fst e = k \<longleftrightarrow> snd e = v" if "e \<in> set xs" for e
    using that inj_onD [of snd "set xs" e "(k, v)"] inj_onD [of fst "set xs" e "(k, v)"] by (metis fst_conv snd_conv)
  moreover have "set (AList.delete k xs) = {e \<in> set xs. fst e \<noteq> k}"
    by (simp add: AList.delete_eq case_prod_unfold eq_commute)
  ultimately have "set (AList.delete k xs) = {e \<in> set xs. snd e \<noteq> v}"
    by blast
  then show ?thesis
    by auto
qed

lemma flights_end:
  assumes "flights_ok p" "map_of (cp_creating p) key = Some pending"
  shows "flights_ok (p\<lparr>cp_creating := AList.delete key (cp_creating p), cp_results := (cp_results p)(pending \<mapsto> r)\<rparr>)"
proof -
  have fl: "distinct (map fst (cp_creating p))" "distinct (map snd (cp_creating p))" "[] \<notin> fst ` set (cp_creating p)"
    "snd ` set (cp_creating p) \<inter> dom (cp_results p) = {}" "snd ` set (cp_creating p) \<union> dom (cp_results p) = {..<cp_next p}"
    using assms(1) by (simp_all add: flights_ok_def)
  have "pending \<in> snd ` set (cp_creating p)"
    using assms(2) by (force dest: map_of_SomeD)
  then have "(snd ` set (cp_creating p) - {pending}) \<inter> insert pending (dom (cp_results p)) = {}"
    "(snd ` set (cp_creating p) - {pending}) \<union> insert pending (dom (cp_results p)) = {..<cp_next p}"
    unfolding fl(5) [symmetric] using fl(4) by blast+
  moreover have "[] \<notin> fst ` set (AList.delete key (cp_creating p))"
    using fl(3) dom_delete_subset [of key "cp_creating p"] by blast
  moreover note snd_delete [OF fl(1,2) assms(2)] distinct_snd_delete [OF fl(2), of key] distinct_delete [OF fl(1), of key]
  ultimately show ?thesis
    by (simp add: flights_ok_def)
qed

lemma flights_begin:
  assumes "flights_ok p" "map_of (cp_creating p) key = None" "key \<noteq> []"
  shows "flights_ok (p\<lparr>cp_creating := AList.update key (cp_next p) (cp_creating p), cp_next := cp_next p + 1\<rparr>)"
proof -
  have "map_of xs key = None \<Longrightarrow> AList.update key v xs = xs @ [(key, v)]" for xs and v :: creation
    by (induction xs) (auto split: if_splits)
  then show ?thesis
    using assms by (auto simp: flights_ok_def map_of_eq_None_iff lessThan_Suc)
qed

lemma pool_exec_step:
  assumes "pool_inv p" "pool_allowed ev p"
  shows "pool_step_ok p (pool_exec ev p) (pool_taken ev p)"
proof (cases ev)
  case (PoolGet provider model fingerprint now)
  then show ?thesis
    using assms by (auto simp: pool_inv_def pool_Get_def Let_def intro: unchanged_step touch_step split: option.splits)
next
  case (PoolBegin provider model fingerprint now)
  have "pool_step_ok p (p\<lparr>cp_creating := c, cp_next := n\<rparr>) {#}" if "pool_ok p" for c n
    using that by (simp add: pool_step_ok_def pool_ok_def pool_owned_def)
  then show ?thesis
    using PoolBegin assms by (auto simp: pool_inv_def GetOrCreate_begin_def intro: unchanged_step touch_step split: option.splits)
next
  case (PoolEnd used key pending created err now)
  then have "key \<noteq> []"
    using assms by (force simp: pool_inv_def flights_ok_def dest: map_of_SomeD)
  then show ?thesis
    using PoolEnd assms settle_creation_step [of "p\<lparr>cp_creating := AList.delete key (cp_creating p)\<rparr>" key used created _ now]
    by (auto simp: pool_inv_def GetOrCreate_end_def Let_def case_prod_unfold)
qed (use assms in \<open>auto simp: pool_inv_def Invalidate_def FlushProvider_def pool_Cleanup_def Let_def
       intro: unchanged_step drop_keys_step pool_Close_step pool_Put_step\<close>)

lemma pool_exec_flights:
  assumes "flights_ok p" "pool_allowed ev p"
  shows "flights_ok (pool_exec ev p)"
proof (cases ev)
  case (PoolBegin provider model fingerprint now)
  then show ?thesis
    using assms flights_begin [OF assms(1)] flights_ok_cong [of "pool_touch _ now p" p]
    by (auto simp: GetOrCreate_begin_def split: option.splits)
next
  case (PoolEnd used key pending created err now)
  then show ?thesis
    using assms flights_end [OF assms(1), of key pending]
    by (auto simp: GetOrCreate_end_def Let_def case_prod_unfold flights_ok_def)
qed (use assms in \<open>auto simp: pool_Get_def pool_Put_def pool_Close_def Invalidate_def FlushProvider_def pool_Cleanup_def Let_def
       flights_ok_def split: option.splits\<close>)

interpretation pool_step: pool_operation "pool_exec ev" "pool_allowed ev" "pool_taken ev" for ev
  by unfold_locales (use pool_exec_step pool_exec_flights in \<open>auto simp: pool_step_ok_def pool_inv_def\<close>)

lemma pool_runs_inv:
  "pool_inv p \<Longrightarrow> pool_runs p evs \<Longrightarrow>
   pool_inv (fold pool_exec evs p) \<and> cp_maxSize (fold pool_exec evs p) = cp_maxSize p \<and>
   pool_owned (fold pool_exec evs p) = pool_owned p + handed_over p evs"
  by (induction evs arbitrary: p) (auto simp: pool_step.keeps pool_step.accounts)

lemma NewClientPool_inv: "pool_inv (NewClientPool n)"
  by (simp add: pool_inv_def NewClientPool_ok) (simp add: flights_ok_def NewClientPool_def)

section \<open>Properties\<close>

text \<open>C26: However calls on a pool interleave, creations in flight included, the pool owns exactly the clients it took over:
  each is pooled or its \<open>Close\<close> was called, never both and never twice, and after \<open>Close\<close> none is pooled; the pool
  never exceeds its size, and every creation is in flight or has an answer for its waiters.\<close>

theorem pool_owns_clients:
  assumes "pool_runs (NewClientPool n) evs" "p = fold pool_exec evs (NewClientPool n)"
  shows "mset (cp_closeCalls p) + mset (map snd (cp_clients p)) = handed_over (NewClientPool n) evs \<and>
    (cp_closed p \<longrightarrow> mset (cp_closeCalls p) = handed_over (NewClientPool n) evs) \<and>
    int (pool_Size p) \<le> (if n \<le> 0 then 5 else n) \<and> distinct (map fst (cp_clients p)) \<and>
    (\<forall>i < cp_next p. i \<in> snd ` set (cp_creating p) \<or> cp_results p i \<noteq> None)"
proof -
  have run: "pool_inv p" "cp_maxSize p = cp_maxSize (NewClientPool n)" "pool_owned p = handed_over (NewClientPool n) evs"
    using pool_runs_inv [OF NewClientPool_inv assms(1)] by (simp_all add: assms(2) NewClientPool_ok)
  have "mset (cp_closeCalls p) + mset (map snd (cp_clients p)) = handed_over (NewClientPool n) evs"
    using run(3) by (simp add: pool_owned_def)
  moreover from this have "cp_closed p \<longrightarrow> mset (cp_closeCalls p) = handed_over (NewClientPool n) evs"
    using run(1) by (auto simp: pool_inv_def pool_ok_def)
  moreover have "int (pool_Size p) \<le> (if n \<le> 0 then 5 else n)" "distinct (map fst (cp_clients p))"
    using run(1,2) by (auto simp: pool_inv_def pool_ok_def pool_Size_def NewClientPool_def DefaultMaxPoolSize_def)
  moreover have "\<forall>i < cp_next p. i \<in> snd ` set (cp_creating p) \<or> cp_results p i \<noteq> None"
    using run(1) unfolding pool_inv_def flights_ok_def by blast
  ultimately show ?thesis
    by blast
qed

definition pool_demo :: "pool_event list" where
  "pool_demo =
     [PoolPut [] ''a'' ''m'' (Some 1) [] 10, PoolBegin ''b'' ''m'' ''f'' 20, PoolBegin ''b'' ''m'' ''f'' 21,
      PoolEnd [(''a:m'', 10)] (scopedPoolKey ''b'' ''m'' ''f'') 0 (Some 2) None 30, PoolBegin ''c'' ''m'' [] 35, PoolClose,
      PoolEnd [] ''c:m'' 1 (Some 3) None 40]"

lemmas pool_run_defs = pool_Get_def GetOrCreate_begin_def GetOrCreate_end_def settle_creation_def FlushProvider_def pool_Put_def pool_Close_def
  Let_def pool_make_room_def pool_evictOldest_def pool_oldest_def older_def drop_keys_def close_client_def pool_store_def pool_touch_def
  scopedPoolKey_def poolKey_def poolFingerprintSeparator_def key_colon_def key_provider_is_def NewClientPool_def DefaultMaxPoolSize_def
  AList.delete_eq

theorem pool_owns_clients_witness:
  "let p = fold pool_exec pool_demo (NewClientPool 1)
   in mset (cp_closeCalls p) = {#1, 2, 3#} \<and> pool_Size p \<le> 1 \<and> cp_results p 0 = Some (Inr 2) \<and> cp_results p 1 = Some (Inl ErrClientPoolClosed)"
proof -
  define p where "p = fold pool_exec pool_demo (NewClientPool 1)"
  have run: "pool_runs (NewClientPool 1) pool_demo" "handed_over (NewClientPool 1) pool_demo = {#1, 2, 3#}"
    by (simp_all add: pool_demo_def pool_run_defs)
  have "cp_closed p" "cp_results p 0 = Some (Inr 2)" "cp_results p 1 = Some (Inl ErrClientPoolClosed)"
    by (simp_all add: p_def pool_demo_def pool_run_defs)
  then show ?thesis
    using pool_owns_clients [OF run(1) p_def] run(2) unfolding Let_def p_def [symmetric] by simp
qed

lemma pool_Put_clients:
  assumes "pool_ok p" "\<not> cp_closed p" "mset used = mset (cp_lastUsed p)" "key = scopedPoolKey provider model fingerprint"
    and "q = pool_Put used provider model (Some c) fingerprint now p"
  obtains (room) "\<not> cp_closed q" "map_of (cp_clients q) = (map_of (cp_clients p))(key \<mapsto> c)"
    | (full) key' t where "\<not> cp_closed q" "map_of (cp_clients q) = ((map_of (cp_clients p))(key' := None))(key \<mapsto> c)"
        "map_of (cp_clients p) key = None" "int (length (cp_clients p)) = cp_maxSize p"
        "(key', t) \<in> set (cp_lastUsed p)" "\<forall>e \<in> set (cp_lastUsed p). t \<le> snd e"
proof (cases "map_of (cp_clients p) key = None \<and> cp_maxSize p \<le> int (length (cp_clients p))")
  case True
  then obtain key' t where "(key', t) \<in> set (cp_lastUsed p)" "\<forall>e \<in> set (cp_lastUsed p). t \<le> snd e"
      "pool_make_room used p = drop_keys (\<lambda>k. k = key') p"
    using make_room_evicts [OF assms(1,3)] by metis
  moreover have "map_of (cp_clients (drop_keys (\<lambda>k. k = key') p)) = (map_of (cp_clients p))(key' := None)"
    by (auto simp: map_of_drop_keys)
  moreover have "int (length (cp_clients p)) \<le> cp_maxSize p"
    using assms(1) by (simp add: pool_ok_def)
  ultimately show thesis
    using full [of key' t] True assms(2) by (simp add: assms(5) pool_Put_def assms(4) [symmetric] Let_def update_conv')
next
  case False
  then have "\<not> cp_closed q \<and> map_of (cp_clients q) = (map_of (cp_clients p))(key \<mapsto> c)"
    using assms(2) by (cases "map_of (cp_clients p) key")
      (auto simp: assms(5) pool_Put_def assms(4) [symmetric] Let_def update_conv' pool_make_room_def)
  then show thesis
    using room by blast
qed

text \<open>C27: A client that was stored is found again under its provider, model and configuration and under no other, the
  entries of all others stay as they were, and when the pool was full the one entry given up is one that was least
  recently used.\<close>

theorem pooled_client_found:
  assumes "pool_ok p" "\<not> cp_closed p" "mset used = mset (cp_lastUsed p)" "plain_name provider model"
    and "q = pool_Put used provider model (Some c) fingerprint now p"
  shows "snd (pool_Get provider model fingerprint later q) = Some c \<and>
    (\<forall>provider' model' fingerprint'. plain_name provider' model' \<longrightarrow> (provider', model', fingerprint') \<noteq> (provider, model, fingerprint) \<longrightarrow>
       snd (pool_Get provider' model' fingerprint' later q) = snd (pool_Get provider' model' fingerprint' later p) \<or>
       snd (pool_Get provider' model' fingerprint' later q) = None \<and> int (pool_Size p) = cp_maxSize p \<and>
       snd (pool_Get provider model fingerprint later p) = None \<and>
       (\<exists>t. (scopedPoolKey provider' model' fingerprint', t) \<in> set (cp_lastUsed p) \<and> (\<forall>e \<in> set (cp_lastUsed p). t \<le> snd e)))"
proof -
  define key where "key = scopedPoolKey provider model fingerprint"
  have get: "snd (pool_Get pr m f later s) = (if cp_closed s then None else map_of (cp_clients s) (scopedPoolKey pr m f))" for pr m f s
    by (simp add: pool_Get_def Let_def split: option.splits)
  have other: "scopedPoolKey pr m f \<noteq> key" if "plain_name pr m" "(pr, m, f) \<noteq> (provider, model, fingerprint)" for pr m f
    using scopedPoolKey_inj [OF that(1) assms(4), of f fingerprint] that(2) by (auto simp: key_def)
  show ?thesis
    using assms(1-3) key_def assms(5)
  proof (cases rule: pool_Put_clients)
    case room
    then show ?thesis
      using other by (simp add: get assms(2) key_def [symmetric])
  next
    case full
    then show ?thesis
      using other by (auto simp: get assms(2) key_def [symmetric] pool_Size_def)
  qed
qed

theorem pooled_client_found_witness:
  "snd (pool_Get ''b'' ''m'' ''f'' 40
     (pool_Put [(''a:m'', 10)] ''b'' ''m'' (Some 2) ''f'' 30 (pool_exec (PoolPut [] ''a'' ''m'' (Some 1) [] 10) (NewClientPool 1)))) = Some 2"
proof -
  define p where "p = pool_exec (PoolPut [] ''a'' ''m'' (Some 1) [] 10) (NewClientPool 1)"
  have "pool_ok p" "\<not> cp_closed p" "mset [(''a:m'', 10)] = mset (cp_lastUsed p)"
    by (simp_all add: p_def pool_run_defs pool_ok_def)
  moreover have "plain_name ''b'' ''m''"
    by (simp add: plain_name_def key_colon_def)
  ultimately show ?thesis
    using pooled_client_found [of p "[(''a:m'', 10)]" "''b''" "''m''"] unfolding p_def [symmetric] by simp
qed

text \<open>
  \<open>FlushProvider\<close> removes what is pooled under the provider and nothing else, but a creation in flight is stored
  after the flush: a client that was built with the old key survives, and its callers receive it.
\<close>

theorem flush_removes_provider:
  assumes "\<not> cp_closed p" "key_colon \<notin> set provider'"
  shows "map_of (cp_clients (FlushProvider provider p)) (scopedPoolKey provider' model fingerprint) =
    (if provider' = provider then None else map_of (cp_clients p) (scopedPoolKey provider' model fingerprint))"
  using assms by (simp add: FlushProvider_def map_of_drop_keys key_provider_is_scoped)

theorem flush_misses_creation_in_flight:
  "let p = fold pool_exec [PoolBegin ''a'' ''m'' ''old'' 10, PoolFlush ''a'',
             PoolEnd [] (scopedPoolKey ''a'' ''m'' ''old'') 0 (Some 1) None 20] (NewClientPool 5)
   in snd (pool_Get ''a'' ''m'' ''old'' 30 p) = Some 1 \<and> cp_results p 0 = Some (Inr 1) \<and> cp_closeCalls p = []"
  by (simp add: pool_run_defs)

end
