(* ===== verification/Spec2Isabelle.thy ===== *)
theory Spec2Isabelle
  imports PlanProps PlanSched CoordMain ManagerProps CircuitBreaker LRUCache ThinkParser ToolPairs Version ErrorPolicy UndoHistory IPValidator PermScope LoopSched RateLimiter ClientPool
begin

text \<open>
  A verification development for the core of \<open>gokin\<close>, an AI coding agent written in Go. The agent turns a request into
  a plan, runs the plan's steps through sub-agents, lets every tool call pass a permission check, records file
  changes so that they can be undone, and talks to model providers through retrying, filtering clients. The parts
  modelled are those whose correctness is a matter of logic and not of I/O.

  \<^bold>\<open>The parts and their theories.\<close> Paths are under \<open>src/internal\<close>.

  \<^item> \<^emph>\<open>Plans\<close> (\<open>plan/plan.go\<close>, \<open>plan/lifecycle.go\<close>). \<open>PlanData\<close> has the records of \<open>Step\<close>, \<open>Plan\<close> and the run ledger;
    \<open>Lifecycle\<close> the state machine; \<open>PlanCore\<close> one definition per method of \<open>Plan\<close>; \<open>PlanSched\<close> the choice of the
    next steps (\<open>ShouldSkip\<close>, \<open>NextReadySteps\<close>, file conflicts). \<open>PlanInv\<close> has the invariant of a plan and the locale
    of updates of a single step, \<open>PlanProps\<close> the results: reachable plans are well formed, and no step
    completes without evidence.
  \<^item> \<^emph>\<open>The plan manager\<close> (\<open>plan/executor.go\<close>, \<open>plan/undo.go\<close>). \<open>PlanUndo\<close> is the checkpoint history of executions,
    \<open>PlanManager\<close> the slot of the active plan with approval, hand-off, replanning, resuming and notifications, over a
    heap of plans that callers may hold on to. \<open>ManagerInv\<close> is the relation of everything the manager can do,
    \<open>ManagerProps\<close> what holds of it: only the approved, active plan is handed off, and at most once.
  \<^item> \<^emph>\<open>The coordinator\<close> (\<open>agent/coordinator.go\<close>, \<open>agent/priority_queue.go\<close>). \<open>GoHeap\<close> is Go's \<open>container/heap\<close> with
    its interface as a locale, \<open>TaskQueue\<close> the queue that refines a sorted list, \<open>Coordinator\<close> the operations on
    the task graph. \<open>CoordInv\<close>, \<open>CoordOps\<close> and \<open>CoordSteps\<close> prove the invariant for every operation, \<open>CoordProps\<close> makes
    the interleaved system of locked sections and callbacks a step relation, and \<open>CoordLive\<close> and \<open>CoordMain\<close> have the
    results: dependencies are respected, every task ends, each is reported once, completion is final.
  \<^item> \<^emph>\<open>Undo\<close> (\<open>undo/\<close>, \<open>fileutil/atomic.go\<close>). \<open>AtomicFile\<close> is the atomic replacement of a file, step by step over the
    calls of the operating system, with the uncertain commit as one of its outcomes; \<open>UndoFiles\<close> is the reversal of single changes on the file system with its pre-flight
    simulation, \<open>UndoManager\<close> the tracker and the manager, \<open>UndoProps\<close> what each operation does to the history,
    \<open>UndoSafety\<close> that a conflicting tree is never written and redo takes back an undo of what the tools record, \<open>UndoHistory\<close> that the snapshots
    the plan layer takes tell exactly whether a plan can be undone.
  \<^item> \<^emph>\<open>Permissions\<close> (\<open>permission/\<close>). \<open>Wildcard\<close> is the pattern matcher, \<open>BashRules\<close> the bash patterns and the danger
    classifier, \<open>BashInspect\<close> the parser of side-effect-free commands, \<open>GoPath\<close> the path functions, \<open>ToolRules\<close> the
    rule lists and their matching, \<open>PermRules\<close> policies, requests and the context of a call, \<open>PermManager\<close> the
    manager with its scopes and session caches. \<open>PermProps\<close> proves the check (denies are final, nothing runs without an
    authority, the confirmation floors), \<open>PermRevision\<close> the revisions (answers count only for the policy they were
    asked under, session approvals, revocation) and \<open>PermScope\<close> the scopes of plan steps and skill grants.
  \<^item> \<^emph>\<open>Loops\<close> (\<open>loops/\<close>), tasks that run again and again unattended. \<open>LoopTypes\<close> is one loop: what an iteration adds, when
    it runs next, the breakers that pause it, what its JSON encoding keeps (on \<open>JsonText\<close>); \<open>LoopManager\<close> the manager with
    its state files, where a write succeeds, fails, or is visible and reported as failed; \<open>LoopRunner\<close> the scheduler,
    the reading of an iteration's output and the writer of the markdown files. \<open>LoopInv\<close> has the invariant of the
    manager and the contract of its operations, \<open>LoopText\<close> the bounds on what is recorded, \<open>LoopSystem\<close> the state
    machine of users, scheduler, iteration and restarts; \<open>LoopProps\<close> and \<open>LoopSched\<close> have the results: loops stay sound and,
    unless a commit was uncertain, survive restarts, finished ones stay finished, no due loop starves, only recorded work is reported.
  \<^item> \<^emph>\<open>Rate limiting\<close> (\<open>ratelimit/\<close>). \<open>RateBucket\<close> is the token bucket, with the law that what is granted was refilled
    or put in, over all its operations, and that waiting ends, \<open>RateLimiter\<close> the limiter on two buckets, whose attempts are all or nothing.
  \<^item> \<^emph>\<open>Provider clients\<close> (\<open>client/\<close>, \<open>context/tool_pairs.go\<close>, \<open>robustness/circuit_breaker.go\<close>). \<open>ThinkParser\<close> is the
    streaming tag parser, \<open>ToolPairs\<close> the hygiene of histories, \<open>ErrorPolicy\<close> classification, backoff and retry
    decisions, \<open>CircuitBreaker\<close> the breaker in both modes (the windowed one does what its full history demands), \<open>ClientPool\<close> the pool that shares clients: it closes each
    client it took over exactly once, and keys tell configurations apart.
  \<^item> \<^emph>\<open>Shared\<close>: \<open>LRUCache\<close> (\<open>cache/lru.go\<close>), used by the session decisions of the permission manager; \<open>Version\<close>
    (\<open>update/version.go\<close>); \<open>IPValidator\<close> (\<open>security/ip_validator.go\<close>) on \<open>GoNet\<close>, the addresses of Go's \<open>net\<close>.
  \<^item> \<^emph>\<open>Go\<close>: \<open>Prelude\<close> (clock, durations, list lemmas), \<open>GoStrings\<close>, \<open>GoRunes\<close>, \<open>JsonText\<close> (a string through
    \<open>encoding/json\<close>), \<open>GoFormat\<close>, \<open>GoInt\<close>, \<open>GoPath\<close>, \<open>GoNet\<close>,
    \<open>GoHeap\<close>.

  \<^bold>\<open>How code becomes definitions.\<close> A struct is a record and a method a function that returns the changed record; a
  mutex makes a locked section one step. Where objects are shared the state is a store: plans of the plan
  manager, tasks of the coordinator, managers and caches of the permission manager are addresses in it. A
  callback (approval handler, prompt handler, task callback) is an argument that may interleave any further calls,
  or an event in an output list where its effect does not come back. An error is \<open>Inl\<close> its text or an
  option; a Go string is a list of bytes. \<open>time.Now()\<close> is an argument, one per reading. Go's \<open>int\<close> is \<open>int\<close> with
  the 64-bit bound written out where the code can reach it, a revision counter is a 64-bit word. Where the code ranges
  over a Go map the model takes one order and the results do not depend on it; the client pool takes the order as an
  argument. The \<open>float64\<close> amounts of the rate limiter
  are rational numbers, so that its results are those of exact arithmetic, and the counters of a loop are unbounded. What is outside (file
  system, name lookup, \<open>strconv.Quote\<close>, glob library, URL parser, JSON, hash, sub-agents) is an argument; what a
  result needs of it is a named hypothesis with a concrete instance in the witness (\<open>os_laws\<close> for the file
  system, \<open>prompt_runs\<close> for the prompt).

  \<^bold>\<open>Interfaces.\<close> Locales state what one part promises another and are interpreted on the model's own definitions: the
  update of one step (\<open>PlanInv\<close>), \<open>heap.Interface\<close> (\<open>GoHeap\<close>, for \<open>TaskQueue\<close>), admission to a circuit breaker, the
  cache operations (\<open>LRUCache\<close>), the operations that keep a history (\<open>UndoHistory\<close>), the operations that move a policy
  revision (\<open>PermRevision\<close>, interpreted for each of the fifteen operations), the operations of the loop manager
  (\<open>LoopInv\<close>: a failed one leaves memory alone, and the disk too unless the commit is uncertain; one that is quiet changes
  no history), the calls of a token bucket and what each may be charged for (\<open>RateBucket\<close>), the operations of the client pool (\<open>ClientPool\<close>).

  \<^bold>\<open>Bounds and fuel.\<close> Loops are functions with termination proofs. Fuel is used three times: the eviction loop of the
  cache runs once per element of its list, the loop of \<open>resolvePermissionPath\<close> climbs at most once per byte of the
  path, and the removal of error wrappers from a summary moves at least one byte a time. The waits of a
  blocking call are a list of wake-ups, and \<open>waiting_ends\<close> says how many are enough. Results about revisions are for fewer than \<open>2 ^ 64\<close> operations between two looks at the counter, which wraps.

  \<^bold>\<open>What modelling showed.\<close> \<open>replan_ids_can_collide\<close>, \<open>terminal_error_classified_transient\<close>, \<open>boundary_can_split_a_pair\<close>,
  \<open>default_policy_exact\<close> (every IPv4 address is blocked by the default table), \<open>deny_rule_misses_star\<close>,
  \<open>nested_grant_misses_deny\<close>, \<open>late_approval_under_grant\<close>, \<open>long_waits_are_credited_short\<close>,
  \<open>cancelled_delay_keeps_charge\<close>, \<open>uncertain_stop_diverges\<close>, \<open>longer_path_taken_for_null\<close> and \<open>flush_misses_creation_in_flight\<close> are proved of the code as it is written.

  \<^bold>\<open>Not modelled.\<close> The terminal interface (\<open>ui/\<close>), the wiring (\<open>app/\<close>, \<open>cmd/\<close>), slash commands, tools, HTTP and
  protocol clients, hooks, MCP and plugins, sessions, memory, configuration and self-update are I/O, rendering or glue.
  The agent loop (\<open>agent/agent.go\<close>) is driven by model replies; the coordinator takes what it needs of it as an
  argument. The plan store is JSON and files; the plan manager takes its answers as arguments. Methods called on a nil
  receiver, logging and deep copies (identities on values) are left out. Two processes that share the state files of
  the loops are not modelled, nor are the texts of the iteration prompt and of the markdown files.

  The theorem below ties the two guards in front of a tool call of an approved plan together.
\<close>

section \<open>Plan steps and permissions\<close>

text \<open>
  The scope a plan step runs under widens authority only for the six tools of an approved step: for any other tool
  its policy is the parent's.
\<close>

lemma override_other_tool: "t \<noteq> fst o1 \<Longrightarrow> GetPolicy (apply_override o1 r) t = GetPolicy r t"
  by (auto simp: apply_override_def SetPolicy_def GetPolicy_def split: option.split)

lemma plan_step_scope_policy:
  assumes "t \<notin> fst ` set approvedPlanStepPermissionOverrides"
  shows "GetPolicy (apply_overrides approvedPlanStepPermissionOverrides r) t = GetPolicy r t"
proof -
  have "t \<notin> fst ` set os \<Longrightarrow> GetPolicy (fold apply_override os r) t = GetPolicy r t" for os :: "(string \<times> level) list" and r
    by (induction os arbitrary: r) (simp_all add: override_other_tool)
  with assms show ?thesis by (simp add: apply_overrides_def)
qed

end
